(* ===== verification/Vox_Prelude.thy ===== *)
theory Vox_Prelude
  imports Complex_Main "HOL-Library.Word"
begin

text \<open>
  The prelude of the development: machine integers as the server's Rust code uses them
  (\<open>i32\<close> casts, saturating \<open>usize\<close> addition), the string operations of the Rust standard
  library that the modelled code calls (\<open>strip_prefix\<close>, \<open>trim\<close>, \<open>eq_ignore_ascii_case\<close>),
  exact money arithmetic with the rounding operations of the decimal library as
  parameters, and the lemmas on lists that several components share.

  Text that may hold any Unicode character is a list of code points (\<open>ustring\<close>); text that
  the code restricts to ASCII is a HOL \<open>string\<close>.
\<close>

named_theorems machine_simps \<open>machine integers and casts\<close>
named_theorems str_simps \<open>string operations of the Rust standard library\<close>
named_theorems money_simps \<open>unfolding of the money operations\<close>

section \<open>Machine integers\<close>

definition i32_max :: int where
  "i32_max = 2147483647"

definition i32_min :: int where
  "i32_min = - 2147483648"

definition in_i32 :: "int \<Rightarrow> bool" where
  "in_i32 x \<longleftrightarrow> i32_min \<le> x \<and> x \<le> i32_max"

text \<open>Two's complement wrap-around at 32 bits: release-mode arithmetic and the \<open>as i32\<close> cast.\<close>

definition wrap_i32 :: "int \<Rightarrow> int" where
  "wrap_i32 x = (x + 2147483648) mod 4294967296 - 2147483648"

lemma wrap_i32_id [machine_simps]: "in_i32 x \<Longrightarrow> wrap_i32 x = x"
  by (simp add: wrap_i32_def in_i32_def i32_min_def i32_max_def)

lemma wrap_i32_range: "in_i32 (wrap_i32 x)"
proof -
  have "0 \<le> (x + 2147483648) mod 4294967296" and "(x + 2147483648) mod 4294967296 < 4294967296"
    by simp_all
  then show ?thesis by (simp add: wrap_i32_def in_i32_def i32_min_def i32_max_def)
qed

lemma in_i32_between:
  "in_i32 a \<Longrightarrow> in_i32 b \<Longrightarrow> a \<le> x \<Longrightarrow> x \<le> b \<Longrightarrow> in_i32 x"
  by (auto simp: in_i32_def)

lemma in_i32_nonneg: "0 \<le> x \<Longrightarrow> x \<le> i32_max \<Longrightarrow> in_i32 x"
  by (simp add: in_i32_def i32_min_def i32_max_def)

definition usize_max :: nat where
  "usize_max = 18446744073709551615"

text \<open>\<open>usize::saturating_add\<close> on a 64-bit target.\<close>

definition saturating_add :: "nat \<Rightarrow> nat \<Rightarrow> nat" where
  "saturating_add a b = min (a + b) usize_max"

lemma saturating_add_le: "saturating_add a b \<le> usize_max"
  by (simp add: saturating_add_def)

section \<open>Strings\<close>

type_synonym ustring = "nat list"

text \<open>An ASCII literal as code points.\<close>

definition ustr :: "string \<Rightarrow> ustring" where
  "ustr s = map of_char s"

fun strip_prefix :: "'a list \<Rightarrow> 'a list \<Rightarrow> 'a list option" where
  "strip_prefix [] s = Some s"
| "strip_prefix (p # ps) [] = None"
| "strip_prefix (p # ps) (c # cs) = (if p = c then strip_prefix ps cs else None)"

definition starts_with :: "'a list \<Rightarrow> 'a list \<Rightarrow> bool" where
  "starts_with s p \<longleftrightarrow> strip_prefix p s \<noteq> None"

lemma strip_prefix_Some [str_simps]: "strip_prefix p s = Some r \<longleftrightarrow> s = p @ r"
  by (induction p s rule: strip_prefix.induct) auto

lemma starts_with_iff [str_simps]: "starts_with s p \<longleftrightarrow> (\<exists>r. s = p @ r)"
  by (simp add: starts_with_def not_None_eq str_simps)

lemma starts_with_take: "starts_with s p \<longleftrightarrow> take (length p) s = p"
proof
  assume "starts_with s p"
  then show "take (length p) s = p" by (auto simp: str_simps)
next
  assume "take (length p) s = p"
  then have "s = p @ drop (length p) s" by (metis append_take_drop_id)
  then show "starts_with s p" by (auto simp: str_simps)
qed

text \<open>The Unicode \<open>White_Space\<close> characters, which \<open>str::trim\<close> strips from both ends.\<close>

definition is_whitespace :: "nat \<Rightarrow> bool" where
  "is_whitespace c \<longleftrightarrow>
     (9 \<le> c \<and> c \<le> 13) \<or> c = 32 \<or> c = 133 \<or> c = 160 \<or> c = 5760 \<or> (8192 \<le> c \<and> c \<le> 8202)
     \<or> c = 8232 \<or> c = 8233 \<or> c = 8239 \<or> c = 8287 \<or> c = 12288"

definition trim :: "ustring \<Rightarrow> ustring" where
  "trim s = rev (dropWhile is_whitespace (rev (dropWhile is_whitespace s)))"

lemma dropWhile_hd: "xs \<noteq> [] \<Longrightarrow> \<not> P (hd xs) \<Longrightarrow> dropWhile P xs = xs"
  by (cases xs) simp_all

lemma trim_id:
  "s \<noteq> [] \<Longrightarrow> \<not> is_whitespace (hd s) \<Longrightarrow> \<not> is_whitespace (last s) \<Longrightarrow> trim s = s"
  by (simp add: trim_def dropWhile_hd hd_rev)

text \<open>\<open>eq_ignore_ascii_case\<close>.\<close>

definition ascii_lower :: "char \<Rightarrow> char" where
  "ascii_lower c =
     (let n = of_char c :: nat in if 65 \<le> n \<and> n \<le> 90 then char_of (n + 32) else c)"

definition eq_ignore_ascii_case :: "string \<Rightarrow> string \<Rightarrow> bool" where
  "eq_ignore_ascii_case a b \<longleftrightarrow> map ascii_lower a = map ascii_lower b"

lemma eq_ignore_ascii_case_refl [simp]: "eq_ignore_ascii_case a a"
  by (simp add: eq_ignore_ascii_case_def)

section \<open>Searching a list\<close>

text \<open>\<open>find\<close> returns the first match: the shared fact about table lookups.\<close>

lemma find_Some_split:
  "find P xs = Some x \<longleftrightarrow> (\<exists>ys zs. xs = ys @ x # zs \<and> P x \<and> (\<forall>y \<in> set ys. \<not> P y))"
proof (induction xs)
  case Nil
  then show ?case by simp
next
  case (Cons a xs)
  show ?case
  proof (cases "P a")
    case True
    then show ?thesis by (auto simp: Cons_eq_append_conv)
  next
    case False
    with Cons.IH show ?thesis
      by (auto simp: Cons_eq_append_conv) (metis list.set_intros(2) set_ConsD)
  qed
qed

lemma find_SomeD: "find P xs = Some x \<Longrightarrow> x \<in> set xs \<and> P x"
  by (auto simp: find_Some_split)

section \<open>Driving a partial step function with a sequence of events\<close>

text \<open>
  \<open>None\<close> means the event does not move the state, as the webhook handler reads the
  lifecycle function. \<open>moves\<close> counts the events that moved it, \<open>entries\<close> those that
  moved it into a state of \<open>P\<close>.
\<close>

definition apply_event :: "('s \<Rightarrow> 'e \<Rightarrow> 's option) \<Rightarrow> 's \<Rightarrow> 'e \<Rightarrow> 's" where
  "apply_event step s e = (case step s e of None \<Rightarrow> s | Some t \<Rightarrow> t)"

fun run_events :: "('s \<Rightarrow> 'e \<Rightarrow> 's option) \<Rightarrow> 's \<Rightarrow> 'e list \<Rightarrow> 's" where
  "run_events step s [] = s"
| "run_events step s (e # es) = run_events step (apply_event step s e) es"

fun moves :: "('s \<Rightarrow> 'e \<Rightarrow> 's option) \<Rightarrow> 's \<Rightarrow> 'e list \<Rightarrow> nat" where
  "moves step s [] = 0"
| "moves step s (e # es) =
     (case step s e of None \<Rightarrow> moves step s es | Some t \<Rightarrow> Suc (moves step t es))"

fun entries :: "('s \<Rightarrow> 'e \<Rightarrow> 's option) \<Rightarrow> ('s \<Rightarrow> bool) \<Rightarrow> 's \<Rightarrow> 'e list \<Rightarrow> nat" where
  "entries step P s [] = 0"
| "entries step P s (e # es) =
     (case step s e of
        None \<Rightarrow> entries step P s es
      | Some t \<Rightarrow> (if P t then 1 else 0) + entries step P t es)"

lemma run_events_append: "run_events step s (xs @ ys) = run_events step (run_events step s xs) ys"
  by (induction xs arbitrary: s) simp_all

section \<open>Money\<close>

text \<open>
  Amounts are exact decimals (\<open>rust_decimal::Decimal\<close>: a 96-bit mantissa with a scale of at
  most 28), modelled as rationals: comparison, \<open>+\<close>, \<open>-\<close>, \<open>*\<close> and \<open>ceil\<close> are exact as long as
  the result has at most 28 significant digits, which every amount of this code has. The two
  operations that round, division and \<open>round_dp\<close>, are parameters. What the code relies on,
  from the documentation of that library: \<open>round_dp\<close> returns a nearest multiple of
  \<open>10\<^sup>-\<^sup>n\<close>, and a quotient below \<open>10\<^sup>9\<close> is exact when it has at most 18 decimals and
  otherwise correct to 18 decimals and of the right sign.
\<close>

type_synonym usd = rat

record decimal_ops =
  dec_div :: "rat \<Rightarrow> rat \<Rightarrow> rat"
  dec_round :: "rat \<Rightarrow> nat \<Rightarrow> rat"

definition grid :: "nat \<Rightarrow> rat \<Rightarrow> bool" where
  "grid n v \<longleftrightarrow> v * 10 ^ n \<in> \<int>"

definition decimal_laws :: "decimal_ops \<Rightarrow> bool" where
  "decimal_laws D \<longleftrightarrow>
     (\<forall>v n. grid n (dec_round D v n) \<and> \<bar>dec_round D v n - v\<bar> \<le> 1 / (2 * 10 ^ n))
     \<and> (\<forall>a b. b \<noteq> 0 \<and> \<bar>a / b\<bar> < 10 ^ 9 \<longrightarrow>
          \<bar>dec_div D a b - a / b\<bar> \<le> 1 / 10 ^ 18
          \<and> (grid 18 (a / b) \<longrightarrow> dec_div D a b = a / b)
          \<and> (0 \<le> a / b \<longrightarrow> 0 \<le> dec_div D a b))"

text \<open>A concrete instance: exact division, rounding half up.\<close>

definition exact_decimal :: decimal_ops where
  "exact_decimal =
     \<lparr>dec_div = (\<lambda>a b. a / b), dec_round = (\<lambda>v n. of_int \<lfloor>v * 10 ^ n + 1 / 2\<rfloor> / 10 ^ n)\<rparr>"

lemma grid_of_int: "grid n (of_int k / 10 ^ n)"
  by (simp add: grid_def)

lemma gridE:
  assumes "grid n v"
  obtains k :: int where "v = of_int k / 10 ^ n"
proof -
  from assms obtain k where "v * 10 ^ n = of_int k" by (auto simp: grid_def elim: Ints_cases)
  then have "v = of_int k / 10 ^ n" by (simp add: field_simps)
  then show ?thesis by (rule that)
qed

lemma grid_mono: "grid m v \<Longrightarrow> m \<le> n \<Longrightarrow> grid n v"
proof -
  assume "grid m v" "m \<le> n"
  then have "v * 10 ^ n = v * 10 ^ m * of_int (10 ^ (n - m))"
    by (simp flip: power_add)
  with \<open>grid m v\<close> show ?thesis unfolding grid_def by (metis Ints_mult Ints_of_int)
qed

lemma grid_add: "grid n a \<Longrightarrow> grid n b \<Longrightarrow> grid n (a + b)"
  by (simp add: grid_def distrib_right)

lemma grid_diff: "grid n a \<Longrightarrow> grid n b \<Longrightarrow> grid n (a - b)"
  by (simp add: grid_def left_diff_distrib)

lemma grid_mult: "grid m a \<Longrightarrow> grid n b \<Longrightarrow> grid (m + n) (a * b)"
proof -
  assume "grid m a" "grid n b"
  then have "(a * 10 ^ m) * (b * 10 ^ n) \<in> \<int>" by (simp add: grid_def)
  then show ?thesis by (simp add: grid_def power_add mult_ac)
qed

lemma grid_of_int_0 [simp]: "grid n (of_int k)"
  by (simp add: grid_def)

lemma grid_of_nat [simp]: "grid n (of_nat k)"
  by (simp add: grid_def)

text \<open>Two multiples of \<open>10\<^sup>-\<^sup>n\<close> that differ by less than that are in order.\<close>

lemma grid_le: "grid n a \<Longrightarrow> grid n b \<Longrightarrow> a < b + 1 / 10 ^ n \<Longrightarrow> a \<le> b"
proof -
  assume "grid n a" "grid n b" and lt: "a < b + 1 / 10 ^ n"
  then obtain j k :: int where a: "a = of_int j / 10 ^ n" and b: "b = of_int k / 10 ^ n"
    by (elim gridE)
  from lt have "(of_int j :: rat) < of_int (k + 1)"
    by (simp add: a b field_simps)
  then have "j \<le> k" by (simp only: of_int_less_iff)
  then show ?thesis by (simp add: a b divide_right_mono)
qed

lemma dec_round_grid: "decimal_laws D \<Longrightarrow> grid n (dec_round D v n)"
  by (simp add: decimal_laws_def)

lemma dec_round_near:
  assumes "decimal_laws D"
  shows "dec_round D v n \<le> v + 1 / (2 * 10 ^ n)" "v - 1 / (2 * 10 ^ n) \<le> dec_round D v n"
proof -
  have "\<bar>dec_round D v n - v\<bar> \<le> 1 / (2 * 10 ^ n)"
    using assms by (simp add: decimal_laws_def)
  then show "dec_round D v n \<le> v + 1 / (2 * 10 ^ n)" "v - 1 / (2 * 10 ^ n) \<le> dec_round D v n"
    by linarith+
qed

lemma dec_round_exact:
  assumes "decimal_laws D" and "grid n v"
  shows "dec_round D v n = v"
proof (rule antisym)
  have pos: "1 / (2 * 10 ^ n) < 1 / (10 ^ n :: rat)" by (simp add: field_simps)
  show "dec_round D v n \<le> v"
    using grid_le [OF dec_round_grid [OF assms(1)] assms(2)] dec_round_near(1) [OF assms(1), of v n]
      pos by (meson add_strict_left_mono order_le_less_trans)
  have "v \<le> dec_round D v n + 1 / (2 * 10 ^ n)"
    using dec_round_near(2) [OF assms(1), of v n] by linarith
  then show "v \<le> dec_round D v n"
    using grid_le [OF assms(2) dec_round_grid [OF assms(1)]] pos
    by (meson add_strict_left_mono order_le_less_trans)
qed

lemma dec_round_ge:
  assumes "decimal_laws D" and "grid n m" and "m - 1 / (2 * 10 ^ n) < v"
  shows "m \<le> dec_round D v n"
proof (rule grid_le [OF assms(2) dec_round_grid [OF assms(1)]])
  have "1 / (2 * 10 ^ n) + 1 / (2 * 10 ^ n) = 1 / (10 ^ n :: rat)" by (simp add: field_simps)
  then show "m < dec_round D v n + 1 / 10 ^ n"
    using assms(3) dec_round_near(2) [OF assms(1), of v n] by linarith
qed

lemma dec_div_near:
  assumes "decimal_laws D" and "b \<noteq> 0" and "\<bar>a / b\<bar> < 10 ^ 9"
  shows "dec_div D a b \<le> a / b + 1 / 10 ^ 18" "a / b - 1 / 10 ^ 18 \<le> dec_div D a b"
proof -
  have "\<bar>dec_div D a b - a / b\<bar> \<le> 1 / 10 ^ 18"
    using assms by (simp add: decimal_laws_def)
  then show "dec_div D a b \<le> a / b + 1 / 10 ^ 18" "a / b - 1 / 10 ^ 18 \<le> dec_div D a b"
    by linarith+
qed

lemma dec_div_exact:
  "decimal_laws D \<Longrightarrow> b \<noteq> 0 \<Longrightarrow> \<bar>a / b\<bar> < 10 ^ 9 \<Longrightarrow> grid 18 (a / b) \<Longrightarrow> dec_div D a b = a / b"
  by (simp add: decimal_laws_def)

lemma dec_div_nonneg:
  "decimal_laws D \<Longrightarrow> b \<noteq> 0 \<Longrightarrow> \<bar>a / b\<bar> < 10 ^ 9 \<Longrightarrow> 0 \<le> a / b \<Longrightarrow> 0 \<le> dec_div D a b"
  by (simp add: decimal_laws_def)

lemma exact_decimal_laws: "decimal_laws exact_decimal"
proof -
  have "\<bar>of_int \<lfloor>v * 10 ^ n + 1 / 2\<rfloor> / 10 ^ n - v\<bar> \<le> 1 / (2 * 10 ^ n)" for v :: rat and n
  proof -
    have "\<bar>of_int \<lfloor>v * 10 ^ n + 1 / 2\<rfloor> - v * 10 ^ n\<bar> \<le> 1 / 2"
      by linarith
    then have "\<bar>of_int \<lfloor>v * 10 ^ n + 1 / 2\<rfloor> - v * 10 ^ n\<bar> / 10 ^ n \<le> 1 / 2 / 10 ^ n"
      by (rule divide_right_mono) simp
    moreover have "of_int \<lfloor>v * 10 ^ n + 1 / 2\<rfloor> / 10 ^ n - v =
        (of_int \<lfloor>v * 10 ^ n + 1 / 2\<rfloor> - v * 10 ^ n) / 10 ^ n"
      by (simp add: diff_divide_distrib)
    ultimately show ?thesis by (simp only: abs_divide) simp
  qed
  then show ?thesis
    by (simp add: decimal_laws_def exact_decimal_def grid_of_int)
qed

text \<open>\<open>Decimal::to_i32\<close>: \<open>None\<close> out of range; and the ceiling as the code takes it.\<close>

definition to_i32_or_max :: "int \<Rightarrow> int" where
  "to_i32_or_max k = (if in_i32 k then k else i32_max)"

end
