(* ===== verification/Call_State.thy ===== *)
theory Call_State
  imports Vox_Prelude "HOL-Library.Multiset"
begin

text \<open>
  The call lifecycle, \<^verbatim>\<open>server/src/voip/state.rs\<close>: the states and their persisted names,
  the failure reasons, the lifecycle events, the predicates that billing reads, and the
  transition function \<open>call_next\<close> (the source's \<open>next\<close>).
\<close>

section \<open>States, reasons, events\<close>

datatype CallState =
  Created | Dialing | Ringing | Answered | Bridged | Ending | Completed | Failed

fun callstate_as_str :: "CallState \<Rightarrow> string" where
  "callstate_as_str Created = ''created''"
| "callstate_as_str Dialing = ''dialing''"
| "callstate_as_str Ringing = ''ringing''"
| "callstate_as_str Answered = ''answered''"
| "callstate_as_str Bridged = ''bridged''"
| "callstate_as_str Ending = ''ending''"
| "callstate_as_str Completed = ''completed''"
| "callstate_as_str Failed = ''failed''"

definition callstate_parse :: "string \<Rightarrow> CallState option" where
  "callstate_parse raw =
     (if raw = ''created'' then Some Created
      else if raw = ''dialing'' then Some Dialing
      else if raw = ''ringing'' then Some Ringing
      else if raw = ''answered'' then Some Answered
      else if raw = ''bridged'' then Some Bridged
      else if raw = ''ending'' then Some Ending
      else if raw = ''completed'' then Some Completed
      else if raw = ''failed'' then Some Failed
      else None)"

fun callstate_rank :: "CallState \<Rightarrow> nat" where
  "callstate_rank Created = 0"
| "callstate_rank Dialing = 1"
| "callstate_rank Ringing = 2"
| "callstate_rank Answered = 3"
| "callstate_rank Bridged = 4"
| "callstate_rank Ending = 5"
| "callstate_rank Completed = 6"
| "callstate_rank Failed = 6"

definition is_terminal :: "CallState \<Rightarrow> bool" where
  "is_terminal s \<longleftrightarrow> s = Completed \<or> s = Failed"

definition is_billable :: "CallState \<Rightarrow> bool" where
  "is_billable s \<longleftrightarrow> s = Answered \<or> s = Bridged \<or> s = Ending"

definition was_answered :: "CallState \<Rightarrow> bool" where
  "was_answered s \<longleftrightarrow> callstate_rank s \<ge> callstate_rank Answered \<and> \<not> is_terminal s"

datatype FailureReason =
  Busy | Rejected | NoAnswer | Unallocated | DestinationNotAllowed | DestinationTooExpensive
| RateUnavailable | InsufficientCredits | CreditsExhausted | EuProcessingUnavailable
| ConcurrencyLimit | MaxDurationReached | MediaLost | ProviderUnavailable | EngineUnavailable
| ConsentDeclined | Unmapped

fun failure_as_str :: "FailureReason \<Rightarrow> string" where
  "failure_as_str Busy = ''busy''"
| "failure_as_str Rejected = ''rejected''"
| "failure_as_str NoAnswer = ''no_answer''"
| "failure_as_str Unallocated = ''unallocated_number''"
| "failure_as_str DestinationNotAllowed = ''destination_not_allowed''"
| "failure_as_str DestinationTooExpensive = ''destination_too_expensive''"
| "failure_as_str RateUnavailable = ''rate_unavailable''"
| "failure_as_str InsufficientCredits = ''insufficient_credits''"
| "failure_as_str CreditsExhausted = ''credits_exhausted''"
| "failure_as_str EuProcessingUnavailable = ''eu_processing_unavailable''"
| "failure_as_str ConcurrencyLimit = ''concurrency_limit''"
| "failure_as_str MaxDurationReached = ''max_duration_reached''"
| "failure_as_str MediaLost = ''media_lost''"
| "failure_as_str ProviderUnavailable = ''provider_unavailable''"
| "failure_as_str EngineUnavailable = ''engine_unavailable''"
| "failure_as_str ConsentDeclined = ''consent_declined''"
| "failure_as_str Unmapped = ''unmapped''"

datatype CallEvent =
  EvDialed | EvRinging | EvAnswered | EvMediaEstablished | EvEnding
| EvHangup "FailureReason option" | EvFailed FailureReason

section \<open>The lifecycle function\<close>

text \<open>
  Monotonic: an out-of-order or duplicate event is ignored rather than applied.
\<close>

definition forward_to :: "CallState \<Rightarrow> CallState \<Rightarrow> CallState option" where
  "forward_to state candidate =
     (if callstate_rank candidate > callstate_rank state then Some candidate else None)"

definition call_next :: "CallState \<Rightarrow> CallEvent \<Rightarrow> CallState option" where
  "call_next state event =
     (if is_terminal state then None
      else case event of
             EvDialed \<Rightarrow> forward_to state Dialing
           | EvRinging \<Rightarrow> forward_to state Ringing
           | EvAnswered \<Rightarrow> forward_to state Answered
           | EvMediaEstablished \<Rightarrow> forward_to state Bridged
           | EvEnding \<Rightarrow> forward_to state Ending
           | EvHangup _ \<Rightarrow> Some (if was_answered state then Completed else Failed)
           | EvFailed _ \<Rightarrow> Some Failed)"

section \<open>The predicates and one step\<close>

lemmas callstate_preds = is_terminal_def is_billable_def was_answered_def

lemma parse_as_str: "callstate_parse (callstate_as_str s) = Some s"
  by (cases s) (simp_all add: callstate_parse_def)

lemma parse_Some_as_str: "callstate_parse raw = Some s \<Longrightarrow> callstate_as_str s = raw"
  by (auto simp: callstate_parse_def split: if_splits)

lemma failure_as_str_inj: "failure_as_str a = failure_as_str b \<Longrightarrow> a = b"
  by (cases a; cases b; simp)

lemma rank_le_6: "callstate_rank s \<le> 6"
  by (cases s) simp_all

lemma rank_6_iff: "callstate_rank s = 6 \<longleftrightarrow> is_terminal s"
  by (cases s) (simp_all add: callstate_preds)

lemma rank_inj: "callstate_rank s = callstate_rank t \<Longrightarrow> \<not> is_terminal s \<Longrightarrow> s = t"
  by (cases s; cases t; simp add: callstate_preds)

lemma call_next_terminal: "is_terminal s \<Longrightarrow> call_next s e = None"
  by (simp add: call_next_def)

lemma call_next_forward: "call_next s e = Some t \<Longrightarrow> callstate_rank s < callstate_rank t"
  by (cases s; cases e; auto simp: call_next_def forward_to_def callstate_preds split: if_splits)

lemma call_next_hangup:
  "\<not> is_terminal s \<Longrightarrow>
   call_next s (EvHangup r) = Some (if callstate_rank s \<ge> 3 then Completed else Failed)"
  by (cases s) (simp_all add: call_next_def callstate_preds)

lemma call_next_to_terminal:
  "call_next s e = Some t \<Longrightarrow> is_terminal t \<Longrightarrow> (\<exists>r. e = EvHangup r) \<or> (\<exists>r. e = EvFailed r)"
  by (cases e) (auto simp: call_next_def forward_to_def callstate_preds split: if_splits)

lemma call_next_completed:
  "call_next s e = Some Completed \<Longrightarrow> is_billable s"
  by (cases s; cases e; auto simp: call_next_def forward_to_def callstate_preds split: if_splits)

section \<open>Runs\<close>

text \<open>
  The two laws that every delivery order relies on, and what they give for a whole run.
  The interpretation below discharges them for \<open>call_next\<close>.
\<close>

locale lifecycle =
  fixes step :: "'s \<Rightarrow> 'e \<Rightarrow> 's option"
    and rank :: "'s \<Rightarrow> nat"
    and final :: "'s \<Rightarrow> bool"
  assumes absorbing: "final s \<Longrightarrow> step s e = None"
    and forward: "step s e = Some t \<Longrightarrow> rank s < rank t"
begin

lemma apply_rank: "rank s \<le> rank (apply_event step s e)"
  using forward [of s e] by (fastforce simp: apply_event_def split: option.splits)

lemma run_rank: "rank s \<le> rank (run_events step s es)"
  by (induction es arbitrary: s) (auto intro: order_trans [OF apply_rank])

lemma run_final: "final s \<Longrightarrow> run_events step s es = s"
  by (induction es) (simp_all add: apply_event_def absorbing)

lemma moves_bounded: "moves step s es + rank s \<le> rank (run_events step s es)"
proof (induction es arbitrary: s)
  case Nil
  then show ?case by simp
next
  case (Cons e es)
  show ?case
  proof (cases "step s e")
    case None
    with Cons.IH [of s] show ?thesis by (simp add: apply_event_def)
  next
    case (Some t)
    with forward [of s e t] Cons.IH [of t] show ?thesis by (simp add: apply_event_def)
  qed
qed

lemma entries_from_final: "final s \<Longrightarrow> entries step final s es = 0"
  by (induction es) (simp_all add: absorbing)

lemma entries_le_1: "entries step final s es \<le> 1"
proof (induction es arbitrary: s)
  case Nil
  then show ?case by simp
next
  case (Cons e es)
  then show ?case
    by (cases "step s e") (auto simp: entries_from_final)
qed

end

interpretation call_lc: lifecycle call_next callstate_rank is_terminal
  by unfold_locales (auto intro: call_next_terminal call_next_forward)

section \<open>Redelivered and reordered events\<close>

lemma call_next_None_iff:
  "call_next s e = None \<longleftrightarrow>
     is_terminal s \<or>
     (case e of EvDialed \<Rightarrow> 1 \<le> callstate_rank s | EvRinging \<Rightarrow> 2 \<le> callstate_rank s
      | EvAnswered \<Rightarrow> 3 \<le> callstate_rank s | EvMediaEstablished \<Rightarrow> 4 \<le> callstate_rank s
      | EvEnding \<Rightarrow> 5 \<le> callstate_rank s | EvHangup _ \<Rightarrow> False | EvFailed _ \<Rightarrow> False)"
  by (cases e) (auto simp: call_next_def forward_to_def)

lemma call_next_None_mono:
  "call_next s e = None \<Longrightarrow> callstate_rank s \<le> callstate_rank t \<Longrightarrow> call_next t e = None"
  by (cases e) (auto simp: call_next_None_iff simp flip: rank_6_iff intro: antisym [OF rank_le_6])

lemma call_next_after_apply: "call_next (apply_event call_next s e) e = None"
  by (cases e; cases s; simp add: call_next_def forward_to_def apply_event_def callstate_preds)

lemma call_next_None_run: "e \<in> set es \<Longrightarrow> call_next (run_events call_next s es) e = None"
proof (induction es arbitrary: s)
  case Nil
  then show ?case by simp
next
  case (Cons x es)
  show ?case
  proof (cases "e = x")
    case True
    then show ?thesis
      using call_next_None_mono [OF call_next_after_apply call_lc.run_rank] by simp
  next
    case False
    with Cons show ?thesis by simp
  qed
qed

definition is_progress :: "CallEvent \<Rightarrow> bool" where
  "is_progress e \<longleftrightarrow> (case e of EvHangup _ \<Rightarrow> False | EvFailed _ \<Rightarrow> False | _ \<Rightarrow> True)"

lemma progress_commute:
  "is_progress a \<Longrightarrow> is_progress b \<Longrightarrow>
   apply_event call_next (apply_event call_next s a) b =
   apply_event call_next (apply_event call_next s b) a"
  by (cases a; cases b; cases s;
      simp add: is_progress_def call_next_def forward_to_def apply_event_def callstate_preds)

lemma run_events_fold: "run_events step s es = fold (\<lambda>e s. apply_event step s e) es s"
  by (induction es arbitrary: s) simp_all

section \<open>Properties\<close>

text \<open>
  C33: The lifecycle is total, monotonic and absorbing over every sequence of events, in
  any order and with any duplicates: the rank never goes down, at most \<open>6\<close> events move
  the call, at most one of them ends it, and nothing moves an ended call. This is what
  keeps a late \<open>ringing\<close> from un-answering a call and a late webhook from restarting one.
\<close>

theorem lifecycle_monotone_absorbing:
  "callstate_rank s \<le> callstate_rank (run_events call_next s es)
   \<and> moves call_next s es \<le> 6 - callstate_rank s
   \<and> entries call_next is_terminal s es \<le> 1
   \<and> run_events call_next (run_events call_next s es) fs =
       (if is_terminal (run_events call_next s es) then run_events call_next s es
        else run_events call_next s (es @ fs))"
proof -
  have "moves call_next s es + callstate_rank s \<le> 6"
    using call_lc.moves_bounded [of s es] rank_le_6 [of "run_events call_next s es"] by linarith
  with call_lc.entries_le_1 [of s es] show ?thesis
    by (simp add: call_lc.run_rank call_lc.run_final run_events_append)
qed

text \<open>
  Redelivery is harmless at any distance: an event that was processed anywhere in the
  history does not move the call when the provider sends it again later.
\<close>

theorem redelivery_is_noop:
  assumes "e \<in> set es"
  shows "run_events call_next s (es @ fs @ [e]) = run_events call_next s (es @ fs)"
proof -
  have "call_next (run_events call_next s (es @ fs)) e = None"
    using assms by (intro call_next_None_run) simp
  then show ?thesis
    by (simp add: run_events_append apply_event_def)
qed

theorem redelivery_is_noop_witness:
  "run_events call_next Created [EvDialed, EvAnswered, EvRinging, EvDialed] = Answered"
proof -
  have "run_events call_next Created ([EvDialed] @ [EvAnswered, EvRinging] @ [EvDialed]) =
        run_events call_next Created ([EvDialed] @ [EvAnswered, EvRinging])"
    by (rule redelivery_is_noop) simp
  then show ?thesis
    by (simp add: call_next_def forward_to_def apply_event_def callstate_preds)
qed

text \<open>
  Delivery order is immaterial while the call is alive: two deliveries of the same
  multiset of progress events (everything but a hangup or a failure) leave the call in the
  same state.
\<close>

theorem progress_order_immaterial:
  assumes "list_all is_progress es" and "mset es = mset fs"
  shows "run_events call_next s es = run_events call_next s fs"
proof -
  have "fold (\<lambda>e s. apply_event call_next s e) es = fold (\<lambda>e s. apply_event call_next s e) fs"
    using assms by (intro fold_multiset_equiv) (auto simp: list_all_iff fun_eq_iff progress_commute)
  then show ?thesis by (simp add: run_events_fold)
qed

theorem progress_order_immaterial_witness:
  "run_events call_next Created [EvAnswered, EvRinging, EvDialed] = Answered"
proof -
  have "run_events call_next Created [EvAnswered, EvRinging, EvDialed] =
        run_events call_next Created [EvDialed, EvRinging, EvAnswered]"
    by (rule progress_order_immaterial) (simp_all add: is_progress_def)
  then show ?thesis
    by (simp add: call_next_def forward_to_def apply_event_def callstate_preds)
qed

text \<open>
  A hangup completes the call exactly when somebody answered: from a call that has not
  ended, it is \<open>Completed\<close> when an answer, the media or the teardown has been seen in the
  history, whatever order the events came in, and \<open>Failed\<close> otherwise. Only a billable
  state can become \<open>Completed\<close>, so a call nobody picked up is never settled as one.
\<close>

theorem hangup_completes_iff_answered:
  assumes "list_all is_progress es"
  shows "run_events call_next Created (es @ [EvHangup r]) =
           (if EvAnswered \<in> set es \<or> EvMediaEstablished \<in> set es \<or> EvEnding \<in> set es
            then Completed else Failed)
         \<and> (\<forall>s e. call_next s e = Some Completed \<longrightarrow> is_billable s)"
proof -
  have live: "\<not> is_terminal (run_events call_next Created es) \<and>
      (callstate_rank (run_events call_next Created es) \<ge> 3 \<longleftrightarrow>
        EvAnswered \<in> set es \<or> EvMediaEstablished \<in> set es \<or> EvEnding \<in> set es)"
    using assms
  proof (induction es rule: rev_induct)
    case Nil
    then show ?case by (simp add: callstate_preds)
  next
    case (snoc e es)
    define s where "s = run_events call_next Created es"
    from snoc have "\<not> is_terminal s \<and> (callstate_rank s \<ge> 3 \<longleftrightarrow>
        EvAnswered \<in> set es \<or> EvMediaEstablished \<in> set es \<or> EvEnding \<in> set es)"
      and "is_progress e" by (simp_all add: s_def)
    then show ?case
      unfolding run_events_append s_def [symmetric]
      by (cases e; cases s)
        (auto simp: is_progress_def call_next_def forward_to_def apply_event_def callstate_preds)
  qed
  then show ?thesis
    by (simp add: run_events_append apply_event_def call_next_hangup call_next_completed)
qed

theorem hangup_completes_iff_answered_witness:
  "run_events call_next Created [EvRinging, EvHangup None] = Failed
   \<and> run_events call_next Created [EvAnswered, EvRinging, EvHangup None] = Completed"
  using hangup_completes_iff_answered [of "[EvRinging]" None]
    hangup_completes_iff_answered [of "[EvAnswered, EvRinging]" None]
  by (simp add: is_progress_def)

text \<open>
  Persistence: every state parses back from its persisted name, a name that parses is
  the name of the parsed state (so nothing unknown is read as a live call), and the failure
  codes are pairwise distinct.
\<close>

theorem persisted_names_roundtrip:
  "callstate_parse (callstate_as_str s) = Some s
   \<and> (callstate_parse raw = Some t \<longleftrightarrow> raw = callstate_as_str t)
   \<and> (failure_as_str a = failure_as_str b \<longleftrightarrow> a = b)"
  using parse_as_str parse_Some_as_str failure_as_str_inj by blast

end
