(* ===== verification/E164_Number.thy ===== *)
theory E164_Number
  imports Vox_Prelude
begin

text \<open>
  E.164 destination numbers, \<^verbatim>\<open>server/src/telephony/e164.rs\<close>: normalisation of human input into
  the canonical form, resolution of the calling code and the region, the masked display
  form and the keyed pseudonym. Input text is a list of code points, the digits are ASCII.
  A Rust panic (\<open>expect\<close>, a slice out of range) is \<open>None\<close>; the lemmas show that it never
  happens on a parsed number.
\<close>

section \<open>Tables\<close>

definition MIN_DIGITS :: nat where "MIN_DIGITS = 8"
definition MAX_DIGITS :: nat where "MAX_DIGITS = 15"

definition CALLING_CODES :: "(string \<times> string) list" where
  "CALLING_CODES = [
    (''20'', ''EG''), (''27'', ''ZA''), (''30'', ''GR''), (''31'', ''NL''), (''32'', ''BE''),
    (''33'', ''FR''), (''34'', ''ES''), (''36'', ''HU''), (''39'', ''IT''), (''40'', ''RO''),
    (''41'', ''CH''), (''43'', ''AT''), (''44'', ''GB''), (''45'', ''DK''), (''46'', ''SE''),
    (''47'', ''NO''), (''48'', ''PL''), (''49'', ''DE''), (''51'', ''PE''), (''52'', ''MX''),
    (''53'', ''CU''), (''54'', ''AR''), (''55'', ''BR''), (''56'', ''CL''), (''57'', ''CO''),
    (''58'', ''VE''), (''60'', ''MY''), (''61'', ''AU''), (''62'', ''ID''), (''63'', ''PH''),
    (''64'', ''NZ''), (''65'', ''SG''), (''66'', ''TH''), (''81'', ''JP''), (''82'', ''KR''),
    (''84'', ''VN''), (''86'', ''CN''), (''90'', ''TR''), (''91'', ''IN''), (''92'', ''PK''),
    (''93'', ''AF''), (''94'', ''LK''), (''95'', ''MM''), (''98'', ''IR''), (''211'', ''SS''),
    (''212'', ''MA''), (''213'', ''DZ''), (''216'', ''TN''), (''218'', ''LY''), (''220'', ''GM''),
    (''221'', ''SN''), (''222'', ''MR''), (''223'', ''ML''), (''224'', ''GN''), (''225'', ''CI''),
    (''226'', ''BF''), (''227'', ''NE''), (''228'', ''TG''), (''229'', ''BJ''), (''230'', ''MU''),
    (''231'', ''LR''), (''232'', ''SL''), (''233'', ''GH''), (''234'', ''NG''), (''235'', ''TD''),
    (''236'', ''CF''), (''237'', ''CM''), (''238'', ''CV''), (''239'', ''ST''), (''240'', ''GQ''),
    (''241'', ''GA''), (''242'', ''CG''), (''243'', ''CD''), (''244'', ''AO''), (''245'', ''GW''),
    (''246'', ''IO''), (''248'', ''SC''), (''249'', ''SD''), (''250'', ''RW''), (''251'', ''ET''),
    (''252'', ''SO''), (''253'', ''DJ''), (''254'', ''KE''), (''255'', ''TZ''), (''256'', ''UG''),
    (''257'', ''BI''), (''258'', ''MZ''), (''260'', ''ZM''), (''261'', ''MG''), (''262'', ''RE''),
    (''263'', ''ZW''), (''264'', ''NA''), (''265'', ''MW''), (''266'', ''LS''), (''267'', ''BW''),
    (''268'', ''SZ''), (''269'', ''KM''), (''290'', ''SH''), (''291'', ''ER''), (''297'', ''AW''),
    (''298'', ''FO''), (''299'', ''GL''), (''350'', ''GI''), (''351'', ''PT''), (''352'', ''LU''),
    (''353'', ''IE''), (''354'', ''IS''), (''355'', ''AL''), (''356'', ''MT''), (''357'', ''CY''),
    (''358'', ''FI''), (''359'', ''BG''), (''370'', ''LT''), (''371'', ''LV''), (''372'', ''EE''),
    (''373'', ''MD''), (''374'', ''AM''), (''375'', ''BY''), (''376'', ''AD''), (''377'', ''MC''),
    (''378'', ''SM''), (''379'', ''VA''), (''380'', ''UA''), (''381'', ''RS''), (''382'', ''ME''),
    (''383'', ''XK''), (''385'', ''HR''), (''386'', ''SI''), (''387'', ''BA''), (''389'', ''MK''),
    (''420'', ''CZ''), (''421'', ''SK''), (''423'', ''LI''), (''500'', ''FK''), (''501'', ''BZ''),
    (''502'', ''GT''), (''503'', ''SV''), (''504'', ''HN''), (''505'', ''NI''), (''506'', ''CR''),
    (''507'', ''PA''), (''508'', ''PM''), (''509'', ''HT''), (''590'', ''GP''), (''591'', ''BO''),
    (''592'', ''GY''), (''593'', ''EC''), (''594'', ''GF''), (''595'', ''PY''), (''596'', ''MQ''),
    (''597'', ''SR''), (''598'', ''UY''), (''599'', ''CW''), (''670'', ''TL''), (''672'', ''NF''),
    (''673'', ''BN''), (''674'', ''NR''), (''675'', ''PG''), (''676'', ''TO''), (''677'', ''SB''),
    (''678'', ''VU''), (''679'', ''FJ''), (''680'', ''PW''), (''681'', ''WF''), (''682'', ''CK''),
    (''683'', ''NU''), (''685'', ''WS''), (''686'', ''KI''), (''687'', ''NC''), (''688'', ''TV''),
    (''689'', ''PF''), (''690'', ''TK''), (''691'', ''FM''), (''692'', ''MH''), (''850'', ''KP''),
    (''852'', ''HK''), (''853'', ''MO''), (''855'', ''KH''), (''856'', ''LA''), (''880'', ''BD''),
    (''886'', ''TW''), (''960'', ''MV''), (''961'', ''LB''), (''962'', ''JO''), (''963'', ''SY''),
    (''964'', ''IQ''), (''965'', ''KW''), (''966'', ''SA''), (''967'', ''YE''), (''968'', ''OM''),
    (''970'', ''PS''), (''971'', ''AE''), (''972'', ''IL''), (''973'', ''BH''), (''974'', ''QA''),
    (''975'', ''BT''), (''976'', ''MN''), (''977'', ''NP''), (''992'', ''TJ''), (''993'', ''TM''),
    (''994'', ''AZ''), (''995'', ''GE''), (''996'', ''KG''), (''998'', ''UZ'')
  ]"

definition NANP_AREA_CODES :: "(string \<times> string) list" where
  "NANP_AREA_CODES = [
    (''242'', ''BS''), (''246'', ''BB''), (''264'', ''AI''), (''268'', ''AG''), (''284'', ''VG''),
    (''340'', ''VI''), (''345'', ''KY''), (''441'', ''BM''), (''473'', ''GD''), (''649'', ''TC''),
    (''658'', ''JM''), (''664'', ''MS''), (''670'', ''MP''), (''671'', ''GU''), (''684'', ''AS''),
    (''721'', ''SX''), (''758'', ''LC''), (''767'', ''DM''), (''784'', ''VC''), (''787'', ''PR''),
    (''809'', ''DO''), (''829'', ''DO''), (''849'', ''DO''), (''868'', ''TT''), (''869'', ''KN''),
    (''876'', ''JM''), (''939'', ''PR''), (''204'', ''CA''), (''226'', ''CA''), (''236'', ''CA''),
    (''249'', ''CA''), (''250'', ''CA''), (''289'', ''CA''), (''306'', ''CA''), (''343'', ''CA''),
    (''365'', ''CA''), (''403'', ''CA''), (''416'', ''CA''), (''418'', ''CA''), (''431'', ''CA''),
    (''437'', ''CA''), (''438'', ''CA''), (''450'', ''CA''), (''506'', ''CA''), (''514'', ''CA''),
    (''519'', ''CA''), (''548'', ''CA''), (''579'', ''CA''), (''581'', ''CA''), (''587'', ''CA''),
    (''604'', ''CA''), (''613'', ''CA''), (''639'', ''CA''), (''647'', ''CA''), (''672'', ''CA''),
    (''705'', ''CA''), (''709'', ''CA''), (''742'', ''CA''), (''778'', ''CA''), (''780'', ''CA''),
    (''782'', ''CA''), (''807'', ''CA''), (''819'', ''CA''), (''825'', ''CA''), (''867'', ''CA''),
    (''873'', ''CA''), (''902'', ''CA''), (''905'', ''CA'')
  ]"

section \<open>Calling codes\<close>

text \<open>The loop \<open>for len in [3, 2]\<close> over the table.\<close>

fun table_lookup :: "nat list \<Rightarrow> string \<Rightarrow> (string \<times> string) option" where
  "table_lookup [] digits = None"
| "table_lookup (len # lens) digits =
     (if length digits > len
      then (case find (\<lambda>(c, _). c = take len digits) CALLING_CODES of
              Some entry \<Rightarrow> Some entry
            | None \<Rightarrow> table_lookup lens digits)
      else table_lookup lens digits)"

definition nanp_region :: "string \<Rightarrow> string" where
  "nanp_region area =
     (case find (\<lambda>(a, _). a = take 3 area) NANP_AREA_CODES of
        Some (_, reg) \<Rightarrow> reg
      | None \<Rightarrow> ''US'')"

definition calling_code_of :: "string \<Rightarrow> (string \<times> string) option" where
  "calling_code_of digits =
     (case strip_prefix ''1'' digits of
        Some area \<Rightarrow> (if length area \<ge> 3 then Some (''1'', nanp_region area) else None)
      | None \<Rightarrow>
          (case strip_prefix ''7'' digits of
             Some rest \<Rightarrow>
               (if rest = [] then None
                else Some (''7'', if starts_with rest ''6'' \<or> starts_with rest ''7''
                                  then ''KZ'' else ''RU''))
           | None \<Rightarrow> table_lookup [3, 2] digits))"

section \<open>Parsing\<close>

datatype E164Error = Empty | NonNumeric | TooShort | TooLong | LeadingZero | UnknownCountryCode

fun e164_error_code :: "E164Error \<Rightarrow> string" where
  "e164_error_code Empty = ''number_empty''"
| "e164_error_code NonNumeric = ''number_non_numeric''"
| "e164_error_code TooShort = ''number_too_short''"
| "e164_error_code TooLong = ''number_too_long''"
| "e164_error_code LeadingZero = ''number_leading_zero''"
| "e164_error_code UnknownCountryCode = ''number_unknown_country''"

datatype E164 = E164 string

definition is_digit_code :: "nat \<Rightarrow> bool" where
  "is_digit_code c \<longleftrightarrow> 48 \<le> c \<and> c \<le> 57"

text \<open>Space, no-break space, \<open>-\<close>, \<open>.\<close>, \<open>(\<close>, \<open>)\<close> and \<open>/\<close> are ignored.\<close>

definition is_ignored_punct :: "nat \<Rightarrow> bool" where
  "is_ignored_punct c \<longleftrightarrow> c \<in> {32, 160, 45, 46, 40, 41, 47}"

text \<open>The loop over \<open>trimmed.chars().enumerate()\<close>.\<close>

fun scan_digits :: "nat \<Rightarrow> ustring \<Rightarrow> string \<Rightarrow> E164Error + string" where
  "scan_digits i [] digits = Inr digits"
| "scan_digits i (ch # chs) digits =
     (if is_digit_code ch then scan_digits (Suc i) chs (digits @ [char_of ch])
      else if ch = 43 \<and> i = 0 then scan_digits (Suc i) chs digits
      else if is_ignored_punct ch then scan_digits (Suc i) chs digits
      else Inl NonNumeric)"

text \<open>The loop over the access prefixes, left at the first one that is stripped.\<close>

fun strip_access :: "string list \<Rightarrow> string \<Rightarrow> string" where
  "strip_access [] digits = digits"
| "strip_access (prefix # prefixes) digits =
     (case strip_prefix prefix digits of
        Some rest \<Rightarrow>
          (if rest \<noteq> [] \<and> \<not> starts_with rest ''0'' \<and> calling_code_of rest \<noteq> None
              \<and> length rest \<ge> MIN_DIGITS
           then rest else strip_access prefixes digits)
      | None \<Rightarrow> strip_access prefixes digits)"

definition e164_validate :: "string \<Rightarrow> E164Error + E164" where
  "e164_validate digits =
     (if starts_with digits ''0'' then Inl LeadingZero
      else if length digits < MIN_DIGITS then Inl TooShort
      else if length digits > MAX_DIGITS then Inl TooLong
      else if calling_code_of digits = None then Inl UnknownCountryCode
      else Inr (E164 (CHR ''+'' # digits)))"

definition e164_parse :: "ustring \<Rightarrow> E164Error + E164" where
  "e164_parse raw =
     (let trimmed = trim raw in
      if trimmed = [] then Inl Empty
      else case scan_digits 0 trimmed [] of
             Inl e \<Rightarrow> Inl e
           | Inr digits \<Rightarrow>
               (if digits = [] then Inl Empty
                else e164_validate
                       (if starts_with trimmed [43] then digits
                        else strip_access [''011'', ''00''] digits)))"

section \<open>Accessors\<close>

fun e164_as_str :: "E164 \<Rightarrow> string" where
  "e164_as_str (E164 s) = s"

definition e164_digits :: "E164 \<Rightarrow> string" where
  "e164_digits n = drop 1 (e164_as_str n)"

definition e164_calling_code :: "E164 \<Rightarrow> string option" where
  "e164_calling_code n = map_option fst (calling_code_of (e164_digits n))"

definition e164_region :: "E164 \<Rightarrow> string option" where
  "e164_region n = map_option snd (calling_code_of (e164_digits n))"

definition e164_last4 :: "E164 \<Rightarrow> string option" where
  "e164_last4 n =
     (let d = e164_digits n in if length d < 4 then None else Some (drop (length d - 4) d))"

text \<open>The mask character is U+2022.\<close>

definition e164_masked :: "E164 \<Rightarrow> ustring option" where
  "e164_masked n =
     (case e164_calling_code n of
        None \<Rightarrow> None
      | Some cc \<Rightarrow>
          (let rest = drop (length cc) (e164_digits n);
               hidden = length rest - 4
           in map_option (\<lambda>l4. ustr ''+'' @ ustr cc @ replicate hidden 8226 @ ustr l4)
                (e164_last4 n)))"

text \<open>The keyed hash and the hex encoding are library code: parameters.\<close>

definition e164_pseudonym ::
  "('k \<Rightarrow> string \<Rightarrow> 'b list) \<Rightarrow> ('b list \<Rightarrow> string) \<Rightarrow> 'k \<Rightarrow> E164 \<Rightarrow> string" where
  "e164_pseudonym hmac hex_encode key n = hex_encode (take 8 (hmac key (e164_as_str n)))"

section \<open>The tables\<close>

text \<open>Facts about the two tables, each evaluated once.\<close>

definition ascii_digit :: "char \<Rightarrow> bool" where
  "ascii_digit c \<longleftrightarrow> is_digit_code (of_char c)"

lemma calling_codes_shape:
  "list_all (\<lambda>(c, r). (length c = 2 \<or> length c = 3) \<and> list_all ascii_digit c
     \<and> hd c \<notin> {CHR ''0'', CHR ''1'', CHR ''7''} \<and> length r = 2) CALLING_CODES"
  by code_simp

text \<open>
  No two-digit code is the head of a three-digit one: every code is either a two-digit code
  outside the three-digit families or a three-digit code of such a family.
\<close>

definition three_digit_families :: "string list" where
  "three_digit_families = [''21'', ''22'', ''23'', ''24'', ''25'', ''26'', ''29'', ''35'', ''37'', ''38'', ''42'', ''50'', ''59'', ''67'', ''68'', ''69'', ''85'', ''88'', ''96'', ''97'', ''99'']"

fun code_family_ok :: "string \<Rightarrow> bool" where
  "code_family_ok [a, b] \<longleftrightarrow> [a, b] \<notin> set three_digit_families"
| "code_family_ok [a, b, c] \<longleftrightarrow> [a, b] \<in> set three_digit_families"
| "code_family_ok _ \<longleftrightarrow> False"

lemma calling_codes_families: "list_all code_family_ok (map fst CALLING_CODES)"
  by code_simp

lemma calling_codes_CN: "list_all (\<lambda>(c, r). r = ''CN'' \<longrightarrow> c = ''86'') CALLING_CODES"
  by code_simp

lemma calling_codes_86: "(''86'', ''CN'') \<in> set CALLING_CODES"
  by code_simp

lemma nanp_no_CN: "list_all (\<lambda>(_, r). r \<noteq> ''CN'' \<and> length r = 2) NANP_AREA_CODES"
  by code_simp

section \<open>Resolution of the calling code\<close>

lemma find_code_Some:
  "find (\<lambda>(c, _). c = h) CALLING_CODES = Some (c, r) \<Longrightarrow> (c, r) \<in> set CALLING_CODES \<and> c = h"
  by (auto dest: find_SomeD)

lemma table_entry:
  assumes "(c, r) \<in> set CALLING_CODES"
  shows "(length c = 2 \<or> length c = 3) \<and> list_all ascii_digit c \<and> code_family_ok c
         \<and> (r = ''CN'' \<longrightarrow> c = ''86'')"
  using assms calling_codes_shape calling_codes_families calling_codes_CN
  by (auto simp: list_all_iff)

lemma table_lookup_Some:
  "table_lookup lens d = Some (c, r) \<Longrightarrow>
   (c, r) \<in> set CALLING_CODES \<and> c = take (length c) d \<and> length c < length d"
proof (induction lens d rule: table_lookup.induct)
  case (1 d)
  then show ?case by simp
next
  case (2 len lens d)
  show ?case
  proof (cases "length d > len \<and> find (\<lambda>(c, _). c = take len d) CALLING_CODES \<noteq> None")
    case True
    then obtain c' r' where f: "find (\<lambda>(c, _). c = take len d) CALLING_CODES = Some (c', r')"
      by auto
    with True "2.prems" have "c' = c" "r' = r" by auto
    with f True find_code_Some [OF f] show ?thesis by auto
  next
    case False
    with "2.prems" have "table_lookup lens d = Some (c, r)"
      by (auto split: if_splits option.splits)
    moreover from False have "len < length d \<Longrightarrow>
        find (\<lambda>(c, _). c = take len d) CALLING_CODES = None" by blast
    ultimately show ?thesis using "2.IH" by (cases "len < length d") blast+
  qed
qed

text \<open>The code is a non-empty prefix of the digits, and at least one digit follows it.\<close>

lemma calling_code_prefix:
  assumes "calling_code_of d = Some (c, r)"
  shows "(\<exists>rest. d = c @ rest \<and> rest \<noteq> []) \<and> c \<noteq> [] \<and> length c \<le> 3"
proof (cases "strip_prefix ''1'' d = None \<and> strip_prefix ''7'' d = None")
  case False
  with assms show ?thesis
    by (auto simp: calling_code_of_def str_simps split: option.splits if_splits)
next
  case True
  with assms have t: "table_lookup [3, 2] d = Some (c, r)"
    by (simp add: calling_code_of_def)
  then have m: "(c, r) \<in> set CALLING_CODES" "c = take (length c) d" "length c < length d"
    using table_lookup_Some by blast+
  then have "d = c @ drop (length c) d \<and> drop (length c) d \<noteq> []"
    by (metis append_take_drop_id drop_eq_Nil leD)
  with m table_entry [OF m(1)] show ?thesis by auto
qed

lemma nanp_region_not_CN: "nanp_region a \<noteq> ''CN''"
  using nanp_no_CN
  by (auto simp: nanp_region_def list_all_iff dest!: find_SomeD split: option.splits)

lemma find_code_86: "find (\<lambda>(c, _). c = ''86'') CALLING_CODES = Some (''86'', ''CN'')"
  by (simp add: CALLING_CODES_def)

lemma find_code_86x:
  "find (\<lambda>(c, _). c = [CHR ''8'', CHR ''6'', x]) CALLING_CODES = None"
proof (rule ccontr)
  assume "find (\<lambda>(c, _). c = [CHR ''8'', CHR ''6'', x]) CALLING_CODES \<noteq> None"
  then obtain c r where "find (\<lambda>(c, _). c = [CHR ''8'', CHR ''6'', x]) CALLING_CODES = Some (c, r)"
    by auto
  then have "([CHR ''8'', CHR ''6'', x], r) \<in> set CALLING_CODES"
    by (auto dest: find_SomeD)
  then have "code_family_ok [CHR ''8'', CHR ''6'', x]" using table_entry by blast
  then show False by (simp add: three_digit_families_def)
qed

lemma calling_code_CN_iff:
  assumes "length d \<ge> 4"
  shows "(\<exists>c. calling_code_of d = Some (c, ''CN'')) \<longleftrightarrow> starts_with d ''86''"
proof
  assume "\<exists>c. calling_code_of d = Some (c, ''CN'')"
  then obtain c where c: "calling_code_of d = Some (c, ''CN'')" ..
  then have "table_lookup [3, 2] d = Some (c, ''CN'')"
    using nanp_region_not_CN
    by (auto simp: calling_code_of_def split: option.splits if_splits)
  then have "(c, ''CN'') \<in> set CALLING_CODES" "c = take (length c) d"
    using table_lookup_Some by blast+
  moreover from this(1) have "c = ''86''" using table_entry by blast
  ultimately have "take (length ''86'') d = ''86''" by metis
  then show "starts_with d ''86''" unfolding starts_with_take .
next
  assume "starts_with d ''86''"
  with assms obtain x y rest where d: "d = CHR ''8'' # CHR ''6'' # x # y # rest"
    by (auto simp: str_simps Suc_le_length_iff eval_nat_numeral)
  then show "\<exists>c. calling_code_of d = Some (c, ''CN'')"
    by (simp add: calling_code_of_def find_code_86x find_code_86 numeral_3_eq_3 numeral_2_eq_2)
qed

section \<open>Well-formed numbers\<close>

definition valid_digits :: "string \<Rightarrow> bool" where
  "valid_digits d \<longleftrightarrow>
     MIN_DIGITS \<le> length d \<and> length d \<le> MAX_DIGITS \<and> list_all ascii_digit d
     \<and> \<not> starts_with d ''0'' \<and> calling_code_of d \<noteq> None"

definition wf_e164 :: "E164 \<Rightarrow> bool" where
  "wf_e164 n \<longleftrightarrow> (\<exists>d. n = E164 (CHR ''+'' # d) \<and> valid_digits d)"

lemma e164_validate_Inr:
  "list_all ascii_digit d \<Longrightarrow>
   e164_validate d = Inr n \<longleftrightarrow> valid_digits d \<and> n = E164 (CHR ''+'' # d)"
  by (auto simp: e164_validate_def valid_digits_def)

lemma digit_code_mod: "is_digit_code c \<Longrightarrow> c mod 256 = c"
  by (simp add: is_digit_code_def)

lemma scan_digits_sound:
  "scan_digits i u acc = Inr d \<Longrightarrow> list_all ascii_digit acc \<Longrightarrow> list_all ascii_digit d"
  by (induction i u acc rule: scan_digits.induct)
    (auto simp: ascii_digit_def digit_code_mod split: if_splits)

lemma scan_digits_filter:
  "list_all (\<lambda>c. is_digit_code c \<or> is_ignored_punct c) u \<Longrightarrow>
   scan_digits i u acc = Inr (acc @ map char_of (filter is_digit_code u))"
  by (induction u arbitrary: i acc) auto

lemma ignored_not_digit: "is_ignored_punct c \<Longrightarrow> \<not> is_digit_code c"
  by (auto simp: is_ignored_punct_def is_digit_code_def)

lemma whitespace_not_digit: "is_whitespace c \<Longrightarrow> \<not> is_digit_code c"
  by (auto simp: is_whitespace_def is_digit_code_def)

lemma filter_trim:
  assumes "\<And>c. is_whitespace c \<Longrightarrow> \<not> P c"
  shows "filter P (trim u) = filter P u"
proof -
  have drop: "filter P (dropWhile is_whitespace v) = filter P v" for v
    by (induction v) (auto simp: assms)
  show ?thesis by (simp add: trim_def drop rev_filter [symmetric])
qed

lemma set_trim: "set (trim u) \<subseteq> set u"
  unfolding trim_def by (auto dest!: set_dropWhileD)

lemma strip_access_digits:
  "list_all ascii_digit d \<Longrightarrow> list_all ascii_digit (strip_access ps d)"
  by (induction ps d rule: strip_access.induct)
    (auto simp: str_simps split: option.splits)

lemma e164_parse_wf: "e164_parse raw = Inr n \<Longrightarrow> wf_e164 n"
proof -
  assume p: "e164_parse raw = Inr n"
  then obtain d where d: "scan_digits 0 (trim raw) [] = Inr d"
      and v: "e164_validate (if starts_with (trim raw) [43] then d
                else strip_access [''011'', ''00''] d) = Inr n"
    by (auto simp: e164_parse_def Let_def split: if_splits sum.splits)
  from d have "list_all ascii_digit d" by (rule scan_digits_sound) simp
  then have "list_all ascii_digit (if starts_with (trim raw) [43] then d
                else strip_access [''011'', ''00''] d)"
    by (simp add: strip_access_digits del: strip_access.simps)
  with v show ?thesis by (auto simp: e164_validate_Inr wf_e164_def)
qed

lemma ustr_digits: "list_all ascii_digit d \<Longrightarrow> list_all is_digit_code (ustr d)"
  by (auto simp: ustr_def ascii_digit_def list_all_iff)

lemma map_char_of_ustr [simp]: "map char_of (ustr d) = d"
  by (simp add: ustr_def comp_def)

lemma filter_ustr_digits: "list_all ascii_digit d \<Longrightarrow> filter is_digit_code (ustr d) = ustr d"
  using ustr_digits by (simp add: list_all_iff)

text \<open>Text of digits and ignored punctuation: only the digits count.\<close>

lemma e164_parse_punctuated:
  assumes u: "list_all (\<lambda>c. is_digit_code c \<or> is_ignored_punct c) u"
    and d: "filter is_digit_code u = ustr d" and ne: "d \<noteq> []"
  shows "e164_parse u = e164_validate (strip_access [''011'', ''00''] d)"
proof -
  have t: "list_all (\<lambda>c. is_digit_code c \<or> is_ignored_punct c) (trim u)"
    using u set_trim [of u] by (auto simp: list_all_iff)
  have f: "filter is_digit_code (trim u) = ustr d"
    using d by (simp add: filter_trim whitespace_not_digit)
  then have "trim u \<noteq> []" using ne by (auto simp: ustr_def)
  moreover have "\<not> starts_with (trim u) [43]"
    using t by (auto simp: str_simps is_digit_code_def is_ignored_punct_def)
  ultimately show ?thesis
    using ne f scan_digits_filter [OF t, of 0 "[]"] by (simp add: e164_parse_def Let_def)
qed

lemma valid_digits_nonempty: "valid_digits d \<Longrightarrow> d \<noteq> []"
  by (auto simp: valid_digits_def MIN_DIGITS_def)

lemma valid_digits_validate: "valid_digits d \<Longrightarrow> e164_validate d = Inr (E164 (CHR ''+'' # d))"
  by (auto simp: e164_validate_Inr valid_digits_def)

lemma strip_access_valid:
  assumes "valid_digits d"
  shows "strip_access [''011'', ''00''] d = d"
    and "strip_access [''011'', ''00''] (''011'' @ d) = d"
    and "strip_access [''011'', ''00''] (''00'' @ d) = d"
proof -
  have n0: "\<not> starts_with d ''0''" and ok: "calling_code_of d \<noteq> None" "MIN_DIGITS \<le> length d"
    using assms by (auto simp: valid_digits_def)
  have "strip_prefix (CHR ''0'' # p) d = None" for p
  proof (cases d)
    case Nil
    then show ?thesis by simp
  next
    case (Cons c cs)
    with n0 show ?thesis by (auto simp: starts_with_def)
  qed
  then show "strip_access [''011'', ''00''] d = d" by simp
  show "strip_access [''011'', ''00''] (''011'' @ d) = d"
    and "strip_access [''011'', ''00''] (''00'' @ d) = d"
    using n0 ok valid_digits_nonempty [OF assms] by simp_all
qed

lemma trim_plus_digits:
  assumes "list_all ascii_digit d" and "d \<noteq> []"
  shows "trim (43 # ustr d) = 43 # ustr d"
proof -
  have "ustr d \<noteq> []" using assms(2) by (simp add: ustr_def)
  moreover from this have "is_digit_code (last (ustr d))"
    using ustr_digits [OF assms(1)] by (simp add: list_all_iff)
  ultimately show ?thesis
    using whitespace_not_digit by (intro trim_id) (auto simp: is_whitespace_def)
qed

lemma e164_parse_canonical:
  assumes "valid_digits d"
  shows "e164_parse (ustr (CHR ''+'' # d)) = Inr (E164 (CHR ''+'' # d))"
proof -
  have d: "list_all ascii_digit d" "d \<noteq> []"
    using assms valid_digits_nonempty by (auto simp: valid_digits_def)
  have t: "trim (ustr (CHR ''+'' # d)) = 43 # ustr d"
    using trim_plus_digits [OF d] by (simp add: ustr_def)
  have "scan_digits 1 (ustr d) [] = Inr d"
    using scan_digits_filter [of "ustr d" 1 "[]"] ustr_digits [OF d(1)] filter_ustr_digits [OF d(1)]
    by (simp add: list_all_iff)
  then have "scan_digits 0 (43 # ustr d) [] = Inr d" by (simp add: is_digit_code_def)
  with t d(2) show ?thesis
    by (simp add: e164_parse_def Let_def starts_with_def valid_digits_validate [OF assms])
qed

section \<open>Properties\<close>

text \<open>
  C32: Parsing is sound: an accepted number is \<open>+\<close> followed by 8 to 15 ASCII digits, the
  first of them not \<open>0\<close>, whose leading digits are an assigned calling code with a digit
  after it; so none of the accessors can panic, and the masked form shows the calling code
  and the last four digits and hides at least one digit.
\<close>

theorem e164_parse_sound:
  assumes "e164_parse raw = Inr n"
  shows "\<exists>d cc reg hid l4.
     e164_as_str n = CHR ''+'' # d \<and> 8 \<le> length d \<and> length d \<le> 15 \<and> list_all ascii_digit d
     \<and> \<not> starts_with d ''0'' \<and> e164_digits n = d
     \<and> e164_calling_code n = Some cc \<and> e164_region n = Some reg \<and> e164_last4 n = Some l4
     \<and> d = cc @ hid @ l4 \<and> cc \<noteq> [] \<and> hid \<noteq> [] \<and> length l4 = 4
     \<and> e164_masked n = Some (ustr ''+'' @ ustr cc @ replicate (length hid) 8226 @ ustr l4)"
proof -
  from assms have "wf_e164 n" by (rule e164_parse_wf)
  then obtain d where n: "n = E164 (CHR ''+'' # d)" and v: "valid_digits d"
    by (auto simp: wf_e164_def)
  from v obtain cc reg where c: "calling_code_of d = Some (cc, reg)"
    by (auto simp: valid_digits_def)
  from calling_code_prefix [OF c] obtain r where d: "d = cc @ r" and cc: "cc \<noteq> []" "length cc \<le> 3"
    by auto
  define hid where "hid = take (length r - 4) r"
  define l4 where "l4 = drop (length r - 4) r"
  have len: "8 \<le> length d" "length d \<le> 15" "length r \<ge> 5"
    using v cc d by (auto simp: valid_digits_def MIN_DIGITS_def MAX_DIGITS_def)
  have last4: "drop (length d - 4) d = l4"
    using len d by (simp add: l4_def)
  have m: "e164_masked n = Some (ustr ''+'' @ ustr cc @ replicate (length hid) 8226 @ ustr l4)"
    using len last4 d n c
    by (simp add: e164_masked_def e164_calling_code_def e164_last4_def e164_digits_def Let_def
        hid_def)
  have s: "d = cc @ hid @ l4" "hid \<noteq> []" "length l4 = 4"
    using d len by (auto simp: hid_def l4_def)
  have a: "e164_as_str n = CHR ''+'' # d" "e164_digits n = d" "e164_calling_code n = Some cc"
    "e164_region n = Some reg" "e164_last4 n = Some l4"
    using n c len last4
    by (simp_all add: e164_digits_def e164_calling_code_def e164_region_def e164_last4_def Let_def)
  have "list_all ascii_digit d" "\<not> starts_with d ''0''" using v by (auto simp: valid_digits_def)
  with m s a len cc show ?thesis by blast
qed

text \<open>A number as a person types it: \<open>+39 (320) 123-4567\<close>.\<close>

definition sample_number :: ustring where
  "sample_number = ustr ''+39 (320) 123-4567''"

lemma sample_number_parse: "e164_parse sample_number = Inr (E164 ''+393201234567'')"
  by code_simp

theorem e164_parse_sound_witness:
  "\<exists>d. e164_as_str (E164 ''+393201234567'') = CHR ''+'' # d \<and> 8 \<le> length d"
  using e164_parse_sound [OF sample_number_parse] by blast

text \<open>
  C31: Normalisation is idempotent and independent of the way the number was typed: an
  accepted number parses back from its canonical form, from its bare digits, behind the
  access prefixes \<open>00\<close> and \<open>011\<close>, and from any text made of its digits and ignored
  punctuation.
\<close>

theorem e164_parse_normalises:
  assumes "e164_parse raw = Inr n"
  shows "e164_parse (ustr (e164_as_str n)) = Inr n
     \<and> (\<forall>pre \<in> {[], ''00'', ''011''}. \<forall>u.
          list_all (\<lambda>c. is_digit_code c \<or> is_ignored_punct c) u \<longrightarrow>
          filter is_digit_code u = ustr (pre @ e164_digits n) \<longrightarrow> e164_parse u = Inr n)"
proof -
  from assms obtain d where n: "n = E164 (CHR ''+'' # d)" and v: "valid_digits d"
    using e164_parse_wf by (auto simp: wf_e164_def)
  have "e164_parse u = Inr n"
    if "list_all (\<lambda>c. is_digit_code c \<or> is_ignored_punct c) u"
      and "filter is_digit_code u = ustr (pre @ d)" and pre: "pre \<in> {[], ''00'', ''011''}" for u pre
  proof -
    from that(1,2) have "e164_parse u = e164_validate (strip_access [''011'', ''00''] (pre @ d))"
      using valid_digits_nonempty [OF v] by (intro e164_parse_punctuated) simp_all
    also have "strip_access [''011'', ''00''] (pre @ d) = d"
    proof -
      from pre consider "pre = []" | "pre = ''00''" | "pre = ''011''" by blast
      then show ?thesis by cases (simp_all only: strip_access_valid [OF v] append_Nil)
    qed
    finally show ?thesis using valid_digits_validate [OF v] n by simp
  qed
  with n e164_parse_canonical [OF v] show ?thesis by (simp add: e164_digits_def)
qed

theorem e164_parse_normalises_witness:
  "e164_parse (ustr ''0039 320-123.4567'') = Inr (E164 ''+393201234567'')"
proof -
  have "list_all (\<lambda>c. is_digit_code c \<or> is_ignored_punct c) (ustr ''0039 320-123.4567'')"
    by code_simp
  moreover have "filter is_digit_code (ustr ''0039 320-123.4567'') =
         ustr (''00'' @ e164_digits (E164 ''+393201234567''))"
    by code_simp
  ultimately show ?thesis
    using e164_parse_normalises [OF sample_number_parse] by blast
qed

text \<open>
  The China gate decides on the right numbers: an accepted number has the region \<open>CN\<close>
  exactly when its digits start with \<open>86\<close>; no other calling code and no area code of the
  shared codes \<open>+1\<close> and \<open>+7\<close> resolves to it.
\<close>

theorem e164_region_CN_iff:
  assumes "e164_parse raw = Inr n"
  shows "e164_region n = Some ''CN'' \<longleftrightarrow> starts_with (e164_digits n) ''86''"
proof -
  from assms obtain d where n: "n = E164 (CHR ''+'' # d)" and v: "valid_digits d"
    using e164_parse_wf by (auto simp: wf_e164_def)
  have "length d \<ge> 4" using v by (simp add: valid_digits_def MIN_DIGITS_def)
  from calling_code_CN_iff [OF this] n show ?thesis
    by (auto simp: e164_region_def e164_digits_def)
qed

theorem e164_region_CN_iff_witness:
  "e164_region (E164 ''+393201234567'') \<noteq> Some ''CN''"
  using e164_region_CN_iff [OF sample_number_parse]
  by (simp add: e164_digits_def starts_with_def)

end
