(* ===== verification/Pricing.thy ===== *)
theory Pricing
  imports E164_Number Call_State "HOL-Library.List_Lexorder" "HOL-Library.Char_ord"
    "HOL-Library.Product_Lexorder"
begin

text \<open>
  What a call costs and what it is sold for, \<^verbatim>\<open>server/src/voip/pricing.rs\<close>: the itemised
  provider cost, the gross-margin and the markup policies, the quote, the settlement in
  whole credits and the rate deck. Money is exact decimal arithmetic; the two rounding
  operations of the decimal library are the parameter \<open>D\<close> (see the prelude).
\<close>

section \<open>Provider cost and policies\<close>

definition MONEY_DP :: nat where "MONEY_DP = 6"

definition usd_per_credit :: usd where "usd_per_credit = 1 / 100"

record ProviderCost =
  telephony :: usd
  translation :: usd
  media_streaming :: usd
  recording :: usd
  storage :: usd
  ancillary :: usd

definition provider_cost_total :: "decimal_ops \<Rightarrow> ProviderCost \<Rightarrow> usd" where
  "provider_cost_total D c =
     dec_round D (telephony c + translation c + media_streaming c + recording c + storage c
                  + ancillary c) MONEY_DP"

datatype PricingError = MarginOutOfRange | BufferNegative | NegativeCost | MarkupNegative

fun pricing_error_code :: "PricingError \<Rightarrow> string" where
  "pricing_error_code MarginOutOfRange = ''margin_out_of_range''"
| "pricing_error_code BufferNegative = ''buffer_negative''"
| "pricing_error_code NegativeCost = ''negative_cost''"
| "pricing_error_code MarkupNegative = ''markup_negative''"

record MarginPolicy =
  min_gross_margin :: rat
  safety_buffer :: rat

definition margin_policy_new :: "rat \<Rightarrow> rat \<Rightarrow> PricingError + MarginPolicy" where
  "margin_policy_new m b =
     (if m < 0 \<or> m \<ge> 1 then Inl MarginOutOfRange
      else if b < 0 then Inl BufferNegative
      else Inr \<lparr>min_gross_margin = m, safety_buffer = b\<rparr>)"

definition equivalent_markup :: "decimal_ops \<Rightarrow> MarginPolicy \<Rightarrow> rat" where
  "equivalent_markup D p = dec_div D (min_gross_margin p) (1 - min_gross_margin p)"

text \<open>Rounding up at \<open>dp\<close> places: scale, ceiling, divide back.\<close>

definition round_up :: "decimal_ops \<Rightarrow> rat \<Rightarrow> nat \<Rightarrow> rat" where
  "round_up D v dp =
     (let scaled = v * 10 ^ dp; ceiled = of_int \<lceil>scaled\<rceil>
      in dec_round D (dec_div D ceiled (10 ^ dp)) dp)"

definition price_per_minute_for :: "decimal_ops \<Rightarrow> MarginPolicy \<Rightarrow> usd \<Rightarrow> PricingError + usd" where
  "price_per_minute_for D p cost =
     (if cost < 0 then Inl NegativeCost
      else let buffered = cost * (1 + safety_buffer p);
               price = dec_div D buffered (1 - min_gross_margin p)
           in Inr (round_up D price MONEY_DP))"

definition realised_margin :: "decimal_ops \<Rightarrow> usd \<Rightarrow> usd \<Rightarrow> rat option" where
  "realised_margin D charge cost =
     (if charge \<le> 0 then None else Some (dec_round D (dec_div D (charge - cost) charge) MONEY_DP))"

definition is_respected :: "decimal_ops \<Rightarrow> MarginPolicy \<Rightarrow> usd \<Rightarrow> usd \<Rightarrow> bool" where
  "is_respected D p charge cost =
     (case realised_margin D charge cost of
        Some m \<Rightarrow> m \<ge> min_gross_margin p
      | None \<Rightarrow> cost \<le> 0)"

record NumberMarkupPolicy =
  markup :: rat

definition number_markup_new :: "rat \<Rightarrow> PricingError + NumberMarkupPolicy" where
  "number_markup_new m = (if m < 0 then Inl MarkupNegative else Inr \<lparr>markup = m\<rparr>)"

definition customer_price ::
  "decimal_ops \<Rightarrow> NumberMarkupPolicy \<Rightarrow> usd \<Rightarrow> PricingError + usd" where
  "customer_price D p provider_cost =
     (if provider_cost < 0 then Inl NegativeCost
      else Inr (round_up D (provider_cost * (1 + markup p)) MONEY_DP))"

definition equivalent_margin :: "decimal_ops \<Rightarrow> NumberMarkupPolicy \<Rightarrow> rat" where
  "equivalent_margin D p = dec_div D (markup p) (1 + markup p)"

section \<open>Quote and settlement\<close>

definition credits_ceil :: "decimal_ops \<Rightarrow> usd \<Rightarrow> int" where
  "credits_ceil D u = (if u \<le> 0 then 0 else to_i32_or_max \<lceil>dec_div D u usd_per_credit\<rceil>)"

definition credits_to_usd :: "int \<Rightarrow> usd" where
  "credits_to_usd credits = of_int credits * usd_per_credit"

definition owed_usd :: "decimal_ops \<Rightarrow> usd \<Rightarrow> nat \<Rightarrow> usd" where
  "owed_usd D price_per_min seconds =
     dec_round D (dec_div D (price_per_min * of_nat seconds) 60) MONEY_DP"

definition settle_credits :: "decimal_ops \<Rightarrow> usd \<Rightarrow> nat \<Rightarrow> int" where
  "settle_credits D price_per_min seconds = credits_ceil D (owed_usd D price_per_min seconds)"

record Quote =
  q_cost :: ProviderCost
  q_price_per_minute :: usd
  q_reserve_credits :: int
  q_estimated_minutes :: int

definition quote :: "decimal_ops \<Rightarrow> MarginPolicy \<Rightarrow> ProviderCost \<Rightarrow> int \<Rightarrow> PricingError + Quote" where
  "quote D policy cost estimated_minutes =
     (let minutes = max estimated_minutes 1
      in case price_per_minute_for D policy (provider_cost_total D cost) of
           Inl e \<Rightarrow> Inl e
         | Inr price \<Rightarrow>
             (let hold_usd = price * of_int minutes;
                  reserve_credits = max (credits_ceil D hold_usd) 1
              in Inr \<lparr>q_cost = cost, q_price_per_minute = price,
                      q_reserve_credits = reserve_credits, q_estimated_minutes = minutes\<rparr>))"

text \<open>The conversion of the configuration's floating point value is library code: \<open>from_f64\<close>.\<close>

definition usd_from_config :: "decimal_ops \<Rightarrow> ('f \<Rightarrow> rat option) \<Rightarrow> 'f \<Rightarrow> usd" where
  "usd_from_config D from_f64 v =
     dec_round D (case from_f64 v of None \<Rightarrow> 0 | Some d \<Rightarrow> d) MONEY_DP"

section \<open>Rate deck\<close>

text \<open>Instants and durations are counted in one unit, whatever it is.\<close>

record Rate =
  rate_prefix :: string
  cost_per_minute :: usd
  rate_description :: string
  fetched_at :: int

record RateDeck =
  rates :: "Rate list"

text \<open>The order of \<open>sort_by\<close>: longer prefixes first, then by the prefix itself; the sort is stable.\<close>

definition rate_key :: "Rate \<Rightarrow> int \<times> string" where
  "rate_key r = (- int (length (rate_prefix r)), rate_prefix r)"

definition rate_deck_new :: "Rate list \<Rightarrow> RateDeck" where
  "rate_deck_new rs = \<lparr>rates = sort_key rate_key rs\<rparr>"

definition rate_lookup ::
  "RateDeck \<Rightarrow> E164 \<Rightarrow> int \<Rightarrow> int option \<Rightarrow> FailureReason + Rate" where
  "rate_lookup deck number now max_age =
     (let digits = e164_digits number
      in case find (\<lambda>r. starts_with digits (rate_prefix r)) (rates deck) of
           None \<Rightarrow> Inl RateUnavailable
         | Some r \<Rightarrow>
             (case max_age of
                Some age \<Rightarrow> (if now - fetched_at r > age then Inl RateUnavailable else Inr r)
              | None \<Rightarrow> Inr r))"

section \<open>Rounding up\<close>

lemma round_up_eq:
  assumes "decimal_laws D" and "dp \<le> 18" and "0 \<le> v" and "v < 10 ^ 8"
  shows "round_up D v dp = of_int \<lceil>v * 10 ^ dp\<rceil> / 10 ^ dp"
proof -
  let ?q = "of_int \<lceil>v * 10 ^ dp\<rceil> / 10 ^ dp :: rat"
  have "of_int \<lceil>v * 10 ^ dp\<rceil> \<le> v * 10 ^ dp + 1" by linarith
  moreover have "v * 10 ^ dp + 1 \<le> (10 ^ 8 + 1) * (10 ^ dp :: rat)"
  proof -
    have "v * 10 ^ dp \<le> 10 ^ 8 * 10 ^ dp" using assms(4) by (intro mult_right_mono) simp_all
    moreover have "1 \<le> (10 :: rat) ^ dp" by simp
    ultimately show ?thesis by (simp only: distrib_right mult_1)
  qed
  ultimately have "of_int \<lceil>v * 10 ^ dp\<rceil> \<le> (10 ^ 8 + 1) * (10 ^ dp :: rat)" by (rule order_trans)
  then have "?q \<le> 10 ^ 8 + 1" by (simp add: divide_le_eq)
  moreover have "0 \<le> \<lceil>v * 10 ^ dp\<rceil>"
    using assms(3) by (metis ceiling_mono ceiling_zero mult_nonneg_nonneg zero_le_numeral zero_le_power)
  then have "0 \<le> ?q" by simp
  ultimately have "\<bar>?q\<bar> < 10 ^ 9" by simp
  moreover have "grid 18 ?q" using grid_mono [OF grid_of_int assms(2)] .
  ultimately have "dec_div D (of_int \<lceil>v * 10 ^ dp\<rceil>) (10 ^ dp) = ?q"
    using assms(1) by (intro dec_div_exact) simp_all
  then show ?thesis
    by (simp add: round_up_def Let_def dec_round_exact [OF assms(1) grid_of_int])
qed

lemma round_up_bounds:
  assumes "decimal_laws D" and "dp \<le> 18" and "0 \<le> v" and "v < 10 ^ 8"
  shows "v \<le> round_up D v dp" "round_up D v dp < v + 1 / 10 ^ dp" "grid dp (round_up D v dp)"
proof -
  note eq = round_up_eq [OF assms]
  show "grid dp (round_up D v dp)" unfolding eq by (rule grid_of_int)
  have "v * 10 ^ dp \<le> of_int \<lceil>v * 10 ^ dp\<rceil>" by (rule le_of_int_ceiling)
  then show "v \<le> round_up D v dp" unfolding eq by (simp add: le_divide_eq)
  have "of_int \<lceil>v * 10 ^ dp\<rceil> < v * 10 ^ dp + 1" by linarith
  then have "of_int \<lceil>v * 10 ^ dp\<rceil> < (v + 1 / 10 ^ dp) * 10 ^ dp" by (simp add: distrib_right)
  then show "round_up D v dp < v + 1 / 10 ^ dp" unfolding eq by (simp add: divide_less_eq)
qed

section \<open>The price per minute\<close>

definition policy_ok :: "MarginPolicy \<Rightarrow> bool" where
  "policy_ok p \<longleftrightarrow> 0 \<le> min_gross_margin p \<and> min_gross_margin p < 1 \<and> 0 \<le> safety_buffer p"

lemma margin_policy_new_ok: "margin_policy_new m b = Inr p \<Longrightarrow>
    policy_ok p \<and> min_gross_margin p = m \<and> safety_buffer p = b"
  by (auto simp: margin_policy_new_def policy_ok_def split: if_splits)

lemma total_grid: "decimal_laws D \<Longrightarrow> grid 6 (provider_cost_total D c)"
  by (simp add: provider_cost_total_def MONEY_DP_def dec_round_grid)

lemma price_bounds:
  assumes D: "decimal_laws D" and p: "policy_ok p"
    and P: "price_per_minute_for D p cost = Inr P"
    and bound: "cost * (1 + safety_buffer p) / (1 - min_gross_margin p) < 10 ^ 7"
  shows "0 \<le> cost" "grid 6 P" "0 \<le> P"
    and "cost * (1 + safety_buffer p) \<le> (1 - min_gross_margin p) * P + 1 / 10 ^ 18"
    and "P < cost * (1 + safety_buffer p) / (1 - min_gross_margin p) + 1 / 10 ^ 5"
proof -
  let ?b = "cost * (1 + safety_buffer p)" and ?m = "1 - min_gross_margin p"
  let ?v = "dec_div D ?b ?m"
  from P show c0: "0 \<le> cost" by (simp add: price_per_minute_for_def Let_def split: if_splits)
  have m: "0 < ?m" "?m \<le> 1" and b: "0 \<le> ?b"
    using p c0 by (auto simp: policy_ok_def)
  have x: "0 \<le> ?b / ?m" using m b by simp
  have P': "P = round_up D ?v 6"
    using P c0 by (simp add: price_per_minute_for_def Let_def MONEY_DP_def)
  have near: "?v \<le> ?b / ?m + 1 / 10 ^ 18" "?b / ?m - 1 / 10 ^ 18 \<le> ?v"
    using dec_div_near [OF D, of ?m ?b] m x bound by auto
  have v0: "0 \<le> ?v"
    using D m x bound by (intro dec_div_nonneg) auto
  then have v8: "?v < 10 ^ 8" using near bound by simp
  note up = round_up_bounds [OF D _ v0 v8, of 6, folded P']
  show "grid 6 P" "0 \<le> P" using up(1,3) v0 by simp_all
  have "?b = ?m * (?b / ?m)" using m by simp
  also have "\<dots> \<le> ?m * (P + 1 / 10 ^ 18)"
    using m up(1) near by (intro mult_left_mono) auto
  also have "\<dots> = ?m * P + ?m * (1 / 10 ^ 18)" by (rule distrib_left)
  also have "\<dots> \<le> ?m * P + 1 / 10 ^ 18" using m by (simp add: divide_right_mono)
  finally show "?b \<le> ?m * P + 1 / 10 ^ 18" .
  show "P < ?b / ?m + 1 / 10 ^ 5" using up(2) near by simp
qed

lemma realised_margin_ge:
  assumes D: "decimal_laws D" and m: "0 \<le> m" "m \<le> 1" "grid 6 m"
    and charge: "0 < charge" "grid 6 charge"
    and cost: "0 \<le> cost" "cost \<le> (1 - m) * charge + 1 / 10 ^ 18"
  shows "\<exists>r. realised_margin D charge cost = Some r \<and> m \<le> r"
proof -
  let ?q = "(charge - cost) / charge"
  from charge obtain k :: int where k: "charge = of_int k / 10 ^ 6" by (elim gridE)
  with charge(1) have "k \<ge> 1" by (simp add: zero_less_divide_iff)
  then have c6: "1 / 10 ^ 6 \<le> charge" by (simp add: k divide_right_mono)
  have "m * charge - 1 / 10 ^ 12 * charge \<le> charge - cost"
    using cost(2) c6 by (simp add: algebra_simps)
  then have lo: "m - 1 / 10 ^ 12 \<le> ?q"
    using charge(1) by (simp add: le_divide_eq left_diff_distrib)
  have hi: "?q \<le> 1" using cost(1) charge(1) by (simp add: divide_le_eq)
  define q where "q = ?q"
  have "\<bar>q\<bar> < 10 ^ 9" using lo hi m(1,2) unfolding q_def [symmetric] by simp
  then have "?q - 1 / 10 ^ 18 \<le> dec_div D (charge - cost) charge"
    using D charge(1) unfolding q_def by (intro dec_div_near) simp_all
  with lo have "m - 1 / (2 * 10 ^ 6) < dec_div D (charge - cost) charge" by simp
  from dec_round_ge [OF D m(3) this] charge(1) show ?thesis
    by (simp add: realised_margin_def MONEY_DP_def)
qed

lemma is_respected_if:
  assumes "decimal_laws D" and "policy_ok p" and "grid 6 (min_gross_margin p)"
    and "0 \<le> charge" and "grid 6 charge" and "0 \<le> cost"
    and "cost \<le> (1 - min_gross_margin p) * charge + 1 / 10 ^ 18"
    and "charge = 0 \<Longrightarrow> cost = 0"
  shows "is_respected D p charge cost"
proof (cases "charge = 0")
  case True
  with assms(8) show ?thesis by (simp add: is_respected_def realised_margin_def)
next
  case False
  with assms realised_margin_ge [of D "min_gross_margin p" charge cost] show ?thesis
    by (auto simp: is_respected_def policy_ok_def)
qed

section \<open>Credits\<close>

lemma credits_ceil_eq:
  assumes D: "decimal_laws D" and u: "0 \<le> u" "grid 6 u" "u < 10 ^ 7"
  shows "credits_ceil D u = \<lceil>u * 100\<rceil>"
proof -
  have "grid 18 (u * 100)"
    using grid_mono [OF grid_mult [OF u(2) grid_of_nat [of 0 100]]] by simp
  then have "dec_div D u usd_per_credit = u * 100"
    using dec_div_exact [OF D, of usd_per_credit u] u by (simp add: usd_per_credit_def)
  moreover have "\<lceil>u * 100\<rceil> \<le> 10 ^ 9" using u by (simp add: ceiling_le_iff)
  moreover have "0 \<le> \<lceil>u * 100\<rceil>" using u by simp
  ultimately show ?thesis
    using u by (auto simp: credits_ceil_def to_i32_or_max_def in_i32_def i32_min_def i32_max_def)
qed

lemma credits_cover:
  assumes "decimal_laws D" and "0 \<le> u" "grid 6 u" "u < 10 ^ 7"
  shows "u \<le> credits_to_usd (credits_ceil D u)" "credits_to_usd (credits_ceil D u) < u + usd_per_credit"
    and "0 \<le> credits_ceil D u"
proof -
  have "u * 100 \<le> of_int \<lceil>u * 100\<rceil>" "of_int \<lceil>u * 100\<rceil> < u * 100 + 1" by linarith+
  then show "u \<le> credits_to_usd (credits_ceil D u)"
    "credits_to_usd (credits_ceil D u) < u + usd_per_credit"
    by (simp_all add: credits_ceil_eq [OF assms] credits_to_usd_def usd_per_credit_def)
  show "0 \<le> credits_ceil D u" using assms(2) by (simp add: credits_ceil_eq [OF assms])
qed

lemma credits_to_usd_grid: "grid 2 (credits_to_usd k)"
  using grid_of_int [of 2 k] by (simp add: credits_to_usd_def usd_per_credit_def)

lemma owed_bounds:
  assumes D: "decimal_laws D" and P: "0 \<le> P" "P * of_nat s < 10 ^ 8"
  shows "grid 6 (owed_usd D P s)" "0 \<le> owed_usd D P s"
    and "owed_usd D P s \<le> P * of_nat s / 60 + 1 / (2 * 10 ^ 6) + 1 / 10 ^ 18"
    and "P * of_nat s / 60 - 1 / (2 * 10 ^ 6) - 1 / 10 ^ 18 \<le> owed_usd D P s"
proof -
  let ?q = "P * of_nat s / 60"
  have q: "0 \<le> ?q" "\<bar>?q\<bar> < 10 ^ 9" using P by simp_all
  note d = dec_div_near [OF D _ q(2)] dec_div_nonneg [OF D _ q(2) q(1)]
  note r = dec_round_near [OF D, of "dec_div D (P * of_nat s) 60" 6]
  show "grid 6 (owed_usd D P s)"
    by (simp add: owed_usd_def MONEY_DP_def dec_round_grid [OF D])
  show "owed_usd D P s \<le> ?q + 1 / (2 * 10 ^ 6) + 1 / 10 ^ 18"
    "?q - 1 / (2 * 10 ^ 6) - 1 / 10 ^ 18 \<le> owed_usd D P s"
    using r d by (simp_all add: owed_usd_def MONEY_DP_def)
  have "(0 :: rat) - 1 / (2 * 10 ^ 6) < dec_div D (P * of_nat s) 60" using d(3) by simp
  then show "0 \<le> owed_usd D P s"
    unfolding owed_usd_def MONEY_DP_def by (intro dec_round_ge [OF D]) (simp_all add: grid_def)
qed

lemma owed_le_grid:
  assumes D: "decimal_laws D" and P: "0 \<le> P" "P * of_nat s < 10 ^ 8"
    and u: "grid 6 u" "P * of_nat s / 60 \<le> u"
  shows "owed_usd D P s \<le> u"
  using owed_bounds [OF D P] u by (intro grid_le [OF _ u(1)]) simp_all

section \<open>Properties\<close>

text \<open>
  C29: The gross-margin floor holds up to ten million dollars a minute: for a valid policy (its margin
  with at most six decimals, as the configuration yields it) and an itemised cost whose exact price
  \<open>cost (1 + buffer) / (1 - margin)\<close> is below \<open>10\<^sup>7\<close>, a price that is quoted respects the floor against
  every cost up to the buffered itemised cost, and it exceeds the exact price by less than \<open>10\<^sup>-\<^sup>5\<close>.
\<close>

theorem price_keeps_margin:
  assumes D: "decimal_laws D" and p: "margin_policy_new m b = Inr p" and m: "grid 6 m"
    and P: "price_per_minute_for D p (provider_cost_total D c) = Inr P"
    and bound: "provider_cost_total D c * (1 + b) / (1 - m) < 10 ^ 7"
    and cost: "0 \<le> cost" "cost \<le> provider_cost_total D c * (1 + b)"
  shows "is_respected D p P cost \<and> P < provider_cost_total D c * (1 + b) / (1 - m) + 1 / 10 ^ 5"
proof -
  let ?c = "provider_cost_total D c"
  note ok = margin_policy_new_ok [OF p]
  then have ok': "policy_ok p" "min_gross_margin p = m" "safety_buffer p = b" by simp_all
  note pb = price_bounds [OF D ok'(1) P, unfolded ok', OF bound]
  have zero: "cost = 0" if "P = 0"
  proof -
    have "?c \<le> ?c * (1 + b)"
      using pb(1) ok by (simp add: policy_ok_def mult_left_le_one_le mult_le_cancel_left1)
    then have "?c < 0 + 1 / 10 ^ 6" using pb(4) that by simp
    then have "?c \<le> 0"
      using grid_le [OF total_grid [OF D], of 0 c] by (simp add: grid_def)
    then have "?c = 0" using pb(1) by simp
    then show ?thesis using cost by simp
  qed
  have "is_respected D p P cost"
    using pb cost zero m ok' by (intro is_respected_if [OF D]) (auto simp: ok')
  then show ?thesis using pb(5) by blast
qed

definition sample_cost :: ProviderCost where
  "sample_cost = \<lparr>telephony = 12 / 1000, translation = 9 / 1000, media_streaming = 0,
     recording = 0, storage = 0, ancillary = 0\<rparr>"

theorem price_keeps_margin_witness:
  "is_respected exact_decimal \<lparr>min_gross_margin = 1 / 5, safety_buffer = 1 / 10\<rparr> (28875 / 1000000)
     (231 / 10000)"
proof -
  let ?p = "\<lparr>min_gross_margin = 1 / 5, safety_buffer = 1 / 10\<rparr> :: MarginPolicy"
  have total: "provider_cost_total exact_decimal sample_cost = 21 / 1000"
    by code_simp
  have price: "price_per_minute_for exact_decimal ?p (21 / 1000) = Inr (28875 / 1000000)"
    by code_simp
  have "grid 6 (1 / 5)" using grid_of_int [of 6 200000] by simp
  from price_keeps_margin [OF exact_decimal_laws, of "1 / 5" "1 / 10" ?p, OF _ this,
      of sample_cost, unfolded total, OF _ price, of "231 / 10000"]
  show ?thesis by (simp add: margin_policy_new_def)
qed

text \<open>
  The floor survives settlement in whole credits: for a margin of at least one basis
  point given in basis points, a call of any length is charged, after rounding the owed
  amount to six decimals and up to whole credits, at least the floor against its own rounded
  cost.
\<close>

theorem settlement_keeps_margin:
  assumes D: "decimal_laws D" and p: "margin_policy_new m b = Inr p"
    and m: "grid 4 m" "1 / 10 ^ 4 \<le> m"
    and P: "price_per_minute_for D p cost = Inr P"
    and cost: "cost * (1 + b) / (1 - m) < 10 ^ 7"
    and s: "s \<le> 10 ^ 8" "P * of_nat s < 10 ^ 8" "cost * of_nat s < 10 ^ 8"
  shows "is_respected D p (credits_to_usd (settle_credits D P s)) (owed_usd D cost s)"
proof -
  note ok = margin_policy_new_ok [OF p]
  then have ok': "policy_ok p" "min_gross_margin p = m" "safety_buffer p = b" by simp_all
  note pb = price_bounds [OF D ok'(1) P, unfolded ok', OF cost]
  note oP = owed_bounds [OF D pb(3) s(2)]
  note oC = owed_bounds [OF D pb(1) s(3)]
  let ?u = "owed_usd D P s" and ?i = "owed_usd D cost s"
  let ?charge = "credits_to_usd (settle_credits D P s)"
  have u7: "?u < 10 ^ 7" using oP(3) s(2) by simp
  note cc = credits_cover [OF D oP(2,1) u7, folded settle_credits_def]
  have m1: "0 \<le> m" "m < 1" using ok by (simp_all add: policy_ok_def)
  have "cost \<le> cost * (1 + b)"
    using pb(1) ok by (simp add: policy_ok_def mult_le_cancel_left1)
  then have "cost \<le> (1 - m) * P + 1 / 10 ^ 18" using pb(4) by simp
  then have "cost * of_nat s \<le> ((1 - m) * P + 1 / 10 ^ 18) * of_nat s"
    by (rule mult_right_mono) simp
  also have "\<dots> = (1 - m) * (P * of_nat s) + 1 / 10 ^ 18 * of_nat s" by (simp add: algebra_simps)
  also have "\<dots> \<le> (1 - m) * (P * of_nat s) + 1 / 10 ^ 10"
  proof -
    have "(of_nat s :: rat) \<le> of_nat (10 ^ 8)" using s(1) by (simp only: of_nat_le_iff)
    then show ?thesis by simp
  qed
  finally have cs: "cost * of_nat s / 60 \<le> (1 - m) * (P * of_nat s / 60) + 1 / 10 ^ 11"
    by simp
  have "P * of_nat s / 60 \<le> ?charge + 1 / (2 * 10 ^ 6) + 1 / 10 ^ 18"
    using oP(4) cc(1) by simp
  then have "(1 - m) * (P * of_nat s / 60) \<le> (1 - m) * (?charge + 1 / (2 * 10 ^ 6) + 1 / 10 ^ 18)"
    using m1 by (intro mult_left_mono) simp_all
  also have "\<dots> \<le> (1 - m) * ?charge + (1 / (2 * 10 ^ 6) - 1 / (2 * 10 ^ 10)) + 1 / 10 ^ 18"
    using m(2) by (simp add: algebra_simps)
  finally have "?i < (1 - m) * ?charge + 1 / 10 ^ 6" using cs oC(3) by simp
  moreover have "grid 6 ((1 - m) * ?charge)"
    using grid_mult [OF grid_diff [OF grid_of_nat [of 4 1] m(1)] credits_to_usd_grid] by simp
  ultimately have fin: "?i \<le> (1 - m) * ?charge" by (intro grid_le [OF oC(1)])
  then have "?i \<le> (1 - m) * ?charge + 1 / 10 ^ 18" by simp
  moreover have "?i = 0" if "?charge = 0" using fin oC(2) that by simp
  moreover have "0 \<le> ?charge" using cc(3) by (simp add: credits_to_usd_def usd_per_credit_def)
  ultimately show ?thesis
    using oC(1,2) grid_mono [OF credits_to_usd_grid] grid_mono [OF m(1)] ok'
    by (intro is_respected_if [OF D]) simp_all
qed

theorem settlement_keeps_margin_witness:
  "is_respected exact_decimal \<lparr>min_gross_margin = 1 / 5, safety_buffer = 0\<rparr>
     (credits_to_usd (settle_credits exact_decimal (5 / 100) 95)) (owed_usd exact_decimal (4 / 100) 95)"
proof (rule settlement_keeps_margin [OF exact_decimal_laws, of "1 / 5" 0])
  show "margin_policy_new (1 / 5) 0 = Inr \<lparr>min_gross_margin = 1 / 5, safety_buffer = 0\<rparr>"
    by (simp add: margin_policy_new_def)
  show "grid 4 (1 / 5)" using grid_of_int [of 4 2000] by simp
  show "price_per_minute_for exact_decimal \<lparr>min_gross_margin = 1 / 5, safety_buffer = 0\<rparr> (4 / 100)
      = Inr (5 / 100)" by code_simp
qed simp_all

text \<open>
  For a margin finer than a basis point the settlement can land below the floor: at a
  margin of \<open>12.3456\<close> percent a two-second call at a cost of \<open>$0.525926\<close> a minute is charged
  two credits and realises \<open>12.345\<close> percent. So the guarantee of \<open>settlement_keeps_margin\<close> needs
  its restriction; the module's comment states it for every input.
\<close>

theorem settlement_below_fine_margin:
  "\<exists>m b p cost P. margin_policy_new m b = Inr p \<and> grid 6 m \<and>
     price_per_minute_for exact_decimal p cost = Inr P \<and> is_respected exact_decimal p P cost \<and>
     \<not> is_respected exact_decimal p (credits_to_usd (settle_credits exact_decimal P 2))
         (owed_usd exact_decimal cost 2)"
proof (intro exI conjI)
  let ?p = "\<lparr>min_gross_margin = 123456 / 1000000, safety_buffer = 0\<rparr> :: MarginPolicy"
  show "margin_policy_new (123456 / 1000000) 0 = Inr ?p" by (simp add: margin_policy_new_def)
  show "grid 6 (123456 / 1000000)" using grid_of_int [of 6 123456] by simp
  show "price_per_minute_for exact_decimal ?p (525926 / 1000000) = Inr (600000 / 1000000)"
    by code_simp
  show "is_respected exact_decimal ?p (600000 / 1000000) (525926 / 1000000)" by code_simp
  show "\<not> is_respected exact_decimal ?p (credits_to_usd (settle_credits exact_decimal
      (600000 / 1000000) 2)) (owed_usd exact_decimal (525926 / 1000000) 2)" by code_simp
qed

text \<open>
  A reservation sized by a quote is enough: it holds at least one credit, it is worth at
  least the quoted price of the estimated minutes and less than one credit more (or it is the
  minimum), and it covers the settlement of every call that ends within those minutes.
\<close>

theorem quote_reserve_covers:
  assumes D: "decimal_laws D" and p: "policy_ok p"
    and q: "quote D p c minutes = Inr q"
    and bound: "provider_cost_total D c * (1 + safety_buffer p) / (1 - min_gross_margin p) < 10 ^ 7"
      "q_price_per_minute q * of_int (q_estimated_minutes q) < 10 ^ 6"
  shows "1 \<le> q_reserve_credits q \<and> q_estimated_minutes q = max minutes 1
     \<and> q_price_per_minute q * of_int (q_estimated_minutes q) \<le> credits_to_usd (q_reserve_credits q)
     \<and> (q_reserve_credits q = 1 \<or> credits_to_usd (q_reserve_credits q) <
          q_price_per_minute q * of_int (q_estimated_minutes q) + usd_per_credit)
     \<and> (\<forall>s. int s \<le> 60 * q_estimated_minutes q \<longrightarrow>
          settle_credits D (q_price_per_minute q) s \<le> q_reserve_credits q)"
proof -
  from q obtain P where P: "price_per_minute_for D p (provider_cost_total D c) = Inr P"
    and qP: "q_price_per_minute q = P" and qm: "q_estimated_minutes q = max minutes 1"
    and qr: "q_reserve_credits q = max (credits_ceil D (P * of_int (max minutes 1))) 1"
    by (auto simp: quote_def Let_def split: sum.splits)
  define n where "n = max minutes 1"
  note pb = price_bounds [OF D p P bound(1)]
  let ?u = "P * of_int n"
  have n: "1 \<le> n" by (simp add: n_def)
  have u: "0 \<le> ?u" "grid 6 ?u" "?u < 10 ^ 7"
    using pb(2,3) n grid_mult [OF pb(2) grid_of_int_0 [of 0 n]] bound(2) qP qm
    by (simp_all add: n_def)
  note cc = credits_cover [OF D u]
  have r: "q_reserve_credits q = max (credits_ceil D ?u) 1" using qr by (simp add: n_def)
  have mono: "credits_to_usd a \<le> credits_to_usd b" if "a \<le> b" for a b
    using that by (simp add: credits_to_usd_def usd_per_credit_def)
  have "?u \<le> credits_to_usd (q_reserve_credits q)"
    using cc(1) mono [of "credits_ceil D ?u" "q_reserve_credits q"] r by simp
  moreover have "q_reserve_credits q = 1 \<or> credits_to_usd (q_reserve_credits q) < ?u + usd_per_credit"
    using cc(2) r by (auto simp: max_def)
  moreover have "settle_credits D P s \<le> q_reserve_credits q" if s: "int s \<le> 60 * n" for s
  proof -
    have "(of_nat s :: rat) \<le> of_int (60 * n)" using s by (metis of_int_le_iff of_int_of_nat_eq)
    then have "P * of_nat s \<le> P * of_int (60 * n)" using pb(3) by (rule mult_left_mono)
    then have le: "P * of_nat s / 60 \<le> ?u" by simp
    moreover have Ps: "P * of_nat s < 10 ^ 8" using le bound(2) qP qm by (simp add: n_def)
    ultimately have o: "owed_usd D P s \<le> ?u" using owed_le_grid [OF D pb(3) Ps u(2)] by blast
    have "owed_usd D P s < 10 ^ 7" using o u(3) by simp
    note eq = credits_ceil_eq [OF D owed_bounds(2,1) [OF D pb(3) Ps] this]
    have "settle_credits D P s \<le> credits_ceil D ?u"
      unfolding settle_credits_def eq credits_ceil_eq [OF D u] using o
      by (intro ceiling_mono mult_right_mono) simp_all
    then show ?thesis using r by simp
  qed
  ultimately show ?thesis using qP qm r by (simp add: n_def)
qed

theorem quote_reserve_covers_witness:
  "\<exists>q. quote exact_decimal \<lparr>min_gross_margin = 1 / 5, safety_buffer = 1 / 10\<rparr> sample_cost 10 = Inr q
     \<and> q_reserve_credits q = 29 \<and> settle_credits exact_decimal (28875 / 1000000) 600 \<le> 29"
proof -
  let ?p = "\<lparr>min_gross_margin = 1 / 5, safety_buffer = 1 / 10\<rparr> :: MarginPolicy"
  let ?q = "\<lparr>q_cost = sample_cost, q_price_per_minute = 28875 / 1000000, q_reserve_credits = 29,
    q_estimated_minutes = 10\<rparr> :: Quote"
  have q: "quote exact_decimal ?p sample_cost 10 = Inr ?q" by code_simp
  have total: "provider_cost_total exact_decimal sample_cost = 21 / 1000" by code_simp
  have "policy_ok ?p" by (simp add: policy_ok_def)
  from quote_reserve_covers [OF exact_decimal_laws this q]
  have "settle_credits exact_decimal (28875 / 1000000) 600 \<le> 29" by (simp add: total)
  with q show ?thesis by (intro exI [of _ ?q]) simp
qed

text \<open>
  A resold number is never sold below cost plus markup: the customer price is at least
  the exact \<open>cost (1 + markup)\<close>, exceeds it by less than a millionth, has six decimals, and a
  free number stays free; a negative cost or markup is refused.
\<close>

theorem number_price_exact_markup:
  assumes D: "decimal_laws D" and p: "number_markup_new mk = Inr p"
    and cost: "cost * (1 + mk) < 10 ^ 8"
  shows "case customer_price D p cost of
       Inl e \<Rightarrow> e = NegativeCost \<and> cost < 0
     | Inr price \<Rightarrow> 0 \<le> cost \<and> cost * (1 + mk) \<le> price \<and> price < cost * (1 + mk) + 1 / 10 ^ 6
         \<and> grid 6 price \<and> (cost = 0 \<longrightarrow> price = 0)"
proof (cases "cost < 0")
  case True
  then show ?thesis by (simp add: customer_price_def)
next
  case False
  from p have mk: "0 \<le> mk" "markup p = mk"
    by (auto simp: number_markup_new_def split: if_splits)
  then have v: "0 \<le> cost * (1 + mk)" using False by simp
  note b = round_up_bounds [OF D _ v cost, of 6]
  have "cost = 0 \<Longrightarrow> round_up D (cost * (1 + mk)) 6 = 0"
    using round_up_eq [OF D _ v cost, of 6] by simp
  with b False show ?thesis by (simp add: customer_price_def MONEY_DP_def mk)
qed

theorem number_price_exact_markup_witness:
  "number_markup_new (1 / 5) = Inr \<lparr>markup = 1 / 5\<rparr>
   \<and> customer_price exact_decimal \<lparr>markup = 1 / 5\<rparr> (135 / 100) = Inr (162 / 100)
   \<and> (135 / 100) * (1 + 1 / 5) \<le> (162 / 100 :: rat)"
proof -
  have n: "number_markup_new (1 / 5) = Inr \<lparr>markup = 1 / 5\<rparr>"
    by (simp add: number_markup_new_def)
  moreover have c: "customer_price exact_decimal \<lparr>markup = 1 / 5\<rparr> (135 / 100) = Inr (162 / 100)"
    by code_simp
  moreover have "(135 / 100) * (1 + 1 / 5) \<le> (162 / 100 :: rat)"
    using number_price_exact_markup [OF exact_decimal_laws n, of "135 / 100"] c by simp
  ultimately show ?thesis by blast
qed

lemma rate_sorted_find:
  assumes "find P (sort_key f xs) = Some r" and "r' \<in> set xs" and "P r'"
  shows "f r \<le> f r'"
proof -
  from assms(1) obtain ys zs where s: "sort_key f xs = ys @ r # zs" "P r" "\<forall>y \<in> set ys. \<not> P y"
    by (auto simp: find_Some_split)
  have "r' \<in> set (sort_key f xs)" using assms(2) by simp
  with s assms(3) have "r' = r \<or> r' \<in> set zs" by auto
  moreover have "sorted (map f (ys @ r # zs))" using sorted_sort_key [of f xs] s(1) by simp
  ultimately show ?thesis by (auto simp: sorted_append)
qed

text \<open>
  The rate deck answers with the longest matching prefix: a rate is returned exactly
  when some prefix matches and the longest one is fresh, no stale or unknown destination is
  priced, and with distinct prefixes the answer does not depend on the order of the rows.
\<close>

theorem rate_lookup_longest_fresh:
  assumes "distinct (map rate_prefix rs)" and "mset rs = mset rs'"
  shows "(\<forall>r. rate_lookup (rate_deck_new rs) n now max_age = Inr r \<longrightarrow>
            r \<in> set rs \<and> starts_with (e164_digits n) (rate_prefix r)
            \<and> (\<forall>r' \<in> set rs. starts_with (e164_digits n) (rate_prefix r') \<longrightarrow>
                 length (rate_prefix r') \<le> length (rate_prefix r))
            \<and> (\<forall>age. max_age = Some age \<longrightarrow> now - fetched_at r \<le> age))
    \<and> (max_age = None \<longrightarrow> (\<exists>r \<in> set rs. starts_with (e164_digits n) (rate_prefix r)) \<longrightarrow>
            (\<exists>r. rate_lookup (rate_deck_new rs) n now max_age = Inr r))
    \<and> rate_lookup (rate_deck_new rs') n now max_age = rate_lookup (rate_deck_new rs) n now max_age"
proof -
  let ?P = "\<lambda>r. starts_with (e164_digits n) (rate_prefix r)"
  have "inj_on rate_key (set rs)"
    using assms(1) by (auto simp: inj_on_def rate_key_def distinct_map)
  then have "sort_key rate_key rs = sort_key rate_key rs'"
    using assms(2) by (intro sort_key_inj_key_eq) simp_all
  then have perm: "rate_deck_new rs' = rate_deck_new rs" by (simp add: rate_deck_new_def)
  have found: "r \<in> set rs \<and> ?P r \<and> (\<forall>r' \<in> set rs. ?P r' \<longrightarrow>
      length (rate_prefix r') \<le> length (rate_prefix r))
      \<and> (\<forall>age. max_age = Some age \<longrightarrow> now - fetched_at r \<le> age)"
    if "rate_lookup (rate_deck_new rs) n now max_age = Inr r" for r
  proof -
    from that have f: "find ?P (sort_key rate_key rs) = Some r"
      and fresh: "\<forall>age. max_age = Some age \<longrightarrow> now - fetched_at r \<le> age"
      by (auto simp: rate_lookup_def rate_deck_new_def Let_def split: option.splits if_splits)
    have "length (rate_prefix r') \<le> length (rate_prefix r)" if "r' \<in> set rs" "?P r'" for r'
      using rate_sorted_find [OF f that] by (auto simp: rate_key_def less_eq_prod_def)
    with find_SomeD [OF f] fresh show ?thesis by auto
  qed
  have "\<exists>r. rate_lookup (rate_deck_new rs) n now None = Inr r" if "\<exists>r \<in> set rs. ?P r"
    using that by (auto simp: rate_lookup_def rate_deck_new_def find_None_iff
        split: option.splits)
  with found perm show ?thesis by auto
qed

definition sample_deck :: "Rate list" where
  "sample_deck =
     [\<lparr>rate_prefix = ''86'', cost_per_minute = 2 / 100, rate_description = ''China'',
       fetched_at = 0\<rparr>,
      \<lparr>rate_prefix = ''8613'', cost_per_minute = 45 / 1000, rate_description = ''China mobile'',
       fetched_at = 0\<rparr>]"

theorem rate_lookup_longest_fresh_witness:
  "rate_lookup (rate_deck_new (rev sample_deck)) (E164 ''+8613911112222'') 5 (Some 9) =
   rate_lookup (rate_deck_new sample_deck) (E164 ''+8613911112222'') 5 (Some 9)"
  using rate_lookup_longest_fresh [of sample_deck "rev sample_deck"
      "E164 ''+8613911112222''" 5 "Some 9"]
  by (simp add: sample_deck_def)

end
