(* ===== verification/Credits.thy ===== *)
theory Credits
  imports Vox_Prelude
begin

text \<open>
  The organisation credit pool, \<^verbatim>\<open>server/src/business/credits.rs\<close>: the ledgered deduction and
  grant, the gifted subscription, the fees in whole credits and the two meters. The tables
  \<open>organizations\<close> and \<open>organization_credits_transactions\<close> are the state; an SQL statement
  of the source is its effect on them, a failed statement is an error value and leaves the
  state as it was (the transaction is dropped). Balances are \<open>i32\<close>; the release build wraps.
\<close>

section \<open>The tables\<close>

datatype db_error = RowNotFound | UniqueViolation | OutOfRange | ForeignKeyViolation

record Org =
  credits_balance :: int
  stripe_subscription_id :: "string option"
  plan :: string
  subscription_status :: string
  cancel_at_period_end :: bool
  current_period_end :: "int option"

record LedgerRow =
  l_org_id :: nat
  l_amount :: int
  l_type :: string
  l_description :: string
  l_session_id :: "nat option"
  l_actor_id :: "nat option"
  l_payment_intent :: "string option"

record CreditDb =
  organizations :: "nat \<Rightarrow> Org option"
  ledger :: "LedgerRow list"

definition org_balance :: "CreditDb \<Rightarrow> nat \<Rightarrow> int option" where
  "org_balance db org = map_option credits_balance (organizations db org)"

text \<open>\<open>UPDATE organizations SET credits_balance = $2 WHERE id = $1\<close>.\<close>

definition set_balance :: "CreditDb \<Rightarrow> nat \<Rightarrow> int \<Rightarrow> CreditDb" where
  "set_balance db org b =
     db\<lparr>organizations := (organizations db)
          (org := map_option (\<lambda>r. r\<lparr>credits_balance := b\<rparr>) (organizations db org))\<rparr>"

section \<open>Deduct and add\<close>

datatype OrgCharge = Charged int | Insufficient int int

definition deduct_org_credits_tx ::
  "CreditDb \<Rightarrow> nat \<Rightarrow> int \<Rightarrow> string \<Rightarrow> nat option \<Rightarrow> nat option \<Rightarrow> string
     \<Rightarrow> db_error + OrgCharge \<times> CreditDb" where
  "deduct_org_credits_tx db org amount kind session actor description =
     (case org_balance db org of
        None \<Rightarrow> Inl RowNotFound
      | Some balance \<Rightarrow>
          if amount > 0 \<and> balance < amount then Inr (Insufficient balance amount, db)
          else let new_balance = wrap_i32 (balance - amount);
                   db1 = set_balance db org new_balance;
                   row = \<lparr>l_org_id = org, l_amount = wrap_i32 (- amount), l_type = kind,
                          l_description = description, l_session_id = session,
                          l_actor_id = actor, l_payment_intent = None\<rparr>
               in Inr (Charged new_balance, db1\<lparr>ledger := ledger db1 @ [row]\<rparr>))"

text \<open>Its own transaction: begin, deduct, commit.\<close>

definition deduct_org_credits ::
  "CreditDb \<Rightarrow> nat \<Rightarrow> int \<Rightarrow> string \<Rightarrow> nat option \<Rightarrow> nat option \<Rightarrow> string
     \<Rightarrow> db_error + OrgCharge \<times> CreditDb" where
  "deduct_org_credits db org amount kind session actor description =
     (case deduct_org_credits_tx db org amount kind session actor description of
        Inl e \<Rightarrow> Inl e
      | Inr (charge, db') \<Rightarrow> Inr (charge, db'))"

definition add_org_credits_tx ::
  "CreditDb \<Rightarrow> nat \<Rightarrow> int \<Rightarrow> string \<Rightarrow> string \<Rightarrow> string option \<Rightarrow> nat option
     \<Rightarrow> db_error + int \<times> CreditDb" where
  "add_org_credits_tx db org amount kind description payment session =
     (case org_balance db org of
        None \<Rightarrow> Inl RowNotFound
      | Some balance \<Rightarrow>
          let new_balance = wrap_i32 (balance + amount);
              db1 = set_balance db org new_balance;
              row = \<lparr>l_org_id = org, l_amount = amount, l_type = kind,
                     l_description = description, l_session_id = session,
                     l_actor_id = None, l_payment_intent = payment\<rparr>
          in Inr (new_balance, db1\<lparr>ledger := ledger db1 @ [row]\<rparr>))"

definition add_org_credits ::
  "CreditDb \<Rightarrow> nat \<Rightarrow> int \<Rightarrow> string \<Rightarrow> string \<Rightarrow> string option \<Rightarrow> db_error + int \<times> CreditDb" where
  "add_org_credits db org amount kind description payment =
     (case add_org_credits_tx db org amount kind description payment None of
        Inl e \<Rightarrow> Inl e
      | Inr (new_balance, db') \<Rightarrow> Inr (new_balance, db'))"

section \<open>Subscriptions\<close>

text \<open>\<open>SUBSCRIPTION_ACTIVE_SQL\<close>; a missing organisation is not active.\<close>

definition subscription_active_row :: "Org \<Rightarrow> int \<Rightarrow> bool" where
  "subscription_active_row r now \<longleftrightarrow>
     subscription_status r = ''active''
     \<and> (case current_period_end r of None \<Rightarrow> True | Some e \<Rightarrow> e > now)"

definition org_subscription_active :: "CreditDb \<Rightarrow> nat \<Rightarrow> int \<Rightarrow> bool" where
  "org_subscription_active db org now =
     (case organizations db org of None \<Rightarrow> False | Some r \<Rightarrow> subscription_active_row r now)"

datatype GiftOutcome = Gifted int int int | NotFound | ManagedByStripe

text \<open>
  The gift; \<open>plus_months\<close> is the database's calendar arithmetic. The sum is computed by the
  database, which refuses an integer out of range.
\<close>

definition gift_subscription ::
  "(int \<Rightarrow> int \<Rightarrow> int) \<Rightarrow> (int \<Rightarrow> string \<Rightarrow> string) \<Rightarrow> CreditDb \<Rightarrow> int \<Rightarrow> nat \<Rightarrow> string \<Rightarrow> int \<Rightarrow> int
     \<Rightarrow> db_error + GiftOutcome \<times> CreditDb" where
  "gift_subscription plus_months describe db now org pln months credits =
     (case organizations db org of
        None \<Rightarrow> Inr (NotFound, db)
      | Some r \<Rightarrow>
          if stripe_subscription_id r \<noteq> None then Inr (ManagedByStripe, db)
          else if \<not> in_i32 (credits_balance r + credits) then Inl OutOfRange
          else let period_end = plus_months
                     (max (case current_period_end r of None \<Rightarrow> now | Some e \<Rightarrow> e) now) months;
                   r' = r\<lparr>plan := pln, subscription_status := ''active'',
                          cancel_at_period_end := True, current_period_end := Some period_end,
                          credits_balance := credits_balance r + credits\<rparr>;
                   db1 = db\<lparr>organizations := (organizations db)(org := Some r')\<rparr>;
                   row = \<lparr>l_org_id = org, l_amount = credits, l_type = ''gift'',
                          l_description = describe months pln, l_session_id = None,
                          l_actor_id = None, l_payment_intent = None\<rparr>;
                   db2 = (if credits > 0 then db1\<lparr>ledger := ledger db1 @ [row]\<rparr> else db1)
               in Inr (Gifted (credits_balance r') credits period_end, db2))"

section \<open>Fees in whole credits\<close>

text \<open>Ceiling division on non-negative \<open>i64\<close>; the \<open>as i32\<close> casts keep the low 32 bits.\<close>

definition ceil_div :: "int \<Rightarrow> int \<Rightarrow> int" where
  "ceil_div n d = (max n 0 + d - 1) div d"

definition recording_credits :: "int \<Rightarrow> int" where
  "recording_credits duration_seconds = wrap_i32 (ceil_div duration_seconds 60)"

definition translation_credits :: "int \<Rightarrow> int" where
  "translation_credits word_count = wrap_i32 (ceil_div word_count 1000 * 2)"

definition insight_credits :: int where
  "insight_credits = 3"

text \<open>
  The floating point product \<open>cost * (1.0 + markup)\<close> and its conversion to a decimal are the
  parameter \<open>price_f64\<close>.
\<close>

definition minute_price_usd ::
  "decimal_ops \<Rightarrow> ('f \<Rightarrow> 'f \<Rightarrow> rat option) \<Rightarrow> 'f \<Rightarrow> 'f \<Rightarrow> usd" where
  "minute_price_usd D price_f64 cost mk =
     dec_round D (case price_f64 cost mk of None \<Rightarrow> 0 | Some p \<Rightarrow> p) 6"

definition transcription_credits ::
  "decimal_ops \<Rightarrow> ('f \<Rightarrow> 'f \<Rightarrow> rat option) \<Rightarrow> int \<Rightarrow> 'f \<Rightarrow> 'f \<Rightarrow> int" where
  "transcription_credits D price_f64 duration_seconds cost mk =
     (let minutes = dec_div D (of_int (max duration_seconds 0)) 60;
          price = minute_price_usd D price_f64 cost mk * minutes
      in to_i32_or_max \<lceil>price * 100\<rceil>)"

section \<open>Meters\<close>

record MinuteRateMeter =
  price_per_minute_usd :: usd
  charged :: int

definition minute_rate_meter_new ::
  "decimal_ops \<Rightarrow> ('f \<Rightarrow> 'f \<Rightarrow> rat option) \<Rightarrow> 'f \<Rightarrow> 'f \<Rightarrow> MinuteRateMeter" where
  "minute_rate_meter_new D price_f64 cost mk =
     \<lparr>price_per_minute_usd = minute_price_usd D price_f64 cost mk, charged = 0\<rparr>"



record CreditAccumulator =
  carried_usd :: usd

definition accumulator_take ::
  "decimal_ops \<Rightarrow> CreditAccumulator \<Rightarrow> usd \<Rightarrow> int \<times> CreditAccumulator" where
  "accumulator_take D a u =
     (let owed = (if u > 0 then carried_usd a + u else carried_usd a);
          credits = \<lfloor>dec_div D owed (1 / 100)\<rfloor>
      in if credits < 1 then (0, a\<lparr>carried_usd := owed\<rparr>)
         else (to_i32_or_max credits, a\<lparr>carried_usd := owed - of_int credits * (1 / 100)\<rparr>))"

section \<open>The pool as an interface\<close>

lemma org_balance_set [simp]:
  "org_balance (set_balance db org b) o' =
     (if o' = org \<and> org_balance db org \<noteq> None then Some b else org_balance db o')"
  by (auto simp: org_balance_def set_balance_def)

lemma org_balance_ledger [simp]: "org_balance (db\<lparr>ledger := l\<rparr>) o' = org_balance db o'"
  by (simp add: org_balance_def)

lemma ledger_set_balance [simp]: "ledger (set_balance db org b) = ledger db"
  by (simp add: set_balance_def)

text \<open>
  What the callers of the pool rely on: a deduction is refused without effect or takes
  exactly its amount from exactly one balance, and a grant adds exactly its amount.
\<close>

locale credit_pool =
  fixes balance :: "'p \<Rightarrow> nat \<Rightarrow> int option"
    and deduct :: "'p \<Rightarrow> nat \<Rightarrow> int \<Rightarrow> string \<Rightarrow> nat option \<Rightarrow> nat option \<Rightarrow> string
      \<Rightarrow> db_error + OrgCharge \<times> 'p"
    and add :: "'p \<Rightarrow> nat \<Rightarrow> int \<Rightarrow> string \<Rightarrow> string \<Rightarrow> string option \<Rightarrow> nat option
      \<Rightarrow> db_error + int \<times> 'p"
  assumes deduct_missing: "balance p o' = None \<Longrightarrow> deduct p o' a k s ac d = Inl RowNotFound"
    and deduct_refused: "balance p o' = Some b \<Longrightarrow> 0 < a \<Longrightarrow> b < a \<Longrightarrow>
      deduct p o' a k s ac d = Inr (Insufficient b a, p)"
    and deduct_charged: "balance p o' = Some b \<Longrightarrow> 0 \<le> b \<Longrightarrow> b \<le> i32_max \<Longrightarrow> 0 \<le> a \<Longrightarrow> a \<le> b \<Longrightarrow>
      \<exists>p'. deduct p o' a k s ac d = Inr (Charged (b - a), p')
        \<and> balance p' = (balance p)(o' \<mapsto> b - a)"
    and add_missing: "balance p o' = None \<Longrightarrow> add p o' a k d pay s = Inl RowNotFound"
    and add_granted: "balance p o' = Some b \<Longrightarrow> 0 \<le> b \<Longrightarrow> 0 \<le> a \<Longrightarrow> b + a \<le> i32_max \<Longrightarrow>
      \<exists>p'. add p o' a k d pay s = Inr (b + a, p') \<and> balance p' = (balance p)(o' \<mapsto> b + a)"
begin

text \<open>The part of an amount that a balance covers.\<close>

lemma deduct_cases:
  assumes "balance p o' = Some b" "0 \<le> b" "b \<le> i32_max" "0 \<le> a"
  obtains (charged) p' where "a \<le> b" "deduct p o' a k s ac d = Inr (Charged (b - a), p')"
      "balance p' = (balance p)(o' \<mapsto> b - a)"
  | (refused) "b < a" "deduct p o' a k s ac d = Inr (Insufficient b a, p)"
proof (cases "a \<le> b")
  case True
  with deduct_charged [OF assms(1-4) this, of k s ac d] that(1) show ?thesis by blast
next
  case False
  with assms deduct_refused that(2) show ?thesis by force
qed

end

interpretation org_pool: credit_pool org_balance deduct_org_credits_tx add_org_credits_tx
proof unfold_locales
  fix p o' b a k s ac d
  assume b: "org_balance p o' = Some b" "0 \<le> b" "b \<le> i32_max" and a: "0 \<le> a" "a \<le> b"
  then have "wrap_i32 (b - a) = b - a" by (intro wrap_i32_id in_i32_nonneg) simp_all
  then show "\<exists>p'. deduct_org_credits_tx p o' a k s ac d = Inr (Charged (b - a), p')
      \<and> org_balance p' = (org_balance p)(o' \<mapsto> b - a)"
    using b a by (auto simp: deduct_org_credits_tx_def Let_def fun_eq_iff)
next
  fix p o' b a k d pay s
  assume b: "org_balance p o' = Some b" "0 \<le> b" "0 \<le> a" "b + a \<le> i32_max"
  then have "wrap_i32 (b + a) = b + a" by (intro wrap_i32_id in_i32_nonneg) simp_all
  then show "\<exists>p'. add_org_credits_tx p o' a k d pay s = Inr (b + a, p')
      \<and> org_balance p' = (org_balance p)(o' \<mapsto> b + a)"
    using b by (auto simp: add_org_credits_tx_def Let_def fun_eq_iff)
qed (auto simp: deduct_org_credits_tx_def add_org_credits_tx_def)

section \<open>The ledger explains the balance\<close>

definition ledger_sum :: "CreditDb \<Rightarrow> nat \<Rightarrow> int" where
  "ledger_sum db org =
     sum_list (map l_amount (filter (\<lambda>r. l_org_id r = org) (ledger db)))"

text \<open>The balance minus what the ledger says moved: constant when every movement is ledgered.\<close>

definition unledgered :: "CreditDb \<Rightarrow> nat \<Rightarrow> int option" where
  "unledgered db org = map_option (\<lambda>b. b - ledger_sum db org) (org_balance db org)"

lemma ledger_sum_append:
  "ledger_sum (db'\<lparr>ledger := ledger db @ [r]\<rparr>) org =
     ledger_sum db org + (if l_org_id r = org then l_amount r else 0)"
  by (simp add: ledger_sum_def)

lemma ledger_sum_set_balance [simp]: "ledger_sum (set_balance db o' b) org = ledger_sum db org"
  by (simp add: ledger_sum_def)

lemma deduct_unledgered:
  assumes "deduct_org_credits_tx db o' a k s ac d = Inr (c, db')" and "0 \<le> a"
    and "\<And>b. org_balance db o' = Some b \<Longrightarrow> 0 \<le> b \<and> b \<le> i32_max"
  shows "unledgered db' = unledgered db"
proof (cases "c")
  case (Insufficient x y)
  with assms(1) show ?thesis
    by (auto simp: deduct_org_credits_tx_def Let_def split: option.splits if_splits)
next
  case (Charged nb)
  with assms(1) obtain b where b: "org_balance db o' = Some b" and le: "a \<le> b \<or> a = 0"
    and db': "db' = (set_balance db o' (wrap_i32 (b - a)))\<lparr>ledger := ledger db @
      [\<lparr>l_org_id = o', l_amount = wrap_i32 (- a), l_type = k, l_description = d,
        l_session_id = s, l_actor_id = ac, l_payment_intent = None\<rparr>]\<rparr>"
    using assms(2)
    by (auto simp: deduct_org_credits_tx_def Let_def split: option.splits if_splits)
  from assms(3) [OF b] le assms(2) have ok: "0 \<le> b" "b \<le> i32_max" "a \<le> b" by auto
  then have "wrap_i32 (b - a) = b - a" "wrap_i32 (- a) = - a"
    using assms(2) by (auto intro!: wrap_i32_id simp: in_i32_def i32_min_def i32_max_def)
  then have "db' = (set_balance db o' (b - a))\<lparr>ledger := ledger (set_balance db o' (b - a)) @
      [\<lparr>l_org_id = o', l_amount = - a, l_type = k, l_description = d,
        l_session_id = s, l_actor_id = ac, l_payment_intent = None\<rparr>]\<rparr>"
    using db' by simp
  then show ?thesis
    using b by (auto simp: unledgered_def fun_eq_iff ledger_sum_append)
qed

lemma add_unledgered:
  assumes "add_org_credits_tx db o' a k d pay s = Inr (nb, db')"
    and "\<And>b. org_balance db o' = Some b \<Longrightarrow> 0 \<le> b \<and> b + a \<le> i32_max" and "0 \<le> a"
  shows "unledgered db' = unledgered db"
proof -
  from assms(1) obtain b where b: "org_balance db o' = Some b"
    and db': "db' = (set_balance db o' (wrap_i32 (b + a)))\<lparr>ledger := ledger (set_balance db o' (wrap_i32 (b + a))) @
      [\<lparr>l_org_id = o', l_amount = a, l_type = k, l_description = d,
        l_session_id = s, l_actor_id = None, l_payment_intent = pay\<rparr>]\<rparr>"
    by (auto simp: add_org_credits_tx_def Let_def split: option.splits)
  from assms(2) [OF b] assms(3) have "wrap_i32 (b + a) = b + a"
    by (intro wrap_i32_id in_i32_nonneg) simp_all
  with b db' show ?thesis
    by (auto simp: unledgered_def fun_eq_iff ledger_sum_append)
qed

section \<open>Sequences of operations\<close>

datatype pool_op =
  Deduct nat int string "nat option" "nat option" string
| Grant nat int string string "string option"

fun pool_step :: "CreditDb \<Rightarrow> pool_op \<Rightarrow> CreditDb" where
  "pool_step db (Deduct org a k s ac d) =
     (case deduct_org_credits db org a k s ac d of Inl _ \<Rightarrow> db | Inr (_, db') \<Rightarrow> db')"
| "pool_step db (Grant org a k d pay) =
     (case add_org_credits db org a k d pay of Inl _ \<Rightarrow> db | Inr (_, db') \<Rightarrow> db')"

fun op_amount :: "pool_op \<Rightarrow> int" where
  "op_amount (Deduct _ a _ _ _ _) = a"
| "op_amount (Grant _ a _ _ _) = a"

fun granted :: "pool_op list \<Rightarrow> int" where
  "granted [] = 0"
| "granted (Grant _ a _ _ _ # ops) = a + granted ops"
| "granted (_ # ops) = granted ops"

definition balances_within :: "CreditDb \<Rightarrow> int \<Rightarrow> bool" where
  "balances_within db m \<longleftrightarrow> (\<forall>org b. org_balance db org = Some b \<longrightarrow> 0 \<le> b \<and> b \<le> m)"

lemma pool_step_invariant:
  assumes "balances_within db m" and "0 \<le> op_amount x" and "m + granted [x] \<le> i32_max"
  shows "balances_within (pool_step db x) (m + granted [x])
     \<and> unledgered (pool_step db x) = unledgered db"
proof (cases x)
  case (Deduct org a k s ac d)
  show ?thesis
  proof (cases "org_balance db org")
    case None
    with Deduct assms show ?thesis
      by (simp add: deduct_org_credits_def org_pool.deduct_missing)
  next
    case (Some b)
    then have b: "0 \<le> b" "b \<le> m" using assms(1) by (auto simp: balances_within_def)
    then have b': "b \<le> i32_max" using assms(3) Deduct by simp
    have a: "0 \<le> a" using assms(2) Deduct by simp
    from Some b(1) b' a show ?thesis
    proof (cases rule: org_pool.deduct_cases [where k = k and s = s and ac = ac and d = d])
      case (charged p')
      then have "unledgered p' = unledgered db"
        using a assms(1,3) Deduct
        by (intro deduct_unledgered) (auto simp: balances_within_def intro: order_trans)
      with charged assms(1) b a Deduct show ?thesis
        by (auto simp: deduct_org_credits_def balances_within_def)
    next
      case refused
      with Deduct assms show ?thesis by (simp add: deduct_org_credits_def)
    qed
  qed
next
  case (Grant org a k d pay)
  show ?thesis
  proof (cases "org_balance db org")
    case None
    with Grant assms show ?thesis
      by (fastforce simp: add_org_credits_def org_pool.add_missing balances_within_def)
  next
    case (Some b)
    have bm: "0 \<le> b \<and> b \<le> m" using assms(1) Some by (auto simp: balances_within_def)
    have "m + a \<le> i32_max" using assms(3) Grant by simp
    with bm have b: "0 \<le> b" "b + a \<le> i32_max" by linarith+
    have a: "0 \<le> a" using assms(2) Grant by simp
    from org_pool.add_granted [OF Some b(1) a b(2), of k d pay None] obtain p' where
      p': "add_org_credits_tx db org a k d pay None = Inr (b + a, p')"
        "org_balance p' = (org_balance db)(org \<mapsto> b + a)" by blast
    then have "unledgered p' = unledgered db"
      using a Some b by (intro add_unledgered) auto
    with p' assms(1) b a Grant Some show ?thesis
      by (fastforce simp: add_org_credits_def balances_within_def)
  qed
qed

lemma granted_Cons: "granted (x # xs) = granted [x] + granted xs"
  by (cases x) simp_all

lemma granted_nonneg: "\<forall>x \<in> set xs. 0 \<le> op_amount x \<Longrightarrow> 0 \<le> granted xs"
  by (induction xs rule: granted.induct) auto

text \<open>
  The ledger explains every balance: after any sequence of deductions and grants of
  non-negative amounts, each in its own transaction and failing or not, no balance is
  negative, and each balance has moved by exactly the sum of its ledger rows.
\<close>

theorem ledger_explains_balance:
  assumes "balances_within db m" and "\<forall>x \<in> set ops. 0 \<le> op_amount x"
    and "m + granted ops \<le> i32_max"
  shows "unledgered (foldl pool_step db ops) org = unledgered db org
     \<and> (\<forall>b. org_balance (foldl pool_step db ops) org = Some b \<longrightarrow> 0 \<le> b \<and> b \<le> m + granted ops)"
  using assms
proof (induction ops arbitrary: db m)
  case Nil
  then show ?case by (simp add: balances_within_def)
next
  case (Cons x ops)
  have g: "granted (x # ops) = granted [x] + granted ops" by (rule granted_Cons)
  have "m + granted [x] \<le> i32_max"
    using Cons.prems(2,3) granted_nonneg [of ops] g by simp
  with pool_step_invariant [OF Cons.prems(1), of x] Cons.prems(2)
  have "balances_within (pool_step db x) (m + granted [x])"
    and "unledgered (pool_step db x) = unledgered db" by simp_all
  with Cons.IH [of "pool_step db x" "m + granted [x]"] Cons.prems(2,3) g show ?case
    by (simp add: add.assoc)
qed

definition sample_org :: Org where
  "sample_org = \<lparr>credits_balance = 100, stripe_subscription_id = None, plan = ''business'',
     subscription_status = ''active'', cancel_at_period_end = False, current_period_end = None\<rparr>"

definition sample_db :: CreditDb where
  "sample_db = \<lparr>organizations = [1 \<mapsto> sample_org], ledger = []\<rparr>"

lemma sample_db_within: "balances_within sample_db 100"
  by (simp add: balances_within_def org_balance_def sample_db_def sample_org_def)

theorem ledger_explains_balance_witness:
  "unledgered (foldl pool_step sample_db [Deduct 1 60 ''voip_hold'' None None '''',
     Deduct 1 60 ''voip_hold'' None None '''', Grant 1 20 ''purchase'' '''' None]) 1 = Some 100"
proof -
  have "unledgered sample_db 1 = Some 100"
    by (simp add: unledgered_def ledger_sum_def org_balance_def sample_db_def sample_org_def)
  then show ?thesis
    using ledger_explains_balance [OF sample_db_within, of "[Deduct 1 60 ''voip_hold'' None None '''',
      Deduct 1 60 ''voip_hold'' None None '''', Grant 1 20 ''purchase'' '''' None]" 1]
    by (simp add: i32_max_def)
qed

section \<open>The meters\<close>








fun accumulator_run :: "decimal_ops \<Rightarrow> CreditAccumulator \<Rightarrow> usd list \<Rightarrow> int \<times> CreditAccumulator" where
  "accumulator_run D a [] = (0, a)"
| "accumulator_run D a (u # us) =
     (let (c, a1) = accumulator_take D a u; (rest, a2) = accumulator_run D a1 us in (c + rest, a2))"

definition carry_ok :: "CreditAccumulator \<Rightarrow> bool" where
  "carry_ok a \<longleftrightarrow> 0 \<le> carried_usd a \<and> carried_usd a < 1 / 100 \<and> grid 16 (carried_usd a)"

lemma accumulator_take_exact:
  assumes D: "decimal_laws D" and a: "carry_ok a" and u: "grid 16 u" "u < 10 ^ 6"
    and t: "accumulator_take D a u = (c, a')"
  shows "0 \<le> c" "carry_ok a'" "of_int c / 100 + carried_usd a' = carried_usd a + max u 0"
proof -
  define owed where "owed = (if u > 0 then carried_usd a + u else carried_usd a)"
  have o: "0 \<le> owed" "owed < 10 ^ 6 + 1" "grid 16 owed" "owed = carried_usd a + max u 0"
    using a u by (auto simp: owed_def carry_ok_def grid_add)
  have "grid 18 (owed / (1 / 100))"
    using grid_mono [OF grid_mult [OF o(3) grid_of_nat [of 0 100]]] by simp
  then have dv: "dec_div D owed (1 / 100) = owed * 100"
    using dec_div_exact [OF D, of "1 / 100" owed] o by simp
  define k where "k = \<lfloor>owed * 100\<rfloor>"
  have k: "0 \<le> k" "of_int k \<le> owed * 100" "owed * 100 < of_int k + 1" "k \<le> 200000000"
    using o(1,2) unfolding k_def
    by (simp, simp, linarith, simp add: floor_le_iff)
  have less: "owed * 100 < 1 \<longleftrightarrow> k < 1" unfolding k_def by simp
  have "to_i32_or_max k = k"
    using k by (simp add: to_i32_or_max_def in_i32_def i32_min_def i32_max_def)
  then have t': "c = k \<and> a' = a\<lparr>carried_usd := owed - of_int k / 100\<rparr>"
    using t k(1) less unfolding accumulator_take_def owed_def [symmetric] Let_def dv
      k_def [symmetric] by (auto split: if_splits)
  then show "0 \<le> c" "of_int c / 100 + carried_usd a' = carried_usd a + max u 0"
    using k o by simp_all
  have "grid 16 (of_int k / 100)" using grid_mono [OF grid_of_int [of 2 k], of 16] by simp
  with t' o k show "carry_ok a'" by (simp add: carry_ok_def grid_diff)
qed

text \<open>
  The accumulator neither loses nor invents money: over any stream of charges the whole
  credits handed out plus the carried remainder are exactly the positive charges, and the
  remainder is always below one credit.
\<close>

theorem accumulator_conserves:
  assumes "decimal_laws D" and "carry_ok a" and "\<forall>u \<in> set us. grid 16 u \<and> u < 10 ^ 6"
  shows "case accumulator_run D a us of (c, a') \<Rightarrow>
           0 \<le> c \<and> carry_ok a'
           \<and> of_int c / 100 + carried_usd a' = carried_usd a + sum_list (map (\<lambda>u. max u 0) us)"
  using assms(2,3)
proof (induction us arbitrary: a)
  case Nil
  then show ?case by simp
next
  case (Cons u us)
  obtain c1 a1 where t: "accumulator_take D a u = (c1, a1)" by fastforce
  obtain c2 a2 where r: "accumulator_run D a1 us = (c2, a2)" by fastforce
  from Cons.prems have "grid 16 u" "u < 10 ^ 6" by simp_all
  note e = accumulator_take_exact [OF assms(1) Cons.prems(1) this t]
  from Cons.IH [OF e(2)] Cons.prems(2) r
  have "0 \<le> c2 \<and> carry_ok a2
      \<and> of_int c2 / 100 + carried_usd a2 = carried_usd a1 + sum_list (map (\<lambda>u. max u 0) us)"
    by simp
  with e t r show ?case by (simp add: add_divide_distrib)
qed

theorem accumulator_conserves_witness:
  "fst (accumulator_run exact_decimal \<lparr>carried_usd = 0\<rparr> (replicate 30 (75 / 10000))) = 22"
proof -
  have "case accumulator_run exact_decimal \<lparr>carried_usd = 0\<rparr> (replicate 30 (75 / 10000)) of (c, a') \<Rightarrow>
      0 \<le> c \<and> carry_ok a' \<and> of_int c / 100 + carried_usd a' =
        carried_usd \<lparr>carried_usd = 0\<rparr> + sum_list (map (\<lambda>u. max u 0) (replicate 30 (75 / 10000)))"
    using grid_of_int [of 16 "75 * 10 ^ 12"]
    by (intro accumulator_conserves [OF exact_decimal_laws]) (simp_all add: carry_ok_def grid_def)
  moreover obtain c a' where
    r: "accumulator_run exact_decimal \<lparr>carried_usd = 0\<rparr> (replicate 30 (75 / 10000)) = (c, a')"
    by fastforce
  ultimately have "carry_ok a'" and "of_int c / 100 + carried_usd a' = 225 / 1000"
    by (simp_all add: sum_list_replicate)
  then have "of_int c \<le> (225 / 10 :: rat) \<and> 215 / 10 < (of_int c :: rat)"
    by (simp add: carry_ok_def)
  then have "c = 22" by linarith
  with r show ?thesis by simp
qed

end
