(* ===== verification/Reservation.thy ===== *)
theory Reservation
  imports Credits
begin

text \<open>
  Credit holds, \<^verbatim>\<open>server/src/voip/reservation.rs\<close>: a hold is a real deduction at dial time,
  settled or released once when the call ends. The table \<open>voip_credit_reservations\<close> is a
  list, newest row first (the order of \<open>created_at\<close>), with its primary key and its partial
  unique index (one \<open>held\<close> row per call) checked on insertion; its foreign keys are not
  modelled. The operations are written over any pool with the two ledgered operations they
  call, and used on the organisation pool of \<open>Credits\<close>; a failed operation has no effect,
  as its transaction is dropped.
\<close>

section \<open>The table\<close>

record Reservation =
  r_id :: nat
  r_call_id :: nat
  r_org_id :: nat
  held_credits :: int
  settled_credits :: int
  released_credits :: int
  shortfall_credits :: int
  r_state :: string
  closed_at :: "int option"

record 'p HoldDb =
  hold_pool :: 'p
  reservations :: "Reservation list"

datatype ReserveOutcome = Held Reservation | HoldInsufficient int int

record Settlement =
  s_held :: int
  s_settled :: int
  s_released :: int
  s_shortfall :: int

definition is_coherent :: "Settlement \<Rightarrow> int \<Rightarrow> bool" where
  "is_coherent s actual \<longleftrightarrow>
     (let expected_released = wrap_i32 (s_held s - max (min actual (s_held s)) 0)
      in s_released s = expected_released
         \<and> wrap_i32 (s_settled s + s_shortfall s) = max actual 0)"

section \<open>Taking a hold\<close>

type_synonym 'p deduct_op =
  "'p \<Rightarrow> nat \<Rightarrow> int \<Rightarrow> string \<Rightarrow> nat option \<Rightarrow> nat option \<Rightarrow> string \<Rightarrow> db_error + OrgCharge \<times> 'p"
type_synonym 'p add_op =
  "'p \<Rightarrow> nat \<Rightarrow> int \<Rightarrow> string \<Rightarrow> string \<Rightarrow> string option \<Rightarrow> nat option \<Rightarrow> db_error + int \<times> 'p"

text \<open>The \<open>INSERT\<close>, with the columns' defaults; \<open>new_id\<close> is the generated key.\<close>

definition insert_hold ::
  "Reservation list \<Rightarrow> nat \<Rightarrow> nat \<Rightarrow> nat \<Rightarrow> int \<Rightarrow> db_error + Reservation" where
  "insert_hold rs new_id call org credits =
     (if \<exists>r \<in> set rs. r_id r = new_id \<or> (r_call_id r = call \<and> r_state r = ''held'')
      then Inl UniqueViolation
      else Inr \<lparr>r_id = new_id, r_call_id = call, r_org_id = org, held_credits = credits,
                settled_credits = 0, released_credits = 0, shortfall_credits = 0,
                r_state = ''held'', closed_at = None\<rparr>)"

definition reserve_with ::
  "'p deduct_op \<Rightarrow> 'p HoldDb \<Rightarrow> nat \<Rightarrow> nat \<Rightarrow> nat \<Rightarrow> nat option \<Rightarrow> int \<Rightarrow> nat
     \<Rightarrow> db_error + ReserveOutcome \<times> 'p HoldDb" where
  "reserve_with deduct db org call session actor credits0 new_id =
     (let credits = max credits0 0
      in case deduct (hold_pool db) org credits ''voip_hold'' (Some session) actor
                ''Hold for a translated phone call'' of
           Inl e \<Rightarrow> Inl e
         | Inr (Charged _, pool') \<Rightarrow>
             (case insert_hold (reservations db) new_id call org credits of
                Inl e \<Rightarrow> Inl e
              | Inr row \<Rightarrow>
                  Inr (Held row, \<lparr>hold_pool = pool', reservations = row # reservations db\<rparr>))
         | Inr (Insufficient balance required, pool') \<Rightarrow>
             Inr (HoldInsufficient balance required, db\<lparr>hold_pool := pool'\<rparr>))"

section \<open>Closing a hold\<close>

text \<open>The unused part of the hold goes back to the pool.\<close>

definition release_unused ::
  "'p add_op \<Rightarrow> 'p \<Rightarrow> nat \<Rightarrow> nat \<Rightarrow> int \<Rightarrow> db_error + 'p" where
  "release_unused add pool org session released =
     (if released > 0 then
        case add pool org released ''voip_hold_release''
               ''Unused hold returned after a translated phone call'' None (Some session) of
          Inl e \<Rightarrow> Inl e
        | Inr (_, pool') \<Rightarrow> Inr pool'
      else Inr pool)"

text \<open>The part of the call beyond its hold: what the pool still covers, and the shortfall.\<close>

definition charge_extra ::
  "'p deduct_op \<Rightarrow> 'p \<Rightarrow> nat \<Rightarrow> nat \<Rightarrow> int \<Rightarrow> int \<Rightarrow> db_error + int \<times> int \<times> 'p" where
  "charge_extra deduct pool org session extra settled =
     (if extra > 0 then
        case deduct pool org extra ''voip_overage'' (Some session) None
               ''Translated phone call exceeded its credit hold'' of
          Inl e \<Rightarrow> Inl e
        | Inr (Charged _, pool') \<Rightarrow> Inr (wrap_i32 (settled + extra), 0, pool')
        | Inr (Insufficient balance _, pool') \<Rightarrow>
            let partial = max balance 0
            in if partial > 0 then
                 (case deduct pool' org partial ''voip_overage'' (Some session) None
                         ''Translated phone call exceeded its credit hold (partial)'' of
                    Inl e \<Rightarrow> Inl e
                  | Inr (_, pool'') \<Rightarrow>
                      Inr (wrap_i32 (settled + partial), wrap_i32 (extra - partial), pool''))
               else Inr (settled, wrap_i32 (extra - partial), pool')
      else Inr (settled, 0, pool))"

definition close_row :: "nat \<Rightarrow> string \<Rightarrow> Settlement \<Rightarrow> int \<Rightarrow> Reservation \<Rightarrow> Reservation" where
  "close_row rid final_state s now r =
     (if r_id r = rid
      then r\<lparr>r_state := final_state, settled_credits := s_settled s,
             released_credits := s_released s, shortfall_credits := s_shortfall s,
             closed_at := Some now\<rparr>
      else r)"

definition close_with ::
  "'p deduct_op \<Rightarrow> 'p add_op \<Rightarrow> 'p HoldDb \<Rightarrow> nat \<Rightarrow> nat \<Rightarrow> int \<Rightarrow> string \<Rightarrow> int
     \<Rightarrow> db_error + Settlement option \<times> 'p HoldDb" where
  "close_with deduct add db call session actual final_state now =
     (case find (\<lambda>r. r_call_id r = call) (reservations db) of
        None \<Rightarrow> Inr (None, db)
      | Some res \<Rightarrow>
          if r_state res \<noteq> ''held'' then
            Inr (Some \<lparr>s_held = held_credits res, s_settled = settled_credits res,
                       s_released = released_credits res,
                       s_shortfall = shortfall_credits res\<rparr>, db)
          else
            let held = held_credits res;
                covered = min actual held;
                released = wrap_i32 (held - covered)
            in case release_unused add (hold_pool db) (r_org_id res) session released of
                 Inl e \<Rightarrow> Inl e
               | Inr pool1 \<Rightarrow>
                   case charge_extra deduct pool1 (r_org_id res) session
                          (wrap_i32 (actual - covered)) covered of
                     Inl e \<Rightarrow> Inl e
                   | Inr (settled, shortfall, pool2) \<Rightarrow>
                       let s = \<lparr>s_held = held, s_settled = settled, s_released = released,
                                s_shortfall = shortfall\<rparr>
                       in Inr (Some s,
                            \<lparr>hold_pool = pool2,
                             reservations =
                               map (close_row (r_id res) final_state s now) (reservations db)\<rparr>))"

definition settle_with ::
  "'p deduct_op \<Rightarrow> 'p add_op \<Rightarrow> 'p HoldDb \<Rightarrow> nat \<Rightarrow> nat \<Rightarrow> int \<Rightarrow> int
     \<Rightarrow> db_error + Settlement option \<times> 'p HoldDb" where
  "settle_with deduct add db call session actual now =
     close_with deduct add db call session (max actual 0) ''settled'' now"

definition release_with ::
  "'p deduct_op \<Rightarrow> 'p add_op \<Rightarrow> 'p HoldDb \<Rightarrow> nat \<Rightarrow> nat \<Rightarrow> int
     \<Rightarrow> db_error + Settlement option \<times> 'p HoldDb" where
  "release_with deduct add db call session now =
     close_with deduct add db call session 0 ''released'' now"

section \<open>On the organisation pool\<close>

type_synonym VoipDb = "CreditDb HoldDb"

definition reserve :: "VoipDb \<Rightarrow> nat \<Rightarrow> nat \<Rightarrow> nat \<Rightarrow> nat option \<Rightarrow> int \<Rightarrow> nat
     \<Rightarrow> db_error + ReserveOutcome \<times> VoipDb" where
  "reserve = reserve_with deduct_org_credits_tx"

definition settle_tx :: "VoipDb \<Rightarrow> nat \<Rightarrow> nat \<Rightarrow> int \<Rightarrow> int
     \<Rightarrow> db_error + Settlement option \<times> VoipDb" where
  "settle_tx = settle_with deduct_org_credits_tx add_org_credits_tx"

definition release_tx :: "VoipDb \<Rightarrow> nat \<Rightarrow> nat \<Rightarrow> int
     \<Rightarrow> db_error + Settlement option \<times> VoipDb" where
  "release_tx = release_with deduct_org_credits_tx add_org_credits_tx"

text \<open>Their own transactions: begin, close, commit.\<close>

definition settle :: "VoipDb \<Rightarrow> nat \<Rightarrow> nat \<Rightarrow> int \<Rightarrow> int
     \<Rightarrow> db_error + Settlement option \<times> VoipDb" where
  "settle db call session actual now =
     (case settle_tx db call session actual now of Inl e \<Rightarrow> Inl e | Inr r \<Rightarrow> Inr r)"

definition release :: "VoipDb \<Rightarrow> nat \<Rightarrow> nat \<Rightarrow> int
     \<Rightarrow> db_error + Settlement option \<times> VoipDb" where
  "release db call session now =
     (case release_tx db call session now of Inl e \<Rightarrow> Inl e | Inr r \<Rightarrow> Inr r)"

definition open_for_call :: "VoipDb \<Rightarrow> nat \<Rightarrow> Reservation option" where
  "open_for_call db call =
     find (\<lambda>r. r_call_id r = call \<and> r_state r = ''held'') (reservations db)"

section \<open>The table's invariant and the funds it accounts for\<close>

text \<open>
  What an organisation has committed to calls: the open holds and what closed calls paid.
\<close>

definition commitment :: "nat \<Rightarrow> Reservation \<Rightarrow> int" where
  "commitment org r =
     (if r_org_id r = org
      then if r_state r = ''held'' then held_credits r else settled_credits r else 0)"

definition committed :: "Reservation list \<Rightarrow> nat \<Rightarrow> int" where
  "committed rs org = sum_list (map (commitment org) rs)"

text \<open>An open row is the newest of its call, and no row's amounts are negative.\<close>

fun holds_ok :: "Reservation list \<Rightarrow> bool" where
  "holds_ok [] \<longleftrightarrow> True"
| "holds_ok (r # rs) \<longleftrightarrow>
     r_id r \<notin> r_id ` set rs \<and> 0 \<le> held_credits r \<and> 0 \<le> settled_credits r
     \<and> (\<forall>r' \<in> set rs. r_call_id r' = r_call_id r \<longrightarrow> r_state r' \<noteq> ''held'')
     \<and> holds_ok rs"

lemma holds_ok_nonneg: "holds_ok rs \<Longrightarrow> r \<in> set rs \<Longrightarrow> 0 \<le> held_credits r \<and> 0 \<le> settled_credits r"
  by (induction rs) auto

lemma commitment_nonneg: "holds_ok rs \<Longrightarrow> r \<in> set rs \<Longrightarrow> 0 \<le> commitment org r"
  by (auto simp: commitment_def dest: holds_ok_nonneg)

lemma committed_Cons [simp]: "committed (r # rs) org = commitment org r + committed rs org"
  by (simp add: committed_def)

lemma committed_Nil [simp]: "committed [] org = 0"
  by (simp add: committed_def)

lemma committed_ge_0: "holds_ok rs \<Longrightarrow> 0 \<le> committed rs org"
  by (induction rs) (auto simp: commitment_def)

lemma committed_ge:
  "holds_ok rs \<Longrightarrow> r \<in> set rs \<Longrightarrow> commitment org r \<le> committed rs org"
proof (induction rs)
  case Nil
  then show ?case by simp
next
  case (Cons a rs)
  then show ?case
    using committed_ge_0 [of rs org] commitment_nonneg [of "a # rs" a org] by fastforce
qed

lemma close_row_other: "r_id r \<noteq> rid \<Longrightarrow> close_row rid fs s now r = r"
  by (simp add: close_row_def)

lemma close_row_sel [simp]:
  "r_id (close_row rid fs s now r) = r_id r"
  "r_call_id (close_row rid fs s now r) = r_call_id r"
  "r_org_id (close_row rid fs s now r) = r_org_id r"
  "held_credits (close_row rid fs s now r) = held_credits r"
  by (simp_all add: close_row_def)

lemma close_row_held:
  "r_state (close_row rid fs s now r) = ''held'' \<Longrightarrow> fs \<noteq> ''held'' \<Longrightarrow> r_state r = ''held''"
  by (simp add: close_row_def split: if_splits)

lemma close_rows_ok:
  "holds_ok rs \<Longrightarrow> fs \<noteq> ''held'' \<Longrightarrow> 0 \<le> s_settled s \<Longrightarrow> holds_ok (map (close_row rid fs s now) rs)"
proof (induction rs)
  case Nil
  then show ?case by simp
next
  case (Cons a rs)
  have "0 \<le> settled_credits (close_row rid fs s now a)"
    using Cons.prems by (simp add: close_row_def)
  with Cons show ?case
    by (auto simp: image_image dest: close_row_held)
qed

lemma close_rows_other: "rid \<notin> r_id ` set rs \<Longrightarrow> map (close_row rid fs s now) rs = rs"
  by (induction rs) (auto simp: close_row_other)

lemma close_rows_committed:
  assumes "holds_ok rs" "r \<in> set rs" "r_state r = ''held''" "fs \<noteq> ''held''"
  shows "committed (map (close_row (r_id r) fs s now) rs) org =
           committed rs org + (if r_org_id r = org then s_settled s - held_credits r else 0)"
  using assms
proof (induction rs)
  case Nil
  then show ?case by simp
next
  case (Cons a rs)
  show ?case
  proof (cases "a = r")
    case True
    with Cons.prems show ?thesis
      by (simp add: close_rows_other) (simp add: close_row_def commitment_def)
  next
    case False
    with Cons.prems have "r \<in> set rs" "r_id a \<noteq> r_id r" by auto
    with Cons show ?thesis by (simp add: close_row_other)
  qed
qed

lemma find_call_closed:
  "find (\<lambda>r. r_call_id r = call) (map (close_row rid fs s now) rs) =
     map_option (close_row rid fs s now) (find (\<lambda>r. r_call_id r = call) rs)"
  by (induction rs) auto

section \<open>Sequences of dials and closings\<close>

datatype hold_op =
  Reserve nat nat nat "nat option" int nat
| Settle nat nat int int
| Release nat nat int

fun hold_step :: "'p deduct_op \<Rightarrow> 'p add_op \<Rightarrow> 'p HoldDb \<Rightarrow> hold_op \<Rightarrow> 'p HoldDb" where
  "hold_step deduct add db (Reserve org call session actor credits new_id) =
     (case reserve_with deduct db org call session actor credits new_id of
        Inl e \<Rightarrow> db | Inr (_, db') \<Rightarrow> db')"
| "hold_step deduct add db (Settle call session actual now) =
     (case settle_with deduct add db call session actual now of
        Inl e \<Rightarrow> db | Inr (_, db') \<Rightarrow> db')"
| "hold_step deduct add db (Release call session now) =
     (case release_with deduct add db call session now of
        Inl e \<Rightarrow> db | Inr (_, db') \<Rightarrow> db')"

fun op_in_range :: "hold_op \<Rightarrow> bool" where
  "op_in_range (Settle _ _ actual _) \<longleftrightarrow> actual \<le> i32_max"
| "op_in_range _ \<longleftrightarrow> True"

text \<open>
  The pool and the table agree with a total per organisation: balance, open holds and paid
  calls add up to it. Every row's organisation exists.
\<close>

definition accounts_for ::
  "('p \<Rightarrow> nat \<Rightarrow> int option) \<Rightarrow> 'p HoldDb \<Rightarrow> (nat \<Rightarrow> int) \<Rightarrow> bool" where
  "accounts_for balance db ttl \<longleftrightarrow>
     holds_ok (reservations db)
     \<and> (\<forall>r \<in> set (reservations db). balance (hold_pool db) (r_org_id r) \<noteq> None)
     \<and> (\<forall>org. ttl org \<le> i32_max)
     \<and> (\<forall>org b. balance (hold_pool db) org = Some b \<longrightarrow>
          0 \<le> b \<and> b + committed (reservations db) org = ttl org)"

section \<open>Closing a hold, over any pool\<close>

context credit_pool
begin

lemma release_unused_eq:
  assumes "balance p org = Some b" "0 \<le> b" "0 \<le> x" "b + x \<le> i32_max"
  shows "\<exists>p'. release_unused add p org session x = Inr p' \<and> balance p' = (balance p)(org \<mapsto> b + x)"
proof (cases "x > 0")
  case True
  with add_granted [OF assms, of "''voip_hold_release''"
      "''Unused hold returned after a translated phone call''" None "Some session"]
  show ?thesis by (auto simp: release_unused_def)
next
  case False
  with assms show ?thesis by (simp add: release_unused_def fun_upd_idem)
qed

lemma charge_extra_eq:
  assumes "balance p org = Some b" "0 \<le> b" "b \<le> i32_max" "0 \<le> extra" "0 \<le> settled"
    "settled + extra \<le> i32_max"
  shows "\<exists>p'. charge_extra deduct p org session extra settled =
      Inr (settled + min extra b, extra - min extra b, p')
    \<and> balance p' = (balance p)(org \<mapsto> b - min extra b)"
proof -
  have w: "wrap_i32 (settled + x) = settled + x" "wrap_i32 (extra - x) = extra - x"
    if "0 \<le> x" "x \<le> extra" for x
    using assms that by (auto intro!: wrap_i32_id in_i32_nonneg)
  show ?thesis
  proof (cases "extra > 0")
    case False
    with assms show ?thesis by (auto simp: charge_extra_def fun_upd_idem)
  next
    case pos: True
    from assms(1-4) show ?thesis
    proof (cases rule: deduct_cases [where k = "''voip_overage''" and s = "Some session"
          and ac = None and d = "''Translated phone call exceeded its credit hold''"])
      case (charged p')
      with pos assms(4) w [of extra] show ?thesis by (auto simp: charge_extra_def)
    next
      case refused
      show ?thesis
      proof (cases "b = 0")
        case True
        with pos refused assms(1) w [of 0] show ?thesis
          by (auto simp: charge_extra_def fun_upd_idem)
      next
        case False
        obtain p' where p': "deduct p org b ''voip_overage'' (Some session) None
            ''Translated phone call exceeded its credit hold (partial)'' = Inr (Charged (b - b), p')"
            "balance p' = (balance p)(org \<mapsto> b - b)"
          using deduct_charged [OF assms(1-3,2) order_refl] by blast
        with pos refused False assms(2) w [of b] show ?thesis
          by (auto simp: charge_extra_def Let_def)
      qed
    qed
  qed
qed

text \<open>An open hold closes to a settlement in closed form.\<close>

lemma close_open:
  assumes bal: "balance (hold_pool db) (r_org_id r) = Some b" "0 \<le> b"
    and r: "find (\<lambda>r. r_call_id r = call) (reservations db) = Some r" "r_state r = ''held''"
      "0 \<le> held_credits r" "b + held_credits r \<le> i32_max"
    and a: "0 \<le> actual" "actual \<le> i32_max"
    and s: "s = \<lparr>s_held = held_credits r, s_settled = min actual (held_credits r + b),
      s_released = held_credits r - min actual (held_credits r),
      s_shortfall = actual - min actual (held_credits r + b)\<rparr>"
  shows "\<exists>p'. close_with deduct add db call session actual fs now =
      Inr (Some s, \<lparr>hold_pool = p',
        reservations = map (close_row (r_id r) fs s now) (reservations db)\<rparr>)
    \<and> balance p' = (balance (hold_pool db))
        (r_org_id r \<mapsto> b + held_credits r - s_settled s)"
proof -
  let ?h = "held_credits r" and ?o = "r_org_id r"
  define c where "c = min actual ?h"
  have c: "0 \<le> c" "c \<le> ?h" "c \<le> actual" "c = actual \<or> c = ?h" using r a by (auto simp: c_def)
  have w: "wrap_i32 (?h - c) = ?h - c" "wrap_i32 (actual - c) = actual - c"
    using c a r bal by (auto intro!: wrap_i32_id in_i32_nonneg)
  have "\<exists>p1. release_unused add (hold_pool db) ?o session (?h - c) = Inr p1
      \<and> balance p1 = (balance (hold_pool db))(?o \<mapsto> b + (?h - c))"
    by (rule release_unused_eq) (use bal r a c in auto)
  then obtain p1 where
    p1: "release_unused add (hold_pool db) ?o session (?h - c) = Inr p1"
    "balance p1 = (balance (hold_pool db))(?o \<mapsto> b + (?h - c))" by blast
  let ?b = "b + (?h - c)"
  have "\<exists>p'. charge_extra deduct p1 ?o session (actual - c) c =
      Inr (c + min (actual - c) ?b, actual - c - min (actual - c) ?b, p')
    \<and> balance p' = (balance p1)(?o \<mapsto> ?b - min (actual - c) ?b)"
    by (rule charge_extra_eq) (use p1 bal r a c in auto)
  then obtain p2 where p2: "charge_extra deduct p1 ?o session (actual - c) c =
      Inr (c + min (actual - c) ?b, actual - c - min (actual - c) ?b, p2)"
    "balance p2 = (balance p1)(?o \<mapsto> ?b - min (actual - c) ?b)" by blast
  have e: "c + min (actual - c) ?b = min actual (?h + b)"
    "?b - min (actual - c) ?b = b + ?h - min actual (?h + b)"
    "actual - c - min (actual - c) ?b = actual - min actual (?h + b)"
    using bal r a by (auto simp: c_def)
  show ?thesis
    using r(1,2) p1 p2 unfolding e s
    by (simp add: close_with_def Let_def w c_def [symmetric])
qed

lemma close_closed:
  assumes "find (\<lambda>r. r_call_id r = call) (reservations db) = Some r" "r_state r \<noteq> ''held''"
  shows "close_with deduct add db call session actual fs now =
    Inr (Some \<lparr>s_held = held_credits r, s_settled = settled_credits r,
      s_released = released_credits r, s_shortfall = shortfall_credits r\<rparr>, db)"
  using assms by (simp add: close_with_def)

lemma close_accounts:
  assumes inv: "accounts_for balance db ttl" and a: "0 \<le> actual" "actual \<le> i32_max"
    and fs: "fs \<noteq> ''held''"
    and res: "close_with deduct add db call session actual fs now = Inr (out, db')"
  shows "accounts_for balance db' ttl"
proof (cases "find (\<lambda>r. r_call_id r = call) (reservations db)")
  case None
  with res inv show ?thesis by (simp add: close_with_def)
next
  case (Some r)
  show ?thesis
  proof (cases "r_state r = ''held''")
    case False
    with Some res inv show ?thesis by (simp add: close_closed)
  next
    case True
    from Some have rin: "r \<in> set (reservations db)" by (simp add: find_SomeD)
    from inv rin obtain b where b: "balance (hold_pool db) (r_org_id r) = Some b"
      by (auto simp: accounts_for_def)
    have ok: "holds_ok (reservations db)" and b0: "0 \<le> b"
      and tot: "b + committed (reservations db) (r_org_id r) \<le> i32_max"
      using inv b by (auto simp: accounts_for_def)
    have h0: "0 \<le> held_credits r" using ok rin holds_ok_nonneg by blast
    have "held_credits r \<le> committed (reservations db) (r_org_id r)"
      using committed_ge [OF ok rin, of "r_org_id r"] True by (simp add: commitment_def)
    then have hb: "b + held_credits r \<le> i32_max" using tot by linarith
    define s where "s = \<lparr>s_held = held_credits r, s_settled = min actual (held_credits r + b),
      s_released = held_credits r - min actual (held_credits r),
      s_shortfall = actual - min actual (held_credits r + b)\<rparr>"
    from close_open [OF b b0 Some True h0 hb a s_def, of session fs now] res obtain p' where
      db': "db' = \<lparr>hold_pool = p', reservations = map (close_row (r_id r) fs s now) (reservations db)\<rparr>"
      and p': "balance p' = (balance (hold_pool db))(r_org_id r \<mapsto> b + held_credits r - s_settled s)"
      by auto
    have s0: "0 \<le> s_settled s" "s_settled s \<le> b + held_credits r"
      using a b0 h0 by (auto simp: s_def)
    have cm: "committed (reservations db') org = committed (reservations db) org
        + (if r_org_id r = org then s_settled s - held_credits r else 0)" for org
      using close_rows_committed [OF ok rin True fs] db' by simp
    show ?thesis
      using inv s0 close_rows_ok [OF ok fs s0(1)] cm p' db' b
      by (auto simp: accounts_for_def)
  qed
qed

lemma reserve_accounts:
  assumes inv: "accounts_for balance db ttl"
    and res: "reserve_with deduct db org call session actor credits new_id = Inr (out, db')"
  shows "accounts_for balance db' ttl"
proof (cases "balance (hold_pool db) org")
  case None
  with res show ?thesis by (simp add: reserve_with_def deduct_missing)
next
  case (Some b)
  have b: "0 \<le> b" "b + committed (reservations db) org = ttl org" "ttl org \<le> i32_max"
    "holds_ok (reservations db)"
    using inv Some by (auto simp: accounts_for_def)
  then have "b \<le> i32_max" using committed_ge_0 [of "reservations db" org] by linarith
  from Some b(1) this have "0 \<le> max credits 0" by simp
  from Some b(1) \<open>b \<le> i32_max\<close> this show ?thesis
  proof (cases rule: deduct_cases [where k = "''voip_hold''" and s = "Some session"
        and ac = actor and d = "''Hold for a translated phone call''"])
    case refused
    with res inv show ?thesis by (simp add: reserve_with_def)
  next
    case (charged p')
    with res obtain row where row: "insert_hold (reservations db) new_id call org (max credits 0) = Inr row"
      and db': "db' = \<lparr>hold_pool = p', reservations = row # reservations db\<rparr>"
      by (auto simp: reserve_with_def split: sum.splits)
    from row have "row = \<lparr>r_id = new_id, r_call_id = call, r_org_id = org,
        held_credits = max credits 0, settled_credits = 0, released_credits = 0,
        shortfall_credits = 0, r_state = ''held'', closed_at = None\<rparr>"
      and "\<forall>r \<in> set (reservations db). r_id r \<noteq> new_id \<and> (r_call_id r = call \<longrightarrow> r_state r \<noteq> ''held'')"
      by (auto simp: insert_hold_def split: if_splits)
    with inv charged Some db' show ?thesis
      by (auto simp: accounts_for_def commitment_def)
  qed
qed

lemma settle_accounts:
  "accounts_for balance db ttl \<Longrightarrow> actual \<le> i32_max
     \<Longrightarrow> settle_with deduct add db call session actual now = Inr (out, db')
     \<Longrightarrow> accounts_for balance db' ttl"
  unfolding settle_with_def by (erule close_accounts [rotated 4]) (simp_all add: i32_max_def)

lemma release_accounts:
  "accounts_for balance db ttl \<Longrightarrow> release_with deduct add db call session now = Inr (out, db')
     \<Longrightarrow> accounts_for balance db' ttl"
  unfolding release_with_def by (erule close_accounts [rotated 4]) (simp_all add: i32_max_def)

lemma hold_steps_account:
  "accounts_for balance db ttl \<Longrightarrow> \<forall>x \<in> set ops. op_in_range x \<Longrightarrow>
     accounts_for balance (foldl (hold_step deduct add) db ops) ttl"
proof (induction ops arbitrary: db)
  case Nil
  then show ?case by simp
next
  case (Cons x ops)
  have "accounts_for balance (hold_step deduct add db x) ttl"
    using Cons.prems
    by (cases x)
      (auto split: sum.splits intro: reserve_accounts settle_accounts release_accounts)
  with Cons show ?case by simp
qed

lemma close_twice:
  assumes "close_with deduct add db call session actual fs now = Inr (Some s, db')"
    and "fs \<noteq> ''held''"
  shows "close_with deduct add db' call session' actual' fs' now' = Inr (Some s, db')"
proof -
  from assms(1) obtain r where r: "find (\<lambda>r. r_call_id r = call) (reservations db) = Some r"
    by (auto simp: close_with_def split: option.splits)
  show ?thesis
  proof (cases "r_state r = ''held''")
    case False
    with r assms(1) show ?thesis by (auto simp: close_closed)
  next
    case True
    with r assms(1) have rs: "reservations db' = map (close_row (r_id r) fs s now) (reservations db)"
      "s_held s = held_credits r"
      by (auto simp: close_with_def Let_def split: sum.splits)
    let ?r = "close_row (r_id r) fs s now r"
    have "find (\<lambda>r. r_call_id r = call) (reservations db') = Some ?r"
      by (simp add: rs find_call_closed r)
    moreover have "r_state ?r \<noteq> ''held''" and "s = \<lparr>s_held = held_credits ?r,
        s_settled = settled_credits ?r, s_released = released_credits ?r,
        s_shortfall = shortfall_credits ?r\<rparr>"
      using assms(2) rs(2) by (simp_all add: close_row_def)
    ultimately show ?thesis by (simp add: close_closed)
  qed
qed

end


lemma open_is_newest:
  "holds_ok rs \<Longrightarrow> find (\<lambda>r. r_call_id r = call \<and> r_state r = ''held'') rs = Some r
     \<Longrightarrow> find (\<lambda>r. r_call_id r = call) rs = Some r"
  by (induction rs) (auto split: if_splits dest: find_SomeD)

lemma settle_alt: "settle db call session actual now = settle_tx db call session actual now"
  by (simp add: settle_def split: sum.splits)

lemma release_alt: "release db call session now = release_tx db call session now"
  by (simp add: release_def split: sum.splits)

text \<open>What taking a hold does, for a call that has none.\<close>

definition fresh_hold :: "Reservation list \<Rightarrow> nat \<Rightarrow> nat \<Rightarrow> bool" where
  "fresh_hold rs new_id call \<longleftrightarrow> (\<forall>r \<in> set rs. r_id r \<noteq> new_id \<and> r_call_id r \<noteq> call)"

definition open_row :: "nat \<Rightarrow> nat \<Rightarrow> nat \<Rightarrow> int \<Rightarrow> Reservation" where
  "open_row new_id call org credits =
     \<lparr>r_id = new_id, r_call_id = call, r_org_id = org, held_credits = credits,
      settled_credits = 0, released_credits = 0, shortfall_credits = 0, r_state = ''held'',
      closed_at = None\<rparr>"

lemma reserve_cases:
  assumes acc: "accounts_for org_balance db ttl" and b: "org_balance (hold_pool db) org = Some b"
    and fresh: "fresh_hold (reservations db) new_id call"
  obtains (held) p' where "max credits 0 \<le> b"
      "reserve db org call session actor credits new_id =
         Inr (Held (open_row new_id call org (max credits 0)),
           \<lparr>hold_pool = p', reservations = open_row new_id call org (max credits 0) # reservations db\<rparr>)"
      "org_balance p' = (org_balance (hold_pool db))(org \<mapsto> b - max credits 0)"
      "accounts_for org_balance \<lparr>hold_pool = p', reservations =
         open_row new_id call org (max credits 0) # reservations db\<rparr> ttl"
  | (refused) "b < max credits 0"
      "reserve db org call session actor credits new_id =
         Inr (HoldInsufficient b (max credits 0), db)"
proof -
  have b0: "0 \<le> b" and t: "b + committed (reservations db) org \<le> i32_max"
    and ok: "holds_ok (reservations db)"
    using acc b by (auto simp: accounts_for_def)
  then have bm: "b \<le> i32_max" using committed_ge_0 [OF ok, of org] by linarith
  from b b0 bm have "0 \<le> max credits 0" by simp
  from b b0 bm this show ?thesis
  proof (cases rule: org_pool.deduct_cases [where k = "''voip_hold''" and s = "Some session"
        and ac = actor and d = "''Hold for a translated phone call''"])
    case (charged p')
    have "insert_hold (reservations db) new_id call org (max credits 0) =
        Inr (open_row new_id call org (max credits 0))"
      using fresh by (auto simp: insert_hold_def fresh_hold_def open_row_def)
    with charged have res: "reserve db org call session actor credits new_id =
         Inr (Held (open_row new_id call org (max credits 0)),
           \<lparr>hold_pool = p', reservations = open_row new_id call org (max credits 0) # reservations db\<rparr>)"
      by (simp add: reserve_def reserve_with_def Let_def)
    with org_pool.reserve_accounts [OF acc] have "accounts_for org_balance \<lparr>hold_pool = p', reservations =
         open_row new_id call org (max credits 0) # reservations db\<rparr> ttl"
      by (simp add: reserve_def)
    with res charged that(1) show ?thesis by blast
  next
    case refused
    with that(2) show ?thesis by (simp add: reserve_def reserve_with_def Let_def)
  qed
qed

text \<open>Releasing an open hold gives it back whole.\<close>

lemma release_open:
  assumes acc: "accounts_for org_balance db ttl" and r: "open_for_call db call = Some r"
    and b: "org_balance (hold_pool db) (r_org_id r) = Some b"
  shows "\<exists>s db'. release db call session now = Inr (Some s, db')
    \<and> org_balance (hold_pool db') = (org_balance (hold_pool db))(r_org_id r \<mapsto> b + held_credits r)
    \<and> open_for_call db' call = None"
proof -
  have ok: "holds_ok (reservations db)" using acc by (simp add: accounts_for_def)
  have find: "find (\<lambda>r. r_call_id r = call) (reservations db) = Some r"
    using r open_is_newest [OF ok] by (simp add: open_for_call_def)
  have rin: "r \<in> set (reservations db)" and held: "r_state r = ''held''"
    using r by (auto simp: open_for_call_def dest: find_SomeD)
  have h0: "0 \<le> held_credits r" using ok rin holds_ok_nonneg by blast
  have b0: "0 \<le> b" and t: "b + committed (reservations db) (r_org_id r) \<le> i32_max"
    using acc b by (auto simp: accounts_for_def)
  have "held_credits r \<le> committed (reservations db) (r_org_id r)"
    using committed_ge [OF ok rin, of "r_org_id r"] held by (simp add: commitment_def)
  then have hb: "b + held_credits r \<le> i32_max" using t by linarith
  have z: "min 0 (held_credits r + b) = 0" "min 0 (held_credits r) = 0" using b0 h0 by auto
  from org_pool.close_open [OF b b0 find held h0 hb _ _ refl, of 0 session "''released''" now]
  obtain s p' where res: "release db call session now = Inr (Some s,
      \<lparr>hold_pool = p', reservations = map (close_row (r_id r) ''released'' s now) (reservations db)\<rparr>)"
    and p': "org_balance p' = (org_balance (hold_pool db))(r_org_id r \<mapsto> b + held_credits r)"
    by (auto simp: release_alt release_tx_def release_with_def z i32_max_def)
  have "holds_ok rs \<Longrightarrow> find (\<lambda>r. r_call_id r = call) rs = Some r \<Longrightarrow>
      find (\<lambda>r. r_call_id r = call \<and> r_state r = ''held'')
        (map (close_row (r_id r) ''released'' s now) rs) = None" for rs
    by (induction rs)
      (auto split: if_splits simp: find_None_iff close_row_def)
  from this [OF ok find] res p' show ?thesis by (auto simp: open_for_call_def)
qed

lemmas settle_simps = settle_alt release_alt settle_tx_def release_tx_def settle_with_def release_with_def

section \<open>Properties\<close>

lemma settle_open:
  assumes "accounts_for org_balance db ttl" and "open_for_call db call = Some r"
    and "org_balance (hold_pool db) (r_org_id r) = Some b" and "actual \<le> i32_max"
  shows "\<exists>s db'. settle db call session actual now = Inr (Some s, db')
     \<and> is_coherent s actual
     \<and> s_settled s = min (max actual 0) (held_credits r + b)
     \<and> s_shortfall s = max actual 0 - s_settled s
     \<and> org_balance (hold_pool db') = (org_balance (hold_pool db))
         (r_org_id r \<mapsto> b + held_credits r - s_settled s)
     \<and> accounts_for org_balance db' ttl"
proof -
  define a where "a = max actual 0"
  have a: "0 \<le> a" "a \<le> i32_max" using assms(4) by (simp_all add: a_def i32_max_def)
  have ok: "holds_ok (reservations db)" using assms(1) by (simp add: accounts_for_def)
  have r: "find (\<lambda>r. r_call_id r = call) (reservations db) = Some r" "r_state r = ''held''"
    "r \<in> set (reservations db)"
    using assms(2) open_is_newest [OF ok] find_SomeD by (fastforce simp: open_for_call_def)+
  have h0: "0 \<le> held_credits r" using ok r(3) holds_ok_nonneg by blast
  have b0: "0 \<le> b" and t: "b + committed (reservations db) (r_org_id r) \<le> i32_max"
    using assms(1,3) by (auto simp: accounts_for_def)
  have "held_credits r \<le> committed (reservations db) (r_org_id r)"
    using committed_ge [OF ok r(3), of "r_org_id r"] r(2) by (simp add: commitment_def)
  then have hb: "b + held_credits r \<le> i32_max" using t by linarith
  define s where "s = \<lparr>s_held = held_credits r, s_settled = min a (held_credits r + b),
    s_released = held_credits r - min a (held_credits r),
    s_shortfall = a - min a (held_credits r + b)\<rparr>"
  from org_pool.close_open [OF assms(3) b0 r(1,2) h0 hb a s_def, of session "''settled''" now]
  obtain db' where db': "settle db call session actual now = Inr (Some s, db')"
    "org_balance (hold_pool db') = (org_balance (hold_pool db))
         (r_org_id r \<mapsto> b + held_credits r - s_settled s)"
    by (auto simp: settle_simps a_def)
  have "accounts_for org_balance db' ttl"
    using org_pool.settle_accounts [OF assms(1,4)] db'(1) by (simp add: settle_alt settle_tx_def)
  moreover have "is_coherent s actual"
  proof -
    have m: "max (min actual (held_credits r)) 0 = min a (held_credits r)"
      using h0 by (auto simp: a_def)
    have "wrap_i32 (held_credits r - min a (held_credits r)) =
        held_credits r - min a (held_credits r)"
      "wrap_i32 (s_settled s + s_shortfall s) = a"
      using h0 hb b0 a by (auto intro!: wrap_i32_id in_i32_nonneg simp: s_def)
    then show ?thesis by (simp add: is_coherent_def s_def m) (simp add: a_def)
  qed
  ultimately show ?thesis using db' by (auto simp: s_def a_def)
qed

text \<open>Closing never fails on sound tables, closes that call, and leaves the others' holds.\<close>

lemma open_after_close_other:
  assumes "holds_ok rs" "r \<in> set rs" "i \<noteq> r_call_id r"
  shows "find (\<lambda>r'. r_call_id r' = i \<and> r_state r' = ''held'') (map (close_row (r_id r) fs s now) rs) =
    find (\<lambda>r'. r_call_id r' = i \<and> r_state r' = ''held'') rs"
  using assms(1,2)
proof (induction rs)
  case Nil
  then show ?case by simp
next
  case (Cons a rs)
  show ?case
  proof (cases "a = r")
    case True
    with Cons.prems assms(3) show ?thesis by (simp add: close_rows_other)
  next
    case False
    with Cons.prems have "r \<in> set rs" "r_id a \<noteq> r_id r" by auto
    with Cons show ?thesis by (simp add: close_row_other)
  qed
qed

lemma open_after_close_mine:
  assumes "holds_ok rs" "fs \<noteq> ''held''" "find (\<lambda>r'. r_call_id r' = r_call_id r) rs = Some r"
  shows "find (\<lambda>r'. r_call_id r' = r_call_id r \<and> r_state r' = ''held'')
    (map (close_row (r_id r) fs s now) rs) = None"
  using assms(1,3)
proof (induction rs)
  case Nil
  then show ?case by simp
next
  case (Cons a rs)
  show ?case
  proof (cases "r_call_id a = r_call_id r")
    case True
    with Cons.prems have "a = r" by simp
    with Cons.prems show ?thesis
      using assms(2) by (auto simp: find_None_iff close_rows_other close_row_def)
  next
    case False
    with Cons show ?thesis by simp
  qed
qed

context credit_pool
begin

lemma close_total:
  assumes inv: "accounts_for balance db ttl" and a: "0 \<le> actual" "actual \<le> i32_max"
    and fs: "fs \<noteq> ''held''"
  shows "\<exists>out db'. close_with deduct add db call session actual fs now = Inr (out, db')
    \<and> (\<forall>i. find (\<lambda>r. r_call_id r = i \<and> r_state r = ''held'') (reservations db') =
          (if i = call then None
           else find (\<lambda>r. r_call_id r = i \<and> r_state r = ''held'') (reservations db)))"
proof (cases "find (\<lambda>r. r_call_id r = call) (reservations db)")
  case None
  then have "find (\<lambda>r. r_call_id r = call \<and> r_state r = ''held'') (reservations db) = None"
    by (auto simp: find_None_iff)
  with None show ?thesis by (auto simp: close_with_def)
next
  case (Some r)
  have ok: "holds_ok (reservations db)" using inv by (simp add: accounts_for_def)
  have rin: "r \<in> set (reservations db)" "r_call_id r = call" using Some by (auto dest: find_SomeD)
  show ?thesis
  proof (cases "r_state r = ''held''")
    case False
    have "find (\<lambda>r. r_call_id r = call \<and> r_state r = ''held'') rs \<noteq> Some r'"
      if "holds_ok rs" "find (\<lambda>r. r_call_id r = call) rs = Some r" for rs r'
      using open_is_newest [OF that(1), of call r'] that(2) False find_SomeD by fastforce
    then have "find (\<lambda>r. r_call_id r = call \<and> r_state r = ''held'') (reservations db) = None"
      using ok Some by fastforce
    with Some False show ?thesis by (auto simp: close_closed)
  next
    case True
    from inv rin obtain b where b: "balance (hold_pool db) (r_org_id r) = Some b"
      by (auto simp: accounts_for_def)
    have b0: "0 \<le> b" and t: "b + committed (reservations db) (r_org_id r) \<le> i32_max"
      using inv b by (auto simp: accounts_for_def)
    have h0: "0 \<le> held_credits r" using ok rin holds_ok_nonneg by blast
    have "held_credits r \<le> committed (reservations db) (r_org_id r)"
      using committed_ge [OF ok rin(1), of "r_org_id r"] True by (simp add: commitment_def)
    then have hb: "b + held_credits r \<le> i32_max" using t by linarith
    from close_open [OF b b0 Some True h0 hb a refl, of session fs now] obtain s p' where
      "close_with deduct add db call session actual fs now = Inr (Some s, \<lparr>hold_pool = p',
        reservations = map (close_row (r_id r) fs s now) (reservations db)\<rparr>)" by blast
    moreover have "find (\<lambda>r'. r_call_id r' = i \<and> r_state r' = ''held'')
          (map (close_row (r_id r) fs s now) (reservations db)) =
        (if i = call then None
         else find (\<lambda>r. r_call_id r = i \<and> r_state r = ''held'') (reservations db))" for i
      using open_after_close_other [OF ok rin(1), of i fs s now]
        open_after_close_mine [OF ok fs, of r s now] Some rin(2) by auto
    ultimately show ?thesis by auto
  qed
qed

end

lemma settle_total:
  assumes "accounts_for org_balance db ttl" and "actual \<le> i32_max"
  shows "\<exists>out db'. settle db call session actual now = Inr (out, db')
    \<and> (\<forall>i. open_for_call db' i = (if i = call then None else open_for_call db i))"
  unfolding settle_simps open_for_call_def
  by (rule org_pool.close_total [OF assms(1)]) (use assms(2) in \<open>simp_all add: i32_max_def\<close>)

lemma release_total:
  assumes "accounts_for org_balance db ttl"
  shows "\<exists>out db'. release db call session now = Inr (out, db')
    \<and> (\<forall>i. open_for_call db' i = (if i = call then None else open_for_call db i))"
  unfolding settle_simps open_for_call_def
  by (rule org_pool.close_total [OF assms(1)]) (simp_all add: i32_max_def)

text \<open>
  C12: Settling an open hold returns the settlement in closed form: the call is paid up to
  its hold plus what the pool still has, the unused hold comes back, the rest is recorded as
  shortfall; the accounting identities that the code checks hold, and the pool moves by
  exactly what was paid, for that organisation only.
\<close>

theorem settle_accounting:
  assumes "accounts_for org_balance db ttl" and "open_for_call db call = Some r"
    and "org_balance (hold_pool db) (r_org_id r) = Some b" and "actual \<le> i32_max"
  shows "\<exists>s db'. settle db call session actual now = Inr (Some s, db')
     \<and> is_coherent s actual
     \<and> s_settled s = min (max actual 0) (held_credits r + b)
     \<and> s_shortfall s = max actual 0 - s_settled s
     \<and> org_balance (hold_pool db') = (org_balance (hold_pool db))
         (r_org_id r \<mapsto> b + held_credits r - s_settled s)
     \<and> accounts_for org_balance db' ttl"
  using settle_open [OF assms] by blast

definition sample_voip :: VoipDb where
  "sample_voip = \<lparr>hold_pool = sample_db, reservations = []\<rparr>"

lemma sample_voip_accounts:
  "accounts_for org_balance sample_voip (\<lambda>o'. if o' = 1 then 100 else 0)"
  by (auto simp: accounts_for_def sample_voip_def sample_db_def sample_org_def org_balance_def
      i32_max_def)

definition sample_held :: VoipDb where
  "sample_held = hold_step deduct_org_credits_tx add_org_credits_tx sample_voip
     (Reserve 1 7 70 None 60 1)"

lemma sample_held_accounts:
  "accounts_for org_balance sample_held (\<lambda>o'. if o' = 1 then 100 else 0)"
  using org_pool.hold_steps_account [OF sample_voip_accounts, of "[Reserve 1 7 70 None 60 1]"]
  by (simp add: sample_held_def)

lemma sample_held_row:
  "open_for_call sample_held 7 = Some \<lparr>r_id = 1, r_call_id = 7, r_org_id = 1, held_credits = 60,
     settled_credits = 0, released_credits = 0, shortfall_credits = 0, r_state = ''held'',
     closed_at = None\<rparr>"
  "org_balance (hold_pool sample_held) 1 = Some 40"
  by code_simp+

theorem settle_accounting_witness:
  "\<exists>s db'. settle sample_held 7 70 130 5 = Inr (Some s, db') \<and> is_coherent s 130
     \<and> s_settled s = 100 \<and> s_shortfall s = 30"
  using settle_accounting [OF sample_held_accounts sample_held_row(1), of 40 130 70 5]
    sample_held_row(2)
  by (auto simp: i32_max_def)

text \<open>
  A hold closes once: after a settlement or a release, every later settlement or
  release of the same call, whatever it would charge, returns the first settlement and
  changes nothing.
\<close>

theorem close_is_idempotent:
  assumes "settle db call session actual now = Inr (Some s, db')
      \<or> release db call session now = Inr (Some s, db')"
  shows "settle db' call session' actual' now' = Inr (Some s, db')
     \<and> release db' call session' now' = Inr (Some s, db')"
  using assms
  by (auto simp: settle_simps intro: org_pool.close_twice)

theorem close_is_idempotent_witness:
  "case settle sample_held 7 70 25 5 of
     Inr (s, db') \<Rightarrow> settle db' 7 70 60 6 = Inr (s, db') \<and> release db' 7 70 7 = Inr (s, db')
   | Inl e \<Rightarrow> False"
proof -
  have "case settle sample_held 7 70 25 5 of Inr (Some s, db') \<Rightarrow> True | _ \<Rightarrow> False"
    by code_simp
  then obtain s db' where "settle sample_held 7 70 25 5 = Inr (Some s, db')"
    by (auto split: sum.splits option.splits)
  with close_is_idempotent [of sample_held 7 70 25 5 s db'] show ?thesis by simp
qed

text \<open>
  No money is created, lost or spent twice by any sequence of dials, settlements and
  releases, in any order and with repetitions: the balance never goes negative, and balance
  plus open holds plus what closed calls paid stays what it was; so the holds taken never
  exceed the balance they were taken from.
\<close>

theorem holds_conserve_credits:
  assumes "accounts_for org_balance db ttl" and "\<forall>x \<in> set ops. op_in_range x"
    and "org_balance (hold_pool
           (foldl (hold_step deduct_org_credits_tx add_org_credits_tx) db ops)) org = Some b"
  shows "0 \<le> b \<and> b + committed (reservations
     (foldl (hold_step deduct_org_credits_tx add_org_credits_tx) db ops)) org = ttl org"
  using org_pool.hold_steps_account [OF assms(1,2)] assms(3)
  by (simp add: accounts_for_def)

theorem holds_conserve_credits_witness:
  "committed (reservations (foldl (hold_step deduct_org_credits_tx add_org_credits_tx) sample_voip
     [Reserve 1 7 70 None 60 1, Reserve 1 8 80 None 60 2, Settle 7 70 25 5, Settle 7 70 25 6,
      Reserve 1 8 80 None 60 3])) 1 = 85"
proof -
  let ?ops = "[Reserve 1 7 70 None 60 1, Reserve 1 8 80 None 60 2, Settle 7 70 25 5,
    Settle 7 70 25 6, Reserve 1 8 80 None 60 3]"
  have "org_balance (hold_pool (foldl (hold_step deduct_org_credits_tx add_org_credits_tx)
      sample_voip ?ops)) 1 = Some 15"
    by code_simp
  from holds_conserve_credits [OF sample_voip_accounts _ this] show ?thesis
    by (simp add: i32_max_def)
qed

text \<open>
  The columns of a settled row need not add up to its hold: a call that outran its hold
  and whose overage the pool covered has paid more than was held.
\<close>

theorem settled_row_exceeds_hold:
  "case settle sample_held 7 70 90 5 of
     Inl e \<Rightarrow> False
   | Inr (s, db') \<Rightarrow> \<exists>r \<in> set (reservations db'). r_state r = ''settled''
       \<and> held_credits r < settled_credits r + released_credits r + shortfall_credits r"
  by code_simp

end
