(* ===== verification/Dial_Policy.thy ===== *)
theory Dial_Policy
  imports Call_State E164_Number Pricing
begin

text \<open>
  The checks before a telephone rings, \<^verbatim>\<open>server/src/voip/policy.rs\<close>: a decision over a
  snapshot of the world, the first failing check being the one reported. A refusal is
  \<open>Inl\<close> of the reason.
\<close>

section \<open>The data of the decision\<close>

record OrgPolicy =
  enabled :: bool
  allowed_countries :: "string list"
  blocked_countries :: "string list"
  allow_international :: bool
  max_concurrent_per_user :: int
  max_concurrent_per_org :: int
  monthly_spend_limit_credits :: "int option"

definition org_policy_default :: OrgPolicy where
  "org_policy_default =
     \<lparr>enabled = False, allowed_countries = [], blocked_countries = [],
      allow_international = True, max_concurrent_per_user = 2, max_concurrent_per_org = 10,
      monthly_spend_limit_credits = None\<rparr>"

datatype RolloutStage = Disabled | Internal | Beta | Business | Ga

definition rollout_parse :: "string \<Rightarrow> RolloutStage" where
  "rollout_parse raw =
     (if raw = ''internal'' then Internal
      else if raw = ''beta'' then Beta
      else if raw = ''business'' then Business
      else if raw = ''ga'' then Ga
      else Disabled)"

fun rollout_as_str :: "RolloutStage \<Rightarrow> string" where
  "rollout_as_str Disabled = ''disabled''"
| "rollout_as_str Internal = ''internal''"
| "rollout_as_str Beta = ''beta''"
| "rollout_as_str Business = ''business''"
| "rollout_as_str Ga = ''ga''"

record GlobalPolicy =
  rollout_stage :: RolloutStage
  require_eu_processing :: bool
  max_destination_rate :: usd
  daily_provider_spend_limit :: usd
  max_concurrent_global :: int
  g_allow_international :: bool
  g_allowed_countries :: "string list"
  g_blocked_countries :: "string list"
  china_enabled :: bool
  china_require_validated_route :: bool

record DialContext =
  c_destination :: E164
  c_org :: OrgPolicy
  c_global :: GlobalPolicy
  subscription_active :: bool
  org_in_rollout_list :: bool
  tier_supports_eu_only :: bool
  provider_eu_telephony :: bool
  c_rate :: "Rate option"
  c_route_validated :: bool
  live_calls_user :: int
  live_calls_org :: int
  live_calls_global :: int
  daily_spend_usd :: usd
  org_country :: "string option"

section \<open>The checks\<close>

definition contains :: "string list \<Rightarrow> string \<Rightarrow> bool" where
  "contains xs region \<longleftrightarrow> list_ex (\<lambda>c. eq_ignore_ascii_case c region) xs"

text \<open>
  \<open>region()\<close> panics when a number has no calling code, which a parsed number always has;
  the empty string stands for the panic.
\<close>

definition region_of :: "E164 \<Rightarrow> string" where
  "region_of n = (case e164_region n of None \<Rightarrow> [] | Some r \<Rightarrow> r)"

definition entitlement :: "DialContext \<Rightarrow> FailureReason + unit" where
  "entitlement ctx =
     (let allowed_by_stage =
            (case rollout_stage (c_global ctx) of
               Disabled \<Rightarrow> False
             | Internal \<Rightarrow> org_in_rollout_list ctx
             | Beta \<Rightarrow> org_in_rollout_list ctx
             | Business \<Rightarrow> subscription_active ctx
             | Ga \<Rightarrow> subscription_active ctx)
      in if \<not> allowed_by_stage \<or> \<not> enabled (c_org ctx) then Inl DestinationNotAllowed
         else if \<not> subscription_active ctx then Inl DestinationNotAllowed
         else Inr ())"

definition destination :: "DialContext \<Rightarrow> FailureReason + unit" where
  "destination ctx =
     (let region = region_of (c_destination ctx); org = c_org ctx; global = c_global ctx
      in if contains (g_blocked_countries global) region \<or> contains (blocked_countries org) region
         then Inl DestinationNotAllowed
         else if g_allowed_countries global \<noteq> [] \<and> \<not> contains (g_allowed_countries global) region
         then Inl DestinationNotAllowed
         else if allowed_countries org \<noteq> [] \<and> \<not> contains (allowed_countries org) region
         then Inl DestinationNotAllowed
         else case org_country ctx of
                None \<Rightarrow> Inr ()
              | Some home \<Rightarrow>
                  let is_international = (\<not> eq_ignore_ascii_case home region)
                  in if is_international
                        \<and> (\<not> g_allow_international global \<or> \<not> allow_international org)
                     then Inl DestinationNotAllowed else Inr ())"

definition china :: "DialContext \<Rightarrow> FailureReason + unit" where
  "china ctx =
     (if region_of (c_destination ctx) \<noteq> ''CN'' then Inr ()
      else if \<not> china_enabled (c_global ctx) then Inl DestinationNotAllowed
      else if china_require_validated_route (c_global ctx) \<and> \<not> c_route_validated ctx
      then Inl DestinationNotAllowed
      else Inr ())"

definition eu_processing :: "DialContext \<Rightarrow> FailureReason + unit" where
  "eu_processing ctx =
     (if \<not> require_eu_processing (c_global ctx) then Inr ()
      else if \<not> provider_eu_telephony ctx \<or> \<not> tier_supports_eu_only ctx
      then Inl EuProcessingUnavailable
      else Inr ())"

definition price :: "DialContext \<Rightarrow> FailureReason + unit" where
  "price ctx =
     (case c_rate ctx of
        None \<Rightarrow> Inl RateUnavailable
      | Some rate \<Rightarrow>
          if cost_per_minute rate > max_destination_rate (c_global ctx)
          then Inl DestinationTooExpensive
          else if daily_spend_usd ctx \<ge> daily_provider_spend_limit (c_global ctx)
          then Inl DestinationTooExpensive
          else Inr ())"

definition capacity :: "DialContext \<Rightarrow> FailureReason + unit" where
  "capacity ctx =
     (if live_calls_user ctx \<ge> max_concurrent_per_user (c_org ctx)
         \<or> live_calls_org ctx \<ge> max_concurrent_per_org (c_org ctx)
         \<or> live_calls_global ctx \<ge> max_concurrent_global (c_global ctx)
      then Inl ConcurrencyLimit else Inr ())"

text \<open>The \<open>?\<close> operator.\<close>

definition and_then :: "'e + unit \<Rightarrow> 'e + 'a \<Rightarrow> 'e + 'a" where
  "and_then a b = (case a of Inl e \<Rightarrow> Inl e | Inr _ \<Rightarrow> b)"

definition check :: "DialContext \<Rightarrow> FailureReason + unit" where
  "check ctx =
     and_then (entitlement ctx)
       (and_then (destination ctx)
         (and_then (china ctx)
           (and_then (eu_processing ctx)
             (and_then (price ctx)
               (and_then (capacity ctx) (Inr ()))))))"

section \<open>What admission means\<close>

lemma and_then_Inr [simp]: "and_then a b = Inr x \<longleftrightarrow> a = Inr () \<and> b = Inr x"
  by (cases a) (auto simp: and_then_def)

lemma and_then_Inl [simp]: "and_then a b = Inl e \<longleftrightarrow> a = Inl e \<or> a = Inr () \<and> b = Inl e"
  by (cases a) (auto simp: and_then_def)

definition entitled :: "DialContext \<Rightarrow> bool" where
  "entitled ctx \<longleftrightarrow>
     enabled (c_org ctx) \<and> subscription_active ctx \<and> rollout_stage (c_global ctx) \<noteq> Disabled
     \<and> (rollout_stage (c_global ctx) \<in> {Internal, Beta} \<longrightarrow> org_in_rollout_list ctx)"

definition country_permitted :: "DialContext \<Rightarrow> bool" where
  "country_permitted ctx \<longleftrightarrow>
     (let r = region_of (c_destination ctx) in
        (\<forall>xs \<in> {g_blocked_countries (c_global ctx), blocked_countries (c_org ctx)}. \<not> contains xs r)
        \<and> (\<forall>xs \<in> {g_allowed_countries (c_global ctx), allowed_countries (c_org ctx)}.
             xs = [] \<or> contains xs r)
        \<and> (\<forall>home. org_country ctx = Some home \<longrightarrow>
             eq_ignore_ascii_case home r
             \<or> g_allow_international (c_global ctx) \<and> allow_international (c_org ctx)))"

definition china_permitted :: "DialContext \<Rightarrow> bool" where
  "china_permitted ctx \<longleftrightarrow>
     (region_of (c_destination ctx) = ''CN'' \<longrightarrow>
        china_enabled (c_global ctx)
        \<and> (china_require_validated_route (c_global ctx) \<longrightarrow> c_route_validated ctx))"

definition eu_permitted :: "DialContext \<Rightarrow> bool" where
  "eu_permitted ctx \<longleftrightarrow>
     (require_eu_processing (c_global ctx) \<longrightarrow> provider_eu_telephony ctx \<and> tier_supports_eu_only ctx)"

definition priced :: "DialContext \<Rightarrow> bool" where
  "priced ctx \<longleftrightarrow>
     (\<exists>rate. c_rate ctx = Some rate
        \<and> cost_per_minute rate \<le> max_destination_rate (c_global ctx)
        \<and> daily_spend_usd ctx < daily_provider_spend_limit (c_global ctx))"

definition has_room :: "DialContext \<Rightarrow> bool" where
  "has_room ctx \<longleftrightarrow>
     live_calls_user ctx < max_concurrent_per_user (c_org ctx)
     \<and> live_calls_org ctx < max_concurrent_per_org (c_org ctx)
     \<and> live_calls_global ctx < max_concurrent_global (c_global ctx)"

lemma entitlement_eq:
  "entitlement ctx = (if entitled ctx then Inr () else Inl DestinationNotAllowed)"
  by (cases "rollout_stage (c_global ctx)") (auto simp: entitlement_def entitled_def)

lemma destination_eq:
  "destination ctx = (if country_permitted ctx then Inr () else Inl DestinationNotAllowed)"
  by (auto simp: destination_def country_permitted_def Let_def split: option.split)

lemma china_eq: "china ctx = (if china_permitted ctx then Inr () else Inl DestinationNotAllowed)"
  by (auto simp: china_def china_permitted_def)

lemma eu_eq: "eu_processing ctx = (if eu_permitted ctx then Inr () else Inl EuProcessingUnavailable)"
  by (auto simp: eu_processing_def eu_permitted_def)

lemma price_eq:
  "price ctx = (if priced ctx then Inr ()
     else if c_rate ctx = None then Inl RateUnavailable else Inl DestinationTooExpensive)"
  by (auto simp: price_def priced_def split: option.split)

lemma capacity_eq: "capacity ctx = (if has_room ctx then Inr () else Inl ConcurrencyLimit)"
  by (auto simp: capacity_def has_room_def)

lemmas check_stages = entitlement_eq destination_eq china_eq eu_eq price_eq capacity_eq

lemma check_eq:
  "check ctx =
     (if \<not> (entitled ctx \<and> country_permitted ctx \<and> china_permitted ctx) then Inl DestinationNotAllowed
      else if \<not> eu_permitted ctx then Inl EuProcessingUnavailable
      else if c_rate ctx = None then Inl RateUnavailable
      else if \<not> priced ctx then Inl DestinationTooExpensive
      else if \<not> has_room ctx then Inl ConcurrencyLimit
      else Inr ())"
  by (auto simp: check_def check_stages and_then_def priced_def)

text \<open>The conditions in the order in which a dial is refused, each with its refusal.\<close>

definition dial_gates :: "DialContext \<Rightarrow> (bool \<times> FailureReason) list" where
  "dial_gates ctx =
     [(entitled ctx, DestinationNotAllowed), (country_permitted ctx, DestinationNotAllowed),
      (china_permitted ctx, DestinationNotAllowed), (eu_permitted ctx, EuProcessingUnavailable),
      (c_rate ctx \<noteq> None, RateUnavailable), (priced ctx, DestinationTooExpensive), (has_room ctx, ConcurrencyLimit)]"

definition first_refusal :: "(bool \<times> 'e) list \<Rightarrow> 'e + unit" where
  "first_refusal gates = (case find (\<lambda>(ok, _). \<not> ok) gates of None \<Rightarrow> Inr () | Some (_, e) \<Rightarrow> Inl e)"

lemma check_first_refusal: "check ctx = first_refusal (dial_gates ctx)"
  by (auto simp: check_eq first_refusal_def dial_gates_def)

lemma rollout_parse_unknown:
  "raw \<notin> set [''internal'', ''beta'', ''business'', ''ga''] \<Longrightarrow> rollout_parse raw = Disabled"
  by (simp add: rollout_parse_def)

section \<open>Properties\<close>

text \<open>
  C11: The gate admits a dial exactly when the organisation is entitled, the country is
  blocked by nobody and allowed by everybody who keeps a list, China and EU processing are
  settled, the fresh rate is within its ceiling with budget left, and every concurrency cap
  has room; otherwise its answer is the refusal of the first of these conditions, in this
  order, that fails, so an organisation that is not entitled gets the same answer for every
  destination, rate and load. A rollout stage that is not recognised admits nobody.
\<close>

theorem check_admits_iff:
  "(check ctx = Inr () \<longleftrightarrow>
      entitled ctx \<and> country_permitted ctx \<and> china_permitted ctx \<and> eu_permitted ctx
      \<and> priced ctx \<and> has_room ctx)
   \<and> check ctx = first_refusal (dial_gates ctx)
   \<and> (\<not> entitled ctx \<longrightarrow>
        (\<forall>d r v u l g s h. check (ctx\<lparr>c_destination := d, c_rate := r, c_route_validated := v,
           live_calls_user := u, live_calls_org := l, live_calls_global := g,
           daily_spend_usd := s, org_country := h\<rparr>) = Inl DestinationNotAllowed))
   \<and> (check ctx = Inl RateUnavailable \<longrightarrow> entitled ctx \<and> country_permitted ctx \<and> c_rate ctx = None)
   \<and> (check ctx = Inl ConcurrencyLimit \<longrightarrow> priced ctx \<and> \<not> has_room ctx)
   \<and> (\<forall>raw. raw \<notin> set [''internal'', ''beta'', ''business'', ''ga''] \<longrightarrow>
        check (ctx\<lparr>c_global := (c_global ctx)\<lparr>rollout_stage := rollout_parse raw\<rparr>\<rparr>) =
          Inl DestinationNotAllowed)"
proof (intro conjI impI allI)
  show "check ctx = Inr () \<longleftrightarrow>
      entitled ctx \<and> country_permitted ctx \<and> china_permitted ctx \<and> eu_permitted ctx
      \<and> priced ctx \<and> has_room ctx"
    by (auto simp: check_eq priced_def)
  show "check ctx = first_refusal (dial_gates ctx)" by (rule check_first_refusal)
  fix d r v u l g s h
  assume "\<not> entitled ctx"
  then have "\<not> entitled (ctx\<lparr>c_destination := d, c_rate := r, c_route_validated := v,
           live_calls_user := u, live_calls_org := l, live_calls_global := g,
           daily_spend_usd := s, org_country := h\<rparr>)"
    by (simp add: entitled_def)
  then show "check (ctx\<lparr>c_destination := d, c_rate := r, c_route_validated := v,
           live_calls_user := u, live_calls_org := l, live_calls_global := g,
           daily_spend_usd := s, org_country := h\<rparr>) = Inl DestinationNotAllowed"
    by (simp add: check_eq)
next
  fix raw
  assume "raw \<notin> set [''internal'', ''beta'', ''business'', ''ga'']"
  then have "\<not> entitled (ctx\<lparr>c_global := (c_global ctx)\<lparr>rollout_stage := rollout_parse raw\<rparr>\<rparr>)"
    by (simp add: rollout_parse_unknown entitled_def)
  then show "check (ctx\<lparr>c_global := (c_global ctx)\<lparr>rollout_stage := rollout_parse raw\<rparr>\<rparr>) =
      Inl DestinationNotAllowed"
    by (simp add: check_eq)
qed (auto simp: check_eq split: if_splits)

text \<open>A context that is admitted, and the same one below its own spending ceiling.\<close>

definition sample_ctx :: DialContext where
  "sample_ctx =
     \<lparr>c_destination = E164 ''+393201234567'', c_org = org_policy_default\<lparr>enabled := True\<rparr>,
      c_global = \<lparr>rollout_stage = Ga, require_eu_processing = False, max_destination_rate = 1,
        daily_provider_spend_limit = 100, max_concurrent_global = 50,
        g_allow_international = True, g_allowed_countries = [],
        g_blocked_countries = [''kp''], china_enabled = False,
        china_require_validated_route = True\<rparr>,
      subscription_active = True, org_in_rollout_list = False, tier_supports_eu_only = False,
      provider_eu_telephony = True,
      c_rate = Some \<lparr>rate_prefix = ''39'', cost_per_minute = 2 / 100, rate_description = '''',
        fetched_at = 0\<rparr>,
      c_route_validated = False, live_calls_user = 1, live_calls_org = 1, live_calls_global = 1,
      daily_spend_usd = 5, org_country = Some ''IT''\<rparr>"

theorem check_admits_iff_witness:
  "check sample_ctx = Inr ()
   \<and> (\<forall>d r. check ((sample_ctx\<lparr>subscription_active := False\<rparr>)\<lparr>c_destination := d, c_rate := r,
        c_route_validated := True, live_calls_user := 0, live_calls_org := 0,
        live_calls_global := 0, daily_spend_usd := 0, org_country := None\<rparr>) =
        Inl DestinationNotAllowed)"
proof -
  have "\<not> entitled (sample_ctx\<lparr>subscription_active := False\<rparr>)"
    by (simp add: entitled_def)
  moreover have "check sample_ctx = Inr ()" by code_simp
  ultimately show ?thesis
    using check_admits_iff [of "sample_ctx\<lparr>subscription_active := False\<rparr>"] by blast
qed

text \<open>
  The organisation's own monthly spending ceiling is stored and loaded, and no check
  reads it: whatever its value, and whatever was spent, the decision is the same, and a dial
  is admitted under a ceiling of zero credits.
\<close>

theorem monthly_limit_not_enforced:
  "check (ctx\<lparr>c_org := (c_org ctx)\<lparr>monthly_spend_limit_credits := m\<rparr>\<rparr>) = check ctx
   \<and> check (sample_ctx\<lparr>c_org := (c_org sample_ctx)\<lparr>monthly_spend_limit_credits := Some 0\<rparr>\<rparr>) = Inr ()"
proof
  let ?c = "ctx\<lparr>c_org := (c_org ctx)\<lparr>monthly_spend_limit_credits := m\<rparr>\<rparr>"
  have "entitled ?c = entitled ctx" by (simp add: entitled_def)
  moreover have "country_permitted ?c = country_permitted ctx"
    by (simp add: country_permitted_def Let_def)
  moreover have "china_permitted ?c = china_permitted ctx" by (simp add: china_permitted_def)
  moreover have "eu_permitted ?c = eu_permitted ctx" by (simp add: eu_permitted_def)
  moreover have "priced ?c = priced ctx" "c_rate ?c = c_rate ctx" by (simp_all add: priced_def)
  moreover have "has_room ?c = has_room ctx" by (simp add: has_room_def)
  ultimately show "check ?c = check ctx" by (simp only: check_eq)
  show "check (sample_ctx\<lparr>c_org := (c_org sample_ctx)\<lparr>monthly_spend_limit_credits := Some 0\<rparr>\<rparr>) = Inr ()"
    by code_simp
qed

end
