(* ===== verification/Consent.thy ===== *)
theory Consent
  imports Vox_Prelude
begin

text \<open>
  Telling the recipient what is captured, \<^verbatim>\<open>server/src/voip/consent.rs\<close>: the policies and
  statuses with their stored names, the plan of what is said and whether to wait for an
  answer, the spoken text, and what an answer implies.

  Two things are parameters: \<open>lower\<close>, the Unicode lower-casing of the standard library, and
  \<open>copy\<close>, the table of reviewed sentences that the build embeds
  (\<^verbatim>\<open>server/assets/voip-disclosure.json\<close>), by language and key.
\<close>

section \<open>Policies and statuses\<close>

datatype ConsentPolicy = NoticeOnly | PressKey | Verbal | ConsentDisabled

fun consent_policy_as_str :: "ConsentPolicy \<Rightarrow> string" where
  "consent_policy_as_str NoticeOnly = ''notice_only''"
| "consent_policy_as_str PressKey = ''press_key''"
| "consent_policy_as_str Verbal = ''verbal''"
| "consent_policy_as_str ConsentDisabled = ''disabled''"

definition consent_policy_parse :: "string \<Rightarrow> ConsentPolicy" where
  "consent_policy_parse raw =
     (if raw = ''notice_only'' then NoticeOnly
      else if raw = ''press_key'' then PressKey
      else if raw = ''verbal'' then Verbal
      else if raw = ''disabled'' then ConsentDisabled
      else PressKey)"

datatype ConsentStatus = NotRequired | Pending | Granted | Denied | Timeout

fun consent_status_as_str :: "ConsentStatus \<Rightarrow> string" where
  "consent_status_as_str NotRequired = ''not_required''"
| "consent_status_as_str Pending = ''pending''"
| "consent_status_as_str Granted = ''granted''"
| "consent_status_as_str Denied = ''denied''"
| "consent_status_as_str Timeout = ''timeout''"

fun permits_capture :: "ConsentStatus \<Rightarrow> bool" where
  "permits_capture NotRequired \<longleftrightarrow> True"
| "permits_capture Granted \<longleftrightarrow> True"
| "permits_capture _ \<longleftrightarrow> False"

record CaptureIntent =
  i_recording :: bool
  i_transcription :: bool
  i_ai_analysis :: bool

definition captures_nothing :: "CaptureIntent \<Rightarrow> bool" where
  "captures_nothing i \<longleftrightarrow> \<not> i_recording i \<and> \<not> i_transcription i"

definition normalised :: "CaptureIntent \<Rightarrow> CaptureIntent" where
  "normalised i = i\<lparr>i_ai_analysis := i_ai_analysis i \<and> i_transcription i\<rparr>"

datatype RefusedAction = ContinueUnrecorded | EndRefused

fun refused_as_str :: "RefusedAction \<Rightarrow> string" where
  "refused_as_str ContinueUnrecorded = ''continue_unrecorded''"
| "refused_as_str EndRefused = ''end''"

definition refused_parse :: "string \<Rightarrow> RefusedAction" where
  "refused_parse raw = (if raw = ''end'' then EndRefused else ContinueUnrecorded)"

section \<open>The plan\<close>

datatype AnnouncementBody =
  TranslationOnly | Transcription | Recording | RecordingAndTranscription

fun body_key :: "AnnouncementBody \<Rightarrow> string" where
  "body_key TranslationOnly = ''translation_only''"
| "body_key Transcription = ''transcription''"
| "body_key Recording = ''recording''"
| "body_key RecordingAndTranscription = ''recording_and_transcription''"

datatype AnnouncementGate = GatePressKey | GateVerbal

fun gate_key :: "AnnouncementGate \<Rightarrow> string" where
  "gate_key GatePressKey = ''gate_press_key''"
| "gate_key GateVerbal = ''gate_verbal''"

record Disclosure =
  d_body :: "AnnouncementBody option"
  d_gate :: "AnnouncementGate option"
  d_language :: ustring
  d_initial_status :: ConsentStatus
  d_capture_after_announcement :: bool
  d_policy_escalated :: bool

text \<open>The recorded reason of an escalation is a fixed sentence; the model keeps its presence.\<close>

definition disclosure_plan ::
  "(ustring \<Rightarrow> ustring) \<Rightarrow> ConsentPolicy \<Rightarrow> CaptureIntent \<Rightarrow> bool \<Rightarrow> ustring \<Rightarrow> Disclosure" where
  "disclosure_plan lower policy0 intent0 ai_disclosure recipient_language =
     (let intent = normalised intent0;
          language = lower (trim recipient_language);
          escalated = (policy0 = ConsentDisabled \<and> \<not> captures_nothing intent);
          policy = (if escalated then NoticeOnly else policy0);
          body = (case (i_recording intent, i_transcription intent) of
                    (True, True) \<Rightarrow> Some RecordingAndTranscription
                  | (True, False) \<Rightarrow> Some Recording
                  | (False, True) \<Rightarrow> Some Transcription
                  | (False, False) \<Rightarrow> if ai_disclosure then Some TranslationOnly else None);
          gate = (if captures_nothing intent then None
                  else case policy of
                         PressKey \<Rightarrow> Some GatePressKey
                       | Verbal \<Rightarrow> Some GateVerbal
                       | NoticeOnly \<Rightarrow> None
                       | ConsentDisabled \<Rightarrow> None);
          initial_status = (if gate \<noteq> None then Pending else NotRequired)
      in \<lparr>d_body = body, d_gate = gate, d_language = language,
          d_initial_status = initial_status,
          d_capture_after_announcement = (\<not> captures_nothing intent \<and> gate = None),
          d_policy_escalated = escalated\<rparr>)"

section \<open>The spoken copy\<close>

type_synonym copy_table = "ustring \<Rightarrow> (string \<Rightarrow> ustring option) option"

text \<open>\<open>split(['-', '_'])\<close> and its first piece, after trimming and lower-casing.\<close>

definition base_language :: "(ustring \<Rightarrow> ustring) \<Rightarrow> ustring \<Rightarrow> ustring" where
  "base_language lower language =
     takeWhile (\<lambda>c. c \<noteq> 45 \<and> c \<noteq> 95) (lower (trim language))"

definition speaks :: "(ustring \<Rightarrow> ustring) \<Rightarrow> copy_table \<Rightarrow> ustring \<Rightarrow> bool" where
  "speaks lower copy language \<longleftrightarrow> copy (base_language lower language) \<noteq> None"

definition lookup ::
  "(ustring \<Rightarrow> ustring) \<Rightarrow> copy_table \<Rightarrow> ustring \<Rightarrow> string \<Rightarrow> ustring option" where
  "lookup lower copy language key =
     (case copy (base_language lower language) of None \<Rightarrow> None | Some m \<Rightarrow> m key)"

definition or_english ::
  "(ustring \<Rightarrow> ustring) \<Rightarrow> copy_table \<Rightarrow> ustring \<Rightarrow> string \<Rightarrow> ustring" where
  "or_english lower copy lang key =
     (case lookup lower copy lang key of
        Some t \<Rightarrow> t
      | None \<Rightarrow> (case lookup lower copy (ustr ''en'') key of Some t \<Rightarrow> t | None \<Rightarrow> []))"

definition voicemail_prompt ::
  "(ustring \<Rightarrow> ustring) \<Rightarrow> copy_table \<Rightarrow> ustring \<Rightarrow> ustring \<times> bool" where
  "voicemail_prompt lower copy language =
     (let lang = base_language lower language; fell_back = (\<not> speaks lower copy lang)
      in (or_english lower copy lang ''voicemail'', fell_back))"

record Announcement =
  a_language :: ustring
  a_text :: ustring
  a_fell_back :: bool

fun refuse_key :: "RefusedAction \<Rightarrow> string" where
  "refuse_key ContinueUnrecorded = ''refuse_continue''"
| "refuse_key EndRefused = ''refuse_end''"

definition announcement ::
  "(ustring \<Rightarrow> ustring) \<Rightarrow> copy_table \<Rightarrow> Disclosure \<Rightarrow> RefusedAction \<Rightarrow> Announcement option" where
  "announcement lower copy disclosure refused =
     (case d_body disclosure of
        None \<Rightarrow> None
      | Some body \<Rightarrow>
          let lang = base_language lower (d_language disclosure);
              fell_back = (\<not> speaks lower copy lang);
              pick = or_english lower copy lang;
              text0 = pick (body_key body);
              text = (case d_gate disclosure of
                        None \<Rightarrow> text0
                      | Some gate \<Rightarrow>
                          text0 @ [32] @ pick (gate_key gate) @ [32] @ pick (refuse_key refused))
          in Some \<lparr>a_language = (if fell_back then ustr ''en'' else lang),
                   a_text = trim text, a_fell_back = fell_back\<rparr>)"

section \<open>The answer\<close>

definition on_digit :: "nat \<Rightarrow> ustring \<Rightarrow> ConsentStatus" where
  "on_digit digit accept_digits = (if digit \<in> set accept_digits then Granted else Denied)"

datatype AfterConsent = StartCapture | ContinueWithoutCapture | EndCall

fun after :: "ConsentStatus \<Rightarrow> RefusedAction \<Rightarrow> AfterConsent" where
  "after Granted _ = StartCapture"
| "after NotRequired _ = StartCapture"
| "after Pending _ = ContinueWithoutCapture"
| "after Denied ContinueUnrecorded = ContinueWithoutCapture"
| "after Denied EndRefused = EndCall"
| "after Timeout ContinueUnrecorded = ContinueWithoutCapture"
| "after Timeout EndRefused = EndCall"

section \<open>Properties\<close>

lemma consent_policy_roundtrip: "consent_policy_parse (consent_policy_as_str p) = p"
  by (cases p) (simp_all add: consent_policy_parse_def)

lemma refused_roundtrip: "refused_parse (refused_as_str r) = r"
  by (cases r) (simp_all add: refused_parse_def)

lemma after_starts_iff: "after st r = StartCapture \<longleftrightarrow> permits_capture st"
  by (cases st; cases r) simp_all

text \<open>What the sentence of a body tells the recipient.\<close>

fun tells_recording :: "AnnouncementBody \<Rightarrow> bool" where
  "tells_recording Recording \<longleftrightarrow> True"
| "tells_recording RecordingAndTranscription \<longleftrightarrow> True"
| "tells_recording _ \<longleftrightarrow> False"

fun tells_transcription :: "AnnouncementBody \<Rightarrow> bool" where
  "tells_transcription Transcription \<longleftrightarrow> True"
| "tells_transcription RecordingAndTranscription \<longleftrightarrow> True"
| "tells_transcription _ \<longleftrightarrow> False"

text \<open>
  The plan is truthful and never silent: whatever is captured is announced and nothing
  else is, under every policy including the switched-off one (which is raised to a notice
  and reported); capture may start on the announcement alone exactly when something is
  captured and nobody has to be asked; and while somebody has to be asked, the first status
  forbids capture. A stored policy that cannot be read asks for a key.
\<close>

theorem plan_truthful:
  "let d = disclosure_plan lower policy intent ai lang in
     (i_recording intent \<longleftrightarrow> (\<exists>b. d_body d = Some b \<and> tells_recording b))
   \<and> (i_transcription intent \<longleftrightarrow> (\<exists>b. d_body d = Some b \<and> tells_transcription b))
   \<and> (d_body d = None \<longleftrightarrow> captures_nothing intent \<and> \<not> ai)
   \<and> (d_gate d = None \<longleftrightarrow> captures_nothing intent \<or> policy \<in> {NoticeOnly, ConsentDisabled})
   \<and> (permits_capture (d_initial_status d) \<longleftrightarrow> d_gate d = None)
   \<and> (d_capture_after_announcement d \<longleftrightarrow> \<not> captures_nothing intent \<and> d_gate d = None)
   \<and> (d_policy_escalated d \<longleftrightarrow> policy = ConsentDisabled \<and> \<not> captures_nothing intent)
   \<and> (\<forall>raw. raw \<in> consent_policy_as_str ` {NoticeOnly, Verbal, ConsentDisabled}
        \<or> consent_policy_parse raw = PressKey)"
  by (cases policy)
    (auto simp: disclosure_plan_def Let_def captures_nothing_def normalised_def consent_policy_parse_def
      split: bool.splits)

text \<open>
  A table is complete when it has English, and every language in it has every sentence,
  none blank; the embedded file is.
\<close>

definition announcement_keys :: "string list" where
  "announcement_keys =
     [''translation_only'', ''transcription'', ''recording'', ''recording_and_transcription'',
      ''gate_press_key'', ''gate_verbal'', ''refuse_continue'', ''refuse_end'', ''voicemail'']"

definition copy_complete :: "copy_table \<Rightarrow> bool" where
  "copy_complete copy \<longleftrightarrow>
     copy (ustr ''en'') \<noteq> None
     \<and> (\<forall>lang m. copy lang = Some m \<longrightarrow>
          (\<forall>k \<in> set announcement_keys. \<exists>t. m k = Some t \<and> t \<noteq> []
             \<and> \<not> is_whitespace (hd t) \<and> \<not> is_whitespace (last t)))"

definition lower_laws :: "(ustring \<Rightarrow> ustring) \<Rightarrow> bool" where
  "lower_laws lower \<longleftrightarrow> lower (ustr ''en'') = ustr ''en''"

lemma base_language_en: "lower_laws lower \<Longrightarrow> base_language lower (ustr ''en'') = ustr ''en''"
  by (simp add: base_language_def lower_laws_def ustr_def trim_def is_whitespace_def)

text \<open>The table in which every sentence of an announcement is found.\<close>

lemma or_english_complete:
  assumes "copy_complete copy" "lower_laws lower" "k \<in> set announcement_keys"
    and "copy (if speaks lower copy lang then base_language lower lang else ustr ''en'') = Some m"
  shows "m k = Some (or_english lower copy lang k)"
    and "or_english lower copy lang k \<noteq> []"
    and "\<not> is_whitespace (hd (or_english lower copy lang k))"
    and "\<not> is_whitespace (last (or_english lower copy lang k))"
proof -
  from assms(1,3,4) obtain t where t: "m k = Some t" "t \<noteq> []" "\<not> is_whitespace (hd t)"
    "\<not> is_whitespace (last t)"
    unfolding copy_complete_def by meson
  have "or_english lower copy lang k = t"
    using assms(4) t(1) base_language_en [OF assms(2)]
    by (auto simp: or_english_def lookup_def speaks_def split: option.splits if_splits)
  with t show "m k = Some (or_english lower copy lang k)"
    "or_english lower copy lang k \<noteq> []" "\<not> is_whitespace (hd (or_english lower copy lang k))"
    "\<not> is_whitespace (last (or_english lower copy lang k))" by simp_all
qed

lemma body_key_in: "body_key b \<in> set announcement_keys"
  by (cases b) (simp_all add: announcement_keys_def)

lemma gate_key_in: "gate_key g \<in> set announcement_keys"
  by (cases g) (simp_all add: announcement_keys_def)

lemma refuse_key_in: "refuse_key r \<in> set announcement_keys"
  by (cases r) (simp_all add: announcement_keys_def)

text \<open>
  With a complete table an announcement is always made of whole reviewed sentences of
  one language: the recipient's, or English with \<open>fell_back\<close> set exactly when the table has
  no such language; with a gate, the question and what a refusal means follow the body.
\<close>

theorem announcement_speaks:
  assumes "copy_complete copy" and "lower_laws lower" and "d_body d = Some b"
  shows "\<exists>ann m t lang. announcement lower copy d refused = Some ann
     \<and> lang = base_language lower (base_language lower (d_language d))
     \<and> a_fell_back ann = (copy lang = None)
     \<and> copy (if a_fell_back ann then ustr ''en'' else lang) = Some m
     \<and> m (body_key b) = Some t \<and> t \<noteq> []
     \<and> a_text ann = (case d_gate d of None \<Rightarrow> t
         | Some g \<Rightarrow> t @ [32] @ the (m (gate_key g)) @ [32] @ the (m (refuse_key refused)))"
proof -
  let ?lang = "base_language lower (d_language d)"
  have "copy (if speaks lower copy ?lang then base_language lower ?lang else ustr ''en'') \<noteq> None"
    using assms(1) by (simp add: copy_complete_def speaks_def)
  then obtain m where
    m: "copy (if speaks lower copy ?lang then base_language lower ?lang else ustr ''en'') = Some m"
    by blast
  note k = or_english_complete [OF assms(1,2) _ m]
  define t where "t = or_english lower copy ?lang (body_key b)"
  note t = k [OF body_key_in, of b, folded t_def]
  have spoken: "trim (case d_gate d of None \<Rightarrow> t
      | Some g \<Rightarrow> t @ [32] @ or_english lower copy ?lang (gate_key g) @ [32] @
          or_english lower copy ?lang (refuse_key refused)) =
      (case d_gate d of None \<Rightarrow> t
         | Some g \<Rightarrow> t @ [32] @ the (m (gate_key g)) @ [32] @ the (m (refuse_key refused)))"
    using t k(1) [OF gate_key_in] k [OF refuse_key_in, of refused]
    by (cases "d_gate d") (simp_all add: trim_id)
  have "announcement lower copy d refused =
      Some \<lparr>a_language = (if copy (base_language lower ?lang) = None then ustr ''en'' else ?lang),
        a_text = (case d_gate d of None \<Rightarrow> t
         | Some g \<Rightarrow> t @ [32] @ the (m (gate_key g)) @ [32] @ the (m (refuse_key refused))),
        a_fell_back = (copy (base_language lower ?lang) = None)\<rparr>"
    using assms(3) spoken
    by (simp add: announcement_def Let_def speaks_def t_def [symmetric] cong: option.case_cong)
  with m t show ?thesis
    by (auto simp: speaks_def)
qed

definition sample_lower :: "ustring \<Rightarrow> ustring" where
  "sample_lower = map (\<lambda>c. if 65 \<le> c \<and> c \<le> 90 then c + 32 else c)"

definition sample_copy :: copy_table where
  "sample_copy lang =
     (if lang = ustr ''en'' \<or> lang = ustr ''it'' then Some (\<lambda>k. Some (lang @ [58] @ ustr k)) else None)"

lemma sample_lower_laws: "lower_laws sample_lower"
  by code_simp

lemma sample_copy_complete: "copy_complete sample_copy"
proof -
  have k: "\<not> is_whitespace (last (ustr k)) \<and> ustr k \<noteq> []" if "k \<in> set announcement_keys" for k
  proof -
    have "list_all (\<lambda>k. \<not> is_whitespace (last (ustr k)) \<and> ustr k \<noteq> []) announcement_keys"
      by (simp add: announcement_keys_def ustr_def is_whitespace_def)
    with that show ?thesis by (simp add: list_all_iff)
  qed
  have l: "\<not> is_whitespace (hd lang) \<and> lang \<noteq> []" if "sample_copy lang \<noteq> None" for lang
  proof -
    have "\<not> is_whitespace (hd (ustr ''en''))" "\<not> is_whitespace (hd (ustr ''it''))"
      by (simp_all add: ustr_def is_whitespace_def)
    moreover have "lang = ustr ''en'' \<or> lang = ustr ''it''"
      using that by (simp add: sample_copy_def split: if_splits)
    ultimately show ?thesis by (auto simp: ustr_def)
  qed
  have e: "m = (\<lambda>k'. Some (lang @ [58] @ ustr k'))" if "sample_copy lang = Some m" for lang m
    using that by (auto simp: sample_copy_def split: if_splits)
  show ?thesis
    unfolding copy_complete_def
  proof (intro conjI allI impI ballI)
    show "sample_copy (ustr ''en'') \<noteq> None" by (simp add: sample_copy_def)
  next
    fix lang m k'
    assume m: "sample_copy lang = Some m" and k': "k' \<in> set announcement_keys"
    have "m k' = Some (lang @ [58] @ ustr k')" using e [OF m] by simp
    moreover have "lang @ [58] @ ustr k' \<noteq> []" "hd (lang @ [58] @ ustr k') = hd lang"
      "last (lang @ [58] @ ustr k') = last (ustr k')"
      using l [of lang] m k [OF k'] by simp_all
    ultimately show "\<exists>t. m k' = Some t \<and> t \<noteq> [] \<and> \<not> is_whitespace (hd t) \<and> \<not> is_whitespace (last t)"
      using l [of lang] m k [OF k'] by auto
  qed
qed

lemma sample_copy_it:
  "sample_copy (ustr ''it'') = Some (\<lambda>k. Some (ustr ''it'' @ [58] @ ustr k))"
  by (simp add: sample_copy_def)

lemma sample_announcement_text:
  "(ustr ''it'' @ [58] @ ustr ''recording'') @ [32] @ (ustr ''it'' @ [58] @ ustr ''gate_press_key'')
     @ [32] @ (ustr ''it'' @ [58] @ ustr ''refuse_end'') =
   ustr ''it:recording it:gate_press_key it:refuse_end''"
  by code_simp

lemma sample_plan:
  "d_body (disclosure_plan sample_lower PressKey \<lparr>i_recording = True, i_transcription = False,
     i_ai_analysis = False\<rparr> True (ustr ''it-IT'')) = Some Recording"
  "d_gate (disclosure_plan sample_lower PressKey \<lparr>i_recording = True, i_transcription = False,
     i_ai_analysis = False\<rparr> True (ustr ''it-IT'')) = Some GatePressKey"
  "base_language sample_lower (base_language sample_lower (d_language (disclosure_plan sample_lower PressKey
     \<lparr>i_recording = True, i_transcription = False, i_ai_analysis = False\<rparr> True (ustr ''it-IT'')))) =
     ustr ''it''"
  by (simp_all add: disclosure_plan_def Let_def normalised_def captures_nothing_def base_language_def
      sample_lower_def ustr_def trim_def is_whitespace_def)


theorem announcement_speaks_witness:
  "\<exists>ann. announcement sample_lower sample_copy
       (disclosure_plan sample_lower PressKey \<lparr>i_recording = True, i_transcription = False, i_ai_analysis = False\<rparr>
         True (ustr ''it-IT'')) EndRefused = Some ann
     \<and> a_text ann = ustr ''it:recording it:gate_press_key it:refuse_end''"
proof -
  from announcement_speaks [OF sample_copy_complete sample_lower_laws sample_plan(1), of EndRefused]
  show ?thesis
    unfolding sample_plan
    by (elim exE conjE)
      (auto simp: sample_copy_it sample_announcement_text [unfolded append_assoc append.simps, symmetric])
qed

end
