(* ===== verification/Hours.thy ===== *)
theory Hours
  imports Vox_Prelude
begin

text \<open>
  Office hours and the keypad menu, \<^verbatim>\<open>server/src/voip/hours.rs\<close>. The time-zone database is a
  parameter: how a name parses, the zone \<open>utc\<close>, and the local weekday (Monday is 0), hour
  and minute of an instant.
\<close>

record Week =
  opens_at :: "int option list"
  closes_at :: "int option list"

definition pick :: "int list \<Rightarrow> nat \<Rightarrow> int option" where
  "pick v i = (if i < length v \<and> v ! i \<ge> 0 then Some (v ! i) else None)"

definition from_arrays :: "int list \<Rightarrow> int list \<Rightarrow> Week" where
  "from_arrays opens closes =
     \<lparr>opens_at = map (pick opens) [0..<7], closes_at = map (pick closes) [0..<7]\<rparr>"

definition week_is_empty :: "Week \<Rightarrow> bool" where
  "week_is_empty w \<longleftrightarrow> list_all (\<lambda>o'. o' = None) (opens_at w)"

definition nth_flat :: "int option list \<Rightarrow> nat \<Rightarrow> int option" where
  "nth_flat xs i = (if i < length xs then xs ! i else None)"

definition is_open ::
  "(string \<Rightarrow> 'tz option) \<Rightarrow> 'tz \<Rightarrow> ('tz \<Rightarrow> int \<Rightarrow> nat \<times> nat \<times> nat)
     \<Rightarrow> int \<Rightarrow> string \<Rightarrow> Week option \<Rightarrow> bool" where
  "is_open parse_tz utc local_fields now timezone week0 =
     (case week0 of
        None \<Rightarrow> True
      | Some week \<Rightarrow>
          if week_is_empty week then True
          else
            let tz = (case parse_tz timezone of None \<Rightarrow> utc | Some z \<Rightarrow> z);
                (index, hour, minute) = local_fields tz now;
                minutes = int (hour * 60 + minute)
            in case (nth_flat (opens_at week) index, nth_flat (closes_at week) index) of
                 (Some open_at, Some close) \<Rightarrow>
                   if close > open_at then minutes \<ge> open_at \<and> minutes < close
                   else minutes \<ge> open_at \<or> minutes < close
               | _ \<Rightarrow> False)"

record IvrOption =
  o_digit :: ustring
  o_label :: ustring

definition route_for :: "ustring \<Rightarrow> IvrOption list \<Rightarrow> IvrOption option" where
  "route_for digit options =
     (let key = trim digit
      in if key = [] then None else find (\<lambda>o'. o_digit o' = key) options)"

section \<open>Properties\<close>

lemma nth_flat_picks: "i < 7 \<Longrightarrow> nth_flat (map (pick v) [0..<7]) i = pick v i"
  by (simp add: nth_flat_def)

lemma from_arrays_empty:
  "week_is_empty (from_arrays opens closes) \<longleftrightarrow> (\<forall>i < 7. pick opens i = None)"
  by (auto simp: week_is_empty_def from_arrays_def list_all_iff)

text \<open>
  The office is open as its arrays say, in the organisation's zone (UTC when the zone
  does not parse): always when no day has an opening time; never on a day whose opening or
  closing time is missing or negative; otherwise from the opening minute, inclusive, to the
  closing minute, exclusive, or outside the gap between them when the closing time is not
  after the opening one.
\<close>

theorem is_open_iff:
  assumes "local_fields (case parse_tz timezone of None \<Rightarrow> utc | Some z \<Rightarrow> z) now = (day, h, m)"
    and "day < 7"
  shows "is_open parse_tz utc local_fields now timezone (Some (from_arrays opens closes)) \<longleftrightarrow>
     (\<forall>i < 7. pick opens i = None)
     \<or> (\<exists>a b. pick opens day = Some a \<and> pick closes day = Some b
          \<and> (if a < b then int (h * 60 + m) \<in> {a ..< b} else int (h * 60 + m) \<notin> {b ..< a}))"
proof -
  let ?w = "from_arrays opens closes"
  have o: "nth_flat (opens_at ?w) day = pick opens day" "nth_flat (closes_at ?w) day = pick closes day"
    using assms(2) by (simp_all add: from_arrays_def nth_flat_picks del: upt_Suc)
  show ?thesis
  proof (cases "week_is_empty ?w")
    case True
    then have "\<forall>i < 7. pick opens i = None" by (simp add: from_arrays_empty)
    with True show ?thesis by (simp add: is_open_def)
  next
    case False
    then have "\<not> (\<forall>i < 7. pick opens i = None)" by (simp add: from_arrays_empty)
    with False assms(1) o show ?thesis
      by (cases "pick opens day"; cases "pick closes day") (auto simp: is_open_def Let_def)
  qed
qed

text \<open>A support line, Monday 22:00 to 06:00; the zone parameter counts minutes from a Monday.\<close>

definition minute_zone :: "unit \<Rightarrow> int \<Rightarrow> nat \<times> nat \<times> nat" where
  "minute_zone z t = (nat (t div 1440 mod 7), nat (t mod 1440 div 60), nat (t mod 60))"

definition night_line :: Week where
  "night_line = from_arrays [1320, -1, -1, -1, -1, -1, -1] [360, -1, -1, -1, -1, -1, -1]"

theorem is_open_iff_witness:
  "is_open (\<lambda>_. None) () minute_zone 1380 ''Nowhere''
     (Some (from_arrays [1320, -1, -1, -1, -1, -1, -1] [360, -1, -1, -1, -1, -1, -1]))"
proof -
  have "minute_zone (case None of None \<Rightarrow> () | Some z \<Rightarrow> z) 1380 = (0, 23, 0)"
    by (simp add: minute_zone_def)
  then show ?thesis
    using is_open_iff [where local_fields = minute_zone and now = 1380 and day = 0 and h = 23
        and m = 0 and parse_tz = "\<lambda>_. None" and utc = "()" and timezone = "''Nowhere''"]
    by (simp add: pick_def)
qed

text \<open>
  A window that crosses midnight is read on the day of the instant, not on the day it
  began: with Monday 22:00 to 06:00 as the only window, Tuesday 03:00 (inside the window that
  opened on Monday night) is closed, and Monday 03:00 (when no window is open) is open.
\<close>

theorem overnight_window_misread:
  "\<not> is_open (\<lambda>_. None) () minute_zone (1440 + 180) ''UTC'' (Some night_line)
   \<and> is_open (\<lambda>_. None) () minute_zone 180 ''UTC'' (Some night_line)"
  by (simp add: is_open_def night_line_def from_arrays_def week_is_empty_def pick_def nth_flat_def
      minute_zone_def upt_rec)

end
