(* ===== verification/Voip_Calls.thy ===== *)
theory Voip_Calls
  imports Call_State E164_Number Reservation
begin

text \<open>
  The tables that the call operations share: \<open>voip_calls\<close> (the columns that the modelled
  operations read or write, \<^verbatim>\<open>server/migrations/056_voip.sql\<close>), the provider event ledger and
  the credit holds. Rows are kept in insertion order; identifiers and instants (in
  microseconds) are numbers. An \<open>UPDATE ... WHERE id = $1\<close> is \<open>update_call\<close>.
\<close>

section \<open>Tables\<close>

record VoipCall =
  v_id :: nat
  v_session_id :: nat
  v_org_id :: nat
  v_user_id :: "nat option"
  v_legs :: "string list"
  v_recipient_e164 :: string
  v_target_language :: ustring
  v_engine_id :: string
  v_status :: string
  v_failure_reason :: "string option"
  v_started_at :: int
  v_answered_at :: "int option"
  v_ended_at :: "int option"
  v_duration_seconds :: "int option"
  v_recording_status :: string
  v_recording_started_at :: "int option"
  v_recording_url :: "string option"
  v_recording_id :: "string option"
  v_transcription_status :: string
  v_transcription_started_at :: "int option"
  v_consent_policy :: string
  v_consent_status :: string
  v_disclosure_played_at :: "int option"
  v_disclosure_language :: "ustring option"
  v_consent_received_at :: "int option"
  v_estimated_cost_usd :: "rat option"
  v_quoted_price_per_min :: "rat option"
  v_actual_provider_cost_usd :: "rat option"
  v_customer_charge_usd :: "rat option"
  v_credits_consumed :: int
  v_gross_margin :: "rat option"
  v_ai_analysis_requested :: bool

record EventRow =
  e_provider :: string
  e_event_id :: string
  e_call_id :: nat
  e_leg_id :: string
  e_event_type :: string
  e_occurred_at :: int
  e_state_before :: "string option"
  e_state_after :: "string option"

record VoipWorld =
  w_holds :: VoipDb
  w_calls :: "VoipCall list"
  w_events :: "EventRow list"

definition find_call :: "VoipCall list \<Rightarrow> nat \<Rightarrow> VoipCall option" where
  "find_call calls i = find (\<lambda>c. v_id c = i) calls"

definition update_call :: "nat \<Rightarrow> (VoipCall \<Rightarrow> VoipCall) \<Rightarrow> VoipCall list \<Rightarrow> VoipCall list" where
  "update_call i f calls = map (\<lambda>c. if v_id c = i then f c else c) calls"

definition coalesce :: "'a option \<Rightarrow> 'a option \<Rightarrow> 'a option" where
  "coalesce a b = (case a of None \<Rightarrow> b | Some _ \<Rightarrow> a)"

definition with_calls :: "(VoipCall list \<Rightarrow> VoipCall list) \<Rightarrow> VoipWorld \<Rightarrow> VoipWorld" where
  "with_calls f w = w\<lparr>w_calls := f (w_calls w)\<rparr>"

section \<open>Lemmas on the tables\<close>

lemma coalesce_simps [simp]: "coalesce None b = b" "coalesce (Some a) b = Some a"
  by (simp_all add: coalesce_def)

lemma find_call_id: "find_call calls i = Some c \<Longrightarrow> v_id c = i \<and> c \<in> set calls"
  unfolding find_call_def using find_SomeD by fastforce

lemma find_update_call:
  assumes "\<And>c. v_id (f c) = v_id c"
  shows "find_call (update_call i f calls) j =
    (if j = i then map_option f (find_call calls j) else find_call calls j)"
  by (induction calls) (auto simp: find_call_def update_call_def assms)

lemma update_call_ids:
  "(\<And>c. v_id (f c) = v_id c) \<Longrightarrow> map v_id (update_call i f calls) = map v_id calls"
  by (induction calls) (simp_all add: update_call_def)

lemma update_call_set:
  "c \<in> set (update_call i f calls) \<Longrightarrow>
     \<exists>c0 \<in> set calls. c = (if v_id c0 = i then f c0 else c0)"
  by (auto simp: update_call_def)

lemma with_calls_simps [simp]:
  "w_calls (with_calls f w) = f (w_calls w)"
  "w_holds (with_calls f w) = w_holds w"
  "w_events (with_calls f w) = w_events w"
  by (simp_all add: with_calls_def)

lemma distinct_find_call:
  "distinct (map v_id calls) \<Longrightarrow> c \<in> set calls \<Longrightarrow> find_call calls (v_id c) = Some c"
  by (induction calls) (auto simp: find_call_def image_iff)

text \<open>A stored status as the code reads it.\<close>

definition status_of :: "VoipCall \<Rightarrow> CallState" where
  "status_of c = (case callstate_parse (v_status c) of None \<Rightarrow> Created | Some s \<Rightarrow> s)"

definition live_statuses :: "string list" where
  "live_statuses = [''created'', ''dialing'', ''ringing'', ''answered'', ''bridged'', ''ending'']"

lemma live_statuses_nonterminal:
  "callstate_as_str s \<in> set live_statuses \<longleftrightarrow> \<not> is_terminal s"
  by (cases s) (simp_all add: live_statuses_def is_terminal_def)

lemma status_of_str [simp]: "v_status c = callstate_as_str s \<Longrightarrow> status_of c = s"
  by (cases s) (simp_all add: status_of_def callstate_parse_def)

end
