(* ===== verification/Disclosure_Flow.thy ===== *)
theory Disclosure_Flow
  imports Consent Voip_Calls
begin

text \<open>
  Speaking the disclosure, opening the key gate, resolving it and starting capture,
  \<^verbatim>\<open>server/src/voip/disclosure.rs\<close>. The carrier's answers to one handler are a parameter
  (\<open>carrier\<close>); the commands sent to it are the handler's second result. The settings that
  the loader joins are a function from organisation to the stored refusal action. Failures
  of the database are not modelled.
\<close>

record carrier =
  can_speak :: bool
  play_ok :: bool
  gather_ok :: bool
  record_ok :: bool

datatype CarrierCommand =
  Speak string ustring ustring
| Gather string
| StartRecording string
| Hangup string
| ArmMedia nat string

datatype Delivery =
  NothingToSay
| Announced ustring bool
| AwaitingConsent ustring bool
| NotAnnounced string

fun delivery_permits_capture :: "Delivery \<Rightarrow> bool" where
  "delivery_permits_capture NothingToSay \<longleftrightarrow> True"
| "delivery_permits_capture (Announced _ _) \<longleftrightarrow> True"
| "delivery_permits_capture _ \<longleftrightarrow> False"

section \<open>The row\<close>

record ConsentRow =
  cr_policy :: ConsentPolicy
  cr_status :: ConsentStatus
  cr_refused :: RefusedAction
  cr_language :: ustring
  cr_wants_recording :: bool
  cr_wants_transcription :: bool
  cr_disclosure_played_at :: "int option"

definition consent_status_parse :: "string \<Rightarrow> ConsentStatus" where
  "consent_status_parse raw =
     (if raw = ''pending'' then Pending
      else if raw = ''granted'' then Granted
      else if raw = ''denied'' then Denied
      else if raw = ''timeout'' then Timeout
      else NotRequired)"

definition consent_row :: "(nat \<Rightarrow> string option) \<Rightarrow> VoipCall \<Rightarrow> ConsentRow" where
  "consent_row settings c =
     \<lparr>cr_policy = consent_policy_parse (v_consent_policy c),
      cr_status = consent_status_parse (v_consent_status c),
      cr_refused = refused_parse
        (case settings (v_org_id c) of None \<Rightarrow> ''continue_unrecorded'' | Some a \<Rightarrow> a),
      cr_language = v_target_language c,
      cr_wants_recording = (v_recording_status c = ''pending''),
      cr_wants_transcription = (v_transcription_status c = ''live''),
      cr_disclosure_played_at = v_disclosure_played_at c\<rparr>"

definition load :: "(nat \<Rightarrow> string option) \<Rightarrow> VoipCall list \<Rightarrow> nat \<Rightarrow> ConsentRow option" where
  "load settings calls call = map_option (consent_row settings) (find_call calls call)"

definition row_intent :: "ConsentRow \<Rightarrow> CaptureIntent" where
  "row_intent r =
     normalised \<lparr>i_recording = cr_wants_recording r, i_transcription = cr_wants_transcription r,
                 i_ai_analysis = False\<rparr>"

definition row_plan :: "(ustring \<Rightarrow> ustring) \<Rightarrow> ConsentRow \<Rightarrow> Disclosure" where
  "row_plan lower r = disclosure_plan lower (cr_policy r) (row_intent r) True (cr_language r)"

section \<open>Speaking\<close>

definition accept_digits :: ustring where
  "accept_digits = ustr ''1''"

text \<open>The stamp, written once the carrier has accepted the announcement.\<close>

definition stamp_disclosure :: "int \<Rightarrow> ustring \<Rightarrow> VoipCall \<Rightarrow> VoipCall" where
  "stamp_disclosure now lang c =
     c\<lparr>v_disclosure_played_at := coalesce (v_disclosure_played_at c) (Some now),
       v_disclosure_language := Some lang\<rparr>"

definition deliver ::
  "(ustring \<Rightarrow> ustring) \<Rightarrow> copy_table \<Rightarrow> carrier \<Rightarrow> int \<Rightarrow> VoipCall list \<Rightarrow> nat \<Rightarrow> string
     \<Rightarrow> Disclosure \<Rightarrow> RefusedAction \<Rightarrow> Delivery \<times> VoipCall list \<times> CarrierCommand list" where
  "deliver lower copy p now calls call leg disclosure refused =
     (case announcement lower copy disclosure refused of
        None \<Rightarrow> (NothingToSay, calls, [])
      | Some ann \<Rightarrow>
          if \<not> can_speak p then (NotAnnounced ''provider_cannot_speak'', calls, [])
          else let say = Speak leg (a_text ann) (a_language ann) in
            if \<not> play_ok p then (NotAnnounced ''announcement_failed'', calls, [say])
            else let calls1 = update_call call (stamp_disclosure now (a_language ann)) calls in
              if d_gate disclosure = None
              then (Announced (a_language ann) (a_fell_back ann), calls1, [say])
              else if \<not> gather_ok p then (NotAnnounced ''gather_failed'', calls1, [say, Gather leg])
              else (AwaitingConsent (a_language ann) (a_fell_back ann), calls1, [say, Gather leg]))"

section \<open>Capture\<close>

definition stop_wanting :: "VoipCall \<Rightarrow> VoipCall" where
  "stop_wanting c =
     c\<lparr>v_recording_status :=
         (if v_recording_status c = ''pending'' then ''none'' else v_recording_status c),
       v_transcription_status :=
         (if v_transcription_status c = ''live'' then ''none'' else v_transcription_status c)\<rparr>"

definition stop_wanting_capture :: "VoipCall list \<Rightarrow> nat \<Rightarrow> VoipCall list" where
  "stop_wanting_capture calls call = update_call call stop_wanting calls"

definition record_failed :: "VoipCall \<Rightarrow> VoipCall" where
  "record_failed c = c\<lparr>v_recording_status := ''failed''\<rparr>"

definition record_started :: "int \<Rightarrow> VoipCall \<Rightarrow> VoipCall" where
  "record_started now c =
     c\<lparr>v_recording_status := ''recording'',
       v_recording_started_at := coalesce (v_recording_started_at c) (Some now)\<rparr>"

definition transcription_started :: "int \<Rightarrow> VoipCall \<Rightarrow> VoipCall" where
  "transcription_started now c =
     c\<lparr>v_transcription_started_at := coalesce (v_transcription_started_at c) (Some now)\<rparr>"

definition start_capture ::
  "carrier \<Rightarrow> int \<Rightarrow> VoipCall list \<Rightarrow> nat \<Rightarrow> string \<Rightarrow> ConsentRow
     \<Rightarrow> VoipCall list \<times> CarrierCommand list" where
  "start_capture p now calls call leg row =
     (if cr_wants_recording row \<and> cr_disclosure_played_at row = None \<and> cr_status row \<noteq> NotRequired
      then (calls, [])
      else
        let (calls1, cmds) =
              (if cr_wants_recording row
               then (update_call call (if record_ok p then record_started now else record_failed) calls,
                     [StartRecording leg])
               else (calls, []))
        in (if cr_wants_transcription row
            then update_call call (transcription_started now) calls1 else calls1, cmds))"

definition act ::
  "carrier \<Rightarrow> int \<Rightarrow> VoipCall list \<Rightarrow> nat \<Rightarrow> string \<Rightarrow> AfterConsent \<Rightarrow> ConsentRow
     \<Rightarrow> VoipCall list \<times> CarrierCommand list" where
  "act p now calls call leg action row =
     (case action of
        StartCapture \<Rightarrow> start_capture p now calls call leg row
      | ContinueWithoutCapture \<Rightarrow> (stop_wanting_capture calls call, [])
      | EndCall \<Rightarrow> (calls, [Hangup leg]))"

section \<open>The handlers\<close>

definition settle_unannounced :: "VoipCall \<Rightarrow> VoipCall" where
  "settle_unannounced c =
     (if v_consent_status c = ''pending'' then c\<lparr>v_consent_status := ''not_required''\<rparr> else c)"

definition announce_on_answer ::
  "(ustring \<Rightarrow> ustring) \<Rightarrow> copy_table \<Rightarrow> (nat \<Rightarrow> string option) \<Rightarrow> carrier \<Rightarrow> int
     \<Rightarrow> VoipCall list \<Rightarrow> nat \<Rightarrow> string \<Rightarrow> Delivery \<times> VoipCall list \<times> CarrierCommand list" where
  "announce_on_answer lower copy settings p now calls call leg =
     (case load settings calls call of
        None \<Rightarrow> (NothingToSay, calls, [])
      | Some row \<Rightarrow>
          let (delivery, calls1, cmds) =
                deliver lower copy p now calls call leg (row_plan lower row) (cr_refused row)
          in case delivery of
               NotAnnounced reason \<Rightarrow>
                 (delivery,
                  update_call call settle_unannounced (stop_wanting_capture calls1 call), cmds)
             | AwaitingConsent _ _ \<Rightarrow> (delivery, calls1, cmds)
             | _ \<Rightarrow>
                 (case load settings calls1 call of
                    None \<Rightarrow> (delivery, calls1, cmds)
                  | Some fresh \<Rightarrow>
                      let (calls2, cmds2) = start_capture p now calls1 call leg fresh
                      in (delivery, calls2, cmds @ cmds2)))"

text \<open>The guarded update of the status: only a pending row moves.\<close>

definition resolve :: "ConsentStatus \<Rightarrow> int \<Rightarrow> VoipCall \<Rightarrow> VoipCall" where
  "resolve status now c =
     (if v_consent_status c = ''pending''
      then c\<lparr>v_consent_status := consent_status_as_str status, v_consent_received_at := Some now\<rparr>
      else c)"

definition on_dtmf ::
  "(nat \<Rightarrow> string option) \<Rightarrow> carrier \<Rightarrow> int \<Rightarrow> VoipCall list \<Rightarrow> nat \<Rightarrow> string \<Rightarrow> nat
     \<Rightarrow> AfterConsent option \<times> VoipCall list \<times> CarrierCommand list" where
  "on_dtmf settings p now calls call leg digit =
     (case load settings calls call of
        None \<Rightarrow> (None, calls, [])
      | Some row \<Rightarrow>
          if cr_status row \<noteq> Pending then (None, calls, [])
          else
            let status = on_digit digit accept_digits;
                calls1 = update_call call (resolve status now) calls;
                action = after status (cr_refused row);
                (calls2, cmds) = act p now calls1 call leg action row
            in (Some action, calls2, cmds))"

text \<open>The last leg, through \<open>array_to_string(..., ',')\<close> and \<open>split(',').next_back()\<close>.\<close>

fun join_commas :: "string list \<Rightarrow> string" where
  "join_commas [] = []"
| "join_commas [s] = s"
| "join_commas (s # ss) = s @ '','' @ join_commas ss"

definition last_leg :: "string list \<Rightarrow> string option" where
  "last_leg legs =
     (let piece = rev (takeWhile (\<lambda>c. c \<noteq> CHR '','') (rev (join_commas legs)))
      in if piece = [] then None else Some piece)"

definition time_out_one ::
  "(nat \<Rightarrow> string option) \<Rightarrow> bool \<Rightarrow> carrier \<Rightarrow> int \<Rightarrow> nat \<times> string option
     \<Rightarrow> VoipCall list \<times> CarrierCommand list \<times> nat \<Rightarrow> VoipCall list \<times> CarrierCommand list \<times> nat" where
  "time_out_one settings has_config p now r st =
     (let (call, leg) = r; (calls, cmds, closed) = st in
      case load settings calls call of
        None \<Rightarrow> st
      | Some row \<Rightarrow>
          if \<not> (\<exists>c \<in> set calls. v_id c = call \<and> v_consent_status c = ''pending'') then st
          else
            let calls1 = update_call call (resolve Timeout now) calls;
                action = after Timeout (cr_refused row)
            in case leg of
                 None \<Rightarrow> (calls1, cmds, Suc closed)
               | Some l \<Rightarrow>
                   let (calls2, cmds2) = act p now calls1 call l action row;
                       arm = (if action \<noteq> EndCall \<and> has_config then [ArmMedia call l] else [])
                   in (calls2, cmds @ cmds2 @ arm, Suc closed))"

definition time_out_pending_consent ::
  "(nat \<Rightarrow> string option) \<Rightarrow> bool \<Rightarrow> (nat \<Rightarrow> carrier) \<Rightarrow> int \<Rightarrow> VoipCall list \<Rightarrow> int \<Rightarrow> nat
     \<Rightarrow> VoipCall list \<times> CarrierCommand list \<times> nat" where
  "time_out_pending_consent settings has_config ps now calls grace limit =
     (let due = filter (\<lambda>c. v_consent_status c = ''pending''
                   \<and> (case v_disclosure_played_at c of None \<Rightarrow> False | Some t \<Rightarrow> t < now - grace)
                   \<and> (v_status c = ''answered'' \<or> v_status c = ''bridged'')) calls;
          rows = map (\<lambda>c. (v_id c, last_leg (v_legs c)))
                   (take limit (sort_key (\<lambda>c. case v_disclosure_played_at c of None \<Rightarrow> 0 | Some t \<Rightarrow> t) due))
      in fold (\<lambda>r. time_out_one settings has_config (ps (fst r)) now r) rows (calls, [], 0))"

section \<open>Rows that respect the promise\<close>

lemma consent_status_roundtrip: "consent_status_parse (consent_status_as_str s) = s"
  by (cases s) (simp_all add: consent_status_parse_def)

lemma consent_pending_iff: "consent_status_parse raw = Pending \<longleftrightarrow> raw = ''pending''"
  by (simp add: consent_status_parse_def)

text \<open>
  Recorded rows were told and permitted, transcribed rows were permitted, and a policy that
  asks nobody never waits.
\<close>

definition captured_fairly :: "VoipCall \<Rightarrow> bool" where
  "captured_fairly c \<longleftrightarrow>
     (v_recording_started_at c \<noteq> None \<or> v_recording_status c = ''recording'' \<longrightarrow>
        v_disclosure_played_at c \<noteq> None \<and> permits_capture (consent_status_parse (v_consent_status c)))
     \<and> (v_transcription_started_at c \<noteq> None \<longrightarrow>
          permits_capture (consent_status_parse (v_consent_status c)))
     \<and> (consent_policy_parse (v_consent_policy c) \<in> {NoticeOnly, ConsentDisabled} \<longrightarrow>
          consent_status_parse (v_consent_status c) = NotRequired)"

definition rows_fair :: "VoipCall list \<Rightarrow> bool" where
  "rows_fair calls \<longleftrightarrow> distinct (map v_id calls) \<and> (\<forall>c \<in> set calls. captured_fairly c)"

lemma rows_fair_update:
  assumes "rows_fair calls" and "\<And>c. v_id (f c) = v_id c"
    and "\<And>c. find_call calls call = Some c \<Longrightarrow> captured_fairly c \<Longrightarrow> captured_fairly (f c)"
  shows "rows_fair (update_call call f calls)"
proof -
  have "captured_fairly c'" if "c' \<in> set (update_call call f calls)" for c'
  proof -
    from that obtain c where c: "c \<in> set calls" "c' = (if v_id c = call then f c else c)"
      using update_call_set by blast
    show ?thesis
    proof (cases "v_id c = call")
      case True
      then have "find_call calls call = Some c"
        using distinct_find_call [of calls c] c(1) assms(1) by (simp add: rows_fair_def)
      with c assms(1) True show ?thesis by (auto simp: rows_fair_def intro: assms(3))
    next
      case False
      with c assms(1) show ?thesis by (simp add: rows_fair_def)
    qed
  qed
  then show ?thesis
    using assms(1) update_call_ids [of f, OF assms(2)] by (simp add: rows_fair_def)
qed

lemmas row_changes = stamp_disclosure_def stop_wanting_def record_failed_def record_started_def
  transcription_started_def settle_unannounced_def resolve_def

lemma row_changes_id [simp]:
  "v_id (stamp_disclosure now lang c) = v_id c" "v_id (stop_wanting c) = v_id c"
  "v_id (record_failed c) = v_id c" "v_id (record_started now c) = v_id c"
  "v_id (transcription_started now c) = v_id c" "v_id (settle_unannounced c) = v_id c"
  "v_id (resolve st now c) = v_id c"
  by (simp_all add: row_changes)

lemma stamp_fair: "captured_fairly c \<Longrightarrow> captured_fairly (stamp_disclosure now lang c)"
  by (simp add: captured_fairly_def stamp_disclosure_def coalesce_def split: option.splits)

lemma stop_wanting_fair: "captured_fairly c \<Longrightarrow> captured_fairly (stop_wanting c)"
  by (simp add: captured_fairly_def stop_wanting_def)

lemma settle_unannounced_fair: "captured_fairly c \<Longrightarrow> captured_fairly (settle_unannounced c)"
  by (auto simp: captured_fairly_def settle_unannounced_def consent_status_parse_def)

lemma resolve_fair:
  assumes "captured_fairly c"
  shows "captured_fairly (resolve st now c)"
proof (cases "v_consent_status c = ''pending''")
  case True
  then have "consent_status_parse (v_consent_status c) = Pending" by (simp add: consent_pending_iff)
  with assms True show ?thesis by (auto simp: captured_fairly_def resolve_def)
next
  case False
  with assms show ?thesis by (simp add: resolve_def)
qed

lemma start_capture_fair:
  assumes fair: "rows_fair calls" and c: "find_call calls call = Some c"
    and row: "cr_wants_recording row \<Longrightarrow> cr_disclosure_played_at row \<noteq> None \<or> cr_status row = NotRequired
      \<Longrightarrow> v_disclosure_played_at c \<noteq> None"
    and ok: "cr_wants_recording row \<or> cr_wants_transcription row \<Longrightarrow>
      permits_capture (consent_status_parse (v_consent_status c))"
  shows "rows_fair (fst (start_capture p now calls call leg row))"
proof (cases "cr_wants_recording row \<and> cr_disclosure_played_at row = None \<and> cr_status row \<noteq> NotRequired")
  case True
  with fair show ?thesis by (simp add: start_capture_def)
next
  case False
  define calls1 where "calls1 = (if cr_wants_recording row
    then update_call call (if record_ok p then record_started now else record_failed) calls
    else calls)"
  have "rows_fair calls1 \<and> (\<exists>c1. find_call calls1 call = Some c1
      \<and> v_consent_status c1 = v_consent_status c)"
  proof (cases "cr_wants_recording row")
    case True
    let ?f = "if record_ok p then record_started now else record_failed"
    have f: "v_id (?f c') = v_id c'" "v_consent_status (?f c') = v_consent_status c'" for c'
      by (simp_all add: record_started_def record_failed_def)
    have "captured_fairly (?f c)" if "captured_fairly c"
      using that True False row ok
      by (auto simp: captured_fairly_def record_started_def record_failed_def)
    then have "rows_fair (update_call call ?f calls)"
      using fair c f(1) by (intro rows_fair_update) auto
    moreover have "find_call (update_call call ?f calls) call = Some (?f c)"
      using find_update_call [of ?f, OF f(1)] c by simp
    ultimately show ?thesis using True f(2) [of c] by (simp add: calls1_def)
  next
    case False
    with fair c show ?thesis by (simp add: calls1_def)
  qed
  then obtain c1 where c1: "rows_fair calls1" "find_call calls1 call = Some c1"
    "v_consent_status c1 = v_consent_status c" by blast
  have "rows_fair (update_call call (transcription_started now) calls1)"
    if "cr_wants_transcription row"
    using c1 ok that
    by (intro rows_fair_update) (auto simp: captured_fairly_def transcription_started_def)
  with False c1 show ?thesis
    by (auto simp: start_capture_def calls1_def)
qed

lemma deliver_result:
  "deliver lower copy p now calls call leg d refused = (delivery, calls', cmds) \<Longrightarrow>
     (delivery = NothingToSay \<and> d_body d = None \<and> calls' = calls)
   \<or> (\<exists>lang. calls' = update_call call (stamp_disclosure now lang) calls
        \<and> (\<exists>fb. delivery = Announced lang fb \<and> d_gate d = None
             \<or> delivery = AwaitingConsent lang fb \<and> d_gate d \<noteq> None
             \<or> delivery = NotAnnounced ''gather_failed''))
   \<or> ((\<exists>reason. delivery = NotAnnounced reason) \<and> calls' = calls)"
  by (auto simp: deliver_def announcement_def Let_def split: option.splits if_splits)

text \<open>What a plan without a gate says about the row.\<close>

lemma row_plan_body: "d_body (row_plan lower r) \<noteq> None"
  by (auto simp: row_plan_def disclosure_plan_def Let_def split: bool.splits)

lemma row_plan_gate:
  assumes "d_gate (row_plan lower r) = None" "cr_wants_recording r \<or> cr_wants_transcription r"
  shows "cr_policy r \<in> {NoticeOnly, ConsentDisabled}"
  using assms
  by (cases "cr_policy r")
    (auto simp: row_plan_def disclosure_plan_def row_intent_def normalised_def captures_nothing_def
      Let_def)

lemma load_Some: "load settings calls call = Some r \<longleftrightarrow>
    (\<exists>c. find_call calls call = Some c \<and> r = consent_row settings c)"
  by (auto simp: load_def)

lemma announce_fair:
  assumes fair: "rows_fair calls"
    and res: "announce_on_answer lower copy settings p now calls call leg = (d, calls', cmds)"
  shows "rows_fair calls'"
proof (cases "load settings calls call")
  case None
  with res fair show ?thesis by (simp add: announce_on_answer_def)
next
  case (Some row)
  then obtain c where c: "find_call calls call = Some c" "row = consent_row settings c"
    by (auto simp: load_Some)
  obtain delivery calls1 cmds1 where del: "deliver lower copy p now calls call leg
      (row_plan lower row) (cr_refused row) = (delivery, calls1, cmds1)"
    by (metis prod_cases3)
  have stamped: "rows_fair (update_call call (stamp_disclosure now lang) calls)" for lang
    using fair by (intro rows_fair_update) (auto intro: stamp_fair)
  from deliver_result [OF del] row_plan_body consider
    (told) lang fb where "calls1 = update_call call (stamp_disclosure now lang) calls"
      "delivery = Announced lang fb" "d_gate (row_plan lower row) = None"
  | (asked) lang fb where "rows_fair calls1" "delivery = AwaitingConsent lang fb"
  | (failed) reason where "rows_fair calls1" "delivery = NotAnnounced reason"
    using fair stamped by blast
  then show ?thesis
  proof cases
    case told
    let ?c = "stamp_disclosure now lang c"
    have f: "find_call calls1 call = Some ?c"
      using find_update_call [of "stamp_disclosure now lang" call calls call] c(1) told(1) by simp
    let ?fresh = "consent_row settings ?c"
    have same: "cr_wants_recording ?fresh = cr_wants_recording row"
      "cr_wants_transcription ?fresh = cr_wants_transcription row"
      by (simp_all add: c(2) consent_row_def stamp_disclosure_def)
    have "permits_capture (consent_status_parse (v_consent_status ?c))"
      if "cr_wants_recording row \<or> cr_wants_transcription row"
    proof -
      have "cr_policy row \<in> {NoticeOnly, ConsentDisabled}"
        using row_plan_gate [OF told(3) that] .
      moreover have "captured_fairly c" using fair c(1) find_call_id by (auto simp: rows_fair_def)
      ultimately show ?thesis
        by (simp add: captured_fairly_def c(2) consent_row_def stamp_disclosure_def)
    qed
    moreover have "v_disclosure_played_at ?c \<noteq> None"
      by (simp add: stamp_disclosure_def coalesce_def split: option.split)
    ultimately have "rows_fair (fst (start_capture p now calls1 call leg ?fresh))"
      using stamped f same told(1) by (intro start_capture_fair) auto
    moreover have "load settings calls1 call = Some ?fresh" using f by (simp add: load_def)
    ultimately show ?thesis
      using res Some del told(2)
      by (auto simp: announce_on_answer_def split: prod.splits)
  next
    case asked
    with res Some del show ?thesis by (simp add: announce_on_answer_def)
  next
    case failed
    have "rows_fair (stop_wanting_capture calls1 call)"
      unfolding stop_wanting_capture_def
      using failed(1) by (intro rows_fair_update) (auto intro: stop_wanting_fair)
    then have "rows_fair (update_call call settle_unannounced (stop_wanting_capture calls1 call))"
      by (intro rows_fair_update) (auto intro: settle_unannounced_fair)
    with res Some del failed(2) show ?thesis by (auto simp: announce_on_answer_def)
  qed
qed

text \<open>A pending row is resolved and the action carried out.\<close>

lemma resolve_act_fair:
  assumes fair: "rows_fair calls" and c: "find_call calls call = Some c"
    and pend: "cr_status (consent_row settings c) = Pending"
    and st: "status \<noteq> NotRequired"
  shows "rows_fair (fst (act p now (update_call call (resolve status now) calls) call leg
    (after status r) (consent_row settings c)))"
proof -
  let ?calls = "update_call call (resolve status now) calls" and ?c = "resolve status now c"
  have fair': "rows_fair ?calls"
    using fair by (intro rows_fair_update) (auto intro: resolve_fair)
  have f: "find_call ?calls call = Some ?c"
    using find_update_call [of "resolve status now" call calls call] c by simp
  have raw: "v_consent_status c = ''pending''"
    using pend by (simp add: consent_row_def consent_pending_iff)
  have status: "consent_status_parse (v_consent_status ?c) = status"
    using raw by (simp add: resolve_def consent_status_roundtrip)
  show ?thesis
  proof (cases "after status r")
    case StartCapture
    then have "permits_capture status" by (simp add: after_starts_iff)
    have "rows_fair (fst (start_capture p now ?calls call leg (consent_row settings c)))"
      using fair' f
    proof (rule start_capture_fair)
      assume "cr_disclosure_played_at (consent_row settings c) \<noteq> None
        \<or> cr_status (consent_row settings c) = NotRequired"
      then show "v_disclosure_played_at ?c \<noteq> None"
        using pend by (auto simp: consent_row_def resolve_def)
    next
      show "permits_capture (consent_status_parse (v_consent_status ?c))"
        using status \<open>permits_capture status\<close> by simp
    qed
    then show ?thesis by (simp add: StartCapture act_def)
  next
    case ContinueWithoutCapture
    have "rows_fair (stop_wanting_capture ?calls call)"
      unfolding stop_wanting_capture_def
      by (rule rows_fair_update [OF fair']) (auto intro: stop_wanting_fair)
    then show ?thesis by (simp add: ContinueWithoutCapture act_def)
  next
    case EndCall
    with fair' show ?thesis by (simp add: act_def)
  qed
qed

lemma on_dtmf_fair:
  assumes "rows_fair calls" and "on_dtmf settings p now calls call leg digit = (a, calls', cmds)"
  shows "rows_fair calls'"
proof (cases "load settings calls call")
  case None
  with assms show ?thesis by (simp add: on_dtmf_def)
next
  case (Some row)
  then obtain c where c: "find_call calls call = Some c" "row = consent_row settings c"
    by (auto simp: load_Some)
  show ?thesis
  proof (cases "cr_status row = Pending")
    case False
    with Some assms show ?thesis by (simp add: on_dtmf_def)
  next
    case True
    have "on_digit digit accept_digits \<noteq> NotRequired" by (simp add: on_digit_def)
    from resolve_act_fair [OF assms(1) c(1) _ this, of settings p now leg "cr_refused row"] True c(2)
      Some assms(2)
    show ?thesis by (auto simp: on_dtmf_def Let_def split: prod.splits)
  qed
qed

lemma time_out_one_fair:
  assumes "rows_fair (fst st)"
  shows "rows_fair (fst (time_out_one settings has_config p now r st))"
proof -
  obtain call leg where r: "r = (call, leg)" by fastforce
  obtain calls cmds closed where st: "st = (calls, cmds, closed)" by (metis prod_cases3)
  have fair: "rows_fair calls" using assms st by simp
  show ?thesis
  proof (cases "find_call calls call")
    case None
    with assms show ?thesis by (simp add: time_out_one_def r st load_def)
  next
    case (Some c)
    show ?thesis
    proof (cases "\<exists>c \<in> set calls. v_id c = call \<and> v_consent_status c = ''pending''")
      case False
      with assms Some show ?thesis by (simp add: time_out_one_def r st load_def)
    next
      case True
      then obtain c' where c': "c' \<in> set calls" "v_id c' = call" "v_consent_status c' = ''pending''"
        by blast
      then have "c' = c"
        using distinct_find_call [of calls c'] fair Some by (simp add: rows_fair_def)
      then have pend: "cr_status (consent_row settings c) = Pending"
        using c'(3) by (simp add: consent_row_def consent_pending_iff)
      let ?calls = "update_call call (resolve Timeout now) calls"
      have fair': "rows_fair ?calls"
        by (rule rows_fair_update [OF fair]) (auto intro: resolve_fair)
      show ?thesis
      proof (cases leg)
        case None
        with True Some fair' show ?thesis by (simp add: time_out_one_def r st load_def Let_def)
      next
        case (Some l)
        let ?r = "cr_refused (consent_row settings c)"
        obtain calls2 cmds2 where a: "act p now ?calls call l (after Timeout ?r)
            (consent_row settings c) = (calls2, cmds2)" by fastforce
        then have "rows_fair calls2"
          using resolve_act_fair [OF fair \<open>find_call calls call = Some c\<close> pend, of Timeout p now l ?r]
          by simp
        with True Some a \<open>find_call calls call = Some c\<close> show ?thesis
          by (simp add: time_out_one_def r st load_def Let_def)
      qed
    qed
  qed
qed

section \<open>Any sequence of events\<close>

datatype consent_event =
  AnswerEvent carrier int nat string
| DigitEvent carrier int nat string nat
| SweepEvent bool "nat \<Rightarrow> carrier" int int nat

fun consent_step ::
  "(ustring \<Rightarrow> ustring) \<Rightarrow> copy_table \<Rightarrow> (nat \<Rightarrow> string option) \<Rightarrow> VoipCall list \<Rightarrow> consent_event
     \<Rightarrow> VoipCall list" where
  "consent_step lower copy settings calls (AnswerEvent p now call leg) =
     (let (_, calls', _) = announce_on_answer lower copy settings p now calls call leg in calls')"
| "consent_step lower copy settings calls (DigitEvent p now call leg digit) =
     (let (_, calls', _) = on_dtmf settings p now calls call leg digit in calls')"
| "consent_step lower copy settings calls (SweepEvent has_config ps now grace limit) =
     fst (time_out_pending_consent settings has_config ps now calls grace limit)"

lemma time_out_fair:
  "rows_fair calls \<Longrightarrow>
     rows_fair (fst (time_out_pending_consent settings has_config ps now calls grace limit))"
proof -
  have "rows_fair (fst (fold (\<lambda>r. time_out_one settings has_config (ps (fst r)) now r) rows st))"
    if "rows_fair (fst st)" for rows and st :: "VoipCall list \<times> CarrierCommand list \<times> nat"
    using that
  proof (induction rows arbitrary: st)
    case Nil
    then show ?case by simp
  next
    case (Cons r rows)
    have "rows_fair (fst (time_out_one settings has_config (ps (fst r)) now r st))"
      using Cons.prems by (rule time_out_one_fair)
    from Cons.IH [OF this] show ?case by simp
  qed
  then show "rows_fair calls \<Longrightarrow> ?thesis"
    by (simp add: time_out_pending_consent_def Let_def)
qed

lemma consent_steps_fair:
  "rows_fair calls \<Longrightarrow> rows_fair (foldl (consent_step lower copy settings) calls es)"
proof (induction es arbitrary: calls)
  case Nil
  then show ?case by simp
next
  case (Cons e es)
  have "rows_fair (consent_step lower copy settings calls e)"
    using Cons.prems
    by (cases e) (auto intro: announce_fair on_dtmf_fair time_out_fair split: prod.splits)
  with Cons.IH show ?case by simp
qed

text \<open>
  C2: Nobody is recorded before being told, and nothing is captured without permission:
  starting from rows that have captured nothing, after any sequence of answers, key presses
  and timeouts, with any behaviour of the carrier, a call that is or was recorded has its
  disclosure stamped, and a call that is recorded or transcribed has a status that permits
  it.
\<close>

theorem told_before_recorded:
  assumes "rows_fair calls"
    and "find_call (foldl (consent_step lower copy settings) calls es) call = Some c"
  shows "(v_recording_status c \<noteq> ''recording'' \<and> v_recording_started_at c = None
      \<or> v_disclosure_played_at c \<noteq> None)
    \<and> (v_recording_status c \<noteq> ''recording'' \<and> v_transcription_started_at c = None
      \<or> permits_capture (consent_status_parse (v_consent_status c)))"
proof -
  have "captured_fairly c"
    using consent_steps_fair [OF assms(1), of lower copy settings es] find_call_id [OF assms(2)]
    by (simp add: rows_fair_def)
  then show ?thesis by (auto simp: captured_fairly_def)
qed

text \<open>A call that waits for a key: announced at instant 5, or not yet.\<close>

definition sample_call :: "int option \<Rightarrow> string \<Rightarrow> string \<Rightarrow> VoipCall" where
  "sample_call played recst transc =
     \<lparr>v_id = 7, v_session_id = 70, v_org_id = 1, v_user_id = Some 3, v_legs = [''leg''],
      v_recipient_e164 = ''+393201234567'', v_target_language = ustr ''it'',
      v_engine_id = ''e'', v_status = ''answered'', v_failure_reason = None, v_started_at = 0,
      v_answered_at = Some 4, v_ended_at = None, v_duration_seconds = None,
      v_recording_status = recst, v_recording_started_at = None, v_recording_url = None,
      v_recording_id = None, v_transcription_status = transc, v_transcription_started_at = None,
      v_consent_policy = ''press_key'', v_consent_status = ''pending'',
      v_disclosure_played_at = played, v_disclosure_language = None,
      v_consent_received_at = None, v_estimated_cost_usd = None,
      v_quoted_price_per_min = Some (26 / 100), v_actual_provider_cost_usd = None,
      v_customer_charge_usd = None, v_credits_consumed = 0, v_gross_margin = None,
      v_ai_analysis_requested = False\<rparr>"

definition sample_carrier :: carrier where
  "sample_carrier = \<lparr>can_speak = True, play_ok = True, gather_ok = True, record_ok = True\<rparr>"

lemma sample_fair: "rows_fair [sample_call (Some 5) ''pending'' ''live'']"
  by (simp add: rows_fair_def captured_fairly_def sample_call_def consent_policy_parse_def)

theorem told_before_recorded_witness:
  "\<exists>c. find_call (foldl (consent_step sample_lower sample_copy (\<lambda>_. None))
       [sample_call (Some 5) ''pending'' ''live''] [DigitEvent sample_carrier 9 7 ''leg'' 49]) 7 = Some c
     \<and> v_recording_status c = ''recording'' \<and> v_disclosure_played_at c \<noteq> None"
proof -
  have "case find_call (foldl (consent_step sample_lower sample_copy (\<lambda>_. None))
       [sample_call (Some 5) ''pending'' ''live''] [DigitEvent sample_carrier 9 7 ''leg'' 49]) 7 of
     Some c \<Rightarrow> v_recording_status c = ''recording'' | None \<Rightarrow> False"
    by (simp add: sample_call_def sample_carrier_def on_dtmf_def load_def find_call_def
        consent_row_def consent_status_parse_def on_digit_def accept_digits_def ustr_def
        act_def start_capture_def update_call_def resolve_def record_started_def
        transcription_started_def Let_def)
  then obtain c where c: "find_call (foldl (consent_step sample_lower sample_copy (\<lambda>_. None))
       [sample_call (Some 5) ''pending'' ''live''] [DigitEvent sample_carrier 9 7 ''leg'' 49]) 7 = Some c"
    "v_recording_status c = ''recording''"
    by (auto split: option.splits)
  with told_before_recorded [OF sample_fair c(1)] show ?thesis by auto
qed

lemma find_row_change [simp]:
  "find_call (update_call call (record_started now) cs) call = map_option (record_started now) (find_call cs call)"
  "find_call (update_call call record_failed cs) call = map_option record_failed (find_call cs call)"
  "find_call (update_call call (transcription_started now) cs) call =
     map_option (transcription_started now) (find_call cs call)"
  "find_call (update_call call stop_wanting cs) call = map_option stop_wanting (find_call cs call)"
  by (simp_all add: find_update_call)

lemma row_change_status [simp]:
  "v_consent_status (record_started now c) = v_consent_status c"
  "v_consent_status (record_failed c) = v_consent_status c"
  "v_consent_status (transcription_started now c) = v_consent_status c"
  "v_consent_status (stop_wanting c) = v_consent_status c"
  by (simp_all add: row_changes)

lemma act_keeps_status:
  "find_call cs call = Some c \<Longrightarrow>
     \<exists>c'. find_call (fst (act p now cs call leg a row)) call = Some c'
       \<and> v_consent_status c' = v_consent_status c"
  by (cases a) (auto simp: act_def start_capture_def stop_wanting_capture_def Let_def)

text \<open>
  A gate is resolved once: once a digit has resolved it, no later digit has any effect
  on the row or sends any command, so a redelivered or a second key press cannot turn a
  denial into a grant.
\<close>

theorem digit_resolves_once:
  assumes "on_dtmf settings p now calls call leg digit = (Some a, calls', cmds)"
  shows "on_dtmf settings p' now' calls' call leg' digit' = (None, calls', [])
     \<and> (a = StartCapture \<longleftrightarrow> digit = 49)"
proof -
  from assms obtain c where c: "find_call calls call = Some c"
    and pend: "cr_status (consent_row settings c) = Pending"
    by (auto simp: on_dtmf_def load_def split: option.splits if_splits)
  let ?st = "on_digit digit accept_digits"
  let ?calls = "update_call call (resolve ?st now) calls"
  have a: "a = after ?st (cr_refused (consent_row settings c))"
    and calls': "calls' = fst (act p now ?calls call leg a (consent_row settings c))"
    using assms c pend by (auto simp: on_dtmf_def load_def Let_def split: prod.splits)
  have raw: "v_consent_status c = ''pending''"
    using pend by (simp add: consent_row_def consent_pending_iff)
  have "find_call ?calls call = Some (resolve ?st now c)"
    using find_update_call [of "resolve ?st now" call calls call] c by simp
  moreover have "v_consent_status (resolve ?st now c) \<noteq> ''pending''"
    using raw by (simp add: resolve_def on_digit_def)
  ultimately obtain c' where "find_call calls' call = Some c'" "v_consent_status c' \<noteq> ''pending''"
    using act_keeps_status [of ?calls call _ p now leg a "consent_row settings c"] calls' by metis
  then show ?thesis
    using a by (cases "cr_refused (consent_row settings c)")
      (auto simp: on_dtmf_def load_def consent_row_def consent_pending_iff on_digit_def
        accept_digits_def ustr_def)
qed

theorem digit_resolves_once_witness:
  "\<exists>calls'. on_dtmf (\<lambda>_. None) sample_carrier 9 [sample_call (Some 5) ''pending'' ''live''] 7 ''leg'' 50
       = (Some ContinueWithoutCapture, calls', [])
     \<and> on_dtmf (\<lambda>_. None) sample_carrier 10 calls' 7 ''leg'' 49 = (None, calls', [])"
proof -
  have "\<exists>calls'. on_dtmf (\<lambda>_. None) sample_carrier 9 [sample_call (Some 5) ''pending'' ''live''] 7 ''leg'' 50
       = (Some ContinueWithoutCapture, calls', [])"
    by (simp add: sample_call_def sample_carrier_def on_dtmf_def load_def find_call_def
        consent_row_def consent_status_parse_def on_digit_def accept_digits_def ustr_def
        refused_parse_def act_def stop_wanting_capture_def Let_def)
  then obtain calls' where r: "on_dtmf (\<lambda>_. None) sample_carrier 9
       [sample_call (Some 5) ''pending'' ''live''] 7 ''leg'' 50
       = (Some ContinueWithoutCapture, calls', [])" by blast
  from digit_resolves_once [OF r] r show ?thesis by blast
qed

text \<open>
  The last check before capture covers recording only: on a call that wants a
  transcript and no recording, the accepting key pressed before the announcement was made
  starts the transcription with no disclosure on the row.
\<close>

theorem transcription_before_disclosure:
  "case on_dtmf (\<lambda>_. None) sample_carrier 9 [sample_call None ''none'' ''live''] 7 ''leg'' 49 of
     (a, calls', cmds) \<Rightarrow> a = Some StartCapture
       \<and> (\<exists>c \<in> set calls'. v_transcription_started_at c = Some 9 \<and> v_disclosure_played_at c = None)"
  by (simp add: sample_call_def sample_carrier_def on_dtmf_def load_def find_call_def
      consent_row_def consent_status_parse_def on_digit_def accept_digits_def ustr_def
      act_def start_capture_def update_call_def resolve_def record_started_def
      transcription_started_def Let_def)

end
