(* ===== verification/Dial_Service.thy ===== *)
theory Dial_Service
  imports Dial_Policy Consent Voip_Calls
begin

text \<open>
  Placing a call, \<^verbatim>\<open>server/src/voip/service.rs\<close>: the organisation's settings, the snapshot the
  policy runs against, the quote, admission under the advisory lock, the hold, the dial, and
  the clean-up of a refused one. Configured floating point values are of a type \<open>'f\<close> with its
  conversion a parameter, as in \<open>Pricing\<close>. The room manager and the carrier are the
  parameters of \<open>dial\<close>: the session that the phone peer got, what other transactions did
  while the carrier was dialling, and the carrier's answer.
\<close>

section \<open>Errors and settings\<close>

datatype VoipError =
  BadNumber E164Error | Refused FailureReason | Misconfigured string | Storage

fun voip_error_code :: "VoipError \<Rightarrow> string" where
  "voip_error_code (BadNumber e) = e164_error_code e"
| "voip_error_code (Refused r) = failure_as_str r"
| "voip_error_code (Misconfigured _) = ''voip_misconfigured''"
| "voip_error_code Storage = ''storage_error''"

record OrgSettingsRow =
  os_enabled :: bool
  os_allowed_countries :: "string list"
  os_blocked_countries :: "string list"
  os_allow_international :: bool
  os_home_country :: "string option"
  os_consent_policy :: string
  os_consent_refused_action :: string
  os_recording_enabled :: bool
  os_transcription_enabled :: bool
  os_ai_analysis_enabled :: bool
  os_max_call_minutes :: int
  os_max_concurrent_per_user :: int
  os_max_concurrent_per_org :: int
  os_monthly_spend_limit_credits :: "int option"

record OrgSettings =
  s_policy :: OrgPolicy
  s_home_country :: "string option"
  s_consent_policy :: ConsentPolicy
  s_consent_refused_action :: RefusedAction
  s_recording_enabled :: bool
  s_transcription_enabled :: bool
  s_ai_analysis_enabled :: bool
  s_max_call_minutes :: int

definition default_for_new_org :: OrgSettings where
  "default_for_new_org =
     \<lparr>s_policy = org_policy_default\<lparr>enabled := True\<rparr>, s_home_country = None,
      s_consent_policy = PressKey, s_consent_refused_action = ContinueUnrecorded,
      s_recording_enabled = False, s_transcription_enabled = False,
      s_ai_analysis_enabled = False, s_max_call_minutes = 60\<rparr>"

definition load_org_settings :: "(nat \<Rightarrow> OrgSettingsRow option) \<Rightarrow> nat \<Rightarrow> OrgSettings" where
  "load_org_settings rows org =
     (case rows org of
        None \<Rightarrow> default_for_new_org
      | Some r \<Rightarrow>
          \<lparr>s_policy = \<lparr>enabled = os_enabled r, allowed_countries = os_allowed_countries r,
             blocked_countries = os_blocked_countries r,
             allow_international = os_allow_international r,
             max_concurrent_per_user = os_max_concurrent_per_user r,
             max_concurrent_per_org = os_max_concurrent_per_org r,
             monthly_spend_limit_credits = os_monthly_spend_limit_credits r\<rparr>,
           s_home_country = os_home_country r,
           s_consent_policy = consent_policy_parse (os_consent_policy r),
           s_consent_refused_action = refused_parse (os_consent_refused_action r),
           s_recording_enabled = os_recording_enabled r,
           s_transcription_enabled = os_transcription_enabled r,
           s_ai_analysis_enabled = os_ai_analysis_enabled r,
           s_max_call_minutes = os_max_call_minutes r\<rparr>)"

record 'f VoipConfig =
  vc_provider :: string
  vc_rollout_stage :: string
  vc_require_eu_processing :: bool
  vc_min_gross_margin :: 'f
  vc_cost_safety_buffer :: 'f
  vc_max_destination_rate :: 'f
  vc_daily_provider_spend_limit :: 'f
  vc_max_call_minutes :: int
  vc_max_concurrent_global :: int
  vc_allow_international :: bool
  vc_allowed_countries :: "string list"
  vc_blocked_countries :: "string list"
  vc_china_enabled :: bool
  vc_china_require_validated_route :: bool
  vc_recording_enabled :: bool
  vc_transcription_enabled :: bool
  vc_recording_cost_per_minute :: 'f
  vc_storage_cost_per_minute :: 'f
  vc_media_streaming_cost_per_minute :: 'f
  vc_rate_max_age_secs :: int

text \<open>The decimal operations together with the conversion of a configured value.\<close>

record 'f money_env =
  me_ops :: decimal_ops
  me_from_f64 :: "'f \<Rightarrow> rat option"

definition cfg_usd :: "'f money_env \<Rightarrow> 'f \<Rightarrow> usd" where
  "cfg_usd M v = usd_from_config (me_ops M) (me_from_f64 M) v"

definition global_policy :: "'f money_env \<Rightarrow> 'f VoipConfig \<Rightarrow> GlobalPolicy" where
  "global_policy M cfg =
     \<lparr>rollout_stage = rollout_parse (vc_rollout_stage cfg),
      require_eu_processing = vc_require_eu_processing cfg,
      max_destination_rate = cfg_usd M (vc_max_destination_rate cfg),
      daily_provider_spend_limit = cfg_usd M (vc_daily_provider_spend_limit cfg),
      max_concurrent_global = vc_max_concurrent_global cfg,
      g_allow_international = vc_allow_international cfg,
      g_allowed_countries = vc_allowed_countries cfg,
      g_blocked_countries = vc_blocked_countries cfg,
      china_enabled = vc_china_enabled cfg,
      china_require_validated_route = vc_china_require_validated_route cfg\<rparr>"

section \<open>The snapshot\<close>

text \<open>\<open>LIVE_COUNTS_SQL\<close>, with the \<open>as i32\<close> casts.\<close>

definition is_live :: "VoipCall \<Rightarrow> bool" where
  "is_live c \<longleftrightarrow> v_status c \<in> set live_statuses"

definition live_counts :: "VoipCall list \<Rightarrow> nat \<Rightarrow> nat \<Rightarrow> int \<times> int \<times> int" where
  "live_counts calls org user =
     (let live = filter is_live calls
      in (wrap_i32 (int (length (filter (\<lambda>c. v_user_id c = Some user) live))),
          wrap_i32 (int (length (filter (\<lambda>c. v_org_id c = org) live))),
          wrap_i32 (int (length live))))"

text \<open>\<open>day\<close> is \<open>date_trunc('day', now())\<close>.\<close>

definition daily_spend :: "VoipCall list \<Rightarrow> int \<Rightarrow> usd" where
  "daily_spend calls day =
     sum_list (map (\<lambda>c. case coalesce (v_actual_provider_cost_usd c) (v_estimated_cost_usd c) of
                          None \<Rightarrow> 0 | Some x \<Rightarrow> x)
                 (filter (\<lambda>c. v_started_at c \<ge> day) calls))"

text \<open>Longest matching prefix of the provider's rates; a stale one is none. Microseconds.\<close>

definition lookup_rate ::
  "(string \<times> Rate) list \<Rightarrow> string \<Rightarrow> E164 \<Rightarrow> int \<Rightarrow> int \<Rightarrow> Rate option" where
  "lookup_rate deck provider dest now max_age_secs =
     (let matching = filter (\<lambda>r. starts_with (e164_digits dest) (rate_prefix r))
                       (map snd (filter (\<lambda>(p, _). p = provider) deck))
      in case sort_key (\<lambda>r. - int (length (rate_prefix r))) matching of
           [] \<Rightarrow> None
         | r # _ \<Rightarrow>
             if now - fetched_at r > max max_age_secs 1 * 1000000 then None else Some r)"

record RouteValidation =
  rv_provider :: string
  rv_country :: string
  rv_valid :: bool
  rv_tested_from_country :: string
  rv_expires_at :: "int option"

definition route_validated :: "RouteValidation list \<Rightarrow> string \<Rightarrow> E164 \<Rightarrow> int \<Rightarrow> bool" where
  "route_validated rows provider dest now \<longleftrightarrow>
     list_ex (\<lambda>v. rv_provider v = provider \<and> rv_country v = region_of dest \<and> rv_valid v
        \<and> rv_tested_from_country v = rv_country v
        \<and> (case rv_expires_at v of None \<Rightarrow> True | Some e \<Rightarrow> e > now)) rows"

record 'f EngineMeta =
  em_id :: string
  em_cost_per_minute :: 'f

definition provider_cost ::
  "'f money_env \<Rightarrow> 'f VoipConfig \<Rightarrow> Rate \<Rightarrow> 'f EngineMeta \<Rightarrow> bool \<Rightarrow> ProviderCost" where
  "provider_cost M cfg rate engine rec_on =
     \<lparr>telephony = cost_per_minute rate,
      translation = cfg_usd M (em_cost_per_minute engine) * 2,
      media_streaming = cfg_usd M (vc_media_streaming_cost_per_minute cfg),
      recording = (if rec_on then cfg_usd M (vc_recording_cost_per_minute cfg) else 0),
      storage = (if rec_on then cfg_usd M (vc_storage_cost_per_minute cfg) else 0),
      ancillary = 0\<rparr>"

record DialWorld =
  dw_org :: OrgSettings
  dw_global :: GlobalPolicy
  dw_rate :: "Rate option"
  dw_route_validated :: bool
  dw_live_user :: int
  dw_live_org :: int
  dw_live_global :: int
  dw_daily_spend :: usd

definition load_world ::
  "'f money_env \<Rightarrow> 'f VoipConfig \<Rightarrow> (nat \<Rightarrow> OrgSettingsRow option) \<Rightarrow> (string \<times> Rate) list
     \<Rightarrow> RouteValidation list \<Rightarrow> VoipCall list \<Rightarrow> int \<Rightarrow> int \<Rightarrow> nat \<Rightarrow> nat \<Rightarrow> E164 \<Rightarrow> DialWorld" where
  "load_world M cfg settings deck routes calls day now org user dest =
     (let (live_user, live_org, live_global) = live_counts calls org user
      in \<lparr>dw_org = load_org_settings settings org, dw_global = global_policy M cfg,
          dw_rate = lookup_rate deck (vc_provider cfg) dest now (vc_rate_max_age_secs cfg),
          dw_route_validated = route_validated routes (vc_provider cfg) dest now,
          dw_live_user = live_user, dw_live_org = live_org, dw_live_global = live_global,
          dw_daily_spend = daily_spend calls day\<rparr>)"

definition dial_context :: "E164 \<Rightarrow> DialWorld \<Rightarrow> bool \<Rightarrow> bool \<Rightarrow> bool \<Rightarrow> bool \<Rightarrow> DialContext" where
  "dial_context dest world active listed eu_tier eu_telephony =
     \<lparr>c_destination = dest, c_org = s_policy (dw_org world), c_global = dw_global world,
      subscription_active = active, org_in_rollout_list = listed,
      tier_supports_eu_only = eu_tier, provider_eu_telephony = eu_telephony,
      c_rate = dw_rate world, c_route_validated = dw_route_validated world,
      live_calls_user = dw_live_user world, live_calls_org = dw_live_org world,
      live_calls_global = dw_live_global world, daily_spend_usd = dw_daily_spend world,
      org_country = s_home_country (dw_org world)\<rparr>"

section \<open>The quote\<close>

record DialOptions =
  do_target_language :: ustring
  do_engine_id :: string
  do_record :: bool
  do_transcribe :: bool
  do_ai_analysis :: bool

definition capture_intent :: "'f VoipConfig \<Rightarrow> OrgSettings \<Rightarrow> DialOptions \<Rightarrow> CaptureIntent" where
  "capture_intent cfg org opts =
     normalised
       \<lparr>i_recording = do_record opts \<and> s_recording_enabled org \<and> vc_recording_enabled cfg,
        i_transcription =
          do_transcribe opts \<and> s_transcription_enabled org \<and> vc_transcription_enabled cfg,
        i_ai_analysis = do_ai_analysis opts \<and> s_ai_analysis_enabled org\<rparr>"

definition cfg_margin :: "'f money_env \<Rightarrow> 'f VoipConfig \<Rightarrow> PricingError + MarginPolicy" where
  "cfg_margin M cfg =
     margin_policy_new (cfg_usd M (vc_min_gross_margin cfg)) (cfg_usd M (vc_cost_safety_buffer cfg))"

definition build_quote ::
  "'f money_env \<Rightarrow> 'f VoipConfig \<Rightarrow> DialWorld \<Rightarrow> 'f EngineMeta \<Rightarrow> CaptureIntent \<Rightarrow> int
     \<Rightarrow> VoipError + Quote" where
  "build_quote M cfg world engine intent estimated_minutes =
     (case dw_rate world of
        None \<Rightarrow> Inl (Refused RateUnavailable)
      | Some rate \<Rightarrow>
          (case cfg_margin M cfg of
             Inl _ \<Rightarrow> Inl (Misconfigured ''VOIP_MIN_GROSS_MARGIN / VOIP_COST_SAFETY_BUFFER'')
           | Inr margin \<Rightarrow>
               (case quote (me_ops M) margin (provider_cost M cfg rate engine (i_recording intent))
                       estimated_minutes of
                  Inl _ \<Rightarrow> Inl (Misconfigured ''VOIP pricing configuration'')
                | Inr q \<Rightarrow> Inr q)))"

definition check_and_quote ::
  "'f money_env \<Rightarrow> 'f VoipConfig \<Rightarrow> DialWorld \<Rightarrow> E164 \<Rightarrow> 'f EngineMeta \<Rightarrow> CaptureIntent
     \<Rightarrow> bool \<Rightarrow> bool \<Rightarrow> bool \<Rightarrow> bool \<Rightarrow> int \<Rightarrow> VoipError + Quote" where
  "check_and_quote M cfg world dest engine intent active listed eu_tier eu_telephony minutes =
     (case check (dial_context dest world active listed eu_tier eu_telephony) of
        Inl reason \<Rightarrow> Inl (Refused reason)
      | Inr _ \<Rightarrow> build_quote M cfg world engine intent minutes)"

definition hold_minutes :: "int \<Rightarrow> OrgSettings \<Rightarrow> 'f VoipConfig \<Rightarrow> int" where
  "hold_minutes requested org cfg =
     min (min (max requested 1) (max (s_max_call_minutes org) 1)) (max (vc_max_call_minutes cfg) 1)"

section \<open>Repricing after a fallback\<close>

record FallbackReprice =
  fr_old_price_per_minute :: usd
  fr_new_price_per_minute :: usd
  fr_applied :: bool

definition reprice_guard :: "nat \<Rightarrow> string \<Rightarrow> usd \<Rightarrow> VoipCall \<Rightarrow> bool" where
  "reprice_guard call requested new_price c \<longleftrightarrow>
     v_id c = call \<and> v_engine_id c = requested
     \<and> v_status c \<notin> {''completed'', ''failed''}
     \<and> (case v_quoted_price_per_min c of None \<Rightarrow> False | Some p \<Rightarrow> p \<ge> new_price)"

text \<open>What the fallback engine costs on this call, if everything needed can be read.\<close>

definition fallback_price ::
  "'f money_env \<Rightarrow> 'f VoipConfig \<Rightarrow> (string \<times> Rate) list \<Rightarrow> int \<Rightarrow> 'f EngineMeta \<Rightarrow> VoipCall
     \<Rightarrow> usd option" where
  "fallback_price M cfg deck now engine c =
     (case e164_parse (ustr (v_recipient_e164 c)) of
        Inl _ \<Rightarrow> None
      | Inr dest \<Rightarrow>
          (case lookup_rate deck (vc_provider cfg) dest now (vc_rate_max_age_secs cfg) of
             None \<Rightarrow> None
           | Some rate \<Rightarrow>
               (case cfg_margin M cfg of
                  Inl _ \<Rightarrow> None
                | Inr margin \<Rightarrow>
                    let rec_on = (v_recording_status c \<noteq> ''none'');
                        cost = provider_cost M cfg rate engine rec_on
                    in case price_per_minute_for (me_ops M) margin
                              (provider_cost_total (me_ops M) cost) of
                         Inl _ \<Rightarrow> None
                       | Inr new_price \<Rightarrow> Some new_price)))"

definition reprice_after_fallback ::
  "'f money_env \<Rightarrow> 'f VoipConfig \<Rightarrow> (string \<times> Rate) list \<Rightarrow> int \<Rightarrow> VoipCall list \<Rightarrow> nat \<Rightarrow> string
     \<Rightarrow> 'f EngineMeta \<Rightarrow> FallbackReprice option \<times> VoipCall list" where
  "reprice_after_fallback M cfg deck now calls call requested engine =
     (case find_call calls call of
        None \<Rightarrow> (None, calls)
      | Some c \<Rightarrow>
          let old_price = (case v_quoted_price_per_min c of None \<Rightarrow> 0 | Some p \<Rightarrow> p)
          in case fallback_price M cfg deck now engine c of
               None \<Rightarrow> (None, calls)
             | Some new_price \<Rightarrow>
                 if new_price > old_price
                 then (Some \<lparr>fr_old_price_per_minute = old_price,
                             fr_new_price_per_minute = new_price, fr_applied = False\<rparr>, calls)
                 else
                   (Some \<lparr>fr_old_price_per_minute = old_price,
                          fr_new_price_per_minute = new_price,
                          fr_applied = (\<exists>c \<in> set calls. reprice_guard call requested new_price c)\<rparr>,
                    map (\<lambda>c. if reprice_guard call requested new_price c
                             then c\<lparr>v_engine_id := em_id engine,
                                    v_quoted_price_per_min := Some new_price\<rparr>
                             else c) calls))"

section \<open>Dialling\<close>

record DialState =
  ds_world :: VoipWorld
  ds_peers :: "nat list"
  ds_parked :: "nat list"

record CallCreated =
  cc_call_id :: nat
  cc_session_id :: nat
  cc_status :: CallState
  cc_reserved_credits :: int
  cc_price_per_minute :: usd

definition on_calls :: "(VoipCall list \<Rightarrow> VoipCall list) \<Rightarrow> DialState \<Rightarrow> DialState" where
  "on_calls f st = st\<lparr>ds_world := with_calls f (ds_world st)\<rparr>"

definition set_holds :: "VoipDb \<Rightarrow> DialState \<Rightarrow> DialState" where
  "set_holds h st = st\<lparr>ds_world := (ds_world st)\<lparr>w_holds := h\<rparr>\<rparr>"

text \<open>The guard's drop: the telephone leaves the room.\<close>

definition drop_peer :: "nat \<Rightarrow> DialState \<Rightarrow> DialState" where
  "drop_peer session st = st\<lparr>ds_peers := remove1 session (ds_peers st)\<rparr>"

definition fail_row :: "FailureReason \<Rightarrow> int \<Rightarrow> VoipCall \<Rightarrow> VoipCall" where
  "fail_row reason now c =
     c\<lparr>v_status := ''failed'',
       v_failure_reason := coalesce (v_failure_reason c) (Some (failure_as_str reason)),
       v_ended_at := coalesce (v_ended_at c) (Some now)\<rparr>"

definition fail_call :: "nat \<Rightarrow> FailureReason \<Rightarrow> int \<Rightarrow> DialState \<Rightarrow> DialState" where
  "fail_call call reason now = on_calls (update_call call (fail_row reason now))"

record DialInput =
  di_org :: nat
  di_user :: nat
  di_dest :: E164
  di_opts :: DialOptions
  di_world :: DialWorld
  di_quote :: Quote
  di_intent :: CaptureIntent

text \<open>The row that admission inserts.\<close>

definition created_call ::
  "(ustring \<Rightarrow> ustring) \<Rightarrow> decimal_ops \<Rightarrow> DialInput \<Rightarrow> nat \<Rightarrow> nat \<Rightarrow> int \<Rightarrow> VoipCall" where
  "created_call lower D i new_call session now =
     (let disclosure = disclosure_plan lower (s_consent_policy (dw_org (di_world i))) (di_intent i)
            True (do_target_language (di_opts i))
      in \<lparr>v_id = new_call, v_session_id = session, v_org_id = di_org i,
          v_user_id = Some (di_user i), v_legs = [], v_recipient_e164 = e164_as_str (di_dest i),
          v_target_language = do_target_language (di_opts i),
          v_engine_id = do_engine_id (di_opts i), v_status = ''created'',
          v_failure_reason = None, v_started_at = now, v_answered_at = None,
          v_ended_at = None, v_duration_seconds = None,
          v_recording_status = (if i_recording (di_intent i) then ''pending'' else ''none''),
          v_recording_started_at = None, v_recording_url = None, v_recording_id = None,
          v_transcription_status = (if i_transcription (di_intent i) then ''live'' else ''none''),
          v_transcription_started_at = None,
          v_consent_policy = consent_policy_as_str (s_consent_policy (dw_org (di_world i))),
          v_consent_status = consent_status_as_str (d_initial_status disclosure),
          v_disclosure_played_at = None, v_disclosure_language = None,
          v_consent_received_at = None,
          v_estimated_cost_usd = Some (provider_cost_total D (q_cost (di_quote i))
             * of_int (q_estimated_minutes (di_quote i))),
          v_quoted_price_per_min = Some (q_price_per_minute (di_quote i)),
          v_actual_provider_cost_usd = None, v_customer_charge_usd = None,
          v_credits_consumed = 0, v_gross_margin = None,
          v_ai_analysis_requested = i_ai_analysis (di_intent i)\<rparr>)"

definition over_caps :: "DialInput \<Rightarrow> VoipCall list \<Rightarrow> bool" where
  "over_caps i calls \<longleftrightarrow>
     (let (u, o', g) = live_counts calls (di_org i) (di_user i)
      in u \<ge> max_concurrent_per_user (s_policy (dw_org (di_world i)))
         \<or> o' \<ge> max_concurrent_per_org (s_policy (dw_org (di_world i)))
         \<or> g \<ge> max_concurrent_global (dw_global (di_world i)))"

definition dialing_row :: "string \<Rightarrow> VoipCall \<Rightarrow> VoipCall" where
  "dialing_row leg c = c\<lparr>v_status := ''dialing'', v_legs := v_legs c @ [leg]\<rparr>"

text \<open>The carrier's answer: the row moves, or everything is given back.\<close>

definition carrier_answered ::
  "DialInput \<Rightarrow> nat \<Rightarrow> nat \<Rightarrow> int \<Rightarrow> FailureReason + string \<Rightarrow> DialState
     \<Rightarrow> (VoipError + CallCreated) \<times> DialState" where
  "carrier_answered i session call now answer st =
     (case answer of
        Inr leg \<Rightarrow>
          (Inr \<lparr>cc_call_id = call, cc_session_id = session, cc_status = Dialing,
                cc_reserved_credits = q_reserve_credits (di_quote i),
                cc_price_per_minute = q_price_per_minute (di_quote i)\<rparr>,
           on_calls (update_call call (dialing_row leg)) st)
      | Inl reason \<Rightarrow>
          (case release (w_holds (ds_world st)) call session now of
             Inl _ \<Rightarrow> (Inl Storage, drop_peer session (fail_call call reason now st))
           | Inr (_, h) \<Rightarrow>
               (Inl (Refused reason),
                drop_peer session
                  ((set_holds h (fail_call call reason now st))
                     \<lparr>ds_parked := remove1 call (ds_parked st)\<rparr>))))"

definition park_peer :: "nat \<Rightarrow> DialState \<Rightarrow> DialState" where
  "park_peer call st = st\<lparr>ds_parked := call # ds_parked st\<rparr>"

definition hold_and_dial ::
  "DialInput \<Rightarrow> nat \<Rightarrow> nat \<Rightarrow> nat \<Rightarrow> int \<Rightarrow> (DialState \<Rightarrow> DialState) \<Rightarrow> FailureReason + string
     \<Rightarrow> DialState \<Rightarrow> (VoipError + CallCreated) \<times> DialState" where
  "hold_and_dial i session call hold now during answer st =
     (case reserve (w_holds (ds_world st)) (di_org i) call session (Some (di_user i))
             (q_reserve_credits (di_quote i)) hold of
        Inl _ \<Rightarrow> (Inl Storage, drop_peer session st)
      | Inr (HoldInsufficient _ _, h) \<Rightarrow>
          (Inl (Refused InsufficientCredits),
           drop_peer session (fail_call call InsufficientCredits now (set_holds h st)))
      | Inr (Held _, h) \<Rightarrow>
          carrier_answered i session call now answer (during (park_peer call (set_holds h st))))"

definition add_peer :: "nat \<Rightarrow> DialState \<Rightarrow> DialState" where
  "add_peer session st = st\<lparr>ds_peers := session # ds_peers st\<rparr>"

definition dial ::
  "(ustring \<Rightarrow> ustring) \<Rightarrow> decimal_ops \<Rightarrow> DialInput \<Rightarrow> nat option \<Rightarrow> nat \<Rightarrow> nat \<Rightarrow> int
     \<Rightarrow> (DialState \<Rightarrow> DialState) \<Rightarrow> FailureReason + string \<Rightarrow> DialState
     \<Rightarrow> (VoipError + CallCreated) \<times> DialState" where
  "dial lower D i new_session call hold now during answer st =
     (case new_session of
        None \<Rightarrow> (Inl (Refused ConcurrencyLimit), st)
      | Some session \<Rightarrow>
          if over_caps i (w_calls (ds_world st))
          then (Inl (Refused ConcurrencyLimit), drop_peer session (add_peer session st))
          else if \<exists>c \<in> set (w_calls (ds_world st)). v_id c = call \<or> v_session_id c = session
          then (Inl Storage, drop_peer session (add_peer session st))
          else hold_and_dial i session call hold now during answer
                 (on_calls (\<lambda>cs. cs @ [created_call lower D i call session now])
                   (add_peer session st)))"

section \<open>Lemmas on admission\<close>

lemma on_calls_simps [simp]:
  "ds_peers (on_calls f st) = ds_peers st" "ds_parked (on_calls f st) = ds_parked st"
  "w_calls (ds_world (on_calls f st)) = f (w_calls (ds_world st))"
  "w_holds (ds_world (on_calls f st)) = w_holds (ds_world st)"
  by (simp_all add: on_calls_def)

lemma set_holds_simps [simp]:
  "ds_peers (set_holds h st) = ds_peers st" "ds_parked (set_holds h st) = ds_parked st"
  "w_calls (ds_world (set_holds h st)) = w_calls (ds_world st)"
  "w_holds (ds_world (set_holds h st)) = h"
  by (simp_all add: set_holds_def)

lemma drop_peer_simps [simp]:
  "ds_peers (drop_peer s st) = remove1 s (ds_peers st)"
  "ds_parked (drop_peer s st) = ds_parked st" "ds_world (drop_peer s st) = ds_world st"
  by (simp_all add: drop_peer_def)

lemma peer_simps [simp]:
  "ds_peers (add_peer s st) = s # ds_peers st" "ds_parked (add_peer s st) = ds_parked st"
  "ds_world (add_peer s st) = ds_world st"
  "ds_peers (park_peer c st) = ds_peers st" "ds_parked (park_peer c st) = c # ds_parked st"
  "ds_world (park_peer c st) = ds_world st"
  by (simp_all add: add_peer_def park_peer_def)

lemma fail_call_simps [simp]:
  "ds_peers (fail_call c r now st) = ds_peers st" "ds_parked (fail_call c r now st) = ds_parked st"
  "w_holds (ds_world (fail_call c r now st)) = w_holds (ds_world st)"
  "w_calls (ds_world (fail_call c r now st)) =
     update_call c (fail_row r now) (w_calls (ds_world st))"
  by (simp_all add: fail_call_def)

lemma fail_row_simps [simp]: "v_id (fail_row r now c) = v_id c" "v_status (fail_row r now c) = ''failed''"
  by (simp_all add: fail_row_def)

lemma dialing_row_simps [simp]:
  "v_id (dialing_row leg c) = v_id c" "v_status (dialing_row leg c) = ''dialing''"
  by (simp_all add: dialing_row_def)

lemma created_call_simps [simp]:
  "v_id (created_call lower D i n s now) = n" "v_session_id (created_call lower D i n s now) = s"
  "v_status (created_call lower D i n s now) = ''created''"
  "v_org_id (created_call lower D i n s now) = di_org i"
  "v_user_id (created_call lower D i n s now) = Some (di_user i)"
  by (simp_all add: created_call_def Let_def)

lemma update_call_snoc:
  "\<forall>c \<in> set calls. v_id c \<noteq> v_id x \<Longrightarrow> update_call (v_id x) f (calls @ [x]) = calls @ [f x]"
  by (induction calls) (simp_all add: update_call_def)

text \<open>What a dial needs of the tables: the identifiers it is given are new, and the pool is sound.\<close>

definition dial_ready :: "DialInput \<Rightarrow> nat \<Rightarrow> nat \<Rightarrow> (nat \<Rightarrow> int) \<Rightarrow> DialState \<Rightarrow> bool" where
  "dial_ready i new_call new_hold ttl st \<longleftrightarrow>
     accounts_for org_balance (w_holds (ds_world st)) ttl
     \<and> org_balance (hold_pool (w_holds (ds_world st))) (di_org i) \<noteq> None
     \<and> fresh_hold (reservations (w_holds (ds_world st))) new_hold new_call
     \<and> (\<forall>c \<in> set (w_calls (ds_world st)). v_id c \<noteq> new_call)"

lemma open_for_call_Cons [simp]:
  "open_for_call \<lparr>hold_pool = p, reservations = open_row h call org k # rs\<rparr> call =
     Some (open_row h call org k)"
  by (simp add: open_for_call_def open_row_def)

lemma open_row_sel [simp]:
  "r_org_id (open_row h call org k) = org" "held_credits (open_row h call org k) = k"
  by (simp_all add: open_row_def)

lemma fresh_no_open:
  "fresh_hold (reservations h) k call \<Longrightarrow> open_for_call h call = None"
  by (auto simp: fresh_hold_def open_for_call_def find_None_iff)

text \<open>
  The state in which the carrier is asked to dial: the balance covered the hold, which is taken and
  open, the row is stored, the telephone is in its room and parked.
\<close>

definition carrier_asked ::
  "(ustring \<Rightarrow> ustring) \<Rightarrow> decimal_ops \<Rightarrow> DialInput \<Rightarrow> nat \<Rightarrow> nat \<Rightarrow> nat \<Rightarrow> int \<Rightarrow> (nat \<Rightarrow> int)
     \<Rightarrow> DialState \<Rightarrow> DialState \<Rightarrow> bool" where
  "carrier_asked lower D i session call hold now ttl st s \<longleftrightarrow>
     (\<exists>b. org_balance (hold_pool (w_holds (ds_world st))) (di_org i) = Some b
        \<and> max (q_reserve_credits (di_quote i)) 0 \<le> b
        \<and> org_balance (hold_pool (w_holds (ds_world s))) =
            (org_balance (hold_pool (w_holds (ds_world st))))
              (di_org i \<mapsto> b - max (q_reserve_credits (di_quote i)) 0))
     \<and> open_for_call (w_holds (ds_world s)) call =
         Some (open_row hold call (di_org i) (max (q_reserve_credits (di_quote i)) 0))
     \<and> accounts_for org_balance (w_holds (ds_world s)) ttl
     \<and> w_calls (ds_world s) = w_calls (ds_world st) @ [created_call lower D i call session now]
     \<and> ds_peers s = session # ds_peers st \<and> ds_parked s = call # ds_parked st"

text \<open>Nothing is left of a dial but perhaps a failed row.\<close>

definition dial_undone :: "nat \<Rightarrow> DialState \<Rightarrow> DialState \<Rightarrow> bool" where
  "dial_undone call st st' \<longleftrightarrow>
     org_balance (hold_pool (w_holds (ds_world st'))) = org_balance (hold_pool (w_holds (ds_world st)))
     \<and> open_for_call (w_holds (ds_world st')) call = None
     \<and> ds_peers st' = ds_peers st \<and> ds_parked st' = ds_parked st
     \<and> (w_calls (ds_world st') = w_calls (ds_world st)
        \<or> (\<exists>c. w_calls (ds_world st') = w_calls (ds_world st) @ [c] \<and> v_status c = ''failed'' \<and> v_id c = call))"

lemma dial_cases:
  assumes ready: "dial_ready i call hold ttl st"
    and run: "dial lower D i new_session call hold now during answer st = (r, st')"
  obtains (refused) e where "r = Inl e" "dial_undone call st st'"
  | (asked) session s where "new_session = Some session" "carrier_asked lower D i session call hold now ttl st s"
      "carrier_answered i session call now answer (during s) = (r, st')"
proof -
  let ?h = "w_holds (ds_world st)" and ?calls = "w_calls (ds_world st)"
  let ?k = "max (q_reserve_credits (di_quote i)) 0"
  from ready obtain b where acc: "accounts_for org_balance ?h ttl"
    and b: "org_balance (hold_pool ?h) (di_org i) = Some b"
    and fresh: "fresh_hold (reservations ?h) hold call"
    and ids: "\<forall>c \<in> set ?calls. v_id c \<noteq> call"
    by (auto simp: dial_ready_def)
  note none = fresh_no_open [OF fresh]
  show thesis
  proof (cases new_session)
    case None
    with run none show thesis by (intro refused) (auto simp: dial_def dial_undone_def)
  next
    case (Some session)
    let ?row = "created_call lower D i call session now"
    let ?st = "on_calls (\<lambda>cs. cs @ [?row]) (add_peer session st)"
    have snoc: "update_call call f (?calls @ [?row]) = ?calls @ [f ?row]" for f
      using update_call_snoc [of ?calls ?row f] ids by simp
    show thesis
    proof (cases "over_caps i ?calls \<or> (\<exists>c \<in> set ?calls. v_id c = call \<or> v_session_id c = session)")
      case True
      have "dial_undone call st (drop_peer session (add_peer session st))" using none by (simp add: dial_undone_def)
      moreover from True Some run obtain e where "r = Inl e" "st' = drop_peer session (add_peer session st)"
        by (cases "over_caps i ?calls") (auto simp: dial_def)
      ultimately show thesis using refused by blast
    next
      case False
      with Some run have run': "hold_and_dial i session call hold now during answer ?st = (r, st')"
        by (simp add: dial_def split: if_splits)
      from acc b fresh show thesis
      proof (cases rule: reserve_cases [where credits = "q_reserve_credits (di_quote i)"
            and session = session and actor = "Some (di_user i)"])
        case refused': refused
        have "dial_undone call st
            (drop_peer session (fail_call call InsufficientCredits now (set_holds ?h ?st)))"
          using none snoc by (simp add: dial_undone_def)
        with run' refused'(2) show thesis by (intro refused) (auto simp: hold_and_dial_def)
      next
        case (held p')
        let ?h' = "\<lparr>hold_pool = p', reservations = open_row hold call (di_org i) ?k # reservations ?h\<rparr>"
        let ?s = "park_peer call (set_holds ?h' ?st)"
        have "carrier_answered i session call now answer (during ?s) = (r, st')"
          using run' held(2) by (simp add: hold_and_dial_def)
        moreover have "carrier_asked lower D i session call hold now ttl st ?s"
          using held b by (simp add: carrier_asked_def)
        ultimately show thesis using asked Some by blast
      qed
    qed
  qed
qed

lemma release_nothing:
  "open_for_call db call = None \<Longrightarrow> release db call session now = Inr (out, db') \<Longrightarrow> db' = db"
proof -
  assume none: "open_for_call db call = None" and r: "release db call session now = Inr (out, db')"
  then have "\<forall>r \<in> set (reservations db). r_call_id r = call \<longrightarrow> r_state r \<noteq> ''held''"
    by (auto simp: open_for_call_def find_None_iff)
  with r show ?thesis
    by (auto simp: release_def release_tx_def release_with_def close_with_def split: option.splits dest: find_SomeD)
qed

text \<open>What the carrier's refusal gives back, whatever state it finds.\<close>

lemma carrier_refused:
  assumes run: "carrier_answered i session call now (Inl reason) s = (r, st')"
    and acc: "accounts_for org_balance (w_holds (ds_world s)) ttl"
  shows "r = Inl (Refused reason) \<and> open_for_call (w_holds (ds_world st')) call = None
     \<and> ds_peers st' = remove1 session (ds_peers s) \<and> ds_parked st' = remove1 call (ds_parked s)
     \<and> w_calls (ds_world st') = update_call call (fail_row reason now) (w_calls (ds_world s))
     \<and> (case open_for_call (w_holds (ds_world s)) call of
          None \<Rightarrow> w_holds (ds_world st') = w_holds (ds_world s)
        | Some k \<Rightarrow> \<forall>b. org_balance (hold_pool (w_holds (ds_world s))) (r_org_id k) = Some b \<longrightarrow>
            org_balance (hold_pool (w_holds (ds_world st'))) =
              (org_balance (hold_pool (w_holds (ds_world s))))(r_org_id k \<mapsto> b + held_credits k))"
proof -
  let ?h = "w_holds (ds_world s)"
  obtain out h where rel: "release ?h call session now = Inr (out, h)" "open_for_call h call = None"
    using release_total [OF acc, of call session now] by auto
  from rel(1) run have st': "r = Inl (Refused reason)"
    "st' = drop_peer session ((set_holds h (fail_call call reason now s))\<lparr>ds_parked := remove1 call (ds_parked s)\<rparr>)"
    by (auto simp: carrier_answered_def)
  have given: "case open_for_call ?h call of None \<Rightarrow> h = ?h
      | Some k \<Rightarrow> \<forall>b. org_balance (hold_pool ?h) (r_org_id k) = Some b \<longrightarrow>
          org_balance (hold_pool h) = (org_balance (hold_pool ?h))(r_org_id k \<mapsto> b + held_credits k)"
    using release_nothing [OF _ rel(1)] release_open [OF acc, of call _ _ session now] rel(1)
    by (auto split: option.split)
  have "w_holds (ds_world st') = h"
    "ds_peers st' = remove1 session (ds_peers s)" "ds_parked st' = remove1 call (ds_parked s)"
    "w_calls (ds_world st') = update_call call (fail_row reason now) (w_calls (ds_world s))"
    by (simp_all add: st'(2))
  then show ?thesis
    using given rel(2) st'(1) by (simp only: simp_thms)
qed

text \<open>
  C16: A refused dial is free, in tables whose holds are sound and where the organisation has a
  balance row, for identifiers no row bears yet. A refusal before the carrier is asked (the caps, the identifiers,
  the balance) leaves every balance as it was, no hold of that call open, no telephone in the room
  or parked, and at most one row more, which is a failed call. When the carrier refuses, the
  outcome depends on what happened while it was asked, which is arbitrary here: if nothing did, the
  result is the same; in any case, in tables whose holds are sound, what was still held for the
  call is returned in full, what a webhook had settled by then stays settled and the refusal moves
  no money, no hold of the call stays open, and row, telephone and parked leg are failed and given back.
\<close>

theorem refused_dial_is_free:
  assumes "dial_ready i call hold ttl st"
    and "dial lower D i new_session call hold now during answer st = (Inl e, st')"
  shows "dial_undone call st st'
     \<or> (\<exists>reason session s. answer = Inl reason \<and> carrier_asked lower D i session call hold now ttl st s
          \<and> (during s = s \<longrightarrow> dial_undone call st st')
          \<and> (\<forall>ttl2. accounts_for org_balance (w_holds (ds_world (during s))) ttl2 \<longrightarrow>
               e = Refused reason \<and> open_for_call (w_holds (ds_world st')) call = None
               \<and> ds_peers st' = remove1 session (ds_peers (during s))
               \<and> ds_parked st' = remove1 call (ds_parked (during s))
               \<and> w_calls (ds_world st') = update_call call (fail_row reason now) (w_calls (ds_world (during s)))
               \<and> (case open_for_call (w_holds (ds_world (during s))) call of
                    None \<Rightarrow> w_holds (ds_world st') = w_holds (ds_world (during s))
                  | Some k \<Rightarrow> \<forall>b. org_balance (hold_pool (w_holds (ds_world (during s)))) (r_org_id k) = Some b \<longrightarrow>
                      org_balance (hold_pool (w_holds (ds_world st'))) =
                        (org_balance (hold_pool (w_holds (ds_world (during s)))))(r_org_id k \<mapsto> b + held_credits k))))"
  using assms
proof (cases rule: dial_cases)
  case (refused e)
  then show ?thesis by simp
next
  case (asked session s)
  then obtain reason where answer: "answer = Inl reason"
    by (cases answer) (auto simp: carrier_answered_def)
  note given = carrier_refused [OF asked(3) [unfolded answer]]
  have "dial_undone call st st'" if "during s = s"
  proof -
    from asked(2) have acc: "accounts_for org_balance (w_holds (ds_world (during s))) ttl"
      and calls: "w_calls (ds_world s) = w_calls (ds_world st) @ [created_call lower D i call session now]"
      by (simp_all add: carrier_asked_def that)
    have "\<forall>c \<in> set (w_calls (ds_world st)). v_id c \<noteq> call" using assms(1) by (simp add: dial_ready_def)
    then have "w_calls (ds_world st') = w_calls (ds_world st) @ [fail_row reason now (created_call lower D i call session now)]"
      using given [OF acc] update_call_snoc [of "w_calls (ds_world st)" "created_call lower D i call session now"]
      by (simp add: that calls)
    moreover have "org_balance (hold_pool (w_holds (ds_world st'))) = org_balance (hold_pool (w_holds (ds_world st)))"
      using given [OF acc] asked(2) by (auto simp: carrier_asked_def that fun_upd_idem)
    ultimately show ?thesis
      using given [OF acc] asked(2) by (simp add: dial_undone_def carrier_asked_def that)
  qed
  with answer asked(2) given show ?thesis
    by (intro disjI2 exI [of _ reason] exI [of _ session] exI [of _ s]) auto
qed

definition sample_quote :: Quote where
  "sample_quote = \<lparr>q_cost = \<lparr>telephony = 2 / 100, translation = 8 / 100, media_streaming = 0,
     recording = 0, storage = 0, ancillary = 0\<rparr>, q_price_per_minute = 26 / 100,
     q_reserve_credits = 60, q_estimated_minutes = 2\<rparr>"

definition sample_input :: DialInput where
  "sample_input = \<lparr>di_org = 1, di_user = 3, di_dest = E164 ''+393201234567'',
     di_opts = \<lparr>do_target_language = ustr ''it'', do_engine_id = ''e'', do_record = True,
       do_transcribe = True, do_ai_analysis = False\<rparr>,
     di_world = \<lparr>dw_org = default_for_new_org, dw_global = c_global sample_ctx,
       dw_rate = c_rate sample_ctx, dw_route_validated = False, dw_live_user = 0,
       dw_live_org = 0, dw_live_global = 0, dw_daily_spend = 0\<rparr>,
     di_quote = sample_quote,
     di_intent = \<lparr>i_recording = True, i_transcription = True, i_ai_analysis = False\<rparr>\<rparr>"

lemma sample_input_org [simp]: "di_org sample_input = 1"
  by (simp add: sample_input_def)

definition sample_state :: DialState where
  "sample_state = \<lparr>ds_world = \<lparr>w_holds = sample_voip, w_calls = [], w_events = []\<rparr>,
     ds_peers = [], ds_parked = []\<rparr>"

lemma sample_ready:
  "dial_ready sample_input 7 1 (\<lambda>o'. if o' = 1 then 100 else 0) sample_state"
  using sample_voip_accounts
  by (simp add: dial_ready_def sample_state_def sample_input_def fresh_hold_def)
    (simp add: sample_voip_def sample_db_def sample_org_def org_balance_def)

text \<open>The decision of the same dial for a carrier's answer.\<close>

definition sample_dial :: "(DialState \<Rightarrow> DialState) \<Rightarrow> FailureReason + string
    \<Rightarrow> (VoipError + CallCreated) \<times> DialState" where
  "sample_dial during answer =
     dial sample_lower exact_decimal sample_input (Some 70) 7 1 0 during answer sample_state"

lemma sample_dial_refused: "fst (sample_dial (\<lambda>s. s) (Inl Busy)) = Inl (Refused Busy)"
  by (simp add: sample_dial_def dial_def sample_input_def sample_state_def over_caps_def
      live_counts_def default_for_new_org_def org_policy_default_def sample_ctx_def wrap_i32_def
      hold_and_dial_def reserve_def reserve_with_def sample_voip_def sample_db_def sample_org_def
      deduct_org_credits_tx_def org_balance_def sample_quote_def insert_hold_def set_balance_def
      carrier_answered_def release_def release_tx_def release_with_def close_with_def Let_def
      release_unused_def add_org_credits_tx_def charge_extra_def)

theorem refused_dial_is_free_witness:
  "org_balance (hold_pool (w_holds (ds_world (snd (sample_dial (\<lambda>s. s) (Inl Busy)))))) 1 = Some 100"
proof -
  obtain st' where run: "sample_dial (\<lambda>s. s) (Inl Busy) = (Inl (Refused Busy), st')"
    using sample_dial_refused by (metis prod.collapse)
  have "dial_undone 7 sample_state st'"
    using refused_dial_is_free [OF sample_ready run [unfolded sample_dial_def]] by blast
  then show ?thesis
    by (simp add: run dial_undone_def sample_state_def sample_voip_def sample_db_def sample_org_def org_balance_def)
qed

text \<open>The rows after a dial during which nothing else happened.\<close>

lemma dial_calls:
  assumes "\<forall>c \<in> set (w_calls (ds_world st)). v_id c \<noteq> call"
    and "dial lower D i new_session call hold now (\<lambda>s. s) answer st = (r, st')"
  shows "w_calls (ds_world st') = w_calls (ds_world st)
     \<or> \<not> over_caps i (w_calls (ds_world st))
        \<and> (\<exists>c. w_calls (ds_world st') = w_calls (ds_world st) @ [c])"
proof (cases new_session)
  case None
  with assms(2) show ?thesis by (simp add: dial_def)
next
  case (Some session)
  let ?row = "created_call lower D i call session now"
  have snoc: "update_call call f (w_calls (ds_world st) @ [?row]) = w_calls (ds_world st) @ [f ?row]" for f
    using update_call_snoc [of "w_calls (ds_world st)" ?row f] assms(1) by simp
  show ?thesis
  proof (cases "over_caps i (w_calls (ds_world st))
      \<or> (\<exists>c \<in> set (w_calls (ds_world st)). v_id c = call \<or> v_session_id c = session)")
    case True
    with Some assms(2) show ?thesis by (auto simp: dial_def split: if_splits)
  next
    case False
    let ?st = "on_calls (\<lambda>cs. cs @ [?row]) (add_peer session st)"
    from Some False assms(2) have "hold_and_dial i session call hold now (\<lambda>s. s) answer ?st = (r, st')"
      by (simp add: dial_def split: if_splits)
    then have "\<exists>c. w_calls (ds_world st') = w_calls (ds_world st) @ [c]"
      using snoc
      by (auto simp: hold_and_dial_def carrier_answered_def
          split: sum.splits ReserveOutcome.splits prod.splits)
    with False show ?thesis by blast
  qed
qed

definition live_number :: "(VoipCall \<Rightarrow> bool) \<Rightarrow> VoipCall list \<Rightarrow> int" where
  "live_number P calls = int (length (filter P (filter is_live calls)))"

lemma live_number_snoc: "live_number P (calls @ [c]) \<le> live_number P calls + 1"
  by (simp add: live_number_def)

lemma over_caps_iff:
  assumes "int (length calls) \<le> i32_max"
  shows "over_caps i calls \<longleftrightarrow>
    live_number (\<lambda>c. v_user_id c = Some (di_user i)) calls
        \<ge> max_concurrent_per_user (s_policy (dw_org (di_world i)))
    \<or> live_number (\<lambda>c. v_org_id c = di_org i) calls
        \<ge> max_concurrent_per_org (s_policy (dw_org (di_world i)))
    \<or> live_number (\<lambda>c. True) calls \<ge> max_concurrent_global (dw_global (di_world i))"
proof -
  have w: "wrap_i32 (int (length (filter P (filter is_live calls)))) = live_number P calls" for P
  proof -
    have "length (filter P (filter is_live calls)) \<le> length calls"
      by (meson length_filter_le le_trans)
    then have "int (length (filter P (filter is_live calls))) \<le> i32_max" using assms by linarith
    then show ?thesis
      unfolding live_number_def by (intro wrap_i32_id in_i32_nonneg) simp_all
  qed
  have t: "filter (\<lambda>c. True) xs = xs" for xs :: "VoipCall list" by simp
  show ?thesis
    unfolding over_caps_def live_counts_def Let_def prod.case w
    using w [of "\<lambda>c. True"] by (simp only: t)
qed

text \<open>
  Admission holds the concurrency caps: a dial raises the number of live calls of the
  user, of the organisation or of the deployment only below its cap, so dials that run one
  after the other under the lock never take any of the three counts above its cap.
\<close>

theorem dial_respects_caps:
  assumes "\<forall>c \<in> set (w_calls (ds_world st)). v_id c \<noteq> call"
    and "int (length (w_calls (ds_world st))) \<le> i32_max"
    and "dial lower D i new_session call hold now (\<lambda>s. s) answer st = (r, st')"
  shows "live_number (\<lambda>c. v_user_id c = Some (di_user i)) (w_calls (ds_world st'))
      \<le> max (live_number (\<lambda>c. v_user_id c = Some (di_user i)) (w_calls (ds_world st)))
            (max_concurrent_per_user (s_policy (dw_org (di_world i))))
    \<and> live_number (\<lambda>c. v_org_id c = di_org i) (w_calls (ds_world st'))
      \<le> max (live_number (\<lambda>c. v_org_id c = di_org i) (w_calls (ds_world st)))
            (max_concurrent_per_org (s_policy (dw_org (di_world i))))
    \<and> live_number (\<lambda>c. True) (w_calls (ds_world st'))
      \<le> max (live_number (\<lambda>c. True) (w_calls (ds_world st)))
            (max_concurrent_global (dw_global (di_world i)))"
proof -
  from dial_calls [OF assms(1,3)] consider
    (same) "w_calls (ds_world st') = w_calls (ds_world st)"
  | (grew) c where "\<not> over_caps i (w_calls (ds_world st))"
      "w_calls (ds_world st') = w_calls (ds_world st) @ [c]" by blast
  then show ?thesis
  proof cases
    case same
    then show ?thesis by simp
  next
    case grew
    note n = live_number_snoc [where calls = "w_calls (ds_world st)" and c = c, folded grew(2)]
    show ?thesis
      using grew(1) n [of "\<lambda>c. v_user_id c = Some (di_user i)"]
        n [of "\<lambda>c. v_org_id c = di_org i"] n [of "\<lambda>c. True"]
      unfolding over_caps_iff [OF assms(2)] by linarith
  qed
qed

theorem dial_respects_caps_witness:
  "live_number (\<lambda>c. True) (w_calls (ds_world (snd (sample_dial (\<lambda>s. s) (Inr ''leg''))))) \<le> 50"
proof -
  obtain r st' where "sample_dial (\<lambda>s. s) (Inr ''leg'') = (r, st')" by fastforce
  with dial_respects_caps [of sample_state 7 sample_lower exact_decimal sample_input "Some 70" 1 0
      "Inr ''leg''" r st']
  show ?thesis
    by (simp add: sample_dial_def)
      (simp add: sample_state_def live_number_def sample_input_def sample_ctx_def i32_max_def)
qed

text \<open>
  C15: A placed call is paid for and asks first, in tables whose holds are sound and where the
  organisation has a balance row, for identifiers no row bears yet. When the carrier is asked, the balance has
  covered the hold and is the only one that moved, the hold is the call's open one, and the row is
  stored with a consent status that permits capture only if nothing is captured or the
  organisation's policy asks nobody. Whatever happens while the carrier is asked, which is
  arbitrary here, the dial then moves no money and does nothing but give the call's row the leg
  and the status of dialling.
\<close>

theorem placed_call_is_covered:
  assumes "dial_ready i call hold ttl st"
    and "dial lower D i new_session call hold now during answer st = (Inr cc, st')"
  shows "\<exists>session s leg c. carrier_asked lower D i session call hold now ttl st s \<and> answer = Inr leg
     \<and> cc_reserved_credits cc = q_reserve_credits (di_quote i) \<and> cc_status cc = Dialing
     \<and> w_calls (ds_world s) = w_calls (ds_world st) @ [c] \<and> v_id c = call
     \<and> (\<exists>status. v_consent_status c = consent_status_as_str status
          \<and> (permits_capture status \<longleftrightarrow> captures_nothing (di_intent i)
               \<or> s_consent_policy (dw_org (di_world i)) \<in> {NoticeOnly, ConsentDisabled}))
     \<and> w_holds (ds_world st') = w_holds (ds_world (during s))
     \<and> w_calls (ds_world st') = update_call call (dialing_row leg) (w_calls (ds_world (during s)))
     \<and> ds_peers st' = ds_peers (during s) \<and> ds_parked st' = ds_parked (during s)"
  using assms
proof (cases rule: dial_cases)
  case (asked session s)
  then obtain leg where answer: "answer = Inr leg"
    by (cases answer) (auto simp: carrier_answered_def split: sum.splits prod.splits)
  let ?row = "created_call lower D i call session now"
  have "\<exists>status. v_consent_status ?row = consent_status_as_str status
      \<and> (permits_capture status \<longleftrightarrow> captures_nothing (di_intent i)
           \<or> s_consent_policy (dw_org (di_world i)) \<in> {NoticeOnly, ConsentDisabled})"
  proof (intro exI conjI)
    show "v_consent_status ?row =
        consent_status_as_str (d_initial_status (disclosure_plan lower
          (s_consent_policy (dw_org (di_world i))) (di_intent i) True (do_target_language (di_opts i))))"
      by (simp add: created_call_def Let_def)
    show "permits_capture (d_initial_status (disclosure_plan lower
          (s_consent_policy (dw_org (di_world i))) (di_intent i) True (do_target_language (di_opts i))))
      \<longleftrightarrow> captures_nothing (di_intent i) \<or> s_consent_policy (dw_org (di_world i)) \<in> {NoticeOnly, ConsentDisabled}"
      by (cases "s_consent_policy (dw_org (di_world i))")
        (simp_all add: disclosure_plan_def Let_def captures_nothing_def normalised_def)
  qed
  with asked(2,3) answer show ?thesis
    by (intro exI [of _ session] exI [of _ s] exI [of _ leg] exI [of _ ?row])
      (auto simp: carrier_answered_def carrier_asked_def)
qed simp

lemma sample_dial_placed:
  "\<exists>cc. fst (sample_dial (\<lambda>s. s) (Inr ''leg'')) = Inr cc \<and> cc_reserved_credits cc = 60"
  by (simp add: sample_dial_def dial_def sample_input_def sample_state_def over_caps_def
      live_counts_def default_for_new_org_def org_policy_default_def sample_ctx_def wrap_i32_def
      hold_and_dial_def reserve_def reserve_with_def sample_voip_def sample_db_def sample_org_def
      deduct_org_credits_tx_def org_balance_def sample_quote_def insert_hold_def set_balance_def
      carrier_answered_def Let_def)

theorem placed_call_is_covered_witness:
  "org_balance (hold_pool (w_holds (ds_world (snd (sample_dial (\<lambda>s. s) (Inr ''leg'')))))) 1 = Some 40"
proof -
  obtain cc st' where r: "sample_dial (\<lambda>s. s) (Inr ''leg'') = (Inr cc, st')" "cc_reserved_credits cc = 60"
    using sample_dial_placed by (metis prod.collapse)
  have "org_balance (hold_pool (w_holds (ds_world sample_state))) 1 = Some 100"
    by (simp add: sample_state_def sample_voip_def sample_db_def sample_org_def org_balance_def)
  with placed_call_is_covered [OF sample_ready r(1) [unfolded sample_dial_def]] r show ?thesis
    by (auto simp: carrier_asked_def)
qed

lemma fallback_price_cong:
  "v_recipient_e164 c = v_recipient_e164 c' \<Longrightarrow> v_recording_status c = v_recording_status c'
     \<Longrightarrow> fallback_price M cfg deck now engine c = fallback_price M cfg deck now engine c'"
  by (simp only: fallback_price_def)

text \<open>
  Repricing can only lower what the customer agreed to, and leaves alone every call that
  is settled, every other call, and a call that another engine already serves; run twice it
  applies once.
\<close>

theorem reprice_only_lowers:
  "case reprice_after_fallback M cfg deck now calls call requested engine of (out, calls') \<Rightarrow>
     list_all2 (\<lambda>c c'. c' = c
        \<or> v_id c = call \<and> v_status c \<notin> {''completed'', ''failed''} \<and> v_engine_id c = requested
          \<and> v_engine_id c' = em_id engine
          \<and> (\<exists>p q. v_quoted_price_per_min c = Some p \<and> v_quoted_price_per_min c' = Some q \<and> q \<le> p))
       calls calls'
     \<and> (em_id engine = requested
        \<or> snd (reprice_after_fallback M cfg deck now calls' call requested engine) = calls')"
proof -
  let ?price = "fallback_price M cfg deck now engine"
  define up where "up p c = (if reprice_guard call requested p c
      then c\<lparr>v_engine_id := em_id engine, v_quoted_price_per_min := Some p\<rparr> else c)" for p c
  have up: "v_id (up p c) = v_id c" "?price (up p c) = ?price c" for p c
    by (simp add: up_def) (rule fallback_price_cong, simp_all add: up_def)
  have shape: "snd (reprice_after_fallback M cfg deck now cs call requested engine) = cs
      \<or> (\<exists>c p. find_call cs call = Some c \<and> ?price c = Some p
           \<and> snd (reprice_after_fallback M cfg deck now cs call requested engine) = map (up p) cs)" for cs
    by (auto simp: reprice_after_fallback_def Let_def up_def [abs_def] split: option.splits)
  have find_up: "find_call (map (up p) cs) call = map_option (up p) (find_call cs call)" for p cs
    by (induction cs) (simp_all add: find_call_def up(1))
  obtain out calls' where res: "reprice_after_fallback M cfg deck now calls call requested engine = (out, calls')"
    by fastforce
  from shape [of calls] res consider (same) "calls' = calls"
    | (moved) c p where "find_call calls call = Some c" "?price c = Some p" "calls' = map (up p) calls"
    by auto
  then have "list_all2 (\<lambda>c c'. c' = c
        \<or> v_id c = call \<and> v_status c \<notin> {''completed'', ''failed''} \<and> v_engine_id c = requested
          \<and> v_engine_id c' = em_id engine
          \<and> (\<exists>p q. v_quoted_price_per_min c = Some p \<and> v_quoted_price_per_min c' = Some q \<and> q \<le> p))
       calls calls'
     \<and> (em_id engine \<noteq> requested \<longrightarrow>
        snd (reprice_after_fallback M cfg deck now calls' call requested engine) = calls')"
  proof cases
    case same
    with res show ?thesis by (simp add: list_all2_same)
  next
    case moved
    have "map (up p) (map (up p) calls) = map (up p) calls" if "em_id engine \<noteq> requested"
      using that by (auto simp: up_def reprice_guard_def)
    moreover have "find_call calls' call = Some (up p c)" "?price (up p c) = Some p"
      using moved up(2) find_up by simp_all
    ultimately have "snd (reprice_after_fallback M cfg deck now calls' call requested engine) = calls'"
      if "em_id engine \<noteq> requested"
      using that shape [of calls'] moved(3) by auto
    moreover have "list_all2 (\<lambda>c c'. c' = c
        \<or> v_id c = call \<and> v_status c \<notin> {''completed'', ''failed''} \<and> v_engine_id c = requested
          \<and> v_engine_id c' = em_id engine
          \<and> (\<exists>p q. v_quoted_price_per_min c = Some p \<and> v_quoted_price_per_min c' = Some q \<and> q \<le> p))
       calls calls'"
      using moved(3)
      by (auto simp: up_def list_all2_conv_all_nth reprice_guard_def split: option.splits)
    ultimately show ?thesis by blast
  qed
  with res show ?thesis by auto
qed

end
