(* ===== verification/Webhook.thy ===== *)
theory Webhook
  imports Pricing Voip_Calls
begin

text \<open>
  Ingesting provider events and housekeeping, \<^verbatim>\<open>server/src/voip/webhook.rs\<close>, with the
  normalised event of \<^verbatim>\<open>server/src/telephony/mod.rs\<close>. One event is one transaction: resolve
  the call, insert into the event ledger (the idempotency gate), move the lifecycle, settle
  or release the hold. The sweeps are the jobs of the periodic loop. The parsing of an
  identifier, the carrier's rating and the carrier's hang-up are parameters; a database
  error of a nested operation drops the transaction.
\<close>

section \<open>Events\<close>

datatype ProviderEventKind =
  KInitiated
| KIncoming string string
| KRinging
| KAnswered
| KHangup FailureReason
| KMediaStarted
| KMediaStopped
| KRecordingStarted
| KRecordingSaved string "string option" nat
| KDtmf nat
| KUnhandled string
| KNumberOrderCompleted string "string list"

record ProviderEvent =
  pe_provider :: string
  pe_event_id :: string
  pe_leg_id :: string
  pe_client_state :: "string option"
  pe_occurred_at :: int
  pe_kind :: ProviderEventKind

datatype Ingest =
  Unknown
| Duplicate "nat option"
| Recorded nat CallState
| Applied nat CallState CallState

fun lifecycle_event :: "ProviderEventKind \<Rightarrow> CallEvent option" where
  "lifecycle_event KInitiated = Some EvDialed"
| "lifecycle_event KRinging = Some EvRinging"
| "lifecycle_event KAnswered = Some EvAnswered"
| "lifecycle_event KMediaStarted = Some EvMediaEstablished"
| "lifecycle_event (KHangup cause) = Some (EvHangup (Some cause))"
| "lifecycle_event _ = None"

fun hangup_reason :: "ProviderEventKind \<Rightarrow> string option" where
  "hangup_reason (KHangup cause) = Some (failure_as_str cause)"
| "hangup_reason _ = None"

fun event_type_name :: "ProviderEventKind \<Rightarrow> string" where
  "event_type_name KInitiated = ''initiated''"
| "event_type_name KRinging = ''ringing''"
| "event_type_name KAnswered = ''answered''"
| "event_type_name (KHangup _) = ''hangup''"
| "event_type_name KMediaStarted = ''media_started''"
| "event_type_name KMediaStopped = ''media_stopped''"
| "event_type_name KRecordingStarted = ''recording_started''"
| "event_type_name (KRecordingSaved _ _ _) = ''recording_saved''"
| "event_type_name (KDtmf _) = ''dtmf''"
| "event_type_name (KIncoming _ _) = ''incoming''"
| "event_type_name (KUnhandled raw) = ''unhandled:'' @ raw"
| "event_type_name (KNumberOrderCompleted _ _) = ''number_order_completed''"

section \<open>Resolving the call\<close>

definition add_leg :: "string \<Rightarrow> VoipCall \<Rightarrow> VoipCall" where
  "add_leg leg c = (if leg \<in> set (v_legs c) then c else c\<lparr>v_legs := v_legs c @ [leg]\<rparr>)"

definition fetch_call_by_leg :: "VoipCall list \<Rightarrow> string \<Rightarrow> VoipCall option" where
  "fetch_call_by_leg calls leg = find (\<lambda>c. leg \<in> set (v_legs c)) calls"

definition resolve_call ::
  "(string \<Rightarrow> nat option) \<Rightarrow> VoipCall list \<Rightarrow> ProviderEvent \<Rightarrow> VoipCall option \<times> VoipCall list" where
  "resolve_call parse_id calls ev =
     (case (case pe_client_state ev of None \<Rightarrow> None | Some s \<Rightarrow> parse_id s) of
        None \<Rightarrow> (fetch_call_by_leg calls (pe_leg_id ev), calls)
      | Some i \<Rightarrow>
          (case find_call calls i of
             None \<Rightarrow> (fetch_call_by_leg calls (pe_leg_id ev), calls)
           | Some c \<Rightarrow> (Some c, update_call i (add_leg (pe_leg_id ev)) calls)))"

section \<open>Side effects and settlement\<close>

definition side_effects :: "ProviderEvent \<Rightarrow> VoipCall \<Rightarrow> VoipCall" where
  "side_effects ev c =
     (case pe_kind ev of
        KRecordingStarted \<Rightarrow>
          c\<lparr>v_recording_status := ''recording'',
            v_recording_started_at := coalesce (v_recording_started_at c) (Some (pe_occurred_at ev))\<rparr>
      | KRecordingSaved url rid _ \<Rightarrow>
          c\<lparr>v_recording_status := ''saved'',
            v_recording_url := (if url = [] then None else Some url),
            v_recording_id := coalesce rid (v_recording_id c)\<rparr>
      | _ \<Rightarrow> c)"

definition charge_call :: "int \<Rightarrow> VoipCall \<Rightarrow> VoipCall" where
  "charge_call credits c =
     c\<lparr>v_credits_consumed := credits, v_customer_charge_usd := Some (credits_to_usd credits)\<rparr>"

definition settle_call ::
  "decimal_ops \<Rightarrow> int \<Rightarrow> VoipWorld \<Rightarrow> nat \<Rightarrow> nat \<Rightarrow> CallState \<Rightarrow> usd option \<Rightarrow> int
     \<Rightarrow> db_error + VoipWorld" where
  "settle_call D now w call session final_state price_per_min duration =
     (let credits = (if final_state = Completed
                     then settle_credits D (case price_per_min of None \<Rightarrow> 0 | Some p \<Rightarrow> p)
                            (nat (max duration 0))
                     else 0);
          w1 = with_calls (update_call call (charge_call credits)) w
      in case (if final_state = Completed then settle_tx (w_holds w1) call session credits now
               else release_tx (w_holds w1) call session now) of
           Inl e \<Rightarrow> Inl e
         | Inr (_, h) \<Rightarrow> Inr (w1\<lparr>w_holds := h\<rparr>))"

section \<open>One event\<close>

definition advance :: "CallState \<Rightarrow> ProviderEvent \<Rightarrow> int option \<Rightarrow> int option \<Rightarrow> VoipCall \<Rightarrow> VoipCall" where
  "advance new_state ev ended duration c =
     c\<lparr>v_status := callstate_as_str new_state,
       v_answered_at := coalesce (v_answered_at c)
         (if new_state = Answered then Some (pe_occurred_at ev) else None),
       v_ended_at := coalesce (v_ended_at c) ended,
       v_duration_seconds := coalesce (v_duration_seconds c) duration,
       v_failure_reason := coalesce (v_failure_reason c) (hangup_reason (pe_kind ev))\<rparr>"

text \<open>\<open>(e - a).num_seconds().max(0) as i32\<close> on microseconds.\<close>

definition call_seconds :: "int option \<Rightarrow> int option \<Rightarrow> int option" where
  "call_seconds answered ended =
     (case (answered, ended) of
        (Some a, Some e) \<Rightarrow> Some (wrap_i32 (max ((e - a) div 1000000) 0))
      | _ \<Rightarrow> None)"

definition move_call ::
  "decimal_ops \<Rightarrow> int \<Rightarrow> VoipWorld \<Rightarrow> VoipCall \<Rightarrow> ProviderEvent \<Rightarrow> CallState \<Rightarrow> db_error + VoipWorld" where
  "move_call D now w c ev new_state =
     (let answered = (if new_state = Answered \<and> v_answered_at c = None
                      then Some (pe_occurred_at ev) else v_answered_at c);
          ended = (if is_terminal new_state then Some (pe_occurred_at ev) else None);
          duration = call_seconds answered ended;
          w1 = with_calls (update_call (v_id c) (advance new_state ev ended duration)) w
      in if is_terminal new_state
         then settle_call D now w1 (v_id c) (v_session_id c) new_state
                (v_quoted_price_per_min c) (case duration of None \<Rightarrow> 0 | Some d \<Rightarrow> d)
         else Inr w1)"

definition event_row :: "ProviderEvent \<Rightarrow> nat \<Rightarrow> CallState \<Rightarrow> CallState \<Rightarrow> EventRow" where
  "event_row ev call before after' =
     \<lparr>e_provider = pe_provider ev, e_event_id = pe_event_id ev, e_call_id = call,
      e_leg_id = pe_leg_id ev, e_event_type = event_type_name (pe_kind ev),
      e_occurred_at = pe_occurred_at ev, e_state_before = Some (callstate_as_str before),
      e_state_after = Some (callstate_as_str after')\<rparr>"

definition seen_event :: "ProviderEvent \<Rightarrow> EventRow list \<Rightarrow> bool" where
  "seen_event ev rows \<longleftrightarrow>
     (\<exists>r \<in> set rows. e_provider r = pe_provider ev \<and> e_event_id r = pe_event_id ev)"

definition lifecycle_after :: "VoipCall \<Rightarrow> ProviderEvent \<Rightarrow> CallState option" where
  "lifecycle_after c ev =
     (case lifecycle_event (pe_kind ev) of None \<Rightarrow> None | Some e \<Rightarrow> call_next (status_of c) e)"

text \<open>A delivery that is not in the ledger yet: \<open>c\<close> is the row as it was read.\<close>

definition first_delivery ::
  "decimal_ops \<Rightarrow> int \<Rightarrow> ProviderEvent \<Rightarrow> VoipWorld \<Rightarrow> VoipCall \<Rightarrow> db_error + Ingest \<times> VoipWorld" where
  "first_delivery D now ev w c =
     (case lifecycle_after c ev of
        None \<Rightarrow>
          Inr (Recorded (v_id c) (status_of c),
               (with_calls (update_call (v_id c) (side_effects ev)) w)
                 \<lparr>w_events := w_events w @ [event_row ev (v_id c) (status_of c) (status_of c)]\<rparr>)
      | Some new_state \<Rightarrow>
          (case move_call D now (with_calls (update_call (v_id c) (side_effects ev)) w) c ev new_state of
             Inl e \<Rightarrow> Inl e
           | Inr w2 \<Rightarrow>
               Inr (Applied (v_id c) (status_of c) new_state,
                    w2\<lparr>w_events := w_events w @ [event_row ev (v_id c) (status_of c) new_state]\<rparr>)))"

definition apply_provider_event ::
  "decimal_ops \<Rightarrow> (string \<Rightarrow> nat option) \<Rightarrow> int \<Rightarrow> ProviderEvent \<Rightarrow> VoipWorld
     \<Rightarrow> db_error + Ingest \<times> VoipWorld" where
  "apply_provider_event D parse_id now ev w =
     (case resolve_call parse_id (w_calls w) ev of
        (None, _) \<Rightarrow> Inr (Unknown, w)
      | (Some c, calls) \<Rightarrow>
          if seen_event ev (w_events w)
          then Inr (Duplicate (Some (v_id c)), w\<lparr>w_calls := calls\<rparr>)
          else first_delivery D now ev (w\<lparr>w_calls := calls\<rparr>) c)"

text \<open>The whole ingestion: the carrier's signature check, then the event; a database error is
  reported as a malformed delivery.\<close>

datatype WebhookError = Rejected_delivery string | Malformed db_error

definition ingest ::
  "('h \<Rightarrow> 'b \<Rightarrow> int \<Rightarrow> string + ProviderEvent) \<Rightarrow> decimal_ops \<Rightarrow> (string \<Rightarrow> nat option) \<Rightarrow> int
     \<Rightarrow> 'h \<Rightarrow> 'b \<Rightarrow> VoipWorld \<Rightarrow> (WebhookError + Ingest \<times> ProviderEvent) \<times> VoipWorld" where
  "ingest verify D parse_id now headers body w =
     (case verify headers body now of
        Inl e \<Rightarrow> (Inl (Rejected_delivery e), w)
      | Inr ev \<Rightarrow>
          (case apply_provider_event D parse_id now ev w of
             Inl e \<Rightarrow> (Inl (Malformed e), w)
           | Inr (out, w') \<Rightarrow> (Inr (out, ev), w')))"

section \<open>Sweeps\<close>

definition clamp :: "int \<Rightarrow> int \<Rightarrow> int \<Rightarrow> nat" where
  "clamp x lo hi = nat (min (max x lo) hi)"

definition minutes_us :: "int \<Rightarrow> int" where
  "minutes_us m = m * 60000000"

definition overruns :: "(nat \<Rightarrow> int option) \<Rightarrow> int \<Rightarrow> VoipCall \<Rightarrow> bool" where
  "overruns max_minutes now c \<longleftrightarrow>
     v_status c \<in> {''answered'', ''bridged'', ''ending''}
     \<and> (case v_answered_at c of
          None \<Rightarrow> False
        | Some a \<Rightarrow>
            a < now - minutes_us (case max_minutes (v_org_id c) of None \<Rightarrow> 60 | Some m \<Rightarrow> m))"

definition end_overrun :: "VoipCall \<Rightarrow> VoipCall" where
  "end_overrun c =
     (if v_status c \<in> {''answered'', ''bridged''}
      then c\<lparr>v_status := ''ending'',
             v_failure_reason := coalesce (v_failure_reason c) (Some ''max_duration_reached'')\<rparr>
      else c)"

text \<open>The second result is the legs hung up; hanging up is best effort.\<close>

definition reap_overrunning_calls ::
  "(nat \<Rightarrow> int option) \<Rightarrow> int \<Rightarrow> int \<Rightarrow> VoipCall list \<Rightarrow> VoipCall list \<times> string list \<times> nat" where
  "reap_overrunning_calls max_minutes now limit calls =
     (let rows = take (clamp limit 1 200)
                   (sort_key (\<lambda>c. case v_answered_at c of None \<Rightarrow> 0 | Some a \<Rightarrow> a)
                     (filter (overruns max_minutes now) calls))
      in (fold (\<lambda>r cs. update_call (v_id r) end_overrun cs) rows calls,
          concat (map v_legs rows), length rows))"

definition stall_grace_secs :: int where
  "stall_grace_secs = 600"

definition stalled :: "int \<Rightarrow> VoipCall \<Rightarrow> bool" where
  "stalled now c \<longleftrightarrow>
     v_status c \<in> {''created'', ''dialing'', ''ringing''} \<and> v_answered_at c = None
     \<and> v_started_at c < now - stall_grace_secs * 1000000"

definition fail_stalled_row :: "int \<Rightarrow> VoipCall \<Rightarrow> VoipCall" where
  "fail_stalled_row now c =
     c\<lparr>v_status := ''failed'',
       v_failure_reason := coalesce (v_failure_reason c) (Some ''provider_unavailable''),
       v_ended_at := coalesce (v_ended_at c) (Some now)\<rparr>"

definition fail_stalled_calls :: "int \<Rightarrow> int \<Rightarrow> VoipCall list \<Rightarrow> VoipCall list \<times> nat list" where
  "fail_stalled_calls now limit calls =
     (let ids = map v_id (take (clamp limit 1 500) (sort_key v_started_at (filter (stalled now) calls)))
      in (map (\<lambda>c. if v_id c \<in> set ids then fail_stalled_row now c else c) calls, ids))"

text \<open>
  The finished calls with an open hold. Each is settled in its own transaction; an error
  ends the sweep after the ones already done.
\<close>

definition unsettled :: "VoipWorld \<Rightarrow> VoipCall \<Rightarrow> bool" where
  "unsettled w c \<longleftrightarrow>
     v_status c \<in> {''completed'', ''failed''} \<and> open_for_call (w_holds w) (v_id c) \<noteq> None"

fun settle_rows ::
  "int \<Rightarrow> VoipCall list \<Rightarrow> nat \<Rightarrow> VoipDb \<Rightarrow> (db_error + nat) \<times> VoipDb" where
  "settle_rows now [] n h = (Inr n, h)"
| "settle_rows now (c # cs) n h =
     (case (if v_status c = ''completed''
            then settle h (v_id c) (v_session_id c) (v_credits_consumed c) now
            else release h (v_id c) (v_session_id c) now) of
        Inl e \<Rightarrow> (Inl e, h)
      | Inr (_, h') \<Rightarrow> settle_rows now cs (Suc n) h')"

definition ended_key :: "VoipCall \<Rightarrow> int \<times> int" where
  "ended_key c = (case v_ended_at c of None \<Rightarrow> (1, 0) | Some e \<Rightarrow> (0, e))"

definition settle_finished_calls ::
  "int \<Rightarrow> int \<Rightarrow> VoipWorld \<Rightarrow> (db_error + nat) \<times> VoipWorld" where
  "settle_finished_calls now limit w =
     (let rows = take (clamp limit 1 500) (sort_key ended_key (filter (unsettled w) (w_calls w)));
          (out, h) = settle_rows now rows 0 (w_holds w)
      in (out, w\<lparr>w_holds := h\<rparr>))"

text \<open>
  Cost reconciliation. \<open>cdr leg\<close> is the carrier's answer: an error, not rated yet, or a
  cost. An error ends the job.
\<close>

fun legs_cost :: "(string \<Rightarrow> unit + rat option) \<Rightarrow> string list \<Rightarrow> rat \<Rightarrow> bool \<Rightarrow> unit + rat \<times> bool" where
  "legs_cost cdr [] cost any = Inr (cost, any)"
| "legs_cost cdr (leg # legs) cost any =
     (case cdr leg of
        Inl _ \<Rightarrow> Inl ()
      | Inr None \<Rightarrow> legs_cost cdr legs cost any
      | Inr (Some k) \<Rightarrow> legs_cost cdr legs (cost + k) True)"

definition reconciled :: "decimal_ops \<Rightarrow> rat \<Rightarrow> VoipCall \<Rightarrow> VoipCall" where
  "reconciled D cost c =
     (let charge = (case v_customer_charge_usd c of None \<Rightarrow> 0 | Some x \<Rightarrow> x)
      in c\<lparr>v_actual_provider_cost_usd := Some cost, v_gross_margin := realised_margin D charge cost\<rparr>)"

fun reconcile_rows ::
  "decimal_ops \<Rightarrow> MarginPolicy \<Rightarrow> (string \<Rightarrow> unit + rat option) \<Rightarrow> VoipCall list \<Rightarrow> nat \<Rightarrow> nat list
     \<Rightarrow> VoipCall list \<Rightarrow> nat \<times> nat list \<times> VoipCall list" where
  "reconcile_rows D margin cdr [] done' breaches calls = (done', breaches, calls)"
| "reconcile_rows D margin cdr (r # rs) done' breaches calls =
     (case legs_cost cdr (v_legs r) 0 False of
        Inl _ \<Rightarrow> (done', breaches, calls)
      | Inr (cost, any) \<Rightarrow>
          if \<not> any then reconcile_rows D margin cdr rs done' breaches calls
          else
            let charge = (case v_customer_charge_usd r of None \<Rightarrow> 0 | Some x \<Rightarrow> x)
            in reconcile_rows D margin cdr rs (Suc done')
                 (if is_respected D margin charge cost then breaches else breaches @ [v_id r])
                 (update_call (v_id r) (reconciled D cost) calls))"

definition reconcilable :: "int \<Rightarrow> VoipCall \<Rightarrow> bool" where
  "reconcilable now c \<longleftrightarrow>
     v_status c = ''completed'' \<and> v_actual_provider_cost_usd c = None
     \<and> (case v_ended_at c of None \<Rightarrow> False | Some e \<Rightarrow> e > now - 7 * 24 * 60 * 60000000)"

definition reconcile_costs ::
  "decimal_ops \<Rightarrow> (PricingError + MarginPolicy) option \<Rightarrow> (string \<Rightarrow> unit + rat option) \<Rightarrow> int \<Rightarrow> int
     \<Rightarrow> VoipCall list \<Rightarrow> nat \<times> nat list \<times> VoipCall list" where
  "reconcile_costs D margin cdr now limit calls =
     (case margin of
        Some (Inr m) \<Rightarrow>
          reconcile_rows D m cdr
            (take (clamp limit 1 200)
              (sort_key (\<lambda>c. case v_ended_at c of None \<Rightarrow> 0 | Some e \<Rightarrow> - e)
                (filter (reconcilable now) calls))) 0 [] calls
      | _ \<Rightarrow> (0, [], calls))"

section \<open>How a row moves\<close>

lemma update_call_comp:
  "(\<And>c. v_id (g c) = v_id c) \<Longrightarrow>
     update_call i f (update_call i g cs) = update_call i (\<lambda>c. f (g c)) cs"
  by (simp add: update_call_def)

lemma update_call_ident: "(\<And>c. c \<in> set cs \<Longrightarrow> v_id c = i \<Longrightarrow> f c = c) \<Longrightarrow> update_call i f cs = cs"
  by (simp add: update_call_def map_idI)

lemma row_steps_id [simp]:
  "v_id (add_leg leg c) = v_id c" "v_id (side_effects ev c) = v_id c"
  "v_id (advance s ev e d c) = v_id c" "v_id (charge_call k c) = v_id c"
  by (simp_all add: add_leg_def side_effects_def advance_def charge_call_def
      split: ProviderEventKind.split)

lemma row_steps_status [simp]:
  "v_status (add_leg leg c) = v_status c" "v_status (side_effects ev c) = v_status c"
  "v_status (advance s ev e d c) = callstate_as_str s" "v_status (charge_call k c) = v_status c"
  by (simp_all add: add_leg_def side_effects_def advance_def charge_call_def
      split: ProviderEventKind.split)

lemma row_steps_legs [simp]:
  "v_legs (side_effects ev c) = v_legs c" "v_legs (advance s ev e d c) = v_legs c"
  "v_legs (charge_call k c) = v_legs c"
  by (simp_all add: side_effects_def advance_def charge_call_def split: ProviderEventKind.split)

lemma add_leg_legs: "set (v_legs (add_leg leg c)) = insert leg (set (v_legs c))"
  by (auto simp: add_leg_def)

lemma add_leg_idem: "leg \<in> set (v_legs c) \<Longrightarrow> add_leg leg c = c"
  by (simp add: add_leg_def)

lemma settle_credits_le: "settle_credits D p s \<le> i32_max"
  by (simp add: settle_credits_def credits_ceil_def to_i32_or_max_def in_i32_def i32_max_def)

text \<open>The column is an \<open>INTEGER\<close>.\<close>

definition credits_in_range :: "VoipCall \<Rightarrow> bool" where
  "credits_in_range c \<longleftrightarrow> v_credits_consumed c \<le> i32_max"

lemma row_steps_credits [simp]:
  "credits_in_range (add_leg leg c) = credits_in_range c"
  "credits_in_range (side_effects ev c) = credits_in_range c"
  "credits_in_range (advance s ev e d c) = credits_in_range c"
  "credits_in_range (charge_call k c) = (k \<le> i32_max)"
  by (simp_all add: credits_in_range_def add_leg_def side_effects_def advance_def charge_call_def
      split: ProviderEventKind.split)

text \<open>What settlement and the move leave of the world.\<close>

lemma settle_call_world:
  assumes "settle_call D now w call session st price d = Inr w'"
  shows "\<exists>k. k \<le> i32_max \<and> w_calls w' = update_call call (charge_call k) (w_calls w)"
    and "w_events w' = w_events w"
proof -
  define k where "k = (if st = Completed
    then settle_credits D (case price of None \<Rightarrow> 0 | Some p \<Rightarrow> p) (nat (max d 0)) else 0)"
  have "0 \<le> i32_max" by (simp add: i32_max_def)
  then have "k \<le> i32_max" using settle_credits_le by (simp add: k_def)
  moreover have "w_calls w' = update_call call (charge_call k) (w_calls w) \<and> w_events w' = w_events w"
    using assms by (auto simp: settle_call_def Let_def k_def split: sum.splits prod.splits)
  ultimately show "\<exists>k. k \<le> i32_max \<and> w_calls w' = update_call call (charge_call k) (w_calls w)"
    "w_events w' = w_events w" by blast+
qed

lemma move_call_world:
  assumes "move_call D now w c ev s = Inr w'"
  shows "\<exists>g. w_calls w' = update_call (v_id c) g (w_calls w)
     \<and> (\<forall>r. v_id (g r) = v_id r \<and> v_legs (g r) = v_legs r \<and> v_status (g r) = callstate_as_str s
          \<and> (credits_in_range r \<longrightarrow> credits_in_range (g r)))"
proof -
  define ended where "ended = (if is_terminal s then Some (pe_occurred_at ev) else None)"
  define duration where "duration = call_seconds
    (if s = Answered \<and> v_answered_at c = None then Some (pe_occurred_at ev) else v_answered_at c) ended"
  let ?w = "with_calls (update_call (v_id c) (advance s ev ended duration)) w"
  show ?thesis
  proof (cases "is_terminal s")
    case True
    then have "settle_call D now ?w (v_id c) (v_session_id c) s (v_quoted_price_per_min c)
        (case duration of None \<Rightarrow> 0 | Some d \<Rightarrow> d) = Inr w'"
      using assms by (simp add: move_call_def Let_def ended_def duration_def)
    from settle_call_world(1) [OF this] obtain k where "k \<le> i32_max"
      "w_calls w' = update_call (v_id c) (\<lambda>r. charge_call k (advance s ev ended duration r)) (w_calls w)"
      by (auto simp: update_call_comp)
    then show ?thesis by (intro exI [of _ "\<lambda>r. charge_call k (advance s ev ended duration r)"]) simp
  next
    case False
    then have "w' = ?w" using assms by (simp add: move_call_def Let_def ended_def duration_def)
    then show ?thesis by (intro exI [of _ "advance s ev ended duration"]) simp
  qed
qed

text \<open>The resolved call, and what resolving does to the rows.\<close>

lemma resolve_call_Some:
  assumes "resolve_call parse_id calls ev = (Some c, calls')"
  obtains (by_id) i where "find_call calls i = Some c" "v_id c = i"
      "(case pe_client_state ev of None \<Rightarrow> None | Some s \<Rightarrow> parse_id s) = Some i"
      "calls' = update_call (v_id c) (add_leg (pe_leg_id ev)) calls"
  | (by_leg) "fetch_call_by_leg calls (pe_leg_id ev) = Some c" "calls' = calls"
      "\<And>i. (case pe_client_state ev of None \<Rightarrow> None | Some s \<Rightarrow> parse_id s) = Some i \<Longrightarrow> find_call calls i = None"
proof -
  show thesis
  proof (cases "case pe_client_state ev of None \<Rightarrow> None | Some s \<Rightarrow> parse_id s")
    case None
    with assms show thesis by (intro by_leg) (auto simp: resolve_call_def)
  next
    case (Some i)
    show thesis
    proof (cases "find_call calls i")
      case None
      with Some assms show thesis by (intro by_leg) (auto simp: resolve_call_def)
    next
      case (Some c')
      note f = this
      with \<open>(case pe_client_state ev of None \<Rightarrow> None | Some s \<Rightarrow> parse_id s) = Some i\<close> assms
      have "c' = c" "calls' = update_call i (add_leg (pe_leg_id ev)) calls"
        by (simp_all add: resolve_call_def)
      with f \<open>(case pe_client_state ev of None \<Rightarrow> None | Some s \<Rightarrow> parse_id s) = Some i\<close>
      show thesis using find_call_id [OF f] by (intro by_id) simp_all
    qed
  qed
qed

lemma fetch_by_leg_in: "fetch_call_by_leg calls leg = Some c \<Longrightarrow> c \<in> set calls \<and> leg \<in> set (v_legs c)"
  by (auto simp: fetch_call_by_leg_def dest: find_SomeD)

lemma resolve_call_in:
  assumes "resolve_call parse_id calls ev = (Some c, calls')"
  shows "c \<in> set calls"
  using assms
proof (cases rule: resolve_call_Some)
  case by_id
  then show ?thesis using find_call_id by blast
next
  case by_leg
  then show ?thesis using fetch_by_leg_in by blast
qed

text \<open>One event in normal form: the call it is about, and one function of its row.\<close>

lemma apply_event_shape:
  assumes "apply_provider_event D parse_id now ev w = Inr (out, w')" and "out \<noteq> Unknown"
  obtains c calls g where "resolve_call parse_id (w_calls w) ev = (Some c, calls)"
    and "w_calls w' = update_call (v_id c) g calls"
    and "\<And>r. v_id (g r) = v_id r" and "\<And>r. v_legs (g r) = v_legs r"
    and "\<And>r. credits_in_range r \<Longrightarrow> credits_in_range (g r)"
    and "(\<forall>r. v_status (g r) = v_status r)
       \<or> (\<exists>e t. call_next (status_of c) e = Some t \<and> (\<forall>r. v_status (g r) = callstate_as_str t))"
    and "seen_event ev (w_events w')"
proof -
  obtain co calls where res: "resolve_call parse_id (w_calls w) ev = (co, calls)" by fastforce
  with assms obtain c where co: "co = Some c" by (cases co) (auto simp: apply_provider_event_def)
  show thesis
  proof (cases "seen_event ev (w_events w)")
    case True
    with assms(1) res co have "w' = w\<lparr>w_calls := calls\<rparr>" by (simp add: apply_provider_event_def)
    with True res co show thesis
      by (intro that [of c calls "\<lambda>r. r"]) (simp_all add: update_call_ident)
  next
    case False
    let ?w = "w\<lparr>w_calls := calls\<rparr>"
    from assms(1) res co False have first: "first_delivery D now ev ?w c = Inr (out, w')"
      by (simp add: apply_provider_event_def)
    show thesis
    proof (cases "lifecycle_after c ev")
      case None
      with first have "w_calls w' = update_call (v_id c) (side_effects ev) calls"
        "seen_event ev (w_events w')"
        by (auto simp: first_delivery_def seen_event_def event_row_def)
      with res co show thesis by (intro that [of c calls "side_effects ev"]) simp_all
    next
      case (Some t)
      then obtain e where e: "call_next (status_of c) e = Some t"
        by (auto simp: lifecycle_after_def split: option.splits)
      from Some first obtain w2 where
        w2: "move_call D now (with_calls (update_call (v_id c) (side_effects ev)) ?w) c ev t = Inr w2"
        and w': "w' = w2\<lparr>w_events := w_events w @ [event_row ev (v_id c) (status_of c) t]\<rparr>"
        by (auto simp: first_delivery_def split: sum.splits)
      from move_call_world [OF w2] obtain g where
        g: "w_calls w2 = update_call (v_id c) g (update_call (v_id c) (side_effects ev) calls)"
          "\<forall>r. v_id (g r) = v_id r \<and> v_legs (g r) = v_legs r \<and> v_status (g r) = callstate_as_str t
            \<and> (credits_in_range r \<longrightarrow> credits_in_range (g r))"
        by auto
      then have "w_calls w' = update_call (v_id c) (\<lambda>r. g (side_effects ev r)) calls"
        using w' by (simp add: update_call_comp)
      moreover have "seen_event ev (w_events w')"
        using w' by (auto simp: seen_event_def event_row_def)
      ultimately show thesis
        using res co g(2) e
        by (intro that [of c calls "\<lambda>r. g (side_effects ev r)"]) (auto intro!: disjI2 exI)
    qed
  qed
qed

lemma find_call_update_other:
  "(\<And>r. v_id (g r) = v_id r) \<Longrightarrow> find_call cs i = None \<Longrightarrow> find_call (update_call j g cs) i = None"
  by (auto simp: find_update_call)

text \<open>The same event resolves to the same call again and changes nothing.\<close>

lemma resolve_again:
  assumes res: "resolve_call parse_id cs0 ev = (Some c, calls)"
    and g: "\<And>r. v_id (g r) = v_id r" "\<And>r. v_legs (g r) = v_legs r"
  shows "\<exists>c'. v_id c' = v_id c
    \<and> resolve_call parse_id (update_call (v_id c) g calls) ev = (Some c', update_call (v_id c) g calls)"
  using res
proof (cases rule: resolve_call_Some)
  case (by_id i)
  let ?calls = "update_call (v_id c) g calls"
  have "find_call calls i = Some (add_leg (pe_leg_id ev) c)"
    using by_id by (simp add: find_update_call)
  then have f: "find_call ?calls i = Some (g (add_leg (pe_leg_id ev) c))"
    using by_id(2) g(1) by (simp add: find_update_call)
  have "update_call i (add_leg (pe_leg_id ev)) ?calls = ?calls"
    using by_id by (intro update_call_ident) (auto simp: update_call_def add_leg_idem g add_leg_legs)
  with f by_id g(1) show ?thesis by (auto simp: resolve_call_def)
next
  case by_leg
  let ?calls = "update_call (v_id c) g calls"
  have "find (\<lambda>c. leg \<in> set (v_legs c)) (update_call (v_id c) g cs) =
      map_option (\<lambda>r. if v_id r = v_id c then g r else r) (find (\<lambda>c. leg \<in> set (v_legs c)) cs)" for cs leg
    by (induction cs) (auto simp: update_call_def g)
  then have "fetch_call_by_leg ?calls (pe_leg_id ev) = Some (g c)"
    using by_leg(1,2) by (simp add: fetch_call_by_leg_def)
  moreover have "find_call ?calls i = None"
    if "(case pe_client_state ev of None \<Rightarrow> None | Some s \<Rightarrow> parse_id s) = Some i" for i
    using by_leg(2,3) that find_call_update_other [OF g(1)] by simp
  ultimately have "resolve_call parse_id ?calls ev = (Some (g c), ?calls)"
    by (auto simp: resolve_call_def split: option.split)
  with g(1) show ?thesis by blast
qed

text \<open>The call that an outcome names.\<close>

fun ingest_call :: "Ingest \<Rightarrow> nat option" where
  "ingest_call Unknown = None"
| "ingest_call (Duplicate i) = i"
| "ingest_call (Recorded i _) = Some i"
| "ingest_call (Applied i _ _) = Some i"

lemma ingest_call_resolved:
  assumes "apply_provider_event D parse_id now ev w = Inr (out, w')"
    and "resolve_call parse_id (w_calls w) ev = (Some c, calls)"
  shows "ingest_call out = Some (v_id c)"
  using assms
  by (cases "seen_event ev (w_events w)")
    (auto simp: apply_provider_event_def first_delivery_def split: option.splits sum.splits)

text \<open>
  C7: An event about a known call takes effect exactly once: the same delivery again, at once,
  is reported as a duplicate of the very call that the first one named and changes nothing at
  all; and as long as the ledger keeps it, in whatever state the tables are by then, a
  redelivery is at most a duplicate and touches no money, no event and no status. An event of
  a call that is not known is recorded nowhere and is excepted.
\<close>

theorem delivered_exactly_once:
  assumes "apply_provider_event D parse_id now ev w = Inr (out, w')" and "out \<noteq> Unknown"
  shows "(\<exists>i. ingest_call out = Some i \<and> apply_provider_event D parse_id now2 ev w' = Inr (Duplicate (Some i), w'))
     \<and> (set (w_events w') \<subseteq> set (w_events w2) \<longrightarrow>
          (\<exists>out2 w3. apply_provider_event D parse_id now2 ev w2 = Inr (out2, w3)
             \<and> (out2 = Unknown \<or> (\<exists>j. out2 = Duplicate (Some j)))
             \<and> w_holds w3 = w_holds w2 \<and> w_events w3 = w_events w2
             \<and> map v_status (w_calls w3) = map v_status (w_calls w2)
             \<and> map v_credits_consumed (w_calls w3) = map v_credits_consumed (w_calls w2)))"
proof -
  from assms obtain c calls g where res: "resolve_call parse_id (w_calls w) ev = (Some c, calls)"
    and calls': "w_calls w' = update_call (v_id c) g calls"
    and g: "\<And>r. v_id (g r) = v_id r" "\<And>r. v_legs (g r) = v_legs r"
    and seen: "seen_event ev (w_events w')"
    by (elim apply_event_shape) auto
  from resolve_again [OF res g] obtain c' where
    "resolve_call parse_id (w_calls w') ev = (Some c', w_calls w')" "v_id c' = v_id c"
    by (auto simp: calls')
  with seen have "apply_provider_event D parse_id now2 ev w' = Inr (Duplicate (Some (v_id c)), w')"
    by (simp add: apply_provider_event_def)
  moreover have "ingest_call out = Some (v_id c)" by (rule ingest_call_resolved [OF assms(1) res])
  moreover have "\<exists>out2 w3. apply_provider_event D parse_id now2 ev w2 = Inr (out2, w3)
       \<and> (out2 = Unknown \<or> (\<exists>j. out2 = Duplicate (Some j)))
       \<and> w_holds w3 = w_holds w2 \<and> w_events w3 = w_events w2
       \<and> map v_status (w_calls w3) = map v_status (w_calls w2)
       \<and> map v_credits_consumed (w_calls w3) = map v_credits_consumed (w_calls w2)"
    if "set (w_events w') \<subseteq> set (w_events w2)"
  proof -
    have "seen_event ev (w_events w2)" using seen that by (auto simp: seen_event_def)
    moreover obtain co cs where r2: "resolve_call parse_id (w_calls w2) ev = (co, cs)" by fastforce
    moreover have "map v_status cs = map v_status (w_calls w2)"
      "map v_credits_consumed cs = map v_credits_consumed (w_calls w2)"
      using r2 by (auto simp: resolve_call_def update_call_def add_leg_def split: option.splits)
    ultimately show ?thesis
      by (cases co) (auto simp: apply_provider_event_def)
  qed
  ultimately show ?thesis by blast
qed

section \<open>The money and the order, over any sequence\<close>

text \<open>\<open>c'\<close> is a later state of \<open>c\<close>: the same status, or a later one.\<close>

definition advances :: "VoipCall \<Rightarrow> VoipCall \<Rightarrow> bool" where
  "advances c c' \<longleftrightarrow> v_id c' = v_id c \<and>
     (v_status c' = v_status c \<or> callstate_rank (status_of c) < callstate_rank (status_of c'))"

lemma advances_refl [simp]: "advances c c"
  by (simp add: advances_def)

lemma advances_trans: "advances a b \<Longrightarrow> advances b c \<Longrightarrow> advances a c"
  by (auto simp: advances_def status_of_def)

lemma all_advance_trans:
  "list_all2 advances xs ys \<Longrightarrow> list_all2 advances ys zs \<Longrightarrow> list_all2 advances xs zs"
  using list_all2_trans [of advances advances advances] advances_trans by blast

lemma advance_update:
  assumes "\<And>r. r \<in> set cs \<Longrightarrow> v_id r = i \<Longrightarrow> advances r (f r)"
  shows "list_all2 advances cs (update_call i f cs)"
  using assms by (auto simp: update_call_def list_all2_conv_all_nth)

lemma advances_ids: "list_all2 advances xs ys \<Longrightarrow> map v_id ys = map v_id xs"
  by (induction rule: list_all2_induct) (auto simp: advances_def)

definition world_ok :: "(nat \<Rightarrow> int) \<Rightarrow> VoipWorld \<Rightarrow> bool" where
  "world_ok ttl w \<longleftrightarrow>
     accounts_for org_balance (w_holds w) ttl \<and> distinct (map v_id (w_calls w))
     \<and> (\<forall>c \<in> set (w_calls w). credits_in_range c)"

lemma settle_call_accounts:
  assumes "accounts_for org_balance (w_holds w) ttl"
    and "settle_call D now w call session st price d = Inr w'"
  shows "accounts_for org_balance (w_holds w') ttl"
  using assms(2)
  by (auto simp: settle_call_def Let_def settle_tx_def release_tx_def split: sum.splits if_splits
      intro: org_pool.settle_accounts [OF assms(1) settle_credits_le]
        org_pool.release_accounts [OF assms(1)])

lemma move_call_accounts:
  assumes "accounts_for org_balance (w_holds w) ttl" and "move_call D now w c ev s = Inr w'"
  shows "accounts_for org_balance (w_holds w') ttl"
  using assms by (auto simp: move_call_def Let_def split: if_splits intro: settle_call_accounts [rotated])

lemma apply_accounts:
  assumes "accounts_for org_balance (w_holds w) ttl"
    and "apply_provider_event D parse_id now ev w = Inr (out, w')"
  shows "accounts_for org_balance (w_holds w') ttl"
  using assms
  by (auto simp: apply_provider_event_def first_delivery_def split: option.splits prod.splits if_splits sum.splits
      dest!: move_call_accounts [rotated])

lemma apply_advances:
  assumes dist: "distinct (map v_id (w_calls w))"
    and run: "apply_provider_event D parse_id now ev w = Inr (out, w')"
  shows "list_all2 advances (w_calls w) (w_calls w')"
proof (cases "out = Unknown")
  case True
  with run have "w' = w"
    by (auto simp: apply_provider_event_def first_delivery_def split: option.splits prod.splits if_splits sum.splits)
  then show ?thesis by (simp add: list_all2_same)
next
  case False
  from run False obtain c calls g where res: "resolve_call parse_id (w_calls w) ev = (Some c, calls)"
    and calls': "w_calls w' = update_call (v_id c) g calls"
    and g: "\<And>r. v_id (g r) = v_id r"
      "(\<forall>r. v_status (g r) = v_status r)
       \<or> (\<exists>e t. call_next (status_of c) e = Some t \<and> (\<forall>r. v_status (g r) = callstate_as_str t))"
    by (elim apply_event_shape) auto
  have cin: "c \<in> set (w_calls w)" using resolve_call_in [OF res] .
  have step: "advances r (g (h r))"
    if "r \<in> set (w_calls w)" "v_id r = v_id c" "\<And>r. v_id (h r) = v_id r" "\<And>r. v_status (h r) = v_status r" for r h
  proof -
    have "r = c" using that cin distinct_find_call [OF dist] by (metis option.inject)
    from g(2) show ?thesis
    proof (elim disjE exE conjE)
      assume "\<forall>r. v_status (g r) = v_status r"
      with that g(1) show ?thesis by (simp add: advances_def)
    next
      fix e t
      assume e: "call_next (status_of c) e = Some t" and t: "\<forall>r. v_status (g r) = callstate_as_str t"
      then have "status_of (g (h r)) = t" by simp
      with call_next_forward [OF e] that(2,3) g(1) \<open>r = c\<close> show ?thesis by (simp add: advances_def)
    qed
  qed
  from res show ?thesis
  proof (cases rule: resolve_call_Some)
    case (by_id i)
    then have "w_calls w' = update_call (v_id c) (\<lambda>r. g (add_leg (pe_leg_id ev) r)) (w_calls w)"
      using calls' by (simp add: update_call_comp)
    then show ?thesis using step [of _ "add_leg (pe_leg_id ev)"] by (simp add: advance_update)
  next
    case by_leg
    then show ?thesis using calls' step [of _ "\<lambda>r. r"] by (simp add: advance_update)
  qed
qed

lemma apply_in_range:
  assumes "\<forall>c \<in> set (w_calls w). credits_in_range c"
    and run: "apply_provider_event D parse_id now ev w = Inr (out, w')"
  shows "\<forall>c \<in> set (w_calls w'). credits_in_range c"
proof (cases "out = Unknown")
  case True
  with run have "w' = w"
    by (auto simp: apply_provider_event_def first_delivery_def split: option.splits prod.splits if_splits sum.splits)
  with assms(1) show ?thesis by simp
next
  case False
  from run False obtain c calls g where res: "resolve_call parse_id (w_calls w) ev = (Some c, calls)"
    and calls': "w_calls w' = update_call (v_id c) g calls"
    and g: "\<And>r. credits_in_range r \<Longrightarrow> credits_in_range (g r)"
    by (elim apply_event_shape) auto
  have "\<forall>c \<in> set calls. credits_in_range c"
    using res assms(1) by (auto simp: resolve_call_def update_call_def split: option.splits)
  then show ?thesis using g by (auto simp: calls' update_call_def)
qed

lemma apply_world_ok:
  assumes "world_ok ttl w" and "apply_provider_event D parse_id now ev w = Inr (out, w')"
  shows "world_ok ttl w' \<and> list_all2 advances (w_calls w) (w_calls w')"
proof -
  have "list_all2 advances (w_calls w) (w_calls w')"
    using assms by (intro apply_advances) (auto simp: world_ok_def)
  with assms apply_accounts apply_in_range advances_ids show ?thesis
    by (auto simp: world_ok_def)
qed

text \<open>The sweeps.\<close>

lemma end_overrun_advances: "advances c (end_overrun c)"
  by (auto simp: advances_def end_overrun_def status_of_def callstate_parse_def)

lemma end_overrun_range [simp]: "credits_in_range (end_overrun c) = credits_in_range c"
  by (simp add: end_overrun_def credits_in_range_def)

lemma reap_advances:
  "list_all2 advances calls (fst (reap_overrunning_calls mm now limit calls))
   \<and> ((\<forall>c \<in> set calls. credits_in_range c) \<longrightarrow>
        (\<forall>c \<in> set (fst (reap_overrunning_calls mm now limit calls)). credits_in_range c))"
proof -
  have "list_all2 advances cs (fold (\<lambda>r cs. update_call (v_id r) end_overrun cs) rows cs)
   \<and> ((\<forall>c \<in> set cs. credits_in_range c) \<longrightarrow>
        (\<forall>c \<in> set (fold (\<lambda>r cs. update_call (v_id r) end_overrun cs) rows cs). credits_in_range c))" for rows cs
  proof (induction rows arbitrary: cs)
    case Nil
    then show ?case by (simp add: list_all2_same)
  next
    case (Cons r rows)
    have "list_all2 advances cs (update_call (v_id r) end_overrun cs)"
      by (intro advance_update end_overrun_advances)
    moreover have "(\<forall>c \<in> set cs. credits_in_range c) \<longrightarrow>
        (\<forall>c \<in> set (update_call (v_id r) end_overrun cs). credits_in_range c)"
      by (auto simp: update_call_def)
    ultimately show ?case
      using Cons.IH [of "update_call (v_id r) end_overrun cs"] all_advance_trans by auto
  qed
  then show ?thesis by (simp add: reap_overrunning_calls_def Let_def)
qed

lemma stall_advances:
  assumes "distinct (map v_id calls)"
  shows "list_all2 advances calls (fst (fail_stalled_calls now limit calls))
   \<and> ((\<forall>c \<in> set calls. credits_in_range c) \<longrightarrow>
        (\<forall>c \<in> set (fst (fail_stalled_calls now limit calls)). credits_in_range c))"
proof -
  define rows where "rows = take (clamp limit 1 500) (sort_key v_started_at (filter (stalled now) calls))"
  have rows: "r \<in> set calls \<and> stalled now r" if "r \<in> set rows" for r
    using that set_take_subset unfolding rows_def by fastforce
  have "advances c (if v_id c \<in> v_id ` set rows then fail_stalled_row now c else c)" if "c \<in> set calls" for c
  proof (cases "v_id c \<in> v_id ` set rows")
    case True
    then obtain r where r: "r \<in> set rows" "v_id r = v_id c" by auto
    with rows have "r = c" using that distinct_find_call [OF assms] by (metis option.inject)
    with rows r have "stalled now c" by simp
    then show ?thesis
      by (auto simp: advances_def fail_stalled_row_def stalled_def status_of_def callstate_parse_def)
  next
    case False
    then show ?thesis by simp
  qed
  moreover have "credits_in_range (fail_stalled_row now c) = credits_in_range c" for c
    by (simp add: credits_in_range_def fail_stalled_row_def)
  ultimately show ?thesis
    by (auto simp: fail_stalled_calls_def Let_def rows_def [symmetric] list_all2_conv_all_nth)
qed

lemma settle_rows_accounts:
  assumes "accounts_for org_balance h ttl" and "\<forall>c \<in> set cs. credits_in_range c"
  shows "accounts_for org_balance (snd (settle_rows now cs n h)) ttl"
  using assms
proof (induction cs arbitrary: n h)
  case Nil
  then show ?case by simp
next
  case (Cons c cs)
  let ?r = "if v_status c = ''completed''
            then settle h (v_id c) (v_session_id c) (v_credits_consumed c) now
            else release h (v_id c) (v_session_id c) now"
  show ?case
  proof (cases ?r)
    case (Inl e)
    with Cons.prems show ?thesis by simp
  next
    case (Inr p)
    obtain s h' where p: "p = (s, h')" by fastforce
    have "v_credits_consumed c \<le> i32_max" using Cons.prems(2) by (simp add: credits_in_range_def)
    then have "accounts_for org_balance h' ttl"
      using Inr p org_pool.settle_accounts [OF Cons.prems(1)] org_pool.release_accounts [OF Cons.prems(1)]
      by (auto simp: settle_alt release_alt settle_tx_def release_tx_def split: if_splits)
    with Cons Inr p show ?thesis by simp
  qed
qed

datatype world_op =
  Deliver ProviderEvent int
| ReapSweep int int
| StallSweep int int
| SettleSweep int int

fun world_step ::
  "decimal_ops \<Rightarrow> (string \<Rightarrow> nat option) \<Rightarrow> (nat \<Rightarrow> int option) \<Rightarrow> VoipWorld \<Rightarrow> world_op \<Rightarrow> VoipWorld" where
  "world_step D parse_id mm w (Deliver ev now) =
     (case apply_provider_event D parse_id now ev w of Inl e \<Rightarrow> w | Inr (_, w') \<Rightarrow> w')"
| "world_step D parse_id mm w (ReapSweep now limit) =
     with_calls (\<lambda>cs. fst (reap_overrunning_calls mm now limit cs)) w"
| "world_step D parse_id mm w (StallSweep now limit) =
     with_calls (\<lambda>cs. fst (fail_stalled_calls now limit cs)) w"
| "world_step D parse_id mm w (SettleSweep now limit) = snd (settle_finished_calls now limit w)"

lemma world_step_ok:
  assumes "world_ok ttl w"
  shows "world_ok ttl (world_step D parse_id mm w x)
     \<and> list_all2 advances (w_calls w) (w_calls (world_step D parse_id mm w x))"
proof (cases x)
  case (Deliver ev now)
  show ?thesis
  proof (cases "apply_provider_event D parse_id now ev w")
    case (Inl e)
    with Deliver assms show ?thesis by (simp add: list_all2_same)
  next
    case (Inr p)
    with Deliver assms apply_world_ok [OF assms, of D parse_id now ev "fst p" "snd p"] show ?thesis
      by (cases p) simp
  qed
next
  case (ReapSweep now limit)
  with assms reap_advances [of "w_calls w" mm now limit] advances_ids show ?thesis
    by (auto simp: world_ok_def)
next
  case (StallSweep now limit)
  with assms stall_advances [of "w_calls w" now limit] advances_ids show ?thesis
    by (auto simp: world_ok_def)
next
  case (SettleSweep now limit)
  define rows where "rows = take (clamp limit 1 500) (sort_key ended_key (filter (unsettled w) (w_calls w)))"
  have "set rows \<subseteq> set (w_calls w)" using set_take_subset unfolding rows_def by fastforce
  then have "\<forall>c \<in> set rows. credits_in_range c" using assms by (auto simp: world_ok_def)
  moreover have "accounts_for org_balance (w_holds w) ttl" using assms by (simp add: world_ok_def)
  ultimately have "accounts_for org_balance (snd (settle_rows now rows 0 (w_holds w))) ttl"
    by (intro settle_rows_accounts)
  with assms SettleSweep show ?thesis
    by (auto simp: settle_finished_calls_def Let_def rows_def [symmetric] world_ok_def list_all2_same
        split: prod.splits)
qed

lemma world_steps_ok:
  "world_ok ttl w \<Longrightarrow> world_ok ttl (foldl (world_step D parse_id mm) w ops)
     \<and> list_all2 advances (w_calls w) (w_calls (foldl (world_step D parse_id mm) w ops))"
proof (induction ops arbitrary: w)
  case Nil
  then show ?case by (simp add: list_all2_same)
next
  case (Cons x ops)
  note s = world_step_ok [OF Cons.prems, of D parse_id mm x]
  with Cons.IH [of "world_step D parse_id mm w x"] all_advance_trans show ?case by auto
qed

section \<open>Properties of the whole\<close>

text \<open>A call on hold, as the tables have it: session 70, a hold of 60 credits at 26 cents.\<close>

definition sample_row :: "string \<Rightarrow> int option \<Rightarrow> VoipCall" where
  "sample_row status answered =
     \<lparr>v_id = 7, v_session_id = 70, v_org_id = 1, v_user_id = Some 3, v_legs = [''leg''],
      v_recipient_e164 = ''+393201234567'', v_target_language = [], v_engine_id = ''e'',
      v_status = status, v_failure_reason = None, v_started_at = 0, v_answered_at = answered,
      v_ended_at = None, v_duration_seconds = None, v_recording_status = ''none'',
      v_recording_started_at = None, v_recording_url = None, v_recording_id = None,
      v_transcription_status = ''none'', v_transcription_started_at = None,
      v_consent_policy = ''notice_only'', v_consent_status = ''not_required'',
      v_disclosure_played_at = None, v_disclosure_language = None,
      v_consent_received_at = None, v_estimated_cost_usd = None,
      v_quoted_price_per_min = Some (26 / 100), v_actual_provider_cost_usd = None,
      v_customer_charge_usd = None, v_credits_consumed = 0, v_gross_margin = None,
      v_ai_analysis_requested = False\<rparr>"

definition sample_world :: "string \<Rightarrow> int option \<Rightarrow> VoipWorld" where
  "sample_world status answered =
     \<lparr>w_holds = sample_held, w_calls = [sample_row status answered], w_events = []\<rparr>"

definition sample_event :: "string \<Rightarrow> int \<Rightarrow> ProviderEventKind \<Rightarrow> ProviderEvent" where
  "sample_event i t k = \<lparr>pe_provider = ''p'', pe_event_id = i, pe_leg_id = ''leg'',
     pe_client_state = None, pe_occurred_at = t, pe_kind = k\<rparr>"

lemma sample_world_ok: "world_ok (\<lambda>o'. if o' = 1 then 100 else 0) (sample_world status answered)"
  using sample_held_accounts
  by (simp add: world_ok_def sample_world_def sample_row_def credits_in_range_def i32_max_def)

lemma sample_resolve:
  "resolve_call (\<lambda>_. None) [sample_row status answered] (sample_event i t k) =
     (Some (sample_row status answered), [sample_row status answered])"
  by (simp add: resolve_call_def sample_event_def fetch_call_by_leg_def sample_row_def)

lemma sample_row_sel [simp]:
  "v_id (sample_row st a) = 7" "v_status (sample_row st a) = st" "v_answered_at (sample_row st a) = a"
  "v_quoted_price_per_min (sample_row st a) = Some (26 / 100)"
  "v_duration_seconds (sample_row st a) = None"
  by (simp_all add: sample_row_def)

lemma sample_event_sel [simp]:
  "pe_kind (sample_event i t k) = k" "pe_occurred_at (sample_event i t k) = t"
  by (simp_all add: sample_event_def)

lemma sample_world_sel [simp]:
  "w_calls (sample_world st a) = [sample_row st a]" "w_events (sample_world st a) = []"
  "w_holds (sample_world st a) = sample_held"
  by (simp_all add: sample_world_def)

lemma sample_status:
  "status_of (sample_row ''dialing'' None) = Dialing" "status_of (sample_row ''bridged'' a) = Bridged"
  by (simp_all add: status_of_def callstate_parse_def)

lemma seen_Nil [simp]: "\<not> seen_event ev []"
  by (simp add: seen_event_def)

lemma sample_ringing_recorded:
  "\<exists>w'. apply_provider_event D (\<lambda>_. None) 0 (sample_event ''e1'' 5 KRinging) (sample_world ''dialing'' None)
     = Inr (Applied 7 Dialing Ringing, w')"
  by (simp add: apply_provider_event_def sample_resolve first_delivery_def lifecycle_after_def
      sample_status call_next_def is_terminal_def forward_to_def move_call_def)

theorem delivered_exactly_once_witness:
  "\<exists>w' i. apply_provider_event exact_decimal (\<lambda>_. None) 0 (sample_event ''e1'' 5 KRinging)
       (sample_world ''dialing'' None) = Inr (Applied 7 Dialing Ringing, w')
     \<and> apply_provider_event exact_decimal (\<lambda>_. None) 9 (sample_event ''e1'' 5 KRinging) w' =
         Inr (Duplicate (Some i), w')"
proof -
  obtain w' where w': "apply_provider_event exact_decimal (\<lambda>_. None) 0 (sample_event ''e1'' 5 KRinging)
       (sample_world ''dialing'' None) = Inr (Applied 7 Dialing Ringing, w')"
    using sample_ringing_recorded by blast
  with delivered_exactly_once [OF w', of 9] show ?thesis by blast
qed

text \<open>
  C3: Whatever the carrier sends, in any order and however often, interleaved with the sweeps:
  no balance goes negative and balance, open holds and paid calls add up to the same total;
  no call is lost, and each call's status stays or moves forward in the lifecycle, so a
  finished call never changes its outcome.
\<close>

theorem events_keep_money_and_order:
  assumes "world_ok ttl w"
  shows "list_all2 (\<lambda>c c'. v_id c' = v_id c \<and> (v_status c' = v_status c
             \<or> callstate_rank (status_of c) < callstate_rank (status_of c')))
           (w_calls w) (w_calls (foldl (world_step D parse_id mm) w ops))
     \<and> (org_balance (hold_pool (w_holds (foldl (world_step D parse_id mm) w ops))) org = Some b \<longrightarrow>
          0 \<le> b \<and> b + committed (reservations (w_holds (foldl (world_step D parse_id mm) w ops))) org
            = ttl org)"
proof -
  from world_steps_ok [OF assms, of D parse_id mm ops]
  have "accounts_for org_balance (w_holds (foldl (world_step D parse_id mm) w ops)) ttl"
    and "list_all2 advances (w_calls w) (w_calls (foldl (world_step D parse_id mm) w ops))"
    by (simp_all add: world_ok_def)
  then show ?thesis by (simp add: accounts_for_def advances_def [abs_def])
qed

theorem events_keep_money_and_order_witness:
  "list_all2 (\<lambda>c c'. v_id c' = v_id c \<and> (v_status c' = v_status c
       \<or> callstate_rank (status_of c) < callstate_rank (status_of c')))
     [sample_row ''bridged'' (Some 0)]
     (w_calls (foldl (world_step exact_decimal (\<lambda>_. None) (\<lambda>_. None)) (sample_world ''bridged'' (Some 0))
       [Deliver (sample_event ''e1'' 60000000 (KHangup Busy)) 1, SettleSweep 2 100,
        Deliver (sample_event ''e2'' 5 KAnswered) 3]))"
  using events_keep_money_and_order [OF sample_world_ok, of "''bridged''" "Some 0" exact_decimal
      "\<lambda>_. None" "\<lambda>_. None" "[Deliver (sample_event ''e1'' 60000000 (KHangup Busy)) 1, SettleSweep 2 100,
        Deliver (sample_event ''e2'' 5 KAnswered) 3]"]
  by (simp only: sample_world_sel)

text \<open>
  C6: A hang-up settles an answered call in one step: the call is completed with its duration
  in whole seconds, the customer is charged what the quoted price and that duration owe (up
  to the hold and the balance), the rest of the hold comes back, and the hold is closed. This
  is about an event that is not in the ledger yet, at or after the answer and within two
  billion seconds of it, of a call in progress with an answer time, a quoted price, an open
  hold, an organisation whose balance is known, and no duration stored yet, in tables whose
  holds and ids are sound.
\<close>

theorem hangup_settles:
  assumes "world_ok ttl w" and "pe_kind ev = KHangup cause" and "\<not> seen_event ev (w_events w)"
    and "resolve_call parse_id (w_calls w) ev = (Some c, calls)"
    and "status_of c \<in> {Answered, Bridged, Ending}" and "v_answered_at c = Some a"
    and "v_quoted_price_per_min c = Some p" and "v_duration_seconds c = None"
    and "0 \<le> pe_occurred_at ev - a" and "pe_occurred_at ev - a < 2000000000 * 1000000"
    and "open_for_call (w_holds w) (v_id c) = Some r"
    and "org_balance (hold_pool (w_holds w)) (r_org_id r) = Some b"
    and "k = settle_credits D p (nat ((pe_occurred_at ev - a) div 1000000))"
  shows "\<exists>w' c'. apply_provider_event D parse_id now ev w = Inr (Applied (v_id c) (status_of c) Completed, w')
     \<and> find_call (w_calls w') (v_id c) = Some c' \<and> v_status c' = ''completed''
     \<and> v_duration_seconds c' = Some ((pe_occurred_at ev - a) div 1000000)
     \<and> v_credits_consumed c' = k \<and> v_customer_charge_usd c' = Some (of_int k / 100)
     \<and> org_balance (hold_pool (w_holds w')) = (org_balance (hold_pool (w_holds w)))
         (r_org_id r \<mapsto> b + held_credits r - min (max k 0) (held_credits r + b))
     \<and> open_for_call (w_holds w') (v_id c) = None"
proof -
  let ?i = "v_id c" and ?s = "(pe_occurred_at ev - a) div 1000000"
  have s: "0 \<le> ?s" "?s \<le> i32_max" using assms(9,10) by (simp_all add: i32_max_def)
  have acc: "accounts_for org_balance (w_holds w) ttl" and dist: "distinct (map v_id (w_calls w))"
    using assms(1) by (simp_all add: world_ok_def)
  have "call_next (status_of c) (EvHangup (Some cause)) = Some Completed"
    using assms(5) by (auto simp: call_next_def is_terminal_def was_answered_def)
  then have after: "lifecycle_after c ev = Some Completed"
    using assms(2) by (simp add: lifecycle_after_def)
  have dur: "call_seconds (Some a) (Some (pe_occurred_at ev)) = Some ?s"
    using s by (simp add: call_seconds_def wrap_i32_id in_i32_nonneg)
  have kle: "k \<le> i32_max" using assms(13) settle_credits_le by simp
  from settle_open [OF acc assms(11,12) kle, of "v_session_id c" now]
  obtain st h where h: "settle (w_holds w) ?i (v_session_id c) k now = Inr (Some st, h)"
    "s_settled st = min (max k 0) (held_credits r + b)"
    "org_balance (hold_pool h) = (org_balance (hold_pool (w_holds w)))
         (r_org_id r \<mapsto> b + held_credits r - s_settled st)"
    by blast
  have closed: "open_for_call h ?i = None"
    using settle_total [OF acc kle, of ?i "v_session_id c" now] h(1) by auto
  define row where "row r = charge_call k (advance Completed ev (Some (pe_occurred_at ev)) (Some ?s) (side_effects ev r))" for r
  have move: "move_call D now (with_calls (update_call ?i (side_effects ev)) (w\<lparr>w_calls := calls\<rparr>)) c ev Completed =
      Inr ((with_calls (update_call ?i row) (w\<lparr>w_calls := calls\<rparr>))\<lparr>w_holds := h\<rparr>)"
    using assms(6,7) dur s h(1) assms(13)
    by (simp add: move_call_def is_terminal_def settle_call_def settle_alt Let_def with_calls_def
        update_call_comp row_def [abs_def])
  have app: "apply_provider_event D parse_id now ev w = Inr (Applied ?i (status_of c) Completed,
      (with_calls (update_call ?i row) (w\<lparr>w_calls := calls\<rparr>))\<lparr>w_holds := h,
        w_events := w_events w @ [event_row ev ?i (status_of c) Completed]\<rparr>)"
    using assms(3,4) after move by (simp add: apply_provider_event_def first_delivery_def)
  have row: "v_id (row r) = v_id r" "v_status (row r) = ''completed''" "v_credits_consumed (row r) = k"
    "v_customer_charge_usd (row r) = Some (of_int k / 100)" for r
    by (simp_all add: row_def) (simp_all add: charge_call_def credits_to_usd_def usd_per_credit_def)
  have "\<exists>c0. find_call calls ?i = Some c0 \<and> v_duration_seconds c0 = None"
  proof -
    have "find_call (w_calls w) ?i = Some c"
      using resolve_call_in [OF assms(4)] distinct_find_call [OF dist] by simp
    then show ?thesis
      using assms(4,8)
      by (auto simp: resolve_call_def find_update_call add_leg_def split: option.splits)
  qed
  moreover have "v_duration_seconds (row r) = Some ?s" if "v_duration_seconds r = None" for r
    using that assms(2) by (simp add: row_def charge_call_def advance_def side_effects_def)
  ultimately obtain c0 where "find_call (update_call ?i row calls) ?i = Some (row c0)"
      "v_duration_seconds (row c0) = Some ?s"
    by (auto simp: find_update_call row)
  with app row h closed show ?thesis by auto
qed

theorem hangup_settles_witness:
  "\<exists>w' c'. apply_provider_event exact_decimal (\<lambda>_. None) 1 (sample_event ''e1'' 60000000 (KHangup Busy))
       (sample_world ''bridged'' (Some 0)) = Inr (Applied 7 Bridged Completed, w')
     \<and> find_call (w_calls w') 7 = Some c' \<and> v_credits_consumed c' = 26
     \<and> org_balance (hold_pool (w_holds w')) 1 = Some 74"
proof -
  let ?c = "sample_row ''bridged'' (Some 0)"
  have k: "settle_credits exact_decimal (26 / 100) 60 = 26" by code_simp
  then have k': "26 = settle_credits exact_decimal (26 / 100)
      (nat ((pe_occurred_at (sample_event ''e1'' 60000000 (KHangup Busy)) - 0) div 1000000))"
    by simp
  from hangup_settles [where w = "sample_world ''bridged'' (Some 0)" and D = exact_decimal
      and ev = "sample_event ''e1'' 60000000 (KHangup Busy)" and parse_id = "\<lambda>_. None" and now = 1
      and c = ?c and calls = "[?c]" and a = 0 and p = "26 / 100" and cause = Busy and k = 26
      and b = 40, OF sample_world_ok _ _ _ _ _ _ _ _ _ _ _ k']
  show ?thesis
    using sample_resolve [of "''bridged''" "Some 0"] sample_held_row by (auto simp: sample_status)
qed

text \<open>A hang-up of a call that its status does not show as answered costs nothing, however long it was.\<close>

lemma unanswered_hangup_fails:
  assumes ok: "world_ok ttl w" and ev: "pe_kind ev = KHangup cause" "\<not> seen_event ev (w_events w)"
    and c: "resolve_call parse_id (w_calls w) ev = (Some c, calls)" "status_of c \<in> {Created, Dialing, Ringing}"
    and hold: "open_for_call (w_holds w) (v_id c) = Some r" "org_balance (hold_pool (w_holds w)) (r_org_id r) = Some b"
  shows "\<exists>w' c'. apply_provider_event D parse_id now ev w = Inr (Applied (v_id c) (status_of c) Failed, w')
     \<and> find_call (w_calls w') (v_id c) = Some c' \<and> v_status c' = ''failed'' \<and> v_credits_consumed c' = 0
     \<and> v_duration_seconds c' =
         coalesce (v_duration_seconds c) (call_seconds (v_answered_at c) (Some (pe_occurred_at ev)))
     \<and> org_balance (hold_pool (w_holds w')) = (org_balance (hold_pool (w_holds w)))(r_org_id r \<mapsto> b + held_credits r)
     \<and> open_for_call (w_holds w') (v_id c) = None"
proof -
  let ?i = "v_id c" and ?d = "call_seconds (v_answered_at c) (Some (pe_occurred_at ev))"
  have acc: "accounts_for org_balance (w_holds w) ttl" and dist: "distinct (map v_id (w_calls w))"
    using ok by (simp_all add: world_ok_def)
  have "call_next (status_of c) (EvHangup (Some cause)) = Some Failed"
    using c(2) by (auto simp: call_next_def is_terminal_def was_answered_def)
  then have after: "lifecycle_after c ev = Some Failed" using ev(1) by (simp add: lifecycle_after_def)
  from release_open [OF acc hold, of "v_session_id c" now] obtain s h where
    h: "release (w_holds w) ?i (v_session_id c) now = Inr (Some s, h)"
      "org_balance (hold_pool h) = (org_balance (hold_pool (w_holds w)))(r_org_id r \<mapsto> b + held_credits r)"
      "open_for_call h ?i = None" by blast
  define row where "row x = charge_call 0 (advance Failed ev (Some (pe_occurred_at ev)) ?d (side_effects ev x))" for x
  have "move_call D now (with_calls (update_call ?i (side_effects ev)) (w\<lparr>w_calls := calls\<rparr>)) c ev Failed =
      Inr ((with_calls (update_call ?i row) (w\<lparr>w_calls := calls\<rparr>))\<lparr>w_holds := h\<rparr>)"
    using h(1)
    by (simp add: move_call_def is_terminal_def settle_call_def release_alt Let_def with_calls_def
        update_call_comp row_def [abs_def])
  then have app: "apply_provider_event D parse_id now ev w = Inr (Applied ?i (status_of c) Failed,
      (with_calls (update_call ?i row) (w\<lparr>w_calls := calls\<rparr>))\<lparr>w_holds := h,
        w_events := w_events w @ [event_row ev ?i (status_of c) Failed]\<rparr>)"
    using ev(2) c(1) after by (simp add: apply_provider_event_def first_delivery_def)
  have "find_call (w_calls w) ?i = Some c"
    using resolve_call_in [OF c(1)] distinct_find_call [OF dist] by simp
  then have "\<exists>c0. find_call calls ?i = Some c0 \<and> v_duration_seconds c0 = v_duration_seconds c"
    using c(1) by (auto simp: resolve_call_def find_update_call add_leg_def split: option.splits)
  then obtain c0 where "find_call calls ?i = Some c0" "v_duration_seconds c0 = v_duration_seconds c" by blast
  moreover have "v_id (row x) = v_id x" "v_status (row x) = ''failed''" "v_credits_consumed (row x) = 0"
    "v_duration_seconds (row x) = coalesce (v_duration_seconds x) ?d" for x
    using ev(1) by (simp_all add: row_def) (simp_all add: charge_call_def advance_def side_effects_def)
  ultimately have "find_call (update_call ?i row calls) ?i = Some (row c0)" "v_status (row c0) = ''failed''"
    "v_credits_consumed (row c0) = 0" "v_duration_seconds (row c0) = coalesce (v_duration_seconds c) ?d"
    by (simp_all add: find_update_call)
  with app h show ?thesis by auto
qed

section \<open>What the sweeps do and do not do\<close>

lemma settle_rows_total:
  assumes "accounts_for org_balance h ttl" and "\<forall>c \<in> set cs. credits_in_range c"
  shows "fst (settle_rows now cs n h) = Inr (n + length cs)
    \<and> (\<forall>i. open_for_call (snd (settle_rows now cs n h)) i =
          (if i \<in> v_id ` set cs then None else open_for_call h i))"
  using assms
proof (induction cs arbitrary: n h)
  case Nil
  then show ?case by simp
next
  case (Cons c cs)
  let ?r = "if v_status c = ''completed''
            then settle h (v_id c) (v_session_id c) (v_credits_consumed c) now
            else release h (v_id c) (v_session_id c) now"
  have k: "v_credits_consumed c \<le> i32_max" using Cons.prems(2) by (simp add: credits_in_range_def)
  have "\<exists>out h'. ?r = Inr (out, h')
      \<and> (\<forall>i. open_for_call h' i = (if i = v_id c then None else open_for_call h i))"
    using settle_total [OF Cons.prems(1) k, of "v_id c" "v_session_id c" now]
      release_total [OF Cons.prems(1), of "v_id c" "v_session_id c" now] by presburger
  then obtain out h' where h': "?r = Inr (out, h')"
    "\<And>i. open_for_call h' i = (if i = v_id c then None else open_for_call h i)" by blast
  have "accounts_for org_balance h' ttl"
    using settle_rows_accounts [OF Cons.prems(1), of "[c]" now n] Cons.prems(2) h'(1) by simp
  from Cons.IH [OF this, of "Suc n"] Cons.prems(2) h' show ?case by auto
qed

lemma unsettled_rows:
  assumes "length (filter (unsettled w) (w_calls w)) \<le> clamp limit 1 500"
  shows "set (take (clamp limit 1 500) (sort_key ended_key (filter (unsettled w) (w_calls w)))) =
    set (filter (unsettled w) (w_calls w))"
  using assms by simp

text \<open>
  C35: The settlement sweep is complete: on sound tables it never fails, and when its batch
  covers them, every finished call's hold is closed and counted, and no other call's hold
  is touched.
\<close>

theorem sweep_settles_all:
  assumes "world_ok ttl w"
    and "length (filter (unsettled w) (w_calls w)) \<le> clamp limit 1 500"
  shows "fst (settle_finished_calls now limit w) = Inr (length (filter (unsettled w) (w_calls w)))
     \<and> filter (unsettled (snd (settle_finished_calls now limit w))) (w_calls w) = []
     \<and> (\<forall>i. open_for_call (w_holds (snd (settle_finished_calls now limit w))) i = open_for_call (w_holds w) i
          \<or> (\<exists>c \<in> set (w_calls w). v_id c = i \<and> is_terminal (status_of c)))"
proof -
  define rows where "rows = take (clamp limit 1 500) (sort_key ended_key (filter (unsettled w) (w_calls w)))"
  have set_rows: "set rows = {c \<in> set (w_calls w). unsettled w c}"
    unfolding rows_def unsettled_rows [OF assms(2)] by auto
  have len: "length rows = length (filter (unsettled w) (w_calls w))"
    using assms(2) by (simp add: rows_def)
  have acc: "accounts_for org_balance (w_holds w) ttl" and rng: "\<forall>c \<in> set rows. credits_in_range c"
    using assms(1) set_rows by (auto simp: world_ok_def)
  note t = settle_rows_total [OF acc rng, of now 0]
  obtain out h where run: "settle_rows now rows 0 (w_holds w) = (out, h)" by fastforce
  then have sw: "settle_finished_calls now limit w = (out, w\<lparr>w_holds := h\<rparr>)"
    by (simp add: settle_finished_calls_def Let_def rows_def [symmetric])
  have h: "out = Inr (length rows)"
    "\<And>i. open_for_call h i = (if i \<in> v_id ` set rows then None else open_for_call (w_holds w) i)"
    using t run by auto
  have "\<not> unsettled (w\<lparr>w_holds := h\<rparr>) c" if "c \<in> set (w_calls w)" for c
    using that h(2) [of "v_id c"] set_rows by (auto simp: unsettled_def split: if_splits)
  moreover have "is_terminal (status_of c)" if "unsettled w c" for c
    using that by (auto simp: unsettled_def status_of_def callstate_parse_def is_terminal_def)
  ultimately show ?thesis
    using sw h len set_rows by (auto simp: filter_empty_conv)
qed

theorem sweep_settles_all_witness:
  "fst (settle_finished_calls 9 100 (sample_world ''failed'' None)) = Inr 1"
proof -
  have u: "filter (unsettled (sample_world ''failed'' None)) (w_calls (sample_world ''failed'' None)) =
      [sample_row ''failed'' None]"
    using sample_held_row(1) by (simp add: unsettled_def)
  show ?thesis
    using sweep_settles_all [OF sample_world_ok, of "''failed''" None 100 9] unfolding u
    by (simp add: clamp_def)
qed

text \<open>
  An event stream that reports the media before the answer loses the bill: the answer no
  longer moves the call, so it never gets an answering time, and the hang-up two minutes
  later completes the call with no duration and no charge, giving the whole hold back.
\<close>

theorem media_before_answer_is_free:
  "case foldl (world_step exact_decimal (\<lambda>_. None) (\<lambda>_. None)) (sample_world ''dialing'' None)
     [Deliver (sample_event ''e1'' 10000000 KMediaStarted) 1,
      Deliver (sample_event ''e2'' 10000000 KAnswered) 2,
      Deliver (sample_event ''e3'' 130000000 (KHangup Busy)) 3] of
     w \<Rightarrow> map (\<lambda>c. (v_status c, v_answered_at c, v_duration_seconds c, v_credits_consumed c)) (w_calls w)
          = [(''completed'', None, None, 0)]
        \<and> org_balance (hold_pool (w_holds w)) 1 = Some 100"
  by code_simp

text \<open>The same events in the other order: 120 seconds at 26 cents, 52 credits.\<close>

lemma answer_before_media_is_billed:
  "case foldl (world_step exact_decimal (\<lambda>_. None) (\<lambda>_. None)) (sample_world ''dialing'' None)
     [Deliver (sample_event ''e2'' 10000000 KAnswered) 2,
      Deliver (sample_event ''e1'' 10000000 KMediaStarted) 1,
      Deliver (sample_event ''e3'' 130000000 (KHangup Busy)) 3] of
     w \<Rightarrow> map (\<lambda>c. (v_status c, v_answered_at c, v_duration_seconds c, v_credits_consumed c)) (w_calls w)
          = [(''completed'', Some 10000000, Some 120, 52)]
        \<and> org_balance (hold_pool (w_holds w)) 1 = Some 48"
  by code_simp

text \<open>A call that is up, as its row says.\<close>

definition is_up :: "VoipCall \<Rightarrow> bool" where
  "is_up c \<longleftrightarrow> v_status c \<in> {''answered'', ''bridged'', ''ending''}"

fun is_sweep :: "world_op \<Rightarrow> bool" where
  "is_sweep (Deliver _ _) \<longleftrightarrow> False"
| "is_sweep _ \<longleftrightarrow> True"

lemma end_overrun_up: "is_up c \<Longrightarrow> is_up (end_overrun c)"
  by (auto simp: is_up_def end_overrun_def)

lemma end_overrun_id [simp]: "v_id (end_overrun c) = v_id c"
  by (simp add: end_overrun_def)

lemma reap_up:
  assumes "find_call calls i = Some c" "is_up c"
  shows "\<exists>c'. find_call (fst (reap_overrunning_calls mm now limit calls)) i = Some c' \<and> is_up c'"
proof -
  have "\<exists>c'. find_call (fold (\<lambda>r cs. update_call (v_id r) end_overrun cs) rows cs) i = Some c' \<and> is_up c'"
    if "find_call cs i = Some c" "is_up c" for rows cs c
    using that
  proof (induction rows arbitrary: cs c)
    case Nil
    then show ?case by simp
  next
    case (Cons r rows)
    have "\<exists>c'. find_call (update_call (v_id r) end_overrun cs) i = Some c' \<and> is_up c'"
      using Cons.prems end_overrun_up by (auto simp: find_update_call)
    with Cons.IH show ?case by auto
  qed
  with assms show ?thesis by (auto simp: reap_overrunning_calls_def Let_def)
qed

lemma stall_up:
  assumes "distinct (map v_id calls)" "find_call calls i = Some c" "is_up c"
  shows "find_call (fst (fail_stalled_calls now limit calls)) i = Some c"
proof -
  define rows where "rows = take (clamp limit 1 500) (sort_key v_started_at (filter (stalled now) calls))"
  have rows: "r \<in> set calls \<and> stalled now r" if "r \<in> set rows" for r
    using that set_take_subset unfolding rows_def by fastforce
  have "i \<notin> v_id ` set rows"
  proof
    assume "i \<in> v_id ` set rows"
    then obtain r where r: "r \<in> set rows" "v_id r = i" by auto
    with rows have "find_call calls i = Some r" using distinct_find_call [OF assms(1)] by blast
    with assms(2) rows r(1) have "stalled now c" by simp
    with assms(3) show False by (auto simp: stalled_def is_up_def)
  qed
  then have "find_call (map (\<lambda>c. if v_id c \<in> v_id ` set rows then fail_stalled_row now c else c) cs) i =
      find_call cs i" for cs
    by (induction cs) (auto simp: find_call_def fail_stalled_row_def)
  with assms(2) show ?thesis by (simp add: fail_stalled_calls_def Let_def rows_def [symmetric])
qed

lemma settle_sweep_up:
  assumes ok: "world_ok ttl w" and c: "find_call (w_calls w) i = Some c" "is_up c"
  shows "open_for_call (w_holds (snd (settle_finished_calls now limit w))) i = open_for_call (w_holds w) i"
proof -
  define rows where "rows = take (clamp limit 1 500) (sort_key ended_key (filter (unsettled w) (w_calls w)))"
  have rows: "r \<in> set (w_calls w) \<and> unsettled w r" if "r \<in> set rows" for r
    using that set_take_subset unfolding rows_def by fastforce
  have "i \<notin> v_id ` set rows"
  proof
    assume "i \<in> v_id ` set rows"
    then obtain r where r: "r \<in> set rows" "v_id r = i" by auto
    have "distinct (map v_id (w_calls w))" using ok by (simp add: world_ok_def)
    with rows r have "find_call (w_calls w) i = Some r" using distinct_find_call by blast
    with c(1) rows r(1) have "unsettled w c" by simp
    with c(2) show False by (auto simp: unsettled_def is_up_def)
  qed
  moreover have "accounts_for org_balance (w_holds w) ttl" "\<forall>c \<in> set rows. credits_in_range c"
    using ok rows by (auto simp: world_ok_def)
  ultimately show ?thesis
    using settle_rows_total [of "w_holds w" ttl rows now 0]
    by (auto simp: settle_finished_calls_def Let_def rows_def [symmetric] split: prod.splits)
qed

text \<open>
  Without a hang-up event nothing ends a call: however often the reaper of overrunning
  calls and the other sweeps run, a call that is up stays up (at most marked as ending), and
  its hold stays open, whatever its maximum duration was.
\<close>

theorem sweeps_never_end_a_call:
  assumes "world_ok ttl w" and "find_call (w_calls w) i = Some c" and "is_up c"
    and "list_all is_sweep ops"
  shows "(\<exists>c'. find_call (w_calls (foldl (world_step D parse_id mm) w ops)) i = Some c' \<and> is_up c')
     \<and> open_for_call (w_holds (foldl (world_step D parse_id mm) w ops)) i = open_for_call (w_holds w) i"
  using assms
proof (induction ops arbitrary: w c)
  case Nil
  then show ?case by simp
next
  case (Cons x ops)
  let ?w = "world_step D parse_id mm w x"
  have dist: "distinct (map v_id (w_calls w))" using Cons.prems(1) by (simp add: world_ok_def)
  have "(\<exists>c'. find_call (w_calls ?w) i = Some c' \<and> is_up c')
      \<and> open_for_call (w_holds ?w) i = open_for_call (w_holds w) i"
  proof (cases x)
    case (Deliver ev now)
    with Cons.prems show ?thesis by simp
  next
    case (ReapSweep now limit)
    with reap_up [OF Cons.prems(2,3)] show ?thesis by simp
  next
    case (StallSweep now limit)
    with stall_up [OF dist Cons.prems(2,3)] Cons.prems(3) show ?thesis by simp
  next
    case (SettleSweep now limit)
    with settle_sweep_up [OF Cons.prems(1-3)] Cons.prems(2,3) show ?thesis
      by (simp add: settle_finished_calls_def Let_def split: prod.splits)
  qed
  moreover have "world_ok ttl ?w" using world_step_ok [OF Cons.prems(1)] by blast
  ultimately show ?case using Cons.IH [of ?w] Cons.prems(4) by auto
qed

theorem sweeps_never_end_a_call_witness:
  "open_for_call (w_holds (foldl (world_step exact_decimal (\<lambda>_. None) (\<lambda>_. Some 5))
     (sample_world ''bridged'' (Some 0))
     [ReapSweep (10 ^ 12) 100, StallSweep (10 ^ 12) 100, SettleSweep (10 ^ 12) 100,
      ReapSweep (10 ^ 13) 100, SettleSweep (10 ^ 13) 100])) 7 \<noteq> None"
  using sweeps_never_end_a_call [OF sample_world_ok, of "''bridged''" "Some 0" 7
      "sample_row ''bridged'' (Some 0)" "[ReapSweep (10 ^ 12) 100, StallSweep (10 ^ 12) 100,
      SettleSweep (10 ^ 12) 100, ReapSweep (10 ^ 13) 100, SettleSweep (10 ^ 13) 100]"
      exact_decimal "\<lambda>_. None" "\<lambda>_. Some 5"] sample_held_row(1)
  by (simp del: foldl_Cons world_step.simps add: find_call_def is_up_def)

end
