(* ===== verification/Keyed_Map.thy ===== *)
theory Keyed_Map
  imports Vox_Prelude "HOL-Library.AList"
begin

text \<open>
  The in-memory maps of the server (a locked \<open>HashMap\<close> or a \<open>DashMap\<close>): what the code uses of
  them, as an interface with its laws, and the association lists with distinct keys that
  model them. An operation of the code holds the entry's lock while it runs, so each is one
  step; the iteration order, which the library leaves open, is the order of insertion.
\<close>

section \<open>The interface\<close>

locale keyed_map =
  fixes invar :: "'m \<Rightarrow> bool"
    and get :: "'m \<Rightarrow> 'k \<Rightarrow> 'v option"
    and put :: "'k \<Rightarrow> 'v \<Rightarrow> 'm \<Rightarrow> 'm"
    and retain :: "('k \<Rightarrow> 'v \<Rightarrow> bool) \<Rightarrow> 'm \<Rightarrow> 'm"
  assumes invar_put [simp]: "invar m \<Longrightarrow> invar (put k v m)"
    and invar_retain [simp]: "invar m \<Longrightarrow> invar (retain P m)"
    and get_put [simp]: "invar m \<Longrightarrow> get (put k v m) = (get m)(k \<mapsto> v)"
    and get_retain [simp]: "invar m \<Longrightarrow> get (retain P m) k =
      (case get m k of None \<Rightarrow> None | Some v \<Rightarrow> if P k v then Some v else None)"

section \<open>Association lists with distinct keys\<close>

type_synonym ('k, 'v) kmap = "('k \<times> 'v) list"

definition keys_distinct :: "('k, 'v) kmap \<Rightarrow> bool" where
  "keys_distinct m \<longleftrightarrow> distinct (map fst m)"

definition retain_entries :: "('k \<Rightarrow> 'v \<Rightarrow> bool) \<Rightarrow> ('k, 'v) kmap \<Rightarrow> ('k, 'v) kmap" where
  "retain_entries P m = filter (\<lambda>(k, v). P k v) m"

text \<open>\<open>get_mut\<close>: the entry of a key is changed in place; a missing key changes nothing.\<close>

definition modify_entry :: "'k \<Rightarrow> ('v \<Rightarrow> 'v) \<Rightarrow> ('k, 'v) kmap \<Rightarrow> ('k, 'v) kmap" where
  "modify_entry k f m = map (\<lambda>(k', v). (k', if k' = k then f v else v)) m"

text \<open>\<open>remove_if\<close>: the entry of a key goes when it satisfies the predicate.\<close>

definition remove_if :: "'k \<Rightarrow> ('v \<Rightarrow> bool) \<Rightarrow> ('k, 'v) kmap \<Rightarrow> ('k, 'v) kmap" where
  "remove_if k P m = retain_entries (\<lambda>k' v. \<not> (k' = k \<and> P v)) m"

lemma keys_distinct_Nil [simp]: "keys_distinct []"
  by (simp add: keys_distinct_def)

lemma map_of_retain:
  assumes "keys_distinct m"
  shows "map_of (retain_entries P m) k =
    (case map_of m k of None \<Rightarrow> None | Some v \<Rightarrow> if P k v then Some v else None)"
  using assms
proof (induction m)
  case Nil
  then show ?case by (simp add: retain_entries_def)
next
  case (Cons e m)
  obtain k0 v0 where e: "e = (k0, v0)" by fastforce
  have "map_of (retain_entries P m) k0 = None"
    using Cons.prems by (auto simp: e retain_entries_def keys_distinct_def map_of_eq_None_iff)
  with Cons show ?case
    by (auto simp: e retain_entries_def keys_distinct_def split: option.splits)
qed

lemma keys_distinct_retain [simp]: "keys_distinct m \<Longrightarrow> keys_distinct (retain_entries P m)"
  by (simp add: keys_distinct_def retain_entries_def distinct_map_filter)

lemma keys_distinct_update [simp]: "keys_distinct m \<Longrightarrow> keys_distinct (AList.update k v m)"
  by (simp add: keys_distinct_def distinct_update)

lemma keys_modify [simp]: "map fst (modify_entry k f m) = map fst m"
  by (simp add: modify_entry_def comp_def case_prod_beta)

lemma keys_distinct_modify [simp]: "keys_distinct (modify_entry k f m) = keys_distinct m"
  by (simp add: keys_distinct_def)

lemma map_of_modify [simp]:
  "map_of (modify_entry k f m) k' = (if k' = k then map_option f (map_of m k') else map_of m k')"
  by (induction m) (auto simp: modify_entry_def)

lemma keys_distinct_remove_if [simp]: "keys_distinct m \<Longrightarrow> keys_distinct (remove_if k P m)"
  by (simp add: remove_if_def)

lemma map_of_remove_if:
  "keys_distinct m \<Longrightarrow> map_of (remove_if k P m) k' =
     (if k' = k then (case map_of m k of None \<Rightarrow> None | Some v \<Rightarrow> if P v then None else Some v)
      else map_of m k')"
  by (auto simp: remove_if_def map_of_retain split: option.splits)

interpretation kv: keyed_map keys_distinct map_of AList.update retain_entries
  by unfold_locales (simp_all add: map_of_retain update_conv')

lemma map_of_entry: "keys_distinct m \<Longrightarrow> (k, v) \<in> set m \<longleftrightarrow> map_of m k = Some v"
  by (simp add: keys_distinct_def)

end
