(* ===== verification/Media_Ticket.thy ===== *)
theory Media_Ticket
  imports Keyed_Map
begin

text \<open>
  Single-use tickets of the media socket, \<^verbatim>\<open>server/src/voip/token.rs\<close>. Base64, JSON and HMAC
  are the record \<open>ticket_codec\<close>; what the code relies on of them is \<open>codec_laws\<close>. Clocks are
  Unix seconds far from the ends of \<open>i64\<close>; the nonce of a new ticket is an argument.
\<close>

section \<open>Tickets\<close>

record MediaTicket =
  t_call_id :: nat
  t_leg_id :: string
  t_room :: string
  t_peer_id :: string
  t_exp :: int
  t_nonce :: string

datatype TicketError = Ticket_Malformed | BadSignature | Expired | Replayed

fun ticket_error_code :: "TicketError \<Rightarrow> string" where
  "ticket_error_code Ticket_Malformed = ''ticket_malformed''"
| "ticket_error_code BadSignature = ''ticket_bad_signature''"
| "ticket_error_code Expired = ''ticket_expired''"
| "ticket_error_code Replayed = ''ticket_replayed''"

definition TICKET_TTL_SECS :: int where
  "TICKET_TTL_SECS = 60"

record ('k, 'b) ticket_codec =
  b64_encode :: "'b \<Rightarrow> string"
  b64_decode :: "string \<Rightarrow> 'b option"
  to_json :: "MediaTicket \<Rightarrow> 'b"
  from_json :: "'b \<Rightarrow> MediaTicket option"
  hmac_sha256 :: "'k \<Rightarrow> string \<Rightarrow> 'b"

definition codec_laws :: "('k, 'b) ticket_codec \<Rightarrow> bool" where
  "codec_laws C \<longleftrightarrow>
     (\<forall>b. b64_decode C (b64_encode C b) = Some b \<and> CHR ''.'' \<notin> set (b64_encode C b))
     \<and> (\<forall>t. from_json C (to_json C t) = Some t)"

definition sign :: "('k, 'b) ticket_codec \<Rightarrow> 'k \<Rightarrow> string \<Rightarrow> string" where
  "sign C key msg = b64_encode C (hmac_sha256 C key msg)"

definition mint :: "('k, 'b) ticket_codec \<Rightarrow> 'k \<Rightarrow> MediaTicket \<Rightarrow> string" where
  "mint C key ticket =
     (let encoded = b64_encode C (to_json C ticket)
      in encoded @ ''.'' @ sign C key encoded)"

fun split_once :: "char \<Rightarrow> string \<Rightarrow> (string \<times> string) option" where
  "split_once d [] = None"
| "split_once d (c # cs) =
     (if c = d then Some ([], cs) else map_option (\<lambda>(a, b). (c # a, b)) (split_once d cs))"

definition ticket_verify ::
  "('k, 'b) ticket_codec \<Rightarrow> 'k \<Rightarrow> string \<Rightarrow> int \<Rightarrow> TicketError + MediaTicket" where
  "ticket_verify C key raw now_unix =
     (case split_once (CHR ''.'') raw of
        None \<Rightarrow> Inl Ticket_Malformed
      | Some (encoded, sig) \<Rightarrow>
          if sign C key encoded \<noteq> sig then Inl BadSignature
          else case b64_decode C encoded of
                 None \<Rightarrow> Inl Ticket_Malformed
               | Some bytes \<Rightarrow>
                   (case from_json C bytes of
                      None \<Rightarrow> Inl Ticket_Malformed
                    | Some ticket \<Rightarrow> if now_unix > t_exp ticket then Inl Expired else Inr ticket))"

definition issue ::
  "('k, 'b) ticket_codec \<Rightarrow> 'k \<Rightarrow> nat \<Rightarrow> string \<Rightarrow> string \<Rightarrow> string \<Rightarrow> int \<Rightarrow> string \<Rightarrow> string" where
  "issue C key call leg room peer now_unix nonce =
     mint C key \<lparr>t_call_id = call, t_leg_id = leg, t_room = room, t_peer_id = peer,
       t_exp = now_unix + TICKET_TTL_SECS, t_nonce = nonce\<rparr>"

definition trim_end_matches :: "char \<Rightarrow> string \<Rightarrow> string" where
  "trim_end_matches d s = rev (dropWhile (\<lambda>c. c = d) (rev s))"

definition media_url :: "string \<Rightarrow> string \<Rightarrow> string" where
  "media_url base ticket = trim_end_matches (CHR ''/'') base @ ''/voip/media/'' @ ticket"

section \<open>The registry of spent tickets\<close>

definition redeem_with ::
  "('m \<Rightarrow> string \<Rightarrow> int option) \<Rightarrow> (string \<Rightarrow> int \<Rightarrow> 'm \<Rightarrow> 'm) \<Rightarrow> ((string \<Rightarrow> int \<Rightarrow> bool) \<Rightarrow> 'm \<Rightarrow> 'm)
     \<Rightarrow> ('k, 'b) ticket_codec \<Rightarrow> 'k \<Rightarrow> 'm \<Rightarrow> string \<Rightarrow> int \<Rightarrow> (TicketError + MediaTicket) \<times> 'm" where
  "redeem_with get put retain C key spent raw now_unix =
     (case ticket_verify C key raw now_unix of
        Inl e \<Rightarrow> (Inl e, spent)
      | Inr ticket \<Rightarrow>
          let swept = retain (\<lambda>_ e. e \<ge> now_unix) spent
          in (if get swept (t_nonce ticket) \<noteq> None then Inl Replayed else Inr ticket,
              put (t_nonce ticket) (t_exp ticket) swept))"

type_synonym TicketRegistry = "(string, int) kmap"

definition redeem ::
  "('k, 'b) ticket_codec \<Rightarrow> 'k \<Rightarrow> TicketRegistry \<Rightarrow> string \<Rightarrow> int
     \<Rightarrow> (TicketError + MediaTicket) \<times> TicketRegistry" where
  "redeem = redeem_with map_of AList.update retain_entries"

definition registry_len :: "TicketRegistry \<Rightarrow> nat" where
  "registry_len spent = length spent"

text \<open>A run of presentations, each a ticket as presented and the clock.\<close>

fun redeem_run ::
  "('m \<Rightarrow> string \<Rightarrow> int \<Rightarrow> (TicketError + MediaTicket) \<times> 'm) \<Rightarrow> 'm \<Rightarrow> (string \<times> int) list
     \<Rightarrow> MediaTicket list \<times> 'm" where
  "redeem_run step spent [] = ([], spent)"
| "redeem_run step spent ((raw, now) # xs) =
     (let (out, spent1) = step spent raw now; (served, spent2) = redeem_run step spent1 xs
      in (case out of Inl _ \<Rightarrow> served | Inr t \<Rightarrow> t # served, spent2))"

section \<open>Signature and expiry\<close>

lemma split_once_Some:
  "split_once d s = Some (a, b) \<Longrightarrow> s = a @ d # b"
  by (induction s arbitrary: a) (auto split: if_splits)

lemma split_once_append: "d \<notin> set a \<Longrightarrow> split_once d (a @ d # b) = Some (a, b)"
  by (induction a) auto

lemma verify_mint:
  assumes "codec_laws C"
  shows "ticket_verify C key (mint C key t) now = (if now > t_exp t then Inl Expired else Inr t)"
  using assms by (simp add: ticket_verify_def mint_def Let_def split_once_append codec_laws_def)

lemma verify_signed:
  "ticket_verify C key raw now = Inr t \<Longrightarrow>
     (\<exists>encoded. raw = encoded @ ''.'' @ sign C key encoded
        \<and> Option.bind (b64_decode C encoded) (from_json C) = Some t) \<and> now \<le> t_exp t"
  by (auto simp: ticket_verify_def dest!: split_once_Some split: option.splits prod.splits if_splits)

text \<open>
  A ticket round-trips and nothing else is accepted: an issued ticket verifies, with
  exactly the call, leg, room and peer it was issued for, until sixty seconds later and not
  after; and whatever verifies under a key is its payload followed by that key's signature of
  it, is not expired, and verifies to the same ticket at every earlier time.
\<close>

theorem ticket_roundtrip:
  assumes "codec_laws C"
  shows "ticket_verify C key (issue C key call leg room peer t0 nonce) now =
      (if now > t0 + 60 then Inl Expired
       else Inr \<lparr>t_call_id = call, t_leg_id = leg, t_room = room, t_peer_id = peer,
                 t_exp = t0 + 60, t_nonce = nonce\<rparr>)
    \<and> (\<forall>raw t. ticket_verify C key raw now = Inr t \<longrightarrow>
        (\<exists>encoded. raw = encoded @ ''.'' @ sign C key encoded) \<and> now \<le> t_exp t
        \<and> (\<forall>earlier \<le> now. ticket_verify C key raw earlier = Inr t))"
proof -
  have "ticket_verify C key raw earlier = Inr t"
    if "ticket_verify C key raw now = Inr t" "earlier \<le> now" for raw t earlier
    using that by (auto simp: ticket_verify_def split: option.splits prod.splits if_splits)
  moreover have "(\<exists>encoded. raw = encoded @ ''.'' @ sign C key encoded) \<and> now \<le> t_exp t"
    if "ticket_verify C key raw now = Inr t" for raw t
    using verify_signed [OF that] by blast
  moreover have "ticket_verify C key (issue C key call leg room peer t0 nonce) now =
      (if now > t0 + 60 then Inl Expired
       else Inr \<lparr>t_call_id = call, t_leg_id = leg, t_room = room, t_peer_id = peer,
                 t_exp = t0 + 60, t_nonce = nonce\<rparr>)"
    by (simp add: issue_def TICKET_TTL_SECS_def verify_mint [OF assms])
  ultimately show ?thesis by blast
qed

section \<open>Single use\<close>

text \<open>Every ticket that verifies in a run has the expiry that its nonce was issued with.\<close>

definition nonces_unique ::
  "('k, 'b) ticket_codec \<Rightarrow> 'k \<Rightarrow> (string \<Rightarrow> int) \<Rightarrow> (string \<times> int) list \<Rightarrow> bool" where
  "nonces_unique C key expiry xs \<longleftrightarrow>
     (\<forall>(raw, now) \<in> set xs. \<forall>t. ticket_verify C key raw now = Inr t \<longrightarrow> t_exp t = expiry (t_nonce t))"

locale spent_store = keyed_map invar get put retain
  for invar :: "'m \<Rightarrow> bool" and get :: "'m \<Rightarrow> string \<Rightarrow> int option" and put and retain
begin

lemma redeem_invar: "invar s \<Longrightarrow> invar (snd (redeem_with get put retain C key s raw now))"
  by (simp add: redeem_with_def Let_def split: sum.splits)

lemma redeem_remembers:
  assumes "invar s" and "redeem_with get put retain C key s raw now = (out, s')"
    and "\<And>t. ticket_verify C key raw now = Inr t \<Longrightarrow> t_exp t = expiry (t_nonce t)"
    and "\<forall>n \<in> A. get s n = Some (expiry n) \<or> expiry n < now"
  shows "(\<forall>n \<in> A. get s' n = Some (expiry n) \<or> expiry n < now)
     \<and> (\<forall>t. out = Inr t \<longrightarrow> t_nonce t \<notin> A \<and> get s' (t_nonce t) = Some (expiry (t_nonce t)))"
proof (cases "ticket_verify C key raw now")
  case (Inl e)
  with assms show ?thesis by (auto simp: redeem_with_def)
next
  case (Inr t)
  have "now \<le> t_exp t" "t_exp t = expiry (t_nonce t)"
    using verify_signed [OF Inr] assms(3) [OF Inr] by blast+
  with Inr assms show ?thesis
    by (auto simp: redeem_with_def Let_def split: if_splits option.splits)
qed

lemma redeem_run_once:
  assumes "invar s" and "sorted (map snd xs)" and "\<forall>x \<in> set xs. t0 \<le> snd x"
    and "nonces_unique C key expiry xs"
    and "\<forall>n \<in> A. get s n = Some (expiry n) \<or> expiry n < t0"
    and "redeem_run (redeem_with get put retain C key) s xs = (served, s')"
  shows "distinct (map t_nonce served) \<and> t_nonce ` set served \<inter> A = {}"
  using assms
proof (induction xs arbitrary: s t0 A served)
  case Nil
  then show ?case by simp
next
  case (Cons x xs)
  obtain raw now where x: "x = (raw, now)" by fastforce
  obtain out s1 where step: "redeem_with get put retain C key s raw now = (out, s1)" by fastforce
  obtain rest where run: "redeem_run (redeem_with get put retain C key) s1 xs = (rest, s')"
    and served: "served = (case out of Inl _ \<Rightarrow> rest | Inr t \<Rightarrow> t # rest)"
    using Cons.prems(6) x step by (auto split: prod.splits)
  have "\<forall>n \<in> A. get s n = Some (expiry n) \<or> expiry n < now"
    using Cons.prems(3,5) x by force
  moreover have "\<And>t. ticket_verify C key raw now = Inr t \<Longrightarrow> t_exp t = expiry (t_nonce t)"
    using Cons.prems(4) x by (auto simp: nonces_unique_def)
  ultimately have keep: "\<forall>n \<in> A. get s1 n = Some (expiry n) \<or> expiry n < now"
    and new: "\<And>t. out = Inr t \<Longrightarrow> t_nonce t \<notin> A \<and> get s1 (t_nonce t) = Some (expiry (t_nonce t))"
    using redeem_remembers [OF Cons.prems(1) step] by blast+
  have s1: "invar s1" using redeem_invar [OF Cons.prems(1)] step by (metis snd_conv)
  have sorted: "sorted (map snd xs)" "\<forall>x \<in> set xs. now \<le> snd x"
    using Cons.prems(2) x by auto
  have unique: "nonces_unique C key expiry xs"
    using Cons.prems(4) by (simp add: nonces_unique_def)
  show ?case
  proof (cases out)
    case (Inl e)
    with served Cons.IH [OF s1 sorted unique keep run] show ?thesis by simp
  next
    case (Inr t)
    let ?A = "insert (t_nonce t) A"
    have "\<forall>n \<in> ?A. get s1 n = Some (expiry n) \<or> expiry n < now" using keep new [OF Inr] by auto
    from Cons.IH [OF s1 sorted unique this run] served Inr new [OF Inr] show ?thesis by auto
  qed
qed

end

interpretation spent: spent_store keys_distinct map_of AList.update retain_entries
  by unfold_locales

text \<open>
  A ticket serves one socket: over any sequence of presentations to a fresh registry,
  forged and repeated ones included, with a clock that does not run backwards and nonces that
  are not reused, no nonce is served twice; and after a successful redemption the registry
  remembers only tickets that could still be replayed.
\<close>

theorem ticket_single_use:
  assumes "sorted (map snd xs)" and "nonces_unique C key expiry xs"
    and "redeem_run (redeem C key) [] xs = (served, spent')"
  shows "distinct (map t_nonce served)
    \<and> (\<forall>s raw now t s'. keys_distinct s \<and> redeem C key s raw now = (Inr t, s') \<longrightarrow>
         (\<forall>(n, e) \<in> set s'. now \<le> e))"
proof -
  have "distinct (map t_nonce served)"
  proof (cases xs)
    case Nil
    with assms(3) show ?thesis by simp
  next
    case (Cons x ys)
    with assms(1) have "\<forall>y \<in> set xs. snd x \<le> snd y" by auto
    with spent.redeem_run_once [OF keys_distinct_Nil assms(1) this assms(2), of "{}"] assms(3)
    show ?thesis by (simp add: redeem_def)
  qed
  moreover have "now \<le> e"
    if "keys_distinct s" "redeem C key s raw now = (Inr t, s')" "(n, e) \<in> set s'" for s raw now t s' n e
  proof -
    have t: "ticket_verify C key raw now = Inr t"
      and s': "s' = AList.update (t_nonce t) (t_exp t) (retain_entries (\<lambda>_ e. e \<ge> now) s)"
      using that(2) by (auto simp: redeem_def redeem_with_def Let_def split: sum.splits if_splits)
    have "keys_distinct s'" using that(1) s' by simp
    with that(3) have "map_of s' n = Some e" by (simp add: map_of_entry)
    with s' that(1) t verify_signed [OF t] show ?thesis
      by (auto simp: update_conv' map_of_retain split: if_splits option.splits)
  qed
  ultimately show ?thesis by blast
qed

section \<open>A codec that satisfies the laws\<close>

fun put_field :: "string \<Rightarrow> string" where
  "put_field [] = ''y''"
| "put_field (c # cs) = CHR ''x'' # c # put_field cs"

fun get_field :: "string \<Rightarrow> (string \<times> string) option" where
  "get_field [] = None"
| "get_field (t # cs) =
     (if t = CHR ''y'' then Some ([], cs)
      else case cs of
             [] \<Rightarrow> None
           | c # ds \<Rightarrow> map_option (\<lambda>(s, rest). (c # s, rest)) (get_field ds))"

definition put_int :: "int \<Rightarrow> string" where
  "put_int i = (if i < 0 then CHR ''-'' # replicate (nat (- i)) (CHR ''1'')
                else CHR ''+'' # replicate (nat i) (CHR ''1''))"

definition get_int :: "string \<Rightarrow> int" where
  "get_int s = (if take 1 s = ''-'' then - int (length (tl s)) else int (length (tl s)))"

fun get_fields :: "nat \<Rightarrow> string \<Rightarrow> string list option" where
  "get_fields 0 s = Some []"
| "get_fields (Suc n) s =
     (case get_field s of
        None \<Rightarrow> None
      | Some (f, rest) \<Rightarrow> map_option (\<lambda>fs. f # fs) (get_fields n rest))"

definition ticket_fields :: "MediaTicket \<Rightarrow> string list" where
  "ticket_fields t = [put_int (int (t_call_id t)), t_leg_id t, t_room t, t_peer_id t,
     put_int (t_exp t), t_nonce t]"

definition fields_ticket :: "string list \<Rightarrow> MediaTicket option" where
  "fields_ticket fs =
     (case fs of
        [c, l, r, p, e, n] \<Rightarrow>
          Some \<lparr>t_call_id = nat (get_int c), t_leg_id = l, t_room = r, t_peer_id = p,
                t_exp = get_int e, t_nonce = n\<rparr>
      | _ \<Rightarrow> None)"

definition escape_char :: "char \<Rightarrow> string" where
  "escape_char c = (if c = CHR ''.'' then ''-d'' else if c = CHR ''-'' then ''-m'' else [c])"

fun unescape :: "string \<Rightarrow> string option" where
  "unescape [] = Some []"
| "unescape (c # cs) =
     (if c = CHR ''-''
      then case cs of
             [] \<Rightarrow> None
           | d # ds \<Rightarrow> map_option (\<lambda>r. (if d = CHR ''d'' then CHR ''.'' else CHR ''-'') # r) (unescape ds)
      else map_option (\<lambda>r. c # r) (unescape cs))"

definition sample_codec :: "(string, string) ticket_codec" where
  "sample_codec =
     \<lparr>b64_encode = (\<lambda>b. concat (map escape_char b)), b64_decode = unescape,
      to_json = (\<lambda>t. concat (map put_field (ticket_fields t))),
      from_json = (\<lambda>b. Option.bind (get_fields 6 b) fields_ticket),
      hmac_sha256 = (\<lambda>key msg. key @ rev msg)\<rparr>"

lemma get_put_field: "get_field (put_field s @ rest) = Some (s, rest)"
  by (induction s) simp_all

lemma get_put_fields:
  "get_fields (length fs) (concat (map put_field fs)) = Some fs"
  by (induction fs) (simp_all add: get_put_field)

lemma get_put_int: "get_int (put_int i) = i"
  by (simp add: get_int_def put_int_def)

lemma unescape_escape: "unescape (concat (map escape_char b)) = Some b"
  by (induction b) (simp_all add: escape_char_def)

lemma sample_codec_laws: "codec_laws sample_codec"
proof -
  have "fields_ticket (ticket_fields t) = Some t" for t
    by (simp add: fields_ticket_def ticket_fields_def get_put_int)
  moreover have "get_fields 6 (concat (map put_field (ticket_fields t))) = Some (ticket_fields t)" for t
    using get_put_fields [of "ticket_fields t"] by (simp add: ticket_fields_def eval_nat_numeral)
  ultimately show ?thesis
    by (auto simp: codec_laws_def sample_codec_def unescape_escape escape_char_def split: if_splits)
qed

theorem ticket_roundtrip_witness:
  "ticket_verify sample_codec ''k'' (issue sample_codec ''k'' 7 ''leg'' ''room'' ''phone-1'' 100 ''n'') 160
     = Inr \<lparr>t_call_id = 7, t_leg_id = ''leg'', t_room = ''room'', t_peer_id = ''phone-1'',
            t_exp = 160, t_nonce = ''n''\<rparr>
   \<and> ticket_verify sample_codec ''k'' (issue sample_codec ''k'' 7 ''leg'' ''room'' ''phone-1'' 100 ''n'') 161
     = Inl Expired"
proof -
  note ok = conjunct1 [OF ticket_roundtrip [OF sample_codec_laws, of "''k''" 7 "''leg''" "''room''"
      "''phone-1''" 100 "''n''"]]
  show ?thesis by (simp add: ok)
qed

definition sample_ticket :: string where
  "sample_ticket = issue sample_codec ''k'' 7 ''leg'' ''room'' ''phone-1'' 100 ''n''"

text \<open>The same ticket twice, and a forgery: one of the three is served.\<close>

theorem ticket_single_use_witness:
  "length (fst (redeem_run (redeem sample_codec ''k'') []
     [(sample_ticket, 100), (''x.y'', 101), (sample_ticket, 102)])) = 1"
proof -
  let ?xs = "[(sample_ticket, 100), (''x.y'', 101), (sample_ticket, 102)]"
  let ?t = "\<lparr>t_call_id = 7, t_leg_id = ''leg'', t_room = ''room'', t_peer_id = ''phone-1'',
            t_exp = 160, t_nonce = ''n''\<rparr>"
  have v: "ticket_verify sample_codec ''k'' sample_ticket now = (if now > 160 then Inl Expired else Inr ?t)" for now
    unfolding sample_ticket_def issue_def by (simp add: verify_mint sample_codec_laws TICKET_TTL_SECS_def)
  have f: "ticket_verify sample_codec ''k'' ''x.y'' now = Inl BadSignature" for now
    by (simp add: ticket_verify_def sign_def sample_codec_def escape_char_def)
  obtain served s' where run: "redeem_run (redeem sample_codec ''k'') [] ?xs = (served, s')" by fastforce
  have "distinct (map t_nonce served)"
    using ticket_single_use [OF _ _ run, of "\<lambda>_. 160"] by (simp add: nonces_unique_def v f)
  moreover have "set served = {?t}"
    using run by (auto simp: redeem_def redeem_with_def v f Let_def split: prod.splits)
  ultimately have "length served = 1"
    using distinct_card [of served] by (simp add: distinct_map)
  with run show ?thesis by simp
qed

end
