(* ===== verification/Rate_Limit.thy ===== *)
theory Rate_Limit
  imports Keyed_Map
begin

text \<open>
  The fixed-window rate limiter, \<^verbatim>\<open>server/src/rate_limit.rs\<close>: one map from keys to a counter and
  the start of its window, shared by callers with different limits and windows. Instants and
  windows are integers of one unit; instants do not run backwards.
\<close>

section \<open>The limiter\<close>

type_synonym RateLimiter = "(string, nat \<times> int) kmap"

text \<open>One key: the counter found, or a new one starting now.\<close>

definition allow_entry :: "(nat \<times> int) option \<Rightarrow> nat \<Rightarrow> int \<Rightarrow> int \<Rightarrow> bool \<times> nat \<times> int" where
  "allow_entry found max_hits window now =
     (let (count, start) = (case found of None \<Rightarrow> (0, now) | Some e \<Rightarrow> e)
      in if now - start > window then (True, 1, now)
         else if count < max_hits then (True, count + 1, start)
         else (False, count, start))"

definition allow :: "RateLimiter \<Rightarrow> string \<Rightarrow> nat \<Rightarrow> int \<Rightarrow> int \<Rightarrow> bool \<times> RateLimiter" where
  "allow hits key max_hits window now =
     (let hits1 = (if length hits > 10000
                   then retain_entries (\<lambda>_ (_, start). now - start \<le> window) hits else hits);
          (ok, entry) = allow_entry (map_of hits1 key) max_hits window now
      in (ok, AList.update key entry hits1))"

section \<open>Runs and the reference limiter\<close>

text \<open>A request: its key, its limit and its instant; the answer is recorded beside it.\<close>

fun limit_run :: "int \<Rightarrow> RateLimiter \<Rightarrow> (string \<times> nat \<times> int) list \<Rightarrow> (string \<times> int \<times> bool) list" where
  "limit_run window hits [] = []"
| "limit_run window hits ((key, m, now) # rs) =
     (let (ok, hits1) = allow hits key m window now
      in (key, now, ok) # limit_run window hits1 rs)"

text \<open>The reference forgets nothing: a counter for each key, for ever.\<close>

fun reference_run ::
  "int \<Rightarrow> (string \<Rightarrow> (nat \<times> int) option) \<Rightarrow> (string \<times> nat \<times> int) list \<Rightarrow> (string \<times> int \<times> bool) list" where
  "reference_run window f [] = []"
| "reference_run window f ((key, m, now) # rs) =
     (let (ok, entry) = allow_entry (f key) m window now
      in (key, now, ok) # reference_run window (f(key \<mapsto> entry)) rs)"

text \<open>The map and the reference agree but for entries whose window has elapsed.\<close>

definition forgets_elapsed :: "int \<Rightarrow> int \<Rightarrow> RateLimiter \<Rightarrow> (string \<Rightarrow> (nat \<times> int) option) \<Rightarrow> bool" where
  "forgets_elapsed window now hits f \<longleftrightarrow>
     keys_distinct hits
     \<and> (\<forall>k. map_of hits k = f k
          \<or> map_of hits k = None \<and> (\<exists>c s. f k = Some (c, s) \<and> now - s > window))"

lemma allow_entry_elapsed:
  "1 \<le> m \<Longrightarrow> now - s > window \<Longrightarrow> 0 \<le> window \<Longrightarrow>
     allow_entry (Some (c, s)) m window now = allow_entry None m window now"
  by (simp add: allow_entry_def)

lemma forgets_later: "forgets_elapsed window now hits f \<Longrightarrow> now \<le> t \<Longrightarrow> forgets_elapsed window t hits f"
  unfolding forgets_elapsed_def by (meson diff_right_mono less_le_trans)

lemma forgets_retain:
  assumes "forgets_elapsed window now hits f"
  shows "forgets_elapsed window now (retain_entries (\<lambda>_ (_, start). now - start \<le> window) hits) f"
proof -
  let ?h = "retain_entries (\<lambda>_ (_, start). now - start \<le> window) hits"
  have d: "keys_distinct hits" using assms by (simp add: forgets_elapsed_def)
  have "map_of ?h k = f k \<or> map_of ?h k = None \<and> (\<exists>c s. f k = Some (c, s) \<and> now - s > window)" for k
  proof -
    have "map_of hits k = f k \<or> map_of hits k = None \<and> (\<exists>c s. f k = Some (c, s) \<and> now - s > window)"
      using assms by (simp add: forgets_elapsed_def)
    then show ?thesis unfolding map_of_retain [OF d] by (cases "f k") (auto split: option.splits)
  qed
  with d show ?thesis by (simp add: forgets_elapsed_def)
qed

lemma forgets_allow:
  assumes "forgets_elapsed window now hits f" and "1 \<le> m" and "0 \<le> window"
    and "allow hits key m window now = (ok, hits')"
  shows "\<exists>entry. allow_entry (f key) m window now = (ok, entry)
     \<and> forgets_elapsed window now hits' (f(key \<mapsto> entry))"
proof -
  define h where "h = (if length hits > 10000
    then retain_entries (\<lambda>_ (_, start). now - start \<le> window) hits else hits)"
  have h: "forgets_elapsed window now h f"
    using assms(1) forgets_retain by (simp add: h_def)
  then have same: "allow_entry (map_of h key) m window now = allow_entry (f key) m window now"
    using allow_entry_elapsed [OF assms(2) _ assms(3)] unfolding forgets_elapsed_def by metis
  obtain entry where e: "allow_entry (f key) m window now = (ok, entry)"
    and hits': "hits' = AList.update key entry h"
    using assms(4) same by (auto simp: allow_def h_def [symmetric] Let_def split: prod.splits)
  have "forgets_elapsed window now hits' (f(key \<mapsto> entry))"
    using h unfolding hits' forgets_elapsed_def by (simp add: update_conv')
  with e show ?thesis by blast
qed

lemma limit_run_reference:
  assumes "forgets_elapsed window since hits f" and "0 \<le> window"
    and "sorted (map (\<lambda>(_, _, now). now) rs)" and "\<forall>(_, m, now) \<in> set rs. 1 \<le> m \<and> since \<le> now"
  shows "limit_run window hits rs = reference_run window f rs"
  using assms
proof (induction rs arbitrary: hits f since)
  case Nil
  then show ?case by simp
next
  case (Cons r rs)
  obtain key m now where r: "r = (key, m, now)" by (cases r) auto
  obtain ok hits' where a: "allow hits key m window now = (ok, hits')" by fastforce
  have "forgets_elapsed window now hits f"
    using Cons.prems(1,4) r by (auto intro: forgets_later)
  with a obtain entry where e: "allow_entry (f key) m window now = (ok, entry)"
    and h: "forgets_elapsed window now hits' (f(key \<mapsto> entry))"
    using forgets_allow [of window now hits f m key ok hits'] Cons.prems(2,4) r by auto
  have "limit_run window hits' rs = reference_run window (f(key \<mapsto> entry)) rs"
    using Cons.prems(3,4) r by (intro Cons.IH [OF h Cons.prems(2)]) auto
  with a e r show ?case by simp
qed

section \<open>The bound\<close>

text \<open>The instants at which a key was let through, in a span of the window's length.\<close>

definition passed :: "string \<Rightarrow> (string \<times> int \<times> bool) list \<Rightarrow> int list" where
  "passed key answers = map (\<lambda>(_, now, _). now) (filter (\<lambda>(k, _, ok). k = key \<and> ok) answers)"

definition in_span :: "int \<Rightarrow> int \<Rightarrow> int list \<Rightarrow> nat" where
  "in_span window t xs = length (filter (\<lambda>x. t \<le> x \<and> x \<le> t + window) xs)"

text \<open>
  What a counter knows of the instants that passed before: those of the current window, at
  most the limit, and at most the limit again in the window's length before its start.
\<close>

definition counted :: "nat \<Rightarrow> int \<Rightarrow> (nat \<times> int) option \<Rightarrow> int list \<Rightarrow> bool" where
  "counted m window e xs \<longleftrightarrow>
     (\<forall>t. in_span window t xs \<le> 2 * m)
     \<and> (case e of
          None \<Rightarrow> xs = []
        | Some (c, s) \<Rightarrow>
            length (filter (\<lambda>x. s \<le> x) xs) \<le> c \<and> c \<le> m
            \<and> length (filter (\<lambda>x. s - window \<le> x \<and> x < s) xs) \<le> m
            \<and> (\<forall>x \<in> set xs. x \<le> s + window))"

lemma in_span_append: "in_span window t (xs @ ys) = in_span window t xs + in_span window t ys"
  by (simp add: in_span_def)

lemma in_span_snoc:
  "in_span window t (xs @ [x]) = in_span window t xs + (if t \<le> x \<and> x \<le> t + window then 1 else 0)"
  by (simp add: in_span_def)

lemma length_filter_mono: "(\<And>x. x \<in> set xs \<Longrightarrow> P x \<Longrightarrow> Q x) \<Longrightarrow> length (filter P xs) \<le> length (filter Q xs)"
  by (induction xs) (auto simp: le_SucI)

lemma span_split:
  assumes "0 \<le> window" and "t + window \<ge> s"
  shows "in_span window t xs \<le> length (filter (\<lambda>x. s - window \<le> x \<and> x < s) xs) + length (filter (\<lambda>x. s \<le> x) xs)"
  using assms by (induction xs) (auto simp: in_span_def)

lemma counted_allow:
  assumes c: "counted m window e xs" and w: "0 \<le> window" and m: "1 \<le> m"
    and now: "\<forall>x \<in> set xs. x \<le> now" "\<forall>c s. e = Some (c, s) \<longrightarrow> s \<le> now"
    and res: "allow_entry e m window now = (ok, e')"
  shows "counted m window (Some e') (xs @ (if ok then [now] else [])) \<and> snd e' \<le> now"
proof -
  obtain c0 s0 where e: "(case e of None \<Rightarrow> (0, now) | Some e \<Rightarrow> e) = (c0, s0)" by fastforce
  have s0: "s0 \<le> now" using e now(2) by (cases e) auto
  have old: "length (filter (\<lambda>x. s0 \<le> x) xs) \<le> c0 \<and> c0 \<le> m
      \<and> length (filter (\<lambda>x. s0 - window \<le> x \<and> x < s0) xs) \<le> m \<and> (\<forall>x \<in> set xs. x \<le> s0 + window)"
    using c e by (cases e) (auto simp: counted_def)
  have spans: "in_span window t xs \<le> 2 * m" for t using c by (simp add: counted_def)
  consider (reset) "now - s0 > window" "ok" "e' = (1, now)"
    | (pass) "now - s0 \<le> window" "c0 < m" "ok" "e' = (c0 + 1, s0)"
    | (stop) "\<not> ok" "e' = (c0, s0)" "now - s0 \<le> window"
    using res unfolding allow_entry_def e by (auto split: if_splits)
  then show ?thesis
  proof cases
    case reset
    have none: "filter (\<lambda>x. now \<le> x) xs = []"
      using old reset(1) by (auto simp: filter_empty_conv)
    have before: "length (filter (\<lambda>x. now - window \<le> x \<and> x < now) xs) \<le> m"
      using length_filter_mono [of xs "\<lambda>x. now - window \<le> x \<and> x < now" "\<lambda>x. s0 \<le> x"] old reset(1)
      by fastforce
    have "in_span window t (xs @ [now]) \<le> 2 * m" for t
    proof (cases "t \<le> now \<and> now \<le> t + window")
      case True
      with span_split [OF w, of now t xs] before none m show ?thesis
        by (simp add: in_span_snoc)
    next
      case False
      with spans [of t] show ?thesis by (auto simp: in_span_snoc)
    qed
    with reset before none m now(1) w show ?thesis by (auto simp: counted_def)
  next
    case pass
    have "in_span window t (xs @ [now]) \<le> 2 * m" for t
    proof (cases "t \<le> now \<and> now \<le> t + window")
      case True
      with span_split [OF w, of s0 t xs] old pass s0 show ?thesis
        by (simp add: in_span_snoc)
    next
      case False
      with spans [of t] show ?thesis by (auto simp: in_span_snoc)
    qed
    with pass old s0 w show ?thesis by (auto simp: counted_def)
  next
    case stop
    with old spans s0 show ?thesis by (simp add: counted_def)
  qed
qed

lemma reference_run_bound:
  assumes "counted m window (f key) xs" and "0 \<le> window" and "1 \<le> m"
    and "\<forall>x \<in> set xs. x \<le> since" and "\<forall>c s. f key = Some (c, s) \<longrightarrow> s \<le> since"
    and "sorted (map (\<lambda>(_, _, now). now) rs)"
    and "\<forall>(k, m', now) \<in> set rs. since \<le> now \<and> (k = key \<longrightarrow> m' = m)"
  shows "in_span window t (xs @ passed key (reference_run window f rs)) \<le> 2 * m"
  using assms
proof (induction rs arbitrary: f xs since)
  case Nil
  then show ?case by (simp add: passed_def counted_def)
next
  case (Cons r rs)
  obtain k m' now where r: "r = (k, m', now)" by (cases r) auto
  obtain ok e where a: "allow_entry (f k) m' window now = (ok, e)"
    by (cases "allow_entry (f k) m' window now") auto
  have since: "since \<le> now" and rest: "\<forall>(k, m', now') \<in> set rs. now \<le> now' \<and> (k = key \<longrightarrow> m' = m)"
    and sorted: "sorted (map (\<lambda>(_, _, now). now) rs)"
    using Cons.prems(6,7) r by auto
  show ?case
  proof (cases "k = key")
    case False
    have "in_span window t (xs @ passed key (reference_run window (f(k \<mapsto> e)) rs)) \<le> 2 * m"
      by (rule Cons.IH [where since = now])
        (use False Cons.prems since rest sorted in \<open>auto\<close>)
    with False a r show ?thesis by (simp add: passed_def)
  next
    case True
    then have m': "m' = m" using Cons.prems(7) r by auto
    have now: "\<forall>x \<in> set xs. x \<le> now" "\<forall>c s. f key = Some (c, s) \<longrightarrow> s \<le> now"
      using Cons.prems(4,5) since by force+
    have step: "counted m window (Some e) (xs @ (if ok then [now] else [])) \<and> snd e \<le> now"
      using counted_allow [OF Cons.prems(1-3) now] a True m' by simp
    have "in_span window t ((xs @ (if ok then [now] else [])) @ passed key (reference_run window (f(k \<mapsto> e)) rs)) \<le> 2 * m"
      by (rule Cons.IH [where since = now]) (use True step now rest sorted Cons.prems in \<open>auto\<close>)
    with True a r show ?thesis by (cases ok) (simp_all add: passed_def)
  qed
qed

lemma in_span_le_passed_Nil [simp]: "in_span window t [] = 0"
  by (simp add: in_span_def)

text \<open>
  The limiter is the plain fixed-window limiter, and it bounds every key: when all callers
  of a map use one window, dropping elapsed counters to bound the memory is never observed,
  each answer is the one a limiter that forgets nothing gives; and no span of the window's
  length lets more than twice the limit of a key through, however many other keys are used.
\<close>

theorem limiter_bounds_rate:
  assumes "0 \<le> window" and "1 \<le> m" and "sorted (map (\<lambda>(_, _, now). now) rs)"
    and "\<forall>(k, m', now) \<in> set rs. 1 \<le> m' \<and> (k = key \<longrightarrow> m' = m)"
  shows "limit_run window [] rs = reference_run window (\<lambda>_. None) rs
    \<and> in_span window t (passed key (limit_run window [] rs)) \<le> 2 * m"
proof (cases rs)
  case Nil
  then show ?thesis by (simp add: passed_def)
next
  case (Cons r rs')
  obtain since where since: "\<forall>(_, _, now) \<in> set rs. since \<le> now"
    using Cons assms(3) by (cases r) (auto intro!: that)
  have "limit_run window [] rs = reference_run window (\<lambda>_. None) rs"
    by (rule limit_run_reference [OF _ assms(1,3), of since])
      (use assms(4) since in \<open>auto simp: forgets_elapsed_def\<close>)
  moreover have "in_span window t ([] @ passed key (reference_run window (\<lambda>_. None) rs)) \<le> 2 * m"
    by (rule reference_run_bound [OF _ assms(1,2), where since = since])
      (use assms(3,4) since in \<open>auto simp: counted_def\<close>)
  ultimately show ?thesis by simp
qed

theorem limiter_bounds_rate_witness:
  "map (\<lambda>(_, _, ok). ok) (limit_run 60 [] [(''a'', 2, 0), (''a'', 2, 1), (''b'', 1, 2), (''a'', 2, 3), (''a'', 2, 61)])
     = [True, True, True, False, True]
   \<and> in_span 60 1 (passed ''a'' (limit_run 60 [] [(''a'', 2, 0), (''a'', 2, 1), (''b'', 1, 2),
       (''a'', 2, 3), (''a'', 2, 61)])) \<le> 4"
proof -
  have eq: "limit_run 60 [] [(''a'', 2, 0), (''a'', 2, 1), (''b'', 1, 2), (''a'', 2, 3), (''a'', 2, 61)]
      = reference_run 60 (\<lambda>_. None) [(''a'', 2, 0), (''a'', 2, 1), (''b'', 1, 2), (''a'', 2, 3), (''a'', 2, 61)]"
    and le: "in_span 60 1 (passed ''a'' (limit_run 60 [] [(''a'', 2, 0), (''a'', 2, 1), (''b'', 1, 2),
       (''a'', 2, 3), (''a'', 2, 61)])) \<le> 2 * 2"
    using limiter_bounds_rate [of 60 2 "[(''a'', 2, 0), (''a'', 2, 1), (''b'', 1, 2), (''a'', 2, 3), (''a'', 2, 61)]"
        "''a''" 1] by auto
  have "map (\<lambda>(_, _, ok). ok) (reference_run 60 (\<lambda>_. None) [(''a'', 2, 0), (''a'', 2, 1), (''b'', 1, 2),
      (''a'', 2, 3), (''a'', 2, 61)]) = [True, True, True, False, True]"
    by (simp add: allow_entry_def)
  with eq le show ?thesis by simp
qed

text \<open>
  Callers with different windows disturb each other: the map is swept with the window of
  the caller that found it large, so with enough other keys a request under a short window
  resets a spent counter whose own window is far from over, and its key is let through again.
\<close>

theorem short_window_resets_long:
  assumes "keys_distinct hits" and "length hits > 10000" and "map_of hits key = Some (m, start)"
    and "1 \<le> m" and "other \<noteq> key" and "short < now - start" and "now - start \<le> long"
  shows "\<not> fst (allow hits key m long now)
    \<and> fst (allow (snd (allow hits other m2 short now)) key m long now)"
proof -
  let ?h = "retain_entries (\<lambda>_ (_, s). now - s \<le> short) hits"
  obtain ok e where a: "allow_entry (map_of ?h other) m2 short now = (ok, e)"
    by (cases "allow_entry (map_of ?h other) m2 short now") auto
  have gone: "map_of ?h key = None" using assms(1,3,6) by (simp add: map_of_retain)
  have d: "keys_distinct (AList.update other e ?h)" using assms(1) by simp
  have none: "map_of (AList.update other e ?h) key = None"
    using gone assms(5) by (simp add: update_conv')
  have s: "snd (allow hits other m2 short now) = AList.update other e ?h"
    using assms(2) a by (simp add: allow_def)
  have "map_of (retain_entries (\<lambda>_ (_, s). now - s \<le> long) (AList.update other e ?h)) key = None"
    using none by (simp add: map_of_retain [OF d])
  with none have "fst (allow (AList.update other e ?h) key m long now) = True"
    using assms(4,6,7) by (simp add: allow_def allow_entry_def Let_def)
  moreover have "fst (allow hits key m long now) = False"
    using assms(1,2,3,7) by (simp add: allow_def allow_entry_def Let_def map_of_retain)
  ultimately show ?thesis using s by simp
qed

definition crowded :: RateLimiter where
  "crowded = map (\<lambda>i. (replicate i (CHR ''x''), (1, 0))) [0..<10001]"

theorem short_window_resets_long_witness:
  "\<not> fst (allow crowded ''xxx'' 1 3600 61) \<and> fst (allow (snd (allow crowded ''new'' 5 60 61)) ''xxx'' 1 3600 61)"
proof -
  have d: "keys_distinct crowded"
    by (auto simp: keys_distinct_def crowded_def comp_def distinct_map inj_on_def)
  have "(replicate 3 (CHR ''x''), (1::nat, 0::int)) \<in> set crowded"
    unfolding crowded_def set_map by (rule image_eqI [of _ _ 3]) simp_all
  then have "map_of crowded ''xxx'' = Some (1, 0)"
    using map_of_entry [OF d] by (simp add: eval_nat_numeral)
  moreover have "length crowded > 10000" by (simp add: crowded_def)
  ultimately show ?thesis using short_window_resets_long [OF d, of "''xxx''" 1 0 "''new''" 60 61 3600 5] by simp
qed

end
