(* ===== verification/Rooms.thy ===== *)
theory Rooms
  imports Keyed_Map "HOL-Library.List_Lexorder" "HOL-Library.Char_ord" "HOL-Library.Product_Lexorder"
begin

text \<open>
  The registry of live rooms, \<^verbatim>\<open>server/src/rooms.rs\<close>, with the views it hands out from
  \<^verbatim>\<open>server/src/protocol.rs\<close>. The outbound channels are a store: a peer holds the number of its
  channel, which the socket's task can close. Every method takes the lock of its room and is
  one step. Whiteboard coordinates and the game's JSON are type parameters; a new room's
  session id is an argument.
\<close>

section \<open>Outbound channels\<close>

record Chan =
  ch_cap :: nat
  ch_queue :: "string list"
  ch_closed :: bool
  ch_overflow :: bool

definition OUT_CHANNEL_CAP :: nat where
  "OUT_CHANNEL_CAP = 512"

definition channel :: "nat \<Rightarrow> Chan" where
  "channel cap = \<lparr>ch_cap = cap, ch_queue = [], ch_closed = False, ch_overflow = False\<rparr>"

type_synonym Chans = "nat \<Rightarrow> Chan"

text \<open>A full queue signals the owner and drops the frame; only a closed one answers \<open>False\<close>.\<close>

definition tx_send :: "nat \<Rightarrow> string \<Rightarrow> Chans \<Rightarrow> bool \<times> Chans" where
  "tx_send tx msg C =
     (if ch_closed (C tx) then (False, C)
      else if length (ch_queue (C tx)) < ch_cap (C tx)
      then (True, C(tx := (C tx)\<lparr>ch_queue := ch_queue (C tx) @ [msg]\<rparr>))
      else (True, C(tx := (C tx)\<lparr>ch_overflow := True\<rparr>)))"

definition tx_is_closed :: "nat \<Rightarrow> Chans \<Rightarrow> bool" where
  "tx_is_closed tx C = ch_closed (C tx)"

definition signal_close :: "nat \<Rightarrow> Chans \<Rightarrow> Chans" where
  "signal_close tx C = C(tx := (C tx)\<lparr>ch_overflow := True\<rparr>)"

section \<open>Peers and rooms\<close>

definition MAX_PEERS :: nat where "MAX_PEERS = 4"

definition PHONE_PEER_ID_PREFIX :: string where "PHONE_PEER_ID_PREFIX = ''phone-''"

definition MAX_WHITEBOARD_OPS :: nat where "MAX_WHITEBOARD_OPS = 4000"

datatype Visibility = Public | Private

record Peer =
  p_id :: string
  p_conn :: nat
  p_name :: string
  p_lang :: string
  p_user_id :: "nat option"
  p_engine :: string
  p_avatar_url :: "string option"
  p_voice_id :: "string option"
  p_tx :: nat
  p_speaking :: bool

definition is_phone :: "Peer \<Rightarrow> bool" where
  "is_phone p = starts_with (p_id p) PHONE_PEER_ID_PREFIX"

record TranslationRoute =
  tr_lang :: string
  tr_engine :: string

text \<open>The loop over the listeners, with the routes found so far.\<close>

fun routes_from :: "string \<Rightarrow> (string \<times> string) list \<Rightarrow> TranslationRoute list \<Rightarrow> TranslationRoute list" where
  "routes_from speaker_lang [] routes = routes"
| "routes_from speaker_lang ((lang, engine) # listeners) routes =
     (if lang = ''auto'' \<or> lang = speaker_lang then routes_from speaker_lang listeners routes
      else let route = \<lparr>tr_lang = lang, tr_engine = engine\<rparr>
           in routes_from speaker_lang listeners
                (if route \<in> set routes then routes else routes @ [route]))"

definition routes_for_speaker :: "(string \<times> string) list \<Rightarrow> string \<Rightarrow> TranslationRoute list" where
  "routes_for_speaker listeners speaker_lang = routes_from speaker_lang listeners []"

datatype 'f WhiteboardOp = Draw string string string 'f "('f \<times> 'f) list" | Clear

record ('f, 'j) Room =
  rm_visibility :: Visibility
  rm_session_id :: nat
  rm_peers :: "Peer list"
  rm_whiteboard :: "'f WhiteboardOp list"
  rm_game :: "'j option"

record PeerInfo =
  pi_id :: string
  pi_user_name :: string
  pi_lang :: string
  pi_user_id :: "nat option"
  pi_avatar_url :: "string option"
  pi_voice_id :: "string option"

record Joined =
  j_session_id :: nat
  j_existing :: "PeerInfo list"
  j_public :: bool
  j_created :: bool

datatype LeaveOutcome = Left "nat option" | LeftPhoneOnly nat | Superseded

record PeerSnapshot =
  ps_name :: string
  ps_lang :: string
  ps_avatar_url :: "string option"

record Member =
  m_name :: string
  m_lang :: string
  m_avatar :: "string option"

record PublicRoom =
  pr_room :: string
  pr_count :: nat
  pr_participants :: "Member list"

record ('f, 'j) RoomManager =
  rooms :: "(string, ('f, 'j) Room) kmap"
  client_direct_engines :: "string list option"
  chans :: Chans

definition new_manager :: "Chans \<Rightarrow> ('f, 'j) RoomManager" where
  "new_manager C = \<lparr>rooms = [], client_direct_engines = None, chans = C\<rparr>"

definition init_client_direct_engines ::
  "string list \<Rightarrow> ('f, 'j) RoomManager \<Rightarrow> ('f, 'j) RoomManager" where
  "init_client_direct_engines ids m =
     (case client_direct_engines m of
        None \<Rightarrow> m\<lparr>client_direct_engines := Some ids\<rparr>
      | Some _ \<Rightarrow> m)"

definition is_client_direct :: "('f, 'j) RoomManager \<Rightarrow> string \<Rightarrow> bool" where
  "is_client_direct m engine =
     (case client_direct_engines m of None \<Rightarrow> False | Some ids \<Rightarrow> engine \<in> set ids)"

definition active_rooms :: "('f, 'j) RoomManager \<Rightarrow> nat" where
  "active_rooms m = length (rooms m)"

definition active_peers :: "('f, 'j) RoomManager \<Rightarrow> nat" where
  "active_peers m = sum_list (map (\<lambda>(_, r). length (rm_peers r)) (rooms m))"

section \<open>Joining and leaving\<close>

definition peer_info :: "Peer \<Rightarrow> PeerInfo" where
  "peer_info p = \<lparr>pi_id = p_id p, pi_user_name = p_name p, pi_lang = p_lang p,
     pi_user_id = p_user_id p, pi_avatar_url = p_avatar_url p, pi_voice_id = p_voice_id p\<rparr>"

definition new_room :: "Visibility \<Rightarrow> nat \<Rightarrow> ('f, 'j) Room" where
  "new_room vis session = \<lparr>rm_visibility = vis, rm_session_id = session, rm_peers = [],
     rm_whiteboard = [], rm_game = None\<rparr>"

definition join ::
  "('f, 'j) RoomManager \<Rightarrow> string \<Rightarrow> Peer \<Rightarrow> Visibility \<Rightarrow> nat
     \<Rightarrow> (unit + Joined) \<times> ('f, 'j) RoomManager" where
  "join m room_id peer vis session =
     (let created = (map_of (rooms m) room_id = None);
          room = (case map_of (rooms m) room_id of None \<Rightarrow> new_room vis session | Some r \<Rightarrow> r);
          stale = map p_tx (filter (\<lambda>p. p_id p = p_id peer) (rm_peers room));
          others = filter (\<lambda>p. p_id p \<noteq> p_id peer) (rm_peers room);
          m1 = m\<lparr>chans := fold signal_close stale (chans m)\<rparr>
      in if length others \<ge> MAX_PEERS
         then (Inl (), m1\<lparr>rooms := AList.update room_id (room\<lparr>rm_peers := others\<rparr>) (rooms m)\<rparr>)
         else (Inr \<lparr>j_session_id = rm_session_id room, j_existing = map peer_info others,
                    j_public = (rm_visibility room = Public), j_created = created\<rparr>,
               m1\<lparr>rooms := AList.update room_id (room\<lparr>rm_peers := others @ [peer]\<rparr>) (rooms m)\<rparr>))"

definition is_user_online :: "('f, 'j) RoomManager \<Rightarrow> nat \<Rightarrow> bool" where
  "is_user_online m user =
     list_ex (\<lambda>(_, r). list_ex (\<lambda>p. p_user_id p = Some user) (rm_peers r)) (rooms m)"

definition set_peers :: "Peer list \<Rightarrow> ('f, 'j) Room \<Rightarrow> ('f, 'j) Room" where
  "set_peers ps r = r\<lparr>rm_peers := ps\<rparr>"

definition remove ::
  "('f, 'j) RoomManager \<Rightarrow> string \<Rightarrow> string \<Rightarrow> nat \<Rightarrow> LeaveOutcome \<times> ('f, 'j) RoomManager" where
  "remove m room_id i conn =
     (case map_of (rooms m) room_id of
        None \<Rightarrow> (Superseded, m)
      | Some room \<Rightarrow>
          let kept = filter (\<lambda>p. \<not> (p_id p = i \<and> p_conn p = conn)) (rm_peers room);
              m1 = m\<lparr>rooms := modify_entry room_id (set_peers kept) (rooms m)\<rparr>
          in if length kept = length (rm_peers room) then (Superseded, m1)
             else if kept \<noteq> [] \<and> list_all is_phone kept
             then (LeftPhoneOnly (rm_session_id room), m1)
             else (Left (if kept = [] then Some (rm_session_id room) else None),
                   m1\<lparr>rooms := remove_if room_id (\<lambda>r. rm_peers r = []) (rooms m1)\<rparr>))"

definition has_human_peer :: "('f, 'j) RoomManager \<Rightarrow> string \<Rightarrow> bool" where
  "has_human_peer m room_id =
     (case map_of (rooms m) room_id of
        None \<Rightarrow> False
      | Some room \<Rightarrow> list_ex (\<lambda>p. \<not> is_phone p) (rm_peers room))"

definition orphaned :: "nat \<Rightarrow> ('f, 'j) Room \<Rightarrow> bool" where
  "orphaned session room \<longleftrightarrow>
     rm_session_id room = session \<and> (rm_peers room = [] \<or> list_all is_phone (rm_peers room))"

definition end_orphaned_phone_room ::
  "('f, 'j) RoomManager \<Rightarrow> string \<Rightarrow> nat \<Rightarrow> nat option \<times> ('f, 'j) RoomManager" where
  "end_orphaned_phone_room m room_id session =
     (case map_of (rooms m) room_id of
        None \<Rightarrow> (None, m)
      | Some room \<Rightarrow>
          (if orphaned session room then Some (rm_session_id room) else None,
           m\<lparr>rooms := remove_if room_id (orphaned session) (rooms m)\<rparr>))"

definition prune :: "('f, 'j) RoomManager \<Rightarrow> nat list \<times> ('f, 'j) RoomManager" where
  "prune m =
     (let swept = map (\<lambda>(k, r). (k, set_peers (filter (\<lambda>p. \<not> tx_is_closed (p_tx p) (chans m)) (rm_peers r)) r))
                    (rooms m)
      in (map (\<lambda>(_, r). rm_session_id r) (filter (\<lambda>(_, r). rm_peers r = []) swept),
          m\<lparr>rooms := filter (\<lambda>(_, r). rm_peers r \<noteq> []) swept\<rparr>))"

section \<open>Sending\<close>

fun send_retain :: "string \<Rightarrow> Peer list \<Rightarrow> Chans \<Rightarrow> Peer list \<times> Chans" where
  "send_retain msg [] C = ([], C)"
| "send_retain msg (p # ps) C =
     (let (ok, C1) = tx_send (p_tx p) msg C; (kept, C2) = send_retain msg ps C1
      in (if ok then p # kept else kept, C2))"

definition broadcast :: "('f, 'j) RoomManager \<Rightarrow> string \<Rightarrow> string \<Rightarrow> ('f, 'j) RoomManager" where
  "broadcast m room_id msg =
     (case map_of (rooms m) room_id of
        None \<Rightarrow> m
      | Some room \<Rightarrow>
          let (kept, C) = send_retain msg (rm_peers room) (chans m)
          in m\<lparr>rooms := modify_entry room_id (set_peers kept) (rooms m), chans := C\<rparr>)"

text \<open>The other broadcasts send to the peers of a filter and prune nobody.\<close>

definition send_where ::
  "('f, 'j) RoomManager \<Rightarrow> string \<Rightarrow> (Peer \<Rightarrow> bool) \<Rightarrow> string \<Rightarrow> ('f, 'j) RoomManager" where
  "send_where m room_id P msg =
     (case map_of (rooms m) room_id of
        None \<Rightarrow> m
      | Some room \<Rightarrow>
          m\<lparr>chans := fold (\<lambda>p C. snd (tx_send (p_tx p) msg C)) (filter P (rm_peers room)) (chans m)\<rparr>)"

definition broadcast_except where
  "broadcast_except m room_id except_id msg = send_where m room_id (\<lambda>p. p_id p \<noteq> except_id) msg"

definition broadcast_to_lang where
  "broadcast_to_lang m room_id lang msg = send_where m room_id (\<lambda>p. p_lang p = lang) msg"

definition broadcast_to_lang_engine where
  "broadcast_to_lang_engine m room_id lang engine msg =
     send_where m room_id (\<lambda>p. p_lang p = lang \<and> p_engine p = engine) msg"

definition broadcast_to_lang_except where
  "broadcast_to_lang_except m room_id lang except_id msg =
     send_where m room_id (\<lambda>p. p_lang p = lang \<and> p_id p \<noteq> except_id) msg"

definition broadcast_to_lang_engine_except where
  "broadcast_to_lang_engine_except m room_id lang engine except_id msg =
     send_where m room_id (\<lambda>p. p_lang p = lang \<and> p_engine p = engine \<and> p_id p \<noteq> except_id) msg"

definition broadcast_excluding_client_direct where
  "broadcast_excluding_client_direct m room_id keep_peer msg =
     send_where m room_id (\<lambda>p. p_id p = keep_peer \<or> \<not> is_client_direct m (p_engine p)) msg"

definition broadcast_to_engine_or_peer where
  "broadcast_to_engine_or_peer m room_id engine peer_id msg =
     send_where m room_id (\<lambda>p. p_engine p = engine \<or> p_id p = peer_id) msg"

definition relay_to_peer ::
  "('f, 'j) RoomManager \<Rightarrow> string \<Rightarrow> string \<Rightarrow> string \<Rightarrow> bool \<times> ('f, 'j) RoomManager" where
  "relay_to_peer m room_id target_id msg =
     (case map_of (rooms m) room_id of
        None \<Rightarrow> (False, m)
      | Some room \<Rightarrow>
          (case find (\<lambda>p. p_id p = target_id) (rm_peers room) of
             None \<Rightarrow> (False, m)
           | Some p \<Rightarrow> let (ok, C) = tx_send (p_tx p) msg (chans m) in (ok, m\<lparr>chans := C\<rparr>)))"

section \<open>Routing and metering\<close>

text \<open>The peers of a room; none when it does not exist.\<close>

definition peers_of :: "('f, 'j) RoomManager \<Rightarrow> string \<Rightarrow> Peer list" where
  "peers_of m room_id = (case map_of (rooms m) room_id of None \<Rightarrow> [] | Some room \<Rightarrow> rm_peers room)"

definition translation_routes ::
  "('f, 'j) RoomManager \<Rightarrow> string \<Rightarrow> string \<Rightarrow> string \<Rightarrow> TranslationRoute list" where
  "translation_routes m room_id speaker_id speaker_lang =
     routes_for_speaker
       (map (\<lambda>p. (p_lang p, p_engine p)) (filter (\<lambda>p. p_id p \<noteq> speaker_id) (peers_of m room_id)))
       speaker_lang"

definition has_engine_listener :: "('f, 'j) RoomManager \<Rightarrow> string \<Rightarrow> string \<Rightarrow> string \<Rightarrow> bool" where
  "has_engine_listener m room_id exclude_id engine =
     list_ex (\<lambda>p. p_id p \<noteq> exclude_id \<and> p_engine p = engine) (peers_of m room_id)"

definition peer_engines :: "('f, 'j) RoomManager \<Rightarrow> string \<Rightarrow> (string \<times> string) list" where
  "peer_engines m room_id = map (\<lambda>p. (p_id p, p_engine p)) (peers_of m room_id)"

definition active_source_count :: "('f, 'j) RoomManager \<Rightarrow> string \<Rightarrow> string \<Rightarrow> string \<Rightarrow> nat" where
  "active_source_count m room_id listener_id listener_lang =
     length (filter (\<lambda>p. p_id p \<noteq> listener_id \<and> p_lang p \<noteq> ''auto'' \<and> p_lang p \<noteq> listener_lang
                       \<and> p_speaking p) (peers_of m room_id))"

fun distinct_langs :: "(Peer \<Rightarrow> bool) \<Rightarrow> Peer list \<Rightarrow> string list \<Rightarrow> string list" where
  "distinct_langs P [] langs = langs"
| "distinct_langs P (p # ps) langs =
     distinct_langs P ps
       (if P p \<and> p_lang p \<noteq> ''auto'' \<and> p_lang p \<notin> set langs then langs @ [p_lang p] else langs)"

definition get_room_languages :: "('f, 'j) RoomManager \<Rightarrow> string \<Rightarrow> string \<Rightarrow> string list" where
  "get_room_languages m room_id exclude_id =
     distinct_langs (\<lambda>p. p_id p \<noteq> exclude_id) (peers_of m room_id) []"

definition target_langs_for_engine ::
  "('f, 'j) RoomManager \<Rightarrow> string \<Rightarrow> string \<Rightarrow> string \<Rightarrow> string list" where
  "target_langs_for_engine m room_id exclude_id engine =
     distinct_langs (\<lambda>p. p_id p \<noteq> exclude_id \<and> p_engine p = engine) (peers_of m room_id) []"

section \<open>Changing a peer in place\<close>

text \<open>The first peer with the id.\<close>

fun update_first :: "string \<Rightarrow> (Peer \<Rightarrow> Peer) \<Rightarrow> Peer list \<Rightarrow> Peer list" where
  "update_first i f [] = []"
| "update_first i f (p # ps) = (if p_id p = i then f p # ps else p # update_first i f ps)"

definition change_peer ::
  "('f, 'j) RoomManager \<Rightarrow> string \<Rightarrow> string \<Rightarrow> (Peer \<Rightarrow> Peer) \<Rightarrow> bool \<times> ('f, 'j) RoomManager" where
  "change_peer m room_id i f =
     (list_ex (\<lambda>p. p_id p = i) (peers_of m room_id),
      m\<lparr>rooms := modify_entry room_id (\<lambda>r. set_peers (update_first i f (rm_peers r)) r) (rooms m)\<rparr>)"

definition set_speaking where
  "set_speaking m room_id peer_id speaking =
     snd (change_peer m room_id peer_id (\<lambda>p. p\<lparr>p_speaking := speaking\<rparr>))"

definition set_peer_engine where
  "set_peer_engine m room_id peer_id engine = change_peer m room_id peer_id (\<lambda>p. p\<lparr>p_engine := engine\<rparr>)"

definition set_peer_lang where
  "set_peer_lang m room_id peer_id lang = change_peer m room_id peer_id (\<lambda>p. p\<lparr>p_lang := lang\<rparr>)"

definition find_peer :: "('f, 'j) RoomManager \<Rightarrow> string \<Rightarrow> string \<Rightarrow> Peer option" where
  "find_peer m room_id i = find (\<lambda>p. p_id p = i) (peers_of m room_id)"

definition peer_snapshot :: "('f, 'j) RoomManager \<Rightarrow> string \<Rightarrow> string \<Rightarrow> PeerSnapshot option" where
  "peer_snapshot m room_id i =
     map_option (\<lambda>p. \<lparr>ps_name = p_name p, ps_lang = p_lang p, ps_avatar_url = p_avatar_url p\<rparr>)
       (find_peer m room_id i)"

definition peer_engine :: "('f, 'j) RoomManager \<Rightarrow> string \<Rightarrow> string \<Rightarrow> string option" where
  "peer_engine m room_id i = map_option p_engine (find_peer m room_id i)"

definition peer_lang :: "('f, 'j) RoomManager \<Rightarrow> string \<Rightarrow> string \<Rightarrow> string option" where
  "peer_lang m room_id i = map_option p_lang (find_peer m room_id i)"

definition room_session_id :: "('f, 'j) RoomManager \<Rightarrow> string \<Rightarrow> nat option" where
  "room_session_id m room_id = map_option rm_session_id (map_of (rooms m) room_id)"

section \<open>Whiteboard, game and lobby\<close>

definition draw_op :: "'f WhiteboardOp \<Rightarrow> 'f WhiteboardOp list \<Rightarrow> 'f WhiteboardOp list" where
  "draw_op op ops =
     (case op of
        Clear \<Rightarrow> []
      | _ \<Rightarrow> let ops1 = ops @ [op]
             in if length ops1 > MAX_WHITEBOARD_OPS then drop (length ops1 - MAX_WHITEBOARD_OPS) ops1
                else ops1)"

definition whiteboard_apply ::
  "('f, 'j) RoomManager \<Rightarrow> string \<Rightarrow> 'f WhiteboardOp \<Rightarrow> ('f, 'j) RoomManager" where
  "whiteboard_apply m room_id op =
     m\<lparr>rooms := modify_entry room_id (\<lambda>r. r\<lparr>rm_whiteboard := draw_op op (rm_whiteboard r)\<rparr>) (rooms m)\<rparr>"

definition whiteboard_snapshot :: "('f, 'j) RoomManager \<Rightarrow> string \<Rightarrow> 'f WhiteboardOp list" where
  "whiteboard_snapshot m room_id =
     (case map_of (rooms m) room_id of None \<Rightarrow> [] | Some r \<Rightarrow> rm_whiteboard r)"

definition game_set ::
  "('j \<Rightarrow> bool) \<Rightarrow> ('f, 'j) RoomManager \<Rightarrow> string \<Rightarrow> 'j \<Rightarrow> ('f, 'j) RoomManager" where
  "game_set is_null m room_id state =
     m\<lparr>rooms := modify_entry room_id
         (\<lambda>r. r\<lparr>rm_game := (if is_null state then None else Some state)\<rparr>) (rooms m)\<rparr>"

definition game_snapshot :: "('f, 'j) RoomManager \<Rightarrow> string \<Rightarrow> 'j option" where
  "game_snapshot m room_id = Option.bind (map_of (rooms m) room_id) rm_game"

definition public_room :: "string \<times> ('f, 'j) Room \<Rightarrow> PublicRoom" where
  "public_room e = (case e of (k, r) \<Rightarrow>
     \<lparr>pr_room = k, pr_count = length (rm_peers r),
      pr_participants = map (\<lambda>p. \<lparr>m_name = p_name p, m_lang = p_lang p, m_avatar = p_avatar_url p\<rparr>)
                          (rm_peers r)\<rparr>)"

definition public_rooms :: "('f, 'j) RoomManager \<Rightarrow> PublicRoom list" where
  "public_rooms m =
     sort_key (\<lambda>r. (- int (pr_count r), pr_room r))
       (map public_room
         (filter (\<lambda>(_, r). rm_visibility r = Public \<and> rm_peers r \<noteq> []) (rooms m)))"

section \<open>Runs\<close>

text \<open>
  The operations of the registry and of its environment: a socket's task drains or closes its
  channel at any time. The first result is the call sessions that the step reports as over,
  which the callers finalise.
\<close>

datatype ('f, 'j) room_op =
  Join_op string Peer Visibility nat
| Remove_op string string nat
| EndOrphan_op string nat
| Prune_op
| Broadcast_op string string
| Send_op string "Peer \<Rightarrow> bool" string
| Relay_op string string string
| Speaking_op string string bool
| Engine_op string string string
| Lang_op string string string
| Whiteboard_op string "'f WhiteboardOp"
| Game_op string 'j
| Sockets_op "Chans \<Rightarrow> Chans"

fun room_step ::
  "('j \<Rightarrow> bool) \<Rightarrow> ('f, 'j) RoomManager \<Rightarrow> ('f, 'j) room_op \<Rightarrow> nat list \<times> ('f, 'j) RoomManager" where
  "room_step N m (Join_op room peer vis session) = ([], snd (join m room peer vis session))"
| "room_step N m (Remove_op room i conn) =
     (case remove m room i conn of (Left (Some s), m') \<Rightarrow> ([s], m') | (_, m') \<Rightarrow> ([], m'))"
| "room_step N m (EndOrphan_op room session) =
     (case end_orphaned_phone_room m room session of (Some s, m') \<Rightarrow> ([s], m') | (None, m') \<Rightarrow> ([], m'))"
| "room_step N m Prune_op = prune m"
| "room_step N m (Broadcast_op room msg) = ([], broadcast m room msg)"
| "room_step N m (Send_op room P msg) = ([], send_where m room P msg)"
| "room_step N m (Relay_op room i msg) = ([], snd (relay_to_peer m room i msg))"
| "room_step N m (Speaking_op room i b) = ([], set_speaking m room i b)"
| "room_step N m (Engine_op room i e) = ([], snd (set_peer_engine m room i e))"
| "room_step N m (Lang_op room i l) = ([], snd (set_peer_lang m room i l))"
| "room_step N m (Whiteboard_op room op) = ([], whiteboard_apply m room op)"
| "room_step N m (Game_op room state) = ([], game_set N m room state)"
| "room_step N m (Sockets_op f) = ([], m\<lparr>chans := f (chans m)\<rparr>)"

fun room_run ::
  "('j \<Rightarrow> bool) \<Rightarrow> ('f, 'j) RoomManager \<Rightarrow> ('f, 'j) room_op list \<Rightarrow> nat list \<times> ('f, 'j) RoomManager" where
  "room_run N m [] = ([], m)"
| "room_run N m (x # xs) =
     (let (out, m1) = room_step N m x; (outs, m2) = room_run N m1 xs in (out @ outs, m2))"

section \<open>Well-formed rooms\<close>

definition room_ok :: "('f, 'j) Room \<Rightarrow> bool" where
  "room_ok r \<longleftrightarrow> distinct (map p_id (rm_peers r)) \<and> length (rm_peers r) \<le> MAX_PEERS
     \<and> length (rm_whiteboard r) \<le> MAX_WHITEBOARD_OPS"

definition rooms_ok :: "('f, 'j) RoomManager \<Rightarrow> bool" where
  "rooms_ok m \<longleftrightarrow> keys_distinct (rooms m)
     \<and> (\<forall>k r. map_of (rooms m) k = Some r \<longrightarrow> room_ok r)"

lemma rooms_okD: "rooms_ok m \<Longrightarrow> map_of (rooms m) k = Some r \<Longrightarrow> room_ok r"
  by (simp add: rooms_ok_def)

lemma rooms_ok_chans [simp]: "rooms_ok (m\<lparr>chans := C\<rparr>) = rooms_ok m"
  by (simp add: rooms_ok_def)

lemma rooms_ok_modify:
  assumes "rooms_ok m" and "\<And>r. map_of (rooms m) k = Some r \<Longrightarrow> room_ok r \<Longrightarrow> room_ok (f r)"
  shows "rooms_ok (m\<lparr>rooms := modify_entry k f (rooms m)\<rparr>)"
  using assms by (auto simp: rooms_ok_def)

lemma rooms_ok_update:
  "rooms_ok m \<Longrightarrow> room_ok r \<Longrightarrow> rooms_ok (m\<lparr>rooms := AList.update k r (rooms m)\<rparr>)"
  by (auto simp: rooms_ok_def update_conv')

lemma rooms_ok_retain: "rooms_ok m \<Longrightarrow> rooms_ok (m\<lparr>rooms := retain_entries P (rooms m)\<rparr>)"
  by (auto simp: rooms_ok_def map_of_retain split: option.splits if_splits)

lemma rooms_ok_remove_if: "rooms_ok m \<Longrightarrow> rooms_ok (m\<lparr>rooms := remove_if k P (rooms m)\<rparr>)"
  unfolding remove_if_def by (rule rooms_ok_retain)

lemma room_ok_filter: "room_ok r \<Longrightarrow> room_ok (set_peers (filter P (rm_peers r)) r)"
  by (auto simp: room_ok_def set_peers_def distinct_map_filter intro: le_trans [OF length_filter_le])

lemma tx_send_closed [simp]:
  "fst (tx_send tx msg C) = (\<not> ch_closed (C tx))"
  "ch_closed (snd (tx_send tx msg C) t) = ch_closed (C t)"
  by (simp_all add: tx_send_def)

lemma send_retain_Cons:
  "send_retain msg (p # ps) C =
     (let rest = send_retain msg ps (snd (tx_send (p_tx p) msg C))
      in (if fst (tx_send (p_tx p) msg C) then p # fst rest else fst rest, snd rest))"
  by (simp add: Let_def case_prod_beta)

lemma send_retain_filter:
  "fst (send_retain msg ps C) = filter (\<lambda>p. \<not> ch_closed (C (p_tx p))) ps"
  by (induction ps arbitrary: C) (simp_all add: send_retain_Cons Let_def del: send_retain.simps(2))

lemma update_first_ids: "(\<And>p. p_id (f p) = p_id p) \<Longrightarrow> map p_id (update_first i f ps) = map p_id ps"
  by (induction ps) auto

lemma update_first_length [simp]: "length (update_first i f ps) = length ps"
  by (induction ps) auto

lemma draw_op_length: "length ops \<le> MAX_WHITEBOARD_OPS \<Longrightarrow> length (draw_op op ops) \<le> MAX_WHITEBOARD_OPS"
  by (cases op) (simp_all add: draw_op_def Let_def MAX_WHITEBOARD_OPS_def)

lemma join_ok: "rooms_ok m \<Longrightarrow> rooms_ok (snd (join m room peer vis session))"
proof -
  assume ok: "rooms_ok m"
  define r where "r = (case map_of (rooms m) room of None \<Rightarrow> new_room vis session | Some r \<Rightarrow> r)"
  have r: "room_ok r"
    using rooms_okD [OF ok] by (auto simp: r_def new_room_def room_ok_def split: option.splits)
  let ?others = "filter (\<lambda>p. p_id p \<noteq> p_id peer) (rm_peers r)"
  have "room_ok (set_peers ?others r)" using r by (rule room_ok_filter)
  moreover have "room_ok (set_peers (?others @ [peer]) r)" if "length ?others < MAX_PEERS"
    using r that by (auto simp: room_ok_def set_peers_def distinct_map_filter)
  ultimately show ?thesis
    using rooms_ok_update [of "m\<lparr>chans := C\<rparr>" for C] ok
    by (auto simp: join_def Let_def r_def [symmetric] set_peers_def)
qed

lemma remove_ok: "rooms_ok m \<Longrightarrow> rooms_ok (snd (remove m room i conn))"
proof (cases "map_of (rooms m) room")
  case None
  assume "rooms_ok m"
  with None show ?thesis by (simp add: remove_def)
next
  case (Some r)
  let ?kept = "filter (\<lambda>p. \<not> (p_id p = i \<and> p_conn p = conn)) (rm_peers r)"
  assume ok: "rooms_ok m"
  have "room_ok (set_peers ?kept r)" using rooms_okD [OF ok Some] by (rule room_ok_filter)
  then have "rooms_ok (m\<lparr>rooms := modify_entry room (set_peers ?kept) (rooms m)\<rparr>)"
    using Some by (intro rooms_ok_modify [OF ok]) simp
  with rooms_ok_remove_if [OF this] Some show ?thesis by (auto simp: remove_def Let_def)
qed

lemma prune_ok: "rooms_ok m \<Longrightarrow> rooms_ok (snd (prune m))"
proof -
  assume ok: "rooms_ok m"
  define f where "f r = set_peers (filter (\<lambda>p. \<not> tx_is_closed (p_tx p) (chans m)) (rm_peers r)) r"
    for r :: "('a, 'b) Room"
  let ?m = "m\<lparr>rooms := map (\<lambda>(k, r). (k, f r)) (rooms m)\<rparr>"
  have "rooms_ok ?m"
    using ok by (auto simp: rooms_ok_def keys_distinct_def map_of_map comp_def case_prod_beta f_def
        intro: room_ok_filter)
  from rooms_ok_retain [OF this, of "\<lambda>_ r. rm_peers r \<noteq> []"] show ?thesis
    by (simp add: prune_def Let_def f_def [symmetric] retain_entries_def)
qed

lemma room_step_ok: "rooms_ok m \<Longrightarrow> rooms_ok (snd (room_step N m x))"
proof (cases x)
  case (Remove_op room i conn)
  assume "rooms_ok m"
  with remove_ok [of m room i conn] Remove_op show ?thesis
    by (auto split: LeaveOutcome.splits option.splits prod.splits)
next
  case (EndOrphan_op room session)
  assume "rooms_ok m"
  with rooms_ok_remove_if [of m] EndOrphan_op show ?thesis
    by (auto simp: end_orphaned_phone_room_def split: option.splits)
next
  case (Broadcast_op room msg)
  assume ok: "rooms_ok m"
  show ?thesis
  proof (cases "map_of (rooms m) room")
    case (Some r)
    let ?s = "send_retain msg (rm_peers r) (chans m)"
    have "room_ok (set_peers (fst ?s) r)"
      unfolding send_retain_filter(1) using rooms_okD [OF ok Some] by (rule room_ok_filter)
    then have "rooms_ok (m\<lparr>rooms := modify_entry room (set_peers (fst ?s)) (rooms m)\<rparr>)"
      using Some by (intro rooms_ok_modify [OF ok]) simp
    then have "rooms_ok (m\<lparr>rooms := modify_entry room (set_peers (fst ?s)) (rooms m), chans := snd ?s\<rparr>)"
      by (simp add: rooms_ok_def)
    with Broadcast_op Some show ?thesis by (simp add: broadcast_def case_prod_beta)
  qed (use ok Broadcast_op in \<open>simp add: broadcast_def\<close>)
next
  case (Whiteboard_op room op)
  assume "rooms_ok m"
  with Whiteboard_op show ?thesis
    by (auto simp: whiteboard_apply_def room_ok_def draw_op_length intro: rooms_ok_modify)
next
  case (Game_op room s)
  assume "rooms_ok m"
  with Game_op show ?thesis by (auto simp: game_set_def room_ok_def intro: rooms_ok_modify)
qed (auto simp: join_ok prune_ok send_where_def relay_to_peer_def set_speaking_def set_peer_engine_def
    set_peer_lang_def change_peer_def room_ok_def set_peers_def update_first_ids
    split: option.splits prod.splits intro!: rooms_ok_modify)

lemma room_run_ok: "rooms_ok m \<Longrightarrow> rooms_ok (snd (room_run N m xs))"
proof (induction xs arbitrary: m)
  case (Cons x xs)
  with room_step_ok [of m N x] show ?case by (auto simp: split: prod.splits) (metis snd_conv)
qed simp

section \<open>A session ends once\<close>

definition sessions_ok :: "('f, 'j) RoomManager \<Rightarrow> nat set \<Rightarrow> nat set \<Rightarrow> bool" where
  "sessions_ok m used over \<longleftrightarrow>
     keys_distinct (rooms m)
     \<and> (\<forall>k k' r r'. map_of (rooms m) k = Some r \<longrightarrow> map_of (rooms m) k' = Some r'
          \<longrightarrow> rm_session_id r = rm_session_id r' \<longrightarrow> k = k')
     \<and> (\<forall>k r. map_of (rooms m) k = Some r \<longrightarrow> rm_session_id r \<in> used - over) \<and> over \<subseteq> used"

text \<open>A step that opens no room: it keeps sessions in place and reports those it drops.\<close>

definition sheds :: "('f, 'j) RoomManager \<Rightarrow> nat list \<Rightarrow> ('f, 'j) RoomManager \<Rightarrow> bool" where
  "sheds m out m' \<longleftrightarrow>
     keys_distinct (rooms m')
     \<and> (\<forall>k r'. map_of (rooms m') k = Some r' \<longrightarrow>
          (\<exists>r. map_of (rooms m) k = Some r \<and> rm_session_id r = rm_session_id r'))
     \<and> distinct out
     \<and> (\<forall>s \<in> set out. \<exists>k r. map_of (rooms m) k = Some r \<and> rm_session_id r = s \<and> map_of (rooms m') k = None)"

lemma sheds_sessions:
  assumes "sessions_ok m used over" and "sheds m out m'"
  shows "sessions_ok m' used (over \<union> set out) \<and> distinct out \<and> set out \<inter> over = {}"
proof -
  have inj: "k = k'" if "map_of (rooms m) k = Some r" "map_of (rooms m) k' = Some r'"
      "rm_session_id r = rm_session_id r'" for k k' r r'
    using assms(1) that unfolding sessions_ok_def by blast
  have live: "rm_session_id r \<in> used - over" if "map_of (rooms m) k = Some r" for k r
    using assms(1) that unfolding sessions_ok_def by blast
  have prior: "\<exists>r. map_of (rooms m) k = Some r \<and> rm_session_id r = rm_session_id r'"
    if "map_of (rooms m') k = Some r'" for k r'
    using assms(2) that unfolding sheds_def by blast
  have gone: "\<exists>k r. map_of (rooms m) k = Some r \<and> rm_session_id r = s \<and> map_of (rooms m') k = None"
    if "s \<in> set out" for s
    using assms(2) that unfolding sheds_def by blast
  have "rm_session_id r' \<notin> set out" if r': "map_of (rooms m') k = Some r'" for k r'
  proof
    assume "rm_session_id r' \<in> set out"
    from gone [OF this] prior [OF r'] inj r' show False by force
  qed
  moreover have "set out \<subseteq> used - over" using gone live by blast
  moreover have "over \<subseteq> used" using assms(1) unfolding sessions_ok_def by blast
  moreover have "k = k'" if "map_of (rooms m') k = Some r" "map_of (rooms m') k' = Some r'"
      "rm_session_id r = rm_session_id r'" for k k' r r'
    using prior [OF that(1)] prior [OF that(2)] inj that(3) by metis
  moreover have "keys_distinct (rooms m')" "distinct out" using assms(2) by (simp_all add: sheds_def)
  moreover have "rm_session_id r' \<in> used - over" if "map_of (rooms m') k = Some r'" for k r'
    using prior [OF that] live by metis
  ultimately show ?thesis unfolding sessions_ok_def by (intro conjI allI impI) blast+
qed

lemma sheds_same_rooms: "keys_distinct (rooms m) \<Longrightarrow> rooms m' = rooms m \<Longrightarrow> sheds m [] m'"
  by (simp add: sheds_def)

lemma sheds_modify:
  assumes "keys_distinct (rooms m)" and "rooms m' = modify_entry k f (rooms m)"
    and "\<And>r. rm_session_id (f r) = rm_session_id r"
  shows "sheds m [] m'"
  using assms by (auto simp: sheds_def split: if_splits)

lemma sheds_remove:
  assumes "keys_distinct (rooms m)" and "map_of (rooms m) k = Some r" and "P (f r)"
    and "rooms m' = remove_if k P (modify_entry k f (rooms m))"
    and "\<And>r. rm_session_id (f r) = rm_session_id r"
  shows "sheds m [rm_session_id r] m'"
  using assms by (auto simp: sheds_def map_of_remove_if split: if_splits option.splits)

lemma set_peers_session [simp]: "rm_session_id (set_peers ps r) = rm_session_id r" "rm_peers (set_peers ps r) = ps"
  by (simp_all add: set_peers_def)

lemma remove_if_keep:
  "map_of m k = Some v \<Longrightarrow> \<not> P v \<Longrightarrow> keys_distinct m \<Longrightarrow> remove_if k P m = m"
  unfolding remove_if_def retain_entries_def by (rule filter_True) (auto simp: map_of_entry)

lemma sheds_prune:
  assumes ok: "sessions_ok m used over"
  shows "sheds m (fst (prune m)) (snd (prune m))"
proof -
  define f where "f r = set_peers (filter (\<lambda>p. \<not> tx_is_closed (p_tx p) (chans m)) (rm_peers r)) r"
    for r :: "('a, 'b) Room"
  define sw where "sw = map (\<lambda>(k, r). (k, f r)) (rooms m)"
  have d: "keys_distinct (rooms m)" using ok by (simp add: sessions_ok_def)
  then have ds: "keys_distinct sw" by (simp add: sw_def keys_distinct_def comp_def case_prod_beta)
  have f: "rm_session_id (f r) = rm_session_id r" for r by (simp add: f_def)
  have swept: "map_of sw k = map_option f (map_of (rooms m) k)" for k by (simp add: sw_def map_of_map)
  have rest: "rooms (snd (prune m)) = retain_entries (\<lambda>_ r. rm_peers r \<noteq> []) sw"
    by (simp add: prune_def Let_def f_def [symmetric] sw_def [symmetric] retain_entries_def)
  have out: "fst (prune m) = map (\<lambda>(_, r). rm_session_id r) (filter (\<lambda>(_, r). rm_peers r = []) sw)"
    by (simp add: prune_def Let_def f_def [symmetric] sw_def [symmetric])
  have "inj_on (\<lambda>(_, r). rm_session_id r) (set sw)"
  proof (rule inj_onI, clarsimp simp: sw_def)
    fix k r k' r'
    assume "(k, r) \<in> set (rooms m)" "(k', r') \<in> set (rooms m)" "rm_session_id (f r) = rm_session_id (f r')"
    then have e: "map_of (rooms m) k = Some r" "map_of (rooms m) k' = Some r'"
      "rm_session_id r = rm_session_id r'"
      by (simp_all add: map_of_entry [OF d] f)
    with ok have "k = k'" unfolding sessions_ok_def by blast
    with e show "k = k' \<and> f r = f r'" by simp
  qed
  moreover have "distinct sw" using ds unfolding keys_distinct_def distinct_map [of fst] by blast
  ultimately have "distinct (fst (prune m))"
    unfolding out by (auto simp: distinct_map inj_on_def)
  moreover have "\<exists>k r. map_of (rooms m) k = Some r \<and> rm_session_id r = s \<and> map_of (rooms (snd (prune m))) k = None"
    if "s \<in> set (fst (prune m))" for s
  proof -
    from that obtain k r where "(k, r) \<in> set sw" "rm_peers r = []" "s = rm_session_id r"
      unfolding out by auto
    then obtain r0 where "map_of (rooms m) k = Some r0" "r = f r0"
      using map_of_entry [OF ds, of k r] swept by auto
    with \<open>rm_peers r = []\<close> \<open>s = rm_session_id r\<close> f show ?thesis
      by (intro exI [of _ k] exI [of _ r0]) (simp add: rest map_of_retain [OF ds] swept)
  qed
  ultimately show ?thesis
    using ds unfolding sheds_def rest
    by (auto simp: map_of_retain [OF ds] swept f split: option.splits if_splits)
qed

lemma modify_entry_id: "modify_entry k (\<lambda>v. v) m = m"
  by (simp add: modify_entry_def case_prod_beta)

lemma sheds_step:
  assumes ok: "sessions_ok m used over" and "\<And>room p vis session. x \<noteq> Join_op room p vis session"
  shows "sheds m (fst (room_step N m x)) (snd (room_step N m x))"
proof -
  have d: "keys_distinct (rooms m)" using ok by (simp add: sessions_ok_def)
  show ?thesis
  proof (cases x)
    case (Remove_op room i conn)
    show ?thesis
    proof (cases "map_of (rooms m) room")
      case None
      with Remove_op d show ?thesis by (simp add: remove_def sheds_same_rooms)
    next
      case (Some r)
      let ?kept = "filter (\<lambda>p. \<not> (p_id p = i \<and> p_conn p = conn)) (rm_peers r)"
      let ?m = "m\<lparr>rooms := modify_entry room (set_peers ?kept) (rooms m)\<rparr>"
      have keep: "sheds m [] ?m" by (rule sheds_modify [OF d, of _ room "set_peers ?kept"]) simp_all
      have left: "sheds m [rm_session_id r] (?m\<lparr>rooms := remove_if room (\<lambda>r. rm_peers r = []) (rooms ?m)\<rparr>)"
        if "?kept = []"
        by (rule sheds_remove [OF d Some, where f = "set_peers ?kept"]) (use that in simp_all)
      have stay: "remove_if room (\<lambda>r. rm_peers r = []) (rooms ?m) = rooms ?m" if "?kept \<noteq> []"
        using that d Some by (intro remove_if_keep) auto
      show ?thesis
        using Remove_op Some keep left stay by (auto simp: remove_def Let_def)
    qed
  next
    case (EndOrphan_op room session)
    then show ?thesis
      using d sheds_remove [OF d, of room _ "orphaned session" "\<lambda>r. r"]
      by (auto simp: end_orphaned_phone_room_def sheds_same_rooms remove_if_keep modify_entry_id
          split: option.splits)
  next
    case Prune_op
    with sheds_prune [OF ok] show ?thesis by simp
  next
    case (Broadcast_op room msg)
    then show ?thesis
      using d by (auto simp: broadcast_def case_prod_beta sheds_same_rooms split: option.splits
          intro: sheds_modify [OF d])
  next
    case (Relay_op room i msg)
    then show ?thesis
      using d by (auto simp: relay_to_peer_def case_prod_beta sheds_same_rooms split: option.splits)
  qed (use d assms(2) in \<open>auto simp: send_where_def set_speaking_def set_peer_engine_def set_peer_lang_def
      change_peer_def whiteboard_apply_def game_set_def sheds_same_rooms split: option.splits
      intro: sheds_modify [OF d]\<close>)
qed

lemma sessions_join:
  assumes ok: "sessions_ok m used over" and new: "session \<notin> used"
  shows "sessions_ok (snd (join m room p vis session)) (insert session used) over"
proof -
  define r where "r = (case map_of (rooms m) room of None \<Rightarrow> new_room vis session | Some r \<Rightarrow> r)"
  have upd: "\<exists>r'. rm_session_id r' = rm_session_id r
      \<and> rooms (snd (join m room p vis session)) = AList.update room r' (rooms m)"
    unfolding join_def Let_def r_def [symmetric]
    by (cases "MAX_PEERS \<le> length (filter (\<lambda>q. p_id q \<noteq> p_id p) (rm_peers r))")
      (auto intro: exI [of _ "r\<lparr>rm_peers := ps\<rparr>" for ps])
  then obtain r' where r': "rm_session_id r' = rm_session_id r"
    "rooms (snd (join m room p vis session)) = AList.update room r' (rooms m)" by blast
  have d: "keys_distinct (rooms m)" and sub: "over \<subseteq> used" using ok by (simp_all add: sessions_ok_def)
  have inj: "k = k'" if "map_of (rooms m) k = Some a" "map_of (rooms m) k' = Some b"
      "rm_session_id a = rm_session_id b" for k k' a b
    using ok that unfolding sessions_ok_def by blast
  have live: "rm_session_id a \<in> used - over" if "map_of (rooms m) k = Some a" for k a
    using ok that unfolding sessions_ok_def by blast
  have r: "rm_session_id r = session \<and> map_of (rooms m) room = None \<or> map_of (rooms m) room = Some r"
    by (cases "map_of (rooms m) room") (simp_all add: r_def new_room_def)
  have "k = room" if "map_of (rooms m) k = Some a" "rm_session_id a = rm_session_id r" for k a
    using r inj that live [OF that(1)] new by auto
  moreover have "rm_session_id r \<in> insert session used - over"
    using r live new sub by auto
  ultimately show ?thesis
    using d sub inj live new r'(1) unfolding sessions_ok_def r'(2)
    by (auto simp: update_conv' split: if_splits)
qed

fun fresh_session :: "('f, 'j) room_op \<Rightarrow> nat list" where
  "fresh_session (Join_op room p vis session) = [session]"
| "fresh_session _ = []"

lemma room_run_sessions:
  assumes "sessions_ok m used over" and "distinct (concat (map fresh_session xs))"
    and "set (concat (map fresh_session xs)) \<inter> used = {}"
    and "room_run N m xs = (out, m')"
  shows "\<exists>used'. sessions_ok m' used' (over \<union> set out) \<and> distinct out \<and> set out \<inter> over = {}"
  using assms
proof (induction xs arbitrary: m used over out)
  case Nil
  then show ?case by auto
next
  case (Cons x xs)
  obtain out1 m1 where step: "room_step N m x = (out1, m1)" by fastforce
  obtain out2 where run: "room_run N m1 xs = (out2, m')" and out: "out = out1 @ out2"
    using Cons.prems(4) step by (auto split: prod.splits)
  let ?used = "used \<union> set (fresh_session x)"
  have first: "sessions_ok m1 ?used (over \<union> set out1) \<and> distinct out1 \<and> set out1 \<inter> over = {}"
  proof (cases "\<exists>room p vis session. x = Join_op room p vis session")
    case True
    then obtain room p vis session where x: "x = Join_op room p vis session" by blast
    with sessions_join [OF Cons.prems(1), of session room p vis] Cons.prems(3) step show ?thesis by auto
  next
    case False
    then have "set (fresh_session x) = {}" by (cases x) auto
    moreover have "sheds m out1 m1"
      using sheds_step [OF Cons.prems(1), of x N] False step by auto
    ultimately show ?thesis using sheds_sessions [OF Cons.prems(1)] by simp
  qed
  have "\<exists>used'. sessions_ok m' used' (over \<union> set out1 \<union> set out2) \<and> distinct out2
      \<and> set out2 \<inter> (over \<union> set out1) = {}"
    by (rule Cons.IH [OF _ _ _ run, of ?used]) (use first Cons.prems(2,3) in \<open>auto\<close>)
  with first out show ?case by (auto simp: Un_assoc)
qed

lemma new_manager_ok: "rooms_ok (new_manager C)" "sessions_ok (new_manager C) {} {}"
  by (simp_all add: rooms_ok_def sessions_ok_def new_manager_def)

lemma room_in_ok: "rooms_ok m \<Longrightarrow> (k, r) \<in> set (rooms m) \<Longrightarrow> room_ok r"
  by (auto simp: rooms_ok_def map_of_entry)

text \<open>
  Rooms stay small and unambiguous whatever is called in whatever order: room names are
  distinct, no room has more than four peers or two peers with one id, no whiteboard keeps
  more than its cap of strokes, and the peers of an instance are at most four times its rooms.
\<close>

theorem rooms_wellformed:
  "case snd (room_run N (new_manager C) ops) of m \<Rightarrow>
     keys_distinct (rooms m)
     \<and> list_all (\<lambda>(_, r). distinct (map p_id (rm_peers r)) \<and> length (rm_peers r) \<le> 4
          \<and> length (rm_whiteboard r) \<le> 4000) (rooms m)
     \<and> active_peers m \<le> 4 * active_rooms m"
proof -
  define m where "m = snd (room_run N (new_manager C) ops)"
  have ok: "rooms_ok m" unfolding m_def by (rule room_run_ok) (rule new_manager_ok)
  have each: "list_all (\<lambda>(_, r). room_ok r) (rooms m)"
    using room_in_ok [OF ok] by (auto simp: list_all_iff)
  have "list_all (\<lambda>(_, r). room_ok r) rs \<Longrightarrow> sum_list (map (\<lambda>(_, r). length (rm_peers r)) rs) \<le> 4 * length rs"
    for rs :: "(string, ('a, 'b) Room) kmap"
    by (induction rs) (auto simp: room_ok_def MAX_PEERS_def)
  with each ok show ?thesis
    unfolding m_def [symmetric] active_peers_def active_rooms_def
    by (auto simp: rooms_ok_def list_all_iff room_ok_def MAX_PEERS_def MAX_WHITEBOARD_OPS_def)
qed

text \<open>
  C27: A call session is over once: in every run whose new rooms get fresh session ids, each
  session is reported as over at most once, by whichever of the last leave, the end of the
  grace window or the periodic sweep finds it first, and no session that was reported is still
  that of a live room; live rooms have distinct sessions.
\<close>

theorem session_ends_once:
  assumes "distinct (concat (map fresh_session ops))"
    and "room_run N (new_manager C) ops = (out, m)"
  shows "distinct (out @ map (\<lambda>e. rm_session_id (snd e)) (rooms m))"
proof -
  obtain used where ok: "sessions_ok m used (set out)" and d: "distinct out"
    using room_run_sessions [OF new_manager_ok(2) assms(1) _ assms(2)] by auto
  then have kd: "keys_distinct (rooms m)" by (simp add: sessions_ok_def)
  then have entry: "map_of (rooms m) (fst e) = Some (snd e)" if "e \<in> set (rooms m)" for e
    using that by (metis map_of_entry prod.collapse)
  have live: "rm_session_id (snd e) \<notin> set out" if "e \<in> set (rooms m)" for e
    using ok entry [OF that] unfolding sessions_ok_def by blast
  have "e = e'" if e: "e \<in> set (rooms m)" "e' \<in> set (rooms m)"
      and s: "rm_session_id (snd e) = rm_session_id (snd e')" for e e'
  proof -
    have "fst e = fst e'"
      using ok entry [OF e(1)] entry [OF e(2)] s unfolding sessions_ok_def by blast
    with entry [OF e(1)] entry [OF e(2)] show ?thesis by (simp add: prod_eq_iff)
  qed
  then have "inj_on (\<lambda>e. rm_session_id (snd e)) (set (rooms m))" by (rule inj_onI)
  moreover have "distinct (rooms m)" using kd by (simp add: keys_distinct_def distinct_map)
  ultimately have "distinct (map (\<lambda>e. rm_session_id (snd e)) (rooms m))" by (simp add: distinct_map)
  moreover have "set out \<inter> set (map (\<lambda>e. rm_session_id (snd e)) (rooms m)) = {}"
    using live by fastforce
  ultimately show ?thesis using d by simp
qed

section \<open>Reconnecting, and the orphaned telephone\<close>

lemma find_peer_Some:
  "find_peer m room i = Some p \<Longrightarrow>
     \<exists>r. map_of (rooms m) room = Some r \<and> p \<in> set (rm_peers r) \<and> p_id p = i"
  by (auto simp: find_peer_def peers_of_def dest!: find_SomeD split: option.splits)

lemma others_lt:
  assumes "room_ok r" and "p \<in> set (rm_peers r)"
  shows "length (filter (\<lambda>q. p_id q \<noteq> p_id p) (rm_peers r)) < MAX_PEERS"
proof -
  have "length (filter (\<lambda>q. p_id q \<noteq> p_id p) (rm_peers r)) < length (rm_peers r)"
    by (rule length_filter_less [OF assms(2)]) simp
  with assms(1) show ?thesis by (simp add: room_ok_def)
qed

lemma find_after_others: "find (\<lambda>q. p_id q = p_id p) (filter (\<lambda>q. p_id q \<noteq> p_id p) ps @ [p]) = Some p"
  by (induction ps) auto

lemma fold_signal_close: "ch_overflow (fold signal_close txs C t) \<longleftrightarrow> t \<in> set txs \<or> ch_overflow (C t)"
  by (induction txs arbitrary: C) (auto simp: signal_close_def)

text \<open>
  A reconnect replaces its own ghost: a peer that joins again under its id on a new
  connection is never turned away by a full room, enters the room and session it was in, sees
  everybody but itself, and its old connection is told to close; when that one's teardown runs
  at last it is reported as superseded and changes nothing.
\<close>

theorem reconnect_replaces:
  assumes "rooms_ok m" and "find_peer m room (p_id p') = Some p" and "p_conn p \<noteq> p_conn p'"
    and "join m room p' vis session = (out, m')"
  shows "\<exists>j. out = Inr j \<and> \<not> j_created j \<and> room_session_id m room = Some (j_session_id j)
     \<and> map pi_id (j_existing j) = filter (\<lambda>i. i \<noteq> p_id p') (map p_id (peers_of m room))
     \<and> ch_overflow (chans m' (p_tx p)) \<and> find_peer m' room (p_id p') = Some p'
     \<and> remove m' room (p_id p) (p_conn p) = (Superseded, m')"
proof -
  obtain r where r: "map_of (rooms m) room = Some r" "p \<in> set (rm_peers r)" "p_id p = p_id p'"
    using find_peer_Some [OF assms(2)] by blast
  have d: "keys_distinct (rooms m)" using assms(1) by (simp add: rooms_ok_def)
  let ?others = "filter (\<lambda>q. p_id q \<noteq> p_id p') (rm_peers r)"
  let ?r = "r\<lparr>rm_peers := ?others @ [p']\<rparr>"
  have lt: "length ?others < MAX_PEERS"
    using others_lt [OF rooms_okD [OF assms(1) r(1)] r(2)] r(3) by simp
  have m': "m' = m\<lparr>chans := fold signal_close (map p_tx (filter (\<lambda>q. p_id q = p_id p') (rm_peers r))) (chans m),
      rooms := AList.update room ?r (rooms m)\<rparr>"
    and out: "out = Inr \<lparr>j_session_id = rm_session_id r, j_existing = map peer_info ?others,
      j_public = (rm_visibility r = Public), j_created = False\<rparr>"
    using assms(4) r(1) lt by (auto simp: join_def Let_def)
  have room: "map_of (rooms m') room = Some ?r" by (simp add: m' update_conv')
  have kept: "filter (\<lambda>q. \<not> (p_id q = p_id p \<and> p_conn q = p_conn p)) (rm_peers ?r) = rm_peers ?r"
    using assms(3) r(3) by (intro filter_True) auto
  have "modify_entry room (set_peers (rm_peers ?r)) (rooms m') = rooms m'"
  proof -
    have "keys_distinct (rooms m')" using d by (simp add: m')
    then show ?thesis
      using room unfolding modify_entry_def by (intro map_idI) (auto simp: map_of_entry set_peers_def)
  qed
  then have "remove m' room (p_id p) (p_conn p) = (Superseded, m')"
    unfolding remove_def room by (simp only: option.case Let_def kept) simp
  moreover have "find_peer m' room (p_id p') = Some p'"
    using room by (simp add: find_peer_def peers_of_def find_after_others)
  ultimately show ?thesis
    using out r by (auto simp: room_session_id_def m' fold_signal_close peers_of_def filter_map
        comp_def peer_info_def)
qed


lemma remove_phone_only:
  assumes "remove m room i conn = (LeftPhoneOnly s, m')"
  shows "\<exists>r kept. map_of (rooms m) room = Some r \<and> rm_session_id r = s
     \<and> kept = filter (\<lambda>p. \<not> (p_id p = i \<and> p_conn p = conn)) (rm_peers r) \<and> kept \<noteq> []
     \<and> list_all is_phone kept \<and> length kept < length (rm_peers r)
     \<and> m' = m\<lparr>rooms := modify_entry room (set_peers kept) (rooms m)\<rparr>"
proof (cases "map_of (rooms m) room")
  case None
  with assms show ?thesis by (simp add: remove_def)
next
  case (Some r)
  let ?kept = "filter (\<lambda>p. \<not> (p_id p = i \<and> p_conn p = conn)) (rm_peers r)"
  have "length ?kept \<le> length (rm_peers r)" by (rule length_filter_le)
  with assms Some show ?thesis
    by (intro exI [of _ r] exI [of _ ?kept])
      (auto simp: remove_def Let_def le_neq_implies_less split: if_splits)
qed

text \<open>
  The grace window is safe for a reconnect and final without one: when the last human
  leaves a telephone's room, the room stays with its session, and the check at the end of the
  window tears it down and reports that session if nothing happened; if any human joins
  first, the join succeeds in the same session and the check leaves the room alone.
\<close>

theorem phone_orphan_grace:
  assumes "rooms_ok m" and "remove m room i conn = (LeftPhoneOnly s, m1)"
  shows "room_session_id m1 room = Some s \<and> \<not> has_human_peer m1 room
     \<and> (case end_orphaned_phone_room m1 room s of
          (ended, m2) \<Rightarrow> ended = Some s \<and> room_session_id m2 room = None)
     \<and> (case join m1 room p vis fresh of
          (out, m2) \<Rightarrow> (\<exists>j. out = Inr j \<and> j_session_id j = s)
            \<and> (is_phone p \<or> end_orphaned_phone_room m2 room s = (None, m2)))"
proof -
  obtain r kept where r: "map_of (rooms m) room = Some r" "rm_session_id r = s" "kept \<noteq> []"
    "list_all is_phone kept" "length kept < length (rm_peers r)"
    and m1: "m1 = m\<lparr>rooms := modify_entry room (set_peers kept) (rooms m)\<rparr>"
    using remove_phone_only [OF assms(2)] by blast
  have d: "keys_distinct (rooms m1)" using assms(1) by (simp add: m1 rooms_ok_def)
  have room: "map_of (rooms m1) room = Some (set_peers kept r)" using r(1) by (simp add: m1)
  have lt: "length (filter P kept) < MAX_PEERS" for P
    using rooms_okD [OF assms(1) r(1)] r(5) by (meson length_filter_le le_less_trans less_le_trans room_ok_def)
  let ?r = "set_peers (filter (\<lambda>q. p_id q \<noteq> p_id p) kept @ [p]) (set_peers kept r)"
  obtain out m2 where j: "join m1 room p vis fresh = (out, m2)" by fastforce
  then have m2: "rooms m2 = AList.update room ?r (rooms m1)"
    and out: "\<exists>j. out = Inr j \<and> j_session_id j = s"
    using room lt [of "\<lambda>q. p_id q \<noteq> p_id p"] r(2) by (auto simp: join_def Let_def set_peers_def)
  have "end_orphaned_phone_room m2 room s = (None, m2)" if "\<not> is_phone p"
  proof -
    have room2: "map_of (rooms m2) room = Some ?r" by (simp add: m2 update_conv')
    have no: "\<not> orphaned s ?r" using that by (simp add: orphaned_def)
    have "keys_distinct (rooms m2)" using d by (simp add: m2)
    with remove_if_keep [OF room2] no room2 show ?thesis by (simp add: end_orphaned_phone_room_def)
  qed
  moreover have "room_session_id m1 room = Some s" using room r(2) by (simp add: room_session_id_def)
  moreover have "\<not> has_human_peer m1 room"
    using room r(4) by (auto simp: has_human_peer_def list_all_iff list_ex_iff)
  moreover have "orphaned s (set_peers kept r)" using r(2,4) by (simp add: orphaned_def)
  ultimately show ?thesis
    using d room out j
    by (auto simp: end_orphaned_phone_room_def room_session_id_def map_of_remove_if r(2))
qed

section \<open>Routing and metering agree\<close>

lemma routes_from_set:
  "set (routes_from sl ls rs) =
     set rs \<union> {\<lparr>tr_lang = l, tr_engine = e\<rparr> | l e. (l, e) \<in> set ls \<and> l \<noteq> ''auto'' \<and> l \<noteq> sl}"
  by (induction sl ls rs rule: routes_from.induct) (auto simp: Let_def)

lemma routes_from_distinct: "distinct rs \<Longrightarrow> distinct (routes_from sl ls rs)"
  by (induction sl ls rs rule: routes_from.induct) (auto simp: Let_def)

lemma route_iff:
  "r \<in> set (translation_routes m room speaker sl) \<longleftrightarrow>
     (\<exists>p \<in> set (peers_of m room). p_id p \<noteq> speaker \<and> r = \<lparr>tr_lang = p_lang p, tr_engine = p_engine p\<rparr>
        \<and> p_lang p \<noteq> ''auto'' \<and> p_lang p \<noteq> sl)"
  by (auto simp: translation_routes_def routes_for_speaker_def routes_from_set)

definition serves :: "Peer \<Rightarrow> TranslationRoute \<Rightarrow> bool" where
  "serves p r \<longleftrightarrow> p_lang p = tr_lang r \<and> p_engine p = tr_engine r"

lemma serves_iff: "serves p r \<longleftrightarrow> r = \<lparr>tr_lang = p_lang p, tr_engine = p_engine p\<rparr>"
  by (auto simp: serves_def)

text \<open>
  Every listener hears a speaker exactly once, through the engine they chose: the routes
  of a speaker are distinct, each has a listener for it, and a frame sent along every route
  reaches a peer once if it is another peer with a known language that is not the speaker's,
  and otherwise not at all.
\<close>

theorem listeners_served_once:
  assumes "p \<in> set (peers_of m room)" and "p_id p = speaker \<Longrightarrow> p_lang p = sl"
  shows "distinct (translation_routes m room speaker sl)
     \<and> list_all (\<lambda>r. list_ex (\<lambda>q. p_id q \<noteq> speaker \<and> serves q r) (peers_of m room))
         (translation_routes m room speaker sl)
     \<and> length (filter (serves p) (translation_routes m room speaker sl)) =
         (if p_id p \<noteq> speaker \<and> p_lang p \<noteq> ''auto'' \<and> p_lang p \<noteq> sl then 1 else 0)"
proof -
  let ?rs = "translation_routes m room speaker sl"
  let ?r = "\<lparr>tr_lang = p_lang p, tr_engine = p_engine p\<rparr>"
  have d: "distinct ?rs"
    unfolding translation_routes_def routes_for_speaker_def by (rule routes_from_distinct) simp
  have eq: "serves p = (\<lambda>r. r = ?r)" by (simp add: fun_eq_iff serves_iff)
  have "length (filter (serves p) ?rs) = card (set ?rs \<inter> {?r})"
    using distinct_card [OF distinct_filter [OF d], of "serves p"] by (simp add: eq Collect_conj_eq Int_commute)
  moreover have "?r \<in> set ?rs \<longleftrightarrow> p_id p \<noteq> speaker \<and> p_lang p \<noteq> ''auto'' \<and> p_lang p \<noteq> sl"
    using assms unfolding route_iff by auto
  moreover have "list_all (\<lambda>r. list_ex (\<lambda>q. p_id q \<noteq> speaker \<and> serves q r) (peers_of m room)) ?rs"
    by (auto simp: list_all_iff list_ex_iff route_iff serves_iff)
  ultimately show ?thesis using d by (auto simp: Int_insert_right)
qed

text \<open>
  A listener is metered for what is routed to them: for a listener whose language is
  known, the billable stream count is the number of peers that speak right now and have a
  translation route that serves this listener.
\<close>

theorem metered_as_routed:
  assumes "rooms_ok m" and "p \<in> set (peers_of m room)" and "p_lang p \<noteq> ''auto''"
  shows "active_source_count m room (p_id p) (p_lang p) =
     length (filter (\<lambda>s. p_speaking s \<and> p_lang s \<noteq> ''auto''
                       \<and> list_ex (serves p) (translation_routes m room (p_id s) (p_lang s)))
               (peers_of m room))"
proof -
  have "list_ex (serves p) (translation_routes m room (p_id s) (p_lang s)) \<longleftrightarrow>
      p_id s \<noteq> p_id p \<and> p_lang s \<noteq> p_lang p" if s: "s \<in> set (peers_of m room)" for s
  proof -
    have "distinct (map p_id (peers_of m room))"
      using rooms_okD [OF assms(1)] by (auto simp: peers_of_def room_ok_def split: option.splits)
    then have "s = p" if "p_id s = p_id p"
      using s assms(2) that by (auto simp: distinct_map inj_on_def)
    moreover have "list_ex (serves p) (translation_routes m room (p_id s) (p_lang s))"
      if "p_id s \<noteq> p_id p" "p_lang s \<noteq> p_lang p"
      unfolding list_ex_iff using assms(2,3) that
      by (intro bexI [of _ "\<lparr>tr_lang = p_lang p, tr_engine = p_engine p\<rparr>"])
        (auto simp: route_iff serves_iff intro!: bexI [of _ p])
    ultimately show ?thesis by (auto simp: list_ex_iff route_iff serves_iff)
  qed
  then show ?thesis
    unfolding active_source_count_def by (intro arg_cong [where f = length] filter_cong) auto
qed

section \<open>Runs where the code does not do what it says\<close>

definition sample_peer :: "string \<Rightarrow> nat \<Rightarrow> string \<Rightarrow> bool \<Rightarrow> Peer" where
  "sample_peer i n lang speaking =
     \<lparr>p_id = i, p_conn = n, p_name = i, p_lang = lang, p_user_id = None, p_engine = ''premium'',
      p_avatar_url = None, p_voice_id = None, p_tx = n, p_speaking = speaking\<rparr>"

definition sample_rooms :: "Peer list \<Rightarrow> (nat, nat) RoomManager" where
  "sample_rooms ps =
     snd (room_run (\<lambda>_. False) (new_manager (\<lambda>_. channel OUT_CHANNEL_CAP))
       (map (\<lambda>p. Join_op ''r'' p Private 9) ps))"

text \<open>
  A listener whose language is still being detected is metered without being served: the
  stream count of an \<open>auto\<close> listener counts every speaker with a known language, while no
  route is made for them.
\<close>

theorem auto_listener_metered:
  "case sample_rooms [sample_peer ''s'' 0 ''en'' True, sample_peer ''l'' 1 ''auto'' False] of
     m \<Rightarrow> peer_lang m ''r'' ''l'' = Some ''auto'' \<and> active_source_count m ''r'' ''l'' ''auto'' = 1
       \<and> translation_routes m ''r'' ''s'' ''en'' = []"
  by code_simp

text \<open>
  A departure that a broadcast sees first is nobody's: when the socket of the last human
  closes and a broadcast prunes the peer before its own teardown runs, the teardown is told
  that the connection was superseded, so neither the departure nor the orphaned telephone is
  reported; without the broadcast the same teardown reports the orphan.
\<close>

theorem pruned_departure_unreported:
  "case sample_rooms [sample_peer ''h'' 0 ''en'' False, sample_peer ''phone-1'' 1 ''it'' False] of
     m \<Rightarrow> fst (remove m ''r'' ''h'' 0) = LeftPhoneOnly 9
       \<and> (case broadcast (m\<lparr>chans := (chans m)(0 := (chans m 0)\<lparr>ch_closed := True\<rparr>)\<rparr>) ''r'' ''x'' of
            m2 \<Rightarrow> fst (remove m2 ''r'' ''h'' 0) = Superseded
              \<and> map p_id (peers_of (snd (remove m2 ''r'' ''h'' 0)) ''r'') = [''phone-1''])"
  by code_simp

section \<open>Witnesses\<close>

lemma sample_rooms_ok: "rooms_ok (sample_rooms ps)"
  unfolding sample_rooms_def by (rule room_run_ok) (rule new_manager_ok)

definition call_room :: "(nat, nat) RoomManager" where
  "call_room = sample_rooms [sample_peer ''h'' 0 ''en'' True, sample_peer ''phone-1'' 1 ''it'' False]"

lemma call_room_peers:
  "peers_of call_room ''r'' = [sample_peer ''h'' 0 ''en'' True, sample_peer ''phone-1'' 1 ''it'' False]"
  "find_peer call_room ''r'' ''h'' = Some (sample_peer ''h'' 0 ''en'' True)"
  "fst (remove call_room ''r'' ''h'' 0) = LeftPhoneOnly 9"
  by code_simp+

theorem session_ends_once_witness:
  "distinct (fst (room_run (\<lambda>_. False) (new_manager (\<lambda>_. channel 512))
     [Join_op ''r'' (sample_peer ''h'' 0 ''en'' True) Public 9, Remove_op ''r'' ''h'' 0,
      EndOrphan_op ''r'' 9, Join_op ''r'' (sample_peer ''h'' 1 ''en'' True) Public 10,
      Sockets_op (\<lambda>C. C(1 := (C 1)\<lparr>ch_closed := True\<rparr>)), Prune_op, Remove_op ''r'' ''h'' 1]))"
  (is "distinct (fst (room_run ?N ?m ?ops))")
proof -
  have fresh: "distinct (concat (map fresh_session ?ops))" by simp
  have "distinct (fst (room_run ?N ?m ?ops) @ map (\<lambda>e. rm_session_id (snd e)) (rooms (snd (room_run ?N ?m ?ops))))"
    by (rule session_ends_once [OF fresh, where N = ?N and C = "\<lambda>_. channel 512"])
      (rule prod.collapse [symmetric])
  then show ?thesis unfolding distinct_append by (elim conjE)
qed

theorem reconnect_replaces_witness:
  "fst (remove (snd (join call_room ''r'' (sample_peer ''h'' 5 ''en'' False) Private 10)) ''r'' ''h'' 0) = Superseded"
proof -
  obtain out m where j: "join call_room ''r'' (sample_peer ''h'' 5 ''en'' False) Private 10 = (out, m)"
    by fastforce
  have "find_peer call_room ''r'' (p_id (sample_peer ''h'' 5 ''en'' False)) = Some (sample_peer ''h'' 0 ''en'' True)"
    using call_room_peers(2) by (simp add: sample_peer_def)
  from reconnect_replaces [OF sample_rooms_ok [of "[sample_peer ''h'' 0 ''en'' True, sample_peer ''phone-1'' 1 ''it'' False]",
      folded call_room_def] this _ j] j
  show ?thesis by (auto simp: sample_peer_def)
qed

theorem phone_orphan_grace_witness:
  "fst (end_orphaned_phone_room (snd (remove call_room ''r'' ''h'' 0)) ''r'' 9) = Some 9"
proof -
  obtain m1 where m1: "remove call_room ''r'' ''h'' 0 = (LeftPhoneOnly 9, m1)"
    using call_room_peers(3) by (metis prod.collapse)
  from phone_orphan_grace [OF sample_rooms_ok [of "[sample_peer ''h'' 0 ''en'' True, sample_peer ''phone-1'' 1 ''it'' False]",
      folded call_room_def] m1, of "sample_peer ''h'' 5 ''en'' False" Private 10]
  have "fst (end_orphaned_phone_room m1 ''r'' 9) = Some 9"
    unfolding case_prod_beta by (elim conjE)
  with m1 show ?thesis by simp
qed

lemma sample_peer_sel [simp]:
  "p_id (sample_peer i n l b) = i" "p_lang (sample_peer i n l b) = l"
  "p_engine (sample_peer i n l b) = ''premium''" "p_speaking (sample_peer i n l b) = b"
  by (simp_all add: sample_peer_def)

theorem listeners_served_once_witness:
  "length (filter (serves (sample_peer ''phone-1'' 1 ''it'' False)) (translation_routes call_room ''r'' ''h'' ''en'')) = 1"
  using listeners_served_once [of "sample_peer ''phone-1'' 1 ''it'' False" call_room "''r''" "''h''" "''en''"]
  by (simp add: call_room_peers(1))

theorem metered_as_routed_witness:
  "active_source_count call_room ''r'' ''phone-1'' ''it'' =
     length (filter (\<lambda>s. p_speaking s \<and> p_lang s \<noteq> ''auto'' \<and>
       list_ex (serves (sample_peer ''phone-1'' 1 ''it'' False))
         (translation_routes call_room ''r'' (p_id s) (p_lang s))) (peers_of call_room ''r''))
   \<and> active_source_count call_room ''r'' ''phone-1'' ''it'' = 1"
proof
  have "sample_peer ''phone-1'' 1 ''it'' False \<in> set (peers_of call_room ''r'')"
    by (simp add: call_room_peers(1))
  from metered_as_routed [OF sample_rooms_ok [of "[sample_peer ''h'' 0 ''en'' True, sample_peer ''phone-1'' 1 ''it'' False]",
      folded call_room_def] this, unfolded sample_peer_sel]
  show "active_source_count call_room ''r'' ''phone-1'' ''it'' =
     length (filter (\<lambda>s. p_speaking s \<and> p_lang s \<noteq> ''auto'' \<and>
       list_ex (serves (sample_peer ''phone-1'' 1 ''it'' False))
         (translation_routes call_room ''r'' (p_id s) (p_lang s))) (peers_of call_room ''r''))"
    by simp
  show "active_source_count call_room ''r'' ''phone-1'' ''it'' = 1"
    by (simp add: active_source_count_def call_room_peers(1))
qed

end
