(* ===== verification/Codec.thy ===== *)
theory Codec
  imports Vox_Prelude "HOL-Library.Word" "HOL-Library.Signed_Division"
begin

text \<open>
  Telephone audio, \<^verbatim>\<open>server/src/voip/codec.rs\<close>: companding, wire payloads, the evidence for the
  byte order of linear PCM, the resampler and the barge-in gate; \<open>MediaCodec\<close> is from
  \<^verbatim>\<open>telephony/mod.rs\<close>. Bytes and samples are words; an \<open>i32\<close> in between is an integer, as no
  step leaves its range. The \<open>f32\<close> operations of the filter are the record \<open>float_ops\<close>: what is
  shown of the resampler holds whatever they compute.
\<close>

unbundle bit_operations_syntax

type_synonym byte = "8 word"
type_synonym i16 = "16 word"

datatype MediaCodec = Pcmu | Pcma | G722 | Opus | L16

fun sample_rate :: "MediaCodec \<Rightarrow> nat" where
  "sample_rate Pcmu = 8000"
| "sample_rate Pcma = 8000"
| "sample_rate G722 = 8000"
| "sample_rate Opus = 16000"
| "sample_rate L16 = 16000"

definition codec_is_linear :: "MediaCodec \<Rightarrow> bool" where
  "codec_is_linear c \<longleftrightarrow> c = L16"

fun codec_as_str :: "MediaCodec \<Rightarrow> string" where
  "codec_as_str Pcmu = ''PCMU''"
| "codec_as_str Pcma = ''PCMA''"
| "codec_as_str G722 = ''G722''"
| "codec_as_str Opus = ''OPUS''"
| "codec_as_str L16 = ''L16''"

section \<open>Companding\<close>

definition i16_clamp :: "int \<Rightarrow> i16" where
  "i16_clamp x = word_of_int (max 0 (min x 32767))"

definition ulaw_to_pcm16 :: "byte \<Rightarrow> i16" where
  "ulaw_to_pcm16 b =
     (let u = NOT b;
          sgn = u AND 0x80;
          exponent = drop_bit 4 u AND 0x07;
          mantissa = u AND 0x0F;
          sample = push_bit 3 (uint mantissa) + 0x84;
          sample = push_bit (unat exponent) sample;
          sample = sample - 0x84;
          sample = i16_clamp sample
      in if sgn \<noteq> 0 then - sample else sample)"

text \<open>\<open>u32::leading_zeros\<close>\<close>

definition leading_zeros :: "32 word \<Rightarrow> int" where
  "leading_zeros w = int (length (takeWhile (\<lambda>i. \<not> bit w i) (rev [0..<32])))"

definition pcm16_to_ulaw :: "i16 \<Rightarrow> byte" where
  "pcm16_to_ulaw sample =
     (let s = sint sample;
          (sgn, s) = (if s < 0 then (0x80, - s) else (0, s));
          s = min s 32635 + 0x84;
          exponent = max 0 (min 7 (7 - leading_zeros (word_of_int (drop_bit 7 s)) + 24));
          mantissa = word_of_int (drop_bit (nat (exponent + 3)) s AND 0x0F)
      in NOT (sgn OR push_bit 4 (word_of_int exponent) OR mantissa))"

definition alaw_to_pcm16 :: "byte \<Rightarrow> i16" where
  "alaw_to_pcm16 b =
     (let a = b XOR 0x55;
          sgn = a AND 0x80;
          exponent = unat (drop_bit 4 (a AND 0x70));
          mantissa = uint (a AND 0x0F);
          sample = (if exponent = 0 then push_bit 4 mantissa OR 8
                    else push_bit (exponent - 1) (push_bit 4 mantissa OR 0x108));
          sample = i16_clamp sample
      in if sgn \<noteq> 0 then sample else - sample)"

section \<open>Wire payloads\<close>

datatype CodecError = TruncatedFrame | Unsupported MediaCodec

definition from_be_bytes :: "byte \<Rightarrow> byte \<Rightarrow> i16" where
  "from_be_bytes hi lo = push_bit 8 (ucast hi) OR ucast lo"

definition from_le_bytes :: "byte \<Rightarrow> byte \<Rightarrow> i16" where
  "from_le_bytes lo hi = from_be_bytes hi lo"

definition to_be_bytes :: "i16 \<Rightarrow> byte list" where
  "to_be_bytes w = [ucast (drop_bit 8 w), ucast w]"

definition to_le_bytes :: "i16 \<Rightarrow> byte list" where
  "to_le_bytes w = rev (to_be_bytes w)"

text \<open>\<open>as_chunks::<2>\<close>: the pairs, and the odd byte that may remain.\<close>

fun byte_pairs :: "byte list \<Rightarrow> (byte \<times> byte) list" where
  "byte_pairs (a # b # bs) = (a, b) # byte_pairs bs"
| "byte_pairs bs = []"

fun odd_byte :: "byte list \<Rightarrow> byte list" where
  "odd_byte (a # b # bs) = odd_byte bs"
| "odd_byte bs = bs"

fun decode :: "MediaCodec \<Rightarrow> byte list \<Rightarrow> CodecError + i16 list" where
  "decode L16 payload =
     (if length payload mod 2 \<noteq> 0 then Inl TruncatedFrame
      else Inr (map (\<lambda>(hi, lo). from_be_bytes hi lo) (byte_pairs payload)))"
| "decode Pcmu payload = Inr (map ulaw_to_pcm16 payload)"
| "decode Pcma payload = Inr (map alaw_to_pcm16 payload)"
| "decode G722 payload = Inl (Unsupported G722)"
| "decode Opus payload = Inl (Unsupported Opus)"

fun encode :: "MediaCodec \<Rightarrow> i16 list \<Rightarrow> CodecError + byte list" where
  "encode L16 samples = Inr (concat (map to_be_bytes samples))"
| "encode Pcmu samples = Inr (map pcm16_to_ulaw samples)"
| "encode Pcma samples = Inl (Unsupported Pcma)"
| "encode G722 samples = Inl (Unsupported G722)"
| "encode Opus samples = Inl (Unsupported Opus)"

section \<open>Evidence for the byte order\<close>

definition swap_byte_pairs :: "byte list \<Rightarrow> byte list" where
  "swap_byte_pairs bs = concat (map (\<lambda>(a, b). [b, a]) (byte_pairs bs)) @ odd_byte bs"

record L16ByteOrderEvidence =
  ev_be :: nat
  ev_le :: nat
  ev_deltas :: nat

text \<open>The loop, with the previous pair of readings.\<close>

fun evidence_loop ::
  "(byte \<times> byte) list \<Rightarrow> (int \<times> int) option \<Rightarrow> L16ByteOrderEvidence \<Rightarrow> L16ByteOrderEvidence" where
  "evidence_loop [] prev ev = ev"
| "evidence_loop ((a, b) # ps) prev ev =
     (let be = sint (from_be_bytes a b); le = sint (from_le_bytes a b)
      in evidence_loop ps (Some (be, le))
           (case prev of
              None \<Rightarrow> ev
            | Some (prev_be, prev_le) \<Rightarrow>
                ev\<lparr>ev_be := ev_be ev + nat \<bar>be - prev_be\<bar>, ev_le := ev_le ev + nat \<bar>le - prev_le\<bar>,
                   ev_deltas := ev_deltas ev + 1\<rparr>))"

definition l16_byte_order_evidence :: "byte list \<Rightarrow> L16ByteOrderEvidence" where
  "l16_byte_order_evidence payload =
     evidence_loop (byte_pairs payload) None \<lparr>ev_be = 0, ev_le = 0, ev_deltas = 0\<rparr>"

definition l16_byte_order_roughness :: "byte list \<Rightarrow> nat \<times> nat" where
  "l16_byte_order_roughness payload =
     (let ev = l16_byte_order_evidence payload in (ev_be ev, ev_le ev))"

section \<open>G.711 round trips\<close>

lemma byte_low: "uint (w AND 0x0F :: byte) = uint w mod 16"
  by (simp add: uint_and take_bit_eq_mod [of 4, symmetric, simplified] take_bit_eq_mask mask_numeral)

lemma byte_exponent: "unat (drop_bit 4 w AND 0x07 :: byte) = unat w div 16 mod 8"
proof -
  have "drop_bit 4 w AND 0x07 = take_bit 3 (drop_bit 4 w)"
    by (simp add: take_bit_eq_mask mask_numeral)
  moreover have "unat (take_bit 3 (drop_bit 4 w)) = unat w div 16 mod 8"
  proof -
    have "unat (take_bit 3 (drop_bit 4 w)) = take_bit 3 (drop_bit 4 (take_bit LENGTH(8) (unat w)))"
      by (simp only: unsigned_take_bit_eq unsigned_drop_bit_eq)
    also have "\<dots> = unat w div 16 mod 8"
      using unsigned_less [of w, where 'a = nat] by (simp add: take_bit_eq_mod drop_bit_eq_div)
    finally show ?thesis .
  qed
  ultimately show ?thesis by (simp only:)
qed

lemma byte_sign: "(w AND 0x80 :: byte) \<noteq> 0 \<longleftrightarrow> 128 \<le> uint w"
proof -
  have "(w AND 0x80) \<noteq> 0 \<longleftrightarrow> bit w 7"
    using and_exp_eq_0_iff_not_bit [of w 7] by simp
  also have "\<dots> \<longleftrightarrow> bit (uint w) 7" by (simp add: bit_uint_iff)
  also have "\<dots> \<longleftrightarrow> odd (uint w div 2 ^ 7)" by (rule bit_iff_odd)
  also have "\<dots> \<longleftrightarrow> 128 \<le> uint w"
  proof -
    have "odd (x div 2 ^ 7) \<longleftrightarrow> 128 \<le> x" if "0 \<le> x" "x < 256" for x :: int
      using that by simp presburger
    from this [of "uint w"] show ?thesis using uint_lt2p [of w] by simp
  qed
  finally show ?thesis .
qed

lemma leading_zeros_eq:
  assumes "2 ^ e \<le> v" "v < 2 ^ Suc e" "e < 32"
  shows "leading_zeros (word_of_int v) = 31 - int e"
proof -
  have v0: "0 \<le> v" using assms(1) by (meson order_trans zero_le_numeral zero_le_power)
  have b: "bit v e"
  proof -
    have "v div 2 ^ e = 1"
      by (rule int_div_pos_eq [where r = "v - 2 ^ e"]) (use assms(1,2) in simp_all)
    then show ?thesis by (simp add: bit_iff_odd)
  qed
  have nb: "\<not> bit v i" if "e < i" for i
  proof -
    have "v < 2 ^ i" using assms(2) that by (meson Suc_leI less_le_trans one_le_numeral power_increasing)
    with v0 show ?thesis by (simp add: bit_iff_odd)
  qed
  have "[0..<32] = [0..<e] @ e # [Suc e..<32]"
    using upt_add_eq_append [of 0 e "32 - e"] assms(3) by (simp add: upt_conv_Cons)
  then have split: "rev [0..<32] = rev [Suc e..<32] @ e # rev [0..<e]" by simp
  show ?thesis
    unfolding leading_zeros_def split
    using b nb assms(3) by (subst takeWhile_append2) (auto simp: bit_simps)
qed

text \<open>The companded value of a code, and the code of a magnitude, in integers.\<close>

definition ulaw_level :: "nat \<Rightarrow> int \<Rightarrow> int" where
  "ulaw_level e m = (8 * m + 132) * 2 ^ e - 132"

lemma ulaw_level_range: "e \<le> 7 \<Longrightarrow> 0 \<le> m \<Longrightarrow> m < 16 \<Longrightarrow> 0 \<le> ulaw_level e m \<and> ulaw_level e m \<le> 32124"
proof -
  assume "e \<le> 7" "0 \<le> m" "m < 16"
  then have "(8 * m + 132) * 2 ^ e \<le> 252 * 2 ^ 7" and "132 * 1 \<le> (8 * m + 132) * 2 ^ e"
    by (intro mult_mono power_increasing; simp)+
  then show ?thesis by (simp add: ulaw_level_def)
qed

lemma ulaw_decode_level:
  assumes "uint (NOT b) = 128 * (if neg then 1 else 0) + 16 * int e + m" "e \<le> 7" "0 \<le> m" "m < 16"
  shows "ulaw_to_pcm16 b = (if neg then - word_of_int (ulaw_level e m) else word_of_int (ulaw_level e m))"
proof -
  have e: "unat (drop_bit 4 (NOT b) AND 0x07) = e"
  proof -
    have "unat (NOT b) = (if neg then 128 else 0) + 16 * e + nat m"
      using assms unfolding unat_eq_nat_uint by (auto simp: nat_add_distrib nat_mult_distrib)
    moreover have "nat m < 16" using assms(3,4) by simp
    moreover have "((if neg then 128 else 0) + 16 * e + k) div 16 mod 8 = e" if "k < 16" for k :: nat
    proof -
      have "((if neg then 128 else 0) + 16 * e + k) div 16 = (if neg then 8 else 0) + e"
        by (rule div_nat_eqI) (use that in auto)
      with assms(2) show ?thesis by simp
    qed
    ultimately show ?thesis unfolding byte_exponent by simp
  qed
  have m: "uint (NOT b AND 0x0F) = m"
  proof -
    have "128 * (if neg then 1 else 0) + 16 * int e + m = m + 16 * ((if neg then 8 else 0) + int e)"
      by simp
    then show ?thesis unfolding byte_low assms(1) using assms(3,4) by (simp only: mod_mult_self2) simp
  qed
  have s: "NOT b AND 0x80 \<noteq> 0 \<longleftrightarrow> neg"
    unfolding byte_sign assms(1) using assms(2-4) by auto
  have "max 0 (min (ulaw_level e m) 32767) = ulaw_level e m"
    using ulaw_level_range [OF assms(2-4)] by simp
  moreover have "push_bit e (push_bit 3 m + 0x84) - 0x84 = ulaw_level e m"
    by (simp add: ulaw_level_def push_bit_eq_mult algebra_simps)
  ultimately show ?thesis
    unfolding ulaw_to_pcm16_def Let_def e m i16_clamp_def using s by auto
qed

lemma ulaw_assemble:
  assumes "e \<le> 7" "0 \<le> m" "m < 16" "c = (if neg then 0x80 else 0)"
  shows "uint (c OR push_bit 4 (word_of_int (int e)) OR word_of_int m :: byte)
       = 128 * (if neg then 1 else 0) + 16 * int e + m"
proof -
  have "e \<in> {0, 1, 2, 3, 4, 5, 6, 7}" using assms(1) by auto
  moreover have "m \<in> {0, 1, 2, 3, 4, 5, 6, 7, 8, 9, 10, 11, 12, 13, 14, 15}"
    using assms(2,3) unfolding insert_iff empty_iff by presburger
  ultimately show ?thesis unfolding assms(4) by (cases neg) (elim insertE emptyE; simp)+
qed

lemma ulaw_encode_level:
  assumes "M = min \<bar>sint s\<bar> 32635 + 132" "2 ^ (e + 7) \<le> M" "M < 2 ^ (e + 8)" "e \<le> 7"
  shows "uint (NOT (pcm16_to_ulaw s)) =
    128 * (if sint s < 0 then 1 else 0) + 16 * int e + M div 2 ^ (e + 3) mod 16"
proof -
  have v: "2 ^ e \<le> drop_bit 7 M \<and> drop_bit 7 M < 2 ^ Suc e"
  proof
    have "2 ^ (e + 7) div 128 \<le> M div 128" by (rule zdiv_mono1) (use assms(2) in simp_all)
    then show "2 ^ e \<le> drop_bit 7 M" by (simp add: drop_bit_eq_div power_add)
    have "M < 2 ^ Suc e * 128" using assms(3) by (simp add: power_add)
    moreover have "M div 128 < x" if "M < x * 128" for x using that by linarith
    ultimately have "M div 128 < 2 ^ Suc e" by blast
    then show "drop_bit 7 M < 2 ^ Suc e" by (simp add: drop_bit_eq_div)
  qed
  have z: "leading_zeros (word_of_int (drop_bit 7 M)) = 31 - int e"
    using leading_zeros_eq [of e "drop_bit 7 M"] v assms(4) by simp
  have ex: "max 0 (min 7 (7 - leading_zeros (word_of_int (drop_bit 7 M)) + 24)) = int e"
    unfolding z using assms(4) by simp
  have man: "drop_bit (nat (int e + 3)) M AND 0x0F = M div 2 ^ (e + 3) mod 16"
  proof -
    have "drop_bit (e + 3) M AND 0x0F = take_bit 4 (drop_bit (e + 3) M)"
      by (simp add: take_bit_eq_mask mask_numeral)
    then show ?thesis by (simp add: take_bit_eq_mod drop_bit_eq_div nat_add_distrib)
  qed
  have eq: "pcm16_to_ulaw s =
      NOT ((if sint s < 0 then 0x80 else 0) OR push_bit 4 (word_of_int (int e))
             OR word_of_int (M div 2 ^ (e + 3) mod 16))"
  proof -
    have mag: "sint s < 0 \<Longrightarrow> min (- sint s) 32635 + 0x84 = M" "\<not> sint s < 0 \<Longrightarrow> min (sint s) 32635 + 0x84 = M"
      using assms(1) by simp_all
    show ?thesis
    proof (cases "sint s < 0")
      case True
      show ?thesis unfolding pcm16_to_ulaw_def Let_def
        by (simp only: True mag(1) [OF True] if_True prod.case ex man)
    next
      case False
      show ?thesis unfolding pcm16_to_ulaw_def Let_def
        by (simp only: False mag(2) [OF False] if_False prod.case ex man)
    qed
  qed
  show ?thesis
    unfolding eq bit.double_compl by (rule ulaw_assemble) (use assms(4) in auto)
qed

lemma sint_i16: "- 32768 \<le> x \<Longrightarrow> x < 32768 \<Longrightarrow> sint (word_of_int x :: i16) = x"
  by (simp add: sint_sbintrunc' signed_take_bit_int_eq_self)

lemma sint_i16_range: "- 32768 \<le> sint (s :: i16) \<and> sint s \<le> 32767"
  using sint_range_size [of s] by (simp add: word_size)

lemma ulaw_sample:
  assumes "uint (NOT b) = 128 * (if neg then 1 else 0) + 16 * int e + m" "e \<le> 7" "0 \<le> m" "m < 16"
  shows "sint (ulaw_to_pcm16 b) = (if neg then - ulaw_level e m else ulaw_level e m)"
  using ulaw_level_range [OF assms(2-4)] unfolding ulaw_decode_level [OF assms]
  by (cases neg) (simp_all add: sint_i16 flip: of_int_minus)

lemma byte_parts:
  obtains neg e m where "uint (w :: byte) = 128 * (if neg then 1 else 0) + 16 * int e + m"
    "e \<le> 7" "0 \<le> m" "m < 16"
proof -
  have r: "0 \<le> uint w" "uint w < 256" using uint_lt2p [of w] by simp_all
  have "uint w = 128 * (if 128 \<le> uint w then 1 else 0) + 16 * int (nat (uint w div 16 mod 8)) + uint w mod 16"
  proof -
    have "x = 128 * (if 128 \<le> x then 1 else 0) + 16 * (x div 16 mod 8) + x mod 16"
      if x: "0 \<le> x" "x < 256" for x :: int
    proof -
      have "x div 128 = (if 128 \<le> x then 1 else 0)"
        using x by (auto intro: int_div_pos_eq [where q = 1 and r = "x - 128"])
      moreover have "x div 16 div 8 = x div 128" by (simp add: zdiv_zmult2_eq [symmetric])
      ultimately show ?thesis
        using div_mult_mod_eq [of x 16] div_mult_mod_eq [of "x div 16" 8] by linarith
    qed
    from this [OF r] show ?thesis using r by simp
  qed
  moreover have "nat (uint w div 16 mod 8) \<le> 7" by (simp add: nat_le_iff)
  ultimately show ?thesis by (rule that) simp_all
qed

text \<open>A magnitude lies in one segment, and its code stands for a level close to it.\<close>

lemma ulaw_segment:
  assumes "132 \<le> M" "M < (32768 :: int)"
  obtains e where "2 ^ (e + 7) \<le> M" "M < 2 ^ (e + 8)" "e \<le> (7 :: nat)"
proof -
  consider "M < 256" | "256 \<le> M" "M < 512" | "512 \<le> M" "M < 1024" | "1024 \<le> M" "M < 2048"
     | "2048 \<le> M" "M < 4096" | "4096 \<le> M" "M < 8192" | "8192 \<le> M" "M < 16384" | "16384 \<le> M"
    by linarith
  then show ?thesis
    using assms that [of 0] that [of 1] that [of 2] that [of 3] that [of 4] that [of 5] that [of 6] that [of 7]
    by cases simp_all
qed

lemma ulaw_level_close:
  assumes "2 ^ (e + 7) \<le> M" "M < 2 ^ (e + 8)"
  shows "\<bar>ulaw_level e (M div 2 ^ (e + 3) mod 16) + 132 - M\<bar> \<le> M div 32"
proof -
  let ?p = "2 ^ e :: int" let ?q = "M div 2 ^ (e + 3)"
  have p: "0 < ?p" by simp
  have M: "M = 8 * ?p * ?q + M mod (8 * ?p)" "0 \<le> M mod (8 * ?p)" "M mod (8 * ?p) < 8 * ?p"
    using p by (simp_all add: power_add mult.commute)
  have "16 * (8 * ?p) \<le> M" "M < 32 * (8 * ?p)" using assms by (simp_all add: power_add)
  have "16 \<le> ?q"
    using zdiv_mono1 [of "16 * (8 * ?p)" M "8 * ?p"] assms(1) by (simp add: power_add mult.commute)
  moreover have "?q < 32"
  proof (rule ccontr)
    assume "\<not> ?q < 32"
    then have "8 * ?p * 32 \<le> 8 * ?p * ?q" using p by (intro mult_left_mono) simp_all
    with M(1,2) \<open>M < 32 * (8 * ?p)\<close> show False by linarith
  qed
  moreover have "q mod 16 = q - 16" if "16 \<le> q" "q < 32" for q :: int using that by presburger
  ultimately have q: "?q mod 16 = ?q - 16" by blast
  have "ulaw_level e (?q mod 16) + 132 - M = 4 * ?p - M mod (8 * ?p)"
    unfolding q ulaw_level_def using M(1) by (simp add: algebra_simps)
  moreover have "4 * ?p \<le> M div 32"
    using zdiv_mono1 [of "128 * ?p" M 32] assms(1) by (simp add: power_add)
  ultimately show ?thesis using M(2,3) by linarith
qed

text \<open>
  Every \<open>\<mu>\<close>-law code is the code of its own value but for one: decoding a byte and encoding
  the sample gives the byte back, except that the negative zero comes back as the positive one.
\<close>

theorem ulaw_roundtrip:
  "pcm16_to_ulaw (ulaw_to_pcm16 b) = (if b = 0x7F then 0xFF else b)"
proof -
  obtain neg e m where b: "uint (NOT b) = 128 * (if neg then 1 else 0) + 16 * int e + m"
    "e \<le> 7" "0 \<le> m" "m < 16" by (rule byte_parts)
  let ?L = "ulaw_level e m" and ?s = "ulaw_to_pcm16 b"
  have L: "0 \<le> ?L" "?L \<le> 32124" using ulaw_level_range [OF b(2-4)] by simp_all
  have s: "sint ?s = (if neg then - ?L else ?L)" by (rule ulaw_sample [OF b])
  have p: "(0 :: int) < 2 ^ e" by simp
  have M: "min \<bar>sint ?s\<bar> 32635 + 132 = (8 * m + 132) * 2 ^ e"
    unfolding s using L by (simp add: ulaw_level_def)
  have "2 ^ (e + 7) \<le> (8 * m + 132) * 2 ^ e" "(8 * m + 132) * 2 ^ e < 2 ^ (e + 8)"
    using mult_right_mono [of 128 "8 * m + 132" "2 ^ e"] mult_strict_right_mono [of "8 * m + 132" 256 "2 ^ e"]
      b(3,4) p by (simp_all add: power_add mult.commute)
  from ulaw_encode_level [OF M [symmetric] this b(2)]
  have enc: "uint (NOT (pcm16_to_ulaw ?s)) = 128 * (if sint ?s < 0 then 1 else 0) + 16 * int e + m"
  proof -
    have "(8 * m + 132) * 2 ^ e div 2 ^ (e + 3) = (8 * m + 132) div 8"
      using p by (simp add: power_add mult.commute [of _ "2 ^ e"])
    also have "\<dots> mod 16 = m"
    proof -
      have "(8 * m + 132) div 8 = m + 16" by linarith
      then show ?thesis using b(3,4) by simp
    qed
    finally show ?thesis
      using \<open>uint (NOT (pcm16_to_ulaw ?s)) = _\<close> by simp
  qed
  show ?thesis
  proof (cases "neg \<and> ?L = 0")
    case True
    have "1 * 132 \<le> (2 ^ e :: int) * 132" by (intro mult_right_mono) simp_all
    moreover have "0 \<le> 8 * m * 2 ^ e" using b(3) by simp
    ultimately have "8 * m * 2 ^ e = 0" "(2 ^ e :: int) = 1"
      using True unfolding ulaw_level_def distrib_right by linarith+
    then have z: "m = 0" "e = 0" using power_inject_exp [of "2 :: int" e 0] by simp_all
    have "NOT b = 128" using b(1) True z by (simp add: word_uint_eq_iff)
    then have "b = NOT 128" by (metis bit.double_compl)
    then have "b = 0x7F" by simp
    moreover have "NOT (pcm16_to_ulaw ?s) = 0" using enc z s True by (simp add: word_uint_eq_iff)
    then have "pcm16_to_ulaw ?s = NOT 0" by (metis bit.double_compl)
    then have "pcm16_to_ulaw ?s = 0xFF" by simp
    ultimately show ?thesis by simp
  next
    case False
    then have "sint ?s < 0 \<longleftrightarrow> neg" using s L by auto
    then have "NOT (pcm16_to_ulaw ?s) = NOT b" using enc b(1) by (simp add: word_uint_eq_iff)
    then have eq: "pcm16_to_ulaw ?s = b" by (metis bit.double_compl)
    have "b \<noteq> 0x7F"
    proof
      assume "b = 0x7F"
      then have "uint (NOT b) = 128" by simp
      with b have "neg \<and> e = 0 \<and> m = 0" by (cases neg) auto
      with False show False by (simp add: ulaw_level_def)
    qed
    with eq show ?thesis by simp
  qed
qed

text \<open>
  Companding loses little and never the sign: a sample encoded and decoded differs from
  the sample, clipped at 32635, by at most a thirty-second of its biased magnitude, and has
  the same sign or is zero.
\<close>

theorem ulaw_quantisation:
  "case sint (ulaw_to_pcm16 (pcm16_to_ulaw s)) of d \<Rightarrow>
     \<bar>d - max (- 32635) (min (sint s) 32635)\<bar> \<le> (min \<bar>sint s\<bar> 32635 + 132) div 32
     \<and> 0 \<le> d * sint s"
proof -
  define M where "M = min \<bar>sint s\<bar> 32635 + 132"
  have "132 \<le> M" "M < 32768" by (simp_all add: M_def)
  then obtain e where e: "2 ^ (e + 7) \<le> M" "M < 2 ^ (e + 8)" "e \<le> (7 :: nat)" by (rule ulaw_segment)
  let ?m = "M div 2 ^ (e + 3) mod 16" and ?b = "pcm16_to_ulaw s"
  have "uint (NOT ?b) = 128 * (if sint s < 0 then 1 else 0) + 16 * int e + ?m"
    by (rule ulaw_encode_level [OF M_def e])
  then have d: "sint (ulaw_to_pcm16 ?b) = (if sint s < 0 then - ulaw_level e ?m else ulaw_level e ?m)"
    by (rule ulaw_sample) (use e(3) in simp_all)
  have L: "0 \<le> ulaw_level e ?m" using ulaw_level_range [OF e(3), of ?m] by simp
  have c: "max (- 32635) (min (sint s) 32635) = (if sint s < 0 then - (M - 132) else M - 132)"
    unfolding M_def by auto
  have "\<bar>ulaw_level e ?m + 132 - M\<bar> \<le> M div 32" by (rule ulaw_level_close [OF e(1,2)])
  then have "\<bar>sint (ulaw_to_pcm16 ?b) - max (- 32635) (min (sint s) 32635)\<bar> \<le> M div 32"
    unfolding d c by auto
  moreover have "0 \<le> sint (ulaw_to_pcm16 ?b) * sint s"
    unfolding d using L by (auto simp: mult_nonneg_nonpos mult_nonpos_nonpos)
  ultimately show ?thesis by (simp add: M_def)
qed

section \<open>Linear PCM\<close>

lemma be_bytes_inverse [simp]:
  "from_be_bytes (ucast (drop_bit 8 w)) (ucast w) = w"
  by (rule bit_word_eqI) (auto simp: from_be_bytes_def bit_simps)

lemma be_bytes_hi_lo [simp]: "to_be_bytes (from_be_bytes a b) = [a, b]"
proof -
  have "ucast (drop_bit 8 (from_be_bytes a b)) = a"
    by (rule bit_word_eqI) (auto simp: from_be_bytes_def bit_simps dest: bit_imp_le_length)
  moreover have "ucast (from_be_bytes a b) = b"
    by (rule bit_word_eqI) (auto simp: from_be_bytes_def bit_simps)
  ultimately show ?thesis by (simp add: to_be_bytes_def)
qed

lemma pairs_of_samples [simp]:
  "byte_pairs (concat (map to_be_bytes ws)) = map (\<lambda>w. (ucast (drop_bit 8 w), ucast w)) ws"
  by (induction ws) (simp_all add: to_be_bytes_def)

lemma samples_of_pairs:
  "even (length bs) \<Longrightarrow> concat (map (to_be_bytes \<circ> (\<lambda>(a, b). from_be_bytes a b)) (byte_pairs bs)) = bs"
  by (induction bs rule: byte_pairs.induct) auto

lemma encoded_even [simp]: "even (length (concat (map to_be_bytes ws)))"
  by (induction ws) (simp_all add: to_be_bytes_def)

text \<open>
  Linear PCM is lossless: samples written to the wire are read back, and the bytes of a
  payload that is not cut in half are written again as they were.
\<close>

theorem l16_roundtrip:
  "Option.bind (case encode L16 ws of Inl _ \<Rightarrow> None | Inr bs \<Rightarrow> Some bs)
     (\<lambda>bs. case decode L16 bs of Inl _ \<Rightarrow> None | Inr v \<Rightarrow> Some v) = Some ws
   \<and> (case decode L16 bs of
        Inl e \<Rightarrow> e = TruncatedFrame \<and> odd (length bs)
      | Inr v \<Rightarrow> even (length bs) \<and> encode L16 v = Inr bs \<and> 2 * length v = length bs)"
proof -
  have "2 * length (byte_pairs bs) = length bs" if "even (length bs)" for bs
    using that by (induction bs rule: byte_pairs.induct) auto
  then show ?thesis
    using encoded_even [of ws] samples_of_pairs [of bs]
    by (auto simp: comp_def even_iff_mod_2_eq_zero)
qed

lemma byte_pairs_swap [simp]:
  "byte_pairs (swap_byte_pairs bs) = map (\<lambda>(a, b). (b, a)) (byte_pairs bs)"
  "odd_byte (swap_byte_pairs bs) = odd_byte bs"
  by (induction bs rule: byte_pairs.induct) (simp_all add: swap_byte_pairs_def)

lemma swap_swap: "swap_byte_pairs (swap_byte_pairs bs) = bs"
  by (induction bs rule: byte_pairs.induct) (simp_all add: swap_byte_pairs_def)

lemma length_swap [simp]: "length (swap_byte_pairs bs) = length bs"
  by (induction bs rule: byte_pairs.induct) (simp_all add: swap_byte_pairs_def)

lemma evidence_swap:
  "ev_be (evidence_loop (map (\<lambda>(a, b). (b, a)) ps) (map_option prod.swap prev) ev')
     = ev_le (evidence_loop ps prev ev)
   \<and> ev_le (evidence_loop (map (\<lambda>(a, b). (b, a)) ps) (map_option prod.swap prev) ev')
     = ev_be (evidence_loop ps prev ev)"
  if "ev_be ev' = ev_le ev" "ev_le ev' = ev_be ev"
  using that
proof (induction ps arbitrary: prev ev ev')
  case (Cons p ps)
  obtain a b where p: "p = (a, b)" by fastforce
  have le: "from_le_bytes a b = from_be_bytes b a" for a b by (simp add: from_le_bytes_def)
  show ?case
    using Cons.IH [where prev = "Some (sint (from_be_bytes a b), sint (from_be_bytes b a))"] Cons.prems
    by (cases prev) (simp_all add: p Let_def le split: prod.splits)
qed simp

text \<open>
  Swapping the bytes of a payload is its own inverse, keeps its length, and exchanges the
  two readings: the evidence for one order becomes the evidence for the other.
\<close>

theorem swap_exchanges_evidence:
  "swap_byte_pairs (swap_byte_pairs bs) = bs \<and> length (swap_byte_pairs bs) = length bs
   \<and> l16_byte_order_roughness (swap_byte_pairs bs) = prod.swap (l16_byte_order_roughness bs)"
  using evidence_swap [where prev = None and ps = "byte_pairs bs"
      and ev = "\<lparr>ev_be = 0, ev_le = 0, ev_deltas = 0\<rparr>" and ev' = "\<lparr>ev_be = 0, ev_le = 0, ev_deltas = 0\<rparr>"]
  by (simp add: swap_swap l16_byte_order_roughness_def l16_byte_order_evidence_def Let_def)

section \<open>The resampler\<close>

definition TAPS :: nat where
  "TAPS = 32"

text \<open>The operations of \<open>f32\<close> that the filter uses; \<open>f_mac acc tap s\<close> is \<open>acc + tap * s\<close>.\<close>

record 'f float_ops =
  f_zero :: 'f
  f_of_i16 :: "i16 \<Rightarrow> 'f"
  f_mac :: "'f \<Rightarrow> 'f \<Rightarrow> 'f \<Rightarrow> 'f"
  f_to_i16 :: "'f \<Rightarrow> i16"

record 'f Resampler =
  rs_from_hz :: nat
  rs_to_hz :: nat
  rs_l :: nat
  rs_m :: nat
  rs_phases :: "'f list list"
  rs_history :: "i16 list"
  rs_consumed :: nat
  rs_out_k :: nat

fun gcd_loop :: "nat \<Rightarrow> nat \<Rightarrow> nat" where
  "gcd_loop a b = (if b = 0 then a else gcd_loop b (a mod b))"

declare gcd_loop.simps [simp del]

text \<open>
  The prototype filter \<open>h l m i\<close>, a windowed sinc evaluated with \<open>sin\<close> and \<open>cos\<close>, is an
  argument; its split into branches is the code's.
\<close>

definition build_phases :: "'f float_ops \<Rightarrow> (nat \<Rightarrow> nat \<Rightarrow> nat \<Rightarrow> 'f) \<Rightarrow> nat \<Rightarrow> nat \<Rightarrow> 'f list list" where
  "build_phases F h l m =
     (let n = TAPS * l
      in map (\<lambda>p. map (\<lambda>r. let idx = p + r * l in if idx < n then h l m idx else f_zero F) [0..<TAPS])
           [0..<l])"

definition resampler_new ::
  "'f float_ops \<Rightarrow> (nat \<Rightarrow> nat \<Rightarrow> nat \<Rightarrow> 'f) \<Rightarrow> nat \<Rightarrow> nat \<Rightarrow> 'f Resampler" where
  "resampler_new F h from_hz to_hz =
     (let g = max (gcd_loop from_hz to_hz) 1; l = to_hz div g; m = from_hz div g
      in \<lparr>rs_from_hz = from_hz, rs_to_hz = to_hz, rs_l = l, rs_m = m, rs_phases = build_phases F h l m,
         rs_history = replicate (TAPS - 1) 0, rs_consumed = 0, rs_out_k = 0\<rparr>)"

definition is_identity :: "'f Resampler \<Rightarrow> bool" where
  "is_identity r \<longleftrightarrow> rs_from_hz r = rs_to_hz r"

text \<open>One output sample: the loop over the taps of a branch, from tap \<open>t\<close> on.\<close>

fun mac_taps ::
  "'f float_ops \<Rightarrow> i16 list \<Rightarrow> int \<Rightarrow> int \<Rightarrow> nat \<Rightarrow> 'f list \<Rightarrow> 'f \<Rightarrow> 'f" where
  "mac_taps F x first_abs base_abs t [] acc = acc"
| "mac_taps F x first_abs base_abs t (tap # taps) acc =
     (let a = base_abs - int t;
          s = (if a < first_abs then f_zero F else f_of_i16 F (x ! nat (a - first_abs)))
      in mac_taps F x first_abs base_abs (Suc t) taps (f_mac F acc tap s))"

text \<open>The loop over the output counter; it does not return where the rates make it run for ever.\<close>

partial_function (option) output_loop ::
  "'f float_ops \<Rightarrow> 'f Resampler \<Rightarrow> i16 list \<Rightarrow> int \<Rightarrow> nat \<Rightarrow> nat \<Rightarrow> (i16 list \<times> nat) option" where
  "output_loop F r x first_abs last_abs k =
     (let phase = (k * rs_m r) mod rs_l r;
          base_abs = (k * rs_m r - phase) div rs_l r
      in if base_abs > last_abs then Some ([], k)
         else Option.bind (output_loop F r x first_abs last_abs (k + 1)) (\<lambda>(out, k').
                Some (f_to_i16 F (mac_taps F x first_abs (int base_abs) 0 (rs_phases r ! phase) (f_zero F)) # out, k')))"

declare output_loop.simps [code]

definition process ::
  "'f float_ops \<Rightarrow> 'f Resampler \<Rightarrow> i16 list \<Rightarrow> (i16 list \<times> 'f Resampler) option" where
  "process F r input =
     (if is_identity r then Some (input, r)
      else if input = [] then Some ([], r)
      else
        let hist_len = length (rs_history r);
            first_abs = int (rs_consumed r) - int hist_len;
            x = rs_history r @ input;
            last_abs = rs_consumed r + length input - 1
        in map_option (\<lambda>(out, k).
             (out, r\<lparr>rs_out_k := k, rs_consumed := rs_consumed r + length input,
                rs_history := (let h = rs_history r @ input in drop (length h - (TAPS - 1)) h)\<rparr>))
             (output_loop F r x first_abs last_abs (rs_out_k r)))"

section \<open>The barge-in gate\<close>

record PlaybackGate =
  g_generation :: nat
  g_in_flight_bytes :: nat

definition gate_new :: PlaybackGate where
  "gate_new = \<lparr>g_generation = 0, g_in_flight_bytes = 0\<rparr>"

definition gate_accept :: "PlaybackGate \<Rightarrow> nat \<Rightarrow> nat \<Rightarrow> bool \<times> PlaybackGate" where
  "gate_accept g generation bytes =
     (if generation \<noteq> g_generation g then (False, g)
      else (True, g\<lparr>g_in_flight_bytes := saturating_add (g_in_flight_bytes g) bytes\<rparr>))"

definition barge_in :: "PlaybackGate \<Rightarrow> bool \<times> PlaybackGate" where
  "barge_in g = (g_in_flight_bytes g > 0,
     g\<lparr>g_in_flight_bytes := 0, g_generation := g_generation g + 1\<rparr>)"

definition is_idle :: "PlaybackGate \<Rightarrow> bool" where
  "is_idle g \<longleftrightarrow> g_in_flight_bytes g = 0"

section \<open>What the resampler computes\<close>

text \<open>A stream, silent before its start; the output as one convolution over the whole of it.\<close>

definition stream_at :: "i16 list \<Rightarrow> int \<Rightarrow> i16" where
  "stream_at s j = (if j < 0 then 0 else s ! nat j)"

definition conv_at :: "'f float_ops \<Rightarrow> 'f Resampler \<Rightarrow> i16 list \<Rightarrow> nat \<Rightarrow> i16" where
  "conv_at F r s k =
     f_to_i16 F (foldl (\<lambda>acc (t, tap). f_mac F acc tap (f_of_i16 F (stream_at s (int (k * rs_m r div rs_l r) - int t))))
       (f_zero F) (zip [0..<TAPS] (rs_phases r ! (k * rs_m r mod rs_l r))))"

definition out_count :: "'f Resampler \<Rightarrow> nat \<Rightarrow> nat" where
  "out_count r n = (n * rs_l r + rs_m r - 1) div rs_m r"

definition resampled :: "'f float_ops \<Rightarrow> 'f Resampler \<Rightarrow> i16 list \<Rightarrow> i16 list" where
  "resampled F r s = map (conv_at F r s) [0..<out_count r (length s)]"

fun process_all ::
  "'f float_ops \<Rightarrow> 'f Resampler \<Rightarrow> i16 list list \<Rightarrow> (i16 list \<times> 'f Resampler) option" where
  "process_all F r [] = Some ([], r)"
| "process_all F r (c # cs) =
     Option.bind (process F r c) (\<lambda>(out, r1). map_option (\<lambda>(rest, r2). (out @ rest, r2)) (process_all F r1 cs))"

definition rates_ok :: "'f Resampler \<Rightarrow> bool" where
  "rates_ok r \<longleftrightarrow> 0 < rs_l r \<and> 0 < rs_m r \<and> length (rs_phases r) = rs_l r
     \<and> list_all (\<lambda>ts. length ts = TAPS) (rs_phases r)"

definition pad :: "i16 list \<Rightarrow> i16 list" where
  "pad s = replicate (TAPS - 1) 0 @ s"

text \<open>The resampler after the samples \<open>s\<close>.\<close>

definition after_input :: "'f Resampler \<Rightarrow> i16 list \<Rightarrow> 'f Resampler" where
  "after_input r s = r\<lparr>rs_history := drop (length s) (pad s), rs_consumed := length s,
                rs_out_k := out_count r (length s)\<rparr>"

lemma gcd_loop_gcd: "gcd_loop a b = gcd a b"
  by (induction a b rule: gcd_loop.induct) (simp add: gcd_loop.simps gcd_non_0_nat)

lemma ceil_div_le: "0 < d \<Longrightarrow> (n + d - 1) div d \<le> k \<longleftrightarrow> n \<le> k * (d :: nat)"
proof -
  assume d: "0 < d"
  have "(n + d - 1) div d < Suc k \<longleftrightarrow> n + d - 1 < Suc k * d"
    using d by (simp add: div_less_iff_less_mult)
  also have "\<dots> \<longleftrightarrow> n \<le> k * d" using d by simp linarith
  finally show ?thesis by (simp add: less_Suc_eq_le)
qed

lemma out_count_iff:
  "rates_ok r \<Longrightarrow> out_count r n \<le> k \<longleftrightarrow> n \<le> k * rs_m r div rs_l r"
  unfolding rates_ok_def out_count_def by (metis ceil_div_le less_eq_div_iff_mult_less_eq)

lemma mac_taps_fold:
  assumes "\<And>i. t \<le> i \<Longrightarrow> i < t + length taps \<Longrightarrow>
      first_abs \<le> base_abs - int i \<and> x ! nat (base_abs - int i - first_abs) = stream_at s (base_abs - int i)"
  shows "mac_taps F x first_abs base_abs t taps acc =
     foldl (\<lambda>acc (t, tap). f_mac F acc tap (f_of_i16 F (stream_at s (base_abs - int t)))) acc
       (zip [t..<t + length taps] taps)"
  using assms
proof (induction taps arbitrary: t acc)
  case (Cons tap taps)
  have "[t..<t + length (tap # taps)] = t # [Suc t..<Suc t + length taps]"
    by (subst upt_conv_Cons) simp_all
  moreover have "mac_taps F x first_abs base_abs (Suc t) taps acc' =
      foldl (\<lambda>acc (t, tap). f_mac F acc tap (f_of_i16 F (stream_at s (base_abs - int t)))) acc'
        (zip [Suc t..<Suc t + length taps] taps)" for acc'
    by (rule Cons.IH) (use Cons.prems in auto)
  moreover have "first_abs \<le> base_abs - int t \<and> x ! nat (base_abs - int t - first_abs) = stream_at s (base_abs - int t)"
    using Cons.prems [of t] by simp
  ultimately show ?case by (simp add: Let_def)
qed simp

lemma output_loop_eq:
  assumes "rates_ok r" and "k \<le> out_count r (Suc last_abs)"
    and "\<And>i. k \<le> i \<Longrightarrow> i < out_count r (Suc last_abs) \<Longrightarrow>
      f_to_i16 F (mac_taps F x first_abs (int (i * rs_m r div rs_l r)) 0 (rs_phases r ! (i * rs_m r mod rs_l r))
        (f_zero F)) = y i"
  shows "output_loop F r x first_abs last_abs k =
     Some (map y [k..<out_count r (Suc last_abs)], out_count r (Suc last_abs))"
  using assms(2,3)
proof (induction "out_count r (Suc last_abs) - k" arbitrary: k)
  case 0
  then have "k = out_count r (Suc last_abs)" by simp
  moreover from this have "last_abs < k * rs_m r div rs_l r"
    using out_count_iff [OF assms(1), of "Suc last_abs" k] by simp
  moreover have "0 < rs_l r" using assms(1) by (simp add: rates_ok_def)
  ultimately show ?case by (subst output_loop.simps) (simp add: Let_def minus_mod_eq_div_mult)
next
  case (Suc d)
  then have less: "k < out_count r (Suc last_abs)" by simp
  then have "\<not> last_abs < k * rs_m r div rs_l r"
    using out_count_iff [OF assms(1), of "Suc last_abs" k] by simp
  moreover have "output_loop F r x first_abs last_abs (Suc k) =
      Some (map y [Suc k..<out_count r (Suc last_abs)], out_count r (Suc last_abs))"
    by (rule Suc.hyps(1)) (use Suc.hyps(2) Suc.prems less in auto)
  moreover have "f_to_i16 F (mac_taps F x first_abs (int (k * rs_m r div rs_l r)) 0
      (rs_phases r ! (k * rs_m r mod rs_l r)) (f_zero F)) = y k"
    using Suc.prems(2) less by simp
  moreover have "0 < rs_l r" using assms(1) by (simp add: rates_ok_def)
  ultimately show ?case using less
    by (subst output_loop.simps) (simp add: Let_def minus_mod_eq_div_mult upt_conv_Cons)
qed

lemma pad_nth: "int j = i + 31 \<Longrightarrow> - 31 \<le> i \<Longrightarrow> pad s ! j = stream_at s i"
proof -
  assume j: "int j = i + 31" "- 31 \<le> i"
  show ?thesis
  proof (cases "i < 0")
    case True
    with j have "j < 31" by simp
    with True show ?thesis by (simp add: pad_def TAPS_def nth_append stream_at_def del: replicate.simps)
  next
    case False
    with j have "\<not> j < 31" "j - 31 = nat i" by auto
    with False show ?thesis by (simp add: pad_def TAPS_def nth_append stream_at_def del: replicate.simps)
  qed
qed

lemma length_pad [simp]: "length (pad s) = length s + 31"
  by (simp add: pad_def TAPS_def del: replicate.simps)

lemma pad_append: "pad (s @ t) = pad s @ t"
  by (simp add: pad_def)

text \<open>One chunk continues the convolution.\<close>

lemma process_after:
  assumes "rates_ok r" and "\<not> is_identity r"
  shows "process F (after_input r s) c =
     Some (map (conv_at F r (s @ c)) [out_count r (length s)..<out_count r (length (s @ c))], after_input r (s @ c))"
proof (cases "c = []")
  case True
  with assms(2) show ?thesis by (simp add: process_def is_identity_def after_input_def)
next
  case False
  let ?a = "after_input r s" and ?N = "length (s @ c)"
  have hist: "rs_history ?a @ c = drop (length s) (pad (s @ c))" by (simp add: after_input_def pad_append)
  have len: "length (rs_history ?a) = 31" by (simp add: after_input_def)
  have last: "Suc (rs_consumed ?a + length c - 1) = ?N" using False by (cases c) (simp_all add: after_input_def)
  have const: "rs_l ?a = rs_l r" "rs_m ?a = rs_m r" "rs_phases ?a = rs_phases r" "out_count ?a = out_count r"
    by (simp_all add: after_input_def out_count_def fun_eq_iff)
  have rates: "rates_ok ?a" using assms(1) by (simp add: rates_ok_def const)
  have lr: "0 < rs_l r" using assms(1) by (simp add: rates_ok_def)
  have le: "out_count r (length s) \<le> out_count r ?N"
    unfolding out_count_def by (intro div_le_mono diff_le_mono add_le_mono mult_le_mono) simp_all
  have sample: "f_to_i16 F (mac_taps F (rs_history ?a @ c) (int (length s) - 31) (int (i * rs_m r div rs_l r)) 0
      (rs_phases r ! (i * rs_m r mod rs_l r)) (f_zero F)) = conv_at F r (s @ c) i"
    if i: "out_count r (length s) \<le> i" "i < out_count r ?N" for i
  proof -
    let ?base = "i * rs_m r div rs_l r" and ?taps = "rs_phases r ! (i * rs_m r mod rs_l r)"
    have b: "length s \<le> ?base" "?base < ?N"
      using i out_count_iff [OF assms(1)] by (simp, metis not_le)
    have taps: "length ?taps = TAPS"
      using assms(1) lr unfolding rates_ok_def list_all_length by simp
    have "int (length s) - 31 \<le> int ?base - int t
        \<and> (rs_history ?a @ c) ! nat (int ?base - int t - (int (length s) - 31)) = stream_at (s @ c) (int ?base - int t)"
      if "t < 32" for t
    proof
      show "int (length s) - 31 \<le> int ?base - int t" using b that by linarith
      have "length s + nat (int ?base - int t - (int (length s) - 31)) = nat (int ?base - int t + 31)"
        using b that by linarith
      then show "(rs_history ?a @ c) ! nat (int ?base - int t - (int (length s) - 31)) = stream_at (s @ c) (int ?base - int t)"
        unfolding hist using b that by (subst nth_drop) (auto intro!: pad_nth)
    qed
    then show ?thesis
      using mac_taps_fold [of 0 ?taps "int (length s) - 31" "int ?base" "rs_history ?a @ c" "s @ c" F "f_zero F"]
      unfolding conv_at_def by (simp add: taps TAPS_def)
  qed
  have "output_loop F ?a (rs_history ?a @ c) (int (length s) - 31) (rs_consumed ?a + length c - 1) (rs_out_k ?a) =
      Some (map (conv_at F r (s @ c)) [rs_out_k ?a..<out_count r ?N], out_count r ?N)"
    using output_loop_eq [OF rates, where last_abs = "rs_consumed ?a + length c - 1" and y = "conv_at F r (s @ c)"
        and F = F and x = "rs_history ?a @ c" and first_abs = "int (length s) - 31" and k = "rs_out_k ?a"]
      le sample unfolding last const by (simp add: after_input_def)
  moreover have "rs_consumed ?a = length s" "rs_out_k ?a = out_count r (length s)" by (simp_all add: after_input_def)
  moreover have "\<not> is_identity ?a" using assms(2) by (simp add: is_identity_def after_input_def)
  moreover have "drop (length (rs_history ?a @ c) - (TAPS - 1)) (rs_history ?a @ c) = drop ?N (pad (s @ c))"
    unfolding hist by (simp add: TAPS_def add.commute)
  ultimately show ?thesis
    using False len unfolding process_def Let_def by (simp add: after_input_def)
qed

lemma conv_at_prefix:
  assumes "rates_ok r" and "k < out_count r (length s)"
  shows "conv_at F r (s @ t) k = conv_at F r s k"
proof -
  have "k * rs_m r div rs_l r < length s" using assms(2) out_count_iff [OF assms(1)] by (metis not_le)
  then have "stream_at (s @ t) (int (k * rs_m r div rs_l r) - int i) = stream_at s (int (k * rs_m r div rs_l r) - int i)" for i
    by (auto simp: stream_at_def nth_append)
  then show ?thesis by (simp add: conv_at_def)
qed

lemma resampled_append:
  assumes "rates_ok r"
  shows "resampled F r (s @ c) =
     resampled F r s @ map (conv_at F r (s @ c)) [out_count r (length s)..<out_count r (length (s @ c))]"
proof -
  have le: "out_count r (length s) \<le> out_count r (length (s @ c))"
    unfolding out_count_def by (intro div_le_mono diff_le_mono add_le_mono mult_le_mono) simp_all
  then have "[0..<out_count r (length (s @ c))] =
      [0..<out_count r (length s)] @ [out_count r (length s)..<out_count r (length (s @ c))]"
    using upt_add_eq_append [of 0 "out_count r (length s)" "out_count r (length (s @ c)) - out_count r (length s)"]
    by simp
  then show ?thesis using conv_at_prefix [OF assms] by (simp add: resampled_def)
qed

lemma process_all_after:
  assumes "rates_ok r" and "\<not> is_identity r"
  shows "\<exists>out. process_all F (after_input r s) cs = Some (out, after_input r (s @ concat cs))
      \<and> resampled F r (s @ concat cs) = resampled F r s @ out"
proof (induction cs arbitrary: s)
  case (Cons c cs)
  from Cons.IH [of "s @ c"] obtain out where
    "process_all F (after_input r (s @ c)) cs = Some (out, after_input r (s @ c @ concat cs))"
    "resampled F r (s @ c @ concat cs) = resampled F r (s @ c) @ out" by auto
  then show ?case
    unfolding resampled_append [OF assms(1), of F s c] by (simp add: process_after [OF assms])
qed simp

lemma process_all_identity:
  "is_identity r \<Longrightarrow> process_all F r cs = Some (concat cs, r)"
  by (induction cs) (simp_all add: process_def)

lemma resampler_new_sel [simp]:
  "rs_from_hz (resampler_new F h a b) = a" "rs_to_hz (resampler_new F h a b) = b"
  by (simp_all add: resampler_new_def Let_def)

lemma resampler_new_rates:
  assumes "0 < from_hz" "0 < to_hz"
  shows "rates_ok (resampler_new F h from_hz to_hz)"
    and "resampler_new F h from_hz to_hz = after_input (resampler_new F h from_hz to_hz) []"
proof -
  let ?g = "gcd from_hz to_hz"
  have g: "0 < ?g" "?g \<le> from_hz" "?g \<le> to_hz" using assms by (simp_all add: gcd_le1_nat gcd_le2_nat)
  then have p: "0 < to_hz div ?g" "0 < from_hz div ?g" by (simp_all add: div_greater_zero_iff)
  have "max (gcd_loop from_hz to_hz) 1 = ?g" using g(1) unfolding gcd_loop_gcd by linarith
  then have new: "resampler_new F h from_hz to_hz =
     \<lparr>rs_from_hz = from_hz, rs_to_hz = to_hz, rs_l = to_hz div ?g, rs_m = from_hz div ?g,
      rs_phases = build_phases F h (to_hz div ?g) (from_hz div ?g),
      rs_history = replicate (TAPS - 1) 0, rs_consumed = 0, rs_out_k = 0\<rparr>"
    by (simp add: resampler_new_def Let_def)
  show "rates_ok (resampler_new F h from_hz to_hz)"
    using p by (simp add: new rates_ok_def build_phases_def Let_def list_all_iff)
  show "resampler_new F h from_hz to_hz = after_input (resampler_new F h from_hz to_hz) []"
    using p by (simp add: new after_input_def pad_def out_count_def)
qed

text \<open>
  Where a stream is cut does not matter: between two positive rates the resampler always
  returns, and what it puts out over any sequence of chunks is one convolution of the whole
  stream, one sample for each output instant that the input has reached, whatever the
  arithmetic of the filter is.
\<close>

theorem resampling_ignores_chunks:
  assumes "0 < from_hz" "0 < to_hz"
  shows "map_option fst (process_all F (resampler_new F h from_hz to_hz) chunks) =
     Some (if from_hz = to_hz then concat chunks
           else resampled F (resampler_new F h from_hz to_hz) (concat chunks))
   \<and> length (resampled F (resampler_new F h from_hz to_hz) (concat chunks)) =
     (length (concat chunks) * to_hz + from_hz - 1) div from_hz"
proof
  let ?r = "resampler_new F h from_hz to_hz"
  note new = resampler_new_rates [OF assms, of F h]
  show "map_option fst (process_all F ?r chunks) =
     Some (if from_hz = to_hz then concat chunks else resampled F ?r (concat chunks))"
  proof (cases "from_hz = to_hz")
    case True
    then show ?thesis by (simp add: process_all_identity is_identity_def)
  next
    case False
    then have "\<not> is_identity ?r" by (simp add: is_identity_def)
    from process_all_after [OF new(1) this, of F "[]" chunks] obtain out where
      "process_all F (after_input ?r []) chunks = Some (out, after_input ?r (concat chunks))"
      "resampled F ?r (concat chunks) = resampled F ?r [] @ out" by auto
    moreover have "resampled F ?r [] = []"
      using new(1) by (simp add: resampled_def out_count_def rates_ok_def)
    ultimately show ?thesis using False new(2) by simp
  qed
  let ?n = "length (concat chunks)" and ?g = "gcd from_hz to_hz"
  define l where "l = to_hz div ?g"
  define m where "m = from_hz div ?g"
  have g: "0 < ?g" "to_hz = l * ?g" "from_hz = m * ?g" using assms by (simp_all add: l_def m_def)
  have "max (gcd_loop from_hz to_hz) 1 = ?g" using g(1) unfolding gcd_loop_gcd by linarith
  then have lm: "rs_l ?r = l" "rs_m ?r = m" by (simp_all add: resampler_new_def Let_def l_def m_def)
  have m: "0 < m" using g(3) assms(1) by (cases m) simp_all
  have e: "?n * to_hz = ?n * l * ?g" "j * from_hz = j * m * ?g" for j
    by (simp_all add: l_def m_def mult.assoc)
  have "?n * to_hz \<le> j * from_hz \<longleftrightarrow> ?n * l \<le> j * m" for j
    unfolding e(1) e(2) [of j] using g(1) by (simp only: mult_le_cancel2 simp_thms)
  then have "(?n * to_hz + from_hz - 1) div from_hz \<le> j \<longleftrightarrow> (?n * l + m - 1) div m \<le> j" for j
    unfolding ceil_div_le [OF assms(1)] ceil_div_le [OF m] .
  then have "(?n * to_hz + from_hz - 1) div from_hz = (?n * l + m - 1) div m" by (meson order_antisym order_refl)
  then show "length (resampled F ?r (concat chunks)) = (?n * to_hz + from_hz - 1) div from_hz"
    by (simp add: resampled_def out_count_def lm)
qed

text \<open>A filter in integers, to run the model.\<close>

definition sample_floats :: "int float_ops" where
  "sample_floats = \<lparr>f_zero = 0, f_of_i16 = sint, f_mac = (\<lambda>acc tap s. acc + tap * s), f_to_i16 = word_of_int\<rparr>"

theorem resampling_ignores_chunks_witness:
  "map_option fst (process_all sample_floats (resampler_new sample_floats (\<lambda>l m i. int i) 16000 24000) [[1], [2, 3]]) =
     map_option fst (process_all sample_floats (resampler_new sample_floats (\<lambda>l m i. int i) 16000 24000) [[1, 2, 3]])
   \<and> length (resampled sample_floats (resampler_new sample_floats (\<lambda>l m i. int i) 16000 24000) [1, 2, 3]) = 5"
  using resampling_ignores_chunks [of 16000 24000 sample_floats "\<lambda>l m i. int i" "[[1], [2, 3]]"]
    resampling_ignores_chunks [of 16000 24000 sample_floats "\<lambda>l m i. int i" "[[1, 2, 3]]"]
  by (simp del: process_all.simps map_option_eq_Some)

end
