(* ===== verification/Media_Bridge.thy ===== *)
theory Media_Bridge
  imports Codec
begin

text \<open>
  The media socket of a phone leg, \<^verbatim>\<open>server/src/voip/media.rs\<close>: its frames, the voice activity of
  the far party, the detection of the byte order of linear PCM, the conversion in both
  directions and the pump that joins them. JSON and base64 are the record \<open>wire_codec\<close>; a
  message to the socket is kept as the value that is serialised. Counters that a call cannot
  overflow are naturals; log lines and metrics are left out, but for the count of
  renegotiations.
\<close>

section \<open>Frames\<close>

definition ENGINE_RATE_HZ :: nat where
  "ENGINE_RATE_HZ = 24000"

datatype Inbound =
    Connected
  | Start MediaCodec nat
  | Media ustring ustring
  | Dtmf nat
  | Stop
  | Other ustring

record RawFormat =
  rf_encoding :: "ustring option"
  rf_sample_rate :: "nat option"

record RawMedia =
  rm_payload :: "ustring option"
  rm_track :: "ustring option"

text \<open>The members of \<open>start\<close> and \<open>dtmf\<close> are options inside an optional object.\<close>

record RawFrame =
  raw_event :: ustring
  raw_start :: "RawFormat option option"
  raw_media :: "RawMedia option"
  raw_dtmf :: "ustring option option"

datatype MediaError = Malformed ustring | UnsupportedCodec ustring

definition media_error_fmt :: "MediaError \<Rightarrow> ustring" where
  "media_error_fmt e =
     (case e of
        Malformed d \<Rightarrow> ustr ''malformed media frame: '' @ d
      | UnsupportedCodec c \<Rightarrow> ustr ''unsupported media codec: '' @ c)"

text \<open>
  The libraries: \<open>raw_frame\<close> is \<open>serde_json::from_str\<close> at \<open>RawFrame\<close>, \<open>json_str\<close> the string member of
  a JSON text under a key, and base64 in both directions. An error is its message.
\<close>

record wire_codec =
  raw_frame :: "ustring \<Rightarrow> ustring + RawFrame"
  json_str :: "ustring \<Rightarrow> string \<Rightarrow> ustring option"
  b64_decode :: "ustring \<Rightarrow> ustring + byte list"
  b64_encode :: "byte list \<Rightarrow> ustring"

definition to_ascii_uppercase :: "ustring \<Rightarrow> ustring" where
  "to_ascii_uppercase s = map (\<lambda>c. if 97 \<le> c \<and> c \<le> 122 then c - 32 else c) s"

definition codec_from_name :: "ustring option \<Rightarrow> MediaError + MediaCodec" where
  "codec_from_name name =
     (case map_option to_ascii_uppercase name of
        None \<Rightarrow> Inr Pcmu
      | Some n \<Rightarrow>
          if n = ustr ''PCMU'' then Inr Pcmu
          else if n = ustr ''PCMA'' then Inr Pcma
          else if n = ustr ''L16'' then Inr L16
          else if n = ustr ''G722'' then Inr G722
          else if n = ustr ''OPUS'' then Inr Opus
          else Inl (UnsupportedCodec n))"

definition parse_inbound :: "wire_codec \<Rightarrow> ustring \<Rightarrow> MediaError + Inbound" where
  "parse_inbound W raw =
     (case raw_frame W raw of
        Inl e \<Rightarrow> Inl (Malformed e)
      | Inr f \<Rightarrow>
          if raw_event f = ustr ''connected'' then Inr Connected
          else if raw_event f = ustr ''start'' then
            (let fmt = Option.bind (raw_start f) id
             in case codec_from_name (Option.bind fmt rf_encoding) of
                  Inl e \<Rightarrow> Inl e
                | Inr codec \<Rightarrow>
                    Inr (Start codec
                      (case Option.bind fmt rf_sample_rate of
                         None \<Rightarrow> sample_rate codec
                       | Some r \<Rightarrow> if r = sample_rate codec then r else sample_rate codec)))
          else if raw_event f = ustr ''media'' then
            (case raw_media f of
               None \<Rightarrow> Inl (Malformed (ustr ''media frame without a media object''))
             | Some m \<Rightarrow>
                 Inr (Media (case rm_payload m of None \<Rightarrow> [] | Some p \<Rightarrow> p)
                   (case rm_track m of None \<Rightarrow> ustr ''inbound'' | Some t \<Rightarrow> t)))
          else if raw_event f = ustr ''dtmf'' then
            (case Option.bind (raw_dtmf f) id of
               Some (d # _) \<Rightarrow> Inr (Dtmf d)
             | _ \<Rightarrow> Inl (Malformed (ustr ''dtmf frame without a digit'')))
          else if raw_event f = ustr ''stop'' then Inr Stop
          else Inr (Other (raw_event f)))"

datatype Outbound = Out_Media ustring | Clear

text \<open>Only translated audio goes to the telephone.\<close>

definition translated_audio_payload :: "wire_codec \<Rightarrow> ustring \<Rightarrow> ustring option" where
  "translated_audio_payload W frame =
     (case json_str W frame ''type'' of
        None \<Rightarrow> None
      | Some t \<Rightarrow> if t \<noteq> ustr ''translated_audio'' then None else json_str W frame ''pcm16_b64'')"

section \<open>Voice activity of the far party\<close>

definition SPEECH_AMPLITUDE_THRESHOLD :: nat where
  "SPEECH_AMPLITUDE_THRESHOLD = 500"

definition SPEECH_HANGOVER_MS :: nat where
  "SPEECH_HANGOVER_MS = 500"

record FarPartyVad =
  vad_speaking :: bool
  vad_silence_run :: nat
  vad_hangover_samples :: nat
  vad_onset :: bool

definition vad_new :: "nat \<Rightarrow> FarPartyVad" where
  "vad_new wire_rate_hz =
     \<lparr>vad_speaking = False, vad_silence_run = 0,
      vad_hangover_samples = wire_rate_hz * SPEECH_HANGOVER_MS div 1000, vad_onset = False\<rparr>"

definition mean_abs :: "i16 list \<Rightarrow> nat" where
  "mean_abs samples = sum_list (map (\<lambda>s. nat \<bar>sint s\<bar>) samples) div length samples"

definition vad_observe :: "FarPartyVad \<Rightarrow> i16 list \<Rightarrow> FarPartyVad" where
  "vad_observe v samples =
     (if samples = [] then v
      else if mean_abs samples > SPEECH_AMPLITUDE_THRESHOLD then
        (if \<not> vad_speaking v then v\<lparr>vad_speaking := True, vad_onset := True\<rparr> else v)\<lparr>vad_silence_run := 0\<rparr>
      else if vad_speaking v then
        (let run = min (vad_silence_run v + length samples mod 4294967296) 4294967295
         in if run \<ge> vad_hangover_samples v then v\<lparr>vad_speaking := False, vad_silence_run := 0\<rparr>
            else v\<lparr>vad_silence_run := run\<rparr>)
      else v)"

definition take_onset :: "FarPartyVad \<Rightarrow> bool \<times> FarPartyVad" where
  "take_onset v = (vad_onset v, v\<lparr>vad_onset := False\<rparr>)"

section \<open>The byte order of linear PCM\<close>

definition BYTE_ORDER_MIN_EVIDENCE_FRAMES :: nat where
  "BYTE_ORDER_MIN_EVIDENCE_FRAMES = 5"

definition BYTE_ORDER_DECISIVE_RATIO :: nat where
  "BYTE_ORDER_DECISIVE_RATIO = 2"

definition BYTE_ORDER_INCONCLUSIVE_WINDOW :: nat where
  "BYTE_ORDER_INCONCLUSIVE_WINDOW = 50"

definition BYTE_ORDER_SILENT_LEG_FRAMES :: nat where
  "BYTE_ORDER_SILENT_LEG_FRAMES = 250"

datatype ByteOrder = Undetermined | Decided bool

record ByteOrderDetector =
  bo_state :: ByteOrder
  bo_evidence_frames :: nat
  bo_window_evidence_frames :: nat
  bo_frames_seen :: nat
  bo_be_total :: nat
  bo_le_total :: nat
  bo_inconclusive_windows :: nat
  bo_noted_silent_leg :: bool

definition detector_new :: ByteOrderDetector where
  "detector_new = \<lparr>bo_state = Undetermined, bo_evidence_frames = 0, bo_window_evidence_frames = 0,
     bo_frames_seen = 0, bo_be_total = 0, bo_le_total = 0, bo_inconclusive_windows = 0,
     bo_noted_silent_leg = False\<rparr>"

definition little_endian :: "ByteOrderDetector \<Rightarrow> bool" where
  "little_endian d \<longleftrightarrow> bo_state d = Decided True"

definition decide :: "bool \<Rightarrow> ByteOrderDetector \<Rightarrow> ByteOrderDetector" where
  "decide le d = d\<lparr>bo_state := Decided le\<rparr>"

definition note_inconclusive_window :: "ByteOrderDetector \<Rightarrow> ByteOrderDetector" where
  "note_inconclusive_window d = d\<lparr>bo_inconclusive_windows := bo_inconclusive_windows d + 1\<rparr>"

text \<open>\<open>u64::saturating_mul\<close>\<close>

definition saturating_mul :: "nat \<Rightarrow> nat \<Rightarrow> nat" where
  "saturating_mul a b = min (a * b) 18446744073709551615"

text \<open>The frame counted, the window halved, the silent leg noted: the parts of \<open>observe\<close>.\<close>

definition count_evidence :: "L16ByteOrderEvidence \<Rightarrow> ByteOrderDetector \<Rightarrow> ByteOrderDetector" where
  "count_evidence ev d =
     (let d = d\<lparr>bo_frames_seen := bo_frames_seen d + 1\<rparr>
      in if ev_be ev \<noteq> 0 \<or> ev_le ev \<noteq> 0
         then d\<lparr>bo_evidence_frames := bo_evidence_frames d + 1,
                bo_window_evidence_frames := bo_window_evidence_frames d + 1,
                bo_be_total := bo_be_total d + ev_be ev, bo_le_total := bo_le_total d + ev_le ev\<rparr>
         else d)"

definition halve_window :: "ByteOrderDetector \<Rightarrow> ByteOrderDetector" where
  "halve_window d =
     (if bo_window_evidence_frames d \<ge> BYTE_ORDER_INCONCLUSIVE_WINDOW
      then (note_inconclusive_window d)
             \<lparr>bo_be_total := bo_be_total d div 2, bo_le_total := bo_le_total d div 2,
              bo_evidence_frames := bo_evidence_frames d div 2, bo_window_evidence_frames := 0\<rparr>
      else d)"

definition note_silent_leg :: "ByteOrderDetector \<Rightarrow> ByteOrderDetector" where
  "note_silent_leg d =
     (if \<not> bo_noted_silent_leg d \<and> bo_evidence_frames d < BYTE_ORDER_MIN_EVIDENCE_FRAMES
         \<and> bo_frames_seen d \<ge> BYTE_ORDER_SILENT_LEG_FRAMES
      then d\<lparr>bo_noted_silent_leg := True\<rparr> else d)"

definition observe :: "ByteOrderDetector \<Rightarrow> byte list \<Rightarrow> ByteOrderDetector" where
  "observe d wire =
     (case bo_state d of
        Decided _ \<Rightarrow> d
      | Undetermined \<Rightarrow>
          let d1 = count_evidence (l16_byte_order_evidence wire) d;
              enough = bo_evidence_frames d1 \<ge> BYTE_ORDER_MIN_EVIDENCE_FRAMES
          in if enough \<and> bo_be_total d1 \<ge> saturating_mul (bo_le_total d1) BYTE_ORDER_DECISIVE_RATIO
             then decide True d1
             else if enough \<and> bo_le_total d1 \<ge> saturating_mul (bo_be_total d1) BYTE_ORDER_DECISIVE_RATIO
             then decide False d1
             else note_silent_leg (halve_window d1))"

text \<open>The summary's result: whether an undetermined order is recorded.\<close>

definition log_summary :: "ByteOrderDetector \<Rightarrow> bool \<Rightarrow> bool" where
  "log_summary d is_l16 = (case bo_state d of Decided _ \<Rightarrow> False | Undetermined \<Rightarrow> is_l16)"

section \<open>One leg\<close>

record 'f Leg =
  lg_codec :: MediaCodec
  lg_confirmed :: bool
  lg_up :: "'f Resampler"
  lg_down :: "'f Resampler"
  lg_gate :: PlaybackGate
  lg_vad :: FarPartyVad
  lg_byte_order :: ByteOrderDetector

text \<open>The filter: its arithmetic and its prototype.\<close>

type_synonym 'f filter = "'f float_ops \<times> (nat \<Rightarrow> nat \<Rightarrow> nat \<Rightarrow> 'f)"

definition leg_new :: "'f filter \<Rightarrow> MediaCodec \<Rightarrow> 'f Leg" where
  "leg_new Q codec =
     (let wire = sample_rate codec
      in \<lparr>lg_codec = codec, lg_confirmed = False,
         lg_up = resampler_new (fst Q) (snd Q) wire ENGINE_RATE_HZ,
         lg_down = resampler_new (fst Q) (snd Q) ENGINE_RATE_HZ wire,
         lg_gate = gate_new, lg_vad = vad_new wire, lg_byte_order = detector_new\<rparr>)"

definition renegotiate :: "'f filter \<Rightarrow> 'f Leg \<Rightarrow> MediaCodec \<Rightarrow> bool \<times> 'f Leg" where
  "renegotiate Q leg codec =
     (let leg = leg\<lparr>lg_confirmed := True\<rparr>; wire = sample_rate codec
      in if codec = lg_codec leg then (False, leg)
         else (True, leg\<lparr>lg_codec := codec,
                         lg_up := resampler_new (fst Q) (snd Q) wire ENGINE_RATE_HZ,
                         lg_down := resampler_new (fst Q) (snd Q) ENGINE_RATE_HZ wire,
                         lg_vad := vad_new wire, lg_byte_order := detector_new\<rparr>))"

text \<open>\<open>{:?}\<close> of a \<open>CodecError\<close>\<close>

fun codec_debug :: "MediaCodec \<Rightarrow> string" where
  "codec_debug Pcmu = ''Pcmu''"
| "codec_debug Pcma = ''Pcma''"
| "codec_debug G722 = ''G722''"
| "codec_debug Opus = ''Opus''"
| "codec_debug L16 = ''L16''"

fun codec_error_debug :: "CodecError \<Rightarrow> ustring" where
  "codec_error_debug TruncatedFrame = ustr ''TruncatedFrame''"
| "codec_error_debug (Unsupported c) = ustr (''Unsupported { codec: '' @ codec_debug c @ '' }'')"

text \<open>\<open>None\<close> where the resampler does not return.\<close>

definition decode_up ::
  "wire_codec \<Rightarrow> 'f filter \<Rightarrow> 'f Leg \<Rightarrow> ustring \<Rightarrow> ((MediaError + byte list) \<times> 'f Leg) option" where
  "decode_up W Q leg payload_b64 =
     (case b64_decode W payload_b64 of
        Inl e \<Rightarrow> Some (Inl (Malformed e), leg)
      | Inr bytes \<Rightarrow>
          let (bytes, leg) =
                (if lg_codec leg = L16
                 then let leg = leg\<lparr>lg_byte_order := observe (lg_byte_order leg) bytes\<rparr>
                      in (if little_endian (lg_byte_order leg) then swap_byte_pairs bytes else bytes, leg)
                 else (bytes, leg))
          in case decode (lg_codec leg) bytes of
               Inl e \<Rightarrow> Some (Inl (Malformed (codec_error_debug e)), leg)
             | Inr samples \<Rightarrow>
                 let leg = leg\<lparr>lg_vad := vad_observe (lg_vad leg) samples\<rparr>
                 in map_option (\<lambda>(resampled, up). (Inr (concat (map to_le_bytes resampled)), leg\<lparr>lg_up := up\<rparr>))
                      (process (fst Q) (lg_up leg) samples))"

definition encode_down ::
  "wire_codec \<Rightarrow> 'f filter \<Rightarrow> 'f Leg \<Rightarrow> byte list \<Rightarrow> ((MediaError + ustring) \<times> 'f Leg) option" where
  "encode_down W Q leg pcm16_le =
     (if length pcm16_le mod 2 \<noteq> 0 then Some (Inl (Malformed (ustr ''odd-length PCM16 buffer'')), leg)
      else
        let samples = map (\<lambda>(lo, hi). from_le_bytes lo hi) (byte_pairs pcm16_le)
        in map_option (\<lambda>(resampled, down).
             let leg = leg\<lparr>lg_down := down\<rparr>
             in case encode (lg_codec leg) resampled of
                  Inl e \<Rightarrow> (Inl (Malformed (codec_error_debug e)), leg)
                | Inr wire \<Rightarrow>
                    (Inr (b64_encode W
                       (if lg_codec leg = L16 \<and> little_endian (lg_byte_order leg)
                        then swap_byte_pairs wire else wire)), leg))
             (process (fst Q) (lg_down leg) samples))"

definition take_speech_onset :: "'f Leg \<Rightarrow> bool \<times> 'f Leg" where
  "take_speech_onset leg = (let (o', v) = take_onset (lg_vad leg) in (o', leg\<lparr>lg_vad := v\<rparr>))"

definition note_unconfirmed :: "'f Leg \<Rightarrow> bool \<times> 'f Leg" where
  "note_unconfirmed leg = (if lg_confirmed leg then (False, leg) else (True, leg\<lparr>lg_confirmed := True\<rparr>))"

definition log_byte_order_summary :: "'f Leg \<Rightarrow> bool" where
  "log_byte_order_summary leg = log_summary (lg_byte_order leg) (lg_codec leg = L16)"

section \<open>The pump\<close>

datatype PumpExit = ProviderEnded | RoomEnded

text \<open>
  What the pump has done: the frames sent to the socket, the audio and the digits offered to
  their channels (\<open>try_send\<close> drops them when a channel is full), the renegotiations counted.
\<close>

record 'f Bridge =
  br_leg :: "'f Leg"
  br_socket :: "Outbound list"
  br_to_engine :: "byte list list"
  br_digits :: "nat list"
  br_renegotiations :: nat

text \<open>What \<open>select!\<close> receives.\<close>

datatype pump_event = From_socket ustring | Socket_closed | From_room ustring | Room_closed

datatype 'f step = Continue "'f Bridge" | Return "MediaError + PumpExit" "'f Bridge"

definition on_media ::
  "wire_codec \<Rightarrow> 'f filter \<Rightarrow> ustring \<Rightarrow> 'f Bridge \<Rightarrow> 'f step option" where
  "on_media W Q payload_b64 b =
     (let leg = snd (note_unconfirmed (br_leg b))
      in map_option (\<lambda>(out, leg).
           case out of
             Inl e \<Rightarrow> Return (Inl e) (b\<lparr>br_leg := leg\<rparr>)
           | Inr pcm \<Rightarrow>
               let (onset, leg) = take_speech_onset leg;
                   (clear, gate) = (if onset then barge_in (lg_gate leg) else (False, lg_gate leg))
               in Continue (b\<lparr>br_leg := leg\<lparr>lg_gate := gate\<rparr>,
                              br_socket := br_socket b @ (if clear then [Clear] else []),
                              br_to_engine := br_to_engine b @ [pcm]\<rparr>))
           (decode_up W Q leg payload_b64))"

definition on_room_frame ::
  "wire_codec \<Rightarrow> 'f filter \<Rightarrow> ustring \<Rightarrow> 'f Bridge \<Rightarrow> 'f step option" where
  "on_room_frame W Q frame b =
     (case translated_audio_payload W frame of
        None \<Rightarrow> Some (Continue b)
      | Some pcm_b64 \<Rightarrow>
          (case b64_decode W pcm_b64 of
             Inl _ \<Rightarrow> Some (Continue b)
           | Inr pcm \<Rightarrow>
               map_option (\<lambda>(out, leg).
                 case out of
                   Inl e \<Rightarrow> Return (Inl e) (b\<lparr>br_leg := leg\<rparr>)
                 | Inr payload \<Rightarrow>
                     let (ok, gate) = gate_accept (lg_gate leg) (g_generation (lg_gate leg)) (length payload)
                     in Continue (b\<lparr>br_leg := leg\<lparr>lg_gate := gate\<rparr>,
                                    br_socket := br_socket b @ (if ok then [Out_Media payload] else [])\<rparr>))
                 (encode_down W Q (br_leg b) pcm)))"

definition pump_step ::
  "wire_codec \<Rightarrow> 'f filter \<Rightarrow> pump_event \<Rightarrow> 'f Bridge \<Rightarrow> 'f step option" where
  "pump_step W Q ev b =
     (case ev of
        Socket_closed \<Rightarrow> Some (Return (Inr ProviderEnded) b)
      | From_socket raw \<Rightarrow>
          (case parse_inbound W raw of
             Inl e \<Rightarrow> Some (Return (Inl e) b)
           | Inr f \<Rightarrow>
               (case f of
                  Media payload_b64 _ \<Rightarrow> on_media W Q payload_b64 b
                | Dtmf digit \<Rightarrow> Some (Continue (b\<lparr>br_digits := br_digits b @ [digit]\<rparr>))
                | Stop \<Rightarrow> Some (Return (Inr ProviderEnded) b)
                | Start codec _ \<Rightarrow>
                    (let (changed, leg) = renegotiate Q (br_leg b) codec
                     in Some (Continue (b\<lparr>br_leg := leg,
                          br_renegotiations := br_renegotiations b + (if changed then 1 else 0)\<rparr>)))
                | Connected \<Rightarrow> Some (Continue b)
                | Other _ \<Rightarrow> Some (Continue b)))
      | Room_closed \<Rightarrow> Some (Return (Inr RoomEnded) b)
      | From_room frame \<Rightarrow> on_room_frame W Q frame b)"

text \<open>The loop over what arrives; \<open>Continue\<close> at the end of the list is a pump still running.\<close>

fun pump :: "wire_codec \<Rightarrow> 'f filter \<Rightarrow> pump_event list \<Rightarrow> 'f Bridge \<Rightarrow> 'f step option" where
  "pump W Q [] b = Some (Continue b)"
| "pump W Q (ev # evs) b =
     (case pump_step W Q ev b of
        None \<Rightarrow> None
      | Some (Return out b1) \<Rightarrow> Some (Return out b1)
      | Some (Continue b1) \<Rightarrow> pump W Q evs b1)"

definition bridge_new :: "'f filter \<Rightarrow> MediaCodec \<Rightarrow> 'f Bridge" where
  "bridge_new Q codec = \<lparr>br_leg = leg_new Q codec, br_socket = [], br_to_engine = [], br_digits = [],
     br_renegotiations = 0\<rparr>"

section \<open>The leg keeps its rates, and every step returns\<close>

lemma sample_rate_cases: "sample_rate c = 8000 \<or> sample_rate c = 16000"
  by (cases c) simp_all

lemma rates_positive [simp]:
  "0 < sample_rate c" "0 < ENGINE_RATE_HZ" "sample_rate c \<noteq> ENGINE_RATE_HZ" "ENGINE_RATE_HZ \<noteq> sample_rate c"
  using sample_rate_cases [of c] by (auto simp: ENGINE_RATE_HZ_def)

definition up_new :: "'f filter \<Rightarrow> MediaCodec \<Rightarrow> 'f Resampler" where
  "up_new Q c = resampler_new (fst Q) (snd Q) (sample_rate c) ENGINE_RATE_HZ"

definition down_new :: "'f filter \<Rightarrow> MediaCodec \<Rightarrow> 'f Resampler" where
  "down_new Q c = resampler_new (fst Q) (snd Q) ENGINE_RATE_HZ (sample_rate c)"

lemma filter_rates [simp]:
  "rates_ok (up_new Q c)" "rates_ok (down_new Q c)"
  "\<not> is_identity (up_new Q c)" "\<not> is_identity (down_new Q c)"
  "after_input (up_new Q c) [] = up_new Q c" "after_input (down_new Q c) [] = down_new Q c"
  unfolding up_new_def down_new_def
  using resampler_new_rates [of "sample_rate c" ENGINE_RATE_HZ "fst Q" "snd Q"]
    resampler_new_rates [of ENGINE_RATE_HZ "sample_rate c" "fst Q" "snd Q"]
    rates_positive(1,3) [of c]
  by (simp_all add: is_identity_def)

text \<open>The samples each filter has seen since the codec was chosen; the onset flag is down.\<close>

definition leg_ok :: "'f filter \<Rightarrow> 'f Leg \<Rightarrow> bool" where
  "leg_ok Q leg \<longleftrightarrow>
     (\<exists>s t. lg_up leg = after_input (up_new Q (lg_codec leg)) s \<and> lg_down leg = after_input (down_new Q (lg_codec leg)) t)
     \<and> \<not> vad_onset (lg_vad leg)
     \<and> vad_hangover_samples (lg_vad leg) = sample_rate (lg_codec leg) div 2
     \<and> (lg_codec leg \<noteq> L16 \<longrightarrow> lg_byte_order leg = detector_new)"

lemma vad_hangover [simp]:
  "vad_hangover_samples (vad_new w) = w div 2" "vad_hangover_samples (vad_observe v x) = vad_hangover_samples v"
  "\<not> vad_onset (vad_new w)"
  by (simp_all add: vad_new_def vad_observe_def SPEECH_HANGOVER_MS_def Let_def)

lemma leg_new_ok: "leg_ok Q (leg_new Q c)"
  unfolding leg_ok_def
  by (auto simp: leg_new_def Let_def up_new_def [symmetric] down_new_def [symmetric]
      intro!: exI [of _ "[]"])

lemma renegotiate_ok: "leg_ok Q leg \<Longrightarrow> leg_ok Q (snd (renegotiate Q leg c))"
proof (cases "c = lg_codec leg")
  case True
  assume "leg_ok Q leg"
  with True show ?thesis by (simp add: renegotiate_def leg_ok_def Let_def)
next
  case False
  then show ?thesis
    by (auto simp: renegotiate_def leg_ok_def Let_def up_new_def [symmetric] down_new_def [symmetric]
        intro!: exI [of _ "[]"])
qed

lemma note_unconfirmed_ok: "leg_ok Q leg \<Longrightarrow> leg_ok Q (snd (note_unconfirmed leg))"
  by (simp add: note_unconfirmed_def leg_ok_def)

text \<open>A leg whose onset flag may be up.\<close>

definition heard_ok :: "'f filter \<Rightarrow> 'f Leg \<Rightarrow> bool" where
  "heard_ok Q leg \<longleftrightarrow> leg_ok Q (snd (take_speech_onset leg))"

lemma leg_ok_heard: "leg_ok Q leg \<Longrightarrow> heard_ok Q leg"
  by (simp add: heard_ok_def leg_ok_def take_speech_onset_def take_onset_def)

lemma decode_up_returns:
  assumes "leg_ok Q leg"
  shows "\<exists>out leg1. decode_up W Q leg p = Some (out, leg1) \<and> heard_ok Q leg1"
proof -
  obtain s t where st: "lg_up leg = after_input (up_new Q (lg_codec leg)) s"
    "lg_down leg = after_input (down_new Q (lg_codec leg)) t"
    using assms by (auto simp: leg_ok_def)
  show ?thesis
  proof (cases "b64_decode W p")
    case (Inl e)
    with leg_ok_heard [OF assms] show ?thesis by (simp add: decode_up_def)
  next
    case (Inr bytes)
    define leg1 where "leg1 = (if lg_codec leg = L16
      then leg\<lparr>lg_byte_order := observe (lg_byte_order leg) bytes\<rparr> else leg)"
    define bytes1 where "bytes1 = (if lg_codec leg = L16 \<and> little_endian (lg_byte_order leg1)
      then swap_byte_pairs bytes else bytes)"
    have leg1: "lg_codec leg1 = lg_codec leg" "lg_up leg1 = lg_up leg" "lg_down leg1 = lg_down leg"
      "lg_vad leg1 = lg_vad leg" "lg_codec leg \<noteq> L16 \<longrightarrow> lg_byte_order leg1 = detector_new"
      using assms by (simp_all add: leg1_def leg_ok_def)
    have "decode_up W Q leg p =
      (case decode (lg_codec leg1) bytes1 of
         Inl e \<Rightarrow> Some (Inl (Malformed (codec_error_debug e)), leg1)
       | Inr samples \<Rightarrow>
           let leg = leg1\<lparr>lg_vad := vad_observe (lg_vad leg1) samples\<rparr>
           in map_option (\<lambda>(resampled, up). (Inr (concat (map to_le_bytes resampled)), leg\<lparr>lg_up := up\<rparr>))
                (process (fst Q) (lg_up leg) samples))"
    proof (cases "lg_codec leg = L16")
      case True
      with Inr show ?thesis by (simp add: decode_up_def leg1_def bytes1_def)
    next
      case False
      then have same: "leg1 = leg" "bytes1 = bytes" by (simp_all add: leg1_def bytes1_def)
      show ?thesis unfolding same using Inr False by (simp add: decode_up_def)
    qed
    moreover have "heard_ok Q leg1"
      using leg1 assms st by (auto simp: heard_ok_def leg_ok_def take_speech_onset_def take_onset_def)
    moreover have "heard_ok Q (leg1\<lparr>lg_vad := vad_observe (lg_vad leg1) x, lg_up := after_input (up_new Q (lg_codec leg)) (s @ x)\<rparr>)" for x
      using leg1 assms st by (simp add: heard_ok_def leg_ok_def take_speech_onset_def take_onset_def) blast
    ultimately show ?thesis
      using leg1(2) st(1) by (simp add: process_after Let_def split: sum.split)
  qed
qed

lemma encode_down_returns:
  assumes "leg_ok Q leg"
  shows "\<exists>out leg1. encode_down W Q leg p = Some (out, leg1) \<and> leg_ok Q leg1 \<and> lg_gate leg1 = lg_gate leg
     \<and> lg_codec leg1 = lg_codec leg"
proof -
  obtain s t where st: "lg_up leg = after_input (up_new Q (lg_codec leg)) s"
    "lg_down leg = after_input (down_new Q (lg_codec leg)) t"
    using assms by (auto simp: leg_ok_def)
  have "leg_ok Q (leg\<lparr>lg_down := after_input (down_new Q (lg_codec leg)) (t @ x)\<rparr>)" for x
    using assms st by (simp add: leg_ok_def) blast
  with assms st(2) show ?thesis
    by (simp add: encode_down_def process_after Let_def split: sum.split)
qed

definition step_ok :: "'f filter \<Rightarrow> 'f step option \<Rightarrow> bool" where
  "step_ok Q st \<longleftrightarrow>
     (case st of None \<Rightarrow> False | Some (Continue b) \<Rightarrow> leg_ok Q (br_leg b) | Some (Return out b) \<Rightarrow> heard_ok Q (br_leg b))"

lemma leg_gate_ok [simp]: "leg_ok Q (leg\<lparr>lg_gate := g\<rparr>) = leg_ok Q leg"
  by (simp add: leg_ok_def)

lemma pump_step_ok:
  fixes Q :: "'f filter"
  assumes "leg_ok Q (br_leg b)"
  shows "step_ok Q (pump_step W Q ev b)"
proof -
  have media: "step_ok Q (on_media W Q p b)" for p
  proof -
    obtain out leg1 where "decode_up W Q (snd (note_unconfirmed (br_leg b))) p = Some (out, leg1)" "heard_ok Q leg1"
      using decode_up_returns [OF note_unconfirmed_ok [OF assms]] by blast
    then show ?thesis
      by (cases "take_speech_onset leg1")
        (auto simp: on_media_def step_ok_def heard_ok_def split: sum.split prod.split)
  qed
  have room: "step_ok Q (on_room_frame W Q f b)" for f
  proof -
    have "\<exists>out leg1. encode_down W Q (br_leg b) pcm = Some (out, leg1) \<and> leg_ok Q leg1" for pcm
      using encode_down_returns [OF assms] by blast
    then obtain out leg1 where "encode_down W Q (br_leg b) pcm = Some (out pcm, leg1 pcm)"
      "leg_ok Q (leg1 pcm)" for pcm by metis
    then show ?thesis
      using assms leg_ok_heard [where 'a = 'f]
      by (auto simp: on_room_frame_def step_ok_def split: option.split sum.split prod.split)
  qed
  show ?thesis
    unfolding pump_step_def
    using assms leg_ok_heard [OF assms] renegotiate_ok [OF assms] media room
    by (auto simp: step_ok_def split: pump_event.split sum.split Inbound.split prod.split)
      (metis snd_conv)
qed

text \<open>
  C36: The pump of a phone leg always comes back: whatever frames arrive, every step returns,
  and the leg keeps the conversion its codec needs: resamplers between the codec's rate and
  the engines', a hangover of half a second, and no byte-order evidence unless the codec is
  linear.
\<close>

theorem pump_total:
  "\<exists>st. pump W Q evs (bridge_new Q c) = Some st
     \<and> (let leg = br_leg (case st of Continue b \<Rightarrow> b | Return _ b \<Rightarrow> b); wire = sample_rate (lg_codec leg)
        in (rs_from_hz (lg_up leg), rs_to_hz (lg_up leg)) = (wire, 24000)
           \<and> (rs_from_hz (lg_down leg), rs_to_hz (lg_down leg)) = (24000, wire)
           \<and> vad_hangover_samples (lg_vad leg) = wire div 2
           \<and> (lg_codec leg = L16 \<or> lg_byte_order leg = detector_new))"
proof -
  have ok: "step_ok Q (pump W Q evs b)" if "leg_ok Q (br_leg b)" for b
    using that
  proof (induction evs arbitrary: b)
    case Nil
    then show ?case by (simp add: step_ok_def)
  next
    case (Cons ev evs)
    show ?case
    proof (cases "pump_step W Q ev b")
      case None
      with pump_step_ok [OF Cons.prems, of W ev] show ?thesis by (simp add: step_ok_def)
    next
      case (Some st)
      with pump_step_ok [OF Cons.prems, of W ev] Cons.IH show ?thesis
        by (cases st) (simp_all add: step_ok_def)
    qed
  qed
  have "step_ok Q (pump W Q evs (bridge_new Q c))"
    by (rule ok) (simp add: bridge_new_def leg_new_ok)
  then obtain st where st: "pump W Q evs (bridge_new Q c) = Some st"
    "heard_ok Q (br_leg (case st of Continue b \<Rightarrow> b | Return _ b \<Rightarrow> b))"
    unfolding step_ok_def by (cases "pump W Q evs (bridge_new Q c)") (auto split: step.splits intro: leg_ok_heard)
  from st(2) show ?thesis
    by (intro exI [of _ st])
      (auto simp: st(1) Let_def heard_ok_def leg_ok_def take_speech_onset_def take_onset_def after_input_def
        up_new_def down_new_def ENGINE_RATE_HZ_def)
qed

section \<open>From the telephone to the engine\<close>

lemma on_media_companded:
  assumes "c = Pcmu \<or> c = Pcma" and "lg_codec (br_leg b) = c" and "lg_up (br_leg b) = after_input (up_new Q c) s"
    and "b64_decode W p = Inr bytes" and "decode c bytes = Inr x"
  shows "\<exists>b'. on_media W Q p b = Some (Continue b') \<and> lg_codec (br_leg b') = c
     \<and> lg_up (br_leg b') = after_input (up_new Q c) (s @ x)
     \<and> br_to_engine b' = br_to_engine b @ [concat (map to_le_bytes
           (map (conv_at (fst Q) (up_new Q c) (s @ x))
             [out_count (up_new Q c) (length s)..<out_count (up_new Q c) (length (s @ x))]))]"
proof -
  have "c \<noteq> L16" using assms(1) by auto
  define leg where "leg = snd (note_unconfirmed (br_leg b))"
  have leg: "lg_codec leg = c" "lg_up leg = after_input (up_new Q c) s"
    using assms(2,3) by (simp_all add: leg_def note_unconfirmed_def)
  with \<open>c \<noteq> L16\<close> assms(4,5)
  have "decode_up W Q leg p = Some (Inr (concat (map to_le_bytes
       (map (conv_at (fst Q) (up_new Q c) (s @ x))
         [out_count (up_new Q c) (length s)..<out_count (up_new Q c) (length (s @ x))]))),
     leg\<lparr>lg_vad := vad_observe (lg_vad leg) x, lg_up := after_input (up_new Q c) (s @ x)\<rparr>)"
    by (simp add: decode_up_def process_after)
  with leg show ?thesis
    by (auto simp: on_media_def leg_def [symmetric] take_speech_onset_def take_onset_def Let_def split: prod.split)
qed

text \<open>
  C26: The engine hears one stream: for a companded leg that receives media frames, however the
  carrier cuts them, what is handed to the engine is the little-endian form of one resampling
  of all the decoded bytes to 24 kHz, in their order and with nothing lost between frames.
\<close>

theorem phone_audio_is_one_stream:
  assumes "list_all2 (\<lambda>raw bytes. \<exists>p t. parse_inbound W raw = Inr (Media p t) \<and> b64_decode W p = Inr bytes)
      raws payloads"
    and "c = Pcmu \<or> c = Pcma"
  shows "\<exists>b. pump W Q (map From_socket raws) (bridge_new Q c) = Some (Continue b)
     \<and> concat (br_to_engine b) = concat (map to_le_bytes
          (resampled (fst Q) (resampler_new (fst Q) (snd Q) 8000 24000)
             (map (if c = Pcmu then ulaw_to_pcm16 else alaw_to_pcm16) (concat payloads))))"
proof -
  let ?f = "if c = Pcmu then ulaw_to_pcm16 else alaw_to_pcm16" and ?r = "up_new Q c"
  have "\<exists>b'. pump W Q (map From_socket raws) b = Some (Continue b')
      \<and> concat (br_to_engine b') = concat (map to_le_bytes (resampled (fst Q) ?r (s @ map ?f (concat payloads))))"
    if "lg_codec (br_leg b) = c" "lg_up (br_leg b) = after_input ?r s"
      "concat (br_to_engine b) = concat (map to_le_bytes (resampled (fst Q) ?r s))" for b s
    using assms(1) that
  proof (induction raws payloads arbitrary: b s rule: list_all2_induct)
    case (Cons raw raws bytes payloads)
    obtain p t where p: "parse_inbound W raw = Inr (Media p t)" "b64_decode W p = Inr bytes"
      using Cons.hyps(1) by blast
    have dec: "decode c bytes = Inr (map ?f bytes)" using assms(2) by auto
    obtain b1 where b1: "on_media W Q p b = Some (Continue b1)" "lg_codec (br_leg b1) = c"
      "lg_up (br_leg b1) = after_input ?r (s @ map ?f bytes)"
      "br_to_engine b1 = br_to_engine b @ [concat (map to_le_bytes (map (conv_at (fst Q) ?r (s @ map ?f bytes))
         [out_count ?r (length s)..<out_count ?r (length (s @ map ?f bytes))]))]"
      using on_media_companded [OF assms(2) Cons.prems(1,2) p(2) dec] by blast
    have "concat (br_to_engine b1) = concat (map to_le_bytes (resampled (fst Q) ?r (s @ map ?f bytes)))"
      unfolding resampled_append [OF filter_rates(1), of "fst Q" Q c s] b1(4) using Cons.prems(3) by simp
    from Cons.IH [OF b1(2,3) this] obtain b2 where
      "pump W Q (map From_socket raws) b1 = Some (Continue b2)"
      "concat (br_to_engine b2) = concat (map to_le_bytes (resampled (fst Q) ?r (s @ map ?f bytes @ map ?f (concat payloads))))"
      by auto
    moreover have "pump_step W Q (From_socket raw) b = Some (Continue b1)"
      using p(1) b1(1) by (simp add: pump_step_def)
    ultimately show ?case by (auto simp del: map_append simp flip: map_append)
  qed simp
  moreover have "resampled (fst Q) ?r [] = []"
    using filter_rates(1) [of Q c] by (simp add: resampled_def out_count_def rates_ok_def)
  moreover have "lg_codec (br_leg (bridge_new Q c)) = c" "lg_up (br_leg (bridge_new Q c)) = after_input ?r []"
    "br_to_engine (bridge_new Q c) = []"
    by (simp_all add: bridge_new_def leg_new_def Let_def up_new_def [symmetric])
  moreover have "?r = resampler_new (fst Q) (snd Q) 8000 24000"
    using assms(2) by (auto simp: up_new_def ENGINE_RATE_HZ_def)
  ultimately show ?thesis by (metis append_Nil concat.simps(1) list.simps(8))
qed

section \<open>The detector has no favourite\<close>

definition mirror :: "ByteOrderDetector \<Rightarrow> ByteOrderDetector" where
  "mirror d = d\<lparr>bo_state := (case bo_state d of Undetermined \<Rightarrow> Undetermined | Decided le \<Rightarrow> Decided (\<not> le)),
               bo_be_total := bo_le_total d, bo_le_total := bo_be_total d\<rparr>"

text \<open>
  What excludes a tie, and a saturated product: the totals account for the evidence frames,
  and grow by at most 65535 for each byte.
\<close>

definition weighed :: "nat \<Rightarrow> ByteOrderDetector \<Rightarrow> bool" where
  "weighed n d \<longleftrightarrow>
     bo_evidence_frames d \<le> bo_be_total d + bo_le_total d + 2
     \<and> bo_be_total d + bo_le_total d \<le> 131070 * n"

lemma sint_diff: "nat \<bar>sint (a :: i16) - sint (b :: i16)\<bar> \<le> 65535"
  using sint_i16_range [of a] sint_i16_range [of b] by linarith

lemma evidence_bound:
  "ev_be (evidence_loop ps (Some (sint (a :: i16), sint (b :: i16))) ev) \<le> ev_be ev + 65535 * length ps
   \<and> ev_le (evidence_loop ps (Some (sint a, sint b)) ev) \<le> ev_le ev + 65535 * length ps"
proof (induction ps arbitrary: a b ev)
  case (Cons p ps)
  obtain x y where p: "p = (x, y)" by fastforce
  have "nat \<bar>sint (from_be_bytes x y) - sint a\<bar> \<le> 65535" "nat \<bar>sint (from_le_bytes x y) - sint b\<bar> \<le> 65535"
    by (rule sint_diff)+
  then show ?case
    using Cons.IH [of "from_be_bytes x y" "from_le_bytes x y" "ev\<lparr>ev_be := ev_be ev + nat \<bar>sint (from_be_bytes x y) - sint a\<bar>,
      ev_le := ev_le ev + nat \<bar>sint (from_le_bytes x y) - sint b\<bar>, ev_deltas := ev_deltas ev + 1\<rparr>"]
    by (simp add: p Let_def)
qed simp

lemma evidence_weight:
  "ev_be (l16_byte_order_evidence w) + ev_le (l16_byte_order_evidence w) \<le> 131070 * length w"
proof -
  have len: "length (byte_pairs w) \<le> length w" by (induction w rule: byte_pairs.induct) auto
  show ?thesis
  proof (cases "byte_pairs w")
    case Nil
    then show ?thesis by (simp add: l16_byte_order_evidence_def)
  next
    case (Cons p ps)
    obtain x y where p: "p = (x, y)" by fastforce
    from Cons len have "length ps \<le> length w" by simp
    then show ?thesis
      using evidence_bound [of ps "from_be_bytes x y" "from_le_bytes x y" "\<lparr>ev_be = 0, ev_le = 0, ev_deltas = 0\<rparr>"]
      by (simp add: l16_byte_order_evidence_def Cons p Let_def)
  qed
qed

lemma evidence_swapped:
  "ev_be (l16_byte_order_evidence (swap_byte_pairs w)) = ev_le (l16_byte_order_evidence w)"
  "ev_le (l16_byte_order_evidence (swap_byte_pairs w)) = ev_be (l16_byte_order_evidence w)"
  using swap_exchanges_evidence [of w] by (simp_all add: l16_byte_order_roughness_def Let_def)

lemma count_mirror:
  "count_evidence (l16_byte_order_evidence (swap_byte_pairs w)) (mirror d) =
     mirror (count_evidence (l16_byte_order_evidence w) d)"
  by (simp add: count_evidence_def mirror_def evidence_swapped Let_def disj_commute)

lemma halve_mirror: "halve_window (mirror d) = mirror (halve_window d)"
  by (simp add: halve_window_def mirror_def note_inconclusive_window_def)

lemma silent_mirror: "note_silent_leg (mirror d) = mirror (note_silent_leg d)"
  by (simp add: note_silent_leg_def mirror_def)

lemma mirror_sel [simp]:
  "bo_evidence_frames (mirror d) = bo_evidence_frames d" "bo_be_total (mirror d) = bo_le_total d"
  "bo_le_total (mirror d) = bo_be_total d"
  "bo_state (mirror d) = Undetermined \<longleftrightarrow> bo_state d = Undetermined"
  by (simp_all add: mirror_def split: ByteOrder.splits)

lemma count_weighed:
  "weighed n d \<Longrightarrow> weighed (n + length w) (count_evidence (l16_byte_order_evidence w) d)"
  using evidence_weight [of w] by (auto simp: weighed_def count_evidence_def Let_def distrib_left)

lemma halve_weighed: "weighed n d \<Longrightarrow> weighed n (note_silent_leg (halve_window d))"
proof -
  assume "weighed n d"
  moreover have "e div 2 \<le> b div 2 + l div 2 + 2" if "e \<le> b + l + 2" for e b l :: nat using that by linarith
  moreover have "b div 2 + l div 2 \<le> m" if "b + l \<le> m" for b l m :: nat using that by linarith
  ultimately show ?thesis
    by (auto simp: weighed_def halve_window_def note_silent_leg_def note_inconclusive_window_def)
qed

lemma no_tie:
  assumes "weighed n d" "n < 2 ^ 46" "BYTE_ORDER_MIN_EVIDENCE_FRAMES \<le> bo_evidence_frames d"
    and "bo_be_total d \<ge> saturating_mul (bo_le_total d) BYTE_ORDER_DECISIVE_RATIO"
  shows "\<not> bo_le_total d \<ge> saturating_mul (bo_be_total d) BYTE_ORDER_DECISIVE_RATIO"
proof -
  have "bo_be_total d + bo_le_total d < 2 ^ 63" "3 \<le> bo_be_total d + bo_le_total d"
    using assms(1-3) by (auto simp: weighed_def BYTE_ORDER_MIN_EVIDENCE_FRAMES_def)
  then show ?thesis
    using assms(4) by (simp add: saturating_mul_def BYTE_ORDER_DECISIVE_RATIO_def)
qed

lemma observe_mirror:
  assumes "bo_state d = Undetermined \<Longrightarrow> weighed n d" "n + length w < 2 ^ 46"
  shows "observe (mirror d) (swap_byte_pairs w) = mirror (observe d w)
     \<and> (bo_state (observe d w) = Undetermined \<longrightarrow> weighed (n + length w) (observe d w))"
proof (cases "bo_state d")
  case (Decided le)
  then show ?thesis by (simp add: observe_def mirror_def)
next
  case Undetermined
  define d1 where "d1 = count_evidence (l16_byte_order_evidence w) d"
  have w1: "weighed (n + length w) d1" unfolding d1_def using assms(1) Undetermined by (simp add: count_weighed)
  have u: "bo_state (mirror d) = Undetermined" using Undetermined by simp
  have s1: "bo_state d1 = Undetermined" using Undetermined by (simp add: d1_def count_evidence_def Let_def)
  have dec: "decide b (mirror d1) = mirror (decide (\<not> b) d1)" for b
    by (simp add: decide_def mirror_def)
  show ?thesis
    unfolding observe_def u Undetermined ByteOrder.case Let_def count_mirror d1_def [symmetric] mirror_sel
      halve_mirror silent_mirror dec
    using no_tie [OF w1 assms(2)] halve_weighed [OF w1]
    by (auto simp: decide_def)
qed

text \<open>
  The detector has no favourite and never changes its mind: fed the same audio with the
  bytes of every sample exchanged, a leg decides the opposite at the same frame, or stays
  undetermined as long; once it has decided, no later frame changes the decision.
\<close>

theorem detector_unbiased:
  assumes "sum_list (map length frames) < 2 ^ 46"
  shows "bo_state (foldl observe detector_new (map swap_byte_pairs frames)) =
     (case bo_state (foldl observe detector_new frames) of
        Undetermined \<Rightarrow> Undetermined | Decided le \<Rightarrow> Decided (\<not> le))
   \<and> list_all (\<lambda>k. case bo_state (foldl observe detector_new (take k frames)) of
        Undetermined \<Rightarrow> True
      | Decided le \<Rightarrow> bo_state (foldl observe detector_new frames) = Decided le) [0..<length frames]"
proof
  have "foldl observe (mirror d) (map swap_byte_pairs frames) = mirror (foldl observe d frames)"
    if "bo_state d = Undetermined \<Longrightarrow> weighed n d" "n + sum_list (map length frames) < 2 ^ 46" for n d
    using that
  proof (induction frames arbitrary: n d)
    case (Cons w ws)
    have "n + length w < 2 ^ 46" using Cons.prems(2) by simp
    from observe_mirror [OF Cons.prems(1) this] Cons.IH [of "observe d w" "n + length w"] Cons.prems(2)
    show ?case by (simp add: add.assoc)
  qed simp
  from this [of detector_new 0] assms
  have "foldl observe (mirror detector_new) (map swap_byte_pairs frames) = mirror (foldl observe detector_new frames)"
    by (simp add: weighed_def detector_new_def)
  moreover have "mirror detector_new = detector_new" by (simp add: mirror_def detector_new_def)
  ultimately show "bo_state (foldl observe detector_new (map swap_byte_pairs frames)) =
     (case bo_state (foldl observe detector_new frames) of
        Undetermined \<Rightarrow> Undetermined | Decided le \<Rightarrow> Decided (\<not> le))"
    by (simp add: mirror_def)
  have latch: "bo_state d = Decided le \<Longrightarrow> foldl observe d ws = d" for d le ws
    by (induction ws) (simp_all add: observe_def)
  have "foldl observe detector_new frames = foldl observe (foldl observe detector_new (take k frames)) (drop k frames)" for k
    by (metis append_take_drop_id foldl_append)
  then show "list_all (\<lambda>k. case bo_state (foldl observe detector_new (take k frames)) of
        Undetermined \<Rightarrow> True
      | Decided le \<Rightarrow> bo_state (foldl observe detector_new frames) = Decided le) [0..<length frames]"
    using latch by (auto simp: list_all_iff split: ByteOrder.split) metis
qed

section \<open>Runs where the bridge does not do what it says\<close>

lemma pump_append:
  "pump W Q (evs @ evs') b =
     (case pump W Q evs b of
        None \<Rightarrow> None | Some (Return out b1) \<Rightarrow> Some (Return out b1) | Some (Continue b1) \<Rightarrow> pump W Q evs' b1)"
  by (induction evs arbitrary: b) (simp_all split: option.split step.split)

lemma pump_leg_ok:
  assumes "pump W Q evs b = Some (Continue b1)" "leg_ok Q (br_leg b)"
  shows "leg_ok Q (br_leg b1)"
  using assms
proof (induction evs arbitrary: b)
  case (Cons ev evs)
  with pump_step_ok [OF Cons.prems(2), of W ev] show ?case
    by (auto simp: step_ok_def split: option.splits step.splits)
qed simp

lemma bridge_new_ok [simp]: "leg_ok Q (br_leg (bridge_new Q c))"
  by (simp add: bridge_new_def leg_new_ok)

text \<open>What a frame of translated audio does to a leg.\<close>

lemma on_room_audio:
  assumes "leg_ok Q (br_leg b)" "translated_audio_payload W f = Some p" "b64_decode W p = Inr pcm"
    and "even (length pcm)"
  shows "case encode (lg_codec (br_leg b)) [] of
     Inl e \<Rightarrow> \<exists>b2. on_room_frame W Q f b = Some (Return (Inl (Malformed (codec_error_debug e))) b2)
   | Inr _ \<Rightarrow> \<exists>b2 payload. on_room_frame W Q f b = Some (Continue b2)
       \<and> br_socket b2 = br_socket b @ [Out_Media payload]"
proof -
  obtain t where t: "lg_down (br_leg b) = after_input (down_new Q (lg_codec (br_leg b))) t"
    using assms(1) by (auto simp: leg_ok_def)
  then obtain x leg1 where "process (fst Q) (lg_down (br_leg b)) (map (\<lambda>(lo, hi). from_le_bytes lo hi) (byte_pairs pcm)) = Some (x, leg1)"
    by (simp add: process_after)
  then show ?thesis
    using assms by (cases "lg_codec (br_leg b)")
      (simp_all add: on_room_frame_def encode_down_def gate_accept_def even_iff_mod_2_eq_zero)
qed

text \<open>
  The barge-in gate refuses nothing: the pump stamps a chunk with the generation at which
  it arrives, so every frame of translated audio is written to the telephone, also after a
  barge-in and whatever utterance it was made for.
\<close>

theorem gate_refuses_nothing:
  assumes "pump W Q evs (bridge_new Q c) = Some (Continue b)"
    and "lg_codec (br_leg b) = L16 \<or> lg_codec (br_leg b) = Pcmu"
    and "translated_audio_payload W f = Some p" "b64_decode W p = Inr pcm" "even (length pcm)"
  shows "\<exists>b2 payload. pump W Q (evs @ [From_room f]) (bridge_new Q c) = Some (Continue b2)
     \<and> br_socket b2 = br_socket b @ [Out_Media payload]"
proof -
  have ok: "leg_ok Q (br_leg b)" by (rule pump_leg_ok [OF assms(1)]) simp
  have "\<exists>b2 payload. on_room_frame W Q f b = Some (Continue b2) \<and> br_socket b2 = br_socket b @ [Out_Media payload]"
    using on_room_audio [OF ok assms(3-5)] assms(2) by auto
  then show ?thesis by (auto simp: pump_append assms(1) pump_step_def)
qed

text \<open>
  A codec without an encoder ends the bridge in the middle of the call: a \<open>start\<close> frame that
  names A-law, G.722 or Opus is adopted, and the first translated audio after_input it ends the pump
  with an error.
\<close>

theorem unencodable_codec_ends_bridge:
  assumes "pump W Q evs (bridge_new Q c) = Some (Continue b)"
    and "parse_inbound W raw = Inr (Start c' rate)" "c' \<in> {Pcma, G722, Opus}"
    and "translated_audio_payload W f = Some p" "b64_decode W p = Inr pcm" "even (length pcm)"
  shows "\<exists>b1 b2. pump W Q (evs @ [From_socket raw]) (bridge_new Q c) = Some (Continue b1)
     \<and> pump W Q (evs @ [From_socket raw, From_room f]) (bridge_new Q c) =
         Some (Return (Inl (Malformed (codec_error_debug (Unsupported c')))) b2)"
proof -
  have ok: "leg_ok Q (br_leg b)" by (rule pump_leg_ok [OF assms(1)]) simp
  obtain changed leg where r: "renegotiate Q (br_leg b) c' = (changed, leg)" by fastforce
  define b1 where "b1 = b\<lparr>br_leg := leg, br_renegotiations := br_renegotiations b + (if changed then 1 else 0)\<rparr>"
  have step: "pump_step W Q (From_socket raw) b = Some (Continue b1)"
    using assms(2) r by (simp add: pump_step_def b1_def)
  have leg: "leg_ok Q (br_leg b1)" "lg_codec (br_leg b1) = c'"
    using renegotiate_ok [OF ok, of c'] r by (auto simp: b1_def renegotiate_def Let_def split: if_splits)
  have "\<exists>b2. on_room_frame W Q f b1 = Some (Return (Inl (Malformed (codec_error_debug (Unsupported c')))) b2)"
    using on_room_audio [OF leg(1) assms(4-6)] assms(3) leg(2) by auto
  then show ?thesis by (auto simp: pump_append assms(1) step) (simp add: pump_step_def)
qed

section \<open>Witnesses\<close>

text \<open>A wire on which a text is its own bytes, and is audio whatever it says.\<close>

definition sample_wire :: wire_codec where
  "sample_wire =
     \<lparr>raw_frame = (\<lambda>raw. Inr (if raw = ustr ''a''
        then \<lparr>raw_event = ustr ''start'', raw_start = Some (Some \<lparr>rf_encoding = Some (ustr ''pcma''), rf_sample_rate = None\<rparr>),
             raw_media = None, raw_dtmf = None\<rparr>
        else \<lparr>raw_event = ustr ''media'', raw_start = None,
             raw_media = Some \<lparr>rm_payload = Some raw, rm_track = None\<rparr>, raw_dtmf = None\<rparr>)),
      json_str = (\<lambda>f k. Some (if k = ''type'' then ustr ''translated_audio'' else f)),
      b64_decode = (\<lambda>s. Inr (map word_of_nat s)), b64_encode = map unat\<rparr>"

definition sample_filter :: "int filter" where
  "sample_filter = (sample_floats, \<lambda>l m i. int i)"

lemma sample_wire_simps [simp]:
  "parse_inbound sample_wire [7] = Inr (Media [7] (ustr ''inbound''))"
  "parse_inbound sample_wire (ustr ''a'') = Inr (Start Pcma 8000)"
  "translated_audio_payload sample_wire s = Some s"
  "b64_decode sample_wire s = Inr (map word_of_nat s)"
  by (simp_all add: parse_inbound_def translated_audio_payload_def sample_wire_def ustr_def
      codec_from_name_def to_ascii_uppercase_def)

theorem phone_audio_is_one_stream_witness:
  "\<exists>b. pump sample_wire sample_filter [From_socket [7], From_socket [7]] (bridge_new sample_filter Pcmu) = Some (Continue b)
     \<and> concat (br_to_engine b) = concat (map to_le_bytes
          (resampled (fst sample_filter) (resampler_new (fst sample_filter) (snd sample_filter) 8000 24000)
             [ulaw_to_pcm16 7, ulaw_to_pcm16 7]))"
  using phone_audio_is_one_stream [of sample_wire "[[7], [7]]" "[[7], [7]]" Pcmu sample_filter] by simp

theorem detector_unbiased_witness:
  "bo_state (foldl observe detector_new [swap_byte_pairs [1, 2, 1, 3]]) = Undetermined"
  using detector_unbiased [of "[[1, 2, 1, 3]]"] by (simp add: observe_def detector_new_def count_evidence_def
      Let_def note_silent_leg_def halve_window_def BYTE_ORDER_MIN_EVIDENCE_FRAMES_def
      BYTE_ORDER_INCONCLUSIVE_WINDOW_def BYTE_ORDER_SILENT_LEG_FRAMES_def)

theorem gate_refuses_nothing_witness:
  "\<exists>b2 payload. pump sample_wire sample_filter [From_room []] (bridge_new sample_filter Pcmu) = Some (Continue b2)
     \<and> br_socket b2 = [Out_Media payload]"
  using gate_refuses_nothing [of sample_wire sample_filter "[]" Pcmu "bridge_new sample_filter Pcmu" "[]" "[]" "[]"]
  by (simp add: bridge_new_def leg_new_def Let_def)

theorem unencodable_codec_ends_bridge_witness:
  "\<exists>b2. pump sample_wire sample_filter [From_socket (ustr ''a''), From_room []] (bridge_new sample_filter L16) =
     Some (Return (Inl (Malformed (ustr ''Unsupported { codec: Pcma }''))) b2)"
  using unencodable_codec_ends_bridge [of sample_wire sample_filter "[]" L16 "bridge_new sample_filter L16"
      "ustr ''a''" Pcma 8000 "[]" "[]" "[]"] by auto

end
