(* ===== verification/Talk_Direction.thy ===== *)
theory Talk_Direction
  imports Vox_Prelude
begin

text \<open>
  Which way an utterance goes, \<^verbatim>\<open>server/src/talk/direction.rs\<close>: two people share one microphone,
  and a sentence is spoken aloud only when it is known which of the two languages it was in.
  Texts are code points. The classifier, its prompt and \<open>to_lowercase\<close> are parameters: what the
  model of the code gets from them is a raw verdict. An \<open>f32\<close> is its exact value, \<open>None\<close> for NaN.
\<close>

section \<open>Directions\<close>

datatype Direction = UserToOther | OtherToUser | Direction_Unknown

record Resolution =
  r_direction :: Direction
  r_anchored :: bool

definition Resolution_UNKNOWN :: Resolution where
  "Resolution_UNKNOWN = \<lparr>r_direction = Direction_Unknown, r_anchored = False\<rparr>"

definition anchored :: "Direction \<Rightarrow> Resolution" where
  "anchored d = \<lparr>r_direction = d, r_anchored = (d \<noteq> Direction_Unknown)\<rparr>"

definition corroborated :: "Direction \<Rightarrow> Resolution" where
  "corroborated d = \<lparr>r_direction = d, r_anchored = False\<rparr>"

fun target :: "Direction \<Rightarrow> ustring \<Rightarrow> ustring \<Rightarrow> ustring option" where
  "target UserToOther user_lang other_lang = Some other_lang"
| "target OtherToUser user_lang other_lang = Some user_lang"
| "target Direction_Unknown user_lang other_lang = None"

fun source :: "Direction \<Rightarrow> ustring \<Rightarrow> ustring \<Rightarrow> ustring option" where
  "source UserToOther user_lang other_lang = Some user_lang"
| "source OtherToUser user_lang other_lang = Some other_lang"
| "source Direction_Unknown user_lang other_lang = None"

definition base_code :: "ustring \<Rightarrow> ustring" where
  "base_code code = takeWhile (\<lambda>c. c \<noteq> 45) (trim code)"

definition from_spoken :: "ustring \<Rightarrow> ustring \<Rightarrow> ustring \<Rightarrow> Direction" where
  "from_spoken spoken user_lang other_lang =
     (if base_code spoken = base_code user_lang then UserToOther
      else if base_code spoken = base_code other_lang then OtherToUser
      else Direction_Unknown)"

section \<open>Writing systems\<close>

datatype Script = Latin | Cyrillic | Greek | Hebrew | Arabic | Devanagari | Han | Kana | Hangul
  | Thai | Georgian | Armenian

definition in_range :: "nat \<Rightarrow> nat \<Rightarrow> nat \<Rightarrow> bool" where
  "in_range lo hi c \<longleftrightarrow> lo \<le> c \<and> c \<le> hi"

definition char_script :: "nat \<Rightarrow> Script option" where
  "char_script c =
    (if in_range 0x41 0x5A c \<or> in_range 0x61 0x7A c \<or> in_range 0xC0 0x24F c then Some Latin
     else if in_range 0x370 0x3FF c \<or> in_range 0x1F00 0x1FFF c then Some Greek
     else if in_range 0x400 0x52F c then Some Cyrillic
     else if in_range 0x530 0x58F c then Some Armenian
     else if in_range 0x590 0x5FF c then Some Hebrew
     else if in_range 0x600 0x6FF c \<or> in_range 0x750 0x77F c \<or> in_range 0x8A0 0x8FF c then Some Arabic
     else if in_range 0x900 0x97F c then Some Devanagari
     else if in_range 0xE00 0xE7F c then Some Thai
     else if in_range 0x10A0 0x10FF c \<or> in_range 0x1C90 0x1CBF c then Some Georgian
     else if in_range 0x3040 0x30FF c then Some Kana
     else if in_range 0x3400 0x4DBF c \<or> in_range 0x4E00 0x9FFF c \<or> in_range 0xF900 0xFAFF c then Some Han
     else if in_range 0xAC00 0xD7AF c \<or> in_range 0x1100 0x11FF c \<or> in_range 0x3130 0x318F c then Some Hangul
     else None)"

definition SCRIPTS :: "(string list \<times> Script list) list" where
  "SCRIPTS = [
    ([''ja''],
      [Kana, Han]),
    ([''zh'', ''yue''],
      [Han]),
    ([''ko''],
      [Hangul, Han]),
    ([''th'', ''lo''],
      [Thai]),
    ([''he'', ''yi''],
      [Hebrew]),
    ([''ar'', ''fa'', ''ur'', ''ps'', ''ckb''],
      [Arabic]),
    ([''hi'', ''mr'', ''ne''],
      [Devanagari]),
    ([''el''],
      [Greek]),
    ([''ru'', ''uk'', ''be'', ''bg'', ''sr'', ''mk'', ''kk'', ''mn''],
      [Cyrillic]),
    ([''ka''],
      [Georgian]),
    ([''hy''],
      [Armenian]),
    ([''en'', ''it'', ''es'', ''fr'', ''de'', ''pt'', ''nl'', ''pl'', ''tr'', ''id'',
      ''ms'', ''vi'', ''sv'', ''da'', ''nb'', ''nn'', ''fi'', ''cs'', ''sk'', ''sl'',
      ''hr'', ''bs'', ''ro'', ''hu'', ''et'', ''lv'', ''lt'', ''sq'', ''is'', ''ga'',
      ''cy'', ''mt'', ''eu'', ''ca'', ''gl'', ''af'', ''sw'', ''so'', ''ha'', ''ig'',
      ''yo'', ''zu'', ''az'', ''uz'', ''fil'', ''ht'', ''lb''],
      [Latin])]"

definition lang_scripts :: "ustring \<Rightarrow> Script list option" where
  "lang_scripts code =
     map_option snd (find (\<lambda>(codes, _). base_code code \<in> set (map ustr codes)) SCRIPTS)"

section \<open>The free path\<close>

definition MIN_SCRIPT_EVIDENCE :: nat where
  "MIN_SCRIPT_EVIDENCE = 4"

definition MIN_RESOLVE_CHARS :: nat where
  "MIN_RESOLVE_CHARS = 12"

definition MIN_FINAL_RESOLVE_CHARS :: nat where
  "MIN_FINAL_RESOLVE_CHARS = 4"

definition MAX_CLASSIFY_CHARS :: nat where
  "MAX_CLASSIFY_CHARS = 400"

text \<open>
  The \<open>f32\<close> literals 0.8, 0.6 and 0.35, as the values nearest to them: multiples of
  \<open>2 ^ -24\<close>, \<open>2 ^ -24\<close> and \<open>2 ^ -25\<close>.
\<close>

definition SCRIPT_MARGIN :: rat where
  "SCRIPT_MARGIN = 13421773 / 16777216"

definition MIN_CONFIDENCE :: rat where
  "MIN_CONFIDENCE = 10066330 / 16777216"

definition WEAK_CONFIDENCE :: rat where
  "WEAK_CONFIDENCE = 11744051 / 33554432"

text \<open>
  \<open>hits as f32 / evidence as f32 >= SCRIPT_MARGIN\<close> for fewer than \<open>2 ^ 24\<close> characters: the quotient is
  rounded to the nearest multiple of \<open>2 ^ -24\<close> where it is close to the margin, and a tie goes
  to the even neighbour below it, so the comparison holds just above the middle of the two.
\<close>

definition share_ge_margin :: "nat \<Rightarrow> nat \<Rightarrow> bool" where
  "share_ge_margin hits evidence \<longleftrightarrow> 33554432 * hits > 26843545 * evidence"

text \<open>The loop over the characters: hits of either side.\<close>

fun count_hits :: "Script list \<Rightarrow> Script list \<Rightarrow> ustring \<Rightarrow> nat \<times> nat \<Rightarrow> nat \<times> nat" where
  "count_hits us os [] (u, k) = (u, k)"
| "count_hits us os (c # cs) (u, k) =
     (case char_script c of
        None \<Rightarrow> count_hits us os cs (u, k)
      | Some s \<Rightarrow>
          count_hits us os cs
            (if s \<in> set us \<and> s \<notin> set os then (u + 1, k)
             else if s \<notin> set us \<and> s \<in> set os then (u, k + 1)
             else (u, k)))"

definition script_hint :: "ustring \<Rightarrow> ustring \<Rightarrow> ustring \<Rightarrow> Direction" where
  "script_hint text user_lang other_lang =
     (case (lang_scripts user_lang, lang_scripts other_lang) of
        (Some user_scripts, Some other_scripts) \<Rightarrow>
          (let (user_hits, other_hits) = count_hits user_scripts other_scripts text (0, 0);
               evidence = user_hits + other_hits
           in if evidence < MIN_SCRIPT_EVIDENCE then Direction_Unknown
              else if share_ge_margin user_hits evidence then UserToOther
              else if share_ge_margin other_hits evidence then OtherToUser
              else Direction_Unknown)
      | _ \<Rightarrow> Direction_Unknown)"

section \<open>The verdict of the classifier\<close>

definition interpret_verdict ::
  "(ustring \<Rightarrow> ustring) \<Rightarrow> ustring \<Rightarrow> rat option \<Rightarrow> ustring \<Rightarrow> ustring \<Rightarrow> Direction \<Rightarrow> Resolution" where
  "interpret_verdict lower lang confidence user_lang other_lang prior =
     (let lang = lower (trim lang) in
      if lang = [] \<or> lang = ustr ''other'' then Resolution_UNKNOWN
      else
        let direction = from_spoken lang user_lang other_lang in
        if direction = Direction_Unknown then Resolution_UNKNOWN
        else case confidence of
               None \<Rightarrow> Resolution_UNKNOWN
             | Some c \<Rightarrow>
                 if MIN_CONFIDENCE \<le> c \<and> c \<le> 1 then anchored direction
                 else if WEAK_CONFIDENCE \<le> c \<and> c < MIN_CONFIDENCE \<and> direction = prior
                 then corroborated direction
                 else Resolution_UNKNOWN)"

text \<open>
  The languages of a conversation and the two library functions it needs: the classifier asked
  about a text answers with an error or with a verdict, a language and a confidence.
\<close>

record Resolver =
  rv_user_lang :: ustring
  rv_other_lang :: ustring
  rv_lower :: "ustring \<Rightarrow> ustring"

type_synonym raw_verdict = "ustring + (ustring \<times> rat option)"

definition resolve_local :: "Resolver \<Rightarrow> ustring \<Rightarrow> Direction" where
  "resolve_local R text = script_hint text (rv_user_lang R) (rv_other_lang R)"

definition classify :: "Resolver \<Rightarrow> raw_verdict \<Rightarrow> Direction \<Rightarrow> ustring + Resolution" where
  "classify R reply prior =
     (case reply of
        Inl e \<Rightarrow> Inl e
      | Inr (lang, confidence) \<Rightarrow>
          Inr (interpret_verdict (rv_lower R) lang confidence (rv_user_lang R) (rv_other_lang R) prior))"

text \<open>The classifier is asked about the first characters of the trimmed text.\<close>

definition classify_text :: "ustring \<Rightarrow> ustring" where
  "classify_text text = take MAX_CLASSIFY_CHARS (trim text)"

definition resolve_with_floor ::
  "Resolver \<Rightarrow> (ustring \<Rightarrow> raw_verdict) \<Rightarrow> ustring \<Rightarrow> nat \<Rightarrow> Direction \<Rightarrow> ustring + Resolution" where
  "resolve_with_floor R ask text min_chars prior =
     (let l = resolve_local R text in
      if l \<noteq> Direction_Unknown then Inr (anchored l)
      else if length (trim text) < min_chars then Inr Resolution_UNKNOWN
      else classify R (ask (classify_text text)) prior)"

definition resolver_resolve ::
  "Resolver \<Rightarrow> (ustring \<Rightarrow> raw_verdict) \<Rightarrow> ustring \<Rightarrow> Direction \<Rightarrow> ustring + Resolution" where
  "resolver_resolve R ask text prior = resolve_with_floor R ask text MIN_RESOLVE_CHARS prior"

definition resolve_final ::
  "Resolver \<Rightarrow> (ustring \<Rightarrow> raw_verdict) \<Rightarrow> ustring \<Rightarrow> Direction \<Rightarrow> ustring + Resolution" where
  "resolve_final R ask text prior = resolve_with_floor R ask text MIN_FINAL_RESOLVE_CHARS prior"

section \<open>The free path counts evidence\<close>

lemma share_ge_margin_exact:
  "0 < e \<Longrightarrow> e < 4194304 \<Longrightarrow> share_ge_margin h e \<longleftrightarrow> 4 * e \<le> 5 * h"
  unfolding share_ge_margin_def by linarith

definition exclusive :: "Script list \<Rightarrow> Script list \<Rightarrow> ustring \<Rightarrow> nat" where
  "exclusive us os text =
     length (filter (\<lambda>c. case char_script c of None \<Rightarrow> False | Some s \<Rightarrow> s \<in> set us \<and> s \<notin> set os) text)"

lemma count_hits_exclusive:
  "count_hits us os text (u, k) = (u + exclusive us os text, k + exclusive os us text)"
  by (induction us os "text" "(u, k)" arbitrary: u k rule: count_hits.induct)
    (auto simp: exclusive_def split: option.split)

lemma exclusive_sum: "exclusive us os text + exclusive os us text \<le> length text"
  by (induction "text") (auto simp: exclusive_def split: option.split)

fun flip_direction :: "Direction \<Rightarrow> Direction" where
  "flip_direction UserToOther = OtherToUser"
| "flip_direction OtherToUser = UserToOther"
| "flip_direction Direction_Unknown = Direction_Unknown"

lemma margin_excludes:
  "share_ge_margin u (u + k) \<Longrightarrow> \<not> share_ge_margin k (u + k)"
  unfolding share_ge_margin_def by (simp add: distrib_left)

lemma script_hint_swap: "script_hint text b a = flip_direction (script_hint text a b)"
proof (cases "lang_scripts a"; cases "lang_scripts b")
  fix us os
  assume ab: "lang_scripts a = Some us" "lang_scripts b = Some os"
  let ?u = "exclusive us os text" and ?k = "exclusive os us text"
  show ?thesis
    using margin_excludes [of ?u ?k]
    by (simp add: script_hint_def ab count_hits_exclusive Let_def add.commute [of ?k ?u])
qed (simp_all add: script_hint_def)

text \<open>
  The writing system decides only on evidence, and even-handedly: for texts below four
  million characters the free path answers a side exactly when both languages have known
  scripts, at least four characters belong to the scripts of one of them only, and that side
  has four fifths of those; characters of a shared or foreign script count for nobody, and
  exchanging the two languages exchanges the answer.
\<close>

theorem script_hint_spec:
  assumes "length text < 4194304"
  shows "script_hint text a b =
     (case (lang_scripts a, lang_scripts b) of
        (Some us, Some os) \<Rightarrow>
          (let u = exclusive us os text; k = exclusive os us text
           in if 4 \<le> u + k \<and> 4 * (u + k) \<le> 5 * u then UserToOther
              else if 4 \<le> u + k \<and> 4 * (u + k) \<le> 5 * k then OtherToUser
              else Direction_Unknown)
      | _ \<Rightarrow> Direction_Unknown)
   \<and> script_hint text b a = flip_direction (script_hint text a b)"
proof
  show "script_hint text a b =
     (case (lang_scripts a, lang_scripts b) of
        (Some us, Some os) \<Rightarrow>
          (let u = exclusive us os text; k = exclusive os us text
           in if 4 \<le> u + k \<and> 4 * (u + k) \<le> 5 * u then UserToOther
              else if 4 \<le> u + k \<and> 4 * (u + k) \<le> 5 * k then OtherToUser
              else Direction_Unknown)
      | _ \<Rightarrow> Direction_Unknown)"
  proof (cases "lang_scripts a"; cases "lang_scripts b")
    fix us os
    assume ab: "lang_scripts a = Some us" "lang_scripts b = Some os"
    let ?e = "exclusive us os text + exclusive os us text"
    have "share_ge_margin h ?e \<longleftrightarrow> 4 * ?e \<le> 5 * h" if "4 \<le> ?e" for h
      using that exclusive_sum [of us os "text"] assms by (intro share_ge_margin_exact) linarith+
    then show ?thesis
      by (simp add: script_hint_def ab count_hits_exclusive Let_def MIN_SCRIPT_EVIDENCE_def)
  qed (simp_all add: script_hint_def)
  show "script_hint text b a = flip_direction (script_hint text a b)" by (rule script_hint_swap)
qed

lemma sample_scripts [simp]:
  "lang_scripts (ustr ''en'') = Some [Latin]" "lang_scripts (ustr ''ja'') = Some [Kana, Han]"
  "lang_scripts (ustr ''it'') = Some [Latin]" "lang_scripts (ustr ''es'') = Some [Latin]"
  by (simp_all add: lang_scripts_def SCRIPTS_def base_code_def ustr_def trim_def is_whitespace_def)

theorem script_hint_spec_witness:
  "script_hint [103, 111, 111, 100] (ustr ''en'') (ustr ''ja'') = UserToOther
   \<and> script_hint [103, 111, 111, 100] (ustr ''ja'') (ustr ''en'') = OtherToUser"
  using script_hint_spec [of "[103, 111, 111, 100]" "ustr ''en''" "ustr ''ja''"]
  by (simp add: exclusive_def char_script_def in_range_def)

text \<open>
  Nothing is spoken on a guess: a direction that a resolution settles was either chosen
  by evidence, the writing system alone or a verdict of at least 0.6 that names one of the two
  languages, and then it is anchored, or borrowed: a verdict between 0.35 and 0.6 for the
  very direction the conversation already had, and then it is not.
\<close>

theorem resolution_has_evidence:
  assumes "resolve_with_floor R ask text min_chars prior = Inr res" and "r_direction res \<noteq> Direction_Unknown"
  shows "(resolve_local R text = r_direction res \<and> r_anchored res)
     \<or> (min_chars \<le> length (trim text)
        \<and> (\<exists>l c. ask (classify_text text) = Inr (l, Some c)
             \<and> from_spoken (rv_lower R (trim l)) (rv_user_lang R) (rv_other_lang R) = r_direction res
             \<and> (if r_anchored res then MIN_CONFIDENCE \<le> c \<and> c \<le> 1
                else WEAK_CONFIDENCE \<le> c \<and> c < MIN_CONFIDENCE \<and> r_direction res = prior)))"
proof (cases "resolve_local R text = Direction_Unknown")
  case False
  with assms show ?thesis by (auto simp: resolve_with_floor_def anchored_def)
next
  case True
  have floor: "min_chars \<le> length (trim text)"
    using assms True by (auto simp: resolve_with_floor_def Resolution_UNKNOWN_def split: if_splits)
  with assms(1) True have "classify R (ask (classify_text text)) prior = Inr res"
    by (simp add: resolve_with_floor_def)
  then obtain l conf where ask: "ask (classify_text text) = Inr (l, conf)"
    and res: "interpret_verdict (rv_lower R) l conf (rv_user_lang R) (rv_other_lang R) prior = res"
    by (auto simp: classify_def split: sum.splits)
  show ?thesis
    using assms(2) floor ask res unfolding interpret_verdict_def Let_def
    by (auto simp: Resolution_UNKNOWN_def anchored_def corroborated_def split: if_splits option.splits)
qed

definition sample_resolver :: Resolver where
  "sample_resolver = \<lparr>rv_user_lang = ustr ''it'', rv_other_lang = ustr ''es'', rv_lower = id\<rparr>"

theorem resolution_has_evidence_witness:
  "\<exists>res. resolve_with_floor sample_resolver (\<lambda>_. Inr (ustr ''es'', Some (1 / 2))) (ustr ''quiero comer'') 12 OtherToUser = Inr res
     \<and> r_direction res = OtherToUser \<and> \<not> r_anchored res
     \<and> 12 \<le> length (trim (ustr ''quiero comer''))"
proof -
  have hint: "resolve_local sample_resolver w = Direction_Unknown" for w
    by (simp add: resolve_local_def sample_resolver_def script_hint_def count_hits_exclusive exclusive_def
        MIN_SCRIPT_EVIDENCE_def split: option.split)
  have "resolve_with_floor sample_resolver (\<lambda>_. Inr (ustr ''es'', Some (1 / 2))) (ustr ''quiero comer'') 12 OtherToUser
      = Inr (corroborated OtherToUser)"
    using hint by (simp add: resolve_with_floor_def classify_def interpret_verdict_def sample_resolver_def from_spoken_def
        base_code_def ustr_def trim_def is_whitespace_def MIN_CONFIDENCE_def WEAK_CONFIDENCE_def)
  moreover from resolution_has_evidence [OF this] have "12 \<le> length (trim (ustr ''quiero comer''))"
    using hint by (simp add: corroborated_def)
  ultimately show ?thesis by (simp add: corroborated_def)
qed

end
