(* ===== verification/Talk_Utterance.thy ===== *)
theory Talk_Utterance
  imports Talk_Direction
begin

text \<open>
  One utterance of a conversation over one microphone, \<^verbatim>\<open>server/src/talk/utterance.rs\<close>: what is held
  until the direction is known, what is sent, and when the next sentence begins. A frame is
  the JSON text of a message; its kind is read off its first characters, as in the code.
\<close>

section \<open>Frames\<close>

definition MAX_HELD_FRAMES :: nat where
  "MAX_HELD_FRAMES = 100"

definition RESOLVE_STEP_CHARS :: nat where
  "RESOLVE_STEP_CHARS = 8"

datatype FrameKind = SubtitleInterim | SubtitleFinal | TranslatedAudio | FrameKind_Other

definition classify_frame :: "ustring \<Rightarrow> FrameKind" where
  \<open>classify_frame frame =
     (if starts_with frame (ustr ''{"type":"translated_audio"'') then TranslatedAudio
      else if starts_with frame (ustr ''{"type":"subtitle_interim"'') then SubtitleInterim
      else if starts_with frame (ustr ''{"type":"subtitle_final"'') then SubtitleFinal
      else FrameKind_Other)\<close>

datatype Outcome = Send "ustring list" | Hold

section \<open>The state\<close>

record Utterance =
  u_user_lang :: ustring
  u_other_lang :: ustring
  u_direction :: Direction
  u_original :: ustring
  u_resolved_at_len :: nat
  u_held_user :: "ustring list"
  u_held_other :: "ustring list"
  u_last_final :: "ustring option"
  u_spoken_original :: "ustring option"
  u_draining :: bool
  u_pending_user :: "ustring option"
  u_pending_other :: "ustring option"

definition utterance_new :: "ustring \<Rightarrow> ustring \<Rightarrow> Utterance" where
  "utterance_new user_lang other_lang =
     \<lparr>u_user_lang = user_lang, u_other_lang = other_lang, u_direction = Direction_Unknown,
      u_original = [], u_resolved_at_len = 0, u_held_user = [], u_held_other = [],
      u_last_final = None, u_spoken_original = None, u_draining = False,
      u_pending_user = None, u_pending_other = None\<rparr>"

definition is_target :: "Utterance \<Rightarrow> ustring \<Rightarrow> bool" where
  "is_target u lang \<longleftrightarrow> target (u_direction u) (u_user_lang u) (u_other_lang u) = Some lang"

definition is_trailing_echo :: "Utterance \<Rightarrow> ustring \<Rightarrow> ustring \<Rightarrow> bool" where
  "is_trailing_echo u lang t \<longleftrightarrow>
     u_original u = [] \<and> u_spoken_original u = Some (trim t) \<and> \<not> is_target u lang"

section \<open>Hearing the original\<close>

text \<open>New words after a final: the direction of the previous sentence ends here.\<close>

definition stop_draining :: "Utterance \<Rightarrow> Utterance" where
  "stop_draining u =
     (if u_draining u
      then u\<lparr>u_draining := False, u_direction := Direction_Unknown, u_held_user := [], u_held_other := []\<rparr>
      else u)"

definition note_original :: "Utterance \<Rightarrow> ustring \<Rightarrow> ustring \<Rightarrow> bool \<times> Utterance" where
  "note_original u lang txt =
     (let t = trim txt in
      if t = [] \<or> t = u_original u then (False, u)
      else if is_trailing_echo u lang t then (False, u)
      else
        let u1 = stop_draining u;
            revised = (\<not> starts_with t (u_original u1));
            u2 = u1\<lparr>u_original := t\<rparr>
        in if u_direction u2 \<noteq> Direction_Unknown then (False, u2)
           else if revised then (True, u2\<lparr>u_resolved_at_len := length t\<rparr>)
           else if length t \<ge> u_resolved_at_len u2 + RESOLVE_STEP_CHARS
           then (True, u2\<lparr>u_resolved_at_len := length t\<rparr>)
           else (False, u2))"

section \<open>Latching a direction\<close>

definition commit :: "Utterance \<Rightarrow> Direction \<Rightarrow> ustring list option \<times> Utterance" where
  "commit u direction =
     (if direction = Direction_Unknown \<or> u_direction u \<noteq> Direction_Unknown then (None, u)
      else (Some (if direction = UserToOther then u_held_other u else u_held_user u),
            u\<lparr>u_direction := direction, u_held_user := [], u_held_other := []\<rparr>))"

section \<open>Routing a frame\<close>

text \<open>A full buffer loses its oldest frame.\<close>

definition hold_frame :: "ustring list \<Rightarrow> ustring \<Rightarrow> ustring list" where
  "hold_frame buf frame = (if length buf \<ge> MAX_HELD_FRAMES then drop 1 buf else buf) @ [frame]"

definition on_audio :: "Utterance \<Rightarrow> ustring \<Rightarrow> ustring \<Rightarrow> Outcome \<times> Utterance" where
  "on_audio u lang frame =
     (if u_direction u = Direction_Unknown
      then (Hold, if lang = u_user_lang u then u\<lparr>u_held_user := hold_frame (u_held_user u) frame\<rparr>
                  else u\<lparr>u_held_other := hold_frame (u_held_other u) frame\<rparr>)
      else if is_target u lang then (Send [frame], u)
      else (Hold, u))"

definition on_interim :: "Utterance \<Rightarrow> ustring \<Rightarrow> ustring \<Rightarrow> Outcome \<times> Utterance" where
  "on_interim u lang frame =
     (if u_direction u = Direction_Unknown then (Hold, u)
      else if is_target u lang then (Send [frame], u)
      else (Hold, u))"

definition finish_sentence :: "Utterance \<Rightarrow> Utterance" where
  "finish_sentence u =
     u\<lparr>u_original := [],
       u_spoken_original := (if u_original u = [] then None else Some (u_original u)),
       u_pending_user := None, u_pending_other := None, u_resolved_at_len := 0,
       u_held_user := [], u_held_other := [], u_draining := (u_direction u \<noteq> Direction_Unknown)\<rparr>"

definition on_final :: "Utterance \<Rightarrow> ustring \<Rightarrow> ustring \<Rightarrow> Outcome \<times> Utterance" where
  "on_final u lang frame =
     (if u_direction u = Direction_Unknown
      then (Hold,
            if lang = u_user_lang u
            then (if u_pending_user u = None then u\<lparr>u_pending_user := Some frame\<rparr> else u)
            else (if u_pending_other u = None then u\<lparr>u_pending_other := Some frame\<rparr> else u))
      else if \<not> is_target u lang then (Hold, u)
      else if u_last_final u = Some frame then (Hold, u)
      else (Send [frame], finish_sentence (u\<lparr>u_last_final := Some frame\<rparr>)))"

definition on_frame :: "Utterance \<Rightarrow> ustring \<Rightarrow> ustring \<Rightarrow> Outcome \<times> Utterance" where
  "on_frame u lang frame =
     (case classify_frame frame of
        TranslatedAudio \<Rightarrow> on_audio u lang frame
      | SubtitleFinal \<Rightarrow> on_final u lang frame
      | SubtitleInterim \<Rightarrow> on_interim u lang frame
      | FrameKind_Other \<Rightarrow> (Send [frame], u))"

section \<open>The parked final\<close>

definition has_pending_final :: "Utterance \<Rightarrow> bool" where
  "has_pending_final u \<longleftrightarrow> u_pending_user u \<noteq> None \<or> u_pending_other u \<noteq> None"

definition take_pending_final :: "Utterance \<Rightarrow> ustring option \<times> Utterance" where
  "take_pending_final u =
     (let u1 = u\<lparr>u_pending_user := None, u_pending_other := None\<rparr> in
      case target (u_direction u) (u_user_lang u) (u_other_lang u) of
        None \<Rightarrow> (None, u1)
      | Some t \<Rightarrow>
          (case (if t = u_user_lang u then u_pending_user u else u_pending_other u) of
             None \<Rightarrow> (None, u1)
           | Some frame \<Rightarrow>
               if u_last_final u = Some frame then (None, u1)
               else (Some frame, u1\<lparr>u_last_final := Some frame\<rparr>)))"

definition reset_keeping_last_final :: "Utterance \<Rightarrow> Utterance" where
  "reset_keeping_last_final u =
     u\<lparr>u_draining := False, u_pending_user := None, u_pending_other := None,
       u_direction := Direction_Unknown, u_original := [], u_resolved_at_len := 0,
       u_held_user := [], u_held_other := []\<rparr>"

definition reset :: "Utterance \<Rightarrow> Utterance" where
  "reset u = (reset_keeping_last_final u)\<lparr>u_last_final := None, u_spoken_original := None\<rparr>"

section \<open>The invariant of an utterance\<close>

text \<open>
  What is held is bounded, and nothing is held once a direction is latched; while the audio of
  a finished sentence drains there is a direction, no text and no parked final.
\<close>

definition utterance_ok :: "Utterance \<Rightarrow> bool" where
  "utterance_ok u \<longleftrightarrow>
     length (u_held_user u) \<le> MAX_HELD_FRAMES \<and> length (u_held_other u) \<le> MAX_HELD_FRAMES
     \<and> (u_direction u \<noteq> Direction_Unknown \<longrightarrow> u_held_user u = [] \<and> u_held_other u = [])
     \<and> (u_draining u \<longrightarrow> u_direction u \<noteq> Direction_Unknown \<and> u_original u = [] \<and> \<not> has_pending_final u)
     \<and> u_user_lang u \<noteq> u_other_lang u"

lemma utterance_new_ok: "a \<noteq> b \<Longrightarrow> utterance_ok (utterance_new a b)"
  by (simp add: utterance_ok_def utterance_new_def)

lemma hold_frame_length: "length buf \<le> MAX_HELD_FRAMES \<Longrightarrow> length (hold_frame buf f) \<le> MAX_HELD_FRAMES"
  by (auto simp: hold_frame_def MAX_HELD_FRAMES_def)

lemma stop_draining_ok: "utterance_ok u \<Longrightarrow> utterance_ok (stop_draining u) \<and> \<not> u_draining (stop_draining u)"
  by (simp add: utterance_ok_def stop_draining_def)

lemma note_original_ok: "utterance_ok u \<Longrightarrow> utterance_ok (snd (note_original u lang t))"
  using stop_draining_ok [of u]
  by (auto simp: note_original_def Let_def utterance_ok_def has_pending_final_def)

lemma commit_ok: "utterance_ok u \<Longrightarrow> utterance_ok (snd (commit u d))"
  by (auto simp: commit_def utterance_ok_def has_pending_final_def)

lemma on_frame_ok: "utterance_ok u \<Longrightarrow> utterance_ok (snd (on_frame u lang f))"
  using hold_frame_length [of "u_held_user u" f] hold_frame_length [of "u_held_other u" f]
  by (auto simp: on_frame_def on_audio_def on_interim_def on_final_def finish_sentence_def utterance_ok_def
      has_pending_final_def split: FrameKind.split)

lemma take_pending_ok: "utterance_ok u \<Longrightarrow> utterance_ok (snd (take_pending_final u))"
  by (auto simp: take_pending_final_def utterance_ok_def has_pending_final_def Let_def split: option.split)

lemma reset_ok: "utterance_ok u \<Longrightarrow> utterance_ok (reset u)"
  by (simp add: utterance_ok_def reset_def reset_keeping_last_final_def has_pending_final_def)

text \<open>The languages of an utterance never change.\<close>

lemma langs_kept [simp]:
  "u_user_lang (snd (note_original u l t)) = u_user_lang u" "u_other_lang (snd (note_original u l t)) = u_other_lang u"
  "u_user_lang (snd (commit u d)) = u_user_lang u" "u_other_lang (snd (commit u d)) = u_other_lang u"
  "u_user_lang (snd (on_frame u l f)) = u_user_lang u" "u_other_lang (snd (on_frame u l f)) = u_other_lang u"
  "u_user_lang (snd (take_pending_final u)) = u_user_lang u" "u_other_lang (snd (take_pending_final u)) = u_other_lang u"
  "u_user_lang (reset u) = u_user_lang u" "u_other_lang (reset u) = u_other_lang u"
  by (auto simp: note_original_def stop_draining_def Let_def commit_def on_frame_def on_audio_def on_interim_def
      on_final_def finish_sentence_def take_pending_final_def reset_def reset_keeping_last_final_def
      split: FrameKind.split option.split)

end
