(* ===== verification/Engine_Registry.thy ===== *)
theory Engine_Registry
  imports Keyed_Map "HOL-Library.Sublist" "HOL-Library.List_Lexorder" "HOL-Library.Char_ord"
begin

text \<open>
  The registry of translation engines and the roles that the sessions of one speaking turn
  share, \<^verbatim>\<open>server/src/engine/mod.rs\<close> and \<^verbatim>\<open>server/src/engine/metadata.rs\<close>. An engine is its metadata; what
  it does with audio is a parameter of its callers. Amounts are a type parameter with the
  operations that the code applies to an \<open>f64\<close>. A \<open>HashSet\<close> is the list of its iteration.
\<close>

section \<open>Engines\<close>

definition STANDARD_ID :: string where "STANDARD_ID = ''standard''"
definition OPENAI_ID :: string where "OPENAI_ID = ''premium''"
definition GEMINI_ID :: string where "GEMINI_ID = ''gemini_live_translate''"
definition CARTESIA_ID :: string where "CARTESIA_ID = ''cartesia''"

record EngineCapabilities =
  ec_translated_audio :: bool
  ec_cost_scales_per_language :: bool
  ec_client_direct :: bool
  ec_max_room_size :: nat

record 'f EngineMetadata =
  eng_id :: string
  eng_display_name :: ustring
  eng_tier :: string
  eng_description :: ustring
  eng_cost_per_minute :: 'f
  eng_markup :: 'f
  eng_input_languages :: "string list"
  eng_output_languages :: "string list"
  eng_capabilities :: EngineCapabilities

record 'f f64_ops =
  f64_of_nat :: "nat \<Rightarrow> 'f"
  f64_add :: "'f \<Rightarrow> 'f \<Rightarrow> 'f"
  f64_mul :: "'f \<Rightarrow> 'f \<Rightarrow> 'f"
  f64_div :: "'f \<Rightarrow> 'f \<Rightarrow> 'f"

definition user_rate_per_minute :: "'f f64_ops \<Rightarrow> 'f EngineMetadata \<Rightarrow> 'f" where
  "user_rate_per_minute F m =
     f64_mul F (eng_cost_per_minute m) (f64_add F (f64_of_nat F 1) (eng_markup m))"

definition user_rate_per_second :: "'f f64_ops \<Rightarrow> 'f EngineMetadata \<Rightarrow> 'f" where
  "user_rate_per_second F m = f64_div F (user_rate_per_minute F m) (f64_of_nat F 60)"

record 'f EngineInfo =
  ei_id :: string
  ei_display_name :: ustring
  ei_tier :: string
  ei_description :: ustring
  ei_rate_per_minute :: 'f
  ei_input_languages :: "string list"
  ei_output_languages :: "string list"
  ei_capabilities :: EngineCapabilities

definition engine_info :: "'f f64_ops \<Rightarrow> 'f EngineMetadata \<Rightarrow> 'f EngineInfo" where
  "engine_info F m = \<lparr>ei_id = eng_id m, ei_display_name = eng_display_name m, ei_tier = eng_tier m,
     ei_description = eng_description m, ei_rate_per_minute = user_rate_per_minute F m,
     ei_input_languages = eng_input_languages m, ei_output_languages = eng_output_languages m,
     ei_capabilities = eng_capabilities m\<rparr>"

text \<open>A started session also hands out the sender of its audio, which the callers keep.\<close>

datatype SessionOutcome = Started | AtCapacity | Failed

section \<open>The registry\<close>

record 'f EngineRegistry =
  reg_engines :: "'f EngineMetadata list"
  reg_default_id :: string

definition registry_new :: "string \<Rightarrow> 'f EngineRegistry" where
  "registry_new default_id = \<lparr>reg_engines = [], reg_default_id = default_id\<rparr>"

definition register :: "'f EngineMetadata \<Rightarrow> 'f EngineRegistry \<Rightarrow> 'f EngineRegistry" where
  "register e R = R\<lparr>reg_engines := reg_engines R @ [e]\<rparr>"

definition get_engine :: "'f EngineRegistry \<Rightarrow> string \<Rightarrow> 'f EngineMetadata option" where
  "get_engine R i = find (\<lambda>e. eng_id e = i) (reg_engines R)"

text \<open>\<open>None\<close> is the panic of a default that was never registered.\<close>

definition default_engine :: "'f EngineRegistry \<Rightarrow> 'f EngineMetadata option" where
  "default_engine R = get_engine R (reg_default_id R)"

definition resolve_engine :: "'f EngineRegistry \<Rightarrow> string option \<Rightarrow> 'f EngineMetadata option" where
  "resolve_engine R i =
     (case Option.bind i (get_engine R) of Some e \<Rightarrow> Some e | None \<Rightarrow> default_engine R)"

definition resolve_for_phone :: "'f EngineRegistry \<Rightarrow> string option \<Rightarrow> 'f EngineMetadata option" where
  "resolve_for_phone R i =
     (case resolve_engine R i of
        None \<Rightarrow> None
      | Some e \<Rightarrow> if ec_client_direct (eng_capabilities e) then default_engine R else Some e)"

definition engine_infos :: "'f f64_ops \<Rightarrow> 'f EngineRegistry \<Rightarrow> 'f EngineInfo list" where
  "engine_infos F R = map (engine_info F) (reg_engines R)"

section \<open>Which sessions a turn has\<close>

text \<open>The languages to drop and to add; the order of the dropped ones is the set's.\<close>

definition reconcile_langs :: "string list \<Rightarrow> string list \<Rightarrow> string list \<times> string list" where
  "reconcile_langs active want =
     (filter (\<lambda>l. l \<notin> set want) active, filter (\<lambda>l. l \<notin> set active) want)"

definition extra_engines_for_turn :: "string list \<Rightarrow> string list \<Rightarrow> string list" where
  "extra_engines_for_turn chosen speech_engines =
     remdups_adj (sort (filter (\<lambda>i. i \<noteq> STANDARD_ID \<and> i \<in> set speech_engines) chosen))"

section \<open>A role that one session holds\<close>

type_synonym 'k SessionClaim = "'k option"

definition claim_owns :: "'k SessionClaim \<Rightarrow> 'k \<Rightarrow> bool \<times> 'k SessionClaim" where
  "claim_owns held key = (case held of Some h \<Rightarrow> (h = key, held) | None \<Rightarrow> (True, Some key))"

definition claim_release :: "'k SessionClaim \<Rightarrow> 'k \<Rightarrow> 'k SessionClaim" where
  "claim_release held key = (if held = Some key then None else held)"

text \<open>The session ids of a process, from the counter.\<close>

definition next_id :: "nat \<Rightarrow> nat \<times> nat" where
  "next_id counter = (counter, (counter + 1) mod 18446744073709551616)"

text \<open>What the sessions rely on: the interface of such a role.\<close>

locale exclusive_role =
  fixes holder :: "'s \<Rightarrow> 'k option"
    and owns :: "'s \<Rightarrow> 'k \<Rightarrow> bool \<times> 's"
    and give_back :: "'s \<Rightarrow> 'k \<Rightarrow> 's"
  assumes owns_iff: "fst (owns s k) \<longleftrightarrow> holder s = None \<or> holder s = Some k"
    and owns_holder: "holder (snd (owns s k)) = (if holder s = None then Some k else holder s)"
    and give_back_holder: "holder (give_back s k) = (if holder s = Some k then None else holder s)"

text \<open>The sessions that find themselves holding the role, asked one after the other.\<close>

fun writers :: "('s \<Rightarrow> 'k \<Rightarrow> bool \<times> 's) \<Rightarrow> 's \<Rightarrow> 'k list \<Rightarrow> 'k list \<times> 's" where
  "writers owns s [] = ([], s)"
| "writers owns s (k # ks) =
     (let (mine, s1) = owns s k; (ws, s2) = writers owns s1 ks in (if mine then k # ws else ws, s2))"

text \<open>
  A speaking turn: sessions come and go, giving the role back on their way out, and every
  session that is there hears every utterance. The result counts the writers of each
  utterance, with the number of sessions that heard it.
\<close>

datatype 'k turn_op = Enter 'k | Leave 'k | Utter

fun turn_run :: "('s \<Rightarrow> 'k \<Rightarrow> bool \<times> 's) \<Rightarrow> ('s \<Rightarrow> 'k \<Rightarrow> 's) \<Rightarrow> 'k turn_op list \<Rightarrow> 'k list \<Rightarrow> 's
    \<Rightarrow> (nat \<times> nat) list" where
  "turn_run owns give_back [] active s = []"
| "turn_run owns give_back (Enter k # ops) active s = turn_run owns give_back ops (List.insert k active) s"
| "turn_run owns give_back (Leave k # ops) active s =
     turn_run owns give_back ops (remove1 k active) (if k \<in> set active then give_back s k else s)"
| "turn_run owns give_back (Utter # ops) active s =
     (let (ws, s1) = writers owns s active
      in (length ws, length active) # turn_run owns give_back ops active s1)"

context exclusive_role
begin

lemma writers_held:
  "holder s = Some h \<Longrightarrow> fst (writers owns s ks) = filter (\<lambda>k. k = h) ks \<and> holder (snd (writers owns s ks)) = Some h"
proof (induction ks arbitrary: s)
  case (Cons k ks)
  have s1: "holder (snd (owns s k)) = Some h" using Cons.prems by (simp add: owns_holder)
  with Cons.IH [OF s1] Cons.prems owns_iff [of s k] show ?case by (auto simp: split_beta)
qed simp

lemma writers_vacant:
  assumes "holder s = None"
  shows "fst (writers owns s ks) = (if ks = [] then [] else filter (\<lambda>k. k = hd ks) ks)"
    and "holder (snd (writers owns s ks)) = (if ks = [] then None else Some (hd ks))"
proof -
  have "fst (writers owns s ks) = (if ks = [] then [] else filter (\<lambda>k. k = hd ks) ks)
     \<and> holder (snd (writers owns s ks)) = (if ks = [] then None else Some (hd ks))"
  proof (cases ks)
    case (Cons k ks')
    have "holder (snd (owns s k)) = Some k" using assms by (simp add: owns_holder)
    with writers_held [OF this, of ks'] assms owns_iff [of s k] Cons show ?thesis by (auto simp: split_beta)
  qed (simp add: assms)
  then show "fst (writers owns s ks) = (if ks = [] then [] else filter (\<lambda>k. k = hd ks) ks)"
    "holder (snd (writers owns s ks)) = (if ks = [] then None else Some (hd ks))" by blast+
qed

lemma one_in_distinct: "distinct ks \<Longrightarrow> h \<in> set ks \<Longrightarrow> length (filter (\<lambda>k. k = h) ks) = 1"
  by (induction ks) (auto simp: filter_empty_conv)

lemma one_writer:
  assumes "distinct active" and "holder s = None \<or> holder s \<in> Some ` set active"
  shows "length (fst (writers owns s active)) = (if active = [] then 0 else 1)"
    and "holder (snd (writers owns s active)) = None \<or> holder (snd (writers owns s active)) \<in> Some ` set active"
  using assms writers_held writers_vacant one_in_distinct [of active] by (auto split: if_splits)

lemma written_once:
  assumes "distinct active" and "holder s = None \<or> holder s \<in> Some ` set active"
  shows "\<forall>(written, heard) \<in> set (turn_run owns give_back ops active s). written = (if heard = 0 then 0 else 1)"
  using assms
proof (induction ops arbitrary: active s)
  case (Cons op ops)
  show ?case
  proof (cases op)
    case (Enter k)
    have "distinct (List.insert k active)" "holder s = None \<or> holder s \<in> Some ` set (List.insert k active)"
      using Cons.prems by auto
    from Cons.IH [OF this] Enter show ?thesis by simp
  next
    case (Leave k)
    show ?thesis
    proof (cases "k \<in> set active")
      case True
      have "holder (give_back s k) = None \<or> holder (give_back s k) \<in> Some ` set (remove1 k active)"
        using Cons.prems by (auto simp: give_back_holder set_remove1_eq)
      with True Leave Cons.prems Cons.IH [of "remove1 k active" "give_back s k"] show ?thesis by simp
    next
      case False
      with Leave Cons.prems Cons.IH [of active s] show ?thesis by (simp add: remove1_idem)
    qed
  next
    case Utter
    with Cons.prems Cons.IH [OF Cons.prems(1) one_writer(2) [OF Cons.prems]] one_writer(1) [OF Cons.prems]
    show ?thesis by (auto simp: split_beta)
  qed
qed simp

end

text \<open>The claim of the code is such a role.\<close>

interpretation claim: exclusive_role "\<lambda>held. held" claim_owns claim_release
  by unfold_locales (auto simp: claim_owns_def claim_release_def split: option.split)

text \<open>
  An utterance is written once: in every speaking turn, sessions of any engine joining and
  leaving between utterances in any order, each utterance is persisted by exactly one of the
  sessions that hear it, and by none only if none is there; a writer that leaves is replaced
  at the next utterance.
\<close>

theorem turn_written_once:
  "\<forall>(written, heard) \<in> set (turn_run claim_owns claim_release ops [] None). written = min heard 1"
proof -
  have "\<forall>(written, heard) \<in> set (turn_run claim_owns claim_release ops [] None).
      written = (if heard = 0 then 0 else 1)"
    by (rule claim.written_once) simp_all
  then show ?thesis by (fastforce simp: min_def split: if_splits)
qed

section \<open>The registry falls back\<close>

lemma get_engine_id: "get_engine R i = Some e \<Longrightarrow> eng_id e = i \<and> e \<in> set (reg_engines R)"
  unfolding get_engine_def using find_SomeD by fastforce

text \<open>A later registration never shadows an earlier one.\<close>

lemma register_keeps: "get_engine R i = Some e \<Longrightarrow> get_engine (register x R) i = Some e"
proof -
  have "find P xs = Some e \<Longrightarrow> find P (xs @ ys) = Some e" for P :: "'a EngineMetadata \<Rightarrow> bool" and xs ys
    by (induction xs) (auto split: if_splits)
  then show "get_engine R i = Some e \<Longrightarrow> get_engine (register x R) i = Some e"
    by (simp add: get_engine_def register_def)
qed

text \<open>
  A telephone is never served by an engine that runs in a browser: with a registered
  default that runs on the server, every request for a phone resolves to a registered engine
  that does, the requested one when it exists and runs on the server, the default otherwise.
\<close>

theorem phone_engine_runs_here:
  assumes "default_engine R = Some d" and "\<not> ec_client_direct (eng_capabilities d)"
  shows "\<exists>e. resolve_for_phone R i = Some e \<and> e \<in> set (reg_engines R) \<and> \<not> ec_client_direct (eng_capabilities e)
     \<and> (case i of
          None \<Rightarrow> e = d
        | Some x \<Rightarrow>
            (case get_engine R x of
               None \<Rightarrow> e = d
             | Some r \<Rightarrow> e = (if ec_client_direct (eng_capabilities r) then d else r)))"
proof -
  have d: "d \<in> set (reg_engines R)"
    using get_engine_id [of R "reg_default_id R" d] assms(1) by (simp add: default_engine_def)
  show ?thesis
  proof (cases "Option.bind i (get_engine R)")
    case None
    with assms d show ?thesis
      by (cases i) (auto simp: resolve_for_phone_def resolve_engine_def)
  next
    case (Some r)
    then obtain x where x: "i = Some x" "get_engine R x = Some r" by (cases i) auto
    from get_engine_id [OF x(2)] assms d x show ?thesis
      by (auto simp: resolve_for_phone_def resolve_engine_def)
  qed
qed

section \<open>Reconciling languages\<close>

text \<open>
  After a reconciliation a speaker has a session for exactly the languages that the room
  wants: what is dropped is no longer wanted, what is added is wanted and was missing, in the
  room's order, and a second reconciliation changes nothing.
\<close>

theorem reconcile_reaches_wanted:
  "case reconcile_langs active want of (dropped, added) \<Rightarrow>
     set (filter (\<lambda>l. l \<notin> set dropped) active @ added) = set want
     \<and> set dropped \<inter> set want = {} \<and> set added \<inter> set active = {} \<and> subseq added want
     \<and> reconcile_langs (filter (\<lambda>l. l \<notin> set dropped) active @ added) want = ([], [])"
  by (auto simp: reconcile_langs_def filter_empty_conv)

lemma extra_engines_spec:
  "set (extra_engines_for_turn chosen speech) = (set chosen - {STANDARD_ID}) \<inter> set speech
   \<and> sorted (extra_engines_for_turn chosen speech) \<and> distinct (extra_engines_for_turn chosen speech)"
proof -
  have "sorted xs \<Longrightarrow> distinct (remdups_adj xs)" for xs :: "string list"
    by (induction xs rule: remdups_adj.induct) auto
  then have "distinct (remdups_adj (sort xs))" for xs :: "string list" by simp
  then show ?thesis by (auto simp: extra_engines_for_turn_def)
qed

end
