(* ===== verification/Talk_Gate.thy ===== *)
theory Talk_Gate
  imports Talk_Utterance Engine_Registry
begin

text \<open>
  A conversation over one microphone, \<^verbatim>\<open>server/src/talk/mod.rs\<close>: the gate between the two listener
  channels and the browser, the questions put to the classifier and their answers, and the
  loop of a session as a step function. The engine, the classifier and JSON are parameters; a
  message that the gate makes itself is kept as a value.
\<close>

section \<open>The gate\<close>

record Gate =
  gt_utterance :: Utterance
  gt_generation :: nat
  gt_resolving :: bool
  gt_last_direction :: Direction
  gt_source_id :: ustring
  gt_previewed :: ustring

definition SOURCE_LANG :: string where
  "SOURCE_LANG = ''auto''"

definition valid_lang :: "string \<Rightarrow> bool" where
  "valid_lang code \<longleftrightarrow> 1 \<le> length code \<and> length code \<le> 8
     \<and> list_all (\<lambda>c. let n = of_char c :: nat in (48 \<le> n \<and> n \<le> 57) \<or> (65 \<le> n \<and> n \<le> 90) \<or> (97 \<le> n \<and> n \<le> 122) \<or> n = 45) code"

definition gate_start :: "ustring \<Rightarrow> ustring \<Rightarrow> ustring \<Rightarrow> Gate" where
  "gate_start user_lang other_lang source_id =
     \<lparr>gt_utterance = utterance_new user_lang other_lang, gt_generation = 0, gt_resolving = False,
      gt_last_direction = Direction_Unknown, gt_source_id = source_id, gt_previewed = []\<rparr>"

text \<open>What the browser is sent.\<close>

datatype Out =
    Forward ustring
  | Preview ustring ustring
  | TalkDirection ustring ustring
  | OutError string

definition bump :: "Gate \<Rightarrow> Gate" where
  "bump g = g\<lparr>gt_generation := (gt_generation g + 1) mod 18446744073709551616\<rparr>"

definition preview :: "Gate \<Rightarrow> ustring \<Rightarrow> Out list \<times> Gate" where
  "preview g t =
     (if t = [] \<or> t = gt_previewed g then ([], g)
      else ([Preview (gt_source_id g) t], g\<lparr>gt_previewed := t\<rparr>))"

definition gate_commit :: "Gate \<Rightarrow> Resolution \<Rightarrow> ustring list option \<times> Gate" where
  "gate_commit g resolution =
     (case commit (gt_utterance g) (r_direction resolution) of
        (None, _) \<Rightarrow> (None, g)
      | (Some flushed, u) \<Rightarrow>
          (Some flushed,
           g\<lparr>gt_utterance := u,
             gt_last_direction := (if r_anchored resolution then r_direction resolution else gt_last_direction g)\<rparr>))"

definition end_utterance :: "Gate \<Rightarrow> Gate" where
  "end_utterance g = (bump g)\<lparr>gt_previewed := [], gt_utterance := reset (gt_utterance g)\<rparr>"

definition close_gate :: "Gate \<Rightarrow> Gate" where
  "close_gate g = (end_utterance g)\<lparr>gt_last_direction := Direction_Unknown\<rparr>"

definition MAX_SILENT_CLASSIFY_FAILURES :: nat where
  "MAX_SILENT_CLASSIFY_FAILURES = 3"

text \<open>The string member \<open>original\<close> of a frame, as JSON; trimmed, and not empty.\<close>

definition original_text :: "(ustring \<Rightarrow> ustring option) \<Rightarrow> ustring \<Rightarrow> ustring option" where
  "original_text json_original frame =
     (case json_original frame of
        None \<Rightarrow> None
      | Some s \<Rightarrow> if trim s = [] then None else Some (trim s))"

definition emit_direction :: "Direction \<Rightarrow> Resolver \<Rightarrow> Out list" where
  "emit_direction d R =
     (case (source d (rv_user_lang R) (rv_other_lang R), target d (rv_user_lang R) (rv_other_lang R)) of
        (Some spoken, Some t) \<Rightarrow> [TalkDirection spoken t]
      | _ \<Rightarrow> [])"

definition release_pending :: "Utterance \<Rightarrow> ustring option \<times> bool \<times> Utterance" where
  "release_pending u =
     (if \<not> has_pending_final u then (None, False, u)
      else let (frame, u1) = take_pending_final u in (frame, True, reset u1))"

section \<open>Questions to the classifier\<close>

datatype Stage = Partial | Final

record Question =
  q_generation :: nat
  q_prior :: Direction
  q_text :: ustring
  q_stage :: Stage

definition spawn_resolve :: "Gate \<Rightarrow> Stage \<Rightarrow> Question" where
  "spawn_resolve g stage =
     \<lparr>q_generation = gt_generation g, q_prior = gt_last_direction g,
      q_text = u_original (gt_utterance g), q_stage = stage\<rparr>"

text \<open>The task of a question, when the classifier would answer \<open>reply\<close>.\<close>

definition outcome_of :: "Resolver \<Rightarrow> Question \<Rightarrow> raw_verdict \<Rightarrow> ustring + Resolution" where
  "outcome_of R q reply =
     (case q_stage q of
        Partial \<Rightarrow> resolver_resolve R (\<lambda>_. reply) (q_text q) (q_prior q)
      | Final \<Rightarrow> resolve_final R (\<lambda>_. reply) (q_text q) (q_prior q))"

section \<open>The session\<close>

record Session =
  ts_gate :: Gate
  ts_out :: "Out list"
  ts_questions :: "Question list"
  ts_failures :: nat
  ts_audio :: bool
  ts_meter :: bool
  ts_exhausted :: bool

definition session_start :: "Resolver \<Rightarrow> ustring \<Rightarrow> Session" where
  "session_start R source_id =
     \<lparr>ts_gate = gate_start (rv_user_lang R) (rv_other_lang R) source_id, ts_out = [], ts_questions = [],
      ts_failures = 0, ts_audio = False, ts_meter = False, ts_exhausted = False\<rparr>"

definition emit :: "Out list \<Rightarrow> Session \<Rightarrow> Session" where
  "emit os s = s\<lparr>ts_out := ts_out s @ os\<rparr>"

definition on_gate :: "(Gate \<Rightarrow> Gate) \<Rightarrow> Session \<Rightarrow> Session" where
  "on_gate f s = s\<lparr>ts_gate := f (ts_gate s)\<rparr>"

definition ask :: "Stage \<Rightarrow> Session \<Rightarrow> Session" where
  "ask stage s = s\<lparr>ts_gate := (ts_gate s)\<lparr>gt_resolving := True\<rparr>,
                  ts_questions := ts_questions s @ [spawn_resolve (ts_gate s) stage]\<rparr>"

text \<open>The first half of \<open>route_frame\<close>: a subtitle's words are heard.\<close>

definition hear :: "Resolver \<Rightarrow> ustring \<Rightarrow> ustring \<Rightarrow> Session \<Rightarrow> Session" where
  "hear R lang txt s =
     (let g = ts_gate s;
          (wants_resolve, u) = note_original (gt_utterance g) lang txt;
          g = g\<lparr>gt_utterance := u\<rparr>;
          l = (if u_direction u = Direction_Unknown then resolve_local R (u_original u) else Direction_Unknown)
      in case gate_commit g (anchored l) of
           (Some flushed, g) \<Rightarrow>
             emit (emit_direction l R @ map Forward flushed) (s\<lparr>ts_gate := g\<rparr>)
         | (None, g) \<Rightarrow>
             let (shown, g) = (if u_direction (gt_utterance g) = Direction_Unknown
                               then preview g (u_original (gt_utterance g)) else ([], g));
                 s = emit shown (s\<lparr>ts_gate := g\<rparr>)
             in if wants_resolve \<and> \<not> gt_resolving g then ask Partial s else s)"

text \<open>The second half: the frame is routed, and a final closes the sentence or asks about it.\<close>

definition route :: "ustring \<Rightarrow> ustring \<Rightarrow> Session \<Rightarrow> Session" where
  "route lang frame s =
     (let (out, u) = on_frame (gt_utterance (ts_gate s)) lang frame;
          s = emit (case out of Send fs \<Rightarrow> map Forward fs | Hold \<Rightarrow> [])
                (s\<lparr>ts_gate := (ts_gate s)\<lparr>gt_utterance := u\<rparr>\<rparr>)
      in if classify_frame frame \<noteq> SubtitleFinal then s
         else if u_direction u \<noteq> Direction_Unknown \<or> \<not> has_pending_final u then on_gate bump s
         else if trim (u_original u) = [] then on_gate bump s
         else ask Final s)"

definition route_frame ::
  "Resolver \<Rightarrow> (ustring \<Rightarrow> ustring option) \<Rightarrow> ustring \<Rightarrow> ustring \<Rightarrow> Session \<Rightarrow> Session" where
  "route_frame R json_original lang frame s =
     (let kind = classify_frame frame in
      if kind = SubtitleInterim \<or> kind = SubtitleFinal then
        (case original_text json_original frame of
           None \<Rightarrow> route lang frame s
         | Some t \<Rightarrow>
             if kind = SubtitleFinal \<and> is_trailing_echo (gt_utterance (ts_gate s)) lang t then s
             else route lang frame (hear R lang t s))
      else route lang frame s)"

text \<open>An utterance whose parked final will not be released is closed out.\<close>

definition close_pending :: "Session \<Rightarrow> Session" where
  "close_pending s = (if has_pending_final (gt_utterance (ts_gate s)) then on_gate end_utterance s else s)"

definition on_verdict :: "Resolver \<Rightarrow> nat \<Rightarrow> ustring + Resolution \<Rightarrow> Session \<Rightarrow> Session" where
  "on_verdict R generation outcome s =
     (let s = on_gate (\<lambda>g. g\<lparr>gt_resolving := False\<rparr>) s in
      case outcome of
        Inl _ \<Rightarrow>
          let s = s\<lparr>ts_failures := ts_failures s + 1\<rparr>
          in close_pending (if ts_failures s = MAX_SILENT_CLASSIFY_FAILURES
                            then emit [OutError ''provider_unavailable''] s else s)
      | Inr resolution \<Rightarrow>
          let s = s\<lparr>ts_failures := 0\<rparr> in
          if generation \<noteq> gt_generation (ts_gate s) then s
          else if r_direction resolution = Direction_Unknown then close_pending s
          else case gate_commit (ts_gate s) resolution of
                 (None, _) \<Rightarrow> s
               | (Some flushed, g) \<Rightarrow>
                   let d = r_direction resolution;
                       (pending, over, u) = release_pending (gt_utterance g);
                       g = g\<lparr>gt_utterance := u\<rparr>
                   in emit (emit_direction d R @ map Forward flushed
                              @ (case pending of None \<Rightarrow> [] | Some f \<Rightarrow> [Forward f]))
                        (s\<lparr>ts_gate := (if over then bump g else g)\<rparr>))"

text \<open>\<open>str::contains\<close>\<close>

fun str_contains :: "ustring \<Rightarrow> ustring \<Rightarrow> bool" where
  "str_contains [] p \<longleftrightarrow> p = []"
| "str_contains (c # cs) p \<longleftrightarrow> starts_with (c # cs) p \<or> str_contains cs p"

text \<open>
  What \<open>select!\<close> receives. A verdict event names the question in flight that was answered and
  the classifier's reply; an audio event says whether the engine still takes audio.
\<close>

datatype talk_event =
    UserFrame ustring
  | OtherFrame ustring
  | SourceFrame ustring
  | VerdictEvent nat raw_verdict
  | Exhausted
  | AudioIn bool
  | StartMsg SessionOutcome
  | StopMsg

definition TYPE_ERROR :: string where
  \<open>TYPE_ERROR = ''"type":"error"''\<close>

definition TYPE_WARNING :: string where
  \<open>TYPE_WARNING = ''"type":"moderation_warning"''\<close>

text \<open>The environment: the conversation's languages, JSON, and whether billing is configured.\<close>

record Env =
  e_resolver :: Resolver
  e_json_original :: "ustring \<Rightarrow> ustring option"
  e_billing :: bool

definition talk_step :: "Env \<Rightarrow> talk_event \<Rightarrow> Session \<Rightarrow> Session" where
  "talk_step E ev s =
     (let R = e_resolver E in
      case ev of
        UserFrame f \<Rightarrow> route_frame R (e_json_original E) (rv_user_lang R) f s
      | OtherFrame f \<Rightarrow> route_frame R (e_json_original E) (rv_other_lang R) f s
      | SourceFrame f \<Rightarrow>
          if str_contains f (ustr TYPE_ERROR) \<or> str_contains f (ustr TYPE_WARNING) then emit [Forward f] s else s
      | VerdictEvent i reply \<Rightarrow>
          if i < length (ts_questions s) then
            (let q = ts_questions s ! i
             in on_verdict R (q_generation q) (outcome_of R q reply)
                  (s\<lparr>ts_questions := take i (ts_questions s) @ drop (Suc i) (ts_questions s)\<rparr>))
          else s
      | Exhausted \<Rightarrow>
          on_gate close_gate (s\<lparr>ts_exhausted := True, ts_audio := False, ts_meter := False\<rparr>)
      | AudioIn taken \<Rightarrow> if ts_audio s \<and> \<not> taken then s\<lparr>ts_audio := False\<rparr> else s
      | StartMsg outcome \<Rightarrow>
          if ts_audio s then s
          else if ts_exhausted s then emit [OutError ''insufficient_balance''] s
          else (case outcome of
                  Started \<Rightarrow> s\<lparr>ts_audio := True, ts_meter := e_billing E\<rparr>
                | _ \<Rightarrow> emit [OutError ''provider_unavailable''] s)
      | StopMsg \<Rightarrow> on_gate close_gate (s\<lparr>ts_audio := False, ts_meter := False\<rparr>))"

fun talk_run :: "Env \<Rightarrow> talk_event list \<Rightarrow> Session \<Rightarrow> Session" where
  "talk_run E [] s = s"
| "talk_run E (ev # evs) s = talk_run E evs (talk_step E ev s)"

section \<open>Only the announced side is spoken\<close>

text \<open>
  \<open>chan\<close> is the language of the channel that a frame arrived on. A frame that is forwarded, and
  that is a translation, must be of the language the browser was last told.
\<close>

fun spoken_ok :: "(ustring \<Rightarrow> ustring) \<Rightarrow> ustring option \<Rightarrow> Out list \<Rightarrow> bool" where
  "spoken_ok chan told [] \<longleftrightarrow> True"
| "spoken_ok chan told (TalkDirection _ t # os) \<longleftrightarrow> spoken_ok chan (Some t) os"
| "spoken_ok chan told (Forward f # os) \<longleftrightarrow>
     (classify_frame f = FrameKind_Other \<or> told = Some (chan f)) \<and> spoken_ok chan told os"
| "spoken_ok chan told (_ # os) \<longleftrightarrow> spoken_ok chan told os"

fun last_told :: "ustring option \<Rightarrow> Out list \<Rightarrow> ustring option" where
  "last_told told [] = told"
| "last_told told (TalkDirection _ t # os) = last_told (Some t) os"
| "last_told told (_ # os) = last_told told os"

lemma spoken_append [simp]:
  "spoken_ok chan told (xs @ ys) \<longleftrightarrow> spoken_ok chan told xs \<and> spoken_ok chan (last_told told xs) ys"
  by (induction chan told xs rule: spoken_ok.induct) auto

lemma last_told_append [simp]: "last_told told (xs @ ys) = last_told (last_told told xs) ys"
  by (induction told xs rule: last_told.induct) auto

lemma spoken_forwards: "spoken_ok chan told (map Forward fs) \<longleftrightarrow>
    list_all (\<lambda>f. classify_frame f = FrameKind_Other \<or> told = Some (chan f)) fs"
  by (induction fs) auto

lemma last_told_forwards [simp]: "last_told told (map Forward fs) = told"
  by (induction fs) auto

text \<open>What an utterance keeps came from its own side.\<close>

definition sides_ok :: "(ustring \<Rightarrow> ustring) \<Rightarrow> Utterance \<Rightarrow> bool" where
  "sides_ok chan u \<longleftrightarrow>
     list_all (\<lambda>f. chan f = u_user_lang u) (u_held_user u) \<and> list_all (\<lambda>f. chan f = u_other_lang u) (u_held_other u)
     \<and> pred_option (\<lambda>f. chan f = u_user_lang u) (u_pending_user u)
     \<and> pred_option (\<lambda>f. chan f = u_other_lang u) (u_pending_other u)"

lemma sides_note: "sides_ok chan u \<Longrightarrow> sides_ok chan (snd (note_original u l t))"
  by (auto simp: sides_ok_def note_original_def stop_draining_def Let_def)

lemma sides_reset: "sides_ok chan (reset u)"
  by (simp add: sides_ok_def reset_def reset_keeping_last_final_def)

lemma sides_hold: "list_all P buf \<Longrightarrow> P f \<Longrightarrow> list_all P (hold_frame buf f)"
  unfolding hold_frame_def by (auto simp: list_all_iff dest: in_set_dropD)

lemma sides_frame:
  assumes "sides_ok chan u" "chan f = lang" "lang = u_user_lang u \<or> lang = u_other_lang u"
  shows "sides_ok chan (snd (on_frame u lang f))
     \<and> (case fst (on_frame u lang f) of
          Hold \<Rightarrow> True
        | Send fs \<Rightarrow> fs = [f] \<and> (classify_frame f = FrameKind_Other \<or> is_target u lang))
     \<and> (u_direction (snd (on_frame u lang f)) = u_direction u)"
  using assms sides_hold [of "\<lambda>f. chan f = u_user_lang u" "u_held_user u" f]
    sides_hold [of "\<lambda>f. chan f = u_other_lang u" "u_held_other u" f]
  by (auto simp: on_frame_def on_audio_def on_interim_def on_final_def finish_sentence_def sides_ok_def
      split: FrameKind.split option.splits)

lemma sides_commit:
  assumes "sides_ok chan u" "commit u d = (Some flushed, u')"
  shows "sides_ok chan u' \<and> u_direction u' = d \<and> d \<noteq> Direction_Unknown
     \<and> list_all (\<lambda>f. target d (u_user_lang u) (u_other_lang u) = Some (chan f)) flushed
     \<and> u_user_lang u' = u_user_lang u \<and> u_other_lang u' = u_other_lang u"
  using assms by (cases d) (auto simp: commit_def sides_ok_def list_all_iff split: if_splits)

lemma sides_pending:
  assumes "sides_ok chan u" "u_user_lang u \<noteq> u_other_lang u" "release_pending u = (pending, over, u')"
  shows "sides_ok chan u'
     \<and> (case pending of None \<Rightarrow> True | Some f \<Rightarrow> target (u_direction u) (u_user_lang u) (u_other_lang u) = Some (chan f))
     \<and> (u_direction u' = Direction_Unknown \<or> u_direction u' = u_direction u)"
  using assms sides_reset
  by (cases "u_direction u")
    (auto simp: release_pending_def take_pending_final_def sides_ok_def reset_def reset_keeping_last_final_def Let_def
      split: if_splits option.splits)

lemma release_ok:
  assumes "utterance_ok u" "release_pending u = (pending, over, u')"
  shows "utterance_ok u' \<and> u_user_lang u' = u_user_lang u \<and> u_other_lang u' = u_other_lang u"
proof (cases "has_pending_final u")
  case True
  then have "u' = reset (snd (take_pending_final u))"
    using assms(2) by (auto simp: release_pending_def Let_def split: prod.splits)
  then show ?thesis using reset_ok [OF take_pending_ok [OF assms(1)]] by simp
next
  case False
  with assms show ?thesis by (simp add: release_pending_def)
qed

text \<open>The invariant of a session of two languages.\<close>

definition session_ok :: "Env \<Rightarrow> (ustring \<Rightarrow> ustring) \<Rightarrow> Session \<Rightarrow> bool" where
  "session_ok E chan s \<longleftrightarrow>
     (let u = gt_utterance (ts_gate s); a = rv_user_lang (e_resolver E); b = rv_other_lang (e_resolver E)
      in u_user_lang u = a \<and> u_other_lang u = b \<and> utterance_ok u \<and> sides_ok chan u
         \<and> spoken_ok chan None (ts_out s)
         \<and> (u_direction u \<noteq> Direction_Unknown \<longrightarrow> last_told None (ts_out s) = target (u_direction u) a b)
         \<and> (ts_exhausted s \<longrightarrow> \<not> ts_audio s) \<and> (ts_audio s \<and> e_billing E \<longrightarrow> ts_meter s))"

lemma emit_direction_told:
  "d \<noteq> Direction_Unknown \<Longrightarrow> last_told t (emit_direction d R) = target d (rv_user_lang R) (rv_other_lang R)
     \<and> spoken_ok chan t (emit_direction d R)"
  by (cases d) (simp_all add: emit_direction_def)

text \<open>An utterance may be replaced by one of no direction, or of the same one.\<close>

lemma session_ok_utterance:
  assumes "session_ok E chan s" "utterance_ok u" "sides_ok chan u"
    and "u_user_lang u = rv_user_lang (e_resolver E)" "u_other_lang u = rv_other_lang (e_resolver E)"
    and "u_direction u = Direction_Unknown \<or> u_direction u = u_direction (gt_utterance (ts_gate s))"
    and "gt_utterance g = u"
  shows "session_ok E chan (s\<lparr>ts_gate := g\<rparr>)"
  using assms by (auto simp: session_ok_def Let_def)

lemma session_ok_cong:
  assumes "session_ok E chan s" "gt_utterance (ts_gate s') = gt_utterance (ts_gate s)" "ts_out s' = ts_out s"
    and "ts_exhausted s' = ts_exhausted s" "ts_audio s' = ts_audio s" "ts_meter s' = ts_meter s"
  shows "session_ok E chan s'"
  using assms by (simp add: session_ok_def)

lemma session_ok_emit:
  assumes "session_ok E chan s" "\<And>t. last_told t os = t" "\<And>t. spoken_ok chan t os"
  shows "session_ok E chan (emit os s)"
  using assms by (simp add: session_ok_def emit_def Let_def)

lemma gate_commit_Some:
  assumes "gate_commit g res = (Some flushed, g')"
  shows "\<exists>u. commit (gt_utterance g) (r_direction res) = (Some flushed, u) \<and> gt_utterance g' = u"
  using assms by (auto simp: gate_commit_def split: prod.splits option.splits)

lemma gate_commit_None: "gate_commit g res = (None, g') \<Longrightarrow> g' = g"
  by (auto simp: gate_commit_def split: prod.splits option.splits)

text \<open>Announcing a direction and sending what it releases.\<close>

lemma session_ok_commit:
  assumes "session_ok E chan s" "commit (gt_utterance (ts_gate s)) d = (Some flushed, u)"
    and "gt_utterance g = u"
  shows "session_ok E chan (emit (emit_direction d (e_resolver E) @ map Forward flushed) (s\<lparr>ts_gate := g\<rparr>))"
proof -
  let ?u = "gt_utterance (ts_gate s)"
  have ok: "utterance_ok ?u" "sides_ok chan ?u" "u_user_lang ?u = rv_user_lang (e_resolver E)"
    "u_other_lang ?u = rv_other_lang (e_resolver E)"
    using assms(1) by (simp_all add: session_ok_def Let_def)
  note c = sides_commit [OF ok(2) assms(2)]
  have "utterance_ok u" using commit_ok [OF ok(1), of d] assms(2) by simp
  with assms(1,3) c ok(3,4) emit_direction_told [of d "last_told None (ts_out s)" "e_resolver E" chan]
  show ?thesis by (simp add: session_ok_def emit_def Let_def spoken_forwards list_all_iff)
qed

lemma ask_ok: "session_ok E chan s \<Longrightarrow> session_ok E chan (ask stage s)"
  by (rule session_ok_cong) (simp_all add: ask_def)

lemma bump_ok: "session_ok E chan s \<Longrightarrow> session_ok E chan (on_gate bump s)"
  by (rule session_ok_cong) (simp_all add: on_gate_def bump_def)

lemma end_utterance_ok:
  assumes "session_ok E chan s"
  shows "session_ok E chan (on_gate end_utterance s)"
proof -
  have "utterance_ok (gt_utterance (ts_gate s))" using assms by (simp add: session_ok_def Let_def)
  from reset_ok [OF this] assms sides_reset show ?thesis
    unfolding on_gate_def
    by (intro session_ok_utterance [where u = "reset (gt_utterance (ts_gate s))"])
      (auto simp: session_ok_def Let_def end_utterance_def reset_def reset_keeping_last_final_def)
qed

lemma hear_ok:
  assumes "session_ok E chan s"
  shows "session_ok E chan (hear (e_resolver E) lang t s)"
proof -
  let ?R = "e_resolver E"
  obtain wants u where n: "note_original (gt_utterance (ts_gate s)) lang t = (wants, u)" by fastforce
  let ?g = "(ts_gate s)\<lparr>gt_utterance := u\<rparr>"
  have ok: "utterance_ok (gt_utterance (ts_gate s))" "sides_ok chan (gt_utterance (ts_gate s))"
    "u_user_lang (gt_utterance (ts_gate s)) = rv_user_lang ?R" "u_other_lang (gt_utterance (ts_gate s)) = rv_other_lang ?R"
    using assms by (simp_all add: session_ok_def Let_def)
  have u: "utterance_ok u" "sides_ok chan u" "u_user_lang u = rv_user_lang ?R" "u_other_lang u = rv_other_lang ?R"
    "u_direction u = Direction_Unknown \<or> u_direction u = u_direction (gt_utterance (ts_gate s))"
    using note_original_ok [OF ok(1), of lang t] sides_note [OF ok(2), of lang t] ok(3,4) langs_kept(1,2) [of _ lang t] n
    by (auto simp: note_original_def stop_draining_def Let_def split: if_splits)
  have s1: "session_ok E chan (s\<lparr>ts_gate := ?g\<rparr>)"
    by (rule session_ok_utterance [OF assms u]) simp
  define l where "l = (if u_direction u = Direction_Unknown then resolve_local ?R (u_original u) else Direction_Unknown)"
  obtain flushed g where c: "gate_commit ?g (anchored l) = (flushed, g)" by fastforce
  show ?thesis
  proof (cases flushed)
    case (Some fs)
    from gate_commit_Some [OF c [unfolded Some]] obtain u' where
      "commit u l = (Some fs, u')" "gt_utterance g = u'" by (auto simp: anchored_def)
    with session_ok_commit [OF s1, of l fs u' g] show ?thesis
      unfolding hear_def Let_def n prod.case l_def [symmetric]
      by (simp add: n c Some l_def [symmetric])
  next
    case None
    have g: "g = ?g" by (rule gate_commit_None [OF c [unfolded None]])
    obtain shown g' where p: "(if u_direction (gt_utterance g) = Direction_Unknown
        then preview g (u_original (gt_utterance g)) else ([], g)) = (shown, g')" by fastforce
    have p': "last_told told shown = told" "spoken_ok chan told shown" "gt_utterance g' = u" for told
      using p g by (auto simp: preview_def split: if_splits)
    have "session_ok E chan (emit shown (s\<lparr>ts_gate := g'\<rparr>))"
      by (rule session_ok_emit) (use p' session_ok_utterance [OF assms u] in auto)
    then show ?thesis
      unfolding hear_def Let_def n prod.case l_def [symmetric] c None option.case p
      by (simp add: ask_ok)
  qed
qed

lemma route_ok:
  assumes "session_ok E chan s" "chan f = lang"
    and "lang = rv_user_lang (e_resolver E) \<or> lang = rv_other_lang (e_resolver E)"
  shows "session_ok E chan (route lang f s)"
proof -
  let ?u = "gt_utterance (ts_gate s)"
  obtain out u where o': "on_frame ?u lang f = (out, u)" by fastforce
  have ok: "utterance_ok ?u" "sides_ok chan ?u" "u_user_lang ?u = rv_user_lang (e_resolver E)"
    "u_other_lang ?u = rv_other_lang (e_resolver E)"
    using assms(1) by (simp_all add: session_ok_def Let_def)
  have "lang = u_user_lang ?u \<or> lang = u_other_lang ?u" using assms(3) ok(3,4) by simp
  note fr = sides_frame [OF ok(2) assms(2) this, unfolded o' fst_conv snd_conv]
  have u: "utterance_ok u" "u_user_lang u = rv_user_lang (e_resolver E)" "u_other_lang u = rv_other_lang (e_resolver E)"
    using on_frame_ok [OF ok(1), of lang f] langs_kept(5,6) [of ?u lang f] ok(3,4) o' by simp_all
  have s1: "session_ok E chan (s\<lparr>ts_gate := (ts_gate s)\<lparr>gt_utterance := u\<rparr>\<rparr>)"
    by (rule session_ok_utterance [OF assms(1) u(1) _ u(2,3)]) (use fr in auto)
  have "spoken_ok chan (last_told None (ts_out s)) (case out of Send fs \<Rightarrow> map Forward fs | Hold \<Rightarrow> [])"
  proof (cases out)
    case (Send fs)
    with fr assms(1,2) ok show ?thesis
      by (auto simp: session_ok_def Let_def is_target_def)
  qed simp
  then have "session_ok E chan (emit (case out of Send fs \<Rightarrow> map Forward fs | Hold \<Rightarrow> [])
      (s\<lparr>ts_gate := (ts_gate s)\<lparr>gt_utterance := u\<rparr>\<rparr>))"
    using s1 by (cases out) (simp_all add: session_ok_def emit_def Let_def)
  then show ?thesis
    unfolding route_def o' prod.case Let_def by (simp add: bump_ok ask_ok)
qed

lemma route_frame_ok:
  assumes "session_ok E chan s" "chan f = lang"
    and "lang = rv_user_lang (e_resolver E) \<or> lang = rv_other_lang (e_resolver E)"
  shows "session_ok E chan (route_frame (e_resolver E) json lang f s)"
  using assms route_ok hear_ok by (auto simp: route_frame_def Let_def split: option.split)

lemma on_verdict_ok:
  assumes "session_ok E chan s"
  shows "session_ok E chan (on_verdict (e_resolver E) gen outcome s)"
proof -
  have close: "session_ok E chan s' \<Longrightarrow> session_ok E chan (close_pending s')" for s'
    by (simp add: close_pending_def end_utterance_ok)
  have s1: "session_ok E chan (on_gate (\<lambda>g. g\<lparr>gt_resolving := False\<rparr>) s)"
    by (rule session_ok_cong [OF assms]) (simp_all add: on_gate_def)
  then have f: "session_ok E chan ((on_gate (\<lambda>g. g\<lparr>gt_resolving := False\<rparr>) s)\<lparr>ts_failures := n\<rparr>)" for n
    by (rule session_ok_cong) simp_all
  show ?thesis
  proof (cases outcome)
    case (Inl e)
    with f close show ?thesis
      by (auto simp: on_verdict_def Let_def intro!: close session_ok_emit)
  next
    case (Inr res)
    define s2 where "s2 = (on_gate (\<lambda>g. g\<lparr>gt_resolving := False\<rparr>) s)\<lparr>ts_failures := 0\<rparr>"
    have s2: "session_ok E chan s2" unfolding s2_def by (rule f)
    have ne: "rv_user_lang (e_resolver E) \<noteq> rv_other_lang (e_resolver E)"
      using assms by (auto simp: session_ok_def Let_def utterance_ok_def)
    obtain flushed g where c: "gate_commit (ts_gate s2) res = (flushed, g)" by fastforce
    have "session_ok E chan (emit (emit_direction (r_direction res) (e_resolver E) @ map Forward fs
            @ (case pending of None \<Rightarrow> [] | Some f \<Rightarrow> [Forward f]))
          (s2\<lparr>ts_gate := (if over then bump (g\<lparr>gt_utterance := u\<rparr>) else g\<lparr>gt_utterance := u\<rparr>)\<rparr>))"
      if fl: "flushed = Some fs" and rel: "release_pending (gt_utterance g) = (pending, over, u)" for fs pending over u
    proof -
      from gate_commit_Some [OF c [unfolded fl]] obtain u0 where
        u0: "commit (gt_utterance (ts_gate s2)) (r_direction res) = (Some fs, u0)" "gt_utterance g = u0" by blast
      have mid: "session_ok E chan (emit (emit_direction (r_direction res) (e_resolver E) @ map Forward fs) (s2\<lparr>ts_gate := g\<rparr>))"
        by (rule session_ok_commit [OF s2 u0])
      let ?m = "emit (emit_direction (r_direction res) (e_resolver E) @ map Forward fs) (s2\<lparr>ts_gate := g\<rparr>)"
      have gm: "ts_gate ?m = g" by (simp add: emit_def)
      have ok: "utterance_ok u0" "sides_ok chan u0" "u_user_lang u0 = rv_user_lang (e_resolver E)"
        "u_other_lang u0 = rv_other_lang (e_resolver E)"
        using mid u0(2) unfolding session_ok_def gm by (simp_all add: Let_def)
      have d: "u_direction u0 = r_direction res" "r_direction res \<noteq> Direction_Unknown"
        using u0(1) by (auto simp: commit_def split: if_splits)
      have told: "last_told None (ts_out ?m) = target (r_direction res) (rv_user_lang (e_resolver E)) (rv_other_lang (e_resolver E))"
        using mid d u0(2) unfolding session_ok_def gm by (simp add: Let_def)
      have "u_user_lang u0 \<noteq> u_other_lang u0" using ne ok(3,4) by simp
      note p = sides_pending [OF ok(2) this rel [unfolded u0(2)]]
      have u: "utterance_ok u" "u_user_lang u = u_user_lang u0" "u_other_lang u = u_other_lang u0"
        using release_ok [OF ok(1) rel [unfolded u0(2)]] by simp_all
      have "session_ok E chan (?m\<lparr>ts_gate := (if over then bump (g\<lparr>gt_utterance := u\<rparr>) else g\<lparr>gt_utterance := u\<rparr>)\<rparr>)"
        by (rule session_ok_utterance [OF mid u(1)]) (use p u ok(3,4) u0(2) gm in \<open>auto simp: bump_def\<close>)
      moreover have "spoken_ok chan (last_told None (ts_out ?m)) (case pending of None \<Rightarrow> [] | Some f \<Rightarrow> [Forward f])"
        unfolding told using p ok(3,4) d(1) by (cases pending) simp_all
      ultimately show ?thesis
        by (cases pending) (simp_all add: session_ok_def emit_def Let_def)
    qed
    then show ?thesis
      using Inr s2 close [OF s2] c
      by (auto simp: on_verdict_def Let_def s2_def [symmetric] split: option.split prod.split)
  qed
qed

definition heard_on :: "Env \<Rightarrow> (ustring \<Rightarrow> ustring) \<Rightarrow> talk_event \<Rightarrow> bool" where
  "heard_on E chan ev =
     (case ev of
        UserFrame f \<Rightarrow> chan f = rv_user_lang (e_resolver E)
      | OtherFrame f \<Rightarrow> chan f = rv_other_lang (e_resolver E)
      | SourceFrame f \<Rightarrow> classify_frame f = FrameKind_Other
      | _ \<Rightarrow> True)"

lemma session_ok_flags:
  assumes "session_ok E chan s" "ex \<longrightarrow> \<not> au" "au \<and> e_billing E \<longrightarrow> me"
  shows "session_ok E chan (s\<lparr>ts_exhausted := ex, ts_audio := au, ts_meter := me\<rparr>)"
  using assms by (simp add: session_ok_def Let_def)

lemma close_gate_ok:
  assumes "session_ok E chan s"
  shows "session_ok E chan (on_gate close_gate s)"
  by (rule session_ok_cong [OF end_utterance_ok [OF assms]]) (simp_all add: on_gate_def close_gate_def)

lemma talk_step_ok:
  assumes "session_ok E chan s" "heard_on E chan ev"
  shows "session_ok E chan (talk_step E ev s)"
proof (cases ev)
  case (VerdictEvent i reply)
  have "session_ok E chan (s\<lparr>ts_questions := qs\<rparr>)" for qs
    by (rule session_ok_cong [OF assms(1)]) simp_all
  with VerdictEvent assms(1) show ?thesis by (simp add: talk_step_def Let_def on_verdict_ok)
next
  case (SourceFrame f)
  with assms show ?thesis by (simp add: talk_step_def heard_on_def session_ok_def emit_def Let_def)
next
  case (StartMsg outcome)
  have "session_ok E chan (s\<lparr>ts_audio := True, ts_meter := e_billing E\<rparr>)" if "\<not> ts_exhausted s"
    using session_ok_flags [OF assms(1), of False True "e_billing E"] that by (simp add: session_ok_def Let_def)
  with StartMsg assms(1) show ?thesis
    by (auto simp: talk_step_def split: SessionOutcome.split intro!: session_ok_emit)
next
  case Exhausted
  have "session_ok E chan (s\<lparr>ts_exhausted := True, ts_audio := False, ts_meter := False\<rparr>)"
    by (rule session_ok_flags [OF assms(1)]) simp_all
  with Exhausted show ?thesis by (simp add: talk_step_def close_gate_ok)
next
  case StopMsg
  have "session_ok E chan (s\<lparr>ts_audio := False, ts_meter := False\<rparr>)"
    using assms(1) by (simp add: session_ok_def Let_def)
  with StopMsg show ?thesis by (simp add: talk_step_def close_gate_ok)
next
  case (AudioIn taken)
  have "session_ok E chan (s\<lparr>ts_audio := False\<rparr>)" using assms(1) by (simp add: session_ok_def Let_def)
  with AudioIn assms(1) show ?thesis by (simp add: talk_step_def)
qed (use assms in \<open>auto simp: talk_step_def heard_on_def Let_def intro!: route_frame_ok\<close>)

lemma talk_run_ok:
  "session_ok E chan s \<Longrightarrow> list_all (heard_on E chan) evs \<Longrightarrow> session_ok E chan (talk_run E evs s)"
  by (induction evs arbitrary: s) (simp_all add: talk_step_ok)

lemma session_start_ok:
  "rv_user_lang (e_resolver E) \<noteq> rv_other_lang (e_resolver E) \<Longrightarrow> session_ok E chan (session_start (e_resolver E) sid)"
  by (simp add: session_ok_def session_start_def gate_start_def utterance_new_ok sides_ok_def Let_def)
    (simp add: utterance_new_def)

text \<open>
  C10: Only the announced side is spoken: in every conversation between two languages, with
  frames, verdicts, failures, stops and starts in any order, each translated frame that
  reaches the browser, live, flushed from what was held or parked, came from the channel of
  the language that the browser was last told is being spoken to, and none is sent before a
  direction was told; what is held stays within a hundred frames for each side.
\<close>

theorem only_announced_side_spoken:
  assumes "rv_user_lang (e_resolver E) \<noteq> rv_other_lang (e_resolver E)"
    and "list_all (heard_on E chan) evs"
  shows "case talk_run E evs (session_start (e_resolver E) sid) of s \<Rightarrow>
     spoken_ok chan None (ts_out s)
     \<and> length (u_held_user (gt_utterance (ts_gate s))) \<le> 100
     \<and> length (u_held_other (gt_utterance (ts_gate s))) \<le> 100"
  using talk_run_ok [OF session_start_ok [OF assms(1), of chan sid] assms(2)]
  by (simp add: session_ok_def Let_def utterance_ok_def MAX_HELD_FRAMES_def)

text \<open>
  Speech is never translated unpaid: with billing configured, whenever the engine takes
  audio the meter runs, and once the credit is exhausted no start opens the engine again.
\<close>

theorem audio_is_metered:
  assumes "rv_user_lang (e_resolver E) \<noteq> rv_other_lang (e_resolver E)" and "list_all (heard_on E chan) evs"
  shows "case talk_run E evs (session_start (e_resolver E) sid) of s \<Rightarrow>
     (ts_audio s \<and> e_billing E \<longrightarrow> ts_meter s)
     \<and> (ts_exhausted s \<longrightarrow> \<not> ts_audio s \<and> \<not> ts_audio (talk_step E (StartMsg Started) s))"
  using talk_run_ok [OF session_start_ok [OF assms(1), of chan sid] assms(2)]
  by (auto simp: session_ok_def Let_def talk_step_def emit_def)

text \<open>
  The end of a sentence is not the end of its voice: once a final of the spoken side has
  been forwarded, the rest of its translated audio is forwarded frame by frame while the
  other side's stays silent, and the losing session's copy of the same sentence changes
  nothing, whatever its translation.
\<close>

theorem tail_is_spoken:
  assumes "u_direction u \<noteq> Direction_Unknown" and "is_target u lang" "\<not> is_target u other"
    and "classify_frame f = SubtitleFinal" "u_last_final u \<noteq> Some f" "u_original u \<noteq> []"
    and "gt_utterance (ts_gate s) = snd (on_frame u lang f)"
  shows "fst (on_frame u lang f) = Send [f]
     \<and> (classify_frame a = TranslatedAudio \<longrightarrow>
          on_frame (gt_utterance (ts_gate s)) lang a = (Send [a], gt_utterance (ts_gate s))
          \<and> on_frame (gt_utterance (ts_gate s)) other a = (Hold, gt_utterance (ts_gate s)))
     \<and> (classify_frame e = SubtitleFinal \<and> original_text json e = Some t \<and> trim t = u_original u \<longrightarrow>
          route_frame R json other e s = s)"
proof -
  have u1: "snd (on_frame u lang f) = finish_sentence (u\<lparr>u_last_final := Some f\<rparr>)"
    and out: "fst (on_frame u lang f) = Send [f]"
    using assms by (simp_all add: on_frame_def on_final_def)
  have sel: "u_direction (gt_utterance (ts_gate s)) = u_direction u" "u_original (gt_utterance (ts_gate s)) = []"
    "u_spoken_original (gt_utterance (ts_gate s)) = Some (u_original u)"
    "is_target (gt_utterance (ts_gate s)) l = is_target u l" for l
    using assms(6,7) by (simp_all add: u1 finish_sentence_def is_target_def)
  then show ?thesis
    using assms out by (auto simp: on_frame_def on_audio_def route_frame_def is_trailing_echo_def)
qed

section \<open>Runs where the conversation does not do what it says\<close>

definition FINAL :: ustring where
  \<open>FINAL = ustr ''{"type":"subtitle_final"''\<close>

definition INTERIM :: ustring where
  \<open>INTERIM = ustr ''{"type":"subtitle_interim"''\<close>

definition AUDIO :: ustring where
  \<open>AUDIO = ustr ''{"type":"translated_audio"''\<close>

text \<open>Frames whose words are what follows their kind; the languages of a conversation.\<close>

definition sample_json :: "ustring \<Rightarrow> ustring option" where
  "sample_json f =
     (case strip_prefix FINAL f of Some w \<Rightarrow> Some w | None \<Rightarrow> strip_prefix INTERIM f)"

definition sample_env :: "string \<Rightarrow> string \<Rightarrow> Env" where
  "sample_env a b = \<lparr>e_resolver = \<lparr>rv_user_lang = ustr a, rv_other_lang = ustr b, rv_lower = id\<rparr>,
     e_json_original = sample_json, e_billing = True\<rparr>"

definition talk_sample :: "string \<Rightarrow> string \<Rightarrow> talk_event list \<Rightarrow> Session" where
  "talk_sample a b evs = talk_run (sample_env a b) evs (session_start (e_resolver (sample_env a b)) [])"

lemma sample_frames [simp]:
  "classify_frame (FINAL @ w) = SubtitleFinal" "classify_frame (INTERIM @ w) = SubtitleInterim"
  "classify_frame (AUDIO @ w) = TranslatedAudio"
  "sample_json (FINAL @ w) = Some w" "sample_json (INTERIM @ w) = Some w" "sample_json (AUDIO @ w) = None"
  by (simp_all add: classify_frame_def sample_json_def FINAL_def INTERIM_def AUDIO_def ustr_def starts_with_def)

definition GOOD :: ustring where
  "GOOD = [103, 111, 111, 100]"

definition KANA :: ustring where
  "KANA = [0x3042, 0x3044, 0x3046, 0x3048]"

definition THANKS :: ustring where
  "THANKS = [115, 105, 32, 103, 114, 97, 122, 105, 101]"

definition WALK :: ustring where
  "WALK = [118, 111, 114, 114, 101, 105, 32, 97, 110, 100, 97, 114, 101]"

definition EAT :: ustring where
  "EAT = [113, 117, 105, 101, 114, 111, 32, 99, 111, 109, 101, 114]"

lemma words [simp]:
  "trim GOOD = GOOD" "trim KANA = KANA" "GOOD \<noteq> []" "KANA \<noteq> []" "length GOOD = 4" "length KANA = 4"
  "GOOD \<noteq> KANA" "KANA \<noteq> GOOD" "\<not> starts_with KANA GOOD" "starts_with w []"
  "trim THANKS = THANKS" "trim WALK = WALK" "trim EAT = EAT" "THANKS \<noteq> []" "WALK \<noteq> []" "EAT \<noteq> []"
  "length THANKS = 9" "length WALK = 13" "length EAT = 12" "WALK \<noteq> EAT" "EAT \<noteq> WALK"
  by (simp_all add: GOOD_def KANA_def THANKS_def WALK_def EAT_def trim_def is_whitespace_def starts_with_def)

lemma sample_langs [simp]: "ustr ''en'' \<noteq> ustr ''ja''" "ustr ''ja'' \<noteq> ustr ''en''" "ustr ''it'' \<noteq> ustr ''es''" "ustr ''es'' \<noteq> ustr ''it''"
  by (simp_all add: ustr_def)

lemma sample_hints [simp]:
  "script_hint GOOD (ustr ''en'') (ustr ''ja'') = UserToOther"
  "script_hint w (ustr ''it'') (ustr ''es'') = Direction_Unknown"
  by (simp_all add: script_hint_def GOOD_def count_hits_exclusive exclusive_def char_script_def in_range_def MIN_SCRIPT_EVIDENCE_def share_ge_margin_def)

lemma frame_ne [simp]: "FINAL @ w \<noteq> INTERIM @ v" "INTERIM @ v \<noteq> FINAL @ w"
  by (simp_all add: FINAL_def INTERIM_def ustr_def)

text \<open>The definitions that run a session.\<close>

lemmas talk_eval = talk_sample_def sample_env_def session_start_def gate_start_def utterance_new_def
  talk_step_def route_frame_def route_def hear_def original_text_def is_trailing_echo_def is_target_def
  note_original_def stop_draining_def gate_commit_def commit_def anchored_def resolve_local_def
  emit_def emit_direction_def on_frame_def on_audio_def on_interim_def on_final_def finish_sentence_def
  on_gate_def bump_def preview_def ask_def spawn_resolve_def has_pending_final_def hold_frame_def

text \<open>
  A repeated sentence is swallowed and turns the conversation around: when somebody says
  the same sentence twice, the second final is taken for a provider's repeat, the utterance
  stays latched, and the next sentence of the other person is not spoken to its listener but
  echoed to its speaker in the speaker's own language.
\<close>

theorem repeat_inverts_turn:
  "ts_out (talk_sample ''en'' ''ja''
      [OtherFrame (FINAL @ GOOD),
       OtherFrame (INTERIM @ GOOD), OtherFrame (FINAL @ GOOD),
       UserFrame (FINAL @ KANA), OtherFrame (FINAL @ KANA)]) =
     [TalkDirection (ustr ''en'') (ustr ''ja''), Forward (FINAL @ GOOD),
      TalkDirection (ustr ''en'') (ustr ''ja''), Forward (INTERIM @ GOOD), Forward (FINAL @ KANA)]"
  by (simp add: talk_eval Let_def RESOLVE_STEP_CHARS_def cong: let_weak_cong)

text \<open>The definitions that answer a question.\<close>

lemma sample_spoken [simp]:
  "from_spoken (trim (ustr ''it'')) (ustr ''it'') (ustr ''es'') = UserToOther"
  "from_spoken (trim (ustr ''es'')) (ustr ''it'') (ustr ''es'') = OtherToUser"
  "trim (ustr ''it'') \<noteq> []" "trim (ustr ''es'') \<noteq> []" "trim (ustr ''it'') \<noteq> ustr ''other''" "trim (ustr ''es'') \<noteq> ustr ''other''"
  by (simp_all add: from_spoken_def base_code_def ustr_def trim_def is_whitespace_def)

lemmas verdict_eval = on_verdict_def outcome_of_def resolver_resolve_def resolve_final_def resolve_with_floor_def
  classify_def interpret_verdict_def release_pending_def take_pending_final_def reset_def
  reset_keeping_last_final_def close_pending_def end_utterance_def close_gate_def corroborated_def
  Resolution_UNKNOWN_def MIN_RESOLVE_CHARS_def MIN_FINAL_RESOLVE_CHARS_def MIN_CONFIDENCE_def WEAK_CONFIDENCE_def

text \<open>
  A verdict about part of a sentence discards the whole: when the classifier abstains on a
  partial text after the final was parked, the sentence is closed out, and the verdict on the
  complete text, which places it, comes too late; in the other order it is spoken.
\<close>

theorem partial_verdict_discards_final:
  "ts_out (talk_sample ''it'' ''es''
      [OtherFrame (INTERIM @ THANKS), OtherFrame (FINAL @ THANKS),
       VerdictEvent 0 (Inr (ustr ''it'', Some (9 / 10))), VerdictEvent 0 (Inr (ustr ''it'', Some (9 / 10)))])
   = [Preview [] THANKS]
   \<and> ts_out (talk_sample ''it'' ''es''
      [OtherFrame (INTERIM @ THANKS), OtherFrame (FINAL @ THANKS),
       VerdictEvent 1 (Inr (ustr ''it'', Some (9 / 10))), VerdictEvent 0 (Inr (ustr ''it'', Some (9 / 10)))])
   = [Preview [] THANKS, TalkDirection (ustr ''it'') (ustr ''es''), Forward (FINAL @ THANKS)]"
  by (simp add: talk_eval verdict_eval Let_def RESOLVE_STEP_CHARS_def cong: let_weak_cong)

text \<open>
  A late verdict lets the echo through: audio of the losing session that arrives after the
  sentence was released is held for the next one, and when that goes the other way it is
  flushed and played as its translation.
\<close>

theorem late_verdict_plays_echo:
  "ts_out (talk_sample ''it'' ''es''
      [OtherFrame (FINAL @ WALK), VerdictEvent 1 (Inr (ustr ''it'', Some (9 / 10))),
       UserFrame (AUDIO @ WALK),
       UserFrame (FINAL @ EAT), VerdictEvent 1 (Inr (ustr ''es'', Some (9 / 10)))]) =
     [Preview [] WALK, TalkDirection (ustr ''it'') (ustr ''es''), Forward (FINAL @ WALK),
      Preview [] EAT, TalkDirection (ustr ''es'') (ustr ''it''), Forward (AUDIO @ WALK), Forward (FINAL @ EAT)]"
  by (simp add: talk_eval verdict_eval Let_def RESOLVE_STEP_CHARS_def MAX_HELD_FRAMES_def cong: let_weak_cong)

text \<open>
  A dead engine leaves the meter running: when the engine's channel is closed the session
  drops the audio, but not the meter, which goes on until the client stops or leaves.
\<close>

theorem closed_engine_keeps_meter:
  "case talk_sample ''it'' ''es'' [StartMsg Started, AudioIn True, AudioIn False] of
     s \<Rightarrow> \<not> ts_audio s \<and> ts_meter s"
  by (simp add: talk_eval)

section \<open>The properties on concrete conversations\<close>

theorem only_announced_side_spoken_witness:
  "case talk_run (sample_env ''en'' ''ja'') [UserFrame (AUDIO @ KANA), OtherFrame (FINAL @ GOOD), StopMsg]
      (session_start (e_resolver (sample_env ''en'' ''ja'')) []) of s \<Rightarrow>
     spoken_ok (\<lambda>f. if f = AUDIO @ KANA then ustr ''en'' else ustr ''ja'') None (ts_out s)
     \<and> length (u_held_user (gt_utterance (ts_gate s))) \<le> 100
     \<and> length (u_held_other (gt_utterance (ts_gate s))) \<le> 100"
proof (rule only_announced_side_spoken)
  have "FINAL @ GOOD \<noteq> AUDIO @ KANA" by (simp add: FINAL_def AUDIO_def ustr_def)
  then show "list_all (heard_on (sample_env ''en'' ''ja'') (\<lambda>f. if f = AUDIO @ KANA then ustr ''en'' else ustr ''ja''))
      [UserFrame (AUDIO @ KANA), OtherFrame (FINAL @ GOOD), StopMsg]"
    by (simp add: heard_on_def sample_env_def)
qed (simp add: sample_env_def)

theorem audio_is_metered_witness:
  "case talk_run (sample_env ''en'' ''ja'') [StartMsg Started, AudioIn True]
      (session_start (e_resolver (sample_env ''en'' ''ja'')) []) of s \<Rightarrow> ts_audio s \<and> ts_meter s"
proof -
  let ?s = "talk_run (sample_env ''en'' ''ja'') [StartMsg Started, AudioIn True]
      (session_start (e_resolver (sample_env ''en'' ''ja'')) [])"
  have "ts_audio ?s \<and> e_billing (sample_env ''en'' ''ja'') \<longrightarrow> ts_meter ?s"
    using audio_is_metered [of "sample_env ''en'' ''ja''" "\<lambda>_. []" "[StartMsg Started, AudioIn True]" "[]"]
    by (simp add: heard_on_def sample_env_def)
  moreover have "ts_audio ?s" "e_billing (sample_env ''en'' ''ja'')"
    by (simp_all add: session_start_def talk_step_def sample_env_def)
  ultimately show ?thesis by simp
qed

theorem tail_is_spoken_witness:
  "\<exists>u s. fst (on_frame u (ustr ''ja'') (FINAL @ GOOD)) = Send [FINAL @ GOOD]
     \<and> on_frame (gt_utterance (ts_gate s)) (ustr ''ja'') (AUDIO @ GOOD) = (Send [AUDIO @ GOOD], gt_utterance (ts_gate s))
     \<and> route_frame (e_resolver (sample_env ''en'' ''ja'')) sample_json (ustr ''en'') (FINAL @ GOOD) s = s"
proof -
  let ?u = "(utterance_new (ustr ''en'') (ustr ''ja''))\<lparr>u_direction := UserToOther, u_original := GOOD\<rparr>"
  let ?s0 = "session_start (e_resolver (sample_env ''en'' ''ja'')) []"
  let ?s = "?s0\<lparr>ts_gate := (ts_gate ?s0)\<lparr>gt_utterance := snd (on_frame ?u (ustr ''ja'') (FINAL @ GOOD))\<rparr>\<rparr>"
  have "fst (on_frame ?u (ustr ''ja'') (FINAL @ GOOD)) = Send [FINAL @ GOOD]
     \<and> (classify_frame (AUDIO @ GOOD) = TranslatedAudio \<longrightarrow>
          on_frame (gt_utterance (ts_gate ?s)) (ustr ''ja'') (AUDIO @ GOOD) = (Send [AUDIO @ GOOD], gt_utterance (ts_gate ?s))
          \<and> on_frame (gt_utterance (ts_gate ?s)) (ustr ''en'') (AUDIO @ GOOD) = (Hold, gt_utterance (ts_gate ?s)))
     \<and> (classify_frame (FINAL @ GOOD) = SubtitleFinal \<and> original_text sample_json (FINAL @ GOOD) = Some GOOD
          \<and> trim GOOD = u_original ?u \<longrightarrow>
          route_frame (e_resolver (sample_env ''en'' ''ja'')) sample_json (ustr ''en'') (FINAL @ GOOD) ?s = ?s)"
    by (rule tail_is_spoken) (simp_all add: utterance_new_def is_target_def)
  then have "fst (on_frame ?u (ustr ''ja'') (FINAL @ GOOD)) = Send [FINAL @ GOOD]
     \<and> on_frame (gt_utterance (ts_gate ?s)) (ustr ''ja'') (AUDIO @ GOOD) = (Send [AUDIO @ GOOD], gt_utterance (ts_gate ?s))
     \<and> route_frame (e_resolver (sample_env ''en'' ''ja'')) sample_json (ustr ''en'') (FINAL @ GOOD) ?s = ?s"
    by (simp del: session_start_def add: original_text_def)
  then show ?thesis by blast
qed

end
