(* ===== verification/Voip_Session.thy ===== *)
theory Voip_Session
  imports Engine_Registry Rooms Media_Bridge Webhook Media_Ticket
begin

text \<open>
  A telephone in a room, \<^verbatim>\<open>server/src/voip/session.rs\<close>: the legs that wait for their media socket,
  the telephone as a peer, the engine session and its fallback, and how the end of the media
  ends the call. The database of a call, its rooms and its parked legs are one record; what
  other tasks do between two steps is an argument. A carrier's hang-up is recorded as asked
  for. JSON, the tickets' cryptography and the engines are parameters. A missing pool or
  carrier is a flag, a failing read has no row.
\<close>

section \<open>Parked legs\<close>

definition PHONE_PEER_NAME :: string where
  "PHONE_PEER_NAME = ''Phone''"

record PendingLeg =
  pl_call_id :: nat
  pl_session_id :: nat
  pl_org_id :: nat
  pl_user_id :: "nat option"
  pl_room :: string
  pl_peer_id :: string
  pl_conn :: nat
  pl_engine_id :: string
  pl_phone_language :: string
  pl_from_room :: nat

type_synonym LiveCalls = "(nat, PendingLeg) kmap"

definition park :: "PendingLeg \<Rightarrow> LiveCalls \<Rightarrow> LiveCalls" where
  "park leg pending = AList.update (pl_call_id leg) leg pending"

definition take_leg :: "nat \<Rightarrow> LiveCalls \<Rightarrow> PendingLeg option \<times> LiveCalls" where
  "take_leg call pending = (map_of pending call, AList.delete call pending)"

definition peek :: "nat \<Rightarrow> LiveCalls \<Rightarrow> (string \<times> string) option" where
  "peek call pending = map_option (\<lambda>l. (pl_room l, pl_peer_id l)) (map_of pending call)"

definition discard :: "nat \<Rightarrow> LiveCalls \<Rightarrow> LiveCalls" where
  "discard call pending = snd (take_leg call pending)"

definition live_len :: "LiveCalls \<Rightarrow> nat" where
  "live_len pending = length pending"

record PhonePeer =
  pp_session_id :: nat
  pp_room :: string
  pp_peer_id :: string
  pp_conn :: nat
  pp_from_room :: nat

text \<open>
  \<open>uuid\<close>, \<open>conn\<close>, \<open>tx\<close> and \<open>session\<close> are the fresh identifiers: of the peer, of the connection, of its
  channel and of the room if it is new.
\<close>

definition create_phone_peer ::
  "('f, 'j) RoomManager \<Rightarrow> string \<Rightarrow> string \<Rightarrow> string \<Rightarrow> string \<Rightarrow> nat \<Rightarrow> nat \<Rightarrow> nat
     \<Rightarrow> (unit + PhonePeer) \<times> ('f, 'j) RoomManager" where
  "create_phone_peer m room engine_id phone_language uuid conn tx session =
     (let peer_id = PHONE_PEER_ID_PREFIX @ uuid;
          peer = \<lparr>p_id = peer_id, p_conn = conn, p_name = PHONE_PEER_NAME, p_lang = phone_language,
                  p_user_id = None, p_engine = engine_id, p_avatar_url = None, p_voice_id = None,
                  p_tx = tx, p_speaking = False\<rparr>
      in case join (m\<lparr>chans := (chans m)(tx := channel OUT_CHANNEL_CAP)\<rparr>) room peer Private session of
           (Inl _, m1) \<Rightarrow> (Inl (), m1)
         | (Inr joined, m1) \<Rightarrow>
             (Inr \<lparr>pp_session_id = j_session_id joined, pp_room = room, pp_peer_id = peer_id,
                   pp_conn = conn, pp_from_room = tx\<rparr>, m1))"

text \<open>The guard of a peer whose call may not come about.\<close>

record PeerGuard =
  pg_room :: string
  pg_peer_id :: string
  pg_conn :: nat
  pg_armed :: bool

definition guard_new :: "PhonePeer \<Rightarrow> PeerGuard" where
  "guard_new p = \<lparr>pg_room = pp_room p, pg_peer_id = pp_peer_id p, pg_conn = pp_conn p, pg_armed = True\<rparr>"

definition disarm :: "PeerGuard \<Rightarrow> PeerGuard" where
  "disarm g = g\<lparr>pg_armed := False\<rparr>"

definition guard_drop :: "PeerGuard \<Rightarrow> ('f, 'j) RoomManager \<Rightarrow> ('f, 'j) RoomManager" where
  "guard_drop g m = (if pg_armed g then snd (remove m (pg_room g) (pg_peer_id g) (pg_conn g)) else m)"

definition park_phone_peer ::
  "PhonePeer \<Rightarrow> nat \<Rightarrow> nat \<Rightarrow> nat option \<Rightarrow> string \<Rightarrow> string \<Rightarrow> LiveCalls \<Rightarrow> LiveCalls" where
  "park_phone_peer peer call org user engine_id phone_language =
     park \<lparr>pl_call_id = call, pl_session_id = pp_session_id peer, pl_org_id = org, pl_user_id = user,
           pl_room = pp_room peer, pl_peer_id = pp_peer_id peer, pl_conn = pp_conn peer,
           pl_engine_id = engine_id, pl_phone_language = phone_language,
           pl_from_room = pp_from_room peer\<rparr>"

section \<open>The host of the calls\<close>

text \<open>What an engine is given that the code decides here.\<close>

record SessionDeps =
  sd_transcripts :: bool
  sd_listener_pays :: bool

record ('f, 'j) CallHost =
  h_rooms :: "('f, 'j) RoomManager"
  h_live :: LiveCalls
  h_world :: VoipWorld
  h_pool :: bool
  h_carrier :: bool
  h_hung_up :: "string list"
  h_sessions :: "(string \<times> SessionDeps) list"
  h_finalized :: "nat list"

definition on_rooms ::
  "(('f, 'j) RoomManager \<Rightarrow> ('f, 'j) RoomManager) \<Rightarrow> ('f, 'j) CallHost \<Rightarrow> ('f, 'j) CallHost" where
  "on_rooms f h = h\<lparr>h_rooms := f (h_rooms h)\<rparr>"

definition on_world :: "(VoipWorld \<Rightarrow> VoipWorld) \<Rightarrow> ('f, 'j) CallHost \<Rightarrow> ('f, 'j) CallHost" where
  "on_world f h = h\<lparr>h_world := f (h_world h)\<rparr>"

definition hang_up :: "string list \<Rightarrow> ('f, 'j) CallHost \<Rightarrow> ('f, 'j) CallHost" where
  "hang_up legs h = h\<lparr>h_hung_up := h_hung_up h @ legs\<rparr>"

text \<open>\<open>status NOT IN ('completed', 'failed')\<close>\<close>

definition row_live :: "VoipCall \<Rightarrow> bool" where
  "row_live c \<longleftrightarrow> v_status c \<notin> {''completed'', ''failed''}"

definition call_row :: "('f, 'j) CallHost \<Rightarrow> nat \<Rightarrow> VoipCall option" where
  "call_row h call = find_call (w_calls (h_world h)) call"

section \<open>Ending a call from the media side\<close>

definition provider_leg :: "('f, 'j) CallHost \<Rightarrow> nat \<Rightarrow> string option" where
  "provider_leg h call =
     (if \<not> h_pool h then None
      else case call_row h call of
             None \<Rightarrow> None
           | Some c \<Rightarrow> if row_live c \<and> v_legs c \<noteq> [] then Some (last (v_legs c)) else None)"

definition fail_from_bridge :: "FailureReason \<Rightarrow> int \<Rightarrow> VoipCall \<Rightarrow> VoipCall" where
  "fail_from_bridge reason now c =
     c\<lparr>v_status := ''failed'',
       v_failure_reason := coalesce (v_failure_reason c) (Some (failure_as_str reason)),
       v_ended_at := coalesce (v_ended_at c) (Some now)\<rparr>"

text \<open>The update that moves the row, and the release that follows only if it did.\<close>

definition mark_failed :: "nat \<Rightarrow> FailureReason \<Rightarrow> int \<Rightarrow> VoipWorld \<Rightarrow> nat option \<times> VoipWorld" where
  "mark_failed call reason now w =
     (case find_call (w_calls w) call of
        None \<Rightarrow> (None, w)
      | Some c \<Rightarrow>
          if row_live c
          then (Some (v_session_id c), with_calls (update_call call (fail_from_bridge reason now)) w)
          else (None, w))"

definition release_hold :: "nat \<Rightarrow> nat \<Rightarrow> int \<Rightarrow> VoipWorld \<Rightarrow> VoipWorld" where
  "release_hold call session now w =
     (case release (w_holds w) call session now of
        Inl _ \<Rightarrow> w
      | Inr (_, holds) \<Rightarrow> w\<lparr>w_holds := holds\<rparr>)"

definition end_call_world :: "nat \<Rightarrow> FailureReason \<Rightarrow> int \<Rightarrow> VoipWorld \<Rightarrow> VoipWorld" where
  "end_call_world call reason now w =
     (case mark_failed call reason now w of
        (None, w1) \<Rightarrow> w1
      | (Some session, w1) \<Rightarrow> release_hold call session now w1)"

text \<open>\<open>others\<close> is what happens while the carrier is asked to hang up.\<close>

definition end_call ::
  "int \<Rightarrow> nat \<Rightarrow> FailureReason \<Rightarrow> (('f, 'j) CallHost \<Rightarrow> ('f, 'j) CallHost) \<Rightarrow> ('f, 'j) CallHost
     \<Rightarrow> ('f, 'j) CallHost" where
  "end_call now call reason others h =
     (if \<not> h_pool h then h
      else on_world (end_call_world call reason now)
             (case (if h_carrier h then provider_leg h call else None) of
                None \<Rightarrow> h
              | Some leg \<Rightarrow> others (hang_up [leg] h)))"

definition call_is_terminal :: "('f, 'j) CallHost \<Rightarrow> nat \<Rightarrow> bool option" where
  "call_is_terminal h call =
     map_option (\<lambda>c. v_status c \<in> {''completed'', ''failed''}) (call_row h call)"

definition MEDIA_LOST_GRACE :: nat where "MEDIA_LOST_GRACE = 10000"
definition MEDIA_LOST_GRACE_POLL :: nat where "MEDIA_LOST_GRACE_POLL = 250"
definition PHONE_ORPHAN_GRACE :: nat where "PHONE_ORPHAN_GRACE = 8000"
definition PHONE_ORPHAN_GRACE_POLL :: nat where "PHONE_ORPHAN_GRACE_POLL = 250"

text \<open>
  A loop that looks, sleeps and looks again until a deadline, in milliseconds slept; the
  \<open>n\<close>-th sleep lets \<open>others n\<close> happen.
\<close>

function poll_until ::
  "('s \<Rightarrow> bool) \<Rightarrow> nat \<Rightarrow> nat \<Rightarrow> (nat \<Rightarrow> 's \<Rightarrow> 's) \<Rightarrow> nat \<Rightarrow> nat \<Rightarrow> 's \<Rightarrow> bool \<times> 's" where
  "poll_until stop poll grace others n slept s =
     (if stop s then (True, s)
      else if slept \<ge> grace \<or> poll = 0 then (False, s)
      else poll_until stop poll grace others (Suc n) (slept + min poll grace) (others n s))"
  by pat_completeness auto

termination
  by (relation "measure (\<lambda>(stop, poll, grace, others, n, slept, s). grace - slept)") auto

declare poll_until.simps [simp del]

definition finish_after_pump ::
  "int \<Rightarrow> nat \<Rightarrow> PumpExit \<Rightarrow> nat \<Rightarrow> (nat \<Rightarrow> ('f, 'j) CallHost \<Rightarrow> ('f, 'j) CallHost)
     \<Rightarrow> (('f, 'j) CallHost \<Rightarrow> ('f, 'j) CallHost) \<Rightarrow> ('f, 'j) CallHost \<Rightarrow> ('f, 'j) CallHost" where
  "finish_after_pump now call exit grace sleeps others h =
     (if exit = ProviderEnded \<and> h_pool h
      then case poll_until (\<lambda>h. call_is_terminal h call = Some True) MEDIA_LOST_GRACE_POLL grace sleeps 0 0 h of
             (True, h1) \<Rightarrow> h1
           | (False, h1) \<Rightarrow> end_call now call MediaLost others h1
      else end_call now call MediaLost others h)"

section \<open>A room whose last human left\<close>

definition hangup_orphaned_leg :: "nat \<Rightarrow> ('f, 'j) CallHost \<Rightarrow> ('f, 'j) CallHost" where
  "hangup_orphaned_leg session h =
     (if \<not> h_pool h \<or> \<not> h_carrier h then h
      else case find (\<lambda>c. v_session_id c = session \<and> row_live c) (w_calls (h_world h)) of
             None \<Rightarrow> h
           | Some c \<Rightarrow> hang_up (v_legs c) h)"

definition finish_after_phone_orphan ::
  "string \<Rightarrow> nat \<Rightarrow> nat \<Rightarrow> (nat \<Rightarrow> ('f, 'j) CallHost \<Rightarrow> ('f, 'j) CallHost) \<Rightarrow> ('f, 'j) CallHost
     \<Rightarrow> ('f, 'j) CallHost" where
  "finish_after_phone_orphan room session grace sleeps h =
     (case poll_until (\<lambda>h. has_human_peer (h_rooms h) room) PHONE_ORPHAN_GRACE_POLL grace sleeps 0 0 h of
        (True, h1) \<Rightarrow> h1
      | (False, h1) \<Rightarrow>
          (case end_orphaned_phone_room (h_rooms h1) room session of
             (None, m) \<Rightarrow> h1\<lparr>h_rooms := m\<rparr>
           | (Some _, m) \<Rightarrow>
               let h2 = hangup_orphaned_leg session (h1\<lparr>h_rooms := m\<rparr>)
               in h2\<lparr>h_finalized := h_finalized h2 @ [session]\<rparr>))"

section \<open>The engine session of a leg\<close>

definition transcription_permitted :: "('f, 'j) CallHost \<Rightarrow> nat \<Rightarrow> bool" where
  "transcription_permitted h call \<longleftrightarrow>
     h_pool h \<and> (case call_row h call of None \<Rightarrow> False | Some c \<Rightarrow> v_transcription_started_at c \<noteq> None)"

definition phone_session_deps :: "bool \<Rightarrow> SessionDeps" where
  "phone_session_deps may_transcribe = \<lparr>sd_transcripts = may_transcribe, sd_listener_pays = False\<rparr>"

text \<open>
  \<open>start\<close> is the engines' answer; the ids of the sessions that were asked for are the last
  result. \<open>None\<close> is the panic of a registry without its default.
\<close>

definition open_engine_session ::
  "'e EngineRegistry \<Rightarrow> (string \<Rightarrow> SessionDeps \<Rightarrow> SessionOutcome) \<Rightarrow> SessionDeps \<Rightarrow> string
     \<Rightarrow> (SessionOutcome \<times> string \<times> string list) option" where
  "open_engine_session R start deps requested =
     (let outcome = start requested deps in
      if outcome = Started then Some (outcome, requested, [requested])
      else case default_engine R of
             None \<Rightarrow> None
           | Some fallback \<Rightarrow>
               if eng_id fallback = requested then Some (outcome, requested, [requested])
               else Some (start (eng_id fallback) deps, eng_id fallback, [requested, eng_id fallback]))"

definition fail_unavailable_engine ::
  "int \<Rightarrow> PendingLeg \<Rightarrow> (('f, 'j) CallHost \<Rightarrow> ('f, 'j) CallHost) \<Rightarrow> ('f, 'j) CallHost
     \<Rightarrow> MediaError \<times> ('f, 'j) CallHost" where
  "fail_unavailable_engine now leg others h =
     (Media_Bridge.Malformed (ustr ''translation session unavailable''),
      end_call now (pl_call_id leg) EngineUnavailable others
        (on_rooms (\<lambda>m. snd (remove m (pl_room leg) (pl_peer_id leg) (pl_conn leg))) h))"

text \<open>The two messages of a departure; their JSON is a parameter.\<close>

datatype PhoneMessage = PeerLeft string | PhoneCallEnded string nat string

definition remove_phone_leg_and_notify ::
  "(PhoneMessage \<Rightarrow> string) \<Rightarrow> string \<Rightarrow> string \<Rightarrow> nat \<Rightarrow> nat \<Rightarrow> FailureReason option
     \<Rightarrow> ('f, 'j) RoomManager \<Rightarrow> LeaveOutcome \<times> ('f, 'j) RoomManager" where
  "remove_phone_leg_and_notify json room peer conn call reason m =
     (case remove m room peer conn of
        (Superseded, m1) \<Rightarrow> (Superseded, m1)
      | (outcome, m1) \<Rightarrow>
          let why = (case reason of None \<Rightarrow> ''remote_hangup'' | Some r \<Rightarrow> failure_as_str r)
          in (outcome,
              broadcast (broadcast m1 room (json (PeerLeft peer))) room
                (json (PhoneCallEnded peer call why))))"

fun leg_reason :: "MediaError + PumpExit \<Rightarrow> FailureReason option" where
  "leg_reason (Inr ProviderEnded) = None"
| "leg_reason _ = Some MediaLost"

text \<open>What follows the pump, with its result.\<close>

definition after_pump ::
  "(PhoneMessage \<Rightarrow> string) \<Rightarrow> int \<Rightarrow> PendingLeg \<Rightarrow> MediaError + PumpExit
     \<Rightarrow> (nat \<Rightarrow> ('f, 'j) CallHost \<Rightarrow> ('f, 'j) CallHost) \<Rightarrow> (('f, 'j) CallHost \<Rightarrow> ('f, 'j) CallHost)
     \<Rightarrow> ('f, 'j) CallHost \<Rightarrow> ('f, 'j) CallHost" where
  "after_pump json now leg result sleeps others h =
     (let h1 = on_rooms (\<lambda>m. snd (remove_phone_leg_and_notify json (pl_room leg) (pl_peer_id leg)
                  (pl_conn leg) (pl_call_id leg) (leg_reason result) m)) h
      in if result = Inr ProviderEnded
         then finish_after_pump now (pl_call_id leg) ProviderEnded MEDIA_LOST_GRACE sleeps others h1
         else end_call now (pl_call_id leg) MediaLost others h1)"

text \<open>\<open>bridge\<close> is the pump: its result and what happened to the host while it ran.\<close>

definition run_leg ::
  "'e EngineRegistry \<Rightarrow> (string \<Rightarrow> SessionDeps \<Rightarrow> SessionOutcome) \<Rightarrow> (PhoneMessage \<Rightarrow> string) \<Rightarrow> int
     \<Rightarrow> PendingLeg \<Rightarrow> (('f, 'j) CallHost \<Rightarrow> (MediaError + PumpExit) \<times> ('f, 'j) CallHost)
     \<Rightarrow> (nat \<Rightarrow> ('f, 'j) CallHost \<Rightarrow> ('f, 'j) CallHost) \<Rightarrow> (('f, 'j) CallHost \<Rightarrow> ('f, 'j) CallHost)
     \<Rightarrow> ('f, 'j) CallHost \<Rightarrow> ((MediaError + unit) \<times> ('f, 'j) CallHost) option" where
  "run_leg R start json now leg bridge sleeps others h =
     (case resolve_engine R (Some (pl_engine_id leg)) of
        None \<Rightarrow> None
      | Some engine \<Rightarrow>
          let deps = phone_session_deps (transcription_permitted h (pl_call_id leg))
          in case open_engine_session R start deps (eng_id engine) of
               None \<Rightarrow> None
             | Some (outcome, _, asked) \<Rightarrow>
                 let h1 = h\<lparr>h_sessions := h_sessions h @ map (\<lambda>i. (i, deps)) asked\<rparr>
                 in if outcome \<noteq> Started
                    then Some (case fail_unavailable_engine now leg others h1 of (e, h2) \<Rightarrow> (Inl e, h2))
                    else case bridge h1 of
                           (result, h2) \<Rightarrow>
                             Some (case result of Inl e \<Rightarrow> Inl e | Inr _ \<Rightarrow> Inr (),
                                   after_pump json now leg result sleeps others h2))"

section \<open>Arming the media and reclaiming a leg\<close>

definition reclaim :: "nat \<Rightarrow> ('f, 'j) CallHost \<Rightarrow> ('f, 'j) CallHost" where
  "reclaim call h =
     (case take_leg call (h_live h) of
        (None, live) \<Rightarrow> h\<lparr>h_live := live\<rparr>
      | (Some leg, live) \<Rightarrow>
          on_rooms (\<lambda>m. snd (remove m (pl_room leg) (pl_peer_id leg) (pl_conn leg))) (h\<lparr>h_live := live\<rparr>))"

text \<open>
  \<open>stream\<close> is the carrier asked to open its socket at the URL; the URL carries a fresh ticket.
\<close>

definition arm_media ::
  "('k, 'b) ticket_codec \<Rightarrow> 'k \<Rightarrow> string \<Rightarrow> (string \<Rightarrow> string \<Rightarrow> bool) \<Rightarrow> nat \<Rightarrow> string \<Rightarrow> int \<Rightarrow> string
     \<Rightarrow> ('f, 'j) CallHost \<Rightarrow> string option \<times> ('f, 'j) CallHost" where
  "arm_media C key base stream call leg now_unix nonce h =
     (case peek call (h_live h) of
        None \<Rightarrow> (None, h)
      | Some (room, peer) \<Rightarrow>
          let url = media_url base (issue C key call leg room peer now_unix nonce)
          in (Some url, if stream leg url then h else reclaim call h))"

section \<open>A loop that waits\<close>

text \<open>The state after \<open>k\<close> sleeps, the first being the \<open>n\<close>-th.\<close>

fun after_sleeps :: "(nat \<Rightarrow> 's \<Rightarrow> 's) \<Rightarrow> nat \<Rightarrow> nat \<Rightarrow> 's \<Rightarrow> 's" where
  "after_sleeps others n 0 s = s"
| "after_sleeps others n (Suc k) s = after_sleeps others (Suc n) k (others n s)"

lemma find_map: "find P (map f xs) = map_option f (find (\<lambda>x. P (f x)) xs)"
  by (induction xs) auto

text \<open>The loop looks at most \<open>K + 1\<close> times, and answers at the first look that succeeds.\<close>

lemma poll_until_first:
  assumes "0 < poll" "poll \<le> grace" "slept + K * poll = grace"
  shows "poll_until stop poll grace others n slept s =
     (case find (\<lambda>k. stop (after_sleeps others n k s)) [0..<Suc K] of
        Some k \<Rightarrow> (True, after_sleeps others n k s)
      | None \<Rightarrow> (False, after_sleeps others n K s))"
  using assms(3)
proof (induction K arbitrary: n slept s)
  case 0
  then show ?case using assms(1,2) by (simp add: poll_until.simps)
next
  case (Suc K)
  have IH: "poll_until stop poll grace others (Suc n) (slept + poll) (others n s) =
     (case find (\<lambda>k. stop (after_sleeps others (Suc n) k (others n s))) [0..<Suc K] of
        Some k \<Rightarrow> (True, after_sleeps others (Suc n) k (others n s))
      | None \<Rightarrow> (False, after_sleeps others (Suc n) K (others n s)))"
    using Suc.prems by (intro Suc.IH) simp
  have upt: "[0..<Suc (Suc K)] = 0 # map Suc [0..<Suc K]"
    by (metis map_Suc_upt upt_conv_Cons zero_less_Suc)
  have "\<not> grace \<le> slept" "min poll grace = poll" "poll \<noteq> 0" using Suc.prems assms(1,2) by auto
  then have step: "poll_until stop poll grace others n slept s =
      (if stop s then (True, s) else poll_until stop poll grace others (Suc n) (slept + poll) (others n s))"
    by (subst poll_until.simps) simp
  show ?case
  proof (cases "stop s")
    case True
    then show ?thesis unfolding step upt by simp
  next
    case False
    have "find (\<lambda>k. stop (after_sleeps others n k s)) [0..<Suc (Suc K)] =
        map_option Suc (find (\<lambda>k. stop (after_sleeps others (Suc n) k (others n s))) [0..<Suc K])"
      unfolding upt using False by (simp add: find_map del: upt_Suc)
    with False IH step show ?thesis by (simp del: upt_Suc split: option.split)
  qed
qed

text \<open>
  The carrier's hang-up has ten seconds to arrive: after a media stream that the provider
  ended, the first of the forty-one looks, a quarter of a second apart, that finds the call
  finished leaves everything as the webhook left it, hold, charge and carrier; only when none
  does is the call ended from the media side, and either way the wait is over.
\<close>

theorem hangup_in_grace_wins:
  assumes "h_pool h"
  shows "finish_after_pump now call ProviderEnded MEDIA_LOST_GRACE sleeps others h =
     (case find (\<lambda>k. call_is_terminal (after_sleeps sleeps 0 k h) call = Some True) [0..<41] of
        Some k \<Rightarrow> after_sleeps sleeps 0 k h
      | None \<Rightarrow> end_call now call MediaLost others (after_sleeps sleeps 0 40 h))"
proof -
  have "poll_until (\<lambda>h. call_is_terminal h call = Some True) 250 10000 sleeps 0 0 h =
     (case find (\<lambda>k. call_is_terminal (after_sleeps sleeps 0 k h) call = Some True) [0..<Suc 40] of
        Some k \<Rightarrow> (True, after_sleeps sleeps 0 k h)
      | None \<Rightarrow> (False, after_sleeps sleeps 0 40 h))"
    by (rule poll_until_first) simp_all
  then show ?thesis
    using assms unfolding finish_after_pump_def MEDIA_LOST_GRACE_def MEDIA_LOST_GRACE_POLL_def
    by (simp split: option.split)
qed

section \<open>Ending a call closes its hold\<close>

lemma release_open_hold:
  assumes acc: "accounts_for org_balance db ttl" and open_r: "open_for_call db call = Some r"
    and bal: "org_balance (hold_pool db) (r_org_id r) = Some b"
  shows "\<exists>s db'. release db call session now = Inr (Some s, db')
     \<and> org_balance (hold_pool db') = (org_balance (hold_pool db)) (r_org_id r \<mapsto> b + held_credits r)
     \<and> accounts_for org_balance db' ttl
     \<and> (\<forall>i. open_for_call db' i = (if i = call then None else open_for_call db i))"
proof -
  have ok: "holds_ok (reservations db)" using acc by (simp add: accounts_for_def)
  have r: "find (\<lambda>r. r_call_id r = call) (reservations db) = Some r" "r_state r = ''held''"
    "r \<in> set (reservations db)"
    using open_r open_is_newest [OF ok] find_SomeD by (fastforce simp: open_for_call_def)+
  have h0: "0 \<le> held_credits r" using ok r(3) holds_ok_nonneg by blast
  have b0: "0 \<le> b" and t: "b + committed (reservations db) (r_org_id r) \<le> i32_max"
    using acc bal by (auto simp: accounts_for_def)
  have "held_credits r \<le> committed (reservations db) (r_org_id r)"
    using committed_ge [OF ok r(3), of "r_org_id r"] r(2) by (simp add: commitment_def)
  then have hb: "b + held_credits r \<le> i32_max" using t by linarith
  have z: "(0::int) \<le> 0" "(0::int) \<le> i32_max" by (simp_all add: i32_max_def)
  have m: "min 0 (held_credits r + b) = 0" "min 0 (held_credits r) = 0" using h0 b0 by simp_all
  from org_pool.close_open [OF bal b0 r(1,2) h0 hb z refl, of session "''released''" now]
  obtain s db' where res: "release db call session now = Inr (Some s, db')"
    and bal': "org_balance (hold_pool db') = (org_balance (hold_pool db)) (r_org_id r \<mapsto> b + held_credits r)"
    by (auto simp: settle_simps m)
  have "accounts_for org_balance db' ttl"
    using org_pool.release_accounts [OF acc] res by (simp add: release_alt release_tx_def)
  moreover have "\<forall>i. open_for_call db' i = (if i = call then None else open_for_call db i)"
    using release_total [OF acc, of call session now] res by auto
  ultimately show ?thesis using res bal' by blast
qed

lemma fail_from_bridge_sel [simp]:
  "v_id (fail_from_bridge reason now c) = v_id c" "v_status (fail_from_bridge reason now c) = ''failed''"
  "v_legs (fail_from_bridge reason now c) = v_legs c" "v_session_id (fail_from_bridge reason now c) = v_session_id c"
  "v_credits_consumed (fail_from_bridge reason now c) = v_credits_consumed c"
  "credits_in_range (fail_from_bridge reason now c) = credits_in_range c"
  by (simp_all add: fail_from_bridge_def credits_in_range_def)

lemma fail_from_bridge_advances: "row_live c \<Longrightarrow> advances c (fail_from_bridge reason now c)"
  by (auto simp: advances_def row_live_def status_of_def callstate_parse_def)

text \<open>The call by the media side keeps the accounts and moves rows forward only.\<close>

lemma end_call_world_ok:
  assumes ok: "world_ok ttl w"
  shows "world_ok ttl (end_call_world call reason now w)
     \<and> list_all2 advances (w_calls w) (w_calls (end_call_world call reason now w))"
proof (cases "\<exists>c. find_call (w_calls w) call = Some c \<and> row_live c")
  case False
  then have "end_call_world call reason now w = w"
    by (auto simp: end_call_world_def mark_failed_def split: option.split)
  with ok show ?thesis by (simp add: list_all2_same)
next
  case True
  then obtain c where c: "find_call (w_calls w) call = Some c" "row_live c" by blast
  let ?calls = "update_call call (fail_from_bridge reason now) (w_calls w)"
  obtain out db where rel: "release (w_holds w) call (v_session_id c) now = Inr (out, db)"
    using release_total ok by (metis world_ok_def)
  then have acc: "accounts_for org_balance db ttl"
    using ok org_pool.release_accounts by (auto simp: release_alt release_tx_def world_ok_def)
  have w': "end_call_world call reason now w = (with_calls (update_call call (fail_from_bridge reason now)) w)\<lparr>w_holds := db\<rparr>"
    using c rel by (simp add: end_call_world_def mark_failed_def release_hold_def)
  have "r = c" if "r \<in> set (w_calls w)" "v_id r = call" for r
    using that c(1) ok distinct_find_call [of "w_calls w" r] by (simp add: world_ok_def)
  then have "list_all2 advances (w_calls w) ?calls"
    using c(2) by (intro advance_update) (auto intro: fail_from_bridge_advances)
  moreover have "\<forall>r \<in> set ?calls. credits_in_range r"
    using ok by (auto simp: update_call_def world_ok_def)
  ultimately show ?thesis
    using ok acc advances_ids by (auto simp: w' world_ok_def)
qed

text \<open>What the media side does to a live call and its hold.\<close>

lemma end_call_world_live:
  assumes "world_ok ttl w" and "find_call (w_calls w) call = Some c" and "row_live c"
    and "open_for_call (w_holds w) call = Some r" and "org_balance (hold_pool (w_holds w)) (r_org_id r) = Some b"
  shows "w_calls (end_call_world call reason now w) = update_call call (fail_from_bridge reason now) (w_calls w)"
    and "org_balance (hold_pool (w_holds (end_call_world call reason now w))) =
           (org_balance (hold_pool (w_holds w))) (r_org_id r \<mapsto> b + held_credits r)"
    and "open_for_call (w_holds (end_call_world call reason now w)) i =
           (if i = call then None else open_for_call (w_holds w) i)"
    and "find_call (w_calls (end_call_world call reason now w)) call = Some (fail_from_bridge reason now c)"
proof -
  have acc: "accounts_for org_balance (w_holds w) ttl" using assms(1) by (simp add: world_ok_def)
  from release_open_hold [OF acc assms(4,5), of "v_session_id c" now] obtain s db where
    rel: "release (w_holds w) call (v_session_id c) now = Inr (Some s, db)"
    "org_balance (hold_pool db) = (org_balance (hold_pool (w_holds w))) (r_org_id r \<mapsto> b + held_credits r)"
    "\<forall>i. open_for_call db i = (if i = call then None else open_for_call (w_holds w) i)" by blast
  then have w': "end_call_world call reason now w =
      (with_calls (update_call call (fail_from_bridge reason now)) w)\<lparr>w_holds := db\<rparr>"
    using assms(2,3) by (simp add: end_call_world_def mark_failed_def release_hold_def)
  show "w_calls (end_call_world call reason now w) = update_call call (fail_from_bridge reason now) (w_calls w)"
    by (simp add: w')
  then show "find_call (w_calls (end_call_world call reason now w)) call = Some (fail_from_bridge reason now c)"
    using assms(2) by (simp add: find_update_call)
  show "org_balance (hold_pool (w_holds (end_call_world call reason now w))) =
           (org_balance (hold_pool (w_holds w))) (r_org_id r \<mapsto> b + held_credits r)"
    "open_for_call (w_holds (end_call_world call reason now w)) i =
           (if i = call then None else open_for_call (w_holds w) i)"
    using rel by (simp_all add: w')
qed

text \<open>
  A call that its media side ends is failed with the whole hold returned, once: a live call
  becomes failed for the given reason and its hold goes back to the organisation's balance in
  full, no other call and no other hold changes, and a call that is finished already, by a
  webhook that was quicker, stays exactly as it is.
\<close>

theorem media_end_returns_hold:
  assumes "world_ok ttl w" and "find_call (w_calls w) call = Some c"
    and "open_for_call (w_holds w) call = Some r" and "org_balance (hold_pool (w_holds w)) (r_org_id r) = Some b"
    and "w' = end_call_world call reason now w"
  shows "if row_live c
     then find_call (w_calls w') call = Some (fail_from_bridge reason now c)
        \<and> (\<forall>i. i \<noteq> call \<longrightarrow> find_call (w_calls w') i = find_call (w_calls w) i)
        \<and> org_balance (hold_pool (w_holds w')) =
            (org_balance (hold_pool (w_holds w))) (r_org_id r \<mapsto> b + held_credits r)
        \<and> (\<forall>i. open_for_call (w_holds w') i = (if i = call then None else open_for_call (w_holds w) i))
        \<and> end_call_world call reason' now' w' = w'
     else w' = w"
proof (cases "row_live c")
  case False
  with assms show ?thesis by (simp add: end_call_world_def mark_failed_def)
next
  case True
  note ends = end_call_world_live [OF assms(1,2) True assms(3,4), of reason now, folded assms(5)]
  have "\<forall>i. i \<noteq> call \<longrightarrow> find_call (w_calls w') i = find_call (w_calls w) i"
    by (simp add: ends(1) find_update_call)
  moreover have "end_call_world call reason' now' w' = w'"
    using ends(4) by (simp add: end_call_world_def mark_failed_def row_live_def)
  ultimately show ?thesis using True ends by simp
qed

section \<open>The last human leaves\<close>

text \<open>An event for a finished call is written down and costs nothing.\<close>

lemma finished_is_free:
  assumes res: "resolve_call parse_id (w_calls w) ev = (Some c, calls)"
    and "v_status c \<in> {''completed'', ''failed''}"
  shows "\<exists>out w'. apply_provider_event D parse_id now ev w = Inr (out, w') \<and> w_holds w' = w_holds w
     \<and> map v_credits_consumed (w_calls w') = map v_credits_consumed (w_calls w)"
proof -
  have "call_next (status_of c) e = None" for e
    using assms(2) by (auto simp: status_of_def callstate_parse_def call_next_def is_terminal_def)
  then have after: "lifecycle_after c ev = None" by (simp add: lifecycle_after_def split: option.split)
  have "map v_credits_consumed calls = map v_credits_consumed (w_calls w)"
    using res by (auto simp: resolve_call_def update_call_def add_leg_def split: option.splits)
  moreover have "map v_credits_consumed (update_call i (side_effects ev) calls) = map v_credits_consumed calls" for i
    by (auto simp: update_call_def side_effects_def split: ProviderEventKind.split)
  ultimately show ?thesis
    using after res by (simp add: apply_provider_event_def first_delivery_def)
qed

lemma orphan_teardown:
  assumes "\<forall>k < 33. \<not> has_human_peer (h_rooms (after_sleeps sleeps 0 k h)) room"
    and "h1 = after_sleeps sleeps 0 32 h"
    and "end_orphaned_phone_room (h_rooms h1) room session = (Some session, m)"
  shows "finish_after_phone_orphan room session PHONE_ORPHAN_GRACE sleeps h =
     (let h2 = hangup_orphaned_leg session (h1\<lparr>h_rooms := m\<rparr>)
      in h2\<lparr>h_finalized := h_finalized h2 @ [session]\<rparr>)"
proof -
  have none: "find (\<lambda>k. has_human_peer (h_rooms (after_sleeps sleeps 0 k h)) room) [0..<Suc 32] = None"
    using assms(1) by (auto simp: find_None_iff simp del: upt_Suc)
  have "poll_until (\<lambda>h. has_human_peer (h_rooms h) room) 250 8000 sleeps 0 0 h =
     (case find (\<lambda>k. has_human_peer (h_rooms (after_sleeps sleeps 0 k h)) room) [0..<Suc 32] of
        Some k \<Rightarrow> (True, after_sleeps sleeps 0 k h)
      | None \<Rightarrow> (False, after_sleeps sleeps 0 32 h))"
    by (rule poll_until_first) simp_all
  then have "poll_until (\<lambda>h. has_human_peer (h_rooms h) room) 250 8000 sleeps 0 0 h = (False, h1)"
    unfolding none assms(2) by simp
  then show ?thesis
    by (simp add: finish_after_phone_orphan_def PHONE_ORPHAN_GRACE_def PHONE_ORPHAN_GRACE_POLL_def assms(3))
qed

text \<open>
  What the pump receives from the room: what is queued on the telephone's channel, and the end of the
  channel once no peer of any room holds its sending side.
\<close>

definition has_sender :: "('f, 'j) RoomManager \<Rightarrow> nat \<Rightarrow> bool" where
  "has_sender m tx \<longleftrightarrow> (\<exists>(k, r) \<in> set (rooms m). \<exists>p \<in> set (rm_peers r). p_tx p = tx)"

definition room_side :: "('f, 'j) RoomManager \<Rightarrow> nat \<Rightarrow> pump_event list" where
  "room_side m tx =
     map (\<lambda>frame. From_room (ustr frame)) (ch_queue (chans m tx)) @ (if has_sender m tx then [] else [Room_closed])"

text \<open>An event by which the carrier does not end the stream.\<close>

definition carrier_stays :: "wire_codec \<Rightarrow> pump_event \<Rightarrow> bool" where
  "carrier_stays W ev \<longleftrightarrow>
     (case ev of Socket_closed \<Rightarrow> False | From_socket raw \<Rightarrow> parse_inbound W raw \<noteq> Inr Stop | _ \<Rightarrow> True)"

lemma pump_step_stays:
  "carrier_stays W ev \<Longrightarrow> pump_step W Q ev b \<noteq> Some (Return (Inr ProviderEnded) b')"
  by (auto simp: carrier_stays_def pump_step_def on_media_def on_room_frame_def Let_def
      split: pump_event.splits sum.splits Inbound.splits option.splits prod.splits)

lemma pump_room_closed:
  assumes "leg_ok Q (br_leg b)" and "Room_closed \<in> set evs" and "\<forall>ev \<in> set evs. carrier_stays W ev"
  shows "\<exists>out b'. pump W Q evs b = Some (Return out b') \<and> out \<noteq> Inr ProviderEnded"
  using assms
proof (induction evs arbitrary: b)
  case (Cons ev evs)
  have ok: "step_ok Q (pump_step W Q ev b)" by (rule pump_step_ok [OF Cons.prems(1)])
  show ?case
  proof (cases "pump_step W Q ev b")
    case None
    with ok show ?thesis by (simp add: step_ok_def)
  next
    case (Some st)
    show ?thesis
    proof (cases st)
      case (Return out b')
      with Some Cons.prems(3) pump_step_stays [of W ev Q b b'] show ?thesis by auto
    next
      case (Continue b1)
      then have "ev \<noteq> Room_closed" using Some by (auto simp: pump_step_def)
      with Cons.IH [of b1] Cons.prems(2,3) ok Some Continue show ?thesis by (simp add: step_ok_def)
    qed
  qed
qed simp

lemma append_interleaves: "xs @ ys \<in> shuffles xs ys"
  by (induction xs) (simp_all add: Cons_in_shuffles_leftI)

lemma teardown_drops_sender:
  assumes "keys_distinct (rooms m)" and "end_orphaned_phone_room m room session = (Some s, m')"
    and "\<forall>(k, r) \<in> set (rooms m). (\<exists>p \<in> set (rm_peers r). p_tx p = tx) \<longrightarrow> k = room"
  shows "\<not> has_sender m' tx"
proof
  assume "has_sender m' tx"
  then obtain k r where kr: "(k, r) \<in> set (rooms m')" "\<exists>p \<in> set (rm_peers r). p_tx p = tx"
    by (auto simp: has_sender_def)
  from assms(2) obtain r0 where r0: "map_of (rooms m) room = Some r0" "orphaned session r0"
    and m': "rooms m' = remove_if room (orphaned session) (rooms m)"
    by (auto simp: end_orphaned_phone_room_def split: option.splits if_splits)
  have "(k, r) \<in> set (rooms m)" "\<not> (k = room \<and> orphaned session r)"
    using kr(1) by (auto simp: m' remove_if_def retain_entries_def)
  moreover from this assms(3) kr(2) have "k = room" by blast
  ultimately show False using r0 map_of_is_SomeI [of "rooms m" room r] assms(1) by (simp add: keys_distinct_def)
qed

lemma after_pump_room_ended:
  assumes "\<And>g. h_world (others g) = h_world g" and "h_pool h" and "out \<noteq> Inr ProviderEnded"
  shows "h_world (after_pump json now leg out sleeps others h) =
    end_call_world (pl_call_id leg) MediaLost now (h_world h)"
  using assms by (simp add: after_pump_def end_call_def on_rooms_def on_world_def hang_up_def Let_def
      split: option.split)

text \<open>
  C39: What the last human's leaving costs, with a database and a carrier. When nobody came back for the
  whole grace window, the room is torn down and the carrier asked to hang up, with the call still running and its hold still open. If
  the telephone's channel was held in that room only, nobody holds it any more; so whatever the carrier
  still sends, interleaved in any way with what the room side delivers, as long as the carrier does not end
  the stream first, the pump returns, and not as ended by the provider: the call is failed as lost
  media and its whole hold returned, and a hang-up that follows, whatever it says, settles nothing. No
  event of the call is assumed to be ingested in between, the tables are sound, and the pump is in a
  state it can reach.
\<close>

theorem orphan_leave_forfeits_charge:
  assumes nobody: "\<forall>k < 33. \<not> has_human_peer (h_rooms (after_sleeps sleeps 0 k h)) room"
    and h1: "h1 = after_sleeps sleeps 0 32 h"
    and room: "end_orphaned_phone_room (h_rooms h1) room session = (Some session, m)"
    and mine: "keys_distinct (rooms (h_rooms h1))"
      "\<forall>(k, r) \<in> set (rooms (h_rooms h1)). (\<exists>p \<in> set (rm_peers r). p_tx p = pl_from_room leg) \<longrightarrow> k = room"
    and host: "h_pool h1" "h_carrier h1" "world_ok ttl (h_world h1)"
    and call: "find (\<lambda>c. v_session_id c = session \<and> row_live c) (w_calls (h_world h1)) = Some c"
    and hold: "open_for_call (w_holds (h_world h1)) (v_id c) = Some r"
      "org_balance (hold_pool (w_holds (h_world h1))) (r_org_id r) = Some b"
    and h2: "h2 = finish_after_phone_orphan room session PHONE_ORPHAN_GRACE sleeps h"
    and quiet: "\<And>g. h_world (others g) = h_world g" and leg: "pl_call_id leg = v_id c"
    and bridge: "leg_ok Q (br_leg bridge)"
    and heard: "evs \<in> shuffles sock (room_side (h_rooms h2) (pl_from_room leg))" "\<forall>ev \<in> set sock. carrier_stays W ev"
  shows "\<exists>out bridge' h3. pump W Q evs bridge = Some (Return out bridge') \<and> out \<noteq> Inr ProviderEnded
     \<and> h3 = after_pump json now leg out sleeps' others h2
     \<and> h_hung_up h2 = h_hung_up h1 @ v_legs c \<and> h_world h2 = h_world h1
     \<and> find_call (w_calls (h_world h3)) (v_id c) = Some (fail_from_bridge MediaLost now c)
     \<and> org_balance (hold_pool (w_holds (h_world h3))) (r_org_id r) = Some (b + held_credits r)
     \<and> open_for_call (w_holds (h_world h3)) (v_id c) = None
     \<and> (resolve_call parse_id (w_calls (h_world h3)) ev = (Some c', calls) \<and> v_id c' = v_id c \<longrightarrow>
          (\<exists>out w'. apply_provider_event D parse_id t ev (h_world h3) = Inr (out, w')
             \<and> w_holds w' = w_holds (h_world h3)
             \<and> map v_credits_consumed (w_calls w') = map v_credits_consumed (w_calls (h_world h3))))"
proof -
  have h2': "h2 = h1\<lparr>h_rooms := m, h_hung_up := h_hung_up h1 @ v_legs c, h_finalized := h_finalized h1 @ [session]\<rparr>"
    using call host(1,2)
    unfolding h2 orphan_teardown [OF nobody h1 room] by (simp add: hangup_orphaned_leg_def hang_up_def)
  have "\<not> has_sender (h_rooms h2) (pl_from_room leg)"
    using teardown_drops_sender [OF mine(1) room mine(2)] by (simp add: h2')
  then have "Room_closed \<in> set evs" "\<forall>ev \<in> set evs. carrier_stays W ev"
    using set_shuffles [OF heard(1)] heard(2) by (auto simp: room_side_def carrier_stays_def)
  then obtain out bridge' where p: "pump W Q evs bridge = Some (Return out bridge')" "out \<noteq> Inr ProviderEnded"
    using pump_room_closed [OF bridge] by blast
  define h3 where "h3 = after_pump json now leg out sleeps' others h2"
  have w3: "h_world h3 = end_call_world (v_id c) MediaLost now (h_world h1)"
    unfolding h3_def using after_pump_room_ended [OF quiet _ p(2), of h2] host(1) by (simp add: h2' leg)
  have c: "c \<in> set (w_calls (h_world h1))" "row_live c" using call find_SomeD by fastforce+
  then have "find_call (w_calls (h_world h1)) (v_id c) = Some c"
    using host(3) distinct_find_call by (simp add: world_ok_def)
  note ended = end_call_world_live [OF host(3) this c(2) hold, of MediaLost now, folded w3]
  have "\<exists>out w'. apply_provider_event D parse_id t ev (h_world h3) = Inr (out, w')
      \<and> w_holds w' = w_holds (h_world h3)
      \<and> map v_credits_consumed (w_calls w') = map v_credits_consumed (w_calls (h_world h3))"
    if res: "resolve_call parse_id (w_calls (h_world h3)) ev = (Some c', calls)" "v_id c' = v_id c"
  proof (rule finished_is_free [OF res(1)])
    have "distinct (map v_id (w_calls (h_world h3)))"
      using end_call_world_ok [OF host(3)] by (simp add: w3 world_ok_def)
    then have "c' = fail_from_bridge MediaLost now c"
      using resolve_call_in [OF res(1)] distinct_find_call ended(4) res(2) by fastforce
    then show "v_status c' \<in> {''completed'', ''failed''}" by simp
  qed
  with ended p h3_def show ?thesis by (intro exI [of _ out] exI [of _ bridge'] exI [of _ h3]) (simp add: h2')
qed

section \<open>A call whose human is gone\<close>

lemma after_sleeps_idle [simp]: "after_sleeps (\<lambda>_ h. h) n k h = h"
  by (induction k arbitrary: n) auto

definition sample_orphan :: "(nat, nat) RoomManager" where
  "sample_orphan = snd (room_run (\<lambda>_. False) (new_manager (\<lambda>_. channel 512))
     [Join_op ''r'' (sample_peer ''h'' 0 ''en'' True) Private 70,
      Join_op ''r'' (sample_peer ''phone-1'' 1 ''it'' False) Private 71, Remove_op ''r'' ''h'' 0])"

definition sample_host :: "(nat, nat) CallHost" where
  "sample_host = \<lparr>h_rooms = sample_orphan, h_live = [], h_world = sample_world ''bridged'' (Some 0),
     h_pool = True, h_carrier = True, h_hung_up = [], h_sessions = [], h_finalized = []\<rparr>"

definition sample_leg :: PendingLeg where
  "sample_leg = \<lparr>pl_call_id = 7, pl_session_id = 70, pl_org_id = 1, pl_user_id = Some 3, pl_room = ''r'',
     pl_peer_id = ''phone-1'', pl_conn = 1, pl_engine_id = ''e'', pl_phone_language = ''it'', pl_from_room = 1\<rparr>"

lemma sample_orphan_facts:
  "has_human_peer sample_orphan ''r'' = False" "fst (end_orphaned_phone_room sample_orphan ''r'' 70) = Some 70"
  by code_simp+

lemma sample_host_sel [simp]:
  "h_world sample_host = sample_world ''bridged'' (Some 0)" "h_pool sample_host" "h_carrier sample_host"
  "h_rooms sample_host = sample_orphan"
  by (simp_all add: sample_host_def)

lemma sample_row_live: "row_live (sample_row ''bridged'' a)" "v_session_id (sample_row ''bridged'' a) = 70"
  "v_legs (sample_row st a) = [''leg'']"
  by (simp_all add: row_live_def sample_row_def)

theorem hangup_in_grace_wins_witness:
  "finish_after_pump 5 7 ProviderEnded MEDIA_LOST_GRACE (\<lambda>_ h. h) (\<lambda>h. h) sample_host =
     end_call 5 7 MediaLost (\<lambda>h. h) sample_host"
proof -
  have "call_is_terminal sample_host 7 = Some False"
    by (simp add: call_is_terminal_def call_row_def find_call_def)
  then have "find (\<lambda>k. call_is_terminal (after_sleeps (\<lambda>_ h. h) 0 k sample_host) 7 = Some True) [0..<41] = None"
    by (simp add: find_None_iff del: upt_Suc)
  with hangup_in_grace_wins [of sample_host 5 7 "\<lambda>_ h. h" "\<lambda>h. h"] show ?thesis by simp
qed

theorem media_end_returns_hold_witness:
  "find_call (w_calls (end_call_world 7 MediaLost 5 (sample_world ''bridged'' (Some 0)))) 7 =
     Some (fail_from_bridge MediaLost 5 (sample_row ''bridged'' (Some 0)))
   \<and> org_balance (hold_pool (w_holds (end_call_world 7 MediaLost 5 (sample_world ''bridged'' (Some 0))))) 1 = Some 100"
proof -
  let ?w = "sample_world ''bridged'' (Some 0)"
  obtain r where r: "open_for_call sample_held 7 = Some r" "r_org_id r = 1" "held_credits r = 60"
    using sample_held_row(1) by simp
  have "find_call (w_calls ?w) 7 = Some (sample_row ''bridged'' (Some 0))"
    "open_for_call (w_holds ?w) 7 = Some r" "org_balance (hold_pool (w_holds ?w)) (r_org_id r) = Some 40"
    using r sample_held_row(2) by (simp_all add: find_call_def)
  from media_end_returns_hold [OF sample_world_ok this refl, of MediaLost 5] sample_row_live(1)
  show ?thesis by (simp del: sample_world_sel add: r)
qed

text \<open>The room of the telephone is all there is, and the carrier goes on sending audio frames.\<close>

lemma sample_orphan_channel:
  "keys_distinct (rooms sample_orphan)" "map fst (rooms sample_orphan) = [''r'']"
  by code_simp+

theorem orphan_leave_forfeits_charge_witness:
  "\<exists>out bridge. pump sample_wire sample_filter (replicate 2 (From_socket [7]) @
         room_side (h_rooms (finish_after_phone_orphan ''r'' 70 PHONE_ORPHAN_GRACE (\<lambda>_ h. h) sample_host)) 1)
       (bridge_new sample_filter Pcmu) = Some (Return out bridge) \<and> out \<noteq> Inr ProviderEnded
     \<and> find_call (w_calls (h_world (after_pump (\<lambda>_. ''json'') 5 sample_leg out (\<lambda>_ h. h) (\<lambda>h. h)
           (finish_after_phone_orphan ''r'' 70 PHONE_ORPHAN_GRACE (\<lambda>_ h. h) sample_host)))) 7 =
         Some (fail_from_bridge MediaLost 5 (sample_row ''bridged'' (Some 0)))"
proof -
  obtain m where m: "end_orphaned_phone_room sample_orphan ''r'' 70 = (Some 70, m)"
    using sample_orphan_facts(2) by (metis prod.collapse)
  have f: "find (\<lambda>c. v_session_id c = 70 \<and> row_live c) (w_calls (h_world sample_host)) =
      Some (sample_row ''bridged'' (Some 0))"
    by (simp add: sample_row_live)
  obtain r where r: "open_for_call sample_held 7 = Some r" "r_org_id r = 1"
    using sample_held_row(1) by simp
  have hold: "open_for_call (w_holds (h_world sample_host)) (v_id (sample_row ''bridged'' (Some 0))) = Some r"
    "org_balance (hold_pool (w_holds (h_world sample_host))) (r_org_id r) = Some 40"
    using r sample_held_row(2) by simp_all
  have room: "end_orphaned_phone_room (h_rooms sample_host) ''r'' 70 = (Some 70, m)"
    "\<forall>k < 33. \<not> has_human_peer (h_rooms (after_sleeps (\<lambda>_ h. h) 0 k sample_host)) ''r''"
    "sample_host = after_sleeps (\<lambda>_ h. h) 0 32 sample_host"
    by (simp_all add: m sample_orphan_facts)
  have w: "world_ok (\<lambda>o'. if o' = 1 then 100 else 0) (h_world sample_host)"
    unfolding sample_host_sel(1) by (rule sample_world_ok)
  have leg: "pl_call_id sample_leg = v_id (sample_row ''bridged'' (Some 0))" "pl_from_room sample_leg = 1"
    by (simp_all add: sample_leg_def)
  have one: "keys_distinct (rooms (h_rooms sample_host))"
    "\<forall>(k, r) \<in> set (rooms (h_rooms sample_host)). (\<exists>p \<in> set (rm_peers r). p_tx p = pl_from_room sample_leg) \<longrightarrow> k = ''r''"
    using sample_orphan_channel by (simp_all add: map_eq_Cons_conv) auto
  have stays: "\<forall>ev \<in> set (replicate 2 (From_socket [7])). carrier_stays sample_wire ev"
    by (simp add: carrier_stays_def)
  have "leg_ok sample_filter (br_leg (bridge_new sample_filter Pcmu))" by (simp add: bridge_new_def leg_new_ok)
  from orphan_leave_forfeits_charge [where others = "\<lambda>h. h" and json = "\<lambda>_. ''json''" and now = 5 and sleeps' = "\<lambda>_ h. h"
      and parse_id = "\<lambda>_. None" and ev = "sample_event ''e2'' 1 KAnswered" and c' = "sample_row ''bridged'' None" and calls = "[]"
      and D = exact_decimal and t = 6, OF room(2,3,1) one sample_host_sel(2,3) w f hold refl refl leg(1) this append_interleaves stays]
  obtain out bridge h3 where
    "pump sample_wire sample_filter (replicate 2 (From_socket [7]) @
       room_side (h_rooms (finish_after_phone_orphan ''r'' 70 PHONE_ORPHAN_GRACE (\<lambda>_ h. h) sample_host)) (pl_from_room sample_leg))
       (bridge_new sample_filter Pcmu) = Some (Return out bridge)"
    "out \<noteq> Inr ProviderEnded"
    "h3 = after_pump (\<lambda>_. ''json'') 5 sample_leg out (\<lambda>_ h. h) (\<lambda>h. h)
       (finish_after_phone_orphan ''r'' 70 PHONE_ORPHAN_GRACE (\<lambda>_ h. h) sample_host)"
    "find_call (w_calls (h_world h3)) (v_id (sample_row ''bridged'' (Some 0))) =
       Some (fail_from_bridge MediaLost 5 (sample_row ''bridged'' (Some 0)))"
    by (elim exE conjE) (rule that)
  then show ?thesis unfolding leg(2) by (intro exI [of _ out] exI [of _ bridge]) simp
qed

section \<open>What an engine is given\<close>

lemma open_engine_session_asks:
  assumes "open_engine_session R start deps requested = Some (outcome, active, asked)"
  shows "active = last asked \<and> outcome = start active deps \<and> hd asked = requested \<and> distinct asked
     \<and> (asked = [requested] \<or> (\<exists>d. default_engine R = Some d \<and> asked = [requested, eng_id d]
          \<and> start requested deps \<noteq> Started))"
  using assms by (auto simp: open_engine_session_def Let_def split: if_splits option.splits)

lemma end_call_sessions:
  "(\<And>g. h_sessions (others g) = h_sessions g) \<Longrightarrow> h_sessions (end_call now call reason others h) = h_sessions h"
  by (simp add: end_call_def on_world_def hang_up_def split: option.split)

lemma poll_until_keeps:
  "(\<And>n g. f (others n g) = f g) \<Longrightarrow> f (snd (poll_until stop poll grace others n slept s)) = f s"
proof (induction stop poll grace others n slept s rule: poll_until.induct)
  case (1 stop poll grace others n slept s)
  then show ?case by (subst poll_until.simps) simp
qed

lemma after_pump_sessions:
  assumes "\<And>n g. h_sessions (sleeps n g) = h_sessions g" and "\<And>g. h_sessions (others g) = h_sessions g"
  shows "h_sessions (after_pump json now leg result sleeps others h) = h_sessions h"
proof -
  have fin: "h_sessions (finish_after_pump now call exit grace sleeps others g) = h_sessions g" for call exit grace g
  proof -
    have "h_sessions (snd (poll_until stop MEDIA_LOST_GRACE_POLL grace sleeps 0 0 g)) = h_sessions g" for stop
      by (rule poll_until_keeps) (rule assms(1))
    then show ?thesis
      unfolding finish_after_pump_def
      by (auto split: prod.split bool.split simp: end_call_sessions [OF assms(2)])
        (metis snd_conv end_call_sessions [OF assms(2)])+
  qed
  show ?thesis
    by (simp add: after_pump_def Let_def fin end_call_sessions [OF assms(2)] on_rooms_def)
qed

text \<open>
  What the engines are given for a telephone: at most two sessions are opened, on two
  engines, the second only when the first did not start and then on the registry's default;
  none of them charges the listener, and each may keep words exactly if the row says at that
  moment that transcription has begun. When none starts, the leg ends with an error.
\<close>

theorem leg_sessions_ask_permission:
  assumes run: "run_leg R start json now leg bridge sleeps others h = Some (out, h')"
    and quiet: "\<And>g. h_sessions (snd (bridge g)) = h_sessions g" "\<And>n g. h_sessions (sleeps n g) = h_sessions g"
      "\<And>g. h_sessions (others g) = h_sessions g"
  shows "\<exists>asked. h_sessions h' = h_sessions h @ asked \<and> length asked \<in> {1, 2} \<and> distinct (map fst asked)
     \<and> (length asked = 2 \<longrightarrow> (\<exists>d. default_engine R = Some d \<and> fst (asked ! 1) = eng_id d
          \<and> start (fst (asked ! 0)) (snd (asked ! 0)) \<noteq> Started))
     \<and> list_all (\<lambda>(_, d). \<not> sd_listener_pays d
          \<and> (sd_transcripts d \<longleftrightarrow> h_pool h \<and> (\<exists>c. call_row h (pl_call_id leg) = Some c
               \<and> v_transcription_started_at c \<noteq> None))) asked
     \<and> (list_all (\<lambda>(e, d). start e d \<noteq> Started) asked \<longrightarrow> (\<exists>e. out = Inl e))"
proof -
  define deps where "deps = phone_session_deps (transcription_permitted h (pl_call_id leg))"
  from run obtain engine where e: "resolve_engine R (Some (pl_engine_id leg)) = Some engine"
    by (auto simp: run_leg_def split: option.splits)
  with run obtain outcome active asked where
    o: "open_engine_session R start deps (eng_id engine) = Some (outcome, active, asked)"
    by (auto simp: run_leg_def deps_def Let_def split: option.splits)
  let ?asked = "map (\<lambda>i. (i, deps)) asked"
  define h1 where "h1 = h\<lparr>h_sessions := h_sessions h @ ?asked\<rparr>"
  have asks: "asked = [eng_id engine] \<or> (\<exists>d. default_engine R = Some d \<and> asked = [eng_id engine, eng_id d]
      \<and> start (eng_id engine) deps \<noteq> Started)" "distinct asked" "active = last asked" "outcome = start active deps"
    using open_engine_session_asks [OF o] by simp_all
  have sess: "h_sessions h' = h_sessions h @ ?asked"
    using run e o quiet(1) [of h1]
    by (auto simp: run_leg_def deps_def [symmetric] Let_def h1_def [symmetric] fail_unavailable_engine_def
        end_call_sessions [OF quiet(3)] after_pump_sessions [OF quiet(2,3)] on_rooms_def split: if_splits prod.splits)
      (simp_all add: h1_def)
  have "\<exists>e. out = Inl e" if "outcome \<noteq> Started"
    using run e o that by (auto simp: run_leg_def deps_def [symmetric] Let_def fail_unavailable_engine_def)
  moreover have "sd_transcripts deps \<longleftrightarrow> h_pool h \<and> (\<exists>c. call_row h (pl_call_id leg) = Some c
      \<and> v_transcription_started_at c \<noteq> None)" "\<not> sd_listener_pays deps"
    by (auto simp: deps_def phone_session_deps_def transcription_permitted_def split: option.splits)
  ultimately show ?thesis
    using asks by (intro exI [of _ ?asked] conjI sess) (auto simp: list_all_iff comp_def)
qed

section \<open>A leg waits for one socket, a peer for one call\<close>

datatype leg_op = Park PendingLeg | Take nat | Discard nat

text \<open>The legs handed out, in order, and what still waits.\<close>

fun leg_run :: "leg_op list \<Rightarrow> LiveCalls \<Rightarrow> PendingLeg list \<times> LiveCalls" where
  "leg_run [] pending = ([], pending)"
| "leg_run (Park leg # ops) pending = leg_run ops (park leg pending)"
| "leg_run (Take call # ops) pending =
     (let (leg, pending1) = take_leg call pending; (given, pending2) = leg_run ops pending1
      in ((case leg of None \<Rightarrow> [] | Some l \<Rightarrow> [l]) @ given, pending2))"
| "leg_run (Discard call # ops) pending = leg_run ops (discard call pending)"

fun parked :: "leg_op \<Rightarrow> PendingLeg list" where
  "parked (Park leg) = [leg]"
| "parked _ = []"

definition legs_of :: "nat \<Rightarrow> PendingLeg list \<Rightarrow> PendingLeg list" where
  "legs_of call = filter (\<lambda>l. pl_call_id l = call)"

definition waiting_ok :: "LiveCalls \<Rightarrow> bool" where
  "waiting_ok pending \<longleftrightarrow> keys_distinct pending \<and> (\<forall>i l. map_of pending i = Some l \<longrightarrow> pl_call_id l = i)"

lemma legs_of_simps [simp]:
  "legs_of i [] = []" "legs_of i (l # ls) = (if pl_call_id l = i then [l] else []) @ legs_of i ls"
  "legs_of i (xs @ ys) = legs_of i xs @ legs_of i ys"
  by (simp_all add: legs_of_def)

lemma keys_distinct_delete [simp]: "keys_distinct m \<Longrightarrow> keys_distinct (AList.delete k m)"
  by (simp add: keys_distinct_def distinct_delete)

lemma waiting_ops [simp]:
  "waiting_ok pending \<Longrightarrow> waiting_ok (park leg pending)"
  "waiting_ok pending \<Longrightarrow> waiting_ok (snd (take_leg call pending))"
  "waiting_ok pending \<Longrightarrow> waiting_ok (discard call pending)"
  by (auto simp: waiting_ok_def park_def discard_def take_leg_def update_conv' delete_conv' split: if_splits)

definition waits :: "nat \<Rightarrow> LiveCalls \<Rightarrow> nat" where
  "waits call pending = (if map_of pending call = None then 0 else 1)"

lemma ran_delete: "ran (\<lambda>a. if a = i then None else map_of m a) \<subseteq> ran (map_of m)"
  by (auto simp: ran_def split: if_splits)

lemma leg_run_bounds:
  assumes "waiting_ok pending" and "leg_run ops pending = (given, pending')"
  shows "waiting_ok pending'
     \<and> length (legs_of call given) + waits call pending'
         \<le> length (legs_of call (concat (map parked ops))) + waits call pending
     \<and> set given \<subseteq> set (concat (map parked ops)) \<union> ran (map_of pending)"
  using assms
proof (induction ops arbitrary: pending given pending')
  case Nil
  then show ?case by simp
next
  case (Cons op ops)
  show ?case
  proof (cases op)
    case (Park leg)
    with Cons.prems have "leg_run ops (park leg pending) = (given, pending')" by simp
    from Cons.IH [OF waiting_ops(1) [OF Cons.prems(1)] this] Park show ?thesis
      by (auto simp: waits_def park_def update_conv' ran_def split: if_splits)
  next
    case (Take i)
    with Cons.prems obtain g where run: "leg_run ops (AList.delete i pending) = (g, pending')"
      and given: "given = (case map_of pending i of None \<Rightarrow> [] | Some l \<Rightarrow> [l]) @ g"
      by (auto simp: take_leg_def split: prod.splits)
    have ok: "waiting_ok (AList.delete i pending)"
      using waiting_ops(2) [OF Cons.prems(1), of i] by (simp add: take_leg_def)
    have "pl_call_id l = i" if "map_of pending i = Some l" for l
      using that Cons.prems(1) by (simp add: waiting_ok_def)
    then show ?thesis
      using Cons.IH [OF ok run] Take given ran_delete [of i pending]
      by (auto simp: waits_def delete_conv' ran_def split: option.splits if_splits)
  next
    case (Discard i)
    with Cons.prems have run: "leg_run ops (AList.delete i pending) = (given, pending')"
      by (simp add: discard_def take_leg_def)
    have ok: "waiting_ok (AList.delete i pending)"
      using waiting_ops(2) [OF Cons.prems(1), of i] by (simp add: take_leg_def)
    then show ?thesis
      using Cons.IH [OF ok run] Discard ran_delete [of i pending]
      by (auto simp: waits_def delete_conv' split: if_splits)
  qed
qed

text \<open>
  A parked leg goes to one socket at most: over any sequence of parking, claiming and
  discarding, the legs handed out for a call and the one still waiting are together no more
  than the legs parked for it, and every leg handed out is one that was parked.
\<close>

theorem leg_claimed_once:
  "case leg_run ops [] of (given, pending) \<Rightarrow>
     length (legs_of call given) + waits call pending \<le> length (legs_of call (concat (map parked ops)))
     \<and> set given \<subseteq> set (concat (map parked ops))"
  using leg_run_bounds [of "[]" ops "fst (leg_run ops [])" "snd (leg_run ops [])" call]
  by (auto simp: waiting_ok_def waits_def split: prod.splits)

text \<open>
  A dial that fails leaves no trace of its telephone: if the guard of a created peer is
  dropped while armed, every room has the peers it had before, a room that the peer had
  opened is gone and every other room is still there; once disarmed, the guard does nothing.
\<close>

theorem abandoned_peer_leaves:
  assumes "rooms_ok m" and "find_peer m room (PHONE_PEER_ID_PREFIX @ uuid) = None"
    and "create_phone_peer m room engine lang uuid conn tx session = (Inr peer, m1)"
  shows "peers_of (guard_drop (guard_new peer) m1) r = peers_of m r
     \<and> (map_of (rooms (guard_drop (guard_new peer) m1)) r = None
          \<longleftrightarrow> map_of (rooms m) r = None \<or> r = room \<and> peers_of m r = [])
     \<and> guard_drop (disarm (guard_new peer)) m1 = m1"
proof -
  let ?i = "PHONE_PEER_ID_PREFIX @ uuid"
  define p where "p = \<lparr>p_id = ?i, p_conn = conn, p_name = PHONE_PEER_NAME, p_lang = lang,
    p_user_id = None, p_engine = engine, p_avatar_url = None, p_voice_id = None, p_tx = tx, p_speaking = False\<rparr>"
  let ?old = "peers_of m room"
  have no: "\<forall>q \<in> set ?old. p_id q \<noteq> ?i"
    using assms(2) by (auto simp: find_peer_def find_None_iff)
  then have keep: "filter (\<lambda>q. p_id q \<noteq> ?i) ?old = ?old"
    "filter (\<lambda>q. \<not> (p_id q = ?i \<and> p_conn q = conn)) ?old = ?old"
    by (simp_all add: filter_id_conv)
  have pid: "p_id p = ?i" "p_conn p = conn" by (simp_all add: p_def)
  obtain out mm where j: "join (m\<lparr>chans := (chans m)(tx := channel OUT_CHANNEL_CAP)\<rparr>) room p Private session
      = (out, mm)" by (rule prod.exhaust)
  have c: "(case out of Inl u \<Rightarrow> (Inl (), mm)
      | Inr joined \<Rightarrow> (Inr \<lparr>pp_session_id = j_session_id joined, pp_room = room, pp_peer_id = ?i,
          pp_conn = conn, pp_from_room = tx\<rparr>, mm)) = (Inr peer, m1)"
    using assms(3) unfolding create_phone_peer_def Let_def p_def [symmetric] j
    by (cases out) simp_all
  have peer: "pp_room peer = room" "pp_peer_id peer = ?i" "pp_conn peer = conn" "mm = m1" "\<not> isl out"
    using c by (cases out; force)+
  obtain R where R: "rooms m1 = AList.update room R (rooms m)" "rm_peers R = ?old @ [p]"
    using j keep(1) peer(4,5) unfolding join_def
    by (cases "map_of (rooms m) room") (auto simp: Let_def peers_of_def pid new_room_def split: if_splits)
  have R': "map_of (rooms m1) k = (if k = room then Some R else map_of (rooms m) k)" for k
    by (simp add: R(1) update_conv')
  then have room: "map_of (rooms m1) room = Some R" by simp
  have g: "guard_drop (guard_new peer) m1 = snd (remove m1 room ?i conn)"
    by (simp add: guard_drop_def guard_new_def peer)
  have d: "keys_distinct (rooms m1)" using assms(1) by (simp add: R(1) rooms_ok_def)
  have f: "filter (\<lambda>q. \<not> (p_id q = ?i \<and> p_conn q = conn)) (rm_peers R) = ?old"
    using keep(2) by (simp add: R(2) pid del: imp_conv_disj de_Morgan_conj)
  have after: "map_of (rooms (guard_drop (guard_new peer) m1)) k =
      (if k = room then (if ?old = [] then None else Some (set_peers ?old R)) else map_of (rooms m) k)" for k
    using d unfolding g remove_def room Let_def option.case f
    by (simp add: R(2) map_of_remove_if R' set_peers_def)
  show ?thesis
    using after by (auto simp: peers_of_def set_peers_def guard_drop_def disarm_def split: option.splits)
qed

text \<open>Witnesses of the two.\<close>

theorem abandoned_peer_leaves_witness:
  "\<exists>peer m1. create_phone_peer (new_manager (\<lambda>_. channel 512) :: (nat, nat) RoomManager) ''r'' ''e'' ''it'' ''x'' 0 0 5
       = (Inr peer, m1)
     \<and> map_of (rooms m1) ''r'' \<noteq> None \<and> map_of (rooms (guard_drop (guard_new peer) m1)) ''r'' = None"
proof -
  let ?m = "new_manager (\<lambda>_. channel 512) :: (nat, nat) RoomManager"
  have "case create_phone_peer ?m ''r'' ''e'' ''it'' ''x'' 0 0 5 of
      (out, m1) \<Rightarrow> map_of (rooms m1) ''r'' \<noteq> None \<and> (case out of Inl _ \<Rightarrow> False | Inr _ \<Rightarrow> True)"
    by code_simp
  then obtain peer m1 where c: "create_phone_peer ?m ''r'' ''e'' ''it'' ''x'' 0 0 5 = (Inr peer, m1)"
    "map_of (rooms m1) ''r'' \<noteq> None"
    by (auto split: prod.splits sum.splits)
  have "peers_of ?m ''r'' = []" "find_peer ?m ''r'' (PHONE_PEER_ID_PREFIX @ ''x'') = None" by code_simp+
  with abandoned_peer_leaves [OF new_manager_ok(1) _ c(1), of "''r''"] c show ?thesis by auto
qed

text \<open>A leg dialled on an engine that is full, with the standard engine to fall back on.\<close>

definition sample_engine :: "string \<Rightarrow> nat EngineMetadata" where
  "sample_engine i = \<lparr>eng_id = i, eng_display_name = [], eng_tier = ''standard'', eng_description = [],
     eng_cost_per_minute = 1, eng_markup = 1, eng_input_languages = [], eng_output_languages = [],
     eng_capabilities = \<lparr>ec_translated_audio = True, ec_cost_scales_per_language = True,
       ec_client_direct = False, ec_max_room_size = 8\<rparr>\<rparr>"

definition sample_engines :: "nat EngineRegistry" where
  "sample_engines = register (sample_engine ''e'') (register (sample_engine STANDARD_ID) (registry_new STANDARD_ID))"

lemma sample_engines_facts:
  "\<exists>e. resolve_engine sample_engines (Some ''e'') = Some e \<and> eng_id e = ''e''"
  "\<exists>d. default_engine sample_engines = Some d \<and> eng_id d = STANDARD_ID"
  by (simp_all add: sample_engines_def register_def registry_new_def default_engine_def resolve_engine_def
      get_engine_def sample_engine_def STANDARD_ID_def)

lemma sample_leg_runs:
  "\<exists>out h'. run_leg sample_engines (\<lambda>i _. if i = ''e'' then AtCapacity else Started) (\<lambda>_. ''json'') 5 sample_leg
       (\<lambda>h. (Inr RoomEnded, h)) (\<lambda>_ h. h) (\<lambda>h. h) h = Some (out, h')"
  using sample_engines_facts by (auto simp: run_leg_def sample_leg_def open_engine_session_def Let_def STANDARD_ID_def)

end
