(* ===== verification/Inbound.thy ===== *)
theory Inbound
  imports Voip_Session Hours E164_Number Consent
begin

text \<open>
  Somebody is calling us, \<^verbatim>\<open>server/src/voip/inbound.rs\<close>, with the endpoint that takes the call
  (\<^verbatim>\<open>server/src/voip/routes.rs\<close>, \<open>answer_inbound\<close>): admission, routing, the caller's language, the
  ring deadline and the sweep over the calls nobody came to. The columns of \<^verbatim>\<open>voip_calls\<close> that only
  inbound calls use are a table of their own, by call; an entry is \<open>direction = 'inbound'\<close>. What is
  told to the carrier and to the users is a log. The time zones, the copy and the identifiers are
  parameters; the queries that may fail are flags. Instants are in microseconds.
\<close>

section \<open>Tables\<close>

datatype Refusal = Disabled | UnknownNumber | InboundOff | NotEntitled

fun refusal_as_str :: "Refusal \<Rightarrow> string" where
  "refusal_as_str Disabled = ''inbound_disabled''"
| "refusal_as_str UnknownNumber = ''unknown_number''"
| "refusal_as_str InboundOff = ''inbound_off''"
| "refusal_as_str NotEntitled = ''not_entitled''"

record Ring =
  ring_user_ids :: "nat list"
  ring_seconds :: int
  ring_no_answer_action :: string
  ring_forward_to :: "string option"
  ring_stranger_language :: "string option"

record InboundNumber =
  in_number_id :: nat
  in_org_id :: nat
  in_e164 :: string

record NumberRow =
  nr_id :: nat
  nr_org_id :: nat
  nr_e164 :: string
  nr_inbound_enabled :: bool
  nr_status :: string

record RoutingRow =
  rr_ring_mode :: string
  rr_ring_user_ids :: "nat list"
  rr_ring_team_id :: "nat option"
  rr_ring_seconds :: int
  rr_no_answer_action :: string
  rr_forward_to :: "string option"
  rr_stranger_language :: "string option"

record ContactRow =
  ct_org_id :: nat
  ct_e164 :: string
  ct_id :: nat
  ct_name :: ustring
  ct_language :: "string option"

record HoursRow =
  hr_timezone :: string
  hr_opens :: "int list"
  hr_closes :: "int list"
  hr_closed_action :: string

text \<open>What admission and the sweep only read; \<open>idb_recording\<close> is the organisation's settings row.\<close>

record InboundDb =
  idb_numbers :: "NumberRow list"
  idb_routing :: "nat \<rightharpoonup> RoutingRow"
  idb_team_members :: "(nat \<times> nat) list"
  idb_org_members :: "(nat \<times> nat \<times> string) list"
  idb_contacts :: "ContactRow list"
  idb_hours :: "nat \<rightharpoonup> HoursRow"
  idb_recording :: "nat \<rightharpoonup> bool"

record InboundCols =
  ib_number_id :: "nat option"
  ib_contact_id :: "nat option"
  ib_answered_by :: "nat option"
  ib_rang_user_ids :: "nat list"
  ib_ring_deadline_at :: "int option"
  ib_missed :: bool

datatype CarrierCall =
  C_answer string
| C_hangup string
| C_stop_recording string
| C_speak string ustring ustring
| C_record string

record ('f, 'j) InboundHost =
  i_host :: "('f, 'j) CallHost"
  i_cols :: "(nat, InboundCols) kmap"
  i_sessions :: "(nat \<times> string \<times> nat) list"
  i_carrier :: "CarrierCall list"
  i_notified :: "(nat \<times> string \<times> ustring \<times> string) list"

section \<open>Routing and the caller\<close>

definition number_for :: "InboundDb \<Rightarrow> E164 \<Rightarrow> Refusal + InboundNumber" where
  "number_for db dest =
     (case find (\<lambda>n. nr_e164 n = e164_as_str dest) (idb_numbers db) of
        None \<Rightarrow> Inl UnknownNumber
      | Some n \<Rightarrow>
          if \<not> nr_inbound_enabled n \<or> nr_status n \<noteq> ''active'' then Inl InboundOff
          else Inr \<lparr>in_number_id = nr_id n, in_org_id = nr_org_id n, in_e164 = nr_e164 n\<rparr>)"

definition default_routing :: "int \<Rightarrow> RoutingRow" where
  "default_routing seconds =
     \<lparr>rr_ring_mode = ''owners'', rr_ring_user_ids = [], rr_ring_team_id = None, rr_ring_seconds = seconds,
      rr_no_answer_action = ''voicemail'', rr_forward_to = None, rr_stranger_language = None\<rparr>"

definition routed_users :: "InboundDb \<Rightarrow> RoutingRow \<Rightarrow> nat list" where
  "routed_users db row =
     (if rr_ring_mode row = ''users'' then rr_ring_user_ids row
      else if rr_ring_mode row = ''team'' then
        (case rr_ring_team_id row of
           None \<Rightarrow> []
         | Some team \<Rightarrow> map snd (filter (\<lambda>(t, _). t = team) (idb_team_members db)))
      else [])"

definition responsible_users :: "InboundDb \<Rightarrow> nat \<Rightarrow> nat list" where
  "responsible_users db org =
     map (\<lambda>(_, u, _). u)
       (filter (\<lambda>(o', _, role). o' = org \<and> role \<in> {''owner'', ''admin''}) (idb_org_members db))"

definition resolve_ring :: "InboundDb \<Rightarrow> nat \<Rightarrow> nat \<Rightarrow> int \<Rightarrow> Ring" where
  "resolve_ring db number org default_seconds =
     (let row = (case idb_routing db number of Some r \<Rightarrow> r | None \<Rightarrow> default_routing default_seconds);
          users = routed_users db row
      in \<lparr>ring_user_ids = (if users = [] then responsible_users db org else users),
          ring_seconds = rr_ring_seconds row, ring_no_answer_action = rr_no_answer_action row,
          ring_forward_to = rr_forward_to row, ring_stranger_language = rr_stranger_language row\<rparr>)"

definition unwrap_or :: "'a option \<Rightarrow> 'a \<Rightarrow> 'a" where
  "unwrap_or x d = (case x of Some v \<Rightarrow> v | None \<Rightarrow> d)"

definition identify_caller ::
  "InboundDb \<Rightarrow> nat \<Rightarrow> E164 \<Rightarrow> string option \<Rightarrow> nat option \<times> ustring option \<times> string" where
  "identify_caller db org src stranger =
     (case find (\<lambda>c. ct_org_id c = org \<and> ct_e164 c = e164_as_str src) (idb_contacts db) of
        Some c \<Rightarrow> (Some (ct_id c), Some (ct_name c), unwrap_or (coalesce (ct_language c) stranger) ''en'')
      | None \<Rightarrow> (None, None, unwrap_or stranger ''en''))"

definition ring_users ::
  "nat list \<Rightarrow> string \<Rightarrow> ustring \<Rightarrow> string \<Rightarrow> ('f, 'j) InboundHost \<Rightarrow> ('f, 'j) InboundHost" where
  "ring_users users room caller number h =
     h\<lparr>i_notified := i_notified h @ map (\<lambda>u. (u, room, caller, number)) users\<rparr>"

definition VOICEMAIL_SECONDS :: int where "VOICEMAIL_SECONDS = 120"

definition ring_deadline :: "int \<Rightarrow> int \<Rightarrow> int" where
  "ring_deadline now seconds = now + int (clamp seconds 5 120) * 1000000"

section \<open>Admission\<close>

record InboundConfig =
  ic_inbound_enabled :: bool
  ic_ring_seconds_default :: int
  ic_recording_enabled :: bool

text \<open>Which of admission's queries fail; \<open>df_insert\<close> is the transaction, which then writes nothing.\<close>

record DbFaults =
  df_number :: bool
  df_subscription :: bool
  df_hours :: bool
  df_routing :: bool
  df_contact :: bool
  df_insert :: bool
  df_closed :: bool

record 'z zones =
  z_parse :: "string \<Rightarrow> 'z option"
  z_utc :: 'z
  z_local :: "'z \<Rightarrow> int \<Rightarrow> nat \<times> nat \<times> nat"

text \<open>The fresh identifiers of an admission.\<close>

record AdmitIds =
  ai_room :: string
  ai_peer :: string
  ai_conn :: nat
  ai_tx :: nat
  ai_session :: nat
  ai_call :: nat

definition on_host ::
  "(('f, 'j) CallHost \<Rightarrow> ('f, 'j) CallHost) \<Rightarrow> ('f, 'j) InboundHost \<Rightarrow> ('f, 'j) InboundHost" where
  "on_host f h = h\<lparr>i_host := f (i_host h)\<rparr>"

definition carrier_call :: "CarrierCall \<Rightarrow> ('f, 'j) InboundHost \<Rightarrow> ('f, 'j) InboundHost" where
  "carrier_call c h = h\<lparr>i_carrier := i_carrier h @ [c]\<rparr>"

definition change_call :: "nat \<Rightarrow> (VoipCall \<Rightarrow> VoipCall) \<Rightarrow> ('f, 'j) InboundHost \<Rightarrow> ('f, 'j) InboundHost" where
  "change_call call f = on_host (on_world (with_calls (update_call call f)))"

definition change_cols :: "nat \<Rightarrow> (InboundCols \<Rightarrow> InboundCols) \<Rightarrow> ('f, 'j) InboundHost \<Rightarrow> ('f, 'j) InboundHost" where
  "change_cols call f h = h\<lparr>i_cols := modify_entry call f (i_cols h)\<rparr>"

definition inbound_row :: "AdmitIds \<Rightarrow> InboundNumber \<Rightarrow> E164 \<Rightarrow> string \<Rightarrow> string \<Rightarrow> string \<Rightarrow> int \<Rightarrow> VoipCall" where
  "inbound_row ids number src language engine_id leg now =
     \<lparr>v_id = ai_call ids, v_session_id = ai_session ids, v_org_id = in_org_id number, v_user_id = None,
      v_legs = [leg], v_recipient_e164 = e164_as_str src, v_target_language = ustr language,
      v_engine_id = engine_id, v_status = ''ringing'', v_failure_reason = None, v_started_at = now,
      v_answered_at = None, v_ended_at = None, v_duration_seconds = None,
      v_recording_status = ''none'', v_recording_started_at = None, v_recording_url = None,
      v_recording_id = None, v_transcription_status = ''none'', v_transcription_started_at = None,
      v_consent_policy = ''notice_only'', v_consent_status = ''not_required'',
      v_disclosure_played_at = None, v_disclosure_language = None, v_consent_received_at = None,
      v_estimated_cost_usd = None, v_quoted_price_per_min = None, v_actual_provider_cost_usd = None,
      v_customer_charge_usd = None, v_credits_consumed = 0, v_gross_margin = None,
      v_ai_analysis_requested = False\<rparr>"

text \<open>The two inserts of the transaction.\<close>

definition insert_inbound ::
  "AdmitIds \<Rightarrow> InboundNumber \<Rightarrow> E164 \<Rightarrow> string \<Rightarrow> string \<Rightarrow> string \<Rightarrow> int \<Rightarrow> nat option \<Rightarrow> Ring
     \<Rightarrow> ('f, 'j) InboundHost \<Rightarrow> ('f, 'j) InboundHost" where
  "insert_inbound ids number src language engine_id leg now contact ring h =
     (on_host (on_world (with_calls (\<lambda>cs. cs @ [inbound_row ids number src language engine_id leg now]))) h)
       \<lparr>i_sessions := i_sessions h @ [(ai_session ids, ''ph-'' @ ai_room ids, in_org_id number)],
        i_cols := AList.update (ai_call ids)
          \<lparr>ib_number_id = Some (in_number_id number), ib_contact_id = contact, ib_answered_by = None,
           ib_rang_user_ids = ring_user_ids ring,
           ib_ring_deadline_at = Some (ring_deadline now (ring_seconds ring)), ib_missed = False\<rparr> (i_cols h)\<rparr>"

definition outside_hours :: "nat \<Rightarrow> int \<Rightarrow> ('f, 'j) InboundHost \<Rightarrow> ('f, 'j) InboundHost" where
  "outside_hours call now h =
     change_cols call (\<lambda>b. b\<lparr>ib_ring_deadline_at := Some now, ib_rang_user_ids := []\<rparr>)
       (change_call call (\<lambda>c. c\<lparr>v_failure_reason := Some ''outside_business_hours''\<rparr>) h)"

definition office_open :: "DbFaults \<Rightarrow> InboundDb \<Rightarrow> 'z zones \<Rightarrow> int \<Rightarrow> nat \<Rightarrow> bool" where
  "office_open F db Z now number =
     (case (if df_hours F then None else idb_hours db number) of
        None \<Rightarrow> True
      | Some r \<Rightarrow> is_open (z_parse Z) (z_utc Z) (z_local Z) now (hr_timezone r)
                   (Some (from_arrays (hr_opens r) (hr_closes r))))"

text \<open>What follows the checks: the room and its telephone, the row, the carrier and the users.\<close>

definition admit_call ::
  "DbFaults \<Rightarrow> InboundDb \<Rightarrow> 'z zones \<Rightarrow> InboundConfig \<Rightarrow> int \<Rightarrow> AdmitIds \<Rightarrow> string \<Rightarrow> string \<Rightarrow> E164
     \<Rightarrow> InboundNumber \<Rightarrow> ('f, 'j) InboundHost \<Rightarrow> (Refusal + nat) \<times> ('f, 'j) InboundHost" where
  "admit_call F db Z cfg now ids engine_id leg src number h =
     (let is_open_now = office_open F db Z now (in_number_id number);
          ring = resolve_ring db (in_number_id number) (in_org_id number) (ic_ring_seconds_default cfg);
          (contact, name, language) =
            (if df_contact F then (None, None, ''en'')
             else identify_caller db (in_org_id number) src (ring_stranger_language ring));
          room = ''ph-'' @ ai_room ids;
          call = ai_call ids
      in case create_phone_peer (h_rooms (i_host h)) room engine_id language (ai_peer ids) (ai_conn ids)
                (ai_tx ids) (ai_session ids) of
           (Inl _, m) \<Rightarrow> (Inl NotEntitled, on_host (on_rooms (\<lambda>_. m)) h)
         | (Inr peer, m) \<Rightarrow>
             if df_insert F
             then (Inl UnknownNumber, on_host (on_rooms (\<lambda>_. guard_drop (guard_new peer) m)) h)
             else let h1 = insert_inbound ids number src language engine_id leg now contact ring
                             (on_host (on_rooms (\<lambda>_. m)) h);
                      h2 = on_host (\<lambda>x. x\<lparr>h_live := park_phone_peer peer call (in_org_id number) None
                                              engine_id language (h_live x)\<rparr>) h1;
                      h3 = carrier_call (C_answer leg) h2
                  in (Inr call,
                      if is_open_now
                      then ring_users (ring_user_ids ring) room
                             (unwrap_or name (unwrap_or (e164_masked src) [])) (in_e164 number) h3
                      else if df_closed F then h3 else outside_hours call now h3))"

text \<open>\<open>engine_id\<close> is the id of the registry's default engine.\<close>

definition admit ::
  "DbFaults \<Rightarrow> InboundDb \<Rightarrow> 'z zones \<Rightarrow> InboundConfig option \<Rightarrow> int \<Rightarrow> AdmitIds \<Rightarrow> string \<Rightarrow> string
     \<Rightarrow> ustring \<Rightarrow> ustring \<Rightarrow> ('f, 'j) InboundHost \<Rightarrow> (Refusal + nat) \<times> ('f, 'j) InboundHost" where
  "admit F db Z config now ids engine_id leg from_raw to_raw h =
     (case config of
        None \<Rightarrow> (Inl Disabled, h)
      | Some cfg \<Rightarrow>
          if \<not> ic_inbound_enabled cfg then (Inl Disabled, h)
          else case (e164_parse from_raw, e164_parse to_raw) of
                 (Inr src, Inr dest) \<Rightarrow>
                   (case (if df_number F then Inl UnknownNumber else number_for db dest) of
                      Inl refusal \<Rightarrow> (Inl refusal, h)
                    | Inr number \<Rightarrow>
                        if df_subscription F
                           \<or> \<not> org_subscription_active (hold_pool (w_holds (h_world (i_host h))))
                                (in_org_id number) now
                        then (Inl NotEntitled, h)
                        else if df_routing F then (Inl UnknownNumber, h)
                        else admit_call F db Z cfg now ids engine_id leg src number h)
               | _ \<Rightarrow> (Inl UnknownNumber, h))"

section \<open>Taking the call\<close>

definition unanswered :: "InboundCols \<Rightarrow> bool" where
  "unanswered b \<longleftrightarrow> ib_answered_by b = None"

text \<open>\<open>Inl ()\<close> is the refusal \<open>already_answered\<close>; the membership check is the caller's.\<close>

definition answer_inbound ::
  "nat \<Rightarrow> nat \<Rightarrow> nat \<Rightarrow> ('f, 'j) InboundHost \<Rightarrow> (unit + string) \<times> ('f, 'j) InboundHost" where
  "answer_inbound org call user h =
     (case (find_call (w_calls (h_world (i_host h))) call, map_of (i_cols h) call) of
        (Some c, Some b) \<Rightarrow>
          (case map_of (i_sessions h) (v_session_id c) of
             Some (room, _) \<Rightarrow>
               if v_org_id c = org \<and> unanswered b
               then (Inr room,
                     change_cols call (\<lambda>b. b\<lparr>ib_answered_by := Some user, ib_ring_deadline_at := None\<rparr>)
                       (change_call call (\<lambda>c. c\<lparr>v_user_id := Some user\<rparr>) h))
               else (Inl (), h)
           | None \<Rightarrow> (Inl (), h))
      | _ \<Rightarrow> (Inl (), h))"

section \<open>Calls nobody came to\<close>

record UnansweredRow =
  ur_id :: nat
  ur_legs :: "string list"
  ur_no_answer_action :: "string option"
  ur_missed :: bool
  ur_target_language :: ustring
  ur_org_allows_recording :: bool

definition is_due :: "int \<Rightarrow> (nat, InboundCols) kmap \<Rightarrow> VoipCall \<Rightarrow> bool" where
  "is_due now cols c \<longleftrightarrow> row_live c \<and>
     (case map_of cols (v_id c) of
        None \<Rightarrow> False
      | Some b \<Rightarrow> unanswered b \<and> (case ib_ring_deadline_at b of None \<Rightarrow> False | Some d \<Rightarrow> d \<le> now))"

definition unanswered_row :: "InboundDb \<Rightarrow> (nat, InboundCols) kmap \<Rightarrow> VoipCall \<Rightarrow> UnansweredRow" where
  "unanswered_row db cols c =
     (let b = map_of cols (v_id c) in
      \<lparr>ur_id = v_id c, ur_legs = v_legs c,
       ur_no_answer_action = map_option rr_no_answer_action
         (Option.bind (Option.bind b ib_number_id) (idb_routing db)),
       ur_missed = (case b of None \<Rightarrow> False | Some b \<Rightarrow> ib_missed b),
       ur_target_language = v_target_language c,
       ur_org_allows_recording = unwrap_or (idb_recording db (v_org_id c)) False\<rparr>)"

definition complete_row :: "int \<Rightarrow> VoipCall \<Rightarrow> VoipCall" where
  "complete_row now c = c\<lparr>v_status := ''completed'', v_ended_at := coalesce (v_ended_at c) (Some now)\<rparr>"

definition close_voicemail :: "int \<Rightarrow> UnansweredRow \<Rightarrow> ('f, 'j) InboundHost \<Rightarrow> ('f, 'j) InboundHost" where
  "close_voicemail now r h =
     on_host (reclaim (ur_id r))
       (change_cols (ur_id r) (\<lambda>b. b\<lparr>ib_ring_deadline_at := None\<rparr>)
         (change_call (ur_id r) (complete_row now)
           (fold (\<lambda>leg h. carrier_call (C_hangup leg) (carrier_call (C_stop_recording leg) h)) (ur_legs r) h)))"

definition leaves_a_message :: "bool \<Rightarrow> UnansweredRow \<Rightarrow> bool" where
  "leaves_a_message deployment_records r \<longleftrightarrow>
     ur_no_answer_action r = Some ''voicemail'' \<and> ur_org_allows_recording r \<and> deployment_records"

text \<open>\<open>prompt\<close> is the voicemail sentence for a language.\<close>

definition take_message ::
  "(ustring \<Rightarrow> ustring) \<Rightarrow> UnansweredRow \<Rightarrow> string \<Rightarrow> ('f, 'j) InboundHost \<Rightarrow> ('f, 'j) InboundHost" where
  "take_message prompt r leg h =
     carrier_call (C_record leg) (carrier_call (C_speak leg (prompt (ur_target_language r)) (ur_target_language r)) h)"

definition miss_call ::
  "(ustring \<Rightarrow> ustring) \<Rightarrow> bool \<Rightarrow> int \<Rightarrow> UnansweredRow \<Rightarrow> ('f, 'j) InboundHost \<Rightarrow> ('f, 'j) InboundHost" where
  "miss_call prompt deployment_records now r h =
     (let i = ur_id r;
          h1 = change_cols i (\<lambda>b. b\<lparr>ib_missed := True, ib_ring_deadline_at := None\<rparr>)
                 (change_call i (\<lambda>c. c\<lparr>v_failure_reason := coalesce (v_failure_reason c) (Some ''no_answer'')\<rparr>) h)
      in if leaves_a_message deployment_records r
         then change_cols i (\<lambda>b. b\<lparr>ib_ring_deadline_at := Some (now + VOICEMAIL_SECONDS * 1000000)\<rparr>)
                (change_call i (\<lambda>c. c\<lparr>v_status := ''answered'', v_recording_status := ''pending''\<rparr>)
                  (fold (take_message prompt r) (ur_legs r) h1))
         else on_host (reclaim i)
                (change_call i (complete_row now)
                  (fold (\<lambda>leg. carrier_call (C_hangup leg)) (ur_legs r) h1)))"

definition sweep_row ::
  "(ustring \<Rightarrow> ustring) \<Rightarrow> bool \<Rightarrow> int \<Rightarrow> UnansweredRow \<Rightarrow> ('f, 'j) InboundHost \<Rightarrow> ('f, 'j) InboundHost" where
  "sweep_row prompt deployment_records now r h =
     (if ur_missed r then close_voicemail now r h else miss_call prompt deployment_records now r h)"

text \<open>The rows are read once; \<open>others n\<close> is what happens before the \<open>n\<close>-th of them is treated.\<close>

fun sweep_rows ::
  "(ustring \<Rightarrow> ustring) \<Rightarrow> bool \<Rightarrow> int \<Rightarrow> (nat \<Rightarrow> ('f, 'j) InboundHost \<Rightarrow> ('f, 'j) InboundHost) \<Rightarrow> nat
     \<Rightarrow> UnansweredRow list \<Rightarrow> ('f, 'j) InboundHost \<Rightarrow> ('f, 'j) InboundHost" where
  "sweep_rows prompt records now others n [] h = h"
| "sweep_rows prompt records now others n (r # rs) h =
     sweep_rows prompt records now others (Suc n) rs (sweep_row prompt records now r (others n h))"

definition due_rows :: "InboundDb \<Rightarrow> int \<Rightarrow> nat \<Rightarrow> ('f, 'j) InboundHost \<Rightarrow> UnansweredRow list" where
  "due_rows db now batch h =
     map (unanswered_row db (i_cols h))
       (take batch (filter (is_due now (i_cols h)) (w_calls (h_world (i_host h)))))"

definition sweep_unanswered ::
  "(ustring \<Rightarrow> ustring) \<Rightarrow> copy_table \<Rightarrow> InboundConfig option \<Rightarrow> InboundDb \<Rightarrow> int \<Rightarrow> nat
     \<Rightarrow> (nat \<Rightarrow> ('f, 'j) InboundHost \<Rightarrow> ('f, 'j) InboundHost) \<Rightarrow> ('f, 'j) InboundHost
     \<Rightarrow> nat \<times> ('f, 'j) InboundHost" where
  "sweep_unanswered lower copy config db now batch others h =
     (let rows = due_rows db now batch h;
          records = (case config of None \<Rightarrow> False | Some c \<Rightarrow> ic_recording_enabled c)
      in (length rows,
          sweep_rows (\<lambda>l. fst (voicemail_prompt lower copy l)) records now others 0 rows h))"

section \<open>What the steps of the sweep touch\<close>

definition the_call :: "('f, 'j) InboundHost \<Rightarrow> nat \<Rightarrow> VoipCall option" where
  "the_call h i = call_row (i_host h) i"

definition the_cols :: "('f, 'j) InboundHost \<Rightarrow> nat \<Rightarrow> InboundCols option" where
  "the_cols h i = map_of (i_cols h) i"

definition all_calls :: "('f, 'j) InboundHost \<Rightarrow> VoipCall list" where
  "all_calls h = w_calls (h_world (i_host h))"

definition the_holds :: "('f, 'j) InboundHost \<Rightarrow> VoipDb" where
  "the_holds h = w_holds (h_world (i_host h))"

lemmas host_sel = the_call_def the_cols_def all_calls_def the_holds_def call_row_def

lemma reclaim_world [simp]:
  "h_world (reclaim i h) = h_world h" "h_pool (reclaim i h) = h_pool h"
  by (simp_all add: reclaim_def on_rooms_def split: prod.split option.split)

lemma change_cols_sel [simp]:
  "the_call (change_cols i f h) j = the_call h j"
  "the_cols (change_cols i f h) j = (if j = i then map_option f (the_cols h j) else the_cols h j)"
  "all_calls (change_cols i f h) = all_calls h" "the_holds (change_cols i f h) = the_holds h"
  "i_carrier (change_cols i f h) = i_carrier h" "i_sessions (change_cols i f h) = i_sessions h"
  by (simp_all add: change_cols_def host_sel)

lemma carrier_call_sel [simp]:
  "the_call (carrier_call c h) j = the_call h j" "the_cols (carrier_call c h) j = the_cols h j"
  "all_calls (carrier_call c h) = all_calls h" "the_holds (carrier_call c h) = the_holds h"
  "i_carrier (carrier_call c h) = i_carrier h @ [c]" "i_sessions (carrier_call c h) = i_sessions h"
  by (simp_all add: carrier_call_def host_sel)

lemma on_host_reclaim_sel [simp]:
  "the_call (on_host (reclaim i) h) j = the_call h j" "the_cols (on_host (reclaim i) h) j = the_cols h j"
  "all_calls (on_host (reclaim i) h) = all_calls h" "the_holds (on_host (reclaim i) h) = the_holds h"
  "i_carrier (on_host (reclaim i) h) = i_carrier h" "i_sessions (on_host (reclaim i) h) = i_sessions h"
  by (simp_all add: on_host_def host_sel)

lemma change_call_sel:
  assumes "\<And>c. v_id (f c) = v_id c"
  shows "the_call (change_call i f h) j = (if j = i then map_option f (the_call h j) else the_call h j)"
  using assms by (simp add: change_call_def on_host_def on_world_def host_sel find_update_call)

lemma change_call_rest [simp]:
  "the_cols (change_call i f h) j = the_cols h j" "all_calls (change_call i f h) = update_call i f (all_calls h)"
  "the_holds (change_call i f h) = the_holds h"
  "i_carrier (change_call i f h) = i_carrier h" "i_sessions (change_call i f h) = i_sessions h"
  by (simp_all add: change_call_def on_host_def on_world_def host_sel)

text \<open>What one leg, and one row, say to the carrier.\<close>

definition row_commands :: "(ustring \<Rightarrow> ustring) \<Rightarrow> bool \<Rightarrow> UnansweredRow \<Rightarrow> CarrierCall list" where
  "row_commands prompt records r =
     concat (map (\<lambda>leg.
       if ur_missed r then [C_stop_recording leg, C_hangup leg]
       else if leaves_a_message records r
            then [C_speak leg (prompt (ur_target_language r)) (ur_target_language r), C_record leg]
            else [C_hangup leg]) (ur_legs r))"

lemma fold_carrier:
  assumes "\<And>leg h. g leg h = fold carrier_call (cmds leg) (h :: ('f, 'j) InboundHost)"
  shows "fold g legs h = fold carrier_call (concat (map cmds legs)) h"
  using assms by (induction legs arbitrary: h) simp_all

lemma fold_carrier_sel [simp]:
  "the_call (fold carrier_call cs h) j = the_call h j" "the_cols (fold carrier_call cs h) j = the_cols h j"
  "all_calls (fold carrier_call cs h) = all_calls h" "the_holds (fold carrier_call cs h) = the_holds h"
  "i_carrier (fold carrier_call cs h) = i_carrier h @ cs" "i_sessions (fold carrier_call cs h) = i_sessions h"
  by (induction cs arbitrary: h) simp_all

text \<open>One row of the sweep: the changes of its call and its columns, and the commands.\<close>

definition swept_call :: "bool \<Rightarrow> int \<Rightarrow> UnansweredRow \<Rightarrow> VoipCall \<Rightarrow> VoipCall" where
  "swept_call records now r c =
     (if ur_missed r then complete_row now c
      else let c1 = c\<lparr>v_failure_reason := coalesce (v_failure_reason c) (Some ''no_answer'')\<rparr>
           in if leaves_a_message records r then c1\<lparr>v_status := ''answered'', v_recording_status := ''pending''\<rparr>
              else complete_row now c1)"

definition swept_cols :: "bool \<Rightarrow> int \<Rightarrow> UnansweredRow \<Rightarrow> InboundCols \<Rightarrow> InboundCols" where
  "swept_cols records now r b =
     (if ur_missed r then b\<lparr>ib_ring_deadline_at := None\<rparr>
      else b\<lparr>ib_missed := True, ib_ring_deadline_at :=
              (if leaves_a_message records r then Some (now + VOICEMAIL_SECONDS * 1000000) else None)\<rparr>)"

lemma row_ids [simp]:
  "v_id (complete_row now c) = v_id c" "v_id (swept_call records now r c) = v_id c"
  "v_legs (complete_row now c) = v_legs c" "v_legs (swept_call records now r c) = v_legs c"
  by (simp_all add: complete_row_def swept_call_def Let_def)

lemma sweep_row_effect:
  "the_call (sweep_row prompt records now r h) j =
     (if j = ur_id r then map_option (swept_call records now r) (the_call h j) else the_call h j)"
  "the_cols (sweep_row prompt records now r h) j =
     (if j = ur_id r then map_option (swept_cols records now r) (the_cols h j) else the_cols h j)"
  "all_calls (sweep_row prompt records now r h) = update_call (ur_id r) (swept_call records now r) (all_calls h)"
  "the_holds (sweep_row prompt records now r h) = the_holds h"
  "i_carrier (sweep_row prompt records now r h) = i_carrier h @ row_commands prompt records r"
  "i_sessions (sweep_row prompt records now r h) = i_sessions h"
proof -
  have close: "fold (\<lambda>leg h. carrier_call (C_hangup leg) (carrier_call (C_stop_recording leg) h)) legs g =
      fold carrier_call (concat (map (\<lambda>leg. [C_stop_recording leg, C_hangup leg]) legs)) (g :: ('a, 'b) InboundHost)" for legs g
    by (rule fold_carrier) simp
  have message: "fold (take_message prompt r) legs g = fold carrier_call (concat (map (\<lambda>leg.
      [C_speak leg (prompt (ur_target_language r)) (ur_target_language r), C_record leg]) legs)) (g :: ('a, 'b) InboundHost)" for legs g
    by (rule fold_carrier) (simp add: take_message_def)
  have hang: "fold (\<lambda>leg. carrier_call (C_hangup leg)) legs g =
      fold carrier_call (concat (map (\<lambda>leg. [C_hangup leg]) legs)) (g :: ('a, 'b) InboundHost)" for legs g
    by (rule fold_carrier) simp
  note defs = sweep_row_def close_voicemail_def miss_call_def Let_def close message hang
    swept_call_def swept_cols_def change_call_sel row_commands_def
  show "the_call (sweep_row prompt records now r h) j =
     (if j = ur_id r then map_option (swept_call records now r) (the_call h j) else the_call h j)"
    by (cases "the_call h (ur_id r)") (simp_all add: defs)
  show "the_cols (sweep_row prompt records now r h) j =
     (if j = ur_id r then map_option (swept_cols records now r) (the_cols h j) else the_cols h j)"
    by (cases "the_cols h (ur_id r)") (simp_all add: defs)
  show "all_calls (sweep_row prompt records now r h) = update_call (ur_id r) (swept_call records now r) (all_calls h)"
    by (auto simp: defs update_call_comp intro!: arg_cong [where f = "\<lambda>f. update_call (ur_id r) f (all_calls h)"])
  show "the_holds (sweep_row prompt records now r h) = the_holds h"
    "i_carrier (sweep_row prompt records now r h) = i_carrier h @ row_commands prompt records r"
    "i_sessions (sweep_row prompt records now r h) = i_sessions h"
    by (simp_all add: defs)
qed

lemma find_fresh: "distinct (map f (x # xs)) \<Longrightarrow> find (\<lambda>y. f y = f x) xs = None"
  by (simp add: find_None_iff image_iff) metis

text \<open>Whatever else runs beside the sweep, it leaves one call and its columns alone.\<close>

definition leaves_call :: "nat \<Rightarrow> (('f, 'j) InboundHost \<Rightarrow> ('f, 'j) InboundHost) \<Rightarrow> bool" where
  "leaves_call i f \<longleftrightarrow> (\<forall>h. the_call (f h) i = the_call h i \<and> the_cols (f h) i = the_cols h i)"

lemma leaves_call_ident [simp]: "leaves_call i (\<lambda>h. h)"
  by (simp add: leaves_call_def)

lemma sweep_rows_effect:
  assumes "distinct (map ur_id rs)" and others: "\<And>n. leaves_call j (others n)"
  shows "the_call (sweep_rows prompt records now others n rs h) j =
      (case find (\<lambda>r. ur_id r = j) rs of None \<Rightarrow> the_call h j
       | Some r \<Rightarrow> map_option (swept_call records now r) (the_call h j))
    \<and> the_cols (sweep_rows prompt records now others n rs h) j =
      (case find (\<lambda>r. ur_id r = j) rs of None \<Rightarrow> the_cols h j
       | Some r \<Rightarrow> map_option (swept_cols records now r) (the_cols h j))"
  using assms(1)
proof (induction rs arbitrary: n h)
  case Nil
  then show ?case by simp
next
  case (Cons r rs)
  then have "find (\<lambda>q. ur_id q = ur_id r) rs = None" by (intro find_fresh) simp
  then show ?case
    using Cons.IH [of "Suc n" "sweep_row prompt records now r (others n h)"] Cons.prems
      others [of n, unfolded leaves_call_def]
    by (auto simp: sweep_row_effect split: option.splits)
qed

lemma sweep_rows_rest:
  "i_carrier (sweep_rows prompt records now (\<lambda>_ h. h) n rs h) =
     i_carrier h @ concat (map (row_commands prompt records) rs)"
  "the_holds (sweep_rows prompt records now (\<lambda>_ h. h) n rs h) = the_holds h"
  "map v_id (all_calls (sweep_rows prompt records now (\<lambda>_ h. h) n rs h)) = map v_id (all_calls h)"
  by (induction rs arbitrary: n h) (simp_all add: sweep_row_effect update_call_ids)

lemma row_cols [simp]:
  "ur_id (unanswered_row db cols c) = v_id c" "ur_legs (unanswered_row db cols c) = v_legs c"
  by (simp_all add: unanswered_row_def Let_def)

lemma due_rows_ids:
  "distinct (map v_id (all_calls h)) \<Longrightarrow> distinct (map ur_id (due_rows db now batch h))"
  unfolding due_rows_def all_calls_def
  by (simp add: comp_def distinct_map_filter take_map [symmetric] distinct_take)

lemma due_rows_find:
  assumes d: "distinct (map v_id (all_calls h))" and b: "length (all_calls h) \<le> batch"
  shows "find (\<lambda>r. ur_id r = i) (due_rows db now batch h) =
     (case the_call h i of None \<Rightarrow> None
      | Some c \<Rightarrow> if is_due now (i_cols h) c then Some (unanswered_row db (i_cols h) c) else None)"
proof -
  have all: "take batch (filter (is_due now (i_cols h)) (all_calls h)) = filter (is_due now (i_cols h)) (all_calls h)"
    using b by (meson length_filter_le order_trans take_all)
  have "find (\<lambda>c. v_id c = i) (filter P cs) =
      (case find (\<lambda>c. v_id c = i) cs of None \<Rightarrow> None | Some c \<Rightarrow> if P c then Some c else None)"
    if "distinct (map v_id cs)" for P and cs :: "VoipCall list"
    using that
  proof (induction cs)
    case Nil
    then show ?case by simp
  next
    case (Cons x cs)
    have "find (\<lambda>c. v_id c = i) cs = None" if "v_id x = i"
      using find_fresh [OF Cons.prems] that by simp
    with Cons show ?case by (auto split: option.splits)
  qed
  from this [OF d] show ?thesis
    using all by (simp add: due_rows_def find_map all_calls_def the_call_def call_row_def find_call_def
        split: option.split)
qed

text \<open>The whole sweep, one call at a time.\<close>

definition records_allowed :: "InboundConfig option \<Rightarrow> bool" where
  "records_allowed config = (case config of None \<Rightarrow> False | Some c \<Rightarrow> ic_recording_enabled c)"

lemma sweep_unanswered_effect:
  assumes d: "distinct (map v_id (all_calls h))" and b: "length (all_calls h) \<le> batch"
    and s: "sweep_unanswered lower copy config db now batch (\<lambda>_ h. h) h = (n, h')"
  shows "the_call h' i = (case the_call h i of None \<Rightarrow> None
      | Some c \<Rightarrow> Some (if is_due now (i_cols h) c
          then swept_call (records_allowed config) now (unanswered_row db (i_cols h) c) c else c))"
    and "the_cols h' i = (case the_cols h i of None \<Rightarrow> None
      | Some b \<Rightarrow> Some (case the_call h i of None \<Rightarrow> b
          | Some c \<Rightarrow> if is_due now (i_cols h) c
              then swept_cols (records_allowed config) now (unanswered_row db (i_cols h) c) b else b))"
    and "map v_id (all_calls h') = map v_id (all_calls h)" and "the_holds h' = the_holds h"
    and "i_carrier h' = i_carrier h @ concat (map (row_commands (\<lambda>l. fst (voicemail_prompt lower copy l))
           (records_allowed config)) (due_rows db now batch h))"
proof -
  let ?p = "\<lambda>l. fst (voicemail_prompt lower copy l)" and ?rs = "due_rows db now batch h"
  have h': "h' = sweep_rows ?p (records_allowed config) now (\<lambda>_ h. h) 0 ?rs h"
    using s by (auto simp: sweep_unanswered_def Let_def records_allowed_def)
  note e = sweep_rows_effect [where prompt = ?p and records = "records_allowed config" and now = now
      and rs = ?rs and n = 0 and h = h and others = "\<lambda>_ h. h" and j = i, OF due_rows_ids [OF d] leaves_call_ident]
  show "the_call h' i = (case the_call h i of None \<Rightarrow> None
      | Some c \<Rightarrow> Some (if is_due now (i_cols h) c
          then swept_call (records_allowed config) now (unanswered_row db (i_cols h) c) c else c))"
    using e by (simp add: h' due_rows_find [OF d b] split: option.split)
  show "the_cols h' i = (case the_cols h i of None \<Rightarrow> None
      | Some b \<Rightarrow> Some (case the_call h i of None \<Rightarrow> b
          | Some c \<Rightarrow> if is_due now (i_cols h) c
              then swept_cols (records_allowed config) now (unanswered_row db (i_cols h) c) b else b))"
    using e by (simp add: h' due_rows_find [OF d b] split: option.split)
  show "map v_id (all_calls h') = map v_id (all_calls h)" "the_holds h' = the_holds h"
    "i_carrier h' = i_carrier h @ concat (map (row_commands ?p (records_allowed config)) ?rs)"
    by (simp_all add: h' sweep_rows_rest)
qed

text \<open>The same for one call that is not cut off by the size of the batch, whatever runs beside the sweep.\<close>

definition within_batch :: "InboundDb \<Rightarrow> int \<Rightarrow> nat \<Rightarrow> ('f, 'j) InboundHost \<Rightarrow> nat \<Rightarrow> bool" where
  "within_batch db now batch h i \<longleftrightarrow>
     (\<forall>c. the_call h i = Some c \<longrightarrow> is_due now (i_cols h) c \<longrightarrow> i \<in> ur_id ` set (due_rows db now batch h))"

lemma due_rows_within:
  assumes d: "distinct (map v_id (all_calls h))" and w: "within_batch db now batch h i" and c: "the_call h i = Some c"
  shows "find (\<lambda>r. ur_id r = i) (due_rows db now batch h) =
     (if is_due now (i_cols h) c then Some (unanswered_row db (i_cols h) c) else None)"
proof -
  have row: "r = unanswered_row db (i_cols h) c \<and> is_due now (i_cols h) c"
    if r: "r \<in> set (due_rows db now batch h)" "ur_id r = i" for r
  proof -
    from r(1) obtain x where taken: "x \<in> set (take batch (filter (is_due now (i_cols h)) (all_calls h)))"
      and x: "r = unanswered_row db (i_cols h) x" by (auto simp: due_rows_def all_calls_def)
    from in_set_takeD [OF taken] r(2) x have x: "x \<in> set (all_calls h)" "is_due now (i_cols h) x"
      "r = unanswered_row db (i_cols h) x" "v_id x = i" by simp_all
    have "c \<in> set (all_calls h)" "v_id c = i"
      using c find_call_id [of "all_calls h" i c] by (auto simp: host_sel)
    then have "x = c" using d x(1,4) by (auto simp: distinct_map inj_on_def)
    with x show ?thesis by simp
  qed
  show ?thesis
  proof (cases "is_due now (i_cols h) c")
    case True
    with w c obtain r where "r \<in> set (due_rows db now batch h)" "ur_id r = i" by (auto simp: within_batch_def)
    then obtain q where "find (\<lambda>r. ur_id r = i) (due_rows db now batch h) = Some q"
      by (cases "find (\<lambda>r. ur_id r = i) (due_rows db now batch h)") (auto simp: find_None_iff)
    moreover from find_SomeD [OF this] row have "q = unanswered_row db (i_cols h) c" by blast
    ultimately show ?thesis using True by simp
  next
    case False
    with row show ?thesis by (auto simp: find_None_iff)
  qed
qed

lemma within_batch_whole: "distinct (map v_id (all_calls h)) \<Longrightarrow> length (all_calls h) \<le> batch \<Longrightarrow> within_batch db now batch h i"
  using due_rows_find [where h = h and batch = batch and i = i and now = now and db = db]
  by (auto simp: within_batch_def find_Some_iff dest: nth_mem)

lemma sweep_one_call:
  assumes "distinct (map v_id (all_calls h))" and "within_batch db now batch h i" and "the_call h i = Some c"
    and "\<And>n. leaves_call i (others n)"
    and "sweep_unanswered lower copy config db now batch others h = (n, h')"
  shows "the_call h' i = Some (if is_due now (i_cols h) c
          then swept_call (records_allowed config) now (unanswered_row db (i_cols h) c) c else c)"
    and "the_cols h' i = (if is_due now (i_cols h) c
          then map_option (swept_cols (records_allowed config) now (unanswered_row db (i_cols h) c)) (the_cols h i)
          else the_cols h i)"
proof -
  have h': "h' = sweep_rows (\<lambda>l. fst (voicemail_prompt lower copy l)) (records_allowed config) now others 0
      (due_rows db now batch h) h"
    using assms(5) by (auto simp: sweep_unanswered_def Let_def records_allowed_def)
  note e = sweep_rows_effect [where prompt = "\<lambda>l. fst (voicemail_prompt lower copy l)"
      and records = "records_allowed config" and now = now and rs = "due_rows db now batch h" and n = 0 and h = h
      and others = others and j = i, OF due_rows_ids [OF assms(1)] assms(4)]
  show "the_call h' i = Some (if is_due now (i_cols h) c
          then swept_call (records_allowed config) now (unanswered_row db (i_cols h) c) c else c)"
    "the_cols h' i = (if is_due now (i_cols h) c
          then map_option (swept_cols (records_allowed config) now (unanswered_row db (i_cols h) c)) (the_cols h i)
          else the_cols h i)"
    using e assms(3)
    by (simp_all add: h' due_rows_within [OF assms(1-3)])
qed

text \<open>
  C13: An unanswered call comes to an end: of two passes of the sweep, the second at least two minutes
  after the first, each with the call in its batch if it is due (which a batch as large as the table
  gives), the second completes the call if it was due at the first, and the miss is recorded; the first
  completes it at once unless a message is being taken; and a call that is answered, over or still
  ringing within its time is left as it is. Between the rows of a pass and between the passes anything
  else may run that leaves this call's row and columns alone: nobody answers it and no event of its
  own arrives in between, which the sweep does not check.
\<close>

theorem unanswered_calls_end:
  assumes d: "distinct (map v_id (all_calls h))" and b: "within_batch db now batch h i"
    and o1: "\<And>n. leaves_call i (others n)"
    and s1: "sweep_unanswered lower copy config db now batch others h = (n1, h1)"
    and between: "leaves_call i between" and d2: "distinct (map v_id (all_calls (between h1)))"
    and b2: "within_batch db2 now2 batch2 (between h1) i" and o2: "\<And>n. leaves_call i (others2 n)"
    and s2: "sweep_unanswered lower copy config2 db2 now2 batch2 others2 (between h1) = (n2, h2)"
    and late: "now + VOICEMAIL_SECONDS * 1000000 \<le> now2" and c: "the_call h i = Some c"
  shows "if is_due now (i_cols h) c
     then (\<exists>c2 b2. the_call h2 i = Some c2 \<and> v_status c2 = ''completed'' \<and> v_ended_at c2 \<noteq> None
            \<and> the_cols h2 i = Some b2 \<and> ib_missed b2 \<and> ib_answered_by b2 = None)
       \<and> (leaves_a_message (records_allowed config) (unanswered_row db (i_cols h) c)
            \<and> \<not> ur_missed (unanswered_row db (i_cols h) c)
          \<or> (\<exists>c1. the_call h1 i = Some c1 \<and> v_status c1 = ''completed''))
     else the_call h1 i = Some c \<and> the_cols h1 i = the_cols h i"
proof (cases "is_due now (i_cols h) c")
  case False
  with sweep_one_call [OF d b c o1 s1] show ?thesis by simp
next
  case True
  let ?r = "unanswered_row db (i_cols h) c" and ?R = "records_allowed config"
  let ?c1 = "swept_call ?R now ?r c"
  from True obtain k where k: "the_cols h i = Some k" "unanswered k"
    using c find_call_id [of "all_calls h" i c]
    by (auto simp: is_due_def host_sel split: option.splits)
  have id: "v_id c = i" using c find_call_id [of "all_calls h" i c] by (auto simp: host_sel)
  let ?k1 = "swept_cols ?R now ?r k"
  have one: "the_call h1 i = Some ?c1" "the_cols h1 i = Some ?k1"
    using sweep_one_call [OF d b c o1 s1] k True by simp_all
  then have mid: "the_call (between h1) i = Some ?c1" "the_cols (between h1) i = Some ?k1"
    using between by (simp_all add: leaves_call_def)
  note two = sweep_one_call [OF d2 b2 mid(1) o2 s2]
  have missed: "ib_missed ?k1" and ans: "ib_answered_by ?k1 = None"
    using k True id by (auto simp: swept_cols_def unanswered_row_def the_cols_def unanswered_def Let_def)
  show ?thesis
  proof (cases "leaves_a_message ?R ?r \<and> \<not> ur_missed ?r")
    case False
    then have ended: "v_status ?c1 = ''completed''" "v_ended_at ?c1 \<noteq> None"
      by (auto simp: swept_call_def complete_row_def coalesce_def Let_def split: option.splits)
    then have "\<not> is_due now2 (i_cols (between h1)) ?c1" by (simp add: is_due_def row_live_def)
    then have "the_call h2 i = Some ?c1" "the_cols h2 i = Some ?k1"
      using two mid by simp_all
    with True one ended missed ans show ?thesis by simp
  next
    case message: True
    have due: "is_due now2 (i_cols (between h1)) ?c1"
      using mid(2) late message ans id
      by (simp add: is_due_def row_live_def swept_call_def swept_cols_def the_cols_def unanswered_def Let_def)
    let ?r2 = "unanswered_row db2 (i_cols (between h1)) ?c1"
    have "ur_missed ?r2" using mid(2) missed id by (simp add: unanswered_row_def the_cols_def Let_def)
    then have "the_call h2 i = Some (complete_row now2 ?c1)"
      "the_cols h2 i = Some (?k1\<lparr>ib_ring_deadline_at := None\<rparr>)"
      using two mid due
      by (simp_all add: swept_call_def [of _ _ ?r2] swept_cols_def [of _ _ ?r2])
    with True message missed ans show ?thesis
      by (auto simp: complete_row_def coalesce_def split: option.splits)
  qed
qed

text \<open>An element of a concatenation, with what precedes it in its part.\<close>

lemma concat_split:
  "concat xss = xs @ y # ys \<Longrightarrow> \<exists>part us vs before'. part \<in> set xss \<and> part = us @ y # vs \<and> xs = before' @ us"
proof (induction xss arbitrary: xs)
  case Nil
  then show ?case by simp
next
  case (Cons p ps)
  from Cons.prems obtain us where "p = xs @ us \<and> us @ concat ps = y # ys \<or> p @ us = xs \<and> concat ps = us @ y # ys"
    by (auto simp: append_eq_append_conv2)
  then consider (inside) us where "p = xs @ y # us" | (later) zs where "xs = p @ zs" "concat ps = zs @ y # ys"
    by (cases us) (metis append.right_neutral append.left_neutral, metis append_Cons list.inject)
  then show ?case
  proof cases
    case inside
    then show ?thesis by (intro exI [of _ p] exI [of _ xs] exI [of _ us] exI [of _ "[]"]) simp
  next
    case later
    from Cons.IH [OF later(2)] obtain part us vs before' where
      "part \<in> set ps" "part = us @ y # vs" "zs = before' @ us" by blast
    with later(1) show ?thesis
      by (intro exI [of _ part] exI [of _ us] exI [of _ vs] exI [of _ "p @ before'"]) simp
  qed
qed

lemma row_commands_record:
  assumes "row_commands prompt records r = us @ C_record leg # vs"
  shows "\<exists>before'. us = before' @ [C_speak leg (prompt (ur_target_language r)) (ur_target_language r)]
     \<and> leg \<in> set (ur_legs r) \<and> leaves_a_message records r \<and> \<not> ur_missed r"
proof -
  let ?f = "\<lambda>leg. if ur_missed r then [C_stop_recording leg, C_hangup leg]
       else if leaves_a_message records r
            then [C_speak leg (prompt (ur_target_language r)) (ur_target_language r), C_record leg]
            else [C_hangup leg]"
  from concat_split [OF assms [unfolded row_commands_def]] obtain part us' vs' b where
    part: "part \<in> set (map ?f (ur_legs r))" "part = us' @ C_record leg # vs'" and us: "us = b @ us'" by blast
  then obtain l where "l \<in> set (ur_legs r)" "?f l = part" by (simp only: set_map image_iff) metis
  then have l: "l \<in> set (ur_legs r)" "?f l = us' @ C_record leg # vs'" "us = b @ us'" using part us by simp_all
  from l(2) have "\<not> ur_missed r" "leaves_a_message records r" "l = leg"
    "us' = [C_speak leg (prompt (ur_target_language r)) (ur_target_language r)]"
    by (auto simp: Cons_eq_append_conv append_eq_Cons_conv split: if_splits)
  with l(1,3) show ?thesis by auto
qed

text \<open>
  C14: A message is taken only from a caller who has just been told, and only where everybody
  agreed: whenever a sweep starts a recording, the command before it speaks the voicemail
  sentence on the same leg in the language the caller was answered in, the call is one of
  those that are due and not missed yet, its number's routing says voicemail, and both the
  organisation and the deployment allow recording. No credit moves.
\<close>

theorem message_told_and_permitted:
  assumes "sweep_unanswered lower copy config db now batch (\<lambda>_ h. h) h = (n, h')"
  shows "\<exists>new. i_carrier h' = i_carrier h @ new \<and> the_holds h' = the_holds h
     \<and> (\<forall>xs leg ys. new = xs @ C_record leg # ys \<longrightarrow>
          (\<exists>zs c b number row. xs = zs @ [C_speak leg (fst (voicemail_prompt lower copy (v_target_language c)))
                                         (v_target_language c)]
             \<and> c \<in> set (all_calls h) \<and> is_due now (i_cols h) c \<and> leg \<in> set (v_legs c)
             \<and> the_cols h (v_id c) = Some b \<and> \<not> ib_missed b \<and> ib_number_id b = Some number
             \<and> idb_routing db number = Some row \<and> rr_no_answer_action row = ''voicemail''
             \<and> idb_recording db (v_org_id c) = Some True \<and> records_allowed config))"
proof -
  let ?p = "\<lambda>l. fst (voicemail_prompt lower copy l)" and ?R = "records_allowed config"
  let ?rs = "due_rows db now batch h"
  have h': "h' = sweep_rows ?p ?R now (\<lambda>_ h. h) 0 ?rs h"
    using assms by (auto simp: sweep_unanswered_def Let_def records_allowed_def)
  have "\<exists>zs c b number row. xs = zs @ [C_speak leg (?p (v_target_language c)) (v_target_language c)]
             \<and> c \<in> set (all_calls h) \<and> is_due now (i_cols h) c \<and> leg \<in> set (v_legs c)
             \<and> the_cols h (v_id c) = Some b \<and> \<not> ib_missed b \<and> ib_number_id b = Some number
             \<and> idb_routing db number = Some row \<and> rr_no_answer_action row = ''voicemail''
             \<and> idb_recording db (v_org_id c) = Some True \<and> ?R"
    if e: "concat (map (row_commands ?p ?R) ?rs) = xs @ C_record leg # ys" for xs leg ys
  proof -
    from concat_split [OF e] obtain r us vs b0 where
      r: "r \<in> set ?rs" "row_commands ?p ?R r = us @ C_record leg # vs" "xs = b0 @ us" by auto
    from row_commands_record [OF r(2)] obtain b1 where
      u: "us = b1 @ [C_speak leg (?p (ur_target_language r)) (ur_target_language r)]"
        "leg \<in> set (ur_legs r)" "leaves_a_message ?R r" "\<not> ur_missed r" by blast
    from r(1) obtain c where c: "c \<in> set (all_calls h)" "is_due now (i_cols h) c" "r = unanswered_row db (i_cols h) c"
      by (auto simp: due_rows_def all_calls_def dest!: in_set_takeD)
    have lang: "ur_target_language r = v_target_language c" by (simp add: c(3) unanswered_row_def Let_def)
    show ?thesis
      using c u(2-4)
      by (intro exI [of _ "b0 @ b1"] exI [of _ c])
        (auto simp: r(3) u(1) lang unanswered_row_def leaves_a_message_def the_cols_def unwrap_or_def Let_def
          bind_eq_Some_conv split: option.splits)
  qed
  then show ?thesis
    by (intro exI [of _ "concat (map (row_commands ?p ?R) ?rs)"])
      (simp add: h' sweep_rows_rest)
qed

section \<open>What admission does\<close>

lemma admit_Inr:
  assumes "admit F db Z config now ids engine_id leg from_raw to_raw h = (Inr call, h')"
  obtains cfg src dest number where "config = Some cfg" and "ic_inbound_enabled cfg"
    and "e164_parse from_raw = Inr src" and "e164_parse to_raw = Inr dest" and "number_for db dest = Inr number"
    and "org_subscription_active (hold_pool (the_holds h)) (in_org_id number) now"
    and "admit_call F db Z cfg now ids engine_id leg src number h = (Inr call, h')"
proof -
  obtain cfg where cfg: "config = Some cfg" "ic_inbound_enabled cfg"
    using assms by (auto simp: admit_def split: option.splits if_splits)
  obtain src dest where n: "e164_parse from_raw = Inr src" "e164_parse to_raw = Inr dest"
    using assms cfg by (auto simp: admit_def split: sum.splits)
  have "\<not> df_number F" using assms cfg n by (auto simp: admit_def)
  moreover from this obtain number where "number_for db dest = Inr number"
    using assms cfg n by (auto simp: admit_def split: sum.splits)
  ultimately show thesis
    using assms cfg n that by (auto simp: admit_def host_sel split: if_splits)
qed

text \<open>What creating a peer does to the rooms when it fails.\<close>

lemma create_phone_peer_full:
  assumes "find_peer m room (PHONE_PEER_ID_PREFIX @ uuid) = None"
    and "create_phone_peer m room engine lang uuid conn tx session = (Inl u, m1)"
  shows "peers_of m1 r = peers_of m r"
proof -
  let ?i = "PHONE_PEER_ID_PREFIX @ uuid"
  define p where "p = \<lparr>p_id = ?i, p_conn = conn, p_name = PHONE_PEER_NAME, p_lang = lang,
    p_user_id = None, p_engine = engine, p_avatar_url = None, p_voice_id = None, p_tx = tx, p_speaking = False\<rparr>"
  have pid: "p_id p = ?i" by (simp add: p_def)
  obtain out mm where j: "join (m\<lparr>chans := (chans m)(tx := channel OUT_CHANNEL_CAP)\<rparr>) room p Private session
      = (out, mm)" by (rule prod.exhaust)
  have "mm = m1 \<and> isl out"
    using assms(2) unfolding create_phone_peer_def Let_def p_def [symmetric] j by (cases out) simp_all
  moreover have keep: "filter (\<lambda>q. p_id q \<noteq> ?i) (peers_of m room) = peers_of m room"
    using assms(1) by (auto simp: find_peer_def find_None_iff filter_id_conv)
  ultimately have "\<exists>R. rooms m1 = AList.update room R (rooms m) \<and> rm_peers R = peers_of m room"
    using j unfolding join_def
    by (cases "map_of (rooms m) room") (auto simp: Let_def peers_of_def pid new_room_def split: if_splits)
  then obtain R where "rooms m1 = AList.update room R (rooms m)" "rm_peers R = peers_of m room" by blast
  then show ?thesis by (auto simp: peers_of_def update_conv' split: option.splits)
qed

text \<open>
  A caller who is turned away leaves nothing behind: whatever the refusal, a failed query
  and a failed insert included, no call, no column, no session, no parked leg, no hold, no
  command and no notification is written, and every room has the peers it had.
\<close>

theorem refused_call_leaves_nothing:
  assumes "admit F db Z config now ids engine_id leg from_raw to_raw h = (Inl refusal, h')"
    and "rooms_ok (h_rooms (i_host h))"
    and "find_peer (h_rooms (i_host h)) (''ph-'' @ ai_room ids) (PHONE_PEER_ID_PREFIX @ ai_peer ids) = None"
  shows "\<exists>m. h' = h\<lparr>i_host := (i_host h)\<lparr>h_rooms := m\<rparr>\<rparr>
     \<and> (\<forall>r. peers_of m r = peers_of (h_rooms (i_host h)) r)"
proof -
  let ?m0 = "h_rooms (i_host h)"
  have same: "h = h\<lparr>i_host := (i_host h)\<lparr>h_rooms := ?m0\<rparr>\<rparr>" by simp
  have call: "\<exists>m. h' = h\<lparr>i_host := (i_host h)\<lparr>h_rooms := m\<rparr>\<rparr> \<and> (\<forall>r. peers_of m r = peers_of ?m0 r)"
    if a: "admit_call F db Z cfg now ids engine_id leg src number h = (Inl refusal, h')" for cfg src number
  proof -
    obtain contact name language where id: "(if df_contact F then (None, None, ''en'')
        else identify_caller db (in_org_id number) src (ring_stranger_language
          (resolve_ring db (in_number_id number) (in_org_id number) (ic_ring_seconds_default cfg))))
        = (contact, name, language)" by (rule prod_cases3)
    obtain out m where c: "create_phone_peer ?m0 (''ph-'' @ ai_room ids) engine_id language (ai_peer ids)
        (ai_conn ids) (ai_tx ids) (ai_session ids) = (out, m)" by (rule prod.exhaust)
    show ?thesis
    proof (cases out)
      case (Inl u)
      then have "h' = h\<lparr>i_host := (i_host h)\<lparr>h_rooms := m\<rparr>\<rparr>"
        using a id c by (simp add: admit_call_def Let_def on_host_def on_rooms_def)
      then show ?thesis using create_phone_peer_full [OF assms(3)] c Inl by blast
    next
      case (Inr peer)
      then have "h' = h\<lparr>i_host := (i_host h)\<lparr>h_rooms := guard_drop (guard_new peer) m\<rparr>\<rparr>"
        using a id c by (simp add: admit_call_def Let_def on_host_def on_rooms_def split: if_splits)
      then show ?thesis using abandoned_peer_leaves [OF assms(2,3)] c Inr by blast
    qed
  qed
  have "h' = h \<or> (\<exists>cfg src number. admit_call F db Z cfg now ids engine_id leg src number h = (Inl refusal, h'))"
    using assms(1) by (auto simp: admit_def split: option.splits if_splits sum.splits)
  then show ?thesis using call same by blast
qed

lemma insert_inbound_sel:
  "all_calls (insert_inbound ids number src lang eng leg now contact ring h) =
     all_calls h @ [inbound_row ids number src lang eng leg now]"
  "the_cols (insert_inbound ids number src lang eng leg now contact ring h) (ai_call ids) =
     Some \<lparr>ib_number_id = Some (in_number_id number), ib_contact_id = contact, ib_answered_by = None,
           ib_rang_user_ids = ring_user_ids ring,
           ib_ring_deadline_at = Some (ring_deadline now (ring_seconds ring)), ib_missed = False\<rparr>"
  "the_holds (insert_inbound ids number src lang eng leg now contact ring h) = the_holds h"
  "h_live (i_host (insert_inbound ids number src lang eng leg now contact ring h)) = h_live (i_host h)"
  "i_carrier (insert_inbound ids number src lang eng leg now contact ring h) = i_carrier h"
  "i_notified (insert_inbound ids number src lang eng leg now contact ring h) = i_notified h"
  by (simp_all add: insert_inbound_def on_host_def on_world_def host_sel update_conv')

lemma inbound_row_sel [simp]:
  "v_id (inbound_row ids number src lang eng leg now) = ai_call ids"
  "v_org_id (inbound_row ids number src lang eng leg now) = in_org_id number"
  "v_status (inbound_row ids number src lang eng leg now) = ''ringing''"
  "v_legs (inbound_row ids number src lang eng leg now) = [leg]"
  "v_quoted_price_per_min (inbound_row ids number src lang eng leg now) = None"
  "v_target_language (inbound_row ids number src lang eng leg now) = ustr lang"
  "v_recipient_e164 (inbound_row ids number src lang eng leg now) = e164_as_str src"
  by (simp_all add: inbound_row_def)

lemma peer_rooms:
  "create_phone_peer m room engine lang uuid conn tx session = (Inr peer, m1) \<Longrightarrow> pp_room peer = room"
  unfolding create_phone_peer_def Let_def
  by (auto split: prod.splits sum.splits)

text \<open>Who is to hear of a call: those its number's routing names, or else who answers for the organisation.\<close>

definition named_by_routing :: "InboundDb \<Rightarrow> nat \<Rightarrow> nat set" where
  "named_by_routing db number = {u. \<exists>row. idb_routing db number = Some row
     \<and> (rr_ring_mode row = ''users'' \<and> u \<in> set (rr_ring_user_ids row)
        \<or> rr_ring_mode row = ''team''
          \<and> (\<exists>team. rr_ring_team_id row = Some team \<and> (team, u) \<in> set (idb_team_members db)))}"

definition runs_the_organisation :: "InboundDb \<Rightarrow> nat \<Rightarrow> nat set" where
  "runs_the_organisation db org =
     {u. (org, u, ''owner'') \<in> set (idb_org_members db) \<or> (org, u, ''admin'') \<in> set (idb_org_members db)}"

lemma routed_users_named:
  "set (routed_users db (case idb_routing db number of Some r \<Rightarrow> r | None \<Rightarrow> default_routing s)) = named_by_routing db number"
proof (cases "idb_routing db number")
  case None
  then show ?thesis by (simp add: named_by_routing_def routed_users_def default_routing_def)
next
  case (Some row)
  have members: "set (map snd (filter (\<lambda>(t, _). t = team) xs)) = {u. (team, u) \<in> set xs}" for team :: nat and xs :: "(nat \<times> nat) list"
    by force
  consider (users) "rr_ring_mode row = ''users''" | (team) "rr_ring_mode row = ''team''"
    | (owners) "rr_ring_mode row \<noteq> ''users''" "rr_ring_mode row \<noteq> ''team''" by blast
  then show ?thesis
  proof cases
    case users
    with Some show ?thesis by (simp add: named_by_routing_def routed_users_def)
  next
    case team
    with Some members show ?thesis
      by (cases "rr_ring_team_id row") (simp_all add: named_by_routing_def routed_users_def del: set_map)
  next
    case owners
    with Some show ?thesis by (simp add: named_by_routing_def routed_users_def)
  qed
qed

lemma responsible_users_set: "set (responsible_users db org) = runs_the_organisation db org"
  by (force simp: responsible_users_def runs_the_organisation_def)

lemma ring_set:
  "set (ring_user_ids (resolve_ring db number org s)) =
     (if named_by_routing db number = {} then runs_the_organisation db org else named_by_routing db number)"
proof -
  let ?row = "case idb_routing db number of Some r \<Rightarrow> r | None \<Rightarrow> default_routing s"
  have "routed_users db ?row = [] \<longleftrightarrow> named_by_routing db number = {}"
    using routed_users_named [where db = db and number = number and s = s] by (metis set_empty)
  then show ?thesis
    by (simp add: resolve_ring_def Let_def routed_users_named responsible_users_set)
qed

lemma on_live_sel:
  "all_calls (on_host (\<lambda>x. x\<lparr>h_live := L x\<rparr>) g) = all_calls g" "the_holds (on_host (\<lambda>x. x\<lparr>h_live := L x\<rparr>) g) = the_holds g"
  "the_cols (on_host (\<lambda>x. x\<lparr>h_live := L x\<rparr>) g) j = the_cols g j" "i_carrier (on_host (\<lambda>x. x\<lparr>h_live := L x\<rparr>) g) = i_carrier g"
  "i_notified (on_host (\<lambda>x. x\<lparr>h_live := L x\<rparr>) g) = i_notified g"
  by (simp_all add: on_host_def host_sel)

lemma ring_users_sel:
  "all_calls (ring_users us room caller num g) = all_calls g" "the_holds (ring_users us room caller num g) = the_holds g"
  "i_carrier (ring_users us room caller num g) = i_carrier g" "the_cols (ring_users us room caller num g) j = the_cols g j"
  "i_host (ring_users us room caller num g) = i_host g"
  "map fst (i_notified (ring_users us room caller num g)) = map fst (i_notified g) @ us"
  by (simp_all add: ring_users_def host_sel comp_def)

lemma carrier_call_notified [simp]:
  "i_notified (carrier_call c g) = i_notified g" "i_host (carrier_call c g) = i_host g"
  by (simp_all add: carrier_call_def)

text \<open>What an admitted call is, apart from who is told.\<close>

lemma admit_call_Inr:
  assumes "admit_call F db Z cfg now ids engine_id leg src number h = (Inr call, h')"
    and fresh: "the_call h (ai_call ids) = None"
    and ring: "ring = resolve_ring db (in_number_id number) (in_org_id number) (ic_ring_seconds_default cfg)"
    and lang: "lang = (if df_contact F then ''en'' else snd (snd (identify_caller db (in_org_id number) src
                        (ring_stranger_language ring))))"
    and closing: "shut \<longleftrightarrow> \<not> office_open F db Z now (in_number_id number) \<and> \<not> df_closed F"
  shows "call = ai_call ids \<and> the_holds h' = the_holds h \<and> i_carrier h' = i_carrier h @ [C_answer leg]
     \<and> all_calls h' = all_calls h @ [(if shut then \<lambda>c. c\<lparr>v_failure_reason := Some ''outside_business_hours''\<rparr>
          else (\<lambda>c. c)) (inbound_row ids number src lang engine_id leg now)]
     \<and> (\<exists>pl. map_of (h_live (i_host h')) call = Some pl \<and> pl_call_id pl = call \<and> pl_phone_language pl = lang
          \<and> pl_user_id pl = None \<and> pl_room pl = ''ph-'' @ ai_room ids)
     \<and> (\<exists>b. the_cols h' call = Some b \<and> ib_number_id b = Some (in_number_id number) \<and> unanswered b \<and> \<not> ib_missed b
          \<and> ib_ring_deadline_at b = Some (if shut then now else ring_deadline now (ring_seconds ring))
          \<and> ib_rang_user_ids b = (if shut then [] else ring_user_ids ring))
     \<and> map fst (i_notified h') = map fst (i_notified h)
         @ (if office_open F db Z now (in_number_id number) then ring_user_ids ring else [])"
proof -
  obtain contact name language where id: "(if df_contact F then (None, None, ''en'')
      else identify_caller db (in_org_id number) src (ring_stranger_language ring)) = (contact, name, language)"
    by (rule prod_cases3)
  then have l: "language = lang" by (auto simp: lang)
  obtain out m where c: "create_phone_peer (h_rooms (i_host h)) (''ph-'' @ ai_room ids) engine_id language (ai_peer ids)
      (ai_conn ids) (ai_tx ids) (ai_session ids) = (out, m)" by (rule prod.exhaust)
  from assms(1) id c ring obtain peer where peer: "out = Inr peer"
    by (cases out) (auto simp: admit_call_def Let_def)
  have room: "pp_room peer = ''ph-'' @ ai_room ids" using c peer by (auto dest: peer_rooms)
  define h1 where "h1 = insert_inbound ids number src language engine_id leg now contact ring (on_host (on_rooms (\<lambda>_. m)) h)"
  define h3 where "h3 = carrier_call (C_answer leg) (on_host (\<lambda>x. x\<lparr>h_live := park_phone_peer peer (ai_call ids)
      (in_org_id number) None engine_id language (h_live x)\<rparr>) h1)"
  let ?open = "office_open F db Z now (in_number_id number)"
  define H where "H = (if ?open
      then ring_users (ring_user_ids ring) (''ph-'' @ ai_room ids) (unwrap_or name (unwrap_or (e164_masked src) []))
             (in_e164 number) h3
      else if df_closed F then h3 else outside_hours (ai_call ids) now h3)"
  have "admit_call F db Z cfg now ids engine_id leg src number h =
      (if df_insert F then (Inl UnknownNumber, on_host (on_rooms (\<lambda>_. guard_drop (guard_new peer) m)) h)
       else (Inr (ai_call ids), H))"
    by (simp only: admit_call_def Let_def ring [symmetric] id prod.case c peer sum.case h1_def h3_def H_def)
  then have "call = ai_call ids" "h' = H" using assms(1) by (auto split: if_splits)
  note h' = this [unfolded H_def]
  have base: "all_calls (on_host (on_rooms (\<lambda>_. m)) h) = all_calls h" "the_holds (on_host (on_rooms (\<lambda>_. m)) h) = the_holds h"
    "i_carrier (on_host (on_rooms (\<lambda>_. m)) h) = i_carrier h" "i_notified (on_host (on_rooms (\<lambda>_. m)) h) = i_notified h"
    by (simp_all add: on_host_def on_rooms_def host_sel)
  have f3: "all_calls h3 = all_calls h @ [inbound_row ids number src lang engine_id leg now]"
    "the_holds h3 = the_holds h" "i_carrier h3 = i_carrier h @ [C_answer leg]" "map fst (i_notified h3) = map fst (i_notified h)"
    "the_cols h3 (ai_call ids) = Some \<lparr>ib_number_id = Some (in_number_id number), ib_contact_id = contact,
       ib_answered_by = None, ib_rang_user_ids = ring_user_ids ring,
       ib_ring_deadline_at = Some (ring_deadline now (ring_seconds ring)), ib_missed = False\<rparr>"
    by (simp_all add: h3_def h1_def on_live_sel insert_inbound_sel base l)
  have live3: "map_of (h_live (i_host h3)) (ai_call ids) = Some \<lparr>pl_call_id = ai_call ids, pl_session_id = pp_session_id peer,
      pl_org_id = in_org_id number, pl_user_id = None, pl_room = pp_room peer, pl_peer_id = pp_peer_id peer,
      pl_conn = pp_conn peer, pl_engine_id = engine_id, pl_phone_language = lang, pl_from_room = pp_from_room peer\<rparr>"
    by (simp add: h3_def on_host_def park_phone_peer_def park_def l update_conv')
  have up: "update_call (ai_call ids) g (all_calls h @ [inbound_row ids number src lang engine_id leg now]) =
      all_calls h @ [g (inbound_row ids number src lang engine_id leg now)]" for g
  proof -
    have "update_call (ai_call ids) g (all_calls h) = all_calls h"
      using fresh by (intro update_call_ident) (auto simp: host_sel find_call_def find_None_iff)
    then show ?thesis by (simp add: update_call_def)
  qed
  have out: "all_calls (outside_hours call now h3) = all_calls h @ [(inbound_row ids number src lang engine_id leg now)
        \<lparr>v_failure_reason := Some ''outside_business_hours''\<rparr>]"
    "the_holds (outside_hours call now h3) = the_holds h3" "i_carrier (outside_hours call now h3) = i_carrier h3"
    "the_cols (outside_hours call now h3) call = map_option
       (\<lambda>b. b\<lparr>ib_ring_deadline_at := Some now, ib_rang_user_ids := []\<rparr>) (the_cols h3 call)"
    "i_notified (outside_hours call now h3) = i_notified h3" "h_live (i_host (outside_hours call now h3)) = h_live (i_host h3)"
    by (simp_all add: outside_hours_def f3 up h'(1))
      (simp_all add: change_cols_def change_call_def on_host_def on_world_def)
  show ?thesis
    using closing by (auto simp: h' f3 live3 out [unfolded h'(1)] ring_users_sel room unanswered_def)
qed

text \<open>
  C30: A call is admitted for a reason, and those responsible for its number hear of it. If a call is admitted under a fresh
  identifier, its number is one of ours, in service and taking calls, of an organisation with a
  subscription; the call then rings on one leg, which is answered, with its telephone parked under the
  call in the language the row bears, and it has a ring deadline of at most two minutes. In office
  hours the users the number's routing names, singly or as a team, are told, and when it names nobody
  the organisation's owners and admins; nobody else is. Outside them nobody is told, and the deadline is
  already over unless the write that brings it forward failed.
\<close>

theorem admitted_call_rings:
  assumes "admit F db Z config now ids engine_id leg from_raw to_raw h = (Inr call, h')"
    and "the_call h (ai_call ids) = None"
  shows "\<exists>dest n c lang b d pl told. e164_parse to_raw = Inr dest \<and> n \<in> set (idb_numbers db)
     \<and> nr_e164 n = e164_as_str dest \<and> nr_inbound_enabled n \<and> nr_status n = ''active''
     \<and> org_subscription_active (hold_pool (the_holds h)) (nr_org_id n) now
     \<and> all_calls h' = all_calls h @ [c] \<and> v_id c = call \<and> v_status c = ''ringing'' \<and> v_legs c = [leg]
     \<and> v_org_id c = nr_org_id n \<and> v_target_language c = ustr lang \<and> i_carrier h' = i_carrier h @ [C_answer leg]
     \<and> map_of (h_live (i_host h')) call = Some pl \<and> pl_call_id pl = call \<and> pl_phone_language pl = lang
     \<and> the_cols h' call = Some b \<and> unanswered b \<and> \<not> ib_missed b
     \<and> ib_ring_deadline_at b = Some d \<and> now \<le> d \<and> d \<le> now + 120 * 1000000
     \<and> map fst (i_notified h') = map fst (i_notified h) @ told
     \<and> (if office_open F db Z now (nr_id n)
        then ib_rang_user_ids b = told
          \<and> set told = (if named_by_routing db (nr_id n) = {} then runs_the_organisation db (nr_org_id n)
                        else named_by_routing db (nr_id n))
        else told = [] \<and> (df_closed F \<or> d = now \<and> ib_rang_user_ids b = []))"
  using assms(1)
proof (cases rule: admit_Inr)
  case (1 cfg src dest number)
  define ring where "ring = resolve_ring db (in_number_id number) (in_org_id number) (ic_ring_seconds_default cfg)"
  define lang where "lang = (if df_contact F then ''en'' else snd (snd (identify_caller db (in_org_id number) src
                        (ring_stranger_language ring))))"
  define shut where "shut \<longleftrightarrow> \<not> office_open F db Z now (in_number_id number) \<and> \<not> df_closed F"
  let ?c = "(if shut then \<lambda>c. c\<lparr>v_failure_reason := Some ''outside_business_hours''\<rparr>
          else (\<lambda>c. c)) (inbound_row ids number src lang engine_id leg now)"
  note a = admit_call_Inr [OF 1(7) assms(2) ring_def lang_def shut_def]
  from a have call: "call = ai_call ids" by simp
  from 1(5) obtain n where n: "n \<in> set (idb_numbers db)" "nr_e164 n = e164_as_str dest" "nr_inbound_enabled n"
    "nr_status n = ''active''" "nr_id n = in_number_id number" "nr_org_id n = in_org_id number"
    by (auto simp: number_for_def split: option.splits if_splits dest!: find_SomeD)
  from a obtain pl b where pl: "map_of (h_live (i_host h')) call = Some pl" "pl_call_id pl = call" "pl_phone_language pl = lang"
    and b: "the_cols h' call = Some b" "unanswered b" "\<not> ib_missed b"
      "ib_ring_deadline_at b = Some (if shut then now else ring_deadline now (ring_seconds ring))"
      "ib_rang_user_ids b = (if shut then [] else ring_user_ids ring)" by blast
  define d where "d = (if shut then now else ring_deadline now (ring_seconds ring))"
  have d: "now \<le> d" "d \<le> now + 120 * 1000000" "ib_ring_deadline_at b = Some d"
    using b(4) by (auto simp: d_def ring_deadline_def clamp_def)
  define c where "c = ?c"
  have c: "v_id c = call" "v_status c = ''ringing''" "v_legs c = [leg]" "v_org_id c = nr_org_id n"
    "v_target_language c = ustr lang"
    by (simp_all add: call c_def n(5,6))
  have w: "all_calls h' = all_calls h @ [c]" "i_carrier h' = i_carrier h @ [C_answer leg]"
    unfolding c_def using a by blast+
  define told where "told = (if office_open F db Z now (nr_id n) then ring_user_ids ring else [])"
  have heard: "map fst (i_notified h') = map fst (i_notified h) @ told" using a by (simp add: told_def n(5))
  have who: "if office_open F db Z now (nr_id n)
        then ib_rang_user_ids b = told
          \<and> set told = (if named_by_routing db (nr_id n) = {} then runs_the_organisation db (nr_org_id n)
                        else named_by_routing db (nr_id n))
        else told = [] \<and> (df_closed F \<or> d = now \<and> ib_rang_user_ids b = [])"
    using b(5) by (simp add: told_def shut_def d_def ring_def ring_set n(5,6))
  have subscribed: "org_subscription_active (hold_pool (the_holds h)) (nr_org_id n) now" using 1(6) n(6) by simp
  show ?thesis
    by (intro exI [of _ dest] exI [of _ n] exI [of _ c] exI [of _ lang] exI [of _ b]
        exI [of _ d] exI [of _ pl] exI [of _ told] conjI heard who w c pl b(1-3) d n(1-4) 1(4) subscribed)
qed

section \<open>What inbound calls cost\<close>

lemma unreserved_settle:
  assumes "find (\<lambda>r. r_call_id r = call) (reservations (w_holds w)) = None"
    and "settle_call D now w call session st price d = Inr w'"
  shows "w_holds w' = w_holds w"
  using assms
  by (auto simp: settle_call_def Let_def settle_tx_def release_tx_def settle_with_def release_with_def close_with_def
      split: if_splits)

lemma unreserved_event:
  assumes none: "find (\<lambda>r. r_call_id r = v_id c) (reservations (w_holds w)) = None"
    and res: "resolve_call parse_id (w_calls w) ev = (Some c, calls)"
    and app: "apply_provider_event D parse_id t ev w = Inr (out, w')"
  shows "w_holds w' = w_holds w"
proof (cases "seen_event ev (w_events w)")
  case True
  with res app show ?thesis by (auto simp: apply_provider_event_def)
next
  case False
  with res app have first: "first_delivery D t ev (w\<lparr>w_calls := calls\<rparr>) c = Inr (out, w')"
    by (simp add: apply_provider_event_def)
  show ?thesis
  proof (cases "lifecycle_after c ev")
    case None
    with first show ?thesis by (auto simp: first_delivery_def)
  next
    case (Some st)
    with first obtain w2 where
      m: "move_call D t (with_calls (update_call (v_id c) (side_effects ev)) (w\<lparr>w_calls := calls\<rparr>)) c ev st = Inr w2"
      and w': "w_holds w' = w_holds w2"
      by (auto simp: first_delivery_def split: sum.splits)
    have "w_holds w2 = w_holds w"
      using m none by (auto simp: move_call_def Let_def split: if_splits dest!: unreserved_settle [rotated])
    with w' show ?thesis by simp
  qed
qed

text \<open>
  An inbound call costs nothing: admission takes no hold and quotes no price, so an event
  for it, a hang-up after an hour included, moves no credit as long as nothing reserves for it.
\<close>

theorem inbound_call_is_free:
  assumes "admit F db Z config now ids engine_id leg from_raw to_raw h = (Inr call, h')"
    and "the_call h (ai_call ids) = None"
    and "find (\<lambda>r. r_call_id r = call) (reservations (w_holds w)) = None"
    and "resolve_call parse_id (w_calls w) ev = (Some c, calls)" and "v_id c = call"
    and "apply_provider_event D parse_id t ev w = Inr (out, w')"
  shows "the_holds h' = the_holds h \<and> v_quoted_price_per_min (last (all_calls h')) = None
     \<and> v_id (last (all_calls h')) = call \<and> w_holds w' = w_holds w"
  using assms(1)
proof (cases rule: admit_Inr)
  case (1 cfg src dest number)
  note a = admit_call_Inr [OF 1(7) assms(2) refl refl refl]
  from unreserved_event [of c w] assms(3-6) have "w_holds w' = w_holds w" by simp
  with a show ?thesis by simp
qed

section \<open>Where the sweep goes wrong\<close>

lemma answer_alt:
  "answer_inbound org i user h =
     (case (the_call h i, the_cols h i) of
        (Some c, Some b) \<Rightarrow>
          (case map_of (i_sessions h) (v_session_id c) of
             Some (room, _) \<Rightarrow>
               if v_org_id c = org \<and> unanswered b
               then (Inr room,
                     change_cols i (\<lambda>b. b\<lparr>ib_answered_by := Some user, ib_ring_deadline_at := None\<rparr>)
                       (change_call i (\<lambda>c. c\<lparr>v_user_id := Some user\<rparr>) h))
               else (Inl (), h)
           | None \<Rightarrow> (Inl (), h))
      | _ \<Rightarrow> (Inl (), h))"
  by (simp add: answer_inbound_def host_sel)

lemma answer_effect:
  assumes "answer_inbound org i user h = (Inr room, h1)"
  shows "\<exists>c b. the_call h i = Some c \<and> the_cols h i = Some b \<and> v_org_id c = org \<and> unanswered b
     \<and> the_call h1 i = Some (c\<lparr>v_user_id := Some user\<rparr>)
     \<and> the_cols h1 i = Some (b\<lparr>ib_answered_by := Some user, ib_ring_deadline_at := None\<rparr>)
     \<and> i_carrier h1 = i_carrier h"
  using assms
  by (auto simp: answer_alt change_call_sel split: option.splits if_splits)

text \<open>The first answer wins.\<close>

lemma answered_once:
  assumes "answer_inbound org i user h = (Inr room, h1)"
  shows "answer_inbound org' i user' h1 = (Inl (), h1)"
proof -
  from answer_effect [OF assms] obtain c b where
    "the_call h1 i = Some c" "the_cols h1 i = Some b" "\<not> unanswered b" by (auto simp: unanswered_def)
  then show ?thesis by (simp add: answer_alt split: option.split)
qed

text \<open>
  A call that somebody takes while the sweep is at work is cut off: the sweep reads its
  rows once and never looks again, so a call that is answered after that read, with the answer
  accepted, is still marked missed, completed and hung up.
\<close>

theorem sweep_cuts_off_answer:
  assumes due: "due_rows db now batch h = [unanswered_row db (i_cols h) c]" and i: "v_id c = i"
    and row: "\<not> ur_missed (unanswered_row db (i_cols h) c)"
      "\<not> leaves_a_message (records_allowed config) (unanswered_row db (i_cols h) c)"
    and answer: "answer_inbound org i user h = (Inr room, h1)"
    and sweep: "sweep_unanswered lower copy config db now batch (\<lambda>_ g. snd (answer_inbound org i user g)) h = (n, h2)"
  shows "\<exists>b2 c2. the_cols h2 i = Some b2 \<and> ib_answered_by b2 = Some user \<and> ib_missed b2
     \<and> the_call h2 i = Some c2 \<and> v_user_id c2 = Some user \<and> v_status c2 = ''completed''
     \<and> i_carrier h2 = i_carrier h @ map C_hangup (v_legs c)"
proof -
  let ?r = "unanswered_row db (i_cols h) c" and ?R = "records_allowed config"
  let ?p = "\<lambda>l. fst (voicemail_prompt lower copy l)"
  have h2: "h2 = sweep_row ?p ?R now ?r h1"
    using sweep due answer by (auto simp: sweep_unanswered_def Let_def records_allowed_def)
  from answer_effect [OF answer] obtain c0 b0 where
    "the_call h1 i = Some (c0\<lparr>v_user_id := Some user\<rparr>)"
    "the_cols h1 i = Some (b0\<lparr>ib_answered_by := Some user, ib_ring_deadline_at := None\<rparr>)"
    "i_carrier h1 = i_carrier h" by blast
  then show ?thesis
    using row i by (simp add: h2 sweep_row_effect swept_call_def swept_cols_def Let_def complete_row_def row_commands_def)
qed

text \<open>
  A number nobody has configured does not take messages: the routing's default says
  voicemail, and the people rung are those of the default, but the sweep reads the missing row
  as no action and hangs up, even where the organisation and the deployment allow recording.
\<close>

theorem default_voicemail_hangs_up:
  assumes "idb_routing db number = None" and "the_cols h (v_id c) = Some b" and "ib_number_id b = Some number"
    and "\<not> ib_missed b" and "the_call h (v_id c) = Some c"
  shows "ring_no_answer_action (resolve_ring db number org s) = ''voicemail''
     \<and> (\<exists>c2. the_call (sweep_row prompt True now (unanswered_row db (i_cols h) c) h) (v_id c) = Some c2
          \<and> v_status c2 = ''completed'')
     \<and> i_carrier (sweep_row prompt True now (unanswered_row db (i_cols h) c) h) =
         i_carrier h @ map C_hangup (v_legs c)"
proof -
  let ?r = "unanswered_row db (i_cols h) c"
  have "\<not> ur_missed ?r" "\<not> leaves_a_message True ?r"
    using assms by (simp_all add: unanswered_row_def Let_def the_cols_def leaves_a_message_def)
  then show ?thesis
    using assms
    by (simp add: sweep_row_effect swept_call_def Let_def complete_row_def row_commands_def resolve_ring_def
        default_routing_def)
qed

lemma hours_unread [simp]:
  "routed_users (db\<lparr>idb_hours := hours\<rparr>) = routed_users db"
  "responsible_users (db\<lparr>idb_hours := hours\<rparr>) = responsible_users db"
  by (auto simp: routed_users_def responsible_users_def cong: option.case_cong)

text \<open>
  Two of the configured actions are never taken: a number that forwards is treated exactly
  as one that refuses, whatever number it forwards to, and what an organisation chose for calls
  outside its hours has no effect on what happens to them.
\<close>

theorem configured_actions_ignored:
  "sweep_row prompt records now (r\<lparr>ur_no_answer_action := Some ''forward''\<rparr>) h =
     sweep_row prompt records now (r\<lparr>ur_no_answer_action := Some ''refuse''\<rparr>) h
   \<and> due_rows (db\<lparr>idb_hours := hours\<rparr>) now batch h = due_rows db now batch h
   \<and> admit F (db\<lparr>idb_hours := \<lambda>n. map_option (\<lambda>r. r\<lparr>hr_closed_action := act n\<rparr>) (idb_hours db n)\<rparr>) Z config now ids
       engine_id leg from_raw to_raw h = admit F db Z config now ids engine_id leg from_raw to_raw h"
proof (intro conjI)
  show "sweep_row prompt records now (r\<lparr>ur_no_answer_action := Some ''forward''\<rparr>) h =
     sweep_row prompt records now (r\<lparr>ur_no_answer_action := Some ''refuse''\<rparr>) h"
    by (simp add: sweep_row_def close_voicemail_def miss_call_def leaves_a_message_def Let_def)
  show "due_rows (db\<lparr>idb_hours := hours\<rparr>) now batch h = due_rows db now batch h"
    by (simp add: due_rows_def unanswered_row_def [abs_def])
  let ?db = "db\<lparr>idb_hours := \<lambda>n. map_option (\<lambda>r. r\<lparr>hr_closed_action := act n\<rparr>) (idb_hours db n)\<rparr>"
  have o': "office_open F ?db Z now n = office_open F db Z now n" for n
    by (simp add: office_open_def split: option.split)
  have r: "resolve_ring ?db n org s = resolve_ring db n org s" "identify_caller ?db org src st = identify_caller db org src st"
    "number_for ?db dest = number_for db dest" for n org s src st dest
    by (simp_all add: resolve_ring_def identify_caller_def number_for_def cong: if_cong)
  show "admit F ?db Z config now ids engine_id leg from_raw to_raw h =
      admit F db Z config now ids engine_id leg from_raw to_raw h"
    unfolding admit_def admit_call_def o' r by (rule refl)
qed

text \<open>
  A call can be taken when it is over: whatever its status and whether it is missed or not,
  an unanswered call is given to whoever asks for it; and the message it may have been taking
  loses its deadline: no later sweep stops the recording or ends the call.
\<close>

theorem late_answer_accepted:
  assumes "answer_inbound org i user h = (Inr room, h1)"
    and "distinct (map v_id (all_calls h1))" and "length (all_calls h1) \<le> batch"
    and "sweep_unanswered lower copy config db now batch (\<lambda>_ h. h) h1 = (n, h2)"
  shows "fst (answer_inbound org i user (change_cols i (\<lambda>b. b\<lparr>ib_missed := m\<rparr>)
        (change_call i (\<lambda>c. c\<lparr>v_status := s\<rparr>) h))) = Inr room
     \<and> the_call h2 i = the_call h1 i \<and> the_cols h2 i = the_cols h1 i"
proof -
  from answer_effect [OF assms(1)] obtain c b where c: "the_call h i = Some c" "the_cols h i = Some b"
    "v_org_id c = org" "unanswered b" and after': "the_call h1 i = Some (c\<lparr>v_user_id := Some user\<rparr>)"
    "the_cols h1 i = Some (b\<lparr>ib_answered_by := Some user, ib_ring_deadline_at := None\<rparr>)" by blast
  have "fst (answer_inbound org i user (change_cols i (\<lambda>b. b\<lparr>ib_missed := m\<rparr>)
        (change_call i (\<lambda>c. c\<lparr>v_status := s\<rparr>) h))) = fst (answer_inbound org i user h)"
    using c unfolding answer_alt by (simp add: change_call_sel unanswered_def split: option.split)
  moreover have id: "v_id c = i" using c(1) find_call_id [of "all_calls h" i c] by (auto simp: host_sel)
  moreover have "\<not> is_due now (i_cols h1) (c\<lparr>v_user_id := Some user\<rparr>)"
    using after'(2) id by (simp add: is_due_def the_cols_def)
  ultimately show ?thesis
    using sweep_unanswered_effect(1,2) [OF assms(2-4), of i] after' assms(1) by simp
qed

section \<open>Runs\<close>

text \<open>One number, one owner, recording allowed; the routing is a parameter.\<close>

definition sample_inbound_db :: "RoutingRow option \<Rightarrow> InboundDb" where
  "sample_inbound_db routing =
     \<lparr>idb_numbers = [\<lparr>nr_id = 5, nr_org_id = 1, nr_e164 = ''+393201234567'', nr_inbound_enabled = True,
                      nr_status = ''active''\<rparr>],
      idb_routing = (\<lambda>n. if n = 5 then routing else None), idb_team_members = [],
      idb_org_members = [(1, 3, ''owner'')], idb_contacts = [], idb_hours = (\<lambda>_. None),
      idb_recording = (\<lambda>o'. if o' = 1 then Some True else None)\<rparr>"

definition quiet_host :: "(nat, nat) InboundHost" where
  "quiet_host = \<lparr>i_host = \<lparr>h_rooms = new_manager (\<lambda>_. channel 512), h_live = [],
       h_world = \<lparr>w_holds = sample_voip, w_calls = [], w_events = []\<rparr>, h_pool = True, h_carrier = True,
       h_hung_up = [], h_sessions = [], h_finalized = []\<rparr>,
     i_cols = [], i_sessions = [], i_carrier = [], i_notified = []\<rparr>"

definition no_faults :: DbFaults where
  "no_faults = \<lparr>df_number = False, df_subscription = False, df_hours = False, df_routing = False,
     df_contact = False, df_insert = False, df_closed = False\<rparr>"

definition sample_zones :: "unit zones" where
  "sample_zones = \<lparr>z_parse = (\<lambda>_. None), z_utc = (), z_local = minute_zone\<rparr>"

definition sample_config :: InboundConfig where
  "sample_config = \<lparr>ic_inbound_enabled = True, ic_ring_seconds_default = 25, ic_recording_enabled = True\<rparr>"

definition sample_ids :: AdmitIds where
  "sample_ids = \<lparr>ai_room = ''x'', ai_peer = ''y'', ai_conn = 0, ai_tx = 0, ai_session = 70, ai_call = 7\<rparr>"

definition sample_admit :: "DbFaults \<Rightarrow> RoutingRow option \<Rightarrow> (Refusal + nat) \<times> (nat, nat) InboundHost" where
  "sample_admit F routing = admit F (sample_inbound_db routing) sample_zones (Some sample_config) 0 sample_ids
     ''e'' ''leg'' sample_number sample_number quiet_host"

lemma empty_room_peer:
  "\<exists>peer m. create_phone_peer (new_manager C :: ('f, 'j) RoomManager) room eng lang uuid conn tx session = (Inr peer, m)"
  unfolding create_phone_peer_def Let_def join_def new_manager_def
  by (simp add: new_room_def MAX_PEERS_def)

lemma admit_call_fst:
  assumes "\<And>lang. \<exists>p m. create_phone_peer (h_rooms (i_host h)) (''ph-'' @ ai_room ids) engine_id lang (ai_peer ids)
      (ai_conn ids) (ai_tx ids) (ai_session ids) = (Inr p, m)"
  shows "fst (admit_call F db Z cfg now ids engine_id leg src number h) =
     (if df_insert F then Inl UnknownNumber else Inr (ai_call ids))"
proof -
  obtain contact name lang where id: "(if df_contact F then (None, None, ''en'')
      else identify_caller db (in_org_id number) src (ring_stranger_language
        (resolve_ring db (in_number_id number) (in_org_id number) (ic_ring_seconds_default cfg)))) = (contact, name, lang)"
    by (rule prod_cases3)
  obtain p m where "create_phone_peer (h_rooms (i_host h)) (''ph-'' @ ai_room ids) engine_id lang (ai_peer ids)
      (ai_conn ids) (ai_tx ids) (ai_session ids) = (Inr p, m)" using assms by blast
  then show ?thesis unfolding admit_call_def Let_def id prod.case by (cases "df_insert F") (simp_all only: prod.case sum.case fst_conv if_True if_False)
qed

lemma sample_admit_runs:
  "fst (sample_admit no_faults routing) = Inr 7"
  "fst (sample_admit (no_faults\<lparr>df_insert := True\<rparr>) routing) = Inl UnknownNumber"
proof -
  have sub: "org_subscription_active (hold_pool (w_holds (h_world (i_host quiet_host)))) 1 0"
    by (simp add: quiet_host_def sample_voip_def sample_db_def sample_org_def org_subscription_active_def
        subscription_active_row_def)
  have n: "number_for (sample_inbound_db routing) (E164 ''+393201234567'') =
      Inr \<lparr>in_number_id = 5, in_org_id = 1, in_e164 = ''+393201234567''\<rparr>"
    by (simp add: number_for_def sample_inbound_db_def)
  have peer: "\<exists>p m. create_phone_peer (h_rooms (i_host quiet_host)) room eng lang uuid conn tx session = (Inr p, m)"
    for room eng lang uuid conn tx session
    using empty_room_peer by (simp add: quiet_host_def)
  have "fst (sample_admit F routing) = (if df_insert F then Inl UnknownNumber else Inr (ai_call sample_ids))"
    if "\<not> df_number F" "\<not> df_subscription F" "\<not> df_routing F" for F
    unfolding sample_admit_def admit_def sample_number_parse prod.case option.case sum.case
    using that sub by (simp add: n sample_config_def admit_call_fst [OF peer])
  then show "fst (sample_admit no_faults routing) = Inr 7"
    "fst (sample_admit (no_faults\<lparr>df_insert := True\<rparr>) routing) = Inl UnknownNumber"
    by (simp_all add: no_faults_def sample_ids_def)
qed

lemma quiet_host_facts:
  "the_call quiet_host (ai_call sample_ids) = None" "rooms_ok (h_rooms (i_host quiet_host))"
  "find_peer (h_rooms (i_host quiet_host)) (''ph-'' @ ai_room sample_ids) (PHONE_PEER_ID_PREFIX @ ai_peer sample_ids) = None"
  "all_calls quiet_host = []" "i_carrier quiet_host = []" "i_notified quiet_host = []"
  "reservations (the_holds quiet_host) = []"
  by (simp_all add: quiet_host_def host_sel find_call_def new_manager_ok find_peer_def peers_of_def new_manager_def
      sample_voip_def rooms_ok_def)

theorem refused_call_leaves_nothing_witness:
  "\<exists>m. snd (sample_admit (no_faults\<lparr>df_insert := True\<rparr>) None) =
     quiet_host\<lparr>i_host := (i_host quiet_host)\<lparr>h_rooms := m\<rparr>\<rparr>"
proof -
  obtain h' where "sample_admit (no_faults\<lparr>df_insert := True\<rparr>) None = (Inl UnknownNumber, h')"
    using sample_admit_runs(2) by (metis prod.collapse)
  with refused_call_leaves_nothing [OF this [unfolded sample_admit_def] quiet_host_facts(2,3)] show ?thesis
    by (simp add: sample_admit_def) blast
qed

theorem admitted_call_rings_witness:
  "set (map fst (i_notified (snd (sample_admit no_faults None)))) = runs_the_organisation (sample_inbound_db None) 1"
proof -
  obtain h' where run: "sample_admit no_faults None = (Inr 7, h')"
    using sample_admit_runs(1) by (metis prod.collapse)
  have nobody: "named_by_routing (sample_inbound_db None) number = {}" for number
    by (simp add: named_by_routing_def sample_inbound_db_def)
  have opened: "office_open no_faults (sample_inbound_db None) sample_zones 0 number" for number
    by (simp add: office_open_def sample_inbound_db_def no_faults_def)
  have org: "nr_org_id n = 1" if "n \<in> set (idb_numbers (sample_inbound_db None))" for n
    using that by (simp add: sample_inbound_db_def)
  from admitted_call_rings [OF run [unfolded sample_admit_def] quiet_host_facts(1)] obtain n d told and b :: InboundCols where
    n: "n \<in> set (idb_numbers (sample_inbound_db None))"
    and heard: "map fst (i_notified h') = map fst (i_notified quiet_host) @ told"
    and told: "if office_open no_faults (sample_inbound_db None) sample_zones 0 (nr_id n)
        then ib_rang_user_ids b = told
          \<and> set told = (if named_by_routing (sample_inbound_db None) (nr_id n) = {}
                        then runs_the_organisation (sample_inbound_db None) (nr_org_id n)
                        else named_by_routing (sample_inbound_db None) (nr_id n))
        else told = [] \<and> (df_closed no_faults \<or> d = (0 :: int) \<and> ib_rang_user_ids b = [])"
    by (elim exE conjE) (rule that)
  show ?thesis using told heard by (simp add: run nobody opened org [OF n] quiet_host_def)
qed

text \<open>A call that has been answered by us and rings its deadline out at instant 25.\<close>

definition waiting_row :: VoipCall where
  "waiting_row = (sample_row ''answered'' (Some 0))\<lparr>v_quoted_price_per_min := None\<rparr>"

definition waiting_cols :: InboundCols where
  "waiting_cols = \<lparr>ib_number_id = Some 5, ib_contact_id = None, ib_answered_by = None, ib_rang_user_ids = [3],
     ib_ring_deadline_at = Some 25, ib_missed = False\<rparr>"

definition waiting_host :: "(nat, nat) InboundHost" where
  "waiting_host = quiet_host\<lparr>i_host := (i_host quiet_host)\<lparr>h_world :=
       \<lparr>w_holds = sample_voip, w_calls = [waiting_row], w_events = []\<rparr>\<rparr>,
     i_cols := [(7, waiting_cols)], i_sessions := [(70, ''ph-x'', 1)]\<rparr>"

definition voicemail_row :: RoutingRow where
  "voicemail_row = (default_routing 25)\<lparr>rr_ring_mode := ''owners''\<rparr>"

lemma waiting_row_sel [simp]:
  "v_id waiting_row = 7" "v_org_id waiting_row = 1" "v_session_id waiting_row = 70" "v_legs waiting_row = [''leg'']"
  "v_status waiting_row = ''answered''" "row_live waiting_row" "v_answered_at waiting_row = Some 0"
  "v_quoted_price_per_min waiting_row = None" "v_duration_seconds waiting_row = None"
  by (simp_all add: waiting_row_def sample_row_def row_live_def)

lemma waiting_facts [simp]:
  "the_call waiting_host i = (if i = 7 then Some waiting_row else None)"
  "the_cols waiting_host i = (if i = 7 then Some waiting_cols else None)"
  "all_calls waiting_host = [waiting_row]" "i_carrier waiting_host = []"
  "i_sessions waiting_host = [(70, ''ph-x'', 1)]" "i_cols waiting_host = [(7, waiting_cols)]"
  "w_calls (h_world (i_host waiting_host)) = [waiting_row]"
  by (auto simp: waiting_host_def quiet_host_def host_sel find_call_def)

lemma waiting_due: "is_due 25 [(7, waiting_cols)] waiting_row"
  by (simp add: is_due_def waiting_cols_def unanswered_def)

lemma waiting_message:
  "leaves_a_message (records_allowed (Some sample_config))
     (unanswered_row (sample_inbound_db (Some voicemail_row)) [(7, waiting_cols)] waiting_row)"
  "\<not> ur_missed (unanswered_row (sample_inbound_db routing) [(7, waiting_cols)] waiting_row)"
  "\<not> leaves_a_message records (unanswered_row (sample_inbound_db None) [(7, waiting_cols)] waiting_row)"
  by (simp_all add: leaves_a_message_def records_allowed_def unanswered_row_def waiting_cols_def sample_inbound_db_def
      sample_config_def voicemail_row_def default_routing_def unwrap_or_def)

lemma waiting_rows:
  "due_rows db 25 (Suc k) waiting_host = [unanswered_row db (i_cols waiting_host) waiting_row]"
  by (simp add: due_rows_def waiting_due)

theorem unanswered_calls_end_witness:
  "\<exists>n1 h1 n2 h2 c2. sweep_unanswered sample_lower sample_copy (Some sample_config) (sample_inbound_db (Some voicemail_row))
        25 1 (\<lambda>_ h. h) waiting_host = (n1, h1)
     \<and> sweep_unanswered sample_lower sample_copy (Some sample_config) (sample_inbound_db (Some voicemail_row))
        120000025 1 (\<lambda>_ h. h) h1 = (n2, h2)
     \<and> the_call h2 7 = Some c2 \<and> v_status c2 = ''completed''"
proof -
  let ?sweep = "sweep_unanswered sample_lower sample_copy (Some sample_config) (sample_inbound_db (Some voicemail_row))"
  obtain n1 h1 where s1: "?sweep 25 1 (\<lambda>_ h. h) waiting_host = (n1, h1)" by fastforce
  obtain n2 h2 where s2: "?sweep 120000025 1 (\<lambda>_ h. h) h1 = (n2, h2)" by fastforce
  have d: "distinct (map v_id (all_calls waiting_host))" "length (all_calls waiting_host) \<le> 1"
    "25 + VOICEMAIL_SECONDS * 1000000 \<le> (120000025 :: int)" "the_call waiting_host 7 = Some waiting_row"
    by (simp_all add: VOICEMAIL_SECONDS_def)
  have ids: "map v_id (all_calls h1) = map v_id (all_calls waiting_host)" by (rule sweep_unanswered_effect(3) [OF d(1,2) s1])
  then have h1: "distinct (map v_id (all_calls h1))" "length (all_calls h1) \<le> 1"
    using map_eq_imp_length_eq [OF ids] by simp_all
  from unanswered_calls_end [OF d(1) within_batch_whole [OF d(1,2)] leaves_call_ident s1 leaves_call_ident h1(1)
      within_batch_whole [OF h1] leaves_call_ident s2 d(3,4)] waiting_due s1 s2
  show ?thesis by auto
qed

theorem message_told_and_permitted_witness:
  "\<exists>n h' text lang. sweep_unanswered sample_lower sample_copy (Some sample_config) (sample_inbound_db (Some voicemail_row))
        25 1 (\<lambda>_ h. h) waiting_host = (n, h') \<and> i_carrier h' = [C_speak ''leg'' text lang, C_record ''leg'']
     \<and> records_allowed (Some sample_config)"
proof -
  let ?db = "sample_inbound_db (Some voicemail_row)"
  obtain n h' where s: "sweep_unanswered sample_lower sample_copy (Some sample_config) ?db 25 1 (\<lambda>_ h. h) waiting_host = (n, h')"
    by fastforce
  let ?speak = "C_speak ''leg'' (fst (voicemail_prompt sample_lower sample_copy (v_target_language waiting_row)))
     (v_target_language waiting_row)"
  have c: "i_carrier h' = [?speak] @ C_record ''leg'' # []"
    using sweep_unanswered_effect(5) [OF _ _ s]
    by (simp add: waiting_rows waiting_message row_commands_def) (simp add: unanswered_row_def Let_def)
  from message_told_and_permitted [OF s] obtain new where
    "i_carrier h' = i_carrier waiting_host @ new"
    and new: "new = [?speak] @ C_record ''leg'' # [] \<Longrightarrow> records_allowed (Some sample_config)"
    by blast
  with c s show ?thesis by simp
qed

theorem inbound_call_is_free_witness:
  "\<exists>out w'. apply_provider_event exact_decimal (\<lambda>_. None) 1 (sample_event ''e1'' 3600000000 (KHangup Busy))
       (h_world (i_host waiting_host)) = Inr (out, w') \<and> w_holds w' = sample_voip"
proof -
  let ?w = "h_world (i_host waiting_host)" and ?ev = "sample_event ''e1'' 3600000000 (KHangup Busy)"
  obtain h' where run: "sample_admit no_faults None = (Inr 7, h')"
    using sample_admit_runs(1) by (metis prod.collapse)
  have r: "find (\<lambda>r. r_call_id r = 7) (reservations (w_holds ?w)) = None" "w_events ?w = []" "w_holds ?w = sample_voip"
    by (simp_all add: waiting_host_def sample_voip_def)
  have res: "resolve_call (\<lambda>_. None) (w_calls ?w) ?ev = (Some waiting_row, w_calls ?w)"
    by (simp add: resolve_call_def sample_event_def fetch_call_by_leg_def)
  have st: "status_of waiting_row = Answered" by (simp add: status_of_def callstate_parse_def)
  have "\<exists>out w'. apply_provider_event exact_decimal (\<lambda>_. None) 1 ?ev ?w = Inr (out, w')"
    using r res
    by (simp add: st apply_provider_event_def first_delivery_def lifecycle_after_def call_next_def is_terminal_def
        was_answered_def move_call_def settle_call_def settle_tx_def settle_with_def close_with_def Let_def)
  then obtain out w' where app: "apply_provider_event exact_decimal (\<lambda>_. None) 1 ?ev ?w = Inr (out, w')" by blast
  from inbound_call_is_free [OF run [unfolded sample_admit_def] quiet_host_facts(1) r(1) res _ app] app r(3)
  show ?thesis by simp
qed

theorem sweep_cuts_off_answer_witness:
  "\<exists>n h2 c2. sweep_unanswered sample_lower sample_copy (Some sample_config) (sample_inbound_db None) 25 1
       (\<lambda>_ g. snd (answer_inbound 1 7 3 g)) waiting_host = (n, h2)
     \<and> the_call h2 7 = Some c2 \<and> v_user_id c2 = Some 3 \<and> v_status c2 = ''completed''"
proof -
  obtain n h2 where s: "sweep_unanswered sample_lower sample_copy (Some sample_config) (sample_inbound_db None) 25 1
       (\<lambda>_ g. snd (answer_inbound 1 7 3 g)) waiting_host = (n, h2)" by fastforce
  have "fst (answer_inbound 1 7 3 waiting_host) = Inr ''ph-x''"
    by (simp add: answer_alt unanswered_def waiting_cols_def)
  then obtain h1 where "answer_inbound 1 7 3 waiting_host = (Inr ''ph-x'', h1)" by (metis prod.collapse)
  from sweep_cuts_off_answer [OF waiting_rows [of _ 0, unfolded One_nat_def [symmetric]] _ _ _ this s] waiting_message(2,3) s show ?thesis by auto
qed

end
