(* ===== verification/Call_Bill.thy ===== *)
theory Call_Bill
  imports Voip_Session
begin

text \<open>
  What a call promises about its hold, as an abstract machine, and that the webhook, the sweeps
  (\<^verbatim>\<open>server/src/voip/webhook.rs\<close>) and the end of the media (\<^verbatim>\<open>server/src/voip/session.rs\<close>) implement it.
\<close>

section \<open>The abstract bill of a call\<close>

datatype stage = Absent | Running | Over

text \<open>A stage, and the credits of the open hold.\<close>

type_synonym bill = "stage \<times> int option"

inductive bill_step :: "bill \<Rightarrow> bill \<Rightarrow> bool" where
  finish: "bill_step (Running, hold) (Over, hold)"
| close: "bill_step (Over, Some k) (Over, None)"

code_pred bill_step .

inductive_cases bill_stepE: "bill_step b b'"

abbreviation bill_steps :: "bill \<Rightarrow> bill \<Rightarrow> bool" where
  "bill_steps \<equiv> bill_step\<^sup>*\<^sup>*"

text \<open>What every run of the machine keeps.\<close>

lemma bill_steps_stage:
  assumes "bill_steps b b'"
  shows "(fst b = Absent \<longleftrightarrow> fst b' = Absent) \<and> (fst b = Over \<longrightarrow> fst b' = Over)
     \<and> (snd b' \<noteq> snd b \<longrightarrow> fst b' = Over \<and> snd b' = None)"
  using assms
proof (induction rule: rtranclp_induct)
  case base
  then show ?case by simp
next
  case (step b' b'')
  from step.hyps(2) step.IH show ?case by (cases rule: bill_stepE) auto
qed

lemma bill_finish_close:
  "bill_steps (Running, hold) (Over, hold)" "bill_steps (Over, hold) (Over, None)"
  "bill_steps (Running, hold) (Over, None)"
proof -
  show f: "bill_steps (Running, hold) (Over, hold)" by (intro r_into_rtranclp finish)
  show c: "bill_steps (Over, hold) (Over, None)" by (cases hold) (auto intro: r_into_rtranclp close)
  from f c show "bill_steps (Running, hold) (Over, None)" by (rule rtranclp_trans)
qed

section \<open>The bill of a call in the tables\<close>

definition stage_of :: "VoipCall list \<Rightarrow> nat \<Rightarrow> stage" where
  "stage_of calls i =
     (case find_call calls i of None \<Rightarrow> Absent | Some c \<Rightarrow> if row_live c then Running else Over)"

definition bill_of :: "VoipWorld \<Rightarrow> nat \<Rightarrow> bill" where
  "bill_of w i = (stage_of (w_calls w) i, map_option held_credits (open_for_call (w_holds w) i))"

lemma stage_update:
  assumes "\<And>c. v_id (f c) = v_id c"
  shows "stage_of (update_call j f calls) i =
     (if i = j then (case find_call calls i of None \<Rightarrow> Absent | Some c \<Rightarrow> if row_live (f c) then Running else Over)
      else stage_of calls i)"
  using assms by (simp add: stage_of_def find_update_call split: option.split)

lemma stage_same:
  assumes "\<And>c. v_id (f c) = v_id c" and "\<And>c. row_live (f c) = row_live c"
  shows "stage_of (update_call j f calls) i = stage_of calls i"
  unfolding stage_update [OF assms(1)] by (simp add: assms(2) stage_of_def split: option.split)

lemma stage_set:
  assumes "\<And>c. v_id (f c) = v_id c" and "\<And>c. row_live (f c) = b"
  shows "stage_of (update_call j f calls) i =
     (if i = j \<and> stage_of calls i \<noteq> Absent then if b then Running else Over else stage_of calls i)"
  unfolding stage_update [OF assms(1)] by (simp add: assms(2) stage_of_def split: option.split)

lemma live_status: "v_status c' = v_status c \<Longrightarrow> row_live c' = row_live c"
  by (simp add: row_live_def)

lemma live_steps [simp]: "row_live (side_effects ev c) = row_live c" "row_live (add_leg leg c) = row_live c"
  by (intro live_status; simp)+

lemma live_as_str: "v_status c = callstate_as_str s \<Longrightarrow> row_live c \<longleftrightarrow> \<not> is_terminal s"
  by (cases s) (simp_all add: row_live_def is_terminal_def)

lemma stage_resolve:
  "resolve_call parse_id calls ev = (co, calls') \<Longrightarrow> stage_of calls' i = stage_of calls i"
  by (auto simp: resolve_call_def intro!: stage_same split: option.splits)

section \<open>Every operation is a run of the machine\<close>

lemma settle_call_holds:
  assumes acc: "accounts_for org_balance (w_holds w) ttl"
    and s: "settle_call D now w call session st price d = Inr w'"
  shows "open_for_call (w_holds w') i = (if i = call then None else open_for_call (w_holds w) i)"
proof -
  define k where "k = (if st = Completed
    then settle_credits D (case price of None \<Rightarrow> 0 | Some p \<Rightarrow> p) (nat (max d 0)) else 0)"
  have "0 \<le> i32_max" by (simp add: i32_max_def)
  then have kle: "k \<le> i32_max" using settle_credits_le by (simp add: k_def)
  let ?w = "with_calls (update_call call (charge_call k)) w"
  have s': "(case (if st = Completed then settle_tx (w_holds ?w) call session k now
               else release_tx (w_holds ?w) call session now) of
           Inl e \<Rightarrow> Inl e | Inr (_, h) \<Rightarrow> Inr (?w\<lparr>w_holds := h\<rparr>)) = Inr w'"
    using s unfolding settle_call_def Let_def k_def .
  show ?thesis
  proof (cases "st = Completed")
    case True
    from settle_total [OF acc kle, of call session now] obtain o' h where
      "settle (w_holds w) call session k now = Inr (o', h)"
      "\<forall>i. open_for_call h i = (if i = call then None else open_for_call (w_holds w) i)" by blast
    with True s' show ?thesis by (auto simp: settle_alt)
  next
    case False
    from release_total [OF acc, of call session now] obtain o' h where
      "release (w_holds w) call session now = Inr (o', h)"
      "\<forall>i. open_for_call h i = (if i = call then None else open_for_call (w_holds w) i)" by blast
    with False s' show ?thesis by (auto simp: release_alt)
  qed
qed

text \<open>One event.\<close>

lemma event_bill:
  assumes ok: "world_ok ttl w" and app: "apply_provider_event D parse_id now ev w = Inr (out, w')"
  shows "bill_steps (bill_of w i) (bill_of w' i)"
proof -
  obtain co calls where res: "resolve_call parse_id (w_calls w) ev = (co, calls)" by fastforce
  have st: "stage_of calls i = stage_of (w_calls w) i" using res by (rule stage_resolve)
  show ?thesis
  proof (cases co)
    case None
    with res app have "w' = w" by (auto simp: apply_provider_event_def)
    then show ?thesis by simp
  next
    case (Some c)
    show ?thesis
    proof (cases "seen_event ev (w_events w)")
      case True
      with res Some app have "w' = w\<lparr>w_calls := calls\<rparr>" by (auto simp: apply_provider_event_def)
      with st show ?thesis by (simp add: bill_of_def)
    next
      case False
      let ?w = "with_calls (update_call (v_id c) (side_effects ev)) (w\<lparr>w_calls := calls\<rparr>)"
      have side: "stage_of (w_calls ?w) i = stage_of (w_calls w) i"
        using st by (simp add: stage_same)
      from False res Some app have first: "first_delivery D now ev (w\<lparr>w_calls := calls\<rparr>) c = Inr (out, w')"
        by (simp add: apply_provider_event_def)
      show ?thesis
      proof (cases "lifecycle_after c ev")
        case None
        with first side show ?thesis by (auto simp: first_delivery_def bill_of_def)
      next
        case (Some t)
        with first obtain w2 where m: "move_call D now ?w c ev t = Inr w2" and w': "bill_of w' i = bill_of w2 i"
          by (auto simp: first_delivery_def bill_of_def split: sum.splits)
        obtain g where g: "w_calls w2 = update_call (v_id c) g (w_calls ?w)" "\<And>r. v_id (g r) = v_id r"
          "\<And>r. v_status (g r) = callstate_as_str t"
          using move_call_world [OF m] by blast
        obtain e where e: "call_next (status_of c) e = Some t"
          using Some by (auto simp: lifecycle_after_def split: option.splits)
        have "find_call (w_calls w) (v_id c) = Some c"
          using resolve_call_in res \<open>co = Some c\<close> ok distinct_find_call by (simp add: world_ok_def)
        moreover have "row_live c"
          using e by (auto simp: row_live_def status_of_def callstate_parse_def call_next_def is_terminal_def)
        ultimately have run: "stage_of (w_calls w) (v_id c) = Running" by (simp add: stage_of_def)
        show ?thesis
        proof (cases "is_terminal t")
          case False
          with m have "w_holds w2 = w_holds w" by (auto simp: move_call_def Let_def)
          moreover have "stage_of (w_calls w2) i = stage_of (w_calls w) i"
            using side run stage_set [of g True "v_id c" "w_calls ?w" i] g(1,2) live_as_str [OF g(3)] False by auto
          ultimately show ?thesis unfolding w' by (simp add: bill_of_def)
        next
          case True
          have acc: "accounts_for org_balance (w_holds w) ttl" using ok by (simp add: world_ok_def)
          have h: "open_for_call (w_holds w2) i = (if i = v_id c then None else open_for_call (w_holds w) i)"
            using m True acc
            by (auto simp: move_call_def Let_def dest!: settle_call_holds [rotated, where i = i])
          have "stage_of (w_calls w2) i = (if i = v_id c then Over else stage_of (w_calls w) i)"
            using side run stage_set [of g False "v_id c" "w_calls ?w" i] g(1,2) live_as_str [OF g(3)] True by auto
          with h run show ?thesis unfolding w' by (auto simp: bill_of_def intro: bill_finish_close)
        qed
      qed
    qed
  qed
qed

text \<open>The sweeps.\<close>

lemma reap_bill: "stage_of (fst (reap_overrunning_calls mm now limit calls)) i = stage_of calls i"
proof -
  have "stage_of (fold (\<lambda>r cs. update_call (v_id r) end_overrun cs) rows cs) i = stage_of cs i" for rows cs
    by (induction rows arbitrary: cs) (simp_all add: stage_same end_overrun_def row_live_def)
  then show ?thesis by (simp add: reap_overrunning_calls_def Let_def)
qed

lemma stall_bill:
  assumes "distinct (map v_id calls)"
  shows "bill_steps (stage_of calls i, hold) (stage_of (fst (fail_stalled_calls now limit calls)) i, hold)"
proof -
  define ids where "ids = map v_id (take (clamp limit 1 500) (sort_key v_started_at (filter (stalled now) calls)))"
  have f: "find_call (map (\<lambda>c. if v_id c \<in> set ids then fail_stalled_row now c else c) cs) i =
      map_option (\<lambda>c. if v_id c \<in> set ids then fail_stalled_row now c else c) (find_call cs i)" for cs
    by (induction cs) (auto simp: find_call_def fail_stalled_row_def)
  have live: "row_live c" if c: "find_call calls i = Some c" and m: "v_id c \<in> set ids" for c
  proof -
    from m obtain r where r: "r \<in> set calls" "stalled now r" "v_id r = v_id c"
      using set_take_subset unfolding ids_def by fastforce
    then have "r = c" using distinct_find_call [OF assms, of r] find_call_id [OF c] c by simp
    with r(2) show ?thesis by (auto simp: stalled_def row_live_def)
  qed
  have "stage_of (fst (fail_stalled_calls now limit calls)) i =
      (case find_call calls i of None \<Rightarrow> Absent
       | Some c \<Rightarrow> if v_id c \<in> set ids then Over else if row_live c then Running else Over)"
    by (auto simp: fail_stalled_calls_def Let_def ids_def [symmetric] stage_of_def f fail_stalled_row_def row_live_def
        split: option.split)
  then show ?thesis
    using live bill_finish_close(1) by (auto simp: stage_of_def split: option.split)
qed

lemma settle_bill:
  assumes ok: "world_ok ttl w"
  shows "bill_steps (bill_of w i) (bill_of (snd (settle_finished_calls now limit w)) i)"
proof -
  define rows where "rows = take (clamp limit 1 500) (sort_key ended_key (filter (unsettled w) (w_calls w)))"
  have rows: "r \<in> set (w_calls w) \<and> unsettled w r" if "r \<in> set rows" for r
    using that set_take_subset unfolding rows_def by fastforce
  have h: "open_for_call (w_holds (snd (settle_finished_calls now limit w))) i =
      (if i \<in> v_id ` set rows then None else open_for_call (w_holds w) i)"
    using settle_rows_total [of "w_holds w" ttl rows now 0] ok rows
    by (auto simp: settle_finished_calls_def Let_def rows_def [symmetric] world_ok_def split: prod.splits)
  have c: "w_calls (snd (settle_finished_calls now limit w)) = w_calls w"
    by (simp add: settle_finished_calls_def Let_def split: prod.splits)
  show ?thesis
  proof (cases "i \<in> v_id ` set rows")
    case False
    with h c show ?thesis by (simp add: bill_of_def)
  next
    case True
    then obtain r where r: "r \<in> set rows" "v_id r = i" by auto
    then have "find_call (w_calls w) i = Some r" "\<not> row_live r"
      using rows [OF r(1)] ok distinct_find_call by (auto simp: world_ok_def unsettled_def row_live_def)
    with True h c show ?thesis by (auto simp: bill_of_def stage_of_def intro: bill_finish_close)
  qed
qed

lemma media_bill:
  assumes ok: "world_ok ttl w"
  shows "bill_steps (bill_of w i) (bill_of (end_call_world call reason now w) i)"
proof (cases "\<exists>c. find_call (w_calls w) call = Some c \<and> row_live c")
  case False
  then have "end_call_world call reason now w = w"
    by (auto simp: end_call_world_def mark_failed_def split: option.split)
  then show ?thesis by simp
next
  case True
  then obtain c where c: "find_call (w_calls w) call = Some c" "row_live c" by blast
  have "accounts_for org_balance (w_holds w) ttl" using ok by (simp add: world_ok_def)
  from release_total [OF this, of call "v_session_id c" now] obtain out db where
    rel: "release (w_holds w) call (v_session_id c) now = Inr (out, db)"
    "\<forall>i. open_for_call db i = (if i = call then None else open_for_call (w_holds w) i)" by blast
  have w': "end_call_world call reason now w = (with_calls (update_call call (fail_from_bridge reason now)) w)\<lparr>w_holds := db\<rparr>"
    using c rel(1) by (simp add: end_call_world_def mark_failed_def release_hold_def)
  have "stage_of (update_call call (fail_from_bridge reason now) (w_calls w)) i =
      (if i = call then Over else stage_of (w_calls w) i)"
    using stage_set [of "fail_from_bridge reason now" False call "w_calls w" i] c
    by (auto simp: row_live_def stage_of_def)
  moreover have "stage_of (w_calls w) call = Running" using c by (simp add: stage_of_def)
  ultimately show ?thesis using rel(2) by (auto simp: w' bill_of_def intro: bill_finish_close)
qed

section \<open>The refinement\<close>

datatype call_op = World world_op | Media_ends nat FailureReason int

fun call_step ::
  "decimal_ops \<Rightarrow> (string \<Rightarrow> nat option) \<Rightarrow> (nat \<Rightarrow> int option) \<Rightarrow> VoipWorld \<Rightarrow> call_op \<Rightarrow> VoipWorld" where
  "call_step D parse_id mm w (World x) = world_step D parse_id mm w x"
| "call_step D parse_id mm w (Media_ends call reason now) = end_call_world call reason now w"

lemma call_step_ok: "world_ok ttl w \<Longrightarrow> world_ok ttl (call_step D parse_id mm w x)"
  using world_step_ok end_call_world_ok by (cases x) auto

lemma call_step_bill:
  assumes "world_ok ttl w"
  shows "bill_steps (bill_of w i) (bill_of (call_step D parse_id mm w x) i)"
proof (cases x)
  case (Media_ends call reason now)
  with media_bill [OF assms] show ?thesis by simp
next
  case (World y)
  show ?thesis
  proof (cases y)
    case (Deliver ev now)
    with World event_bill [OF assms] show ?thesis by (auto split: sum.split prod.split)
  next
    case (ReapSweep now limit)
    with World reap_bill show ?thesis by (simp add: bill_of_def)
  next
    case (StallSweep now limit)
    have "distinct (map v_id (w_calls w))" using assms by (simp add: world_ok_def)
    with World StallSweep stall_bill show ?thesis by (simp add: bill_of_def)
  next
    case (SettleSweep now limit)
    with World settle_bill [OF assms] show ?thesis by simp
  qed
qed

text \<open>
  C4: The carrier's events, the sweeps and the end of the media implement the bill: whatever
  runs in whatever order, what happens to a call is a run of the abstract machine. So a hold
  is never touched while its call runs and never changes its amount, it closes once, only
  when the call is over, and neither a finished call nor a closed hold comes back.
\<close>

theorem calls_refine_bill:
  assumes "world_ok ttl w" and "w' = foldl (call_step D parse_id mm) w ops"
  shows "bill_steps (bill_of w i) (bill_of w' i)
     \<and> (fst (bill_of w i) = Over \<longrightarrow> fst (bill_of w' i) = Over)
     \<and> (snd (bill_of w' i) \<noteq> snd (bill_of w i) \<longrightarrow> bill_of w' i = (Over, None))"
proof -
  have run: "bill_steps (bill_of w i) (bill_of (foldl (call_step D parse_id mm) w ops) i)"
    using assms(1)
  proof (induction ops arbitrary: w)
    case Nil
    then show ?case by simp
  next
    case (Cons x ops)
    from call_step_bill [OF Cons.prems] Cons.IH [OF call_step_ok [OF Cons.prems]] show ?case
      by (metis foldl_Cons rtranclp_trans)
  qed
  with bill_steps_stage [OF run] show ?thesis by (simp add: assms(2) prod_eq_iff)
qed

theorem calls_refine_bill_witness:
  "bill_steps (Running, Some 60) (bill_of (foldl (call_step exact_decimal (\<lambda>_. None) (\<lambda>_. None))
     (sample_world ''bridged'' (Some 0)) [World (ReapSweep 1 10), Media_ends 7 MediaLost 5,
       World (Deliver (sample_event ''e1'' 60000000 (KHangup Busy)) 6), World (SettleSweep 7 10)]) 7)"
proof -
  have "bill_of (sample_world ''bridged'' (Some 0)) 7 = (Running, Some 60)"
    by (simp add: bill_of_def stage_of_def find_call_def sample_row_live sample_held_row)
  with calls_refine_bill [where D = exact_decimal and parse_id = "\<lambda>_. None" and mm = "\<lambda>_. None" and i = 7
      and ops = "[World (ReapSweep 1 10), Media_ends 7 MediaLost 5,
       World (Deliver (sample_event ''e1'' 60000000 (KHangup Busy)) 6), World (SettleSweep 7 10)]",
      OF sample_world_ok refl, of "''bridged''" "Some 0"]
  show ?thesis by (simp del: foldl_Cons call_step.simps)
qed

end
