(* ===== verification/User_Billing.thy ===== *)
theory User_Billing
  imports Credits
begin

text \<open>
  The personal ledger, \<^verbatim>\<open>server/src/billing.rs\<close>, and what credits it: the payment webhook of
  \<^verbatim>\<open>server/src/api.rs\<close>. The tables \<open>users\<close>, \<open>credit_transactions\<close>, \<open>usage_sessions\<close> and
  \<open>stripe_events\<close> are the state. A transaction is a function from the state to an error, which
  leaves the state as it was, or to a result and the new state. Money is a \<open>Decimal\<close>; a column
  \<open>DECIMAL(10, 6)\<close> rounds to six digits and refuses ten thousand or more.
\<close>

section \<open>The tables\<close>

record User =
  u_balance :: usd
  u_avatar_url :: "string option"
  u_cartesia_voice_id :: "string option"
  u_tts_engine_pref :: "string option"
  u_tts_voice_id :: "string option"
  u_language :: "string option"

record UserTx =
  tx_user :: nat
  tx_amount :: usd
  tx_kind :: string
  tx_balance_after :: usd
  tx_description :: "string option"
  tx_stripe_event :: "string option"
  tx_feature :: "string option"
  tx_session :: "nat option"

record UsageSession =
  us_user :: nat
  us_room :: string
  us_engine :: string
  us_speaking_seconds :: int
  us_cost :: usd
  us_ended_at :: "int option"

record BillDb =
  bl_users :: "nat \<Rightarrow> User option"
  bl_txs :: "UserTx list"
  bl_sessions :: "nat \<Rightarrow> UsageSession option"
  bl_stripe :: "(string \<times> string) list"
  bl_pool :: CreditDb

datatype BillingError = InsufficientFunds | Db db_error

fun billing_error_text :: "(db_error \<Rightarrow> string) \<Rightarrow> BillingError \<Rightarrow> string" where
  "billing_error_text show_db InsufficientFunds = ''insufficient funds''"
| "billing_error_text show_db (Db e) = ''database error: '' @ show_db e"

text \<open>Storing in a \<open>DECIMAL(10, 6)\<close> column: half away from zero, then the range.\<close>

definition to_column :: "usd \<Rightarrow> usd option" where
  "to_column v =
     (let r = (if v < 0 then - of_int \<lfloor>- v * 10 ^ 6 + 1 / 2\<rfloor> else of_int \<lfloor>v * 10 ^ 6 + 1 / 2\<rfloor>) / 10 ^ 6
      in if \<bar>r\<bar> < 10 ^ 4 then Some r else None)"

text \<open>\<open>from_f64\<close> is the library's exact conversion.\<close>

definition usd_of :: "decimal_ops \<Rightarrow> ('f \<Rightarrow> rat option) \<Rightarrow> 'f \<Rightarrow> usd" where
  "usd_of D from_f64 v = dec_round D (case from_f64 v of None \<Rightarrow> 0 | Some d \<Rightarrow> d) 6"

definition bill_balance :: "BillDb \<Rightarrow> nat \<Rightarrow> usd option" where
  "bill_balance db uid = map_option u_balance (bl_users db uid)"

definition change_user :: "nat \<Rightarrow> (User \<Rightarrow> User) \<Rightarrow> BillDb \<Rightarrow> BillDb" where
  "change_user uid f db = db\<lparr>bl_users := (bl_users db)(uid := map_option f (bl_users db uid))\<rparr>"

section \<open>Reading and preferences\<close>

definition get_balance :: "BillDb \<Rightarrow> nat \<Rightarrow> db_error + usd" where
  "get_balance db uid =
     (case bl_users db uid of None \<Rightarrow> Inl RowNotFound | Some u \<Rightarrow> Inr (u_balance u))"

definition can_join :: "usd \<Rightarrow> BillDb \<Rightarrow> nat \<Rightarrow> db_error + bool" where
  "can_join min_balance_to_join db uid =
     (case get_balance db uid of Inl e \<Rightarrow> Inl e | Inr b \<Rightarrow> Inr (min_balance_to_join \<le> b))"

definition get_avatar :: "BillDb \<Rightarrow> nat \<Rightarrow> db_error + string option" where
  "get_avatar db uid =
     (case bl_users db uid of None \<Rightarrow> Inl RowNotFound | Some u \<Rightarrow> Inr (u_avatar_url u))"

definition get_cartesia_voice_id :: "BillDb \<Rightarrow> nat \<Rightarrow> db_error + string option" where
  "get_cartesia_voice_id db uid =
     (case bl_users db uid of None \<Rightarrow> Inl RowNotFound | Some u \<Rightarrow> Inr (u_cartesia_voice_id u))"

definition set_cartesia_voice_id :: "nat \<Rightarrow> string \<Rightarrow> BillDb \<Rightarrow> BillDb" where
  "set_cartesia_voice_id uid voice = change_user uid (\<lambda>u. u\<lparr>u_cartesia_voice_id := Some voice\<rparr>)"

definition sql_coalesce :: "'a option \<Rightarrow> 'a option \<Rightarrow> 'a option" where
  "sql_coalesce a b = (case a of None \<Rightarrow> b | Some x \<Rightarrow> Some x)"

definition set_tts_prefs :: "nat \<Rightarrow> string option \<Rightarrow> string option \<Rightarrow> BillDb \<Rightarrow> BillDb" where
  "set_tts_prefs uid engine voice =
     change_user uid (\<lambda>u. u\<lparr>u_tts_engine_pref := sql_coalesce engine (u_tts_engine_pref u),
                           u_tts_voice_id := sql_coalesce voice (u_tts_voice_id u)\<rparr>)"

definition set_language :: "nat \<Rightarrow> string option \<Rightarrow> BillDb \<Rightarrow> BillDb" where
  "set_language uid language = change_user uid (\<lambda>u. u\<lparr>u_language := language\<rparr>)"

section \<open>Moving money\<close>

text \<open>The new balance and its ledger row, the two statements every movement ends with.\<close>

definition post_tx :: "UserTx \<Rightarrow> BillDb \<Rightarrow> BillingError + BillDb" where
  "post_tx row db =
     (case (to_column (tx_balance_after row), to_column (tx_amount row)) of
        (Some b, Some a) \<Rightarrow>
          let db1 = change_user (tx_user row) (\<lambda>u. u\<lparr>u_balance := b\<rparr>) db
          in Inr (db1\<lparr>bl_txs := bl_txs db1 @ [row\<lparr>tx_balance_after := b, tx_amount := a\<rparr>]\<rparr>)
      | _ \<Rightarrow> Inl (Db OutOfRange))"

definition add_credits ::
  "decimal_ops \<Rightarrow> nat \<Rightarrow> usd \<Rightarrow> string \<Rightarrow> string option \<Rightarrow> string option \<Rightarrow> BillDb
     \<Rightarrow> BillingError + usd \<times> BillDb" where
  "add_credits D uid amount kind description stripe_event db =
     (case bill_balance db uid of
        None \<Rightarrow> Inl (Db RowNotFound)
      | Some balance \<Rightarrow>
          let new_balance = dec_round D (balance + amount) 6
          in case post_tx \<lparr>tx_user = uid, tx_amount = amount, tx_kind = kind, tx_balance_after = new_balance,
                 tx_description = description, tx_stripe_event = stripe_event, tx_feature = None,
                 tx_session = None\<rparr> db of
               Inl e \<Rightarrow> Inl e
             | Inr db' \<Rightarrow> Inr (new_balance, db'))"

definition credit_from_stripe_event ::
  "decimal_ops \<Rightarrow> string \<Rightarrow> string \<Rightarrow> nat \<Rightarrow> usd \<Rightarrow> string \<Rightarrow> BillDb \<Rightarrow> BillingError + bool \<times> BillDb" where
  "credit_from_stripe_event D event_id event_type uid amount description db =
     (if event_id \<in> set (map fst (bl_stripe db)) then Inr (False, db)
      else let db1 = db\<lparr>bl_stripe := bl_stripe db @ [(event_id, event_type)]\<rparr>
           in case bill_balance db1 uid of
                None \<Rightarrow> Inl (Db RowNotFound)
              | Some balance \<Rightarrow>
                  let new_balance = dec_round D (balance + amount) 6
                  in case post_tx \<lparr>tx_user = uid, tx_amount = amount, tx_kind = ''purchase'',
                         tx_balance_after = new_balance, tx_description = Some description,
                         tx_stripe_event = Some event_id, tx_feature = None, tx_session = None\<rparr> db1 of
                       Inl e \<Rightarrow> Inl e
                     | Inr db' \<Rightarrow> Inr (True, db'))"

text \<open>\<open>UPDATE usage_sessions \<dots> WHERE id = $1\<close>: no row is no update.\<close>

definition accumulate_usage :: "nat \<Rightarrow> int \<Rightarrow> usd \<Rightarrow> BillDb \<Rightarrow> BillingError + BillDb" where
  "accumulate_usage sid seconds amount db =
     (case bl_sessions db sid of
        None \<Rightarrow> Inr db
      | Some s \<Rightarrow>
          (case to_column (us_cost s + amount) of
             None \<Rightarrow> Inl (Db OutOfRange)
           | Some c \<Rightarrow>
               if in_i32 (us_speaking_seconds s + seconds)
               then Inr (db\<lparr>bl_sessions := (bl_sessions db)(sid \<mapsto>
                      s\<lparr>us_speaking_seconds := us_speaking_seconds s + seconds, us_cost := c\<rparr>)\<rparr>)
               else Inl (Db OutOfRange)))"

definition deduct_usage ::
  "decimal_ops \<Rightarrow> nat \<Rightarrow> nat option \<Rightarrow> int \<Rightarrow> usd \<Rightarrow> BillDb \<Rightarrow> BillingError + usd \<times> BillDb" where
  "deduct_usage D uid session seconds amount db =
     (case bill_balance db uid of
        None \<Rightarrow> Inl (Db RowNotFound)
      | Some balance \<Rightarrow>
          if balance < amount then Inl InsufficientFunds
          else let new_balance = dec_round D (balance - amount) 6
               in case post_tx \<lparr>tx_user = uid, tx_amount = - amount, tx_kind = ''usage'',
                      tx_balance_after = new_balance, tx_description = Some ''Speaking time'',
                      tx_stripe_event = None, tx_feature = None, tx_session = None\<rparr> db of
                    Inl e \<Rightarrow> Inl e
                  | Inr db1 \<Rightarrow>
                      (case session of
                         None \<Rightarrow> Inr (new_balance, db1)
                       | Some sid \<Rightarrow>
                           (case accumulate_usage sid seconds amount db1 of
                              Inl e \<Rightarrow> Inl e
                            | Inr db2 \<Rightarrow> Inr (new_balance, db2))))"

text \<open>The row's \<open>metadata\<close> is left out.\<close>

definition deduct_feature ::
  "decimal_ops \<Rightarrow> nat \<Rightarrow> nat option \<Rightarrow> string \<Rightarrow> usd \<Rightarrow> string \<Rightarrow> BillDb \<Rightarrow> BillingError + usd \<times> BillDb" where
  "deduct_feature D uid session feature amount description db =
     (case bill_balance db uid of
        None \<Rightarrow> Inl (Db RowNotFound)
      | Some balance \<Rightarrow>
          if balance < amount then Inl InsufficientFunds
          else let new_balance = dec_round D (balance - amount) 6
               in case post_tx \<lparr>tx_user = uid, tx_amount = - amount, tx_kind = feature,
                      tx_balance_after = new_balance, tx_description = Some description,
                      tx_stripe_event = None, tx_feature = Some feature, tx_session = session\<rparr> db of
                    Inl e \<Rightarrow> Inl e
                  | Inr db' \<Rightarrow> Inr (new_balance, db'))"

text \<open>\<open>sid\<close> is the row's new random id.\<close>

definition create_session :: "nat \<Rightarrow> string \<Rightarrow> string \<Rightarrow> nat \<Rightarrow> BillDb \<Rightarrow> db_error + nat \<times> BillDb" where
  "create_session uid room engine_id sid db =
     (if bl_users db uid = None then Inl ForeignKeyViolation
      else Inr (sid, db\<lparr>bl_sessions := (bl_sessions db)(sid \<mapsto>
             \<lparr>us_user = uid, us_room = room, us_engine = engine_id, us_speaking_seconds = 0, us_cost = 0,
              us_ended_at = None\<rparr>)\<rparr>))"

definition end_usage_session :: "nat \<Rightarrow> int \<Rightarrow> BillDb \<Rightarrow> BillDb" where
  "end_usage_session sid now db =
     db\<lparr>bl_sessions := (bl_sessions db)(sid := map_option
          (\<lambda>s. if us_ended_at s = None then s\<lparr>us_ended_at := Some now\<rparr> else s) (bl_sessions db sid))\<rparr>"

section \<open>The payment webhook\<close>

text \<open>The fields of the event's JSON that the handler reads; a missing string is \<open>None\<close>.\<close>

record 'f StripeEvent =
  se_id :: "string option"
  se_type :: "string option"
  se_payment_status :: "string option"
  se_user_id :: "string option"
  se_credits_text :: "string option"
  se_credits_number :: "'f option"
  se_package :: "string option"

text \<open>
  The library's parsers, conversion and comparison with zero. \<open>None\<close> as the body is one that is
  not JSON.
\<close>

record 'f stripe_ops =
  so_uuid :: "string \<Rightarrow> nat option"
  so_parse_f64 :: "string \<Rightarrow> 'f option"
  so_from_f64 :: "'f \<Rightarrow> rat option"
  so_positive :: "'f \<Rightarrow> bool"

definition text_or_empty :: "string option \<Rightarrow> string" where
  "text_or_empty s = (case s of None \<Rightarrow> [] | Some t \<Rightarrow> t)"

definition is_checkout :: "'f StripeEvent \<Rightarrow> bool" where
  "is_checkout ev \<longleftrightarrow> text_or_empty (se_type ev) = ''checkout.session.completed''
     \<or> text_or_empty (se_type ev) = ''checkout.session.async_payment_succeeded''"

definition purchase_of :: "'f stripe_ops \<Rightarrow> 'f StripeEvent \<Rightarrow> (nat \<times> 'f) option" where
  "purchase_of P ev =
     (let uid = Option.bind (se_user_id ev) (so_uuid P);
          credits = (case Option.bind (se_credits_text ev) (so_parse_f64 P) of
                       Some c \<Rightarrow> Some c
                     | None \<Rightarrow> se_credits_number ev)
      in case (uid, credits) of
           (Some u, Some c) \<Rightarrow> if so_positive P c then Some (u, c) else None
         | _ \<Rightarrow> None)"

definition billing_webhook ::
  "decimal_ops \<Rightarrow> 'f stripe_ops \<Rightarrow> bool \<Rightarrow> 'f StripeEvent option \<Rightarrow> BillDb \<Rightarrow> nat \<times> BillDb" where
  "billing_webhook D P sig_ok body db =
     (if \<not> sig_ok then (400, db)
      else case body of
             None \<Rightarrow> (400, db)
           | Some ev \<Rightarrow>
               let event_id = text_or_empty (se_id ev);
                   event_type = text_or_empty (se_type ev)
               in if event_id = [] then (400, db)
                  else if is_checkout ev \<and> se_payment_status ev = Some ''paid''
                  then (case purchase_of P ev of
                          None \<Rightarrow> (200, db)
                        | Some (uid, cr) \<Rightarrow>
                            (case credit_from_stripe_event D event_id event_type uid
                                    (usd_of D (so_from_f64 P) cr)
                                    (''Purchase: '' @ (case se_package ev of None \<Rightarrow> ''credits'' | Some p \<Rightarrow> p)) db of
                               Inl _ \<Rightarrow> (500, db)
                             | Inr (_, db') \<Rightarrow> (200, db')))
                  else (200, db))"

section \<open>Sequences of operations\<close>

datatype 'f user_op =
  Add_credits nat usd string "string option"
| Payment bool "'f StripeEvent option"
| Use_seconds nat "nat option" int usd
| Use_feature nat "nat option" string usd string
| Open_usage nat string string nat
| End_usage nat int
| Set_voice nat string
| Set_tts nat "string option" "string option"
| Set_language nat "string option"

fun user_step :: "decimal_ops \<Rightarrow> 'f stripe_ops \<Rightarrow> BillDb \<Rightarrow> 'f user_op \<Rightarrow> BillDb" where
  "user_step D P db (Add_credits uid a k d) =
     (case add_credits D uid a k d None db of Inl _ \<Rightarrow> db | Inr (_, db') \<Rightarrow> db')"
| "user_step D P db (Payment sig_ok body) = snd (billing_webhook D P sig_ok body db)"
| "user_step D P db (Use_seconds uid s n a) =
     (case deduct_usage D uid s n a db of Inl _ \<Rightarrow> db | Inr (_, db') \<Rightarrow> db')"
| "user_step D P db (Use_feature uid s f a d) =
     (case deduct_feature D uid s f a d db of Inl _ \<Rightarrow> db | Inr (_, db') \<Rightarrow> db')"
| "user_step D P db (Open_usage uid r e sid) =
     (case create_session uid r e sid db of Inl _ \<Rightarrow> db | Inr (_, db') \<Rightarrow> db')"
| "user_step D P db (End_usage sid now) = end_usage_session sid now db"
| "user_step D P db (Set_voice uid v) = set_cartesia_voice_id uid v db"
| "user_step D P db (Set_tts uid e v) = set_tts_prefs uid e v db"
| "user_step D P db (Set_language uid l) = set_language uid l db"

text \<open>Amounts in whole millionths, and amounts with the right sign.\<close>

fun op_on_grid :: "'f user_op \<Rightarrow> bool" where
  "op_on_grid (Add_credits _ a _ _) = grid 6 a"
| "op_on_grid (Use_seconds _ _ _ a) = grid 6 a"
| "op_on_grid (Use_feature _ _ _ a _) = grid 6 a"
| "op_on_grid _ = True"

fun op_nonneg :: "decimal_ops \<Rightarrow> 'f stripe_ops \<Rightarrow> 'f user_op \<Rightarrow> bool" where
  "op_nonneg D P (Add_credits _ a _ _) = (0 \<le> a)"
| "op_nonneg D P (Payment _ body) =
     (case Option.bind body (purchase_of P) of None \<Rightarrow> True | Some (_, c) \<Rightarrow> 0 \<le> usd_of D (so_from_f64 P) c)"
| "op_nonneg D P (Use_seconds _ _ _ a) = (0 \<le> a)"
| "op_nonneg D P (Use_feature _ _ _ a _) = (0 \<le> a)"
| "op_nonneg D P _ = True"

section \<open>Every balance has its statement\<close>

definition user_sum :: "UserTx list \<Rightarrow> nat \<Rightarrow> usd" where
  "user_sum txs uid = sum_list (map tx_amount (filter (\<lambda>t. tx_user t = uid) txs))"

text \<open>The statement of an account: each row's balance is the one before it plus its amount.\<close>

fun statement_ok :: "(nat \<Rightarrow> usd) \<Rightarrow> UserTx list \<Rightarrow> bool" where
  "statement_ok f [] = True"
| "statement_ok f (t # ts) =
     (tx_balance_after t = f (tx_user t) + tx_amount t
      \<and> statement_ok (f(tx_user t := tx_balance_after t)) ts)"

definition books_ok :: "(nat \<Rightarrow> usd option) \<Rightarrow> BillDb \<Rightarrow> bool" where
  "books_ok opening db \<longleftrightarrow>
     (\<forall>uid. bill_balance db uid = map_option (\<lambda>o'. o' + user_sum (bl_txs db) uid) (opening uid))
     \<and> (\<forall>uid b. bill_balance db uid = Some b \<longrightarrow> grid 6 b)
     \<and> statement_ok (\<lambda>uid. case opening uid of None \<Rightarrow> 0 | Some o' \<Rightarrow> o') (bl_txs db)"

definition solvent :: "BillDb \<Rightarrow> bool" where
  "solvent db \<longleftrightarrow> (\<forall>uid b. bill_balance db uid = Some b \<longrightarrow> 0 \<le> b)"

lemma user_sum_append [simp]:
  "user_sum (ts @ [t]) uid = user_sum ts uid + (if tx_user t = uid then tx_amount t else 0)"
  by (simp add: user_sum_def)

lemma user_sum_Cons [simp]:
  "user_sum (t # ts) uid = (if tx_user t = uid then tx_amount t else 0) + user_sum ts uid"
  by (simp add: user_sum_def)

lemma user_sum_Nil [simp]: "user_sum [] uid = 0"
  by (simp add: user_sum_def)

lemma statement_append:
  "statement_ok f (ts @ [t]) \<longleftrightarrow>
     statement_ok f ts \<and> tx_balance_after t = f (tx_user t) + user_sum ts (tx_user t) + tx_amount t"
  by (induction ts arbitrary: f) auto

lemma bill_balance_change [simp]:
  "bill_balance (change_user uid f db) i =
     (if i = uid then map_option (\<lambda>u. u_balance (f u)) (bl_users db uid) else bill_balance db i)"
  by (simp add: bill_balance_def change_user_def option.map_comp comp_def)

lemma change_user_sel [simp]:
  "bl_txs (change_user uid f db) = bl_txs db" "bl_sessions (change_user uid f db) = bl_sessions db"
  "bl_stripe (change_user uid f db) = bl_stripe db" "bl_pool (change_user uid f db) = bl_pool db"
  by (simp_all add: change_user_def)

lemma bill_balance_other [simp]:
  "bill_balance (db\<lparr>bl_txs := t\<rparr>) = bill_balance db" "bill_balance (db\<lparr>bl_sessions := s\<rparr>) = bill_balance db"
  "bill_balance (db\<lparr>bl_stripe := e\<rparr>) = bill_balance db"
  by (simp_all add: bill_balance_def fun_eq_iff)

lemma to_column_exact:
  assumes "grid 6 v" and "to_column v = Some r"
  shows "r = v"
proof -
  obtain k :: int where k: "v = of_int k / 10 ^ 6" using assms(1) by (rule gridE)
  have "\<lfloor>(of_int j :: rat) + 1 / 2\<rfloor> = j" for j by (simp add: floor_eq_iff)
  from this [of k] this [of "- k"] have "\<lfloor>v * 10 ^ 6 + 1 / 2\<rfloor> = k" "\<lfloor>- v * 10 ^ 6 + 1 / 2\<rfloor> = - k"
    by (simp_all add: k)
  then show ?thesis using assms(2) by (auto simp: to_column_def Let_def k split: if_splits)
qed

text \<open>A movement of a whole number of millionths, as the ledger and the balance show it.\<close>

lemma post_tx_books:
  assumes D: "decimal_laws D" and books: "books_ok opening db" and b: "bill_balance db (tx_user row) = Some b"
    and g: "grid 6 (tx_amount row)" and after: "tx_balance_after row = dec_round D (b + tx_amount row) 6"
    and p: "post_tx row db = Inr db'"
  shows "books_ok opening db'" and "tx_balance_after row = b + tx_amount row"
    and "bill_balance db' = (bill_balance db)(tx_user row \<mapsto> b + tx_amount row)"
    and "bl_txs db' = bl_txs db @ [row]" and "bl_sessions db' = bl_sessions db"
    and "bl_stripe db' = bl_stripe db" and "bl_pool db' = bl_pool db"
proof -
  have gb: "grid 6 b" using books b by (simp add: books_ok_def)
  show a: "tx_balance_after row = b + tx_amount row"
    using dec_round_exact [OF D grid_add [OF gb g]] after by simp
  have ga: "grid 6 (tx_balance_after row)" unfolding a by (rule grid_add [OF gb g])
  have db': "db' = (change_user (tx_user row) (\<lambda>u. u\<lparr>u_balance := tx_balance_after row\<rparr>) db)
      \<lparr>bl_txs := bl_txs db @ [row]\<rparr>"
    using p to_column_exact [OF ga] to_column_exact [OF g]
    by (auto simp: post_tx_def Let_def split: option.splits)
  from b obtain u where u: "bl_users db (tx_user row) = Some u" by (auto simp: bill_balance_def)
  then show bal: "bill_balance db' = (bill_balance db)(tx_user row \<mapsto> b + tx_amount row)"
    by (simp add: db' fun_eq_iff a)
  show txs: "bl_txs db' = bl_txs db @ [row]" "bl_sessions db' = bl_sessions db"
    "bl_stripe db' = bl_stripe db" "bl_pool db' = bl_pool db"
    by (simp_all add: db')
  from books b obtain o' where o': "opening (tx_user row) = Some o'" "b = o' + user_sum (bl_txs db) (tx_user row)"
    by (auto simp: books_ok_def)
  then show "books_ok opening db'"
    using books ga by (auto simp: books_ok_def bal txs statement_append a)
qed

text \<open>The row a movement writes.\<close>

lemma post_tx_row:
  assumes "post_tx row db = Inr db'"
  obtains a b where "to_column (tx_amount row) = Some a" "bl_stripe db' = bl_stripe db"
    "bl_txs db' = bl_txs db @ [row\<lparr>tx_balance_after := b, tx_amount := a\<rparr>]"
  using assms that by (auto simp: post_tx_def Let_def split: option.splits)

text \<open>What does not touch balances or the ledger.\<close>

lemma books_same:
  assumes "bill_balance db' = bill_balance db" and "bl_txs db' = bl_txs db"
  shows "books_ok opening db' = books_ok opening db" and "solvent db' = solvent db"
  by (simp_all add: books_ok_def solvent_def assms)

lemma change_user_books: "(\<And>u. u_balance (f u) = u_balance u) \<Longrightarrow> bill_balance (change_user uid f db) = bill_balance db"
  by (simp add: fun_eq_iff) (simp add: bill_balance_def)

lemma accumulate_usage_sel:
  assumes "accumulate_usage sid n a db = Inr db'"
  shows "bill_balance db' = bill_balance db" "bl_txs db' = bl_txs db" "bl_stripe db' = bl_stripe db"
    "bl_pool db' = bl_pool db" "bl_users db' = bl_users db"
  using assms by (auto simp: accumulate_usage_def split: option.splits if_splits)

text \<open>One operation: the books stay right, and amounts of the right sign keep everybody solvent.\<close>

lemma add_credits_books:
  assumes D: "decimal_laws D" and books: "books_ok opening db" and g: "grid 6 a"
    and run: "add_credits D uid a k d e db = Inr (nb, db')"
  shows "books_ok opening db'" and "0 \<le> a \<Longrightarrow> solvent db \<Longrightarrow> solvent db'"
    and "\<exists>b. bill_balance db uid = Some b \<and> nb = b + a \<and> bill_balance db' = (bill_balance db)(uid \<mapsto> b + a)"
proof -
  from run obtain b where b: "bill_balance db uid = Some b" by (auto simp: add_credits_def split: option.splits)
  let ?row = "\<lparr>tx_user = uid, tx_amount = a, tx_kind = k, tx_balance_after = dec_round D (b + a) 6,
    tx_description = d, tx_stripe_event = e, tx_feature = None, tx_session = None\<rparr>"
  have p: "post_tx ?row db = Inr db'" "nb = dec_round D (b + a) 6"
    using run b by (auto simp: add_credits_def Let_def split: sum.splits)
  note post = post_tx_books [OF D books _ _ _ p(1), of b, simplified, OF b g]
  show "books_ok opening db'" by (rule post(1))
  show "solvent db'" if "0 \<le> a" "solvent db" using that b by (auto simp: post(3) solvent_def)
  show "\<exists>b. bill_balance db uid = Some b \<and> nb = b + a \<and> bill_balance db' = (bill_balance db)(uid \<mapsto> b + a)"
    using b post(2,3) p(2) by simp
qed

lemma stripe_books:
  assumes D: "decimal_laws D" and books: "books_ok opening db" and g: "grid 6 a"
    and run: "credit_from_stripe_event D e ty uid a d db = Inr (new, db')"
  shows "books_ok opening db'" and "0 \<le> a \<Longrightarrow> solvent db \<Longrightarrow> solvent db'"
proof -
  have "books_ok opening db' \<and> (0 \<le> a \<longrightarrow> solvent db \<longrightarrow> solvent db')"
  proof (cases "e \<in> set (map fst (bl_stripe db))")
    case True
    with run books show ?thesis by (auto simp: credit_from_stripe_event_def)
  next
    case False
    let ?db = "db\<lparr>bl_stripe := bl_stripe db @ [(e, ty)]\<rparr>"
    from False run obtain b where b: "bill_balance db uid = Some b"
      by (auto simp: credit_from_stripe_event_def split: option.splits)
    let ?row = "\<lparr>tx_user = uid, tx_amount = a, tx_kind = ''purchase'', tx_balance_after = dec_round D (b + a) 6,
      tx_description = Some d, tx_stripe_event = Some e, tx_feature = None, tx_session = None\<rparr>"
    have p: "post_tx ?row ?db = Inr db'"
      using False run b by (auto simp: credit_from_stripe_event_def Let_def split: sum.splits)
    have "books_ok opening ?db" "bill_balance ?db uid = Some b"
      using books_same [of ?db db] books b by simp_all
    note post = post_tx_books [OF D this(1) _ _ _ p, of b, simplified, OF b g]
    show ?thesis using post(1) b by (auto simp: post(3) solvent_def)
  qed
  then show "books_ok opening db'" "0 \<le> a \<Longrightarrow> solvent db \<Longrightarrow> solvent db'" by simp_all
qed

lemma deduct_usage_books:
  assumes D: "decimal_laws D" and books: "books_ok opening db" and g: "grid 6 a"
    and run: "deduct_usage D uid s n a db = Inr (nb, db')"
  shows "books_ok opening db'" and "solvent db \<Longrightarrow> solvent db'"
    and "\<exists>b. bill_balance db uid = Some b \<and> a \<le> b \<and> nb = b - a
           \<and> bill_balance db' = (bill_balance db)(uid \<mapsto> b - a)"
proof -
  from run obtain b where b: "bill_balance db uid = Some b" "a \<le> b"
    by (auto simp: deduct_usage_def split: option.splits if_splits)
  let ?row = "\<lparr>tx_user = uid, tx_amount = - a, tx_kind = ''usage'', tx_balance_after = dec_round D (b - a) 6,
    tx_description = Some ''Speaking time'', tx_stripe_event = None, tx_feature = None, tx_session = None\<rparr>"
  obtain db1 where p: "post_tx ?row db = Inr db1" "nb = dec_round D (b - a) 6"
    and s: "db' = db1 \<or> (\<exists>sid. accumulate_usage sid n a db1 = Inr db')"
    using run b by (auto simp: deduct_usage_def Let_def split: sum.splits option.splits)
  have g': "grid 6 (- a)" using grid_diff [of 6 0 a] grid_of_int_0 [of 6 0] g by simp
  note post = post_tx_books [OF D books _ _ _ p(1), of b, simplified, OF b(1) g']
  have same: "bill_balance db' = bill_balance db1" "bl_txs db' = bl_txs db1"
    using s accumulate_usage_sel by auto
  show "books_ok opening db'" using post(1) by (simp add: books_same(1) [OF same])
  show "solvent db'" if "solvent db" using that b by (auto simp: same post(3) solvent_def)
  show "\<exists>b. bill_balance db uid = Some b \<and> a \<le> b \<and> nb = b - a
           \<and> bill_balance db' = (bill_balance db)(uid \<mapsto> b - a)"
    using b post(2,3) p(2) by (simp add: same)
qed

lemma deduct_feature_books:
  assumes D: "decimal_laws D" and books: "books_ok opening db" and g: "grid 6 a"
    and run: "deduct_feature D uid s f a d db = Inr (nb, db')"
  shows "books_ok opening db'" and "solvent db \<Longrightarrow> solvent db'"
proof -
  from run obtain b where b: "bill_balance db uid = Some b" "a \<le> b"
    by (auto simp: deduct_feature_def split: option.splits if_splits)
  let ?row = "\<lparr>tx_user = uid, tx_amount = - a, tx_kind = f, tx_balance_after = dec_round D (b - a) 6,
    tx_description = Some d, tx_stripe_event = None, tx_feature = Some f, tx_session = s\<rparr>"
  have p: "post_tx ?row db = Inr db'"
    using run b by (auto simp: deduct_feature_def Let_def split: sum.splits)
  have g': "grid 6 (- a)" using grid_diff [of 6 0 a] grid_of_int_0 [of 6 0] g by simp
  note post = post_tx_books [OF D books _ _ _ p, of b, simplified, OF b(1) g']
  show "books_ok opening db'" by (rule post(1))
  show "solvent db'" if "solvent db" using that b by (auto simp: post(3) solvent_def)
qed

lemma webhook_books:
  assumes D: "decimal_laws D" and books: "books_ok opening db"
  shows "books_ok opening (snd (billing_webhook D P sig_ok body db))"
    and "op_nonneg D P (Payment sig_ok body) \<Longrightarrow> solvent db \<Longrightarrow> solvent (snd (billing_webhook D P sig_ok body db))"
proof -
  have g: "grid 6 (usd_of D (so_from_f64 P) c)" for c using D by (simp add: usd_of_def decimal_laws_def)
  show "books_ok opening (snd (billing_webhook D P sig_ok body db))"
    using books stripe_books(1) [OF D books g]
    by (auto simp: billing_webhook_def Let_def split: option.splits sum.splits)
  show "solvent (snd (billing_webhook D P sig_ok body db))" if "op_nonneg D P (Payment sig_ok body)" "solvent db"
    using that stripe_books(2) [OF D books g]
    by (auto simp: billing_webhook_def Let_def split: option.splits sum.splits)
qed

lemma user_step_books:
  assumes D: "decimal_laws D" and books: "books_ok opening db" and g: "op_on_grid x"
  shows "books_ok opening (user_step D P db x)"
    and "op_nonneg D P x \<Longrightarrow> solvent db \<Longrightarrow> solvent (user_step D P db x)"
proof -
  have "books_ok opening (user_step D P db x)
      \<and> (op_nonneg D P x \<longrightarrow> solvent db \<longrightarrow> solvent (user_step D P db x))"
  proof (cases x)
    case (Add_credits uid a k d)
    with books g add_credits_books [OF D books] show ?thesis by (auto split: sum.split)
  next
    case (Payment sig_ok body)
    with webhook_books [OF D books, of P sig_ok body] show ?thesis by simp
  next
    case (Use_seconds uid s n a)
    with books g deduct_usage_books [OF D books] show ?thesis by (auto split: sum.split)
  next
    case (Use_feature uid s f a d)
    with books g deduct_feature_books [OF D books] show ?thesis by (auto split: sum.split)
  next
    case (Open_usage uid r e sid)
    with books show ?thesis
      by (auto simp: create_session_def books_same [of "db\<lparr>bl_sessions := _\<rparr>" db] split: sum.split)
  next
    case (End_usage sid now)
    with books show ?thesis by (simp add: end_usage_session_def books_same [of "db\<lparr>bl_sessions := _\<rparr>" db])
  qed (use books in \<open>simp_all add: set_cartesia_voice_id_def set_tts_prefs_def set_language_def
    books_same [OF change_user_books]\<close>)
  then show "books_ok opening (user_step D P db x)"
    "op_nonneg D P x \<Longrightarrow> solvent db \<Longrightarrow> solvent (user_step D P db x)" by simp_all
qed

text \<open>
  C23: Every personal balance has its statement: whatever is bought, spent, adjusted, refused
  or failed, in whatever order, each account's balance is its opening balance plus the amounts
  of its ledger rows, every row shows the balance it left, and when no amount has the wrong
  sign nobody who was solvent is ever below zero.
\<close>

theorem personal_ledger_balances:
  assumes "decimal_laws D" and "books_ok opening db" and "\<forall>x \<in> set ops. op_on_grid x"
  shows "books_ok opening (foldl (user_step D P) db ops)
     \<and> ((\<forall>x \<in> set ops. op_nonneg D P x) \<and> solvent db \<longrightarrow> solvent (foldl (user_step D P) db ops))"
  using assms(2,3)
proof (induction ops arbitrary: db)
  case (Cons x ops)
  note step = user_step_books [OF assms(1) Cons.prems(1), of x P]
  from Cons.prems(2) have "op_on_grid x" "\<forall>x \<in> set ops. op_on_grid x" by simp_all
  with Cons.IH [OF step(1)] step(2) show ?case by simp
qed simp

section \<open>A payment is credited once\<close>

definition stripe_rows :: "BillDb \<Rightarrow> string \<Rightarrow> UserTx list" where
  "stripe_rows db e = filter (\<lambda>t. tx_stripe_event t = Some e) (bl_txs db)"

definition stripe_seen :: "BillDb \<Rightarrow> string \<Rightarrow> bool" where
  "stripe_seen db e \<longleftrightarrow> e \<in> set (map fst (bl_stripe db))"

definition stripe_ok :: "BillDb \<Rightarrow> bool" where
  "stripe_ok db \<longleftrightarrow> (\<forall>e. length (stripe_rows db e) = (if stripe_seen db e then 1 else 0))"

text \<open>What one operation can do to the payments.\<close>

definition no_payment :: "BillDb \<Rightarrow> BillDb \<Rightarrow> bool" where
  "no_payment db db' \<longleftrightarrow> bl_stripe db' = bl_stripe db \<and> (\<forall>e. stripe_rows db' e = stripe_rows db e)"

definition one_payment :: "string \<Rightarrow> UserTx \<Rightarrow> BillDb \<Rightarrow> BillDb \<Rightarrow> bool" where
  "one_payment e row db db' \<longleftrightarrow> \<not> stripe_seen db e \<and> tx_stripe_event row = Some e
     \<and> (\<exists>ty. bl_stripe db' = bl_stripe db @ [(e, ty)]) \<and> bl_txs db' = bl_txs db @ [row]"

lemma no_payment_same: "bl_txs db' = bl_txs db \<Longrightarrow> bl_stripe db' = bl_stripe db \<Longrightarrow> no_payment db db'"
  by (simp add: no_payment_def stripe_rows_def)

lemma post_no_payment:
  assumes "post_tx row db = Inr db'" and "tx_stripe_event row = None"
  shows "no_payment db db'"
  using assms by (auto simp: no_payment_def stripe_rows_def elim!: post_tx_row)

lemma credit_payment:
  assumes D: "decimal_laws D" and g: "grid 6 a"
    and run: "credit_from_stripe_event D e ty uid a d db = Inr (new, db')"
  shows "if stripe_seen db e then db' = db
     else \<exists>row. one_payment e row db db' \<and> tx_user row = uid \<and> tx_amount row = a"
proof (cases "stripe_seen db e")
  case True
  with run show ?thesis by (simp add: credit_from_stripe_event_def stripe_seen_def)
next
  case False
  let ?db = "db\<lparr>bl_stripe := bl_stripe db @ [(e, ty)]\<rparr>"
  from False run obtain b where b: "bill_balance db uid = Some b"
    by (auto simp: credit_from_stripe_event_def stripe_seen_def split: option.splits)
  have p: "post_tx \<lparr>tx_user = uid, tx_amount = a, tx_kind = ''purchase'', tx_balance_after = dec_round D (b + a) 6,
      tx_description = Some d, tx_stripe_event = Some e, tx_feature = None, tx_session = None\<rparr> ?db = Inr db'"
    using False run b
    by (auto simp: credit_from_stripe_event_def stripe_seen_def Let_def split: sum.splits)
  then show ?thesis
    using False to_column_exact [OF g] by (auto simp: one_payment_def elim!: post_tx_row)
qed

lemma webhook_payment:
  assumes D: "decimal_laws D"
  shows "no_payment db (snd (billing_webhook D P sig_ok body db))
     \<or> (\<exists>e row. one_payment e row db (snd (billing_webhook D P sig_ok body db)))"
proof -
  have g: "grid 6 (usd_of D (so_from_f64 P) c)" for c using D by (simp add: usd_of_def decimal_laws_def)
  have "no_payment db db" by (simp add: no_payment_def)
  moreover have "no_payment db db' \<or> (\<exists>e row. one_payment e row db db')"
    if "credit_from_stripe_event D e ty uid (usd_of D (so_from_f64 P) c) d db = Inr (new, db')"
    for e ty uid c d new db'
    using credit_payment [OF D g that] \<open>no_payment db db\<close> by (auto split: if_splits)
  ultimately show ?thesis
    by (auto simp: billing_webhook_def Let_def split: option.splits sum.splits)
qed

lemma user_step_payment:
  assumes D: "decimal_laws D"
  shows "no_payment db (user_step D P db x) \<or> (\<exists>e row. one_payment e row db (user_step D P db x))"
proof (cases x)
  case (Payment sig_ok body)
  with webhook_payment [OF D, of db P sig_ok body] show ?thesis by simp
next
  case (Add_credits uid a k d)
  then show ?thesis
    by (auto simp: add_credits_def Let_def no_payment_same intro!: disjI1 post_no_payment split: sum.splits option.splits)
next
  case (Use_seconds uid s n a)
  have "no_payment db db'" if "deduct_usage D uid s n a db = Inr (nb, db')" for nb db'
  proof -
    have "no_payment db db'" if "no_payment db db1" "accumulate_usage sid n a db1 = Inr db'" for db1 sid
      using that accumulate_usage_sel [OF that(2)] by (auto simp: no_payment_def stripe_rows_def)
    with that show ?thesis
      by (auto simp: deduct_usage_def Let_def dest!: post_no_payment split: sum.splits option.splits if_splits)
  qed
  with Use_seconds show ?thesis by (auto simp: no_payment_same split: sum.splits)
next
  case (Use_feature uid s f a d)
  then show ?thesis
    by (auto simp: deduct_feature_def Let_def no_payment_same intro!: disjI1 post_no_payment split: sum.splits option.splits)
qed (auto simp: create_session_def end_usage_session_def set_cartesia_voice_id_def set_tts_prefs_def
  set_language_def no_payment_same)

lemma stripe_ok_unseen: "stripe_ok db \<Longrightarrow> \<not> stripe_seen db e \<Longrightarrow> stripe_rows db e = []"
  unfolding stripe_ok_def by (metis length_0_conv)

lemma no_payment_sel:
  assumes "no_payment db db'"
  shows "stripe_ok db' = stripe_ok db" "stripe_seen db' e = stripe_seen db e" "stripe_rows db' e = stripe_rows db e"
  using assms by (simp_all add: no_payment_def stripe_ok_def stripe_seen_def)

lemma one_payment_sel:
  assumes "one_payment e row db db'"
  shows "stripe_rows db' k = stripe_rows db k @ (if k = e then [row] else [])"
    and "stripe_seen db' k = (stripe_seen db k \<or> k = e)" and "stripe_ok db \<Longrightarrow> stripe_ok db'"
    and "\<not> stripe_seen db e"
proof -
  show rows: "stripe_rows db' k = stripe_rows db k @ (if k = e then [row] else [])" for k
    using assms by (auto simp: one_payment_def stripe_rows_def)
  show seen: "stripe_seen db' k = (stripe_seen db k \<or> k = e)" for k
    using assms by (auto simp: one_payment_def stripe_seen_def)
  show new: "\<not> stripe_seen db e" using assms by (simp add: one_payment_def)
  show "stripe_ok db'" if "stripe_ok db"
    using that new stripe_ok_unseen [OF that new] by (auto simp: stripe_ok_def rows seen)
qed

lemma stripe_seen_run:
  assumes D: "decimal_laws D" and ok: "stripe_ok db"
  shows "stripe_ok (foldl (user_step D P) db ops)"
    and "stripe_seen db e \<Longrightarrow> stripe_rows (foldl (user_step D P) db ops) e = stripe_rows db e"
proof -
  have "stripe_ok (foldl (user_step D P) db ops)
      \<and> (stripe_seen db e \<longrightarrow> stripe_rows (foldl (user_step D P) db ops) e = stripe_rows db e)"
    using ok
  proof (induction ops arbitrary: db)
    case (Cons x ops)
    let ?db = "user_step D P db x"
    have "stripe_ok ?db \<and> (stripe_seen db e \<longrightarrow> stripe_seen ?db e \<and> stripe_rows ?db e = stripe_rows db e)"
      using user_step_payment [OF D, of db P x]
    proof (elim disjE exE)
      assume "no_payment db ?db"
      with Cons.prems show ?thesis by (simp add: no_payment_sel)
    next
      fix k row
      assume one: "one_payment k row db ?db"
      with Cons.prems one_payment_sel(4) [OF one] show ?thesis
        by (auto simp: one_payment_sel(1,2) [OF one] one_payment_sel(3) [OF one])
    qed
    with Cons.IH [of ?db] show ?case by auto
  qed simp
  then show "stripe_ok (foldl (user_step D P) db ops)"
    "stripe_seen db e \<Longrightarrow> stripe_rows (foldl (user_step D P) db ops) e = stripe_rows db e" by simp_all
qed

text \<open>A delivery of a purchase, over tables in which an event is seen exactly if it has its one row.\<close>

lemma purchase_delivered:
  assumes D: "decimal_laws D" and ok: "stripe_ok mid"
    and ev: "is_checkout ev" "se_payment_status ev = Some ''paid''" "se_id ev = Some e" "e \<noteq> []"
    and what: "purchase_of P ev = Some (uid, cr)"
    and answer: "billing_webhook D P True (Some ev) mid = (status, mid')"
  shows "if status = 200
     then stripe_seen mid' e \<and> (\<exists>row. stripe_rows mid' e = [row]
        \<and> (\<not> stripe_seen mid e \<longrightarrow> tx_user row = uid \<and> tx_amount row = usd_of D (so_from_f64 P) cr))
     else mid' = mid"
proof -
  have ok': "stripe_ok mid'"
    using stripe_seen_run(1) [OF D ok, of P "[Payment True (Some ev)]"] answer by simp
  have g: "grid 6 (usd_of D (so_from_f64 P) cr)" using D by (simp add: usd_of_def decimal_laws_def)
  let ?credit = "credit_from_stripe_event D e (text_or_empty (se_type ev)) uid (usd_of D (so_from_f64 P) cr)
    (''Purchase: '' @ (case se_package ev of None \<Rightarrow> ''credits'' | Some p \<Rightarrow> p)) mid"
  from answer ev what have r: "(case ?credit of Inl _ \<Rightarrow> (500, mid) | Inr (_, x) \<Rightarrow> (200, x)) = (status, mid')"
    by (simp add: billing_webhook_def text_or_empty_def)
  show ?thesis
  proof (cases ?credit)
    case (Inl err)
    with r show ?thesis by auto
  next
    case (Inr res)
    with r obtain new where c: "?credit = Inr (new, mid')" and s: "status = 200" by (cases res) auto
    note pay = credit_payment [OF D g c]
    have seen: "stripe_seen mid' e" using pay by (auto simp: one_payment_def stripe_seen_def split: if_splits)
    show ?thesis
    proof (cases "stripe_seen mid e")
      case True
      then have "length (stripe_rows mid' e) = 1" using ok' seen by (simp add: stripe_ok_def)
      with True s seen show ?thesis by (cases "stripe_rows mid' e") auto
    next
      case False
      then obtain row where "one_payment e row mid mid'" "tx_user row = uid"
        "tx_amount row = usd_of D (so_from_f64 P) cr" using pay by auto
      with False s seen show ?thesis
        using one_payment_sel(1) [of e row mid mid' e] stripe_ok_unseen [OF ok False] by simp
    qed
  qed
qed

text \<open>
  C19: A payment is credited once. In a run of any operations from tables in which an event counts as
  seen exactly if it has its one ledger row, take a correctly signed delivery of a paid checkout with an
  event identifier. If its metadata name a user and a positive number of credits and it is answered
  with 200, the event has exactly one ledger row to the end of the run, with this delivery's user and
  amount when no earlier delivery of the event got there; if it is answered otherwise it changes nothing,
  so the event is as open to a redelivery as it was. A checkout whose metadata do not name a purchase
  is answered with 200 as well, and then nothing is credited and no row is left.
\<close>

theorem payment_credited_once:
  assumes D: "decimal_laws D" and ok: "stripe_ok db"
    and ev: "is_checkout ev" "se_payment_status ev = Some ''paid''" "se_id ev = Some e" "e \<noteq> []"
    and before_run: "mid = foldl (user_step D P) db xs"
    and answer: "billing_webhook D P True (Some ev) mid = (status, mid')"
    and after_run: "db' = foldl (user_step D P) db (xs @ Payment True (Some ev) # ys)"
  shows "case purchase_of P ev of
       None \<Rightarrow> status = 200 \<and> mid' = mid
     | Some (uid, cr) \<Rightarrow>
         if status = 200
         then \<exists>row. stripe_rows db' e = [row]
            \<and> (\<not> stripe_seen mid e \<longrightarrow> tx_user row = uid \<and> tx_amount row = usd_of D (so_from_f64 P) cr)
         else mid' = mid"
proof (cases "purchase_of P ev")
  case None
  with answer ev show ?thesis by (simp add: billing_webhook_def text_or_empty_def)
next
  case (Some purchase)
  obtain uid cr where purchase: "purchase = (uid, cr)" by (cases purchase)
  have okm: "stripe_ok mid" unfolding before_run by (rule stripe_seen_run(1) [OF D ok])
  have ok': "stripe_ok mid'"
    using stripe_seen_run(1) [OF D okm, of P "[Payment True (Some ev)]"] answer by simp
  have "db' = foldl (user_step D P) mid' ys" using answer by (simp add: after_run before_run)
  then have "stripe_seen mid' e \<Longrightarrow> stripe_rows db' e = stripe_rows mid' e" using stripe_seen_run(2) [OF D ok'] by simp
  with purchase_delivered [OF D okm ev Some [unfolded purchase] answer] show ?thesis
    by (auto simp: Some purchase split: if_splits)
qed

section \<open>A user and a payment\<close>

definition sample_user :: User where
  "sample_user = \<lparr>u_balance = 5, u_avatar_url = None, u_cartesia_voice_id = None, u_tts_engine_pref = None,
     u_tts_voice_id = None, u_language = None\<rparr>"

definition sample_bill :: BillDb where
  "sample_bill = \<lparr>bl_users = [1 \<mapsto> sample_user], bl_txs = [], bl_sessions = Map.empty, bl_stripe = [],
     bl_pool = sample_db\<rparr>"

definition sample_ops :: "rat stripe_ops" where
  "sample_ops = \<lparr>so_uuid = (\<lambda>_. Some 1), so_parse_f64 = (\<lambda>_. Some 10), so_from_f64 = Some, so_positive = (\<lambda>x. 0 < x)\<rparr>"

definition sample_payment :: "rat StripeEvent" where
  "sample_payment = \<lparr>se_id = Some ''evt'', se_type = Some ''checkout.session.completed'',
     se_payment_status = Some ''paid'', se_user_id = Some ''u'', se_credits_text = Some ''10'',
     se_credits_number = None, se_package = None\<rparr>"

definition sample_day :: "rat user_op list" where
  "sample_day = [Open_usage 1 ''r'' ''standard'' 9, Use_seconds 1 (Some 9) 5 (1 / 100),
     Payment True (Some sample_payment), Payment True (Some sample_payment),
     Use_feature 1 None ''ai_report'' 2 ''report'', Use_seconds 1 (Some 9) 5 100, Set_language 1 (Some ''it'')]"

lemma sample_bill_ok: "books_ok [1 \<mapsto> 5] sample_bill" "solvent sample_bill" "stripe_ok sample_bill"
  by (auto simp: books_ok_def solvent_def sample_bill_def bill_balance_def sample_user_def
      stripe_ok_def stripe_rows_def stripe_seen_def grid_def)

lemma sample_day_ok: "list_all op_on_grid sample_day" "list_all (op_nonneg exact_decimal sample_ops) sample_day"
  by (simp_all add: sample_day_def sample_payment_def sample_ops_def purchase_of_def usd_of_def exact_decimal_def
      grid_def)

lemma rat_floor_numeral:
  "\<lfloor>numeral a / numeral b :: rat\<rfloor> = numeral a div numeral b" "\<lfloor>1 / numeral b :: rat\<rfloor> = 1 div numeral b"
  "\<lfloor>- (numeral a / numeral b) :: rat\<rfloor> = - numeral a div numeral b"
  using floor_divide_of_int_eq [of "numeral a" "numeral b", where 'a = rat]
    floor_divide_of_int_eq [of 1 "numeral b", where 'a = rat]
    floor_divide_of_int_eq [of "- numeral a" "numeral b", where 'a = rat] by simp_all

lemmas bill_eval = rat_floor_numeral sample_bill_def sample_user_def sample_payment_def sample_ops_def
  create_session_def deduct_usage_def post_tx_def accumulate_usage_def billing_webhook_def is_checkout_def
  purchase_of_def text_or_empty_def credit_from_stripe_event_def usd_of_def deduct_feature_def set_language_def
  change_user_def bill_balance_def to_column_def exact_decimal_def Let_def in_i32_def i32_min_def i32_max_def

lemma sample_day_end: "bill_balance (foldl (user_step exact_decimal sample_ops) sample_bill sample_day) 1 = Some (1299 / 100)"
  by (simp add: bill_eval sample_day_def)

theorem personal_ledger_balances_witness:
  "books_ok [1 \<mapsto> 5] (foldl (user_step exact_decimal sample_ops) sample_bill sample_day)
     \<and> solvent (foldl (user_step exact_decimal sample_ops) sample_bill sample_day)
     \<and> bill_balance (foldl (user_step exact_decimal sample_ops) sample_bill sample_day) 1 = Some (1299 / 100)"
proof -
  have "\<forall>x \<in> set sample_day. op_on_grid x" "\<forall>x \<in> set sample_day. op_nonneg exact_decimal sample_ops x"
    using sample_day_ok by (simp_all only: list_all_iff)
  with personal_ledger_balances [OF exact_decimal_laws sample_bill_ok(1), of sample_day sample_ops]
    sample_bill_ok(2) sample_day_end show ?thesis by blast
qed

lemma sample_payment_sel:
  "is_checkout sample_payment" "se_payment_status sample_payment = Some ''paid''" "se_id sample_payment = Some ''evt''"
  "purchase_of sample_ops sample_payment = Some (1, 10)"
  by (simp_all add: is_checkout_def sample_payment_def sample_ops_def purchase_of_def text_or_empty_def)

theorem payment_credited_once_witness:
  "length (stripe_rows (foldl (user_step exact_decimal sample_ops) sample_bill
     ([Open_usage 1 ''r'' ''standard'' 9] @ Payment True (Some sample_payment) #
      [Payment True (Some sample_payment), Payment False (Some sample_payment)])) ''evt'') = 1"
proof -
  let ?mid = "foldl (user_step exact_decimal sample_ops) sample_bill [Open_usage 1 ''r'' ''standard'' 9]"
  have s: "fst (billing_webhook exact_decimal sample_ops True (Some sample_payment) ?mid) = 200"
    by (simp add: bill_eval)
  from payment_credited_once [OF exact_decimal_laws sample_bill_ok(3) sample_payment_sel(1-3) _
      refl prod.collapse [symmetric] refl, of sample_ops "[Open_usage 1 ''r'' ''standard'' 9]"
      "[Payment True (Some sample_payment), Payment False (Some sample_payment)]", unfolded s sample_payment_sel(4)]
  show ?thesis by auto
qed

end
