(* ===== verification/Usage_Meter.thy ===== *)
theory Usage_Meter
  imports User_Billing Rooms
begin

text \<open>
  The meters of live translation, \<^verbatim>\<open>server/src/usage.rs\<close>: the paid meter, which charges a
  person or the sponsoring organisation for every interval, the guests' time cap, and the
  per-address counters of \<^verbatim>\<open>server/src/lib.rs\<close> that the cap counts on. A meter is a task: its
  timer's ticks and its cancellation are the events of a run.
\<close>

section \<open>Who pays and for what\<close>

datatype MeterScope = Speaker_pays string string bool | Listener_pays string

datatype Payer = Pay_user nat nat | Pay_org nat "nat option"

record 'f MeterConfig =
  mc_interval_secs :: nat
  mc_rate_per_second :: 'f
  mc_low_balance :: 'f
  mc_has_rooms :: bool
  mc_room :: string
  mc_scope :: MeterScope

text \<open>
  Floating point arithmetic and the library's conversions: the product rate times interval times
  streams as an exact decimal, a balance as a float, and \<open><\<close>.
\<close>

record 'f meter_ops =
  mo_cost :: "'f \<Rightarrow> nat \<Rightarrow> nat \<Rightarrow> rat option"
  mo_of_decimal :: "usd \<Rightarrow> 'f"
  mo_less :: "'f \<Rightarrow> 'f \<Rightarrow> bool"

definition billable_streams :: "string list \<Rightarrow> string \<Rightarrow> bool \<Rightarrow> nat option" where
  "billable_streams targets speaker_lang scale_per_language =
     (let distinct_targets = length (filter (\<lambda>t. t \<noteq> speaker_lang) targets)
      in if distinct_targets = 0 then None
         else Some (if scale_per_language then distinct_targets else 1))"

definition guest_cap_secs :: "nat option \<Rightarrow> bool \<Rightarrow> bool \<Rightarrow> nat option" where
  "guest_cap_secs guest_max_minutes is_guest sponsored =
     (if \<not> is_guest \<or> sponsored then None
      else map_option (\<lambda>m. min (m * 60) (2 ^ 64 - 1)) guest_max_minutes)"

text \<open>The streams of this tick; \<open>None\<close> is a tick that is skipped.\<close>

definition meter_streams :: "'f MeterConfig \<Rightarrow> ('g, 'j) RoomManager \<Rightarrow> nat option" where
  "meter_streams cfg m =
     (if \<not> mc_has_rooms cfg then Some 1
      else case mc_scope cfg of
             Speaker_pays speaker_id speaker_lang scale \<Rightarrow>
               billable_streams (get_room_languages m (mc_room cfg) speaker_id) speaker_lang scale
           | Listener_pays listener_id \<Rightarrow>
               (case peer_lang m (mc_room cfg) listener_id of
                  None \<Rightarrow> None
                | Some lang \<Rightarrow>
                    (let n = active_source_count m (mc_room cfg) listener_id lang
                     in if n = 0 then None else Some n)))"

section \<open>The paid meter\<close>

datatype 'f MeterMsg = BalanceUpdate 'f | LowBalance 'f | BalanceExhausted

text \<open>The task's variables, what it sent to its peer, how often it signalled exhaustion, and
  whether it runs.\<close>

record 'f MeterRun =
  mr_warned_low :: bool
  mr_credits :: CreditAccumulator
  mr_out :: "'f MeterMsg list"
  mr_exhausted :: nat
  mr_running :: bool

definition meter_new :: "'f MeterRun" where
  "meter_new = \<lparr>mr_warned_low = False, mr_credits = \<lparr>carried_usd = 0\<rparr>, mr_out = [], mr_exhausted = 0,
     mr_running = True\<rparr>"

definition meter_interval :: "'f MeterConfig \<Rightarrow> nat" where
  "meter_interval cfg = max (mc_interval_secs cfg) 1"

definition tick_amount :: "decimal_ops \<Rightarrow> 'f meter_ops \<Rightarrow> 'f MeterConfig \<Rightarrow> nat \<Rightarrow> usd" where
  "tick_amount D F cfg streams =
     dec_round D (case mo_cost F (mc_rate_per_second cfg) (meter_interval cfg) streams of
                    None \<Rightarrow> 0 | Some v \<Rightarrow> v) 6"

definition exhaust :: "'f MeterRun \<Rightarrow> 'f MeterRun" where
  "exhaust m = m\<lparr>mr_out := mr_out m @ [BalanceExhausted], mr_exhausted := Suc (mr_exhausted m),
     mr_running := False\<rparr>"

definition charged_user :: "'f meter_ops \<Rightarrow> 'f MeterConfig \<Rightarrow> usd \<Rightarrow> 'f MeterRun \<Rightarrow> 'f MeterRun" where
  "charged_user F cfg balance m =
     (let bal = mo_of_decimal F balance;
          m1 = m\<lparr>mr_out := mr_out m @ [BalanceUpdate bal]\<rparr>
      in if \<not> mr_warned_low m1 \<and> mo_less F bal (mc_low_balance cfg)
         then m1\<lparr>mr_warned_low := True, mr_out := mr_out m1 @ [LowBalance bal]\<rparr>
         else m1)"

text \<open>\<open>fault\<close> is the error of a query that fails, which drops its transaction.\<close>

definition meter_charge ::
  "decimal_ops \<Rightarrow> 'f meter_ops \<Rightarrow> Payer \<Rightarrow> 'f MeterConfig \<Rightarrow> db_error option \<Rightarrow> usd \<Rightarrow> 'f MeterRun \<Rightarrow> BillDb
     \<Rightarrow> 'f MeterRun \<times> BillDb" where
  "meter_charge D F payer cfg fault amount m db =
     (case payer of
        Pay_user uid session \<Rightarrow>
          (case (case fault of
                   Some e \<Rightarrow> Inl (Db e)
                 | None \<Rightarrow> deduct_usage D uid (Some session) (wrap_i32 (int (meter_interval cfg))) amount db) of
             Inr (balance, db') \<Rightarrow> (charged_user F cfg balance m, db')
           | Inl InsufficientFunds \<Rightarrow> (exhaust m, db)
           | Inl (Db _) \<Rightarrow> (m\<lparr>mr_running := False\<rparr>, db))
      | Pay_org org session \<Rightarrow>
          (let (credits, acc) = accumulator_take D (mr_credits m) amount;
               m1 = m\<lparr>mr_credits := acc\<rparr>
           in if credits = 0 then (m1, db)
              else case (case fault of
                           Some e \<Rightarrow> Inl e
                         | None \<Rightarrow> deduct_org_credits (bl_pool db) org credits ''call_translation'' session
                                     None ''Sponsored call translation'') of
                     Inr (Charged _, pool) \<Rightarrow> (m1, db\<lparr>bl_pool := pool\<rparr>)
                   | Inr (Insufficient _ _, _) \<Rightarrow> (exhaust m1, db)
                   | Inl _ \<Rightarrow> (m1\<lparr>mr_running := False\<rparr>, db)))"

datatype ('g, 'j) meter_event =
  Meter_tick "db_error option" "('g, 'j) RoomManager"
| Meter_cancel

text \<open>\<open>run_usage_meter\<close>: what remains after the loop has ended is not heard.\<close>

fun usage_meter_run ::
  "decimal_ops \<Rightarrow> 'f meter_ops \<Rightarrow> Payer \<Rightarrow> 'f MeterConfig \<Rightarrow> ('g, 'j) meter_event list \<Rightarrow> 'f MeterRun \<Rightarrow> BillDb
     \<Rightarrow> 'f MeterRun \<times> BillDb" where
  "usage_meter_run D F payer cfg [] m db = (m, db)"
| "usage_meter_run D F payer cfg (Meter_cancel # es) m db =
     (if mr_running m then usage_meter_run D F payer cfg es (m\<lparr>mr_running := False\<rparr>) db else (m, db))"
| "usage_meter_run D F payer cfg (Meter_tick fault room # es) m db =
     (if mr_running m
      then (case meter_streams cfg room of
              None \<Rightarrow> usage_meter_run D F payer cfg es m db
            | Some streams \<Rightarrow>
                (let (m1, db1) = meter_charge D F payer cfg fault (tick_amount D F cfg streams) m db
                 in usage_meter_run D F payer cfg es m1 db1))
      else (m, db))"

section \<open>The guests' cap\<close>

text \<open>A tick of a guest's meter on the shared counter: whether the cap is reached.\<close>

definition guest_tick :: "nat \<Rightarrow> nat \<Rightarrow> nat \<Rightarrow> bool \<times> nat" where
  "guest_tick cap interval_secs spent =
     (let interval = max interval_secs 1; total = (spent + interval) mod 2 ^ 64
      in (cap \<le> total, total))"

text \<open>
  Guests' meters that share a counter, by number: each can tick or be cancelled while it runs.
  The result is the counter, the meters that run and those that signalled exhaustion.
\<close>

datatype guest_event = Guest_starts nat | Guest_ticks nat | Guest_cancelled nat

record GuestCap =
  gc_spent :: nat
  gc_running :: "nat list"
  gc_stopped :: "nat list"

definition guest_step :: "nat \<Rightarrow> nat \<Rightarrow> GuestCap \<Rightarrow> guest_event \<Rightarrow> GuestCap" where
  "guest_step cap interval_secs g e =
     (case e of
        Guest_starts i \<Rightarrow> g\<lparr>gc_running := i # gc_running g\<rparr>
      | Guest_cancelled i \<Rightarrow> g\<lparr>gc_running := remove1 i (gc_running g)\<rparr>
      | Guest_ticks i \<Rightarrow>
          if i \<in> set (gc_running g)
          then let (reached, total) = guest_tick cap interval_secs (gc_spent g)
               in if reached
                  then g\<lparr>gc_spent := total, gc_running := remove1 i (gc_running g), gc_stopped := i # gc_stopped g\<rparr>
                  else g\<lparr>gc_spent := total\<rparr>
          else g)"

definition GUEST_USAGE_WINDOW :: int where "GUEST_USAGE_WINDOW = 3600"

text \<open>The counters by address: an entry is the number of its counter and the start of its window.\<close>

record GuestUsage =
  gu_by_ip :: "(string, nat \<times> int) kmap"
  gu_next :: nat

definition guest_counter :: "string \<Rightarrow> int \<Rightarrow> GuestUsage \<Rightarrow> nat \<times> GuestUsage" where
  "guest_counter ip now u =
     (let by_ip = (if length (gu_by_ip u) > 10000
                   then retain_entries (\<lambda>_ (_, start). now - start \<le> GUEST_USAGE_WINDOW) (gu_by_ip u)
                   else gu_by_ip u);
          fresh = gu_next u
      in case map_of by_ip ip of
           Some (c, start) \<Rightarrow>
             if now - start > GUEST_USAGE_WINDOW
             then (fresh, \<lparr>gu_by_ip = AList.update ip (fresh, now) by_ip, gu_next = Suc fresh\<rparr>)
             else (c, u\<lparr>gu_by_ip := by_ip\<rparr>)
         | None \<Rightarrow> (fresh, \<lparr>gu_by_ip = AList.update ip (fresh, now) by_ip, gu_next = Suc fresh\<rparr>))"

section \<open>What a person pays\<close>

text \<open>The costs of a run's ticks, and the part of them that a balance can pay.\<close>

definition tick_costs ::
  "decimal_ops \<Rightarrow> 'f meter_ops \<Rightarrow> 'f MeterConfig \<Rightarrow> ('g, 'j) RoomManager list \<Rightarrow> usd list" where
  "tick_costs D F cfg ms = map (tick_amount D F cfg) (List.map_filter (meter_streams cfg) ms)"

text \<open>
  The ticks a meter gets through: those before it is cancelled and before a tick whose charge needs
  the database and fails there. \<open>asks s a\<close> tells whether a tick of cost \<open>a\<close> needs it when \<open>s\<close> is
  spent. A run is cut short if it has fewer of them than events.
\<close>

fun heard_ticks ::
  "decimal_ops \<Rightarrow> 'f meter_ops \<Rightarrow> (usd \<Rightarrow> usd \<Rightarrow> bool) \<Rightarrow> 'f MeterConfig \<Rightarrow> usd \<Rightarrow> ('g, 'j) meter_event list
     \<Rightarrow> ('g, 'j) RoomManager list" where
  "heard_ticks D F asks cfg s [] = []"
| "heard_ticks D F asks cfg s (Meter_cancel # es) = []"
| "heard_ticks D F asks cfg s (Meter_tick fault room # es) =
     (case meter_streams cfg room of
        None \<Rightarrow> room # heard_ticks D F asks cfg s es
      | Some n \<Rightarrow>
          if fault \<noteq> None \<and> asks s (tick_amount D F cfg n) then []
          else room # heard_ticks D F asks cfg (s + tick_amount D F cfg n) es)"

fun affordable :: "usd \<Rightarrow> usd list \<Rightarrow> usd list" where
  "affordable b [] = []"
| "affordable b (a # as) = (if b < a then [] else a # affordable (b - a) as)"

fun meter_messages :: "'f meter_ops \<Rightarrow> 'f \<Rightarrow> bool \<Rightarrow> usd \<Rightarrow> usd list \<Rightarrow> 'f MeterMsg list" where
  "meter_messages F low warned b [] = []"
| "meter_messages F low warned b (a # as) =
     (let bal = mo_of_decimal F (b - a)
      in if \<not> warned \<and> mo_less F bal low
         then BalanceUpdate bal # LowBalance bal # meter_messages F low True (b - a) as
         else BalanceUpdate bal # meter_messages F low warned (b - a) as)"

lemma tick_costs_simps [simp]:
  "tick_costs D F cfg [] = []"
  "tick_costs D F cfg (m # ms) = (case meter_streams cfg m of None \<Rightarrow> tick_costs D F cfg ms
     | Some n \<Rightarrow> tick_amount D F cfg n # tick_costs D F cfg ms)"
  by (simp_all add: tick_costs_def map_filter_simps split: option.split)

lemma affordable_prefix: "length (affordable b as) \<le> length as"
  by (induction as arbitrary: b) auto

lemma affordable_sum:
  "\<forall>a \<in> set as. 0 \<le> a \<Longrightarrow> 0 \<le> sum_list (affordable b as) \<and> sum_list (affordable b as) \<le> sum_list as"
proof (induction as arbitrary: b)
  case (Cons a as)
  from Cons.prems have "0 \<le> sum_list as" by (intro sum_list_nonneg) simp
  with Cons show ?case by simp
qed simp

lemma to_column_id:
  assumes "grid 6 v" and "\<bar>v\<bar> < 10 ^ 4"
  shows "to_column v = Some v"
proof -
  have "to_column v \<noteq> None \<longleftrightarrow> \<bar>v\<bar> < 10 ^ 4"
  proof -
    obtain k :: int where k: "v = of_int k / 10 ^ 6" using assms(1) by (rule gridE)
    have "\<lfloor>(of_int j :: rat) + 1 / 2\<rfloor> = j" for j by (simp add: floor_eq_iff)
    from this [of k] this [of "- k"] have f: "\<lfloor>v * 10 ^ 6 + 1 / 2\<rfloor> = k" "\<lfloor>- v * 10 ^ 6 + 1 / 2\<rfloor> = - k"
      by (simp_all add: k)
    have "(if v < 0 then - of_int \<lfloor>- v * 10 ^ 6 + 1 / 2\<rfloor> else of_int \<lfloor>v * 10 ^ 6 + 1 / 2\<rfloor>) / 10 ^ 6 = v"
      unfolding f by (simp add: k)
    then show ?thesis unfolding to_column_def by simp
  qed
  with assms to_column_exact [OF assms(1)] show ?thesis by (cases "to_column v") auto
qed

lemma grid_minus: "grid n a \<Longrightarrow> grid n (- a)"
  using grid_diff [of n 0 a] grid_of_int_0 [of n 0] by simp

lemma deduct_usage_pays:
  assumes D: "decimal_laws D" and books: "books_ok opening db" and b: "bill_balance db uid = Some b" "b < 10 ^ 4"
    and a: "grid 6 a" "0 \<le> a" "a \<le> b" and s: "bl_sessions db sid = Some s" "grid 6 (us_cost s)" "0 \<le> us_cost s"
      "us_cost s + a < 10 ^ 4" "in_i32 (us_speaking_seconds s + n)"
  shows "\<exists>db'. deduct_usage D uid (Some sid) n a db = Inr (b - a, db') \<and> books_ok opening db'
     \<and> bill_balance db' = (bill_balance db)(uid \<mapsto> b - a)
     \<and> bl_sessions db' = (bl_sessions db)(sid \<mapsto>
          s\<lparr>us_speaking_seconds := us_speaking_seconds s + n, us_cost := us_cost s + a\<rparr>)"
proof -
  have gb: "grid 6 b" using books b by (simp add: books_ok_def)
  have r: "dec_round D (b - a) 6 = b - a" by (rule dec_round_exact [OF D grid_diff [OF gb a(1)]])
  have c: "to_column (b - a) = Some (b - a)" "to_column (- a) = Some (- a)"
    "to_column (us_cost s + a) = Some (us_cost s + a)"
    using a b s by (auto intro!: to_column_id grid_diff grid_add grid_minus gb)
  have "\<exists>db'. deduct_usage D uid (Some sid) n a db = Inr (b - a, db')
     \<and> bl_sessions db' = (bl_sessions db)(sid \<mapsto>
          s\<lparr>us_speaking_seconds := us_speaking_seconds s + n, us_cost := us_cost s + a\<rparr>)"
    using b(1) a(3) s by (simp add: deduct_usage_def r post_tx_def c accumulate_usage_def Let_def)
  then show ?thesis
    using deduct_usage_books [OF D books a(1)] b(1) by fastforce
qed

text \<open>Ticks of which no query fails.\<close>

lemma affordable_run:
  assumes D: "decimal_laws D" and books: "books_ok opening db"
    and b: "bill_balance db uid = Some b" "b < 10 ^ 4"
    and s: "bl_sessions db sid = Some s" "grid 6 (us_cost s)" "0 \<le> us_cost s" "0 \<le> us_speaking_seconds s"
    and costs: "costs = tick_costs D F cfg ms" "\<forall>a \<in> set costs. 0 \<le> a" "us_cost s + sum_list costs < 10 ^ 4"
    and secs: "us_speaking_seconds s + int (length costs * meter_interval cfg) \<le> i32_max"
    and paid: "paid = affordable b costs"
    and run: "usage_meter_run D F (Pay_user uid sid) cfg (map (Meter_tick None) ms) m db = (m', db')"
    and m: "mr_running m"
  shows "bill_balance db' = (bill_balance db)(uid \<mapsto> b - sum_list paid)
     \<and> (\<exists>s'. bl_sessions db' sid = Some s' \<and> us_cost s' = us_cost s + sum_list paid
          \<and> us_speaking_seconds s' = us_speaking_seconds s + int (length paid * meter_interval cfg))
     \<and> mr_out m' = mr_out m @ meter_messages F (mc_low_balance cfg) (mr_warned_low m) b paid
                     @ (if paid = costs then [] else [BalanceExhausted])
     \<and> mr_exhausted m' = mr_exhausted m + (if paid = costs then 0 else 1)
     \<and> mr_running m' = (paid = costs) \<and> books_ok opening db'"
  using books b s costs secs paid run m
proof (induction ms arbitrary: db b s m costs paid)
  case Nil
  then show ?case by (auto simp: fun_eq_iff)
next
  case (Cons r ms)
  show ?case
  proof (cases "meter_streams cfg r")
    case None
    with Cons.prems show ?thesis by (intro Cons.IH) simp_all
  next
    case (Some n)
    let ?a = "tick_amount D F cfg n" and ?i = "int (meter_interval cfg)" and ?rest = "tick_costs D F cfg ms"
    have costs: "costs = ?a # ?rest" using Cons.prems(8) Some by simp
    have rest0: "\<forall>a \<in> set ?rest. 0 \<le> a" "0 \<le> ?a" "0 \<le> sum_list ?rest"
      using Cons.prems(9) by (auto simp: costs intro: sum_list_nonneg)
    show ?thesis
    proof (cases "b < ?a")
      case True
      then have p: "paid = []" using Cons.prems(12) by (simp add: costs)
      have "usage_meter_run D F (Pay_user uid sid) cfg (map (Meter_tick None) ms) (exhaust m) db = (exhaust m, db)"
        by (cases ms) (simp_all add: exhaust_def)
      then have "m' = exhaust m" "db' = db"
        using Cons.prems(2,13,14) True Some by (simp_all add: meter_charge_def deduct_usage_def)
      then show ?thesis
        using Cons.prems(1,2,4) by (auto simp: p costs exhaust_def fun_eq_iff)
    next
      case False
      have "us_speaking_seconds s + (?i + int (length ?rest * meter_interval cfg)) \<le> i32_max"
        using Cons.prems(11) by (simp add: costs algebra_simps)
      then have "us_speaking_seconds s + ?i \<le> i32_max" by linarith
      with Cons.prems(7) have i: "0 \<le> ?i" "?i \<le> i32_max" "in_i32 (us_speaking_seconds s + ?i)"
        by (auto intro: in_i32_nonneg)
      then have w: "wrap_i32 ?i = ?i" by (intro wrap_i32_id in_i32_nonneg)
      have g: "grid 6 ?a" using D by (simp add: tick_amount_def decimal_laws_def)
      have c: "us_cost s + ?a < 10 ^ 4" using Cons.prems(10) rest0(3) by (simp add: costs)
      obtain db1 where d: "deduct_usage D uid (Some sid) ?i ?a db = Inr (b - ?a, db1)" "books_ok opening db1"
        "bill_balance db1 = (bill_balance db)(uid \<mapsto> b - ?a)"
        "bl_sessions db1 = (bl_sessions db)(sid \<mapsto>
          s\<lparr>us_speaking_seconds := us_speaking_seconds s + ?i, us_cost := us_cost s + ?a\<rparr>)"
        using deduct_usage_pays [OF D Cons.prems(1-3) g rest0(2) _ Cons.prems(4-6) c i(3)] False by auto
      let ?m = "charged_user F cfg (b - ?a) m"
      have run: "usage_meter_run D F (Pay_user uid sid) cfg (map (Meter_tick None) ms) ?m db1 = (m', db')"
        using Cons.prems(13,14) Some d(1) w by (simp add: meter_charge_def)
      have m: "mr_running ?m" "mr_exhausted ?m = mr_exhausted m"
        "mr_out ?m @ meter_messages F (mc_low_balance cfg) (mr_warned_low ?m) (b - ?a) xs =
           mr_out m @ meter_messages F (mc_low_balance cfg) (mr_warned_low m) b (?a # xs)" for xs
        using Cons.prems(14) by (simp_all add: charged_user_def Let_def)
      have paid: "paid = ?a # affordable (b - ?a) ?rest" using Cons.prems(12) False by (simp add: costs)
      let ?s = "s\<lparr>us_speaking_seconds := us_speaking_seconds s + ?i, us_cost := us_cost s + ?a\<rparr>"
      have pre: "bill_balance db1 uid = Some (b - ?a)" "b - ?a < 10 ^ 4" "bl_sessions db1 sid = Some ?s"
        "grid 6 (us_cost ?s)" "0 \<le> us_cost ?s" "0 \<le> us_speaking_seconds ?s" "us_cost ?s + sum_list ?rest < 10 ^ 4"
        "us_speaking_seconds ?s + int (length ?rest * meter_interval cfg) \<le> i32_max"
        using Cons.prems(3,5,6,7,10,11) rest0(2) d(3,4) by (simp_all add: costs grid_add g algebra_simps)
      from Cons.IH [OF d(2) pre(1-6) refl rest0(1) pre(7,8) refl run m(1)] m(2)
        m(3) [of "affordable (b - ?a) ?rest"] d(3)
      show ?thesis by (auto simp: costs paid algebra_simps simp del: meter_messages.simps append_assoc
          simp flip: append_assoc)
    qed
  qed
qed

lemma stopped_run: "\<not> mr_running m \<Longrightarrow> usage_meter_run D F payer cfg es m db = (m, db)"
  by (cases "(D, F, payer, cfg, es, m, db)" rule: usage_meter_run.cases) simp_all

lemma stop_ident: "\<not> mr_running m \<Longrightarrow> m\<lparr>mr_running := False\<rparr> = m"
  by simp

text \<open>A cancelled or failing run of a person's meter is one that stops after the ticks it got through.\<close>

lemma user_heard:
  assumes "hs = heard_ticks D F (\<lambda>_ _. True) cfg s es"
    and "usage_meter_run D F (Pay_user uid sid) cfg (map (Meter_tick None) hs) m db = (m1, db1)"
  shows "usage_meter_run D F (Pay_user uid sid) cfg es m db =
     (if length hs = length es then m1 else m1\<lparr>mr_running := False\<rparr>, db1)"
  using assms
proof (induction es arbitrary: hs s m db)
  case Nil
  then show ?case by simp
next
  case (Cons e es)
  show ?case
  proof (cases "mr_running m")
    case False
    with Cons.prems(2) show ?thesis by (auto simp: stopped_run stop_ident)
  next
    case running: True
    show ?thesis
    proof (cases e)
      case Meter_cancel
      with Cons.prems running show ?thesis by (auto simp: stopped_run)
    next
      case (Meter_tick fault room)
      show ?thesis
      proof (cases "meter_streams cfg room")
        case None
        with Cons.prems running Meter_tick show ?thesis using Cons.IH [OF refl, of s m db] by simp
      next
        case (Some n)
        show ?thesis
        proof (cases fault)
          case (Some err)
          with Cons.prems running Meter_tick \<open>meter_streams cfg room = Some n\<close> show ?thesis
            by (auto simp: meter_charge_def stopped_run)
        next
          case None
          with Cons.prems running Meter_tick Some show ?thesis
            using Cons.IH [OF refl, of "s + tick_amount D F cfg n"] by (simp split: prod.splits)
        qed
      qed
    qed
  qed
qed

text \<open>
  C21: A person pays for what is translated and for nothing else. Over any ticks and cancellation, of
  which any query may fail, take the ticks the meter gets through: those before it is cancelled and
  before the first failing charge. It takes the cost of each of them that has something to translate,
  as long as the balance covers it, and the first that it does not cover ends it: exactly the sum is
  taken from the balance and added to the usage session, with the seconds of the paid ticks. The peer
  is told every balance, warned at most once, and told of exhaustion, together with the one signal that
  stops the audio, only when a tick was not covered; a failing charge or a cancellation ends the meter
  with neither charge nor signal, and otherwise it still runs. The books stay balanced and no other
  account changes. It is assumed that only this meter touches the user's balance and session in between,
  that the costs are not negative, and that balance and totals fit their columns.
\<close>

theorem meter_takes_affordable:
  assumes D: "decimal_laws D" and books: "books_ok opening db"
    and b: "bill_balance db uid = Some b" "b < 10 ^ 4"
    and s: "bl_sessions db sid = Some s" "grid 6 (us_cost s)" "0 \<le> us_cost s" "0 \<le> us_speaking_seconds s"
    and heard: "hs = heard_ticks D F (\<lambda>_ _. True) cfg 0 es"
    and costs: "costs = tick_costs D F cfg hs" "\<forall>a \<in> set costs. 0 \<le> a" "us_cost s + sum_list costs < 10 ^ 4"
    and secs: "us_speaking_seconds s + int (length costs * meter_interval cfg) \<le> i32_max"
    and paid: "paid = affordable b costs"
    and run: "usage_meter_run D F (Pay_user uid sid) cfg es m db = (m', db')"
    and m: "mr_running m"
  shows "bill_balance db' = (bill_balance db)(uid \<mapsto> b - sum_list paid)
     \<and> (\<exists>s'. bl_sessions db' sid = Some s' \<and> us_cost s' = us_cost s + sum_list paid
          \<and> us_speaking_seconds s' = us_speaking_seconds s + int (length paid * meter_interval cfg))
     \<and> mr_out m' = mr_out m @ meter_messages F (mc_low_balance cfg) (mr_warned_low m) b paid
                     @ (if paid = costs then [] else [BalanceExhausted])
     \<and> mr_exhausted m' = mr_exhausted m + (if paid = costs then 0 else 1)
     \<and> mr_running m' = (paid = costs \<and> length hs = length es) \<and> books_ok opening db'"
proof -
  obtain m1 db1 where r: "usage_meter_run D F (Pay_user uid sid) cfg (map (Meter_tick None) hs) m db = (m1, db1)"
    by fastforce
  have m': "m' = (if length hs = length es then m1 else m1\<lparr>mr_running := False\<rparr>)" "db' = db1"
    using user_heard [OF heard r] run by simp_all
  show ?thesis
    using affordable_run [OF D books b s costs secs paid r m] by (simp add: m')
qed

section \<open>What a sponsor pays\<close>

text \<open>The costs that a pool of \<open>B\<close> credits covers when \<open>s\<close> dollars are spent: whole credits, of a cent each.\<close>

fun whole_paid :: "int \<Rightarrow> usd \<Rightarrow> usd list \<Rightarrow> usd list" where
  "whole_paid B s [] = []"
| "whole_paid B s (a # as) = (if B < \<lfloor>(s + a) * 100\<rfloor> then [] else a # whole_paid B (s + a) as)"

lemma take_whole:
  assumes D: "decimal_laws D" and c: "carry_ok acc" "carried_usd acc = s - of_int \<lfloor>s * 100\<rfloor> / 100"
    and a: "grid 6 a" "0 \<le> a" "a < 10 ^ 6" and t: "accumulator_take D acc a = (k, acc')"
  shows "0 \<le> k" "k = \<lfloor>(s + a) * 100\<rfloor> - \<lfloor>s * 100\<rfloor>" "carry_ok acc'"
    "carried_usd acc' = s + a - of_int \<lfloor>(s + a) * 100\<rfloor> / 100"
proof -
  have "grid 16 a" using a(1) by (rule grid_mono) simp
  note e = accumulator_take_exact [OF D c(1) this a(3) t]
  show "0 \<le> k" "carry_ok acc'" by (fact e)+
  have s: "of_int (k + \<lfloor>s * 100\<rfloor>) / 100 + carried_usd acc' = s + a"
    using e(3) c(2) a(2) by (simp add: add_divide_distrib)
  have r: "0 \<le> carried_usd acc'" "carried_usd acc' < 1 / 100" using e(2) by (simp_all add: carry_ok_def)
  have "\<lfloor>(s + a) * 100\<rfloor> = k + \<lfloor>s * 100\<rfloor>"
    unfolding s [symmetric] using r by (simp add: floor_eq_iff field_simps)
  then show "k = \<lfloor>(s + a) * 100\<rfloor> - \<lfloor>s * 100\<rfloor>" by simp
  then show "carried_usd acc' = s + a - of_int \<lfloor>(s + a) * 100\<rfloor> / 100"
    using s by (simp add: algebra_simps)
qed

lemma sponsor_tick:
  assumes D: "decimal_laws D" and c: "carry_ok (mr_credits m)" "carried_usd (mr_credits m) = s - of_int \<lfloor>s * 100\<rfloor> / 100"
    and pool: "org_balance (bl_pool db) org = Some (B - \<lfloor>s * 100\<rfloor>)" "0 \<le> B - \<lfloor>s * 100\<rfloor>" "B - \<lfloor>s * 100\<rfloor> \<le> i32_max"
    and a: "grid 6 a" "0 \<le> a" "a < 10 ^ 6"
    and run: "meter_charge D F (Pay_org org session) cfg fault a m db = (m', db')"
    and fault: "fault \<noteq> None \<Longrightarrow> \<not> \<lfloor>s * 100\<rfloor> < \<lfloor>(s + a) * 100\<rfloor>"
  shows "if B < \<lfloor>(s + a) * 100\<rfloor>
     then db' = db \<and> \<not> mr_running m' \<and> mr_exhausted m' = Suc (mr_exhausted m)
        \<and> mr_out m' = mr_out m @ [BalanceExhausted]
     else org_balance (bl_pool db') = (org_balance (bl_pool db))(org \<mapsto> B - \<lfloor>(s + a) * 100\<rfloor>)
        \<and> db' = db\<lparr>bl_pool := bl_pool db'\<rparr> \<and> (\<exists>acc. m' = m\<lparr>mr_credits := acc\<rparr> \<and> carry_ok acc
        \<and> carried_usd acc = s + a - of_int \<lfloor>(s + a) * 100\<rfloor> / 100)"
proof -
  obtain k acc where t: "accumulator_take D (mr_credits m) a = (k, acc)" by fastforce
  note w = take_whole [OF D c a t]
  let ?P = "B - \<lfloor>s * 100\<rfloor>"
  show ?thesis
  proof (cases "k = 0")
    case True
    with run t have "m' = m\<lparr>mr_credits := acc\<rparr>" "db' = db" by (auto simp: meter_charge_def)
    moreover have "\<lfloor>(s + a) * 100\<rfloor> = \<lfloor>s * 100\<rfloor>" using True w(2) by simp
    ultimately show ?thesis using pool w(3,4) by (auto simp: fun_eq_iff)
  next
    case False
    then have k: "0 < k" "fault = None" using w(1,2) fault by fastforce+
    show ?thesis
    proof (cases "?P < k")
      case True
      with run t k pool(1) have "m' = exhaust (m\<lparr>mr_credits := acc\<rparr>)" "db' = db"
        by (auto simp: meter_charge_def deduct_org_credits_def deduct_org_credits_tx_def)
      with True w(2) show ?thesis by (simp add: exhaust_def)
    next
      case False
      then have nb: "wrap_i32 (?P - k) = B - \<lfloor>(s + a) * 100\<rfloor>"
        using pool k w(2) by (subst wrap_i32_id) (auto intro!: in_i32_nonneg)
      from False run t k pool(1) have "m' = m\<lparr>mr_credits := acc\<rparr>"
        "org_balance (bl_pool db') = (org_balance (bl_pool db))(org \<mapsto> B - \<lfloor>(s + a) * 100\<rfloor>)"
        "db' = db\<lparr>bl_pool := bl_pool db'\<rparr>"
        using nb by (auto simp: meter_charge_def deduct_org_credits_def deduct_org_credits_tx_def Let_def fun_eq_iff)
      with False w show ?thesis by auto
    qed
  qed
qed

lemma pool_only_trans:
  "b = a\<lparr>bl_pool := bl_pool b\<rparr> \<Longrightarrow> c = b\<lparr>bl_pool := bl_pool c\<rparr> \<Longrightarrow> c = a\<lparr>bl_pool := bl_pool c\<rparr>"
  by (cases a; cases b; cases c) simp

lemma sponsor_fault:
  assumes D: "decimal_laws D" and c: "carry_ok (mr_credits m)" "carried_usd (mr_credits m) = s - of_int \<lfloor>s * 100\<rfloor> / 100"
    and a: "grid 6 a" "0 \<le> a" "a < 10 ^ 6" and asks: "\<lfloor>s * 100\<rfloor> < \<lfloor>(s + a) * 100\<rfloor>"
  shows "\<exists>acc. meter_charge D F (Pay_org org session) cfg (Some e) a m db = (m\<lparr>mr_credits := acc, mr_running := False\<rparr>, db)"
proof -
  obtain k acc where t: "accumulator_take D (mr_credits m) a = (k, acc)" by fastforce
  have "k \<noteq> 0" using take_whole(2) [OF D c a t] asks by simp
  with t have "meter_charge D F (Pay_org org session) cfg (Some e) a m db = (m\<lparr>mr_credits := acc, mr_running := False\<rparr>, db)"
    by (simp add: meter_charge_def)
  then show ?thesis by blast
qed

text \<open>A sponsored tick needs the database when it completes a credit.\<close>

definition completes_credit :: "usd \<Rightarrow> usd \<Rightarrow> bool" where
  "completes_credit s a \<longleftrightarrow> \<lfloor>s * 100\<rfloor> < \<lfloor>(s + a) * 100\<rfloor>"

text \<open>A meter in the middle of its work, with \<open>s\<close> dollars spent.\<close>

lemma sponsor_run:
  assumes D: "decimal_laws D" and B: "B \<le> i32_max"
    and "carry_ok (mr_credits m)" "carried_usd (mr_credits m) = s - of_int \<lfloor>s * 100\<rfloor> / 100"
      "org_balance (bl_pool db) org = Some (B - \<lfloor>s * 100\<rfloor>)" "\<lfloor>s * 100\<rfloor> \<le> B" "0 \<le> s" "mr_running m"
      "hs = heard_ticks D F completes_credit cfg s es"
      "costs = tick_costs D F cfg hs" "paid = whole_paid B s costs"
      "\<forall>fault r n. Meter_tick fault r \<in> set es \<longrightarrow> meter_streams cfg r = Some n \<longrightarrow>
         0 \<le> tick_amount D F cfg n \<and> tick_amount D F cfg n < 10 ^ 6"
      "usage_meter_run D F (Pay_org org session) cfg es m db = (m', db')"
  shows "org_balance (bl_pool db') = (org_balance (bl_pool db))(org \<mapsto> B - \<lfloor>(s + sum_list paid) * 100\<rfloor>)
     \<and> \<lfloor>(s + sum_list paid) * 100\<rfloor> \<le> B \<and> db' = db\<lparr>bl_pool := bl_pool db'\<rparr>
     \<and> mr_out m' = mr_out m @ (if paid = costs then [] else [BalanceExhausted])
     \<and> mr_exhausted m' = mr_exhausted m + (if paid = costs then 0 else 1)
     \<and> mr_running m' = (paid = costs \<and> length hs = length es)"
  using assms(3-)
proof (induction es arbitrary: s m db hs costs paid)
  case Nil
  then show ?case by (auto simp: fun_eq_iff)
next
  case (Cons e es)
  note pool = Cons.prems(3,4) and hs = Cons.prems(7) and bound = Cons.prems(10) and run = Cons.prems(11)
  have bound': "\<forall>fault r n. Meter_tick fault r \<in> set es \<longrightarrow> meter_streams cfg r = Some n \<longrightarrow>
      0 \<le> tick_amount D F cfg n \<and> tick_amount D F cfg n < 10 ^ 6" using bound by simp
  show ?case
  proof (cases e)
    case Meter_cancel
    with Cons.prems show ?thesis by (auto simp: stopped_run fun_eq_iff)
  next
    case (Meter_tick fault r)
    show ?thesis
    proof (cases "meter_streams cfg r")
      case None
      then have "heard_ticks D F completes_credit cfg s (e # es) = r # heard_ticks D F completes_credit cfg s es"
        by (simp add: Meter_tick)
      with Cons.IH [OF Cons.prems(1-6) refl refl refl bound'] None Cons.prems(6,8,9) hs run show ?thesis
        by (simp add: Meter_tick)
    next
      case (Some n)
      let ?a = "tick_amount D F cfg n"
      have a: "grid 6 ?a" "0 \<le> ?a" "?a < 10 ^ 6"
        using D bound Some Meter_tick by (auto simp: tick_amount_def decimal_laws_def)
      show ?thesis
      proof (cases "fault \<noteq> None \<and> completes_credit s ?a")
        case True
        then obtain err where err: "fault = Some err" by blast
        from True obtain acc where "meter_charge D F (Pay_org org session) cfg fault ?a m db =
            (m\<lparr>mr_credits := acc, mr_running := False\<rparr>, db)"
          using sponsor_fault [OF D Cons.prems(1,2) a, of F org session cfg err db] by (auto simp: completes_credit_def err)
        with Cons.prems(6) Some run have "m' = m\<lparr>mr_credits := acc, mr_running := False\<rparr>" "db' = db"
          by (simp_all add: Meter_tick stopped_run)
        moreover have "hs = []" using hs True Some by (simp add: Meter_tick)
        ultimately show ?thesis using pool Cons.prems(8,9) by (auto simp: fun_eq_iff)
      next
        case False
        let ?hs = "heard_ticks D F completes_credit cfg (s + ?a) es" and ?rest = "tick_costs D F cfg (heard_ticks D F completes_credit cfg (s + ?a) es)"
        have h: "hs = r # ?hs" "costs = ?a # ?rest" using hs False Some Cons.prems(8) by (auto simp: Meter_tick)
        obtain m1 db1 where t: "meter_charge D F (Pay_org org session) cfg fault ?a m db = (m1, db1)" by fastforce
        have "0 \<le> \<lfloor>s * 100\<rfloor>" using Cons.prems(5) by simp
        then have "B - \<lfloor>s * 100\<rfloor> \<le> i32_max" using B by linarith
        then have tick: "if B < \<lfloor>(s + ?a) * 100\<rfloor>
           then db1 = db \<and> \<not> mr_running m1 \<and> mr_exhausted m1 = Suc (mr_exhausted m)
              \<and> mr_out m1 = mr_out m @ [BalanceExhausted]
           else org_balance (bl_pool db1) = (org_balance (bl_pool db))(org \<mapsto> B - \<lfloor>(s + ?a) * 100\<rfloor>)
              \<and> db1 = db\<lparr>bl_pool := bl_pool db1\<rparr> \<and> (\<exists>acc. m1 = m\<lparr>mr_credits := acc\<rparr> \<and> carry_ok acc
              \<and> carried_usd acc = s + ?a - of_int \<lfloor>(s + ?a) * 100\<rfloor> / 100)"
          using sponsor_tick [OF D Cons.prems(1-3) _ _ a t] False pool(2) by (auto simp: completes_credit_def)
        have run: "usage_meter_run D F (Pay_org org session) cfg es m1 db1 = (m', db')"
          using Cons.prems(6) Some t run by (simp add: Meter_tick)
        show ?thesis
        proof (cases "B < \<lfloor>(s + ?a) * 100\<rfloor>")
          case True
          then have "paid = []" "\<not> mr_running m1" using Cons.prems(9) tick by (simp_all add: h)
          with run tick True pool show ?thesis by (auto simp: h stopped_run fun_eq_iff)
        next
          case False
          then obtain acc where n: "m1 = m\<lparr>mr_credits := acc\<rparr>" "carry_ok acc" "db1 = db\<lparr>bl_pool := bl_pool db1\<rparr>"
            "carried_usd acc = s + ?a - of_int \<lfloor>(s + ?a) * 100\<rfloor> / 100"
            "org_balance (bl_pool db1) = (org_balance (bl_pool db))(org \<mapsto> B - \<lfloor>(s + ?a) * 100\<rfloor>)"
            using tick by auto
          have paid: "paid = ?a # whole_paid B (s + ?a) ?rest" using Cons.prems(9) False by (simp add: h)
          have "mr_credits m1 = acc" "mr_running m1" "org_balance (bl_pool db1) org = Some (B - \<lfloor>(s + ?a) * 100\<rfloor>)"
            "0 \<le> s + ?a" "\<lfloor>(s + ?a) * 100\<rfloor> \<le> B"
            using n(1,5) Cons.prems(5,6) a(2) False by simp_all
          note rest_run = Cons.IH [of m1 "s + ?a" db1, OF _ _ this(3,5,4,2) refl refl refl bound' run, unfolded this(1), OF n(2,4)]
          then have "db' = db\<lparr>bl_pool := bl_pool db'\<rparr>" using pool_only_trans [OF n(3)] by blast
          with rest_run [unfolded n(5) fun_upd_upd] n(1) show ?thesis by (simp add: paid h add.assoc)
        qed
      qed
    qed
  qed
qed

text \<open>
  C24: A sponsor pays whole cents and never more than its pool. Over any ticks and cancellation, of
  which any query may fail, take the ticks the meter gets through: those before it is cancelled and
  before a failing charge, where only a tick that completes a credit is charged at all. What the
  organisation has paid for them is the sum of their costs rounded down to credits, however small a
  single tick is, and the tick at which that exceeds the pool stops the meter with the one signal that
  stops the audio, at no charge; a failing charge or a cancellation ends it with neither charge nor
  signal, and otherwise it still runs. No personal account changes and nobody is shown a balance. It is
  assumed that only this meter touches the pool in between, which holds an i32 of credits, and that
  each tick costs from nothing to below a million dollars.
\<close>

theorem sponsor_pays_whole_cents:
  assumes D: "decimal_laws D" and pool: "org_balance (bl_pool db) org = Some B" "0 \<le> B" "B \<le> i32_max"
    and bound: "\<forall>fault r n. Meter_tick fault r \<in> set es \<longrightarrow> meter_streams cfg r = Some n \<longrightarrow>
      0 \<le> tick_amount D F cfg n \<and> tick_amount D F cfg n < 10 ^ 6"
    and heard: "hs = heard_ticks D F completes_credit cfg 0 es"
    and costs: "costs = tick_costs D F cfg hs"
    and run: "usage_meter_run D F (Pay_org org session) cfg es meter_new db = (m', db')"
    and paid: "paid = whole_paid B 0 costs"
  shows "org_balance (bl_pool db') = (org_balance (bl_pool db))(org \<mapsto> B - \<lfloor>sum_list paid * 100\<rfloor>)
     \<and> \<lfloor>sum_list paid * 100\<rfloor> \<le> B \<and> db' = db\<lparr>bl_pool := bl_pool db'\<rparr>
     \<and> mr_out m' = (if paid = costs then [] else [BalanceExhausted])
     \<and> mr_exhausted m' = (if paid = costs then 0 else 1)
     \<and> mr_running m' = (paid = costs \<and> length hs = length es)"
  using sponsor_run [OF D pool(3), of meter_new 0 db org hs F cfg es costs paid session m' db'] assms
  by (simp add: meter_new_def carry_ok_def grid_def)

section \<open>What a guest gets\<close>

text \<open>The ticks that a meter hears: those of meters that run.\<close>

fun guest_heard :: "nat \<Rightarrow> nat \<Rightarrow> GuestCap \<Rightarrow> guest_event list \<Rightarrow> nat" where
  "guest_heard cap interval_secs g [] = 0"
| "guest_heard cap interval_secs g (e # es) =
     (case e of Guest_ticks i \<Rightarrow> if i \<in> set (gc_running g) then 1 else 0 | _ \<Rightarrow> 0)
     + guest_heard cap interval_secs (guest_step cap interval_secs g e) es"

text \<open>
  Guests of one address share one budget: however their meters start, tick and stop, the
  time that is counted stays below the cap but for one interval of each meter that was
  stopped, and from the moment the cap is reached every tick of a meter stops it.
\<close>

theorem guest_time_bounded:
  assumes "g' = foldl (guest_step cap interval_secs) g es" and "interval = max interval_secs 1"
    and "gc_spent g + interval * guest_heard cap interval_secs g es < 2 ^ 64"
  shows "gc_spent g' = gc_spent g + interval * guest_heard cap interval_secs g es
     \<and> gc_spent g' + interval * length (gc_stopped g)
         \<le> max (gc_spent g) (cap - 1) + interval * length (gc_stopped g')
     \<and> (cap \<le> gc_spent g' \<and> i \<in> set (gc_running g') \<and> gc_spent g' + interval < 2 ^ 64 \<longrightarrow>
          guest_step cap interval_secs g' (Guest_ticks i) =
            g'\<lparr>gc_spent := gc_spent g' + interval, gc_running := remove1 i (gc_running g'),
               gc_stopped := i # gc_stopped g'\<rparr>)"
  using assms
proof (induction es arbitrary: g)
  case Nil
  then show ?case by (simp add: guest_step_def guest_tick_def)
next
  case (Cons e es)
  let ?g = "guest_step cap interval_secs g e"
  show ?case
  proof (cases "\<exists>i. e = Guest_ticks i \<and> i \<in> set (gc_running g)")
    case False
    then have same: "gc_spent ?g = gc_spent g" "gc_stopped ?g = gc_stopped g"
      "guest_heard cap interval_secs g (e # es) = guest_heard cap interval_secs ?g es"
      by (auto simp: guest_step_def split: guest_event.split)
    have "gc_spent ?g + interval * guest_heard cap interval_secs ?g es < 2 ^ 64"
      using Cons.prems(3) unfolding same .
    from Cons.IH [OF _ Cons.prems(2) this] Cons.prems(1) show ?thesis unfolding same by simp
  next
    case True
    then obtain i where i: "e = Guest_ticks i" "i \<in> set (gc_running g)" by blast
    let ?t = "gc_spent g + interval"
    have heard: "guest_heard cap interval_secs g (e # es) = Suc (guest_heard cap interval_secs ?g es)"
      using i by simp
    then have "?t < 2 ^ 64" using Cons.prems(3) unfolding heard by simp
    then have s: "gc_spent ?g = ?t"
      "length (gc_stopped ?g) = length (gc_stopped g) + (if cap \<le> ?t then 1 else 0)"
      using i Cons.prems(2) by (simp_all add: guest_step_def guest_tick_def Let_def)
    have "gc_spent ?g + interval * guest_heard cap interval_secs ?g es < 2 ^ 64"
      using Cons.prems(3) unfolding heard s(1) by simp
    from Cons.IH [OF _ Cons.prems(2) this] Cons.prems(1) show ?thesis
      unfolding heard s by (auto simp: max_def split: if_splits)
  qed
qed

section \<open>One counter for an address\<close>

definition guest_usage_ok :: "GuestUsage \<Rightarrow> bool" where
  "guest_usage_ok u \<longleftrightarrow> keys_distinct (gu_by_ip u)
     \<and> (\<forall>ip c s. map_of (gu_by_ip u) ip = Some (c, s) \<longrightarrow> c < gu_next u)
     \<and> (\<forall>ip ip' c s s'. map_of (gu_by_ip u) ip = Some (c, s) \<longrightarrow> map_of (gu_by_ip u) ip' = Some (c, s') \<longrightarrow> ip = ip')"

fun guest_connects :: "(string \<times> int) list \<Rightarrow> GuestUsage \<Rightarrow> GuestUsage" where
  "guest_connects [] u = u"
| "guest_connects ((ip, now) # cs) u = guest_connects cs (snd (guest_counter ip now u))"

lemma guest_counter_effect:
  assumes ok: "guest_usage_ok u" and c: "guest_counter ip now u = (c, u')"
  shows "guest_usage_ok u'" and "\<exists>s. map_of (gu_by_ip u') ip = Some (c, s)"
    and "ip' \<noteq> ip \<Longrightarrow> map_of (gu_by_ip u) ip' = Some (c', s') \<Longrightarrow> now - s' \<le> GUEST_USAGE_WINDOW \<Longrightarrow>
           map_of (gu_by_ip u') ip' = Some (c', s')"
    and "map_of (gu_by_ip u) ip = Some (c', s') \<Longrightarrow> now - s' \<le> GUEST_USAGE_WINDOW \<Longrightarrow>
           c = c' \<and> map_of (gu_by_ip u') ip = Some (c', s')"
proof -
  define m where "m = (if length (gu_by_ip u) > 10000
                   then retain_entries (\<lambda>_ (_, start). now - start \<le> GUEST_USAGE_WINDOW) (gu_by_ip u)
                   else gu_by_ip u)"
  have d: "keys_distinct (gu_by_ip u)" using ok by (simp add: guest_usage_ok_def)
  have dm: "keys_distinct m" using keys_distinct_retain [OF d] d by (simp add: m_def)
  have sub: "map_of (gu_by_ip u) k = Some v" if "map_of m k = Some v" for k v
    using that map_of_retain [OF d] by (auto simp: m_def split: if_splits option.splits)
  have keep: "map_of m k = Some (c', s')" if "map_of (gu_by_ip u) k = Some (c', s')" "now - s' \<le> GUEST_USAGE_WINDOW" for k
    using that map_of_retain [OF d] by (simp add: m_def)
  have fresh: "map_of m k \<noteq> Some (gu_next u, s)" for k s
    using ok sub [of k "(gu_next u, s)"] by (force simp: guest_usage_ok_def)
  have u': "(\<exists>s. map_of m ip = Some (c, s) \<and> now - s \<le> GUEST_USAGE_WINDOW \<and> u' = u\<lparr>gu_by_ip := m\<rparr>)
      \<or> c = gu_next u \<and> u' = \<lparr>gu_by_ip = AList.update ip (c, now) m, gu_next = Suc c\<rparr>
        \<and> (\<forall>k s. map_of m ip = Some (k, s) \<longrightarrow> GUEST_USAGE_WINDOW < now - s)"
    using c by (auto simp: guest_counter_def Let_def m_def [symmetric] split: option.splits if_splits)
  show "guest_usage_ok u'"
    using u' ok dm sub fresh unfolding guest_usage_ok_def
    by (elim disjE exE conjE) (auto simp: update_conv' keys_distinct_update less_Suc_eq split: if_splits; metis)+
  show "\<exists>s. map_of (gu_by_ip u') ip = Some (c, s)" using u' by (auto simp: update_conv')
  show "map_of (gu_by_ip u') ip' = Some (c', s')"
    if "ip' \<noteq> ip" "map_of (gu_by_ip u) ip' = Some (c', s')" "now - s' \<le> GUEST_USAGE_WINDOW"
    using u' keep [OF that(2,3)] that(1) by (auto simp: update_conv')
  show "c = c' \<and> map_of (gu_by_ip u') ip = Some (c', s')"
    if "map_of (gu_by_ip u) ip = Some (c', s')" "now - s' \<le> GUEST_USAGE_WINDOW"
    using u' keep [OF that] that(2) by (auto simp: update_conv')
qed

lemma guest_connects_keeps:
  assumes "guest_usage_ok u" and "map_of (gu_by_ip u) ip = Some (c, s)"
    and "\<forall>(_, t) \<in> set cs. t - s \<le> GUEST_USAGE_WINDOW"
  shows "guest_usage_ok (guest_connects cs u) \<and> map_of (gu_by_ip (guest_connects cs u)) ip = Some (c, s)"
  using assms
proof (induction cs arbitrary: u)
  case (Cons x cs)
  obtain ip' t where x: "x = (ip', t)" by fastforce
  obtain c' u' where u': "guest_counter ip' t u = (c', u')" by fastforce
  note e = guest_counter_effect [OF Cons.prems(1) u']
  have t: "t - s \<le> GUEST_USAGE_WINDOW" using Cons.prems(3) by (simp add: x)
  have "map_of (gu_by_ip u') ip = Some (c, s)"
    using e(3) [of ip c s] e(4) [of c s] Cons.prems(2) t by (cases "ip = ip'") auto
  with Cons.IH [OF e(1)] Cons.prems(3) show ?case by (simp add: x u')
qed simp

text \<open>
  Reconnecting does not reset a guest's cap: within the window that an address's counter
  opened, whoever else connects, as many as it takes for the map to be pruned, a connection
  from the address gets the same counter, and one from another address never does.
\<close>

theorem reconnect_keeps_counter:
  assumes "guest_usage_ok u" and "guest_counter ip now u = (c, u1)"
    and "map_of (gu_by_ip u1) ip = Some (c, start)"
    and "\<forall>(_, t) \<in> set cs. t - start \<le> GUEST_USAGE_WINDOW" and "t - start \<le> GUEST_USAGE_WINDOW"
  shows "(fst (guest_counter ip' t (guest_connects cs u1)) = c) = (ip' = ip)"
proof -
  let ?u = "guest_connects cs u1"
  have ok: "guest_usage_ok ?u" "map_of (gu_by_ip ?u) ip = Some (c, start)"
    using guest_connects_keeps [OF guest_counter_effect(1) [OF assms(1,2)] assms(3,4)] by simp_all
  obtain c' u' where u': "guest_counter ip' t ?u = (c', u')" by fastforce
  note e = guest_counter_effect [OF ok(1) u']
  show ?thesis
  proof (cases "ip' = ip")
    case True
    with e(4) [of c start] ok(2) assms(5) u' show ?thesis by simp
  next
    case False
    with e(3) [of ip c start] ok(2) assms(5) have "map_of (gu_by_ip u') ip = Some (c, start)" by simp
    moreover obtain s where "map_of (gu_by_ip u') ip' = Some (c', s)" using e(2) by blast
    ultimately have "c' \<noteq> c" using e(1) False unfolding guest_usage_ok_def by metis
    with False u' show ?thesis by simp
  qed
qed

section \<open>Three ticks of a conversation\<close>

definition sample_conversation :: "(nat, nat) RoomManager" where
  "sample_conversation = sample_rooms [sample_peer ''a'' 0 ''it'' True, sample_peer ''b'' 1 ''en'' True]"

definition sample_meter_ops :: "rat meter_ops" where
  "sample_meter_ops = \<lparr>mo_cost = (\<lambda>r i s. Some (r * of_nat i * of_nat s)), mo_of_decimal = (\<lambda>b. b),
     mo_less = (\<lambda>a b. a < b)\<rparr>"

definition sample_meter :: "rat \<Rightarrow> rat MeterConfig" where
  "sample_meter rate = \<lparr>mc_interval_secs = 5, mc_rate_per_second = rate, mc_low_balance = 2, mc_has_rooms = True,
     mc_room = ''r'', mc_scope = Speaker_pays ''a'' ''it'' True\<rparr>"

lemma sample_languages: "get_room_languages sample_conversation ''r'' ''a'' = [''en'']"
  by code_simp

lemma sample_streams: "meter_streams (sample_meter rate) sample_conversation = Some 1"
  by (simp add: meter_streams_def sample_meter_def sample_languages billable_streams_def)

lemma sample_amounts:
  "tick_amount exact_decimal sample_meter_ops (sample_meter (2 / 5)) 1 = 2"
  "tick_amount exact_decimal sample_meter_ops (sample_meter (1 / 1000)) 1 = 1 / 200"
  by (simp_all add: tick_amount_def meter_interval_def sample_meter_ops_def sample_meter_def exact_decimal_def
      rat_floor_numeral)

lemma sample_tick_costs:
  "tick_costs exact_decimal sample_meter_ops (sample_meter (2 / 5)) (replicate 3 sample_conversation) = [2, 2, 2]"
  "tick_costs exact_decimal sample_meter_ops (sample_meter (1 / 1000)) (replicate 3 sample_conversation)
     = [1 / 200, 1 / 200, 1 / 200]"
  by (simp_all add: numeral_3_eq_3 sample_streams sample_amounts del: One_nat_def)

definition sample_paying :: BillDb where
  "sample_paying = user_step exact_decimal sample_ops sample_bill (Open_usage 1 ''r'' ''standard'' 9)"

lemma sample_paying_facts:
  "books_ok [1 \<mapsto> 5] sample_paying" "bill_balance sample_paying 1 = Some 5"
  "bl_sessions sample_paying 9 = Some \<lparr>us_user = 1, us_room = ''r'', us_engine = ''standard'',
     us_speaking_seconds = 0, us_cost = 0, us_ended_at = None\<rparr>"
  "org_balance (bl_pool sample_paying) 1 = Some 100"
  using user_step_books(1) [OF exact_decimal_laws sample_bill_ok(1), of "Open_usage 1 ''r'' ''standard'' 9" sample_ops]
  by (simp_all add: sample_paying_def bill_eval org_balance_def sample_db_def sample_org_def)

theorem meter_takes_affordable_witness:
  "case usage_meter_run exact_decimal sample_meter_ops (Pay_user 1 9) (sample_meter (2 / 5))
      (map (Meter_tick None) (replicate 3 sample_conversation)) meter_new sample_paying of
     (m, db) \<Rightarrow> bill_balance db 1 = Some 1 \<and> map_option us_cost (bl_sessions db 9) = Some 4
       \<and> mr_out m = [BalanceUpdate 3, BalanceUpdate 1, LowBalance 1, BalanceExhausted] \<and> \<not> mr_running m"
proof -
  let ?es = "map (Meter_tick None) (replicate 3 sample_conversation)"
  obtain m db where r: "usage_meter_run exact_decimal sample_meter_ops (Pay_user 1 9) (sample_meter (2 / 5))
      ?es meter_new sample_paying = (m, db)" by fastforce
  have heard: "replicate 3 sample_conversation =
      heard_ticks exact_decimal sample_meter_ops (\<lambda>_ _. True) (sample_meter (2 / 5)) 0 ?es"
    by (simp add: numeral_3_eq_3 sample_streams del: One_nat_def)
  have new: "mr_running (meter_new :: rat MeterRun)" "mr_out (meter_new :: rat MeterRun) = []"
    "\<not> mr_warned_low (meter_new :: rat MeterRun)" by (simp_all add: meter_new_def)
  have paid: "affordable 5 [2, 2, 2] = [2, 2 :: usd]" by simp
  have msgs: "meter_messages sample_meter_ops (mc_low_balance (sample_meter (2 / 5))) False 5 [2, 2]
      = [BalanceUpdate 3, BalanceUpdate 1, LowBalance 1]"
    by (simp add: sample_meter_ops_def sample_meter_def)
  have "meter_interval (sample_meter (2 / 5)) = 5" by (simp add: meter_interval_def sample_meter_def)
  with meter_takes_affordable [OF exact_decimal_laws sample_paying_facts(1,2) _ sample_paying_facts(3) _ _ _
      heard sample_tick_costs(1) [symmetric] _ _ _ paid [symmetric] r new(1)]
  show ?thesis unfolding r using new msgs by (auto simp: i32_max_def grid_def simp del: One_nat_def)
qed

text \<open>Two ticks make a credit, and the database fails when the next credit is complete.\<close>

theorem sponsor_pays_whole_cents_witness:
  "case usage_meter_run exact_decimal sample_meter_ops (Pay_org 1 None) (sample_meter (1 / 1000))
      (map (\<lambda>f. Meter_tick f sample_conversation) [None, None, Some RowNotFound, Some RowNotFound]) meter_new sample_paying of
     (m, db) \<Rightarrow> org_balance (bl_pool db) 1 = Some 99 \<and> mr_out m = [] \<and> \<not> mr_running m"
proof -
  let ?es = "map (\<lambda>f. Meter_tick f sample_conversation) [None, None, Some RowNotFound, Some RowNotFound]"
  obtain m db where r: "usage_meter_run exact_decimal sample_meter_ops (Pay_org 1 None) (sample_meter (1 / 1000))
      ?es meter_new sample_paying = (m, db)" by fastforce
  have heard: "replicate 3 sample_conversation =
      heard_ticks exact_decimal sample_meter_ops completes_credit (sample_meter (1 / 1000)) 0 ?es"
    by (simp add: numeral_3_eq_3 sample_streams sample_amounts completes_credit_def rat_floor_numeral del: One_nat_def)
  have paid: "whole_paid 100 0 [1 / 200, 1 / 200, 1 / 200] = [1 / 200, 1 / 200, 1 / 200]"
    by (simp add: rat_floor_numeral)
  from sponsor_pays_whole_cents [OF exact_decimal_laws sample_paying_facts(4) _ _ _ heard sample_tick_costs(2) [symmetric]
      r paid [symmetric]]
  show ?thesis unfolding r
    by (auto simp: i32_max_def rat_floor_numeral sample_streams sample_amounts simp del: One_nat_def)
qed

theorem reconnect_keeps_counter_witness:
  "fst (guest_counter ''1.2.3.4'' 900 (guest_connects [(''5.6.7.8'', 20), (''9.9.9.9'', 30)]
     (snd (guest_counter ''1.2.3.4'' 10 \<lparr>gu_by_ip = [], gu_next = 0\<rparr>)))) = 0"
proof -
  have ok: "guest_usage_ok \<lparr>gu_by_ip = [], gu_next = 0\<rparr>" by (simp add: guest_usage_ok_def)
  have c: "guest_counter ''1.2.3.4'' 10 \<lparr>gu_by_ip = [], gu_next = 0\<rparr>
      = (0, \<lparr>gu_by_ip = [(''1.2.3.4'', (0, 10))], gu_next = 1\<rparr>)" by (simp add: guest_counter_def)
  from reconnect_keeps_counter [OF ok c, of 10 "[(''5.6.7.8'', 20), (''9.9.9.9'', 30)]" 900 "''1.2.3.4''"]
  show ?thesis by (simp add: c GUEST_USAGE_WINDOW_def)
qed

end
