(* ===== verification/Peer_Meter.thy ===== *)
theory Peer_Meter
  imports Usage_Meter Engine_Registry
begin

text \<open>
  A browser's connection to a room as far as money goes, \<^verbatim>\<open>server/src/lib.rs\<close>: who may join, who
  pays, and the handlers of the connection's loop that open and close audio and start and
  cancel meters. The meters are the tasks of \<^verbatim>\<open>Usage_Meter\<close>; dropping the handle of a meter
  cancels it. What the engines answer is a parameter of the events.
\<close>

section \<open>Joining\<close>

record AuthedPeer =
  ap_user_id :: nat
  ap_avatar_url :: "string option"
  ap_cartesia_voice_id :: "string option"

datatype AuthError = Invalid_token | Banned string | Consent_required | Consent_unavailable
  | Insufficient_balance | Billing_unavailable

fun auth_error_code :: "AuthError \<Rightarrow> string" where
  "auth_error_code Invalid_token = ''invalid_token''"
| "auth_error_code (Banned _) = ''banned''"
| "auth_error_code Consent_required = ''consent_required''"
| "auth_error_code Consent_unavailable = ''consent_unavailable''"
| "auth_error_code Insufficient_balance = ''insufficient_balance''"
| "auth_error_code Billing_unavailable = ''billing_unavailable''"

text \<open>
  What the gate asks: the token's subject once verified, its parse as a user id, and the answers
  of the safety tables, when there are any. A query that fails is an error value.
\<close>

record auth_ops =
  ao_verify_jwt :: "ustring \<Rightarrow> string option"
  ao_parse_uuid :: "string \<Rightarrow> nat option"
  ao_has_safety :: bool
  ao_is_banned :: "nat \<Rightarrow> db_error + string option"
  ao_has_consented :: "nat \<Rightarrow> db_error + bool"

definition unwrap_or_none :: "db_error + 'a option \<Rightarrow> 'a option" where
  "unwrap_or_none r = (case r of Inl _ \<Rightarrow> None | Inr x \<Rightarrow> x)"

definition authed_peer :: "BillDb \<Rightarrow> nat \<Rightarrow> AuthedPeer" where
  "authed_peer db uid = \<lparr>ap_user_id = uid, ap_avatar_url = unwrap_or_none (get_avatar db uid),
     ap_cartesia_voice_id = unwrap_or_none (get_cartesia_voice_id db uid)\<rparr>"

definition safety_gate :: "auth_ops \<Rightarrow> nat \<Rightarrow> AuthError option" where
  "safety_gate A uid =
     (if \<not> ao_has_safety A then None
      else case ao_is_banned A uid of
             Inr (Some reason) \<Rightarrow> Some (Banned reason)
           | _ \<Rightarrow>
               (case ao_has_consented A uid of
                  Inr True \<Rightarrow> None
                | Inr False \<Rightarrow> Some Consent_required
                | Inl _ \<Rightarrow> Some Consent_unavailable))"

text \<open>\<open>billing\<close> is the ledger and its minimum balance, when both are configured.\<close>

definition authorize ::
  "auth_ops \<Rightarrow> (BillDb \<times> usd) option \<Rightarrow> ustring option \<Rightarrow> bool \<Rightarrow> AuthError + AuthedPeer option" where
  "authorize A billing token sponsored =
     (let tok = (case token of None \<Rightarrow> [] | Some t \<Rightarrow> trim t)
      in if tok = [] then Inr None
         else case billing of
                None \<Rightarrow> Inr None
              | Some (db, min_balance) \<Rightarrow>
                  (case Option.bind (ao_verify_jwt A tok) (ao_parse_uuid A) of
                     None \<Rightarrow> Inl Invalid_token
                   | Some uid \<Rightarrow>
                       (case safety_gate A uid of
                          Some e \<Rightarrow> Inl e
                        | None \<Rightarrow>
                            if sponsored then Inr (Some (authed_peer db uid))
                            else case can_join min_balance db uid of
                                   Inr True \<Rightarrow> Inr (Some (authed_peer db uid))
                                 | Inr False \<Rightarrow> Inl Insufficient_balance
                                 | Inl _ \<Rightarrow> Inl Billing_unavailable)))"

text \<open>The organisation of the room pays for everybody, or the signed-in user for themselves.\<close>

definition payer_of :: "nat option \<Rightarrow> nat option \<Rightarrow> nat option \<Rightarrow> nat \<Rightarrow> bool \<Rightarrow> Payer option" where
  "payer_of sponsor_org billed_user usage_session call_session call_session_row =
     (case sponsor_org of
        Some org \<Rightarrow> Some (Pay_org org (if call_session_row then Some call_session else None))
      | None \<Rightarrow>
          (case (billed_user, usage_session) of
             (Some uid, Some sid) \<Rightarrow> Some (Pay_user uid sid)
           | _ \<Rightarrow> None))"

section \<open>The server and the connection\<close>

text \<open>The registry's default is resolved at start-up.\<close>

record 'f MeterServer =
  sv_listener_pays :: bool
  sv_billing_cfg :: bool
  sv_billing :: bool
  sv_interval :: nat
  sv_low_balance :: 'f
  sv_floats :: "'f f64_ops"
  sv_engines :: "'f EngineRegistry"
  sv_default :: "'f EngineMetadata"

record PeerParams =
  pp_room :: string
  pp_id :: string
  pp_payer :: "Payer option"
  pp_billed_user :: "nat option"
  pp_guest_cap :: "nat option"

datatype 'f meter_kind = Paid_meter Payer "'f MeterConfig" | Guest_meter nat

text \<open>\<open>pc_held\<close> is the meter whose handle the loop holds; \<open>pc_signals\<close> counts the exhaustion signals
  that wait; \<open>pc_spent\<close> is the guest's shared counter; \<open>pc_receives\<close> the engine the peer is heard with.\<close>

record 'f PeerConn =
  pc_open :: bool
  pc_audio :: bool
  pc_engine :: "'f EngineMetadata"
  pc_receives :: string
  pc_meters :: "('f meter_kind \<times> 'f MeterRun) list"
  pc_held :: "nat option"
  pc_signals :: nat
  pc_spent :: nat

definition connection_engine :: "'f MeterServer \<Rightarrow> string option \<Rightarrow> nat option \<Rightarrow> 'f EngineMetadata" where
  "connection_engine sv requested billed_user =
     (let chosen = (case Option.bind requested (get_engine (sv_engines sv)) of
                      Some e \<Rightarrow> e | None \<Rightarrow> sv_default sv);
          pinned = (if billed_user = None then sv_default sv else chosen)
      in if \<not> sv_listener_pays sv \<and> ec_client_direct (eng_capabilities pinned) then sv_default sv else pinned)"

definition engine_rate :: "'f MeterServer \<Rightarrow> 'f EngineMetadata \<Rightarrow> 'f" where
  "engine_rate sv e = user_rate_per_second (sv_floats sv) e"

section \<open>Starting and cancelling meters\<close>

text \<open>The guest's counter exists exactly when the cap does.\<close>

definition spawn_meter ::
  "'f MeterServer \<Rightarrow> Payer option \<Rightarrow> PeerParams \<Rightarrow> string \<Rightarrow> 'f \<Rightarrow> bool \<Rightarrow> 'f meter_kind option" where
  "spawn_meter sv payer pp speaker_lang rate scale_by_target_count =
     (if \<not> sv_billing_cfg sv then None
      else case (if sv_billing sv then payer else None) of
             Some p \<Rightarrow> Some (Paid_meter p \<lparr>mc_interval_secs = sv_interval sv, mc_rate_per_second = rate,
               mc_low_balance = sv_low_balance sv, mc_has_rooms = True, mc_room = pp_room pp,
               mc_scope = Speaker_pays (pp_id pp) speaker_lang scale_by_target_count\<rparr>)
           | None \<Rightarrow> map_option Guest_meter (pp_guest_cap pp))"

definition spawn_listener_meter ::
  "'f MeterServer \<Rightarrow> PeerParams \<Rightarrow> 'f \<Rightarrow> 'f meter_kind option" where
  "spawn_listener_meter sv pp rate =
     (if \<not> sv_billing_cfg sv \<or> \<not> sv_billing sv then None
      else map_option (\<lambda>p. Paid_meter p \<lparr>mc_interval_secs = sv_interval sv, mc_rate_per_second = rate,
             mc_low_balance = sv_low_balance sv, mc_has_rooms = True, mc_room = pp_room pp,
             mc_scope = Listener_pays (pp_id pp)\<rparr>) (pp_payer pp))"

text \<open>Dropping the handle, or sending on it, ends the meter; a new handle drops the old one.\<close>

definition drop_handle :: "'f PeerConn \<Rightarrow> 'f PeerConn" where
  "drop_handle c =
     (case pc_held c of
        None \<Rightarrow> c
      | Some i \<Rightarrow> c\<lparr>pc_held := None,
          pc_meters := (pc_meters c)[i := (fst (pc_meters c ! i), (snd (pc_meters c ! i))\<lparr>mr_running := False\<rparr>)]\<rparr>)"

definition hold_meter :: "'f meter_kind option \<Rightarrow> 'f PeerConn \<Rightarrow> 'f PeerConn" where
  "hold_meter kind c =
     (let c1 = drop_handle c
      in case kind of
           None \<Rightarrow> c1
         | Some k \<Rightarrow> c1\<lparr>pc_meters := pc_meters c1 @ [(k, meter_new)], pc_held := Some (length (pc_meters c1))\<rparr>)"

definition join_meter :: "'f MeterServer \<Rightarrow> PeerParams \<Rightarrow> 'f EngineMetadata \<Rightarrow> nat \<Rightarrow> 'f PeerConn" where
  "join_meter sv pp engine spent =
     (let c = \<lparr>pc_open = True, pc_audio = False, pc_engine = engine, pc_receives = eng_id engine,
               pc_meters = [], pc_held = None, pc_signals = 0, pc_spent = spent\<rparr>
      in if sv_listener_pays sv \<and> pp_payer pp \<noteq> None
         then hold_meter (spawn_listener_meter sv pp (engine_rate sv engine)) c else c)"

section \<open>The handlers\<close>

text \<open>Speaker-pays: one engine, with the fallback to the default when it is at capacity.\<close>

definition start_speaking ::
  "'f MeterServer \<Rightarrow> PeerParams \<Rightarrow> string \<Rightarrow> (string \<Rightarrow> SessionOutcome) \<Rightarrow> 'f PeerConn \<Rightarrow> 'f PeerConn" where
  "start_speaking sv pp live_lang start c =
     (if pc_audio c then c
      else let first = start (eng_id (pc_engine c));
               engine = (if first = AtCapacity then sv_default sv else pc_engine c);
               outcome = (if first = AtCapacity then start (eng_id engine) else first);
               c1 = c\<lparr>pc_engine := engine\<rparr>
           in if outcome = Started
              then (hold_meter (spawn_meter sv (pp_payer pp) pp live_lang (engine_rate sv engine)
                      (ec_cost_scales_per_language (eng_capabilities engine))) c1)\<lparr>pc_audio := True\<rparr>
              else c1)"

text \<open>Listener-pays: every engine that a listener chose, and the standard one always.\<close>

definition turn_opens :: "'f MeterServer \<Rightarrow> string list \<Rightarrow> (string \<Rightarrow> SessionOutcome) \<Rightarrow> bool" where
  "turn_opens sv chosen start =
     (let pcm = map eng_id (filter (\<lambda>e. ec_translated_audio (eng_capabilities e)) (reg_engines (sv_engines sv)));
          wanted = extra_engines_for_turn chosen pcm;
          std = (case get_engine (sv_engines sv) STANDARD_ID of Some e \<Rightarrow> e | None \<Rightarrow> sv_default sv)
      in list_ex (\<lambda>i. get_engine (sv_engines sv) i \<noteq> None \<and> start i = Started) wanted
         \<or> start (eng_id std) = Started)"

text \<open>\<open>zero_rate\<close> is the rate \<open>0.0\<close> of a meter that only counts time.\<close>

definition start_turn ::
  "'f MeterServer \<Rightarrow> PeerParams \<Rightarrow> 'f \<Rightarrow> string \<Rightarrow> string list \<Rightarrow> (string \<Rightarrow> SessionOutcome) \<Rightarrow> 'f PeerConn
     \<Rightarrow> 'f PeerConn" where
  "start_turn sv pp zero_rate live_lang chosen start c =
     (if pc_audio c then c
      else if \<not> turn_opens sv chosen start then c
      else let c1 = c\<lparr>pc_audio := True\<rparr>
           in if pp_payer pp = None \<and> pc_held c = None
              then hold_meter (spawn_meter sv None pp live_lang zero_rate False) c1 else c1)"

definition stop_speaking :: "'f MeterServer \<Rightarrow> PeerParams \<Rightarrow> 'f PeerConn \<Rightarrow> 'f PeerConn" where
  "stop_speaking sv pp c =
     (let c1 = c\<lparr>pc_audio := False\<rparr>
      in if sv_listener_pays sv
         then (if pp_billed_user pp = None then drop_handle c1 else c1)
         else drop_handle c1)"

text \<open>A chunk of audio: whether some engine's channel took it.\<close>

definition audio_chunk :: "bool \<Rightarrow> 'f PeerConn \<Rightarrow> 'f PeerConn" where
  "audio_chunk taken c = c\<lparr>pc_audio := (pc_audio c \<and> taken)\<rparr>"

definition receives_with :: "(EngineCapabilities \<Rightarrow> bool) \<Rightarrow> 'f MeterServer \<Rightarrow> 'f PeerConn \<Rightarrow> bool" where
  "receives_with cap sv c =
     (case get_engine (sv_engines sv) (pc_receives c) of None \<Rightarrow> False | Some e \<Rightarrow> cap (eng_capabilities e))"

definition enhanced_fallback :: "'f MeterServer \<Rightarrow> PeerParams \<Rightarrow> 'f PeerConn \<Rightarrow> 'f PeerConn" where
  "enhanced_fallback sv pp c =
     (if receives_with ec_client_direct sv c
      then let c1 = c\<lparr>pc_receives := eng_id (sv_default sv)\<rparr>
           in if sv_listener_pays sv \<and> pp_payer pp \<noteq> None
              then hold_meter (spawn_listener_meter sv pp (engine_rate sv (sv_default sv))) c1 else c1
      else c)"

definition on_exhausted :: "'f MeterServer \<Rightarrow> 'f PeerConn \<Rightarrow> 'f PeerConn" where
  "on_exhausted sv c =
     (if pc_signals c = 0 then c
      else let c1 = (drop_handle c)\<lparr>pc_signals := pc_signals c - 1\<rparr>
           in if sv_listener_pays sv
              then (if receives_with ec_translated_audio sv c1
                    then c1\<lparr>pc_receives := eng_id (sv_default sv)\<rparr> else c1)
              else let c2 = c1\<lparr>pc_audio := False\<rparr>
                   in if eng_id (sv_default sv) \<noteq> eng_id (pc_engine c2)
                      then c2\<lparr>pc_engine := sv_default sv\<rparr> else c2)"

definition end_connection :: "'f PeerConn \<Rightarrow> 'f PeerConn" where
  "end_connection c = (drop_handle (c\<lparr>pc_audio := False\<rparr>))\<lparr>pc_open := False\<rparr>"

text \<open>The timer of the \<open>i\<close>-th meter.\<close>

definition meter_fires ::
  "decimal_ops \<Rightarrow> 'f meter_ops \<Rightarrow> 'f MeterServer \<Rightarrow> nat \<Rightarrow> db_error option \<Rightarrow> ('g, 'j) RoomManager
     \<Rightarrow> 'f PeerConn \<times> BillDb \<Rightarrow> 'f PeerConn \<times> BillDb" where
  "meter_fires D F sv i fault room s =
     (let (c, db) = s
      in if i < length (pc_meters c) \<and> mr_running (snd (pc_meters c ! i))
         then let (kind, m) = pc_meters c ! i
              in case kind of
                   Paid_meter payer cfg \<Rightarrow>
                     (let (m', db') = usage_meter_run D F payer cfg [Meter_tick fault room] m db
                      in (c\<lparr>pc_meters := (pc_meters c)[i := (kind, m')],
                            pc_signals := pc_signals c + (mr_exhausted m' - mr_exhausted m)\<rparr>, db'))
                 | Guest_meter cap \<Rightarrow>
                     (let (reached, total) = guest_tick cap (sv_interval sv) (pc_spent c);
                          c1 = c\<lparr>pc_spent := total\<rparr>
                      in if reached
                         then (c1\<lparr>pc_meters := (pc_meters c)[i := (kind, exhaust m)],
                                  pc_signals := Suc (pc_signals c)\<rparr>, db)
                         else (c1, db))
         else (c, db))"

datatype ('g, 'j) peer_event =
  Ev_start string "string list" "string \<Rightarrow> SessionOutcome"
| Ev_stop
| Ev_audio bool
| Ev_fallback
| Ev_exhausted
| Ev_tick nat "db_error option" "('g, 'j) RoomManager"
| Ev_disconnect

text \<open>After the connection's loop has ended only timers are left.\<close>

definition peer_step ::
  "decimal_ops \<Rightarrow> 'f meter_ops \<Rightarrow> 'f MeterServer \<Rightarrow> PeerParams \<Rightarrow> 'f \<Rightarrow> 'f PeerConn \<times> BillDb
     \<Rightarrow> ('g, 'j) peer_event \<Rightarrow> 'f PeerConn \<times> BillDb" where
  "peer_step D F sv pp zero_rate s e =
     (let (c, db) = s
      in case e of
           Ev_tick i fault room \<Rightarrow> meter_fires D F sv i fault room s
         | _ \<Rightarrow>
             if \<not> pc_open c then s
             else (case e of
                     Ev_start lang chosen start \<Rightarrow>
                       if sv_listener_pays sv then start_turn sv pp zero_rate lang chosen start c
                       else start_speaking sv pp lang start c
                   | Ev_stop \<Rightarrow> stop_speaking sv pp c
                   | Ev_audio taken \<Rightarrow> audio_chunk taken c
                   | Ev_fallback \<Rightarrow> enhanced_fallback sv pp c
                   | Ev_exhausted \<Rightarrow> on_exhausted sv c
                   | _ \<Rightarrow> end_connection c, db))"

definition peer_run ::
  "decimal_ops \<Rightarrow> 'f meter_ops \<Rightarrow> 'f MeterServer \<Rightarrow> PeerParams \<Rightarrow> 'f \<Rightarrow> 'f PeerConn \<times> BillDb
     \<Rightarrow> ('g, 'j) peer_event list \<Rightarrow> 'f PeerConn \<times> BillDb" where
  "peer_run D F sv pp zero_rate = foldl (peer_step D F sv pp zero_rate)"

section \<open>One meter at a time\<close>

definition meter_runs :: "'f PeerConn \<Rightarrow> nat \<Rightarrow> bool" where
  "meter_runs c i \<longleftrightarrow> i < length (pc_meters c) \<and> mr_running (snd (pc_meters c ! i))"

lemma meter_runs_update [simp]:
  "meter_runs (c\<lparr>pc_audio := b\<rparr>) = meter_runs c" "meter_runs (c\<lparr>pc_receives := r\<rparr>) = meter_runs c"
  "meter_runs (c\<lparr>pc_signals := n\<rparr>) = meter_runs c" "meter_runs (c\<lparr>pc_open := b\<rparr>) = meter_runs c"
  by (simp_all add: meter_runs_def fun_eq_iff)

text \<open>Only the meter whose handle is held runs, and a closed connection holds none.\<close>

definition held_ok :: "'f PeerConn \<Rightarrow> bool" where
  "held_ok c \<longleftrightarrow> (\<forall>i. meter_runs c i \<longrightarrow> pc_held c = Some i)
     \<and> (\<forall>i. pc_held c = Some i \<longrightarrow> i < length (pc_meters c))
     \<and> (pc_open c \<or> pc_held c = None \<and> \<not> pc_audio c)"

lemma drop_handle_sel [simp]:
  "pc_open (drop_handle c) = pc_open c" "pc_audio (drop_handle c) = pc_audio c" "pc_engine (drop_handle c) = pc_engine c"
  "pc_receives (drop_handle c) = pc_receives c" "pc_signals (drop_handle c) = pc_signals c"
  "pc_spent (drop_handle c) = pc_spent c" "pc_held (drop_handle c) = None"
  "length (pc_meters (drop_handle c)) = length (pc_meters c)"
  by (simp_all add: drop_handle_def split: option.split)

lemma hold_meter_sel [simp]:
  "pc_open (hold_meter k c) = pc_open c" "pc_audio (hold_meter k c) = pc_audio c" "pc_engine (hold_meter k c) = pc_engine c"
  "pc_receives (hold_meter k c) = pc_receives c" "pc_signals (hold_meter k c) = pc_signals c"
  "pc_spent (hold_meter k c) = pc_spent c"
  by (simp_all add: hold_meter_def Let_def split: option.split)

lemma held_okD: "held_ok c \<Longrightarrow> meter_runs c i \<Longrightarrow> pc_held c = Some i"
  by (simp add: held_ok_def)

lemma drop_handle_stops:
  assumes "held_ok c"
  shows "\<not> meter_runs (drop_handle c) i"
proof (cases "pc_held c")
  case None
  then show ?thesis using held_okD [OF assms, of i] by (auto simp: drop_handle_def)
next
  case (Some k)
  then show ?thesis
    using held_okD [OF assms, of i] by (cases "i = k") (auto simp: drop_handle_def meter_runs_def)
qed

lemma held_ok_cong:
  "pc_meters c' = pc_meters c \<Longrightarrow> pc_held c' = pc_held c \<Longrightarrow> pc_open c' = pc_open c \<Longrightarrow> pc_open c \<Longrightarrow>
     held_ok c' = held_ok c"
  by (simp add: held_ok_def meter_runs_def)

lemma held_ok_drop: "held_ok c \<Longrightarrow> held_ok (drop_handle c)"
  using drop_handle_stops [of c] by (auto simp: held_ok_def)

lemma meter_runs_append:
  "meter_runs (c\<lparr>pc_meters := pc_meters c @ [(k, meter_new)], pc_held := h\<rparr>) i
     = (meter_runs c i \<or> i = length (pc_meters c))"
  by (auto simp: meter_runs_def nth_append meter_new_def less_Suc_eq)

lemma held_ok_hold: "held_ok c \<Longrightarrow> pc_open c \<Longrightarrow> held_ok (hold_meter k c)"
proof -
  assume "held_ok c" and o: "pc_open c"
  then have d: "held_ok (drop_handle c)" "\<not> meter_runs (drop_handle c) i" for i
    by (simp_all add: held_ok_drop drop_handle_stops)
  show ?thesis
  proof (cases k)
    case None
    with d(1) show ?thesis by (simp add: hold_meter_def)
  next
    case (Some kind)
    with d(2) o show ?thesis by (simp add: hold_meter_def Let_def held_ok_def meter_runs_append)
  qed
qed

text \<open>A timer changes only its own meter, the signals, the guest's counter and the tables.\<close>

lemma meter_fires_silent:
  "\<not> meter_runs c i \<Longrightarrow> meter_fires D F sv i fault room (c, db) = (c, db)"
  by (auto simp: meter_fires_def meter_runs_def)

lemma meter_fires_shape:
  assumes "meter_fires D F sv i fault room (c, db) = (c', db')"
  shows "c' = c\<lparr>pc_meters := (pc_meters c)[i := (fst (pc_meters c ! i), snd (pc_meters c' ! i))],
      pc_signals := pc_signals c', pc_spent := pc_spent c'\<rparr>"
    and "meter_runs c' i \<Longrightarrow> meter_runs c i" and "pc_signals c \<le> pc_signals c'"
    and "0 < mr_exhausted (snd (pc_meters c' ! i)) \<Longrightarrow> 0 < mr_exhausted (snd (pc_meters c ! i)) \<or> 0 < pc_signals c'"
proof -
  have all: "c' = c\<lparr>pc_meters := (pc_meters c)[i := (fst (pc_meters c ! i), snd (pc_meters c' ! i))],
      pc_signals := pc_signals c', pc_spent := pc_spent c'\<rparr>
    \<and> (meter_runs c' i \<longrightarrow> meter_runs c i) \<and> pc_signals c \<le> pc_signals c'
    \<and> (0 < mr_exhausted (snd (pc_meters c' ! i)) \<longrightarrow> 0 < mr_exhausted (snd (pc_meters c ! i)) \<or> 0 < pc_signals c')"
  proof (cases "meter_runs c i")
    case False
    then have "c' = c" using assms by (simp add: meter_fires_silent)
    then show ?thesis by simp
  next
    case True
    obtain kind m where k: "pc_meters c ! i = (kind, m)" by fastforce
    have i: "i < length (pc_meters c)" using True by (simp add: meter_runs_def)
    show ?thesis
    proof (cases kind)
      case (Paid_meter payer cfg)
      obtain m' d where r: "usage_meter_run D F payer cfg [Meter_tick fault room] m db = (m', d)" by fastforce
      have "c' = c\<lparr>pc_meters := (pc_meters c)[i := (kind, m')],
          pc_signals := pc_signals c + (mr_exhausted m' - mr_exhausted m)\<rparr>"
        using assms True k Paid_meter r by (auto simp: meter_fires_def meter_runs_def)
      with True k i show ?thesis by auto
    next
      case (Guest_meter cap)
      obtain reached total where r: "guest_tick cap (sv_interval sv) (pc_spent c) = (reached, total)" by fastforce
      have "c' = c\<lparr>pc_meters := (pc_meters c)[i := (kind, if reached then exhaust m else m)],
          pc_signals := (if reached then Suc (pc_signals c) else pc_signals c), pc_spent := total\<rparr>"
        using assms True k Guest_meter r list_update_id [of "pc_meters c" i]
        by (auto simp: meter_fires_def meter_runs_def)
      with True k i show ?thesis by simp
    qed
  qed
  show "c' = c\<lparr>pc_meters := (pc_meters c)[i := (fst (pc_meters c ! i), snd (pc_meters c' ! i))],
      pc_signals := pc_signals c', pc_spent := pc_spent c'\<rparr>" by (rule all [THEN conjunct1])
  show "meter_runs c' i \<Longrightarrow> meter_runs c i" by (rule all [THEN conjunct2, THEN conjunct1, THEN mp])
  show "pc_signals c \<le> pc_signals c'" by (rule all [THEN conjunct2, THEN conjunct2, THEN conjunct1])
  show "0 < mr_exhausted (snd (pc_meters c' ! i)) \<Longrightarrow> 0 < mr_exhausted (snd (pc_meters c ! i)) \<or> 0 < pc_signals c'"
    by (rule all [THEN conjunct2, THEN conjunct2, THEN conjunct2, THEN mp])
qed

lemma meter_fires_sel:
  assumes "meter_fires D F sv i fault room (c, db) = (c', db')"
  shows "pc_open c' = pc_open c" "pc_audio c' = pc_audio c" "pc_engine c' = pc_engine c" "pc_held c' = pc_held c"
    "length (pc_meters c') = length (pc_meters c)" "j \<noteq> i \<Longrightarrow> pc_meters c' ! j = pc_meters c ! j"
    "i < length (pc_meters c) \<Longrightarrow> fst (pc_meters c' ! i) = fst (pc_meters c ! i)"
  using arg_cong [OF meter_fires_shape(1) [OF assms], of pc_open]
    arg_cong [OF meter_fires_shape(1) [OF assms], of pc_audio] arg_cong [OF meter_fires_shape(1) [OF assms], of pc_engine]
    arg_cong [OF meter_fires_shape(1) [OF assms], of pc_held] arg_cong [OF meter_fires_shape(1) [OF assms], of pc_meters]
  by (simp_all del: list_update_id) (metis fst_conv length_list_update nth_list_update_eq nth_list_update_neq)+

lemma held_ok_fires:
  assumes "held_ok c" and f: "meter_fires D F sv i fault room (c, db) = (c', db')"
  shows "held_ok c'"
proof -
  have "meter_runs c j" if "meter_runs c' j" for j
    using that meter_fires_shape(2) [OF f] meter_fires_sel(5,6) [OF f] by (cases "j = i") (auto simp: meter_runs_def)
  with assms(1) show ?thesis by (auto simp: held_ok_def meter_fires_sel [OF f])
qed

lemma held_ok_handlers:
  assumes "held_ok c" and "pc_open c"
  shows "held_ok (start_turn sv pp z lang chosen start c)" "held_ok (start_speaking sv pp lang start c)"
    "held_ok (stop_speaking sv pp c)" "held_ok (audio_chunk taken c)" "held_ok (enhanced_fallback sv pp c)"
    "held_ok (on_exhausted sv c)" "held_ok (end_connection c)"
proof -
  note same = held_ok_cong [of "_\<lparr>pc_audio := _\<rparr>"] held_ok_cong [of "_\<lparr>pc_engine := _\<rparr>"]
    held_ok_cong [of "_\<lparr>pc_receives := _\<rparr>"] held_ok_cong [of "_\<lparr>pc_signals := _\<rparr>"]
  show "held_ok (start_turn sv pp z lang chosen start c)" "held_ok (start_speaking sv pp lang start c)"
    "held_ok (stop_speaking sv pp c)" "held_ok (audio_chunk taken c)" "held_ok (enhanced_fallback sv pp c)"
    "held_ok (on_exhausted sv c)"
    using assms held_ok_drop [OF assms(1)]
    by (auto simp: start_turn_def start_speaking_def stop_speaking_def audio_chunk_def enhanced_fallback_def
        on_exhausted_def Let_def same intro!: held_ok_hold held_ok_drop)
  have "held_ok (c\<lparr>pc_audio := False\<rparr>)" using assms by (simp add: same)
  from held_ok_drop [OF this] drop_handle_stops [OF this] show "held_ok (end_connection c)"
    by (auto simp: end_connection_def held_ok_def meter_runs_def)
qed

lemma held_ok_step: "held_ok c \<Longrightarrow> peer_step D F sv pp z (c, db) e = (c', db') \<Longrightarrow> held_ok c'"
  using held_ok_fires [of c] held_ok_handlers [of c]
  by (auto simp: peer_step_def Let_def split: peer_event.splits if_splits)

lemma held_ok_run:
  assumes "held_ok c" and "peer_run D F sv pp z (c, db) es = (c', db')"
  shows "held_ok c'"
  using assms
proof (induction es arbitrary: c db)
  case (Cons e es)
  obtain c1 db1 where s: "peer_step D F sv pp z (c, db) e = (c1, db1)" by fastforce
  with Cons.prems(2) have "peer_run D F sv pp z (c1, db1) es = (c', db')" by (simp add: peer_run_def)
  with Cons.IH held_ok_step [OF Cons.prems(1) s] show ?case by blast
qed (simp add: peer_run_def)

lemma held_ok_join: "held_ok (join_meter sv pp engine spent)"
proof -
  let ?c = "\<lparr>pc_open = True, pc_audio = False, pc_engine = engine, pc_receives = eng_id engine,
               pc_meters = [], pc_held = None, pc_signals = 0, pc_spent = spent\<rparr>"
  have "held_ok ?c" by (simp add: held_ok_def meter_runs_def)
  with held_ok_hold [OF this] show ?thesis by (simp add: join_meter_def Let_def)
qed

text \<open>
  Nobody is billed twice at once: whatever a connection does, starting, stopping, falling
  back, running dry and timers in any order, at most one meter runs for it, and when it has
  gone none does.
\<close>

theorem one_meter_per_connection:
  assumes "peer_run D F sv pp z (join_meter sv pp engine spent, db) es = (c, db')"
    and "meter_runs c i" and "meter_runs c j"
  shows "i = j \<and> pc_open c"
proof -
  have "held_ok c" by (rule held_ok_run [OF held_ok_join assms(1)])
  then have "pc_held c = Some i" "pc_held c = Some j" using assms(2,3) held_okD by blast+
  with \<open>held_ok c\<close> show ?thesis by (simp add: held_ok_def)
qed

section \<open>While the speaker pays, speech is metered\<close>

text \<open>
  An open session is backed by the meter that is held: it charges the payer at the rate of the
  engine that runs, and when it has run dry its signal waits.
\<close>

definition backed :: "'f MeterServer \<Rightarrow> Payer \<Rightarrow> 'f PeerConn \<Rightarrow> bool" where
  "backed sv payer c \<longleftrightarrow> (\<exists>i cfg m. pc_held c = Some i \<and> i < length (pc_meters c)
     \<and> pc_meters c ! i = (Paid_meter payer cfg, m) \<and> mc_rate_per_second cfg = engine_rate sv (pc_engine c)
     \<and> (0 < mr_exhausted m \<longrightarrow> 0 < pc_signals c))"

lemma backed_fires:
  assumes "backed sv payer c" and f: "meter_fires D F sv i fault room (c, db) = (c', db')"
  shows "backed sv payer c'"
proof -
  obtain k cfg r where k: "pc_held c = Some k" "k < length (pc_meters c)" "pc_meters c ! k = (Paid_meter payer cfg, r)"
    "mc_rate_per_second cfg = engine_rate sv (pc_engine c)" "0 < mr_exhausted r \<longrightarrow> 0 < pc_signals c"
    using assms(1) by (auto simp: backed_def)
  let ?r = "snd (pc_meters c' ! k)"
  have "pc_meters c' ! k = (Paid_meter payer cfg, ?r)"
    using meter_fires_sel(6,7) [OF f] k(2,3) by (cases "k = i") (auto simp: prod_eq_iff)
  moreover have "0 < mr_exhausted ?r \<longrightarrow> 0 < pc_signals c'"
    using meter_fires_sel(6) [OF f, of k] meter_fires_shape(3,4) [OF f] k(3,5) by (cases "k = i") auto
  ultimately show ?thesis
    using k(1,2,4) unfolding backed_def
    by (intro exI [of _ k] exI [of _ cfg] exI [of _ ?r]) (simp add: meter_fires_sel [OF f])
qed

lemma backed_hold:
  "backed sv payer (hold_meter (Some (Paid_meter payer cfg)) c)
     = (mc_rate_per_second cfg = engine_rate sv (pc_engine c))"
  by (simp add: backed_def hold_meter_def Let_def nth_append meter_new_def)

lemma backed_update [simp]:
  "backed sv payer (c\<lparr>pc_audio := b\<rparr>) = backed sv payer c" "backed sv payer (c\<lparr>pc_receives := r\<rparr>) = backed sv payer c"
  by (simp_all add: backed_def)

lemma backed_step:
  assumes sv: "\<not> sv_listener_pays sv" "sv_billing_cfg sv" "sv_billing sv" and pp: "pp_payer pp = Some payer"
    and ok: "pc_audio c \<longrightarrow> backed sv payer c" and step: "peer_step D F sv pp z (c, db) e = (c', db')"
  shows "pc_audio c' \<longrightarrow> backed sv payer c'"
proof (cases e)
  case (Ev_tick i fault room)
  with step have f: "meter_fires D F sv i fault room (c, db) = (c', db')" by (simp add: peer_step_def)
  with ok backed_fires [OF _ f] meter_fires_sel(2) [OF f] show ?thesis by blast
next
  case (Ev_start lang chosen start)
  have "pc_audio (start_speaking sv pp lang start c) \<longrightarrow> backed sv payer (start_speaking sv pp lang start c)"
    using ok sv pp by (auto simp: start_speaking_def spawn_meter_def Let_def backed_hold)
  with step ok Ev_start sv(1) show ?thesis by (auto simp: peer_step_def split: if_splits)
next
  case (Ev_audio taken)
  with step ok show ?thesis
    by (auto simp: peer_step_def audio_chunk_def split: if_splits)
next
  case Ev_fallback
  with step ok sv(1) show ?thesis
    by (auto simp: peer_step_def enhanced_fallback_def split: if_splits)
next
  case Ev_stop
  with step ok sv(1) show ?thesis by (auto simp: peer_step_def stop_speaking_def split: if_splits)
next
  case Ev_exhausted
  with step ok sv(1) show ?thesis by (auto simp: peer_step_def on_exhausted_def Let_def split: if_splits)
next
  case Ev_disconnect
  with step ok show ?thesis by (auto simp: peer_step_def end_connection_def split: if_splits)
qed

text \<open>A charge that fails other than for want of money, and the ticks of a run where that happened.\<close>

definition charge_fails ::
  "decimal_ops \<Rightarrow> Payer \<Rightarrow> 'f MeterConfig \<Rightarrow> db_error option \<Rightarrow> usd \<Rightarrow> 'f MeterRun \<Rightarrow> BillDb \<Rightarrow> bool" where
  "charge_fails D payer cfg fault amount m db =
     (case payer of
        Pay_user uid session \<Rightarrow>
          fault \<noteq> None
          \<or> (case deduct_usage D uid (Some session) (wrap_i32 (int (meter_interval cfg))) amount db of
               Inl (Db _) \<Rightarrow> True | _ \<Rightarrow> False)
      | Pay_org org session \<Rightarrow>
          (let credits = fst (accumulator_take D (mr_credits m) amount)
           in credits \<noteq> 0
              \<and> (fault \<noteq> None
                 \<or> (case deduct_org_credits (bl_pool db) org credits ''call_translation'' session None
                           ''Sponsored call translation'' of
                      Inl _ \<Rightarrow> True | Inr _ \<Rightarrow> False))))"

definition tick_fails ::
  "decimal_ops \<Rightarrow> 'f meter_ops \<Rightarrow> 'f PeerConn \<times> BillDb \<Rightarrow> nat \<Rightarrow> db_error option \<Rightarrow> ('g, 'j) RoomManager \<Rightarrow> bool" where
  "tick_fails D F s i fault room =
     (let (c, db) = s
      in i < length (pc_meters c) \<and> mr_running (snd (pc_meters c ! i))
         \<and> (case fst (pc_meters c ! i) of
              Guest_meter _ \<Rightarrow> False
            | Paid_meter payer cfg \<Rightarrow>
                (case meter_streams cfg room of
                   None \<Rightarrow> False
                 | Some n \<Rightarrow> charge_fails D payer cfg fault (tick_amount D F cfg n) (snd (pc_meters c ! i)) db)))"

fun failed_charge ::
  "decimal_ops \<Rightarrow> 'f meter_ops \<Rightarrow> 'f MeterServer \<Rightarrow> PeerParams \<Rightarrow> 'f \<Rightarrow> 'f PeerConn \<times> BillDb
     \<Rightarrow> ('g, 'j) peer_event list \<Rightarrow> nat \<Rightarrow> bool" where
  "failed_charge D F sv pp z s [] i = False"
| "failed_charge D F sv pp z s (e # es) i =
     ((case e of Ev_tick k fault room \<Rightarrow> k = i \<and> tick_fails D F s k fault room | _ \<Rightarrow> False)
      \<or> failed_charge D F sv pp z (peer_step D F sv pp z s e) es i)"

lemma charge_stops:
  assumes "meter_charge D F payer cfg fault amount m db = (m', db')" and "mr_running m"
    and "\<not> charge_fails D payer cfg fault amount m db"
  shows "mr_running m' \<or> 0 < mr_exhausted m'"
  using assms
  by (auto simp: meter_charge_def charge_fails_def exhaust_def charged_user_def Let_def
      split: Payer.splits sum.splits BillingError.splits OrgCharge.splits prod.splits option.splits if_splits)

text \<open>The meter that is held runs, has run dry, or is one of those \<open>failed\<close>.\<close>

definition held_works :: "(nat \<Rightarrow> bool) \<Rightarrow> 'f PeerConn \<Rightarrow> bool" where
  "held_works failed c \<longleftrightarrow> (\<forall>i. pc_held c = Some i \<longrightarrow>
     mr_running (snd (pc_meters c ! i)) \<or> 0 < mr_exhausted (snd (pc_meters c ! i)) \<or> failed i)"

lemma held_works_drop [simp]: "held_works failed (drop_handle c)"
  by (simp add: held_works_def)

lemma held_works_hold [simp]: "held_works failed (hold_meter k c)"
  by (simp add: held_works_def hold_meter_def Let_def meter_new_def nth_append split: option.split)

lemma held_works_cong:
  "pc_meters c' = pc_meters c \<Longrightarrow> pc_held c' = pc_held c \<Longrightarrow> held_works failed c' = held_works failed c"
  by (simp add: held_works_def)

lemma held_works_fires:
  assumes "held_works failed c" and f: "meter_fires D F sv k fault room (c, db) = (c', db')"
  shows "held_works (\<lambda>i. k = i \<and> tick_fails D F (c, db) k fault room \<or> failed i) c'"
proof (cases "meter_runs c k")
  case False
  then have "c' = c" using f by (simp add: meter_fires_silent)
  with assms(1) show ?thesis by (auto simp: held_works_def)
next
  case True
  then have k: "k < length (pc_meters c)" "mr_running (snd (pc_meters c ! k))" by (simp_all add: meter_runs_def)
  obtain kind m where m: "pc_meters c ! k = (kind, m)" by fastforce
  have "mr_running (snd (pc_meters c' ! k)) \<or> 0 < mr_exhausted (snd (pc_meters c' ! k))
      \<or> tick_fails D F (c, db) k fault room"
  proof (cases kind)
    case (Guest_meter cap)
    with f k m show ?thesis by (auto simp: meter_fires_def exhaust_def Let_def split: prod.splits if_splits)
  next
    case (Paid_meter payer cfg)
    show ?thesis
    proof (cases "meter_streams cfg room")
      case None
      with f k m Paid_meter show ?thesis by (auto simp: meter_fires_def)
    next
      case (Some n)
      obtain m' d where c: "meter_charge D F payer cfg fault (tick_amount D F cfg n) m db = (m', d)" by fastforce
      then have "snd (pc_meters c' ! k) = m'"
        using f k m Paid_meter Some by (auto simp: meter_fires_def)
      with charge_stops [OF c] k m Paid_meter Some show ?thesis by (auto simp: tick_fails_def)
    qed
  qed
  with assms(1) show ?thesis
    using meter_fires_sel(4,6) [OF f] unfolding held_works_def by metis
qed

lemma held_works_step:
  assumes "held_works failed c" and step: "peer_step D F sv pp z (c, db) e = (c', db')"
  shows "held_works (\<lambda>i. (case e of Ev_tick k fault room \<Rightarrow> k = i \<and> tick_fails D F (c, db) k fault room | _ \<Rightarrow> False)
     \<or> failed i) c'"
proof (cases e)
  case (Ev_tick k fault room)
  with step have "meter_fires D F sv k fault room (c, db) = (c', db')" by (simp add: peer_step_def)
  from held_works_fires [OF assms(1) this] show ?thesis by (simp add: Ev_tick)
qed (use assms in \<open>auto simp: peer_step_def start_turn_def start_speaking_def stop_speaking_def audio_chunk_def
    enhanced_fallback_def on_exhausted_def end_connection_def Let_def held_works_cong [of "_\<lparr>pc_audio := _\<rparr>"]
    held_works_cong [of "_\<lparr>pc_engine := _\<rparr>"] held_works_cong [of "_\<lparr>pc_receives := _\<rparr>"]
    held_works_cong [of "_\<lparr>pc_signals := _\<rparr>"] held_works_cong [of "_\<lparr>pc_open := _\<rparr>"] split: if_splits\<close>)

lemma held_works_run:
  assumes "held_works failed c" and "peer_run D F sv pp z (c, db) es = (c', db')"
  shows "held_works (\<lambda>i. failed i \<or> failed_charge D F sv pp z (c, db) es i) c'"
  using assms
proof (induction es arbitrary: failed c db)
  case (Cons e es)
  obtain c1 db1 where s: "peer_step D F sv pp z (c, db) e = (c1, db1)" by fastforce
  with Cons.prems(2) have "peer_run D F sv pp z (c1, db1) es = (c', db')" by (simp add: peer_run_def)
  from Cons.IH [OF held_works_step [OF Cons.prems(1) s] this] show ?case
    by (auto simp: held_works_def s)
qed (simp add: peer_run_def)

text \<open>
  C22: While the speaker pays, speech is metered until a charge fails. On a connection that has a payer,
  with billing configured, whatever it does and its timers do: whenever a session is open, a meter is
  held that charges this payer at the rate of the engine that runs, and no other meter runs. That meter
  runs, or it has run dry and its signal waits in the loop, where taking it closes the session, or a
  charge of its own failed during the run for another reason than money, which ends the billing and not
  the session.
\<close>

theorem speech_is_metered:
  assumes "\<not> sv_listener_pays sv" and "sv_billing_cfg sv" and "sv_billing sv" and "pp_payer pp = Some payer"
    and "peer_run D F sv pp z (join_meter sv pp engine spent, db) es = (c, db')" and "pc_audio c"
  shows "\<exists>i cfg m. pc_held c = Some i \<and> i < length (pc_meters c) \<and> pc_meters c ! i = (Paid_meter payer cfg, m)
     \<and> mc_rate_per_second cfg = engine_rate sv (pc_engine c)
     \<and> (mr_running m \<or> 0 < mr_exhausted m \<or> failed_charge D F sv pp z (join_meter sv pp engine spent, db) es i)
     \<and> (0 < mr_exhausted m \<longrightarrow> 0 < pc_signals c
          \<and> \<not> pc_audio (fst (peer_step D F sv pp z (c, db') (Ev_exhausted :: ('g, 'j) peer_event))))
     \<and> (\<forall>j. meter_runs c j \<longrightarrow> j = i)"
proof -
  have "pc_audio c' \<longrightarrow> backed sv payer c'"
    if "pc_audio a \<longrightarrow> backed sv payer a" "peer_run D F sv pp z (a, d) es = (c', d')" for a c' d d' es
    using that
  proof (induction es arbitrary: a d)
    case (Cons e es)
    obtain a1 d1 where s: "peer_step D F sv pp z (a, d) e = (a1, d1)" by fastforce
    with Cons.prems(2) have "peer_run D F sv pp z (a1, d1) es = (c', d')" by (simp add: peer_run_def)
    with Cons.IH backed_step [OF assms(1-4) Cons.prems(1) s] show ?case by blast
  qed (simp add: peer_run_def)
  from this [OF _ assms(5)] assms(1,6) have "backed sv payer c" by (simp add: join_meter_def Let_def)
  then obtain i cfg m where b: "pc_held c = Some i" "i < length (pc_meters c)" "pc_meters c ! i = (Paid_meter payer cfg, m)"
    "mc_rate_per_second cfg = engine_rate sv (pc_engine c)" "0 < mr_exhausted m \<longrightarrow> 0 < pc_signals c"
    by (auto simp: backed_def)
  have ok: "held_ok c" by (rule held_ok_run [OF held_ok_join assms(5)])
  have "j = i" if "meter_runs c j" for j using held_okD [OF ok that] b(1) by simp
  moreover have "pc_open c" using ok assms(6) by (auto simp: held_ok_def)
  moreover have "held_works (\<lambda>_. False) (join_meter sv pp engine spent)"
    by (simp add: join_meter_def Let_def) (simp add: held_works_def)
  from held_works_run [OF this assms(5)] b(1,3) have "mr_running m \<or> 0 < mr_exhausted m \<or> failed_charge D F sv pp z (join_meter sv pp engine spent, db) es i"
    by (simp add: held_works_def)
  ultimately show ?thesis using b assms(1) by (auto simp: peer_step_def on_exhausted_def Let_def)
qed

section \<open>Where billing and translation part\<close>

lemma meter_silent_step:
  assumes "\<And>i. \<not> meter_runs c i" and "peer_step D F sv pp z (c, db) (Ev_tick i fault room) = (c', db')"
  shows "c' = c \<and> db' = db"
  using assms meter_fires_silent [of c i D F sv fault room db] by (simp add: peer_step_def)

text \<open>
  Under listener-pays, a guest of a sponsored room is translated for nothing after the
  first pause: the handler of \<open>Stop\<close> cancels the sponsor's meter of everyone who is not signed
  in, and nothing but the fallback from the browser's own engine starts it again, so whatever
  is spoken and heard afterwards, no meter runs and no balance changes.
\<close>

theorem sponsored_guest_rides_free:
  assumes sv: "sv_listener_pays sv" and pp: "pp_payer pp = Some payer" "pp_billed_user pp = None"
    and ok: "held_ok c" "pc_open c"
    and es: "Ev_fallback \<notin> set es"
    and run: "peer_run D F sv pp z (c, db) (Ev_stop # es) = (c', db')"
  shows "db' = db \<and> (\<forall>i. \<not> meter_runs c' i)"
proof -
  have free: "db' = d \<and> (\<forall>i. \<not> meter_runs c' i)"
    if "\<forall>i. \<not> meter_runs a i" "pc_held a = None" "Ev_fallback \<notin> set es" "peer_run D F sv pp z (a, d) es = (c', db')"
    for a d es
    using that
  proof (induction es arbitrary: a d)
    case (Cons e es)
    obtain a1 d1 where s: "peer_step D F sv pp z (a, d) e = (a1, d1)" by fastforce
    have drop: "drop_handle x = x" if "pc_held x = None" for x :: "'a PeerConn" using that by (simp add: drop_handle_def)
    have "d1 = d \<and> (\<forall>i. \<not> meter_runs a1 i) \<and> pc_held a1 = None"
    proof (cases e)
      case (Ev_tick i fault room)
      with s Cons.prems(1,2) meter_silent_step [of a D F sv pp z d i fault room a1 d1] show ?thesis by simp
    qed (use s Cons.prems(1-3) sv pp in \<open>auto simp: peer_step_def start_turn_def stop_speaking_def audio_chunk_def
        on_exhausted_def end_connection_def drop Let_def split: if_splits\<close>)
    moreover have "peer_run D F sv pp z (a1, d1) es = (c', db')" using Cons.prems(4) s by (simp add: peer_run_def)
    ultimately show ?case using Cons.IH Cons.prems(3) by auto
  qed (simp add: peer_run_def)
  let ?c = "drop_handle (c\<lparr>pc_audio := False\<rparr>)"
  have "held_ok (c\<lparr>pc_audio := False\<rparr>)" using ok by (simp add: held_ok_cong [of "_\<lparr>pc_audio := _\<rparr>"])
  then have "\<forall>i. \<not> meter_runs ?c i" by (simp add: drop_handle_stops)
  moreover have "peer_run D F sv pp z (?c, db) es = (c', db')"
    using run sv pp(2) ok(2) by (simp add: peer_run_def peer_step_def stop_speaking_def)
  ultimately show ?thesis using free [of ?c es db] es by simp
qed

text \<open>
  A failed charge ends the billing and not the session: when a query of the payer's meter
  fails, once, the meter stops without a signal, and from then on, as long as the speaker goes
  on speaking, audio stays open, no meter runs and no balance changes.
\<close>

theorem failed_charge_ends_billing:
  assumes c: "held_ok c" "pc_open c" "pc_audio c" "pc_signals c = 0"
    and m: "i < length (pc_meters c)" "pc_meters c ! i = (Paid_meter (Pay_user uid sid) cfg, m)" "mr_running m"
    and tick: "meter_streams cfg room = Some n"
    and es: "\<forall>e \<in> set es. case e of Ev_stop \<Rightarrow> False | Ev_audio taken \<Rightarrow> taken | Ev_fallback \<Rightarrow> False
       | Ev_disconnect \<Rightarrow> False | _ \<Rightarrow> True"
    and run: "peer_run D F sv pp z (c, db) (Ev_tick i (Some fault) room # es) = (c', db')"
  shows "db' = db \<and> pc_audio c' \<and> (\<forall>j. \<not> meter_runs c' j)"
proof -
  have free: "db' = d \<and> pc_audio c' \<and> (\<forall>j. \<not> meter_runs c' j)"
    if "\<forall>j. \<not> meter_runs a j" "pc_audio a" "pc_open a" "pc_signals a = 0"
      "\<forall>e \<in> set es. case e of Ev_stop \<Rightarrow> False | Ev_audio taken \<Rightarrow> taken | Ev_fallback \<Rightarrow> False
         | Ev_disconnect \<Rightarrow> False | _ \<Rightarrow> True"
      "peer_run D F sv pp z (a, d) es = (c', db')" for a d es
    using that
  proof (induction es arbitrary: a d)
    case (Cons e es)
    have e: "case e of Ev_stop \<Rightarrow> False | Ev_audio taken \<Rightarrow> taken | Ev_fallback \<Rightarrow> False | Ev_disconnect \<Rightarrow> False | _ \<Rightarrow> True"
      using Cons.prems(5) by simp
    have "peer_step D F sv pp z (a, d) e = (a, d)"
    proof (cases e)
      case (Ev_tick k f r)
      with meter_fires_silent [of a k] Cons.prems(1) show ?thesis by (simp add: peer_step_def)
    qed (use e Cons.prems(2-4) in \<open>simp_all add: peer_step_def start_turn_def start_speaking_def audio_chunk_def
        on_exhausted_def\<close>)
    with Cons.prems(6) have "peer_run D F sv pp z (a, d) es = (c', db')" by (simp add: peer_run_def)
    with Cons.IH [OF Cons.prems(1-4)] Cons.prems(5) show ?case by simp
  qed (simp add: peer_run_def)
  let ?a = "c\<lparr>pc_meters := (pc_meters c)[i := (Paid_meter (Pay_user uid sid) cfg, m\<lparr>mr_running := False\<rparr>)]\<rparr>"
  have f: "meter_fires D F sv i (Some fault) room (c, db) = (?a, db)"
    using m tick c(4) by (simp add: meter_fires_def meter_charge_def)
  have "meter_runs ?a j \<Longrightarrow> j = i" for j
    using held_okD [OF held_ok_fires [OF c(1) f], of j] held_okD [OF c(1), of i] m by (simp add: meter_runs_def)
  moreover have "\<not> meter_runs ?a i" using m(1) by (simp add: meter_runs_def)
  ultimately have "\<forall>j. \<not> meter_runs ?a j" by blast
  moreover have "peer_run D F sv pp z (?a, db) es = (c', db')" using run f by (simp add: peer_run_def peer_step_def)
  ultimately show ?thesis using free [of ?a es db] c es by simp
qed

text \<open>
  Under listener-pays nothing that a meter does closes the audio, the guests' cap
  included: only the client's \<open>Stop\<close>, a channel that takes no more and the end of the
  connection do.
\<close>

theorem no_cap_under_listener_pays:
  assumes "sv_listener_pays sv" and "pc_open c" and "pc_audio c"
    and "\<forall>e \<in> set es. e \<noteq> Ev_stop \<and> e \<noteq> Ev_audio False \<and> e \<noteq> Ev_disconnect"
    and "peer_run D F sv pp z (c, db) es = (c', db')"
  shows "pc_audio c'"
  using assms(2-)
proof (induction es arbitrary: c db)
  case (Cons e es)
  obtain a d where s: "peer_step D F sv pp z (c, db) e = (a, d)" by fastforce
  have e: "e \<noteq> Ev_stop" "e \<noteq> Ev_audio False" "e \<noteq> Ev_disconnect" using Cons.prems(3) by simp_all
  have "pc_open a \<and> pc_audio a"
  proof (cases e)
    case (Ev_tick k f r)
    with s Cons.prems(1,2) meter_fires_sel(1,2) [of D F sv k f r c db a d] show ?thesis by (simp add: peer_step_def)
  qed (use s e Cons.prems(1,2) assms(1) in \<open>auto simp: peer_step_def start_turn_def audio_chunk_def enhanced_fallback_def
      on_exhausted_def Let_def split: if_splits\<close>)
  moreover have "peer_run D F sv pp z (a, d) es = (c', db')" using Cons.prems(4) s by (simp add: peer_run_def)
  ultimately show ?case using Cons.IH [of a d] Cons.prems(3) by simp
qed (simp add: peer_run_def)

section \<open>Who is admitted\<close>

text \<open>
  C25: A signed-in user is admitted exactly when the token is theirs, no ban is known, consent
  is on record, and somebody can pay: the sponsor, or their own balance. An unanswered
  question about consent or money turns them away; one about a ban does not.
\<close>

theorem authorize_admits_iff:
  "authorize A billing token sponsored = Inr (Some p) \<longleftrightarrow>
     (\<exists>t db min_balance uid. token = Some t \<and> trim t \<noteq> [] \<and> billing = Some (db, min_balance)
        \<and> Option.bind (ao_verify_jwt A (trim t)) (ao_parse_uuid A) = Some uid \<and> p = authed_peer db uid
        \<and> (ao_has_safety A \<longrightarrow> (\<nexists>reason. ao_is_banned A uid = Inr (Some reason)) \<and> ao_has_consented A uid = Inr True)
        \<and> (sponsored \<or> (\<exists>b. bill_balance db uid = Some b \<and> min_balance \<le> b)))"
  (is "?l \<longleftrightarrow> ?r")
proof -
  have gate: "safety_gate A uid = None \<longleftrightarrow>
      (ao_has_safety A \<longrightarrow> (\<nexists>reason. ao_is_banned A uid = Inr (Some reason)) \<and> ao_has_consented A uid = Inr True)" for uid
    by (auto simp: safety_gate_def split: sum.splits option.splits bool.splits)
  have join: "can_join mb db uid = Inr True \<longleftrightarrow> (\<exists>b. bill_balance db uid = Some b \<and> mb \<le> b)" for mb db uid
    by (auto simp: can_join_def get_balance_def bill_balance_def split: option.splits)
  show ?thesis
  proof
    assume l: ?l
    then obtain t where t: "token = Some t" "trim t \<noteq> []"
      by (auto simp: authorize_def Let_def split: option.splits if_splits)
    with l obtain db mb uid where b: "billing = Some (db, mb)"
      "Option.bind (ao_verify_jwt A (trim t)) (ao_parse_uuid A) = Some uid"
      by (auto simp: authorize_def Let_def split: option.splits if_splits)
    have r: "(case safety_gate A uid of
           Some e \<Rightarrow> Inl e
         | None \<Rightarrow> if sponsored then Inr (Some (authed_peer db uid))
             else case can_join mb db uid of
                    Inr True \<Rightarrow> Inr (Some (authed_peer db uid))
                  | Inr False \<Rightarrow> Inl Insufficient_balance
                  | Inl _ \<Rightarrow> Inl Billing_unavailable) = Inr (Some p)"
      using l t b by (simp add: authorize_def)
    then have "safety_gate A uid = None" by (cases "safety_gate A uid") simp_all
    moreover from r this have "p = authed_peer db uid" "sponsored \<or> can_join mb db uid = Inr True"
      by (auto split: if_splits sum.splits bool.splits)
    ultimately show ?r using t b gate [of uid] join [of mb db uid] by blast
  next
    assume ?r
    then obtain t db mb uid where t: "token = Some t" "trim t \<noteq> []" "billing = Some (db, mb)"
      "Option.bind (ao_verify_jwt A (trim t)) (ao_parse_uuid A) = Some uid" "p = authed_peer db uid"
      and s: "ao_has_safety A \<longrightarrow> (\<nexists>reason. ao_is_banned A uid = Inr (Some reason)) \<and> ao_has_consented A uid = Inr True"
        "sponsored \<or> (\<exists>b. bill_balance db uid = Some b \<and> mb \<le> b)"
      by blast
    have g: "safety_gate A uid = None" "sponsored \<or> can_join mb db uid = Inr True"
      using gate [of uid] join [of mb db uid] s by blast+
    from g(2) show ?l by (cases sponsored) (simp_all add: authorize_def t g(1))
  qed
qed

section \<open>Two connections\<close>

definition sample_standard :: "rat EngineMetadata" where
  "sample_standard = \<lparr>eng_id = STANDARD_ID, eng_display_name = [], eng_tier = ''standard'', eng_description = [],
     eng_cost_per_minute = 24, eng_markup = 0, eng_input_languages = [], eng_output_languages = [],
     eng_capabilities = \<lparr>ec_translated_audio = True, ec_cost_scales_per_language = True,
       ec_client_direct = False, ec_max_room_size = 4\<rparr>\<rparr>"

definition sample_server :: "bool \<Rightarrow> rat MeterServer" where
  "sample_server listener_pays = \<lparr>sv_listener_pays = listener_pays, sv_billing_cfg = True, sv_billing = True,
     sv_interval = 5, sv_low_balance = 2,
     sv_floats = \<lparr>f64_of_nat = of_nat, f64_add = (+), f64_mul = (*), f64_div = (/)\<rparr>,
     sv_engines = register sample_standard (registry_new STANDARD_ID), sv_default = sample_standard\<rparr>"

definition sample_params :: "Payer \<Rightarrow> nat option \<Rightarrow> PeerParams" where
  "sample_params payer user = \<lparr>pp_room = ''r'', pp_id = ''a'', pp_payer = Some payer, pp_billed_user = user,
     pp_guest_cap = None\<rparr>"

definition speaks :: "(nat, nat) peer_event" where
  "speaks = Ev_start ''it'' [] (\<lambda>_. Started)"

abbreviation sample_peer_run ::
  "bool \<Rightarrow> PeerParams \<Rightarrow> rat PeerConn \<times> BillDb \<Rightarrow> (nat, nat) peer_event list \<Rightarrow> rat PeerConn \<times> BillDb" where
  "sample_peer_run lp pp \<equiv> peer_run exact_decimal sample_meter_ops (sample_server lp) pp 0"

definition sample_talking :: "rat PeerConn" where
  "sample_talking = \<lparr>pc_open = True, pc_audio = True, pc_engine = sample_standard, pc_receives = STANDARD_ID,
     pc_meters = [(Paid_meter (Pay_user 1 9) (sample_meter (2 / 5)), meter_new)], pc_held = Some 0,
     pc_signals = 0, pc_spent = 0\<rparr>"

lemma sample_server_sel [simp]:
  "sv_listener_pays (sample_server b) = b" "sv_billing_cfg (sample_server b)" "sv_billing (sample_server b)"
  "sv_default (sample_server b) = sample_standard" "engine_rate (sample_server b) sample_standard = 2 / 5"
  "sv_interval (sample_server b) = 5" "sv_low_balance (sample_server b) = 2"
  "get_engine (sv_engines (sample_server b)) STANDARD_ID = Some sample_standard"
  by (simp_all add: sample_server_def engine_rate_def user_rate_per_second_def user_rate_per_minute_def
      sample_standard_def register_def registry_new_def get_engine_def)

lemma sample_params_sel [simp]:
  "pp_payer (sample_params p u) = Some p" "pp_billed_user (sample_params p u) = u" "pp_room (sample_params p u) = ''r''"
  "pp_id (sample_params p u) = ''a''"
  by (simp_all add: sample_params_def)

lemma sample_speaks:
  "sample_peer_run False (sample_params (Pay_user 1 9) (Some 1))
     (join_meter (sample_server False) (sample_params (Pay_user 1 9) (Some 1)) sample_standard 0, db) [speaks]
     = (sample_talking, db)"
  by (simp add: peer_run_def peer_step_def speaks_def join_meter_def start_speaking_def hold_meter_def drop_handle_def
      spawn_meter_def sample_talking_def sample_meter_def Let_def) (simp add: sample_standard_def)

theorem one_meter_per_connection_witness:
  "meter_runs sample_talking 0 \<and> pc_open sample_talking"
proof -
  have r: "meter_runs sample_talking 0" by (simp add: meter_runs_def sample_talking_def meter_new_def)
  with one_meter_per_connection [OF sample_speaks r r] show ?thesis by simp
qed

theorem speech_is_metered_witness:
  "\<exists>cfg m. pc_meters sample_talking ! 0 = (Paid_meter (Pay_user 1 9) cfg, m) \<and> mc_rate_per_second cfg = 2 / 5
     \<and> mr_running m"
proof -
  have "pc_audio sample_talking" by (simp add: sample_talking_def)
  from speech_is_metered [OF _ _ _ _ sample_speaks this] obtain cfg m where
    "pc_meters sample_talking ! 0 = (Paid_meter (Pay_user 1 9) cfg, m)" "mc_rate_per_second cfg = 2 / 5"
    "mr_running m \<or> 0 < mr_exhausted m"
    by (auto simp: sample_talking_def speaks_def)
  then show ?thesis by (auto simp: sample_talking_def meter_new_def)
qed

theorem sponsored_guest_rides_free_witness:
  "case sample_peer_run True (sample_params (Pay_org 1 None) None)
       (join_meter (sample_server True) (sample_params (Pay_org 1 None) None) sample_standard 0, sample_paying)
       (Ev_stop # [speaks, Ev_tick 0 None sample_conversation]) of
     (c, db) \<Rightarrow> db = sample_paying \<and> pc_audio c"
proof -
  let ?pp = "sample_params (Pay_org 1 None) None"
  let ?c = "join_meter (sample_server True) ?pp sample_standard 0"
  let ?es = "[speaks, Ev_tick 0 None sample_conversation]"
  obtain c db where r: "sample_peer_run True ?pp (?c, sample_paying) (Ev_stop # ?es) = (c, db)" by fastforce
  have o: "pc_open ?c" "pc_audio ?c = False" by (simp_all add: join_meter_def Let_def)
  from sponsored_guest_rides_free [OF _ _ _ held_ok_join o(1) _ r] have free: "db = sample_paying" "\<not> meter_runs c i" for i
    by (auto simp: speaks_def)
  obtain c1 d1 where s: "sample_peer_run True ?pp (?c, sample_paying) [Ev_stop, speaks] = (c1, d1)" by fastforce
  have "meter_fires exact_decimal sample_meter_ops (sample_server True) 0 None sample_conversation (c1, d1) = (c, db)"
    using r s by (simp add: peer_run_def peer_step_def)
  moreover have "pc_audio c1"
    using s o by (auto simp: peer_run_def peer_step_def speaks_def stop_speaking_def start_turn_def turn_opens_def Let_def)
  ultimately have "pc_audio c" using meter_fires_sel(2) by metis
  with free(1) show ?thesis unfolding r by simp
qed

theorem failed_charge_ends_billing_witness:
  "case sample_peer_run False (sample_params (Pay_user 1 9) (Some 1)) (sample_talking, sample_paying)
       (Ev_tick 0 (Some OutOfRange) sample_conversation #
        [Ev_audio True, Ev_tick 0 None sample_conversation, speaks, Ev_tick 0 None sample_conversation]) of
     (c, db) \<Rightarrow> db = sample_paying \<and> pc_audio c"
proof -
  let ?es = "[Ev_audio True, Ev_tick 0 None sample_conversation, speaks, Ev_tick 0 None sample_conversation]"
  obtain c db where r: "sample_peer_run False (sample_params (Pay_user 1 9) (Some 1)) (sample_talking, sample_paying)
       (Ev_tick 0 (Some OutOfRange) sample_conversation # ?es) = (c, db)" by fastforce
  have ok: "held_ok sample_talking" by (rule held_ok_run [OF held_ok_join sample_speaks])
  have t: "pc_open sample_talking" "pc_audio sample_talking" "pc_signals sample_talking = 0"
    "0 < length (pc_meters sample_talking)"
    "pc_meters sample_talking ! 0 = (Paid_meter (Pay_user 1 9) (sample_meter (2 / 5)), meter_new)"
    "mr_running (meter_new :: rat MeterRun)"
    by (simp_all add: sample_talking_def meter_new_def)
  from failed_charge_ends_billing [OF ok t sample_streams _ r] show ?thesis
    unfolding r by (simp add: speaks_def)
qed

definition sample_auth :: auth_ops where
  "sample_auth = \<lparr>ao_verify_jwt = (\<lambda>_. Some ''u''), ao_parse_uuid = (\<lambda>_. Some 1), ao_has_safety = True,
     ao_is_banned = (\<lambda>_. Inl RowNotFound), ao_has_consented = (\<lambda>_. Inr True)\<rparr>"

theorem authorize_admits_iff_witness:
  "authorize sample_auth (Some (sample_bill, 1)) (Some [65]) False = Inr (Some (authed_peer sample_bill 1))"
proof -
  have "trim [65] = [65]" by (simp add: trim_def is_whitespace_def)
  moreover have "bill_balance sample_bill 1 = Some 5" by (simp add: bill_balance_def sample_bill_def sample_user_def)
  ultimately show ?thesis
    by (subst authorize_admits_iff) (simp add: sample_auth_def)
qed

end
