(* ===== verification/Numbers.thy ===== *)
theory Numbers
  imports Inbound
begin

text \<open>
  The telephone numbers of an organisation (\<^verbatim>\<open>voip/numbers.rs\<close>, the types of \<^verbatim>\<open>telephony/mod.rs\<close>, the
  tables of \<^verbatim>\<open>migrations/056_voip.sql\<close>, \<^verbatim>\<open>061\<close> and \<^verbatim>\<open>064\<close>): searching, buying, proving ownership,
  giving back, the monthly renewal, the routing and opening hours of a number, and the caller
  id that a call may present (\<open>resolve_caller_id\<close> of \<^verbatim>\<open>voip/routes.rs\<close>).

  The carrier is a parameter that answers requests; what it was told is logged in \<open>nb_commands\<close>,
  which no rollback takes back. A handler returns its reply and the new tables. While \<open>buy\<close> waits
  for the carrier other transactions run: that is its argument \<open>during\<close>. Instants are
  microseconds. The columns that record the carrier's own prices are only written and are left
  out, like \<open>label\<close>, \<open>project_id\<close> and \<open>team_id\<close>, which no modelled operation touches.
\<close>

section \<open>The carrier's vocabulary\<close>

datatype NumberStatus =
  Ordering | PendingRegulatory | RegulatoryReview | RegulatoryRejected | Active | Suspended
| Releasing | Released | Number_Failed

fun number_status_as_str :: "NumberStatus \<Rightarrow> string" where
  "number_status_as_str Ordering = ''ordering''"
| "number_status_as_str PendingRegulatory = ''pending_regulatory''"
| "number_status_as_str RegulatoryReview = ''regulatory_review''"
| "number_status_as_str RegulatoryRejected = ''regulatory_rejected''"
| "number_status_as_str Active = ''active''"
| "number_status_as_str Suspended = ''suspended''"
| "number_status_as_str Releasing = ''releasing''"
| "number_status_as_str Released = ''released''"
| "number_status_as_str Number_Failed = ''failed''"

text \<open>\<open>trim().to_ascii_lowercase()\<close>: the code points of A to Z move by 32.\<close>

definition word_of :: "ustring \<Rightarrow> ustring" where
  "word_of raw = map (\<lambda>c. if 65 \<le> c \<and> c \<le> 90 then c + 32 else c) (trim raw)"

definition number_status_parse :: "ustring \<Rightarrow> NumberStatus" where
  "number_status_parse raw =
     (let w = word_of raw
      in if w \<in> set (map ustr [''pending_regulatory'', ''pending-regulatory'', ''pending'']) then PendingRegulatory
         else if w \<in> set (map ustr [''regulatory_review'', ''regulatory-review'']) then RegulatoryReview
         else if w \<in> set (map ustr [''regulatory_rejected'', ''regulatory-rejected'']) then RegulatoryRejected
         else if w = ustr ''active'' then Active
         else if w = ustr ''suspended'' then Suspended
         else if w = ustr ''releasing'' then Releasing
         else if w \<in> set (map ustr [''released'', ''deleted'']) then Released
         else if w = ustr ''failed'' then Number_Failed
         else Ordering)"

datatype NumberKind = LocalNumber | National | TollFree | Mobile

fun number_kind_as_str :: "NumberKind \<Rightarrow> string" where
  "number_kind_as_str LocalNumber = ''local''"
| "number_kind_as_str National = ''national''"
| "number_kind_as_str TollFree = ''toll_free''"
| "number_kind_as_str Mobile = ''mobile''"

definition number_kind_parse :: "ustring \<Rightarrow> NumberKind" where
  "number_kind_parse raw =
     (let w = word_of raw
      in if w = ustr ''national'' then National
         else if w \<in> set (map ustr [''toll_free'', ''tollfree'', ''toll-free'']) then TollFree
         else if w = ustr ''mobile'' then Mobile
         else LocalNumber)"

datatype VerificationState = Verification_Pending | Verified | Rejected

fun verification_as_str :: "VerificationState \<Rightarrow> string" where
  "verification_as_str Verification_Pending = ''pending''"
| "verification_as_str Verified = ''verified''"
| "verification_as_str Rejected = ''rejected''"

datatype ProviderError =
  Unauthorized | AccountBlocked | RateLimited | DestinationRefused | Unavailable string
| Provider_Malformed string | Provider_Unsupported string

record NumberSearch =
  ns_country :: string
  ns_area_code :: "string option"
  ns_kind :: "NumberKind option"
  ns_limit :: nat

record NumberOffer =
  no_e164 :: ustring
  no_country :: string
  no_kind :: NumberKind
  no_monthly_cost :: usd
  no_setup_cost :: usd
  no_currency :: string
  no_requirement :: "string option"

text \<open>\<open>pn_order\<close> is the order and its sub-order.\<close>

record PurchasedNumber =
  pn_id :: string
  pn_status :: NumberStatus
  pn_requirement :: "string option"
  pn_order :: "(string \<times> string) option"

record number_carrier =
  nc_id :: string
  nc_search :: "NumberSearch \<Rightarrow> ProviderError + NumberOffer list"
  nc_purchase :: "string \<Rightarrow> string \<Rightarrow> ProviderError + PurchasedNumber"
  nc_release :: "string \<Rightarrow> ProviderError + unit"
  nc_start_verification :: "E164 \<Rightarrow> ProviderError + string"
  nc_check_verification :: "string \<Rightarrow> ProviderError + VerificationState"

datatype NumberCommand = Purchase_number string string | Release_number string

section \<open>The tables\<close>

record VoipNumber =
  vn_id :: nat
  vn_org :: nat
  vn_provider :: string
  vn_provider_number :: "string option"
  vn_e164 :: string
  vn_country :: string
  vn_inbound :: bool
  vn_outbound :: bool
  vn_default :: bool
  vn_verification :: VerificationState
  vn_verification_id :: "string option"
  vn_status :: NumberStatus
  vn_reason :: "ustring option"
  vn_requirement :: "string option"
  vn_monthly :: "usd option"
  vn_setup :: "usd option"
  vn_key :: "string option"
  vn_next_renewal :: "int option"
  vn_suspended_at :: "int option"
  vn_order :: "string option"
  vn_sub_order :: "string option"
  vn_kind :: "string option"
  vn_group :: "nat option"
  vn_next_check :: "int option"
  vn_failures :: int

text \<open>Rows are in the order of their creation.\<close>

record NumbersDb =
  nb_numbers :: "VoipNumber list"
  nb_pool :: CreditDb
  nb_routing :: "nat \<rightharpoonup> RoutingRow"
  nb_hours :: "nat \<rightharpoonup> HoursRow"
  nb_commands :: "NumberCommand list"

definition change_number :: "nat \<Rightarrow> (VoipNumber \<Rightarrow> VoipNumber) \<Rightarrow> NumbersDb \<Rightarrow> NumbersDb" where
  "change_number i f db = db\<lparr>nb_numbers := map (\<lambda>n. if vn_id n = i then f n else n) (nb_numbers db)\<rparr>"

definition number_of :: "NumbersDb \<Rightarrow> nat \<Rightarrow> nat \<Rightarrow> VoipNumber option" where
  "number_of db org i = find (\<lambda>n. vn_id n = i \<and> vn_org n = org) (nb_numbers db)"

definition command :: "NumberCommand \<Rightarrow> NumbersDb \<Rightarrow> NumbersDb" where
  "command c db = db\<lparr>nb_commands := nb_commands db @ [c]\<rparr>"

text \<open>The unique indexes on the number and on the purchase key, and the range of \<open>NUMERIC(12, 6)\<close>.\<close>

definition insert_number :: "VoipNumber \<Rightarrow> NumbersDb \<Rightarrow> db_error + NumbersDb" where
  "insert_number row db =
     (if \<exists>n \<in> set (nb_numbers db). vn_e164 n = vn_e164 row
           \<or> (vn_org n = vn_org row \<and> vn_key n \<noteq> None \<and> vn_key n = vn_key row)
      then Inl UniqueViolation
      else if \<exists>x \<in> set_option (vn_monthly row) \<union> set_option (vn_setup row). 10 ^ 6 \<le> \<bar>x\<bar>
      then Inl OutOfRange
      else Inr (db\<lparr>nb_numbers := nb_numbers db @ [row]\<rparr>))"

section \<open>Replies and the caller's role\<close>

text \<open>A refusal is its HTTP status and its code.\<close>

type_synonym 'a reply = "(nat \<times> string) + 'a"

definition role_rank :: "string \<Rightarrow> nat" where
  "role_rank r = (if r = ''owner'' then 3 else if r = ''admin'' then 2 else if r = ''member'' then 1 else 0)"

definition require_role :: "(nat \<Rightarrow> nat \<Rightarrow> string option) \<Rightarrow> nat \<Rightarrow> nat \<Rightarrow> nat \<Rightarrow> string reply" where
  "require_role roles org user min_rank =
     (case roles org user of
        None \<Rightarrow> Inl (404, ''organization not found'')
      | Some r \<Rightarrow> if min_rank \<le> role_rank r then Inr r else Inl (403, ''insufficient role''))"

definition db_failed :: "nat \<times> string" where "db_failed = (500, ''db error'')"

definition misconfigured :: "nat \<times> string" where "misconfigured = (503, ''voip_misconfigured'')"

text \<open>
  What a handler finds around it. \<open>ne_markup\<close> is the configured rate, \<open>None\<close> when VoIP is off and
  \<open>Some None\<close> when the float is not a decimal.
\<close>

record number_env =
  ne_carrier :: "number_carrier option"
  ne_markup :: "rat option option"
  ne_roles :: "nat \<Rightarrow> nat \<Rightarrow> string option"
  ne_utf8 :: "ustring \<Rightarrow> string"
  ne_zone_ok :: "string \<Rightarrow> bool"
  ne_ring_seconds :: int

definition number_markup :: "number_env \<Rightarrow> NumberMarkupPolicy reply" where
  "number_markup E =
     (case ne_markup E of
        None \<Rightarrow> Inl (404, ''voip is not enabled'')
      | Some None \<Rightarrow> Inl misconfigured
      | Some (Some rate) \<Rightarrow>
          (case number_markup_new rate of Inl _ \<Rightarrow> Inl misconfigured | Inr p \<Rightarrow> Inr p))"

definition number_provider :: "number_env \<Rightarrow> number_carrier reply" where
  "number_provider E =
     (case ne_carrier E of None \<Rightarrow> Inl (404, ''voip is not enabled'') | Some c \<Rightarrow> Inr c)"

fun number_provider_err :: "ProviderError \<Rightarrow> nat \<times> string" where
  "number_provider_err (Provider_Unsupported _) = (501, ''numbers_unsupported'')"
| "number_provider_err Unauthorized = misconfigured"
| "number_provider_err AccountBlocked = misconfigured"
| "number_provider_err _ = (502, ''provider_unavailable'')"

definition ask :: "ProviderError + 'a \<Rightarrow> 'a reply" where
  "ask r = (case r of Inl e \<Rightarrow> Inl (number_provider_err e) | Inr x \<Rightarrow> Inr x)"

definition price_of :: "decimal_ops \<Rightarrow> NumberMarkupPolicy \<Rightarrow> usd \<Rightarrow> usd reply" where
  "price_of D p cost = (case customer_price D p cost of Inl _ \<Rightarrow> Inl misconfigured | Inr x \<Rightarrow> Inr x)"

text \<open>A step of a handler that may refuse; the tables are as the step found them.\<close>

definition or_refuse :: "'a reply \<Rightarrow> 's \<Rightarrow> ('a \<Rightarrow> 'b reply \<times> 's) \<Rightarrow> 'b reply \<times> 's" where
  "or_refuse r s k = (case r of Inl e \<Rightarrow> (Inl e, s) | Inr x \<Rightarrow> k x)"

section \<open>Searching and buying\<close>

record PricedOffer =
  po_e164 :: ustring
  po_kind :: string
  po_monthly :: usd
  po_setup :: usd
  po_requirement :: "string option"

definition priced_offer :: "decimal_ops \<Rightarrow> NumberMarkupPolicy \<Rightarrow> NumberOffer \<Rightarrow> PricedOffer reply" where
  "priced_offer D p off =
     (case price_of D p (no_monthly_cost off) of
        Inl e \<Rightarrow> Inl e
      | Inr monthly \<Rightarrow>
          (case price_of D p (no_setup_cost off) of
             Inl e \<Rightarrow> Inl e
           | Inr setup \<Rightarrow>
               Inr \<lparr>po_e164 = no_e164 off, po_kind = number_kind_as_str (no_kind off), po_monthly = monthly,
                    po_setup = setup, po_requirement = no_requirement off\<rparr>))"

text \<open>\<open>collect\<close> into a result: the first refusal wins.\<close>

fun collect :: "'a reply list \<Rightarrow> 'a list reply" where
  "collect [] = Inr []"
| "collect (Inl e # rs) = Inl e"
| "collect (Inr x # rs) = map_sum id (Cons x) (collect rs)"

definition search_numbers ::
  "decimal_ops \<Rightarrow> number_env \<Rightarrow> nat \<Rightarrow> nat \<Rightarrow> string \<Rightarrow> string option \<Rightarrow> ustring option \<Rightarrow> nat option
     \<Rightarrow> PricedOffer list reply" where
  "search_numbers D E org user country area kind limit =
     fst (or_refuse (require_role (ne_roles E) org user 1) () (\<lambda>_.
          or_refuse (number_markup E) () (\<lambda>policy.
          or_refuse (number_provider E) () (\<lambda>c.
          or_refuse (ask (nc_search c \<lparr>ns_country = country, ns_area_code = area,
                            ns_kind = map_option number_kind_parse kind,
                            ns_limit = (case limit of None \<Rightarrow> 10 | Some l \<Rightarrow> l)\<rparr>)) () (\<lambda>offers.
            (collect (map (priced_offer D policy) offers), ()))))))"

record BuyBody =
  bb_e164 :: ustring
  bb_country :: string
  bb_area_code :: "string option"
  bb_key :: string

definition offer_for :: "number_carrier \<Rightarrow> BuyBody \<Rightarrow> NumberOffer reply" where
  "offer_for c body =
     (case ask (nc_search c \<lparr>ns_country = bb_country body, ns_area_code = bb_area_code body, ns_kind = None,
                              ns_limit = 10\<rparr>) of
        Inl e \<Rightarrow> Inl e
      | Inr offers \<Rightarrow>
          (case find (\<lambda>off. no_e164 off = bb_e164 body) offers of
             None \<Rightarrow> Inl (409, ''number_unavailable'')
           | Some off \<Rightarrow> Inr off))"

definition INITIAL_REGULATORY_CHECK_SECS :: int where "INITIAL_REGULATORY_CHECK_SECS = 120"

definition initial_regulatory_check_at ::
  "int \<Rightarrow> NumberStatus \<Rightarrow> (string \<times> string) option \<Rightarrow> int option" where
  "initial_regulatory_check_at now status order =
     (if status = PendingRegulatory \<and> order \<noteq> None
      then Some (now + INITIAL_REGULATORY_CHECK_SECS * 1000000) else None)"

definition days :: "int \<Rightarrow> int" where "days n = n * 86400000000"

text \<open>The row of a purchase; \<open>verification_status\<close> is \<open>verified\<close> from the start.\<close>

definition purchased_row ::
  "nat \<Rightarrow> nat \<Rightarrow> int \<Rightarrow> number_carrier \<Rightarrow> E164 \<Rightarrow> BuyBody \<Rightarrow> NumberOffer \<Rightarrow> PurchasedNumber \<Rightarrow> usd \<Rightarrow> usd
     \<Rightarrow> VoipNumber" where
  "purchased_row i org now c dest body off bought monthly setup =
     (let status = (if pn_requirement bought \<noteq> None then PendingRegulatory else pn_status bought)
      in \<lparr>vn_id = i, vn_org = org, vn_provider = nc_id c, vn_provider_number = Some (pn_id bought),
          vn_e164 = e164_as_str dest, vn_country = (case e164_region dest of None \<Rightarrow> '''' | Some r \<Rightarrow> r),
          vn_inbound = False, vn_outbound = (status = Active), vn_default = False,
          vn_verification = Verified, vn_verification_id = None, vn_status = status,
          vn_reason = map_option ustr (pn_requirement bought), vn_requirement = pn_requirement bought,
          vn_monthly = Some monthly, vn_setup = Some setup, vn_key = Some (bb_key body),
          vn_next_renewal = Some (now + days 30), vn_suspended_at = None,
          vn_order = map_option fst (pn_order bought), vn_sub_order = map_option snd (pn_order bought),
          vn_kind = Some (number_kind_as_str (no_kind off)), vn_group = None,
          vn_next_check = initial_regulatory_check_at now status (pn_order bought), vn_failures = 0\<rparr>)"

text \<open>The fee of a purchase or a renewal; nothing to pay is a charge.\<close>

definition take_fee ::
  "nat \<Rightarrow> int \<Rightarrow> string \<Rightarrow> nat option \<Rightarrow> string \<Rightarrow> CreditDb \<Rightarrow> db_error + OrgCharge \<times> CreditDb" where
  "take_fee org charge kind actor text pool =
     (if 0 < charge then deduct_org_credits_tx pool org charge kind None actor text else Inr (Charged 0, pool))"

datatype Bought =
  Existing nat string NumberStatus
| Bought nat string NumberStatus

text \<open>From the carrier's answer to the commit: the transaction that charges and stores.\<close>

definition store_purchase ::
  "decimal_ops \<Rightarrow> number_env \<Rightarrow> number_carrier \<Rightarrow> nat \<Rightarrow> VoipNumber \<Rightarrow> E164 \<Rightarrow> usd \<Rightarrow> NumbersDb
     \<Rightarrow> Bought reply \<times> NumbersDb" where
  "store_purchase D E c user row dest setup db =
     (case take_fee (vn_org row) (credits_ceil D setup) ''voip_number_purchase'' (Some user)
             (case e164_masked dest of None \<Rightarrow> '''' | Some m \<Rightarrow> ne_utf8 E m) (nb_pool db) of
        Inl _ \<Rightarrow> (Inl db_failed, db)
      | Inr (Insufficient _ _, _) \<Rightarrow>
          (Inl (402, ''insufficient_credits''),
           (case vn_provider_number row of None \<Rightarrow> db | Some i \<Rightarrow> command (Release_number i) db))
      | Inr (Charged _, pool) \<Rightarrow>
          (case insert_number row (db\<lparr>nb_pool := pool\<rparr>) of
             Inl _ \<Rightarrow> (Inl db_failed, db)
           | Inr db' \<Rightarrow> (Inr (Bought (vn_id row) (vn_e164 row) (vn_status row)), db')))"

definition buy ::
  "decimal_ops \<Rightarrow> number_env \<Rightarrow> nat \<Rightarrow> nat \<Rightarrow> BuyBody \<Rightarrow> nat \<Rightarrow> int \<Rightarrow> (NumbersDb \<Rightarrow> NumbersDb) \<Rightarrow> NumbersDb
     \<Rightarrow> Bought reply \<times> NumbersDb" where
  "buy D E org user body new_id now during db =
     or_refuse (require_role (ne_roles E) org user 2) db (\<lambda>_.
     or_refuse (number_markup E) db (\<lambda>policy.
     case e164_parse (bb_e164 body) of Inl _ \<Rightarrow> (Inl (400, ''number_not_e164''), db) | Inr dest \<Rightarrow>
     (case find (\<lambda>n. vn_org n = org \<and> vn_key n = Some (bb_key body)) (nb_numbers db) of
        Some n \<Rightarrow> (Inr (Existing (vn_id n) (vn_e164 n) (vn_status n)), db)
      | None \<Rightarrow>
          or_refuse (number_provider E) db (\<lambda>c.
          or_refuse (offer_for c body) db (\<lambda>off.
          or_refuse (price_of D policy (no_monthly_cost off)) db (\<lambda>monthly.
          or_refuse (price_of D policy (no_setup_cost off)) db (\<lambda>setup.
            let db1 = during (command (Purchase_number (e164_as_str dest) (bb_key body)) db)
            in or_refuse (ask (nc_purchase c (e164_as_str dest) (bb_key body))) db1 (\<lambda>bought.
                 store_purchase D E c user (purchased_row new_id org now c dest body off bought monthly setup)
                   dest setup db1))))))))"
section \<open>Proving ownership and giving back\<close>

definition start_verification ::
  "number_env \<Rightarrow> nat \<Rightarrow> nat \<Rightarrow> nat \<Rightarrow> NumbersDb \<Rightarrow> unit reply \<times> NumbersDb" where
  "start_verification E org user i db =
     or_refuse (require_role (ne_roles E) org user 2) db (\<lambda>_.
     case number_of db org i of None \<Rightarrow> (Inl (404, ''number not found''), db) | Some n \<Rightarrow>
     (case e164_parse (ustr (vn_e164 n)) of Inl _ \<Rightarrow> (Inl (400, ''number_not_e164''), db) | Inr parsed \<Rightarrow>
      or_refuse (number_provider E) db (\<lambda>c.
      or_refuse (ask (nc_start_verification c parsed)) db (\<lambda>started.
        (Inr (), change_number i (\<lambda>n. if vn_org n = org
           then n\<lparr>vn_verification_id := Some started, vn_verification := Verification_Pending\<rparr> else n) db)))))"

definition check_verification ::
  "number_env \<Rightarrow> nat \<Rightarrow> nat \<Rightarrow> nat \<Rightarrow> NumbersDb \<Rightarrow> VerificationState reply \<times> NumbersDb" where
  "check_verification E org user i db =
     or_refuse (require_role (ne_roles E) org user 2) db (\<lambda>_.
     case Option.bind (number_of db org i) vn_verification_id of
       None \<Rightarrow> (Inl (404, ''no verification is in flight for that number''), db)
     | Some handle \<Rightarrow>
      or_refuse (number_provider E) db (\<lambda>c.
      or_refuse (ask (nc_check_verification c handle)) db (\<lambda>state_now.
        (Inr state_now,
         change_number i (\<lambda>n. if vn_org n = org then n\<lparr>vn_verification := state_now\<rparr> else n) db))))"

definition released_row :: "VoipNumber \<Rightarrow> VoipNumber" where
  "released_row n =
     n\<lparr>vn_status := Released, vn_outbound := False, vn_inbound := False, vn_default := False,
       vn_next_renewal := None\<rparr>"

definition release_number :: "number_env \<Rightarrow> nat \<Rightarrow> nat \<Rightarrow> nat \<Rightarrow> NumbersDb \<Rightarrow> unit reply \<times> NumbersDb" where
  "release_number E org user i db =
     or_refuse (require_role (ne_roles E) org user 2) db (\<lambda>_.
     case number_of db org i of None \<Rightarrow> (Inl (404, ''number not found''), db) | Some n \<Rightarrow>
     let give_up = (\<lambda>db. (Inr (), change_number i (\<lambda>n. if vn_org n = org then released_row n else n) db))
     in (case vn_provider_number n of
           None \<Rightarrow> give_up db
         | Some handle \<Rightarrow>
             or_refuse (number_provider E) db (\<lambda>c.
               let db1 = command (Release_number handle) db
               in or_refuse (ask (nc_release c handle)) db1 (\<lambda>_. give_up db1))))"

section \<open>The monthly renewal\<close>

definition renewal_due :: "int \<Rightarrow> VoipNumber \<Rightarrow> bool" where
  "renewal_due now n \<longleftrightarrow>
     vn_status n \<in> {Active, Suspended} \<and> (case vn_next_renewal n of None \<Rightarrow> False | Some t \<Rightarrow> t \<le> now)"

text \<open>What the sweep reads before it opens the first transaction.\<close>

definition due_numbers :: "int \<Rightarrow> nat \<Rightarrow> NumbersDb \<Rightarrow> VoipNumber list" where
  "due_numbers now batch db =
     take batch (sort_key (\<lambda>n. case vn_next_renewal n of None \<Rightarrow> 0 | Some t \<Rightarrow> t)
       (filter (renewal_due now) (nb_numbers db)))"

definition renewal_fee :: "decimal_ops \<Rightarrow> VoipNumber \<Rightarrow> int" where
  "renewal_fee D n = (case vn_monthly n of None \<Rightarrow> 0 | Some m \<Rightarrow> credits_ceil D m)"

definition renewed_row :: "VoipNumber \<Rightarrow> VoipNumber" where
  "renewed_row n =
     n\<lparr>vn_next_renewal := map_option (\<lambda>t. t + days 30) (vn_next_renewal n), vn_status := Active,
       vn_suspended_at := None, vn_reason := None, vn_outbound := True\<rparr>"

definition suspended_row :: "int \<Rightarrow> VoipNumber \<Rightarrow> VoipNumber" where
  "suspended_row now n =
     n\<lparr>vn_status := Suspended,
       vn_suspended_at := (case vn_suspended_at n of None \<Rightarrow> Some now | Some t \<Rightarrow> Some t),
       vn_reason := Some (ustr ''insufficient_credits''), vn_outbound := False,
       vn_next_renewal := map_option (\<lambda>t. t + days 1) (vn_next_renewal n)\<rparr>"

text \<open>One transaction of the sweep, on a row that it read earlier: whether it was renewed.\<close>

definition renew_row :: "decimal_ops \<Rightarrow> int \<Rightarrow> VoipNumber \<Rightarrow> NumbersDb \<Rightarrow> db_error + bool \<times> NumbersDb" where
  "renew_row D now row db =
     (case take_fee (vn_org row) (renewal_fee D row) ''voip_number_renewal'' None (vn_e164 row) (nb_pool db) of
        Inl e \<Rightarrow> Inl e
      | Inr (Charged _, pool) \<Rightarrow> Inr (True, change_number (vn_id row) renewed_row (db\<lparr>nb_pool := pool\<rparr>))
      | Inr (Insufficient _ _, pool) \<Rightarrow>
          Inr (False, change_number (vn_id row) (suspended_row now) (db\<lparr>nb_pool := pool\<rparr>)))"

text \<open>The loop; an error ends the sweep and keeps what was committed.\<close>

fun renew_rows ::
  "decimal_ops \<Rightarrow> int \<Rightarrow> VoipNumber list \<Rightarrow> nat \<times> nat \<Rightarrow> NumbersDb \<Rightarrow> (db_error + nat \<times> nat) \<times> NumbersDb" where
  "renew_rows D now [] counts db = (Inr counts, db)"
| "renew_rows D now (row # rows) (renewed, suspended) db =
     (case renew_row D now row db of
        Inl e \<Rightarrow> (Inl e, db)
      | Inr (True, db') \<Rightarrow> renew_rows D now rows (Suc renewed, suspended) db'
      | Inr (False, db') \<Rightarrow> renew_rows D now rows (renewed, Suc suspended) db')"

definition renew_due ::
  "decimal_ops \<Rightarrow> int \<Rightarrow> nat \<Rightarrow> NumbersDb \<Rightarrow> (db_error + nat \<times> nat) \<times> NumbersDb" where
  "renew_due D now batch db = renew_rows D now (due_numbers now batch db) (0, 0) db"

section \<open>The caller id of a call\<close>

definition presentable :: "nat \<Rightarrow> VoipNumber \<Rightarrow> bool" where
  "presentable org n \<longleftrightarrow> vn_org n = org \<and> vn_outbound n \<and> vn_verification n = Verified"

definition resolve_caller_id ::
  "NumbersDb \<Rightarrow> nat \<Rightarrow> string option \<Rightarrow> ustring option \<Rightarrow> E164 reply" where
  "resolve_caller_id db org requested provider_default =
     (let rows = filter (presentable org) (nb_numbers db);
          row = (case requested of
                   Some want \<Rightarrow> find (\<lambda>n. vn_e164 n = want) rows
                 | None \<Rightarrow> find (\<lambda>_. True) (filter vn_default rows @ filter (\<lambda>n. \<not> vn_default n) rows));
          parsed = (\<lambda>raw. case e164_parse raw of Inl e \<Rightarrow> Inl (400, e164_error_code e) | Inr n \<Rightarrow> Inr n)
      in case (row, requested) of
           (Some n, _) \<Rightarrow> parsed (ustr (vn_e164 n))
         | (None, Some _) \<Rightarrow> Inl (403, ''caller_id_unverified'')
         | (None, None) \<Rightarrow>
             (case map_option trim provider_default of
                None \<Rightarrow> Inl (400, ''caller_id_missing'')
              | Some s \<Rightarrow> if s = [] then Inl (400, ''caller_id_missing'') else parsed s))"

section \<open>Routing and opening hours\<close>

definition no_answer_actions :: "string set" where
  "no_answer_actions = {''voicemail'', ''forward'', ''refuse''}"

text \<open>The number to forward to, for an action that needs one.\<close>

definition forward_target :: "string \<Rightarrow> ustring option \<Rightarrow> string option reply" where
  "forward_target action target =
     (if action = ''forward'' then
        (case target of
           None \<Rightarrow> Inl (400, ''forward_to_required'')
         | Some raw \<Rightarrow>
             (case e164_parse raw of
                Inl _ \<Rightarrow> Inl (400, ''number_not_e164'') | Inr n \<Rightarrow> Inr (Some (e164_as_str n))))
      else Inr None)"

record RoutingBody =
  rb_ring_mode :: string
  rb_ring_user_ids :: "nat list"
  rb_ring_team_id :: "nat option"
  rb_ring_seconds :: "int option"
  rb_no_answer_action :: string
  rb_forward_to :: "ustring option"
  rb_stranger_language :: "string option"

definition put_routing ::
  "number_env \<Rightarrow> nat \<Rightarrow> nat \<Rightarrow> nat \<Rightarrow> RoutingBody \<Rightarrow> NumbersDb \<Rightarrow> unit reply \<times> NumbersDb" where
  "put_routing E org user i body db =
     or_refuse (require_role (ne_roles E) org user 2) db (\<lambda>_.
     if rb_ring_mode body \<notin> {''owners'', ''users'', ''team''} then (Inl (400, ''invalid_ring_mode''), db)
     else if rb_no_answer_action body \<notin> no_answer_actions then (Inl (400, ''invalid_no_answer_action''), db)
     else or_refuse (forward_target (rb_no_answer_action body) (rb_forward_to body)) db (\<lambda>forward.
       case number_of db org i of None \<Rightarrow> (Inl (404, ''number not found''), db) | Some _ \<Rightarrow>
         (Inr (), db\<lparr>nb_routing := (nb_routing db)(i \<mapsto>
            \<lparr>rr_ring_mode = rb_ring_mode body, rr_ring_user_ids = rb_ring_user_ids body,
             rr_ring_team_id = rb_ring_team_id body,
             rr_ring_seconds = int (clamp (case rb_ring_seconds body of None \<Rightarrow> 25 | Some s \<Rightarrow> s) 5 120),
             rr_no_answer_action = rb_no_answer_action body, rr_forward_to = forward,
             rr_stranger_language = rb_stranger_language body\<rparr>)\<rparr>)))"

definition get_routing :: "number_env \<Rightarrow> nat \<Rightarrow> nat \<Rightarrow> nat \<Rightarrow> NumbersDb \<Rightarrow> RoutingRow reply" where
  "get_routing E org user i db =
     (case require_role (ne_roles E) org user 1 of
        Inl e \<Rightarrow> Inl e
      | Inr _ \<Rightarrow>
          (case number_of db org i of
             None \<Rightarrow> Inl (404, ''number not found'')
           | Some _ \<Rightarrow>
               (case nb_routing db i of
                  Some row \<Rightarrow> Inr row
                | None \<Rightarrow> Inr (default_routing (ne_ring_seconds E)))))"

text \<open>Seven days; a missing or impossible minute is a closed day.\<close>

definition pad_week :: "int list \<Rightarrow> int list" where
  "pad_week v =
     map (\<lambda>i. if i < length v \<and> 0 \<le> v ! i \<and> v ! i < 1440 then v ! i else - 1) [0..<7]"

record HoursBody =
  hb_timezone :: string
  hb_opens_at :: "int list"
  hb_closes_at :: "int list"
  hb_closed_action :: string
  hb_closed_forward_to :: "ustring option"

text \<open>\<open>closed_forward_to\<close>, which nothing reads, is not a column of the model.\<close>

definition put_hours ::
  "number_env \<Rightarrow> nat \<Rightarrow> nat \<Rightarrow> nat \<Rightarrow> HoursBody \<Rightarrow> NumbersDb \<Rightarrow> unit reply \<times> NumbersDb" where
  "put_hours E org user i body db =
     or_refuse (require_role (ne_roles E) org user 2) db (\<lambda>_.
     if \<not> ne_zone_ok E (hb_timezone body) then (Inl (400, ''invalid_timezone''), db)
     else if hb_closed_action body \<notin> no_answer_actions then (Inl (400, ''invalid_no_answer_action''), db)
     else or_refuse (forward_target (hb_closed_action body) (hb_closed_forward_to body)) db (\<lambda>forward.
       case number_of db org i of None \<Rightarrow> (Inl (404, ''number not found''), db) | Some _ \<Rightarrow>
         (Inr (), db\<lparr>nb_hours := (nb_hours db)(i \<mapsto>
            \<lparr>hr_timezone = hb_timezone body, hr_opens = pad_week (hb_opens_at body),
             hr_closes = pad_week (hb_closes_at body), hr_closed_action = hb_closed_action body\<rparr>)\<rparr>)))"

definition clear_hours :: "number_env \<Rightarrow> nat \<Rightarrow> nat \<Rightarrow> nat \<Rightarrow> NumbersDb \<Rightarrow> unit reply \<times> NumbersDb" where
  "clear_hours E org user i db =
     or_refuse (require_role (ne_roles E) org user 2) db (\<lambda>_.
       (Inr (), if number_of db org i = None then db else db\<lparr>nb_hours := (nb_hours db)(i := None)\<rparr>))"

section \<open>Facts about the tables\<close>

lemma change_number_sel [simp]:
  "nb_pool (change_number i f db) = nb_pool db" "nb_routing (change_number i f db) = nb_routing db"
  "nb_hours (change_number i f db) = nb_hours db" "nb_commands (change_number i f db) = nb_commands db"
  "nb_numbers (change_number i f db) = map (\<lambda>n. if vn_id n = i then f n else n) (nb_numbers db)"
  by (simp_all add: change_number_def)

lemma command_sel [simp]:
  "nb_pool (command c db) = nb_pool db" "nb_routing (command c db) = nb_routing db"
  "nb_hours (command c db) = nb_hours db" "nb_commands (command c db) = nb_commands db @ [c]"
  "nb_numbers (command c db) = nb_numbers db"
  by (simp_all add: command_def)

lemma renewal_rows_sel [simp]:
  "vn_id (renewed_row n) = vn_id n" "vn_org (renewed_row n) = vn_org n" "vn_key (renewed_row n) = vn_key n"
  "vn_id (suspended_row now n) = vn_id n" "vn_org (suspended_row now n) = vn_org n"
  "vn_key (suspended_row now n) = vn_key n"
  "vn_id (released_row n) = vn_id n" "vn_org (released_row n) = vn_org n" "vn_key (released_row n) = vn_key n"
  by (simp_all add: renewed_row_def suspended_row_def released_row_def)

lemma or_refuse_Inr [simp]: "or_refuse (Inr x) s k = k x" and or_refuse_Inl [simp]: "or_refuse (Inl e) s k = (Inl e, s)"
  by (simp_all add: or_refuse_def)

text \<open>The persisted words.\<close>

lemma word_of_plain:
  assumes "s \<noteq> []" and plain: "\<forall>c \<in> set s. 97 \<le> c \<and> c \<le> 122 \<or> c = 95"
  shows "word_of s = s"
proof -
  have no_space: "\<not> is_whitespace c" if "c \<in> set s" for c
    using plain that by (fastforce simp: is_whitespace_def)
  have "trim s = s" using assms(1) no_space by (intro trim_id) auto
  then show ?thesis using plain by (fastforce simp: word_of_def intro!: map_idI)
qed

lemma number_status_roundtrip: "number_status_parse (ustr (number_status_as_str s)) = s"
  by (cases s) (simp_all add: number_status_parse_def ustr_def word_of_plain)

lemma number_kind_roundtrip: "number_kind_parse (ustr (number_kind_as_str k)) = k"
  by (cases k) (simp_all add: number_kind_parse_def ustr_def word_of_plain)

section \<open>The renewal takes what is due and can be paid\<close>

text \<open>The renewals that the balances pay for, in the order of the sweep.\<close>

fun paid_numbers :: "decimal_ops \<Rightarrow> (nat \<Rightarrow> int) \<Rightarrow> VoipNumber list \<Rightarrow> VoipNumber list" where
  "paid_numbers D bal [] = []"
| "paid_numbers D bal (n # ns) =
     (if renewal_fee D n \<le> bal (vn_org n)
      then n # paid_numbers D (bal(vn_org n := bal (vn_org n) - renewal_fee D n)) ns
      else paid_numbers D bal ns)"

definition balances :: "CreditDb \<Rightarrow> nat \<Rightarrow> int" where
  "balances pool org = (case org_balance pool org of None \<Rightarrow> 0 | Some b \<Rightarrow> b)"

definition fees_of :: "decimal_ops \<Rightarrow> nat \<Rightarrow> VoipNumber list \<Rightarrow> int" where
  "fees_of D org ns = (\<Sum>n \<leftarrow> filter (\<lambda>n. vn_org n = org) ns. renewal_fee D n)"

text \<open>The amounts that the column of the monthly price can hold.\<close>

definition monthly_in_range :: "VoipNumber \<Rightarrow> bool" where
  "monthly_in_range n \<longleftrightarrow> (\<forall>m \<in> set_option (vn_monthly n). m < 10 ^ 6)"

lemma renewal_fee_nonneg:
  assumes "decimal_laws D" and "monthly_in_range n"
  shows "0 \<le> renewal_fee D n"
proof (cases "vn_monthly n")
  case None
  then show ?thesis by (simp add: renewal_fee_def)
next
  case (Some m)
  show ?thesis
  proof (cases "0 < m")
    case True
    then have "\<bar>m / usd_per_credit\<bar> < 10 ^ 9" "0 \<le> m / usd_per_credit"
      using assms(2) Some by (simp_all add: usd_per_credit_def monthly_in_range_def)
    then have "0 \<le> dec_div D m usd_per_credit"
      using assms(1) by (auto simp: decimal_laws_def usd_per_credit_def)
    then show ?thesis
      using Some by (auto simp: renewal_fee_def credits_ceil_def to_i32_or_max_def i32_max_def)
  qed (simp add: renewal_fee_def credits_ceil_def Some)
qed

lemma paid_subset: "set (paid_numbers D bal ns) \<subseteq> set ns"
  by (induction ns arbitrary: bal) (auto split: if_splits)

lemma paid_length: "length (paid_numbers D bal ns) \<le> length ns"
  by (induction ns arbitrary: bal) (auto simp: le_SucI)

lemma fees_of_simps [simp]:
  "fees_of D org [] = 0"
  "fees_of D org (n # ns) = (if vn_org n = org then renewal_fee D n else 0) + fees_of D org ns"
  by (simp_all add: fees_of_def)

text \<open>One row of the sweep.\<close>

lemma renew_row_cases:
  assumes D: "decimal_laws D" "monthly_in_range n"
    and b: "org_balance (nb_pool db) (vn_org n) = Some b" "0 \<le> b" "b \<le> i32_max"
  obtains (paid) pool where "renewal_fee D n \<le> b"
      "renew_row D now n db = Inr (True, change_number (vn_id n) renewed_row (db\<lparr>nb_pool := pool\<rparr>))"
      "org_balance pool = (org_balance (nb_pool db))(vn_org n \<mapsto> b - renewal_fee D n)"
    | (unpaid) "b < renewal_fee D n"
      "renew_row D now n db = Inr (False, change_number (vn_id n) (suspended_row now) db)"
proof (cases "renewal_fee D n \<le> b")
  case True
  show ?thesis
  proof (cases "0 < renewal_fee D n")
    case pos: True
    obtain pool where
      "deduct_org_credits_tx (nb_pool db) (vn_org n) (renewal_fee D n) ''voip_number_renewal'' None None (vn_e164 n)
         = Inr (Charged (b - renewal_fee D n), pool)"
      "org_balance pool = (org_balance (nb_pool db))(vn_org n \<mapsto> b - renewal_fee D n)"
      using org_pool.deduct_charged [OF b less_imp_le [OF pos] True] by blast
    then show ?thesis using True pos by (intro paid) (simp_all add: renew_row_def take_fee_def)
  next
    case False
    then have "renewal_fee D n = 0" using renewal_fee_nonneg [OF D] by simp
    then show ?thesis using True b(1) by (intro paid [of "nb_pool db"]) (auto simp: renew_row_def take_fee_def)
  qed
next
  case False
  then have "0 < renewal_fee D n" using b(2) by linarith
  then have "deduct_org_credits_tx (nb_pool db) (vn_org n) (renewal_fee D n) ''voip_number_renewal'' None None
      (vn_e164 n) = Inr (Insufficient b (renewal_fee D n), nb_pool db)"
    using False b(1) by (intro org_pool.deduct_refused) simp_all
  then show ?thesis using False \<open>0 < renewal_fee D n\<close> by (intro unpaid) (simp_all add: renew_row_def take_fee_def)
qed

lemma paid_ids: "vn_id ` set (paid_numbers D bal ns) \<subseteq> vn_id ` set ns"
  using paid_subset by (rule image_mono)

lemma renew_rows_exact:
  assumes D: "decimal_laws D"
    and "\<forall>n \<in> set ns. monthly_in_range n \<and> org_balance (nb_pool db) (vn_org n) \<noteq> None"
    and "\<forall>org b. org_balance (nb_pool db) org = Some b \<longrightarrow> 0 \<le> b \<and> b \<le> i32_max"
    and "distinct (map vn_id ns)" and "paid = paid_numbers D (balances (nb_pool db)) ns"
  shows "\<exists>db'. renew_rows D now ns (r, s) db = (Inr (r + length paid, s + (length ns - length paid)), db')
     \<and> nb_numbers db' = map (\<lambda>n. if vn_id n \<in> vn_id ` set paid then renewed_row n
          else if vn_id n \<in> vn_id ` set ns then suspended_row now n else n) (nb_numbers db)
     \<and> org_balance (nb_pool db') = (\<lambda>org. map_option (\<lambda>b. b - fees_of D org paid) (org_balance (nb_pool db) org))
     \<and> nb_commands db' = nb_commands db"
  using assms(2-)
proof (induction ns arbitrary: db r s paid)
  case Nil
  then show ?case by (simp add: option.map_id0 [unfolded id_def])
next
  case (Cons n ns)
  from Cons.prems(1,2) obtain b where b: "org_balance (nb_pool db) (vn_org n) = Some b" "0 \<le> b" "b \<le> i32_max"
    by fastforce
  have range: "monthly_in_range n" using Cons.prems(1) by simp
  have bal: "balances (nb_pool db) (vn_org n) = b" using b(1) by (simp add: balances_def)
  have new: "vn_id n \<notin> vn_id ` set ns" and rest: "distinct (map vn_id ns)" using Cons.prems(3) by auto
  show ?case
    using D range b
  proof (cases rule: renew_row_cases [where now = now and db = db])
    case (paid pool)
    let ?db = "change_number (vn_id n) renewed_row (db\<lparr>nb_pool := pool\<rparr>)"
    let ?paid = "paid_numbers D (balances pool) ns"
    have "balances pool = (balances (nb_pool db))(vn_org n := b - renewal_fee D n)"
      using paid(3) by (auto simp: balances_def)
    then have p: "paid = n # ?paid" using Cons.prems(4) paid(1) bal by simp
    have fee: "0 \<le> renewal_fee D n" using D range by (rule renewal_fee_nonneg)
    have ok: "\<forall>k \<in> set ns. monthly_in_range k \<and> org_balance (nb_pool ?db) (vn_org k) \<noteq> None"
      "\<forall>org c. org_balance (nb_pool ?db) org = Some c \<longrightarrow> 0 \<le> c \<and> c \<le> i32_max"
      using Cons.prems(1,2) paid(1,3) b fee by (auto, fastforce+)
    from Cons.IH [OF ok rest, of ?paid "Suc r" s] obtain db' where
      run: "renew_rows D now ns (Suc r, s) ?db = (Inr (Suc r + length ?paid, s + (length ns - length ?paid)), db')"
      and nums: "nb_numbers db' = map (\<lambda>k. if vn_id k \<in> vn_id ` set ?paid then renewed_row k
          else if vn_id k \<in> vn_id ` set ns then suspended_row now k else k) (nb_numbers ?db)"
      and pools: "org_balance (nb_pool db') = (\<lambda>org. map_option (\<lambda>b. b - fees_of D org ?paid) (org_balance pool org))"
      and cmds: "nb_commands db' = nb_commands db"
      by auto
    have "nb_numbers db' = map (\<lambda>k. if vn_id k \<in> vn_id ` set paid then renewed_row k
          else if vn_id k \<in> vn_id ` set (n # ns) then suspended_row now k else k) (nb_numbers db)"
      using new paid_ids [of D "balances pool" ns] by (auto simp: nums p)
    moreover have "org_balance (nb_pool db')
        = (\<lambda>org. map_option (\<lambda>b. b - fees_of D org paid) (org_balance (nb_pool db) org))"
      using b(1) by (auto simp: pools p paid(3) fun_eq_iff)
    ultimately show ?thesis using paid(2) run cmds p by auto
  next
    case unpaid
    let ?db = "change_number (vn_id n) (suspended_row now) db"
    have p: "paid = paid_numbers D (balances (nb_pool ?db)) ns" using Cons.prems(4) unpaid(1) bal by simp
    have le: "length paid \<le> length ns" by (simp add: p paid_length)
    from Cons.IH [of ?db paid r "Suc s"] Cons.prems(1,2) rest p obtain db' where
      run: "renew_rows D now ns (r, Suc s) ?db = (Inr (r + length paid, Suc s + (length ns - length paid)), db')"
      and nums: "nb_numbers db' = map (\<lambda>k. if vn_id k \<in> vn_id ` set paid then renewed_row k
          else if vn_id k \<in> vn_id ` set ns then suspended_row now k else k) (nb_numbers ?db)"
      and pools: "org_balance (nb_pool db')
        = (\<lambda>org. map_option (\<lambda>b. b - fees_of D org paid) (org_balance (nb_pool db) org))"
      and cmds: "nb_commands db' = nb_commands db"
      by auto
    have "nb_numbers db' = map (\<lambda>k. if vn_id k \<in> vn_id ` set paid then renewed_row k
          else if vn_id k \<in> vn_id ` set (n # ns) then suspended_row now k else k) (nb_numbers db)"
      using new paid_ids [of D "balances (nb_pool db)" ns] p by (auto simp: nums)
    then show ?thesis using unpaid(2) run cmds pools le by (auto simp: Suc_diff_le)
  qed
qed

lemma distinct_due:
  assumes "distinct (map vn_id (nb_numbers db))"
  shows "distinct (map vn_id (due_numbers now batch db))"
proof -
  have "distinct (map vn_id (filter (renewal_due now) (nb_numbers db)))"
    using assms by (rule distinct_map_filter)
  then have "distinct (map vn_id (sort_key k (filter (renewal_due now) (nb_numbers db))))" for k :: "VoipNumber \<Rightarrow> int"
    by (simp add: distinct_map)
  then show ?thesis by (simp add: due_numbers_def flip: take_map)
qed

text \<open>
  C20: The monthly renewal. Of the numbers that are due, in the order of their due dates and at most a
  batch of them, exactly those are charged, at the price recorded on the row, for which their
  organisation's credits suffice when their turn comes: they are active and may be presented for
  another thirty days, and every organisation pays the sum of its renewals. Every other due
  number is suspended, is asked for again a day later and may not be presented. No other number
  changes, and nothing is given back to the carrier.
\<close>

theorem renewal_takes_what_is_due:
  assumes D: "decimal_laws D" and ids: "distinct (map vn_id (nb_numbers db))"
    and due: "due = due_numbers now batch db"
    and ok: "\<forall>n \<in> set due. monthly_in_range n \<and> org_balance (nb_pool db) (vn_org n) \<noteq> None"
    and pool: "\<forall>org b. org_balance (nb_pool db) org = Some b \<longrightarrow> 0 \<le> b \<and> b \<le> i32_max"
    and paid: "paid = paid_numbers D (balances (nb_pool db)) due"
    and run: "renew_due D now batch db = (res, db')"
  shows "res = Inr (length paid, length due - length paid)
     \<and> nb_numbers db' = map (\<lambda>n. if vn_id n \<in> vn_id ` set paid then renewed_row n
          else if vn_id n \<in> vn_id ` set due then suspended_row now n else n) (nb_numbers db)
     \<and> org_balance (nb_pool db') = (\<lambda>org. map_option (\<lambda>b. b - fees_of D org paid) (org_balance (nb_pool db) org))
     \<and> nb_commands db' = nb_commands db"
  using renew_rows_exact [OF D ok pool, of paid now 0 0] distinct_due [OF ids, of now batch] due paid run
  by (auto simp: renew_due_def)

section \<open>What a purchase does\<close>

lemma purchased_row_sel [simp]:
  "vn_id (purchased_row i org now c dest body off bought monthly setup) = i"
  "vn_org (purchased_row i org now c dest body off bought monthly setup) = org"
  "vn_key (purchased_row i org now c dest body off bought monthly setup) = Some (bb_key body)"
  "vn_e164 (purchased_row i org now c dest body off bought monthly setup) = e164_as_str dest"
  "vn_inbound (purchased_row i org now c dest body off bought monthly setup) = False"
  "vn_provider_number (purchased_row i org now c dest body off bought monthly setup) = Some (pn_id bought)"
  "vn_outbound (purchased_row i org now c dest body off bought monthly setup)
     = (vn_status (purchased_row i org now c dest body off bought monthly setup) = Active)"
  "vn_verification (purchased_row i org now c dest body off bought monthly setup) = Verified"
  by (simp_all add: purchased_row_def Let_def)

lemma purchased_row_more:
  "vn_monthly (purchased_row i org now c dest body off bought monthly setup) = Some monthly"
  "vn_setup (purchased_row i org now c dest body off bought monthly setup) = Some setup"
  "vn_next_renewal (purchased_row i org now c dest body off bought monthly setup) = Some (now + days 30)"
  "vn_status (purchased_row i org now c dest body off bought monthly setup)
     = (if pn_requirement bought \<noteq> None then PendingRegulatory else pn_status bought)"
  by (simp_all add: purchased_row_def Let_def)

text \<open>The last step: refused and rolled back, given back for want of credits, or stored.\<close>

lemma store_purchase_cases:
  assumes "store_purchase D E c user row dest setup db = (r, db')" and "vn_provider_number row = Some h"
  obtains (failed) "r = Inl db_failed" "db' = db"
    | (unpaid) "r = Inl (402, ''insufficient_credits'')" "db' = command (Release_number h) db"
    | (stored) b pool d where "r = Inr (Bought (vn_id row) (vn_e164 row) (vn_status row))"
        "db' = db\<lparr>nb_pool := pool, nb_numbers := nb_numbers db @ [row]\<rparr>"
        "take_fee (vn_org row) (credits_ceil D setup) ''voip_number_purchase'' (Some user) d (nb_pool db)
           = Inr (Charged b, pool)"
        "\<forall>n \<in> set (nb_numbers db). vn_e164 n \<noteq> vn_e164 row
           \<and> \<not> (vn_org n = vn_org row \<and> vn_key n \<noteq> None \<and> vn_key n = vn_key row)"
  using assms unfolding store_purchase_def insert_number_def
  by (auto split: sum.splits OrgCharge.splits prod.splits if_splits)

text \<open>A purchase refused, ordered, or ordered and settled.\<close>

lemma buy_steps:
  assumes "buy D E org user body i now during db = (r, db')"
  obtains (idle) "db' = db" "\<nexists>j e s. r = Inr (Bought j e s)"
    | (refused) dest where "db' = during (command (Purchase_number dest (bb_key body)) db)" "\<exists>e. r = Inl e"
    | (settled) c policy dest off sold monthly fee where
        "ne_carrier E = Some c" "number_markup E = Inr policy" "offer_for c body = Inr off"
        "price_of D policy (no_setup_cost off) = Inr fee"
        "store_purchase D E c user (purchased_row i org now c dest body off sold monthly fee) dest fee
           (during (command (Purchase_number (e164_as_str dest) (bb_key body)) db)) = (r, db')"
proof -
  show thesis
    using assms idle refused settled unfolding buy_def or_refuse_def ask_def number_provider_def
    by (auto split: sum.splits option.splits simp: Let_def)
qed

lemma bought_step:
  assumes "buy D E org user body i now during db = (Inr (Bought j e s), db')"
  obtains c policy dest off sold monthly fee row db1 b pool d where
    "ne_carrier E = Some c" "number_markup E = Inr policy" "offer_for c body = Inr off"
    "price_of D policy (no_setup_cost off) = Inr fee" "j = i" "e = e164_as_str dest" "s = vn_status row"
    "row = purchased_row i org now c dest body off sold monthly fee"
    "db1 = during (command (Purchase_number (e164_as_str dest) (bb_key body)) db)"
    "db' = db1\<lparr>nb_pool := pool, nb_numbers := nb_numbers db1 @ [row]\<rparr>"
    "take_fee org (credits_ceil D fee) ''voip_number_purchase'' (Some user) d (nb_pool db1) = Inr (Charged b, pool)"
    "\<forall>n \<in> set (nb_numbers db1). vn_e164 n \<noteq> e164_as_str dest
       \<and> \<not> (vn_org n = org \<and> vn_key n = Some (bb_key body))"
  using assms
proof (cases rule: buy_steps)
  case (settled c policy dest off sold monthly fee)
  from settled(5) purchased_row_sel(6) show ?thesis
  proof (cases rule: store_purchase_cases)
    case (stored b pool d)
    then show ?thesis by (intro that [OF settled(1-4) _ _ _ refl refl]) auto
  qed simp_all
qed auto

text \<open>A second purchase under a key that has a number.\<close>

lemma buy_again:
  assumes "n \<in> set (nb_numbers db)" "vn_org n = org" "vn_key n = Some (bb_key body)"
  shows "snd (buy D E org user body i now during db) = db"
    and "fst (buy D E org user body i now during db) \<noteq> Inr (Bought j e s)"
proof -
  from assms have "find (\<lambda>n. vn_org n = org \<and> vn_key n = Some (bb_key body)) (nb_numbers db) \<noteq> None"
    by (auto simp: find_None_iff)
  then show "snd (buy D E org user body i now during db) = db"
    and "fst (buy D E org user body i now during db) \<noteq> Inr (Bought j e s)"
    by (auto simp: buy_def or_refuse_def split: sum.splits option.splits)
qed

text \<open>
  A number that an organisation once gave back cannot be bought again, and the attempt buys it
  all the same. The released row stays and the number is unique in the table, so the order that
  would succeed in a deployment without that row goes out to the carrier, the insertion fails,
  the transaction is rolled back and nothing releases the number: the carrier holds it for us,
  no row names it, and the caller is told of a database error.
\<close>

theorem rebought_number_is_orphaned:
  assumes fresh: "buy D E org user body i now id
      (db\<lparr>nb_numbers := filter (\<lambda>n. vn_e164 n \<noteq> e) (nb_numbers db)\<rparr>) = (Inr (Bought i e s), db1)"
    and old: "old \<in> set (nb_numbers db)" "vn_e164 old = e" "vn_status old = Released"
    and key: "\<forall>n \<in> set (nb_numbers db). \<not> (vn_org n = org \<and> vn_key n = Some (bb_key body))"
  shows "buy D E org user body i now id db = (Inl db_failed, command (Purchase_number e (bb_key body)) db)"
proof -
  let ?bare = "db\<lparr>nb_numbers := filter (\<lambda>n. vn_e164 n \<noteq> e) (nb_numbers db)\<rparr>"
  have none: "find (\<lambda>n. vn_org n = org \<and> vn_key n = Some (bb_key body)) (nb_numbers db) = None"
    using key by (auto simp: find_None_iff)
  have store: "store_purchase D E c user (purchased_row i org now c dest body off sold monthly fee) dest fee
      (command (Purchase_number (e164_as_str dest) (bb_key body)) db)
    = (Inl db_failed, command (Purchase_number e (bb_key body)) db)"
    if "store_purchase D E c user (purchased_row i org now c dest body off sold monthly fee) dest fee
      (command (Purchase_number (e164_as_str dest) (bb_key body)) ?bare) = (Inr (Bought i e s), db1)"
    for c dest off sold monthly fee
    using that old(1,2) unfolding store_purchase_def insert_number_def
    by (auto split: sum.splits OrgCharge.splits prod.splits if_splits)
  show ?thesis
    using fresh none unfolding buy_def or_refuse_def ask_def
    by (auto split: sum.splits option.splits simp: Let_def dest!: store)
qed

end
