(* ===== verification/Regulatory.thy ===== *)
theory Regulatory
  imports Numbers Rate_Limit
begin

text \<open>
  The paperwork of a purchased number (\<^verbatim>\<open>voip/regulatory.rs\<close>, the types of \<^verbatim>\<open>telephony/mod.rs\<close>, the tables
  of \<^verbatim>\<open>migrations/064_voip_number_requirements.sql\<close>): what a state of the carrier means for the
  number, the requirement group that an organisation's purchases of one kind share, the handlers
  that fill it in and send it off, the upload of a document, and the sweep that moves a number.

  The carrier answers requests and is a parameter; what it was told is logged in \<open>rd_commands\<close>. JSON
  values are opaque, with two readings. While \<open>ensure_group\<close> waits for the carrier other
  transactions run: \<open>during\<close>; while a submission waits for the attachment, \<open>meanwhile\<close>. The answer of a handler keeps what the logic decides; the view that is
  rendered from the group is left out. A sweep takes one instant as \<open>now()\<close>.
\<close>

section \<open>What the carrier's state means for the number\<close>

datatype OrderStatus = Order_Pending | Success | Failure | Cancelled | Deleted | Order_Unknown

definition order_status_parse :: "ustring \<Rightarrow> OrderStatus" where
  "order_status_parse raw =
     (let w = word_of raw
      in if w = ustr ''pending'' then Order_Pending
         else if w = ustr ''success'' then Success
         else if w = ustr ''failure'' then Failure
         else if w \<in> set (map ustr [''cancelled'', ''canceled'']) then Cancelled
         else if w = ustr ''deleted'' then Deleted
         else Order_Unknown)"

datatype RequirementsStatus =
  InfoPending | UnderReview | Requirements_Exception "ustring option" | Requirements_Approved | Requirements_Unknown

record SubOrderState =
  so_order :: OrderStatus
  so_requirements :: RequirementsStatus
  so_group :: "string option"

record Transition =
  t_status :: NumberStatus
  t_reason :: "ustring option"
  t_outbound :: bool

definition MAX_REASON_CHARS :: nat where "MAX_REASON_CHARS = 500"

definition truncate_reason :: "ustring \<Rightarrow> ustring" where
  "truncate_reason s = take MAX_REASON_CHARS s"

definition transition :: "NumberStatus \<Rightarrow> SubOrderState \<Rightarrow> Transition option" where
  "transition current s =
     (if so_order s \<in> {Cancelled, Deleted}
      then Some \<lparr>t_status = Number_Failed, t_reason = None, t_outbound = False\<rparr>
      else if so_requirements s = Requirements_Approved \<or> so_order s = Success
      then Some \<lparr>t_status = Active, t_reason = None, t_outbound = True\<rparr>
      else case so_requirements s of
             Requirements_Exception reason \<Rightarrow>
               Some \<lparr>t_status = RegulatoryRejected, t_reason = map_option truncate_reason reason, t_outbound = False\<rparr>
           | UnderReview \<Rightarrow> Some \<lparr>t_status = RegulatoryReview, t_reason = None, t_outbound = False\<rparr>
           | InfoPending \<Rightarrow> Some \<lparr>t_status = PendingRegulatory, t_reason = None, t_outbound = False\<rparr>
           | Requirements_Approved \<Rightarrow> None
           | Requirements_Unknown \<Rightarrow> None)"

section \<open>Requirement groups\<close>

datatype GroupStatus =
  Unapproved | PendingApproval | Approved | Declined | Group_Expired | NoLongerEligible | Group_Unknown

fun group_status_as_str :: "GroupStatus \<Rightarrow> string" where
  "group_status_as_str Unapproved = ''unapproved''"
| "group_status_as_str PendingApproval = ''pending_approval''"
| "group_status_as_str Approved = ''approved''"
| "group_status_as_str Declined = ''declined''"
| "group_status_as_str Group_Expired = ''expired''"
| "group_status_as_str NoLongerEligible = ''no_longer_eligible''"
| "group_status_as_str Group_Unknown = ''unknown''"

definition group_status_parse :: "ustring \<Rightarrow> GroupStatus" where
  "group_status_parse raw =
     (let w = map (\<lambda>c. if c = 95 then 45 else c) (word_of raw)
      in if w = ustr ''approved'' then Approved
         else if w = ustr ''unapproved'' then Unapproved
         else if w = ustr ''pending-approval'' then PendingApproval
         else if w = ustr ''declined'' then Declined
         else if w = ustr ''expired'' then Group_Expired
         else if w = ustr ''no-longer-eligible'' then NoLongerEligible
         else Group_Unknown)"

datatype RequirementKind = Textual | AddressKind | DocumentKind

definition requirement_kind_parse :: "ustring \<Rightarrow> RequirementKind" where
  "requirement_kind_parse raw =
     (let w = word_of raw
      in if w = ustr ''address'' then AddressKind else if w = ustr ''document'' then DocumentKind else Textual)"

record RequirementSpec =
  rs_id :: ustring
  rs_kind :: RequirementKind

record AddressValue =
  ad_first_name :: ustring
  ad_last_name :: ustring
  ad_business_name :: ustring
  ad_street_address :: ustring
  ad_extended_address :: "ustring option"
  ad_locality :: ustring
  ad_administrative_area :: "ustring option"
  ad_postal_code :: ustring
  ad_country_code :: ustring

datatype FieldValue = Text ustring | Address AddressValue | Document string

record RequirementGroup =
  rq_id :: string
  rq_status :: GroupStatus
  rq_requirements :: "(RequirementSpec \<times> FieldValue option) list"

datatype ChunkEvent = Chunk "nat list" | Broken

text \<open>What the upload stream carries to the carrier: bytes, or the error that aborts the request.\<close>

datatype StreamItem = Bytes "nat list" | Abort

text \<open>A group is asked for by country and kind; the action is always \<open>ordering\<close>.\<close>

record regulator =
  rc_id :: string
  rc_create :: "string \<Rightarrow> NumberKind \<Rightarrow> ProviderError + RequirementGroup"
  rc_get :: "string \<Rightarrow> ProviderError + RequirementGroup option"
  rc_sub_order :: "string \<Rightarrow> ProviderError + SubOrderState option"
  rc_submit :: "string \<Rightarrow> (ustring \<times> FieldValue) list \<Rightarrow> ProviderError + RequirementGroup"
  rc_attach :: "string \<Rightarrow> string \<Rightarrow> ProviderError + unit"
  rc_upload :: "string \<Rightarrow> StreamItem list \<Rightarrow> ProviderError + string \<times> ustring"

datatype RegCommand =
  Create_group string NumberKind
| Attach_group string string
| Submit_values string "(ustring \<times> FieldValue) list"

record GroupRow =
  gr_id :: nat
  gr_org :: nat
  gr_provider :: string
  gr_country :: string
  gr_kind :: string
  gr_provider_group :: "string option"
  gr_status :: string
  gr_created :: int

record DocumentRow =
  dc_group :: nat
  dc_requirement :: ustring
  dc_document :: string
  dc_scan :: string
  dc_type :: string
  dc_size :: int

record RegDb =
  rd_numbers :: NumbersDb
  rd_groups :: "GroupRow list"
  rd_documents :: "DocumentRow list"
  rd_commands :: "RegCommand list"

definition on_numbers :: "(NumbersDb \<Rightarrow> NumbersDb) \<Rightarrow> RegDb \<Rightarrow> RegDb" where
  "on_numbers f db = db\<lparr>rd_numbers := f (rd_numbers db)\<rparr>"

definition tell :: "RegCommand \<Rightarrow> RegDb \<Rightarrow> RegDb" where
  "tell c db = db\<lparr>rd_commands := rd_commands db @ [c]\<rparr>"

text \<open>The combination of the partial unique index, whose rows are the groups still of use.\<close>

definition open_group :: "GroupRow \<Rightarrow> bool" where
  "open_group g \<longleftrightarrow> gr_status g \<notin> {''expired'', ''no_longer_eligible''}"

definition combination :: "GroupRow \<Rightarrow> nat \<times> string \<times> string \<times> string" where
  "combination g = (gr_org g, gr_provider g, gr_country g, gr_kind g)"

definition claimed_row :: "nat \<Rightarrow> nat \<Rightarrow> string \<Rightarrow> string \<Rightarrow> NumberKind \<Rightarrow> int \<Rightarrow> GroupRow" where
  "claimed_row i org provider country kind now =
     \<lparr>gr_id = i, gr_org = org, gr_provider = provider, gr_country = country, gr_kind = number_kind_as_str kind,
      gr_provider_group = None, gr_status = ''creating'', gr_created = now\<rparr>"

text \<open>\<open>INSERT \<dots> ON CONFLICT DO NOTHING\<close>: whether the row went in.\<close>

definition claim_group :: "GroupRow \<Rightarrow> RegDb \<Rightarrow> RegDb option" where
  "claim_group row db =
     (if \<exists>g \<in> set (rd_groups db). open_group g \<and> combination g = combination row then None
      else Some (db\<lparr>rd_groups := rd_groups db @ [row]\<rparr>))"

definition change_group :: "nat \<Rightarrow> (GroupRow \<Rightarrow> GroupRow) \<Rightarrow> RegDb \<Rightarrow> RegDb" where
  "change_group i f db = db\<lparr>rd_groups := map (\<lambda>g. if gr_id g = i then f g else g) (rd_groups db)\<rparr>"

datatype GroupError = Group_Busy | Group_Provider ProviderError | Group_Storage

record EnsuredGroup =
  eg_row :: nat
  eg_group :: RequirementGroup
  eg_reused :: bool

definition ensure_group ::
  "regulator \<Rightarrow> nat \<Rightarrow> nat \<Rightarrow> string \<Rightarrow> NumberKind \<Rightarrow> int \<Rightarrow> (RegDb \<Rightarrow> RegDb) \<Rightarrow> RegDb
     \<Rightarrow> (GroupError + EnsuredGroup) \<times> RegDb" where
  "ensure_group c new_id org country kind now during db =
     (case claim_group (claimed_row new_id org (rc_id c) country kind now) db of
        Some db1 \<Rightarrow>
          (let db2 = during (tell (Create_group country kind) db1)
           in case rc_create c country kind of
                Inr g \<Rightarrow>
                  (Inr \<lparr>eg_row = new_id, eg_group = g, eg_reused = False\<rparr>,
                   change_group new_id (\<lambda>r. r\<lparr>gr_provider_group := Some (rq_id g),
                     gr_status := group_status_as_str (rq_status g)\<rparr>) db2)
              | Inl e \<Rightarrow>
                  (Inl (Group_Provider e),
                   db2\<lparr>rd_groups := filter (\<lambda>r. \<not> (gr_id r = new_id \<and> gr_provider_group r = None)) (rd_groups db2)\<rparr>))
      | None \<Rightarrow>
          (case find (\<lambda>g. open_group g \<and> combination g = (org, rc_id c, country, number_kind_as_str kind))
                  (rd_groups db) of
             None \<Rightarrow> (Inl Group_Storage, db)
           | Some g \<Rightarrow>
               (case gr_provider_group g of
                  None \<Rightarrow> (Inl Group_Busy, db)
                | Some handle \<Rightarrow>
                    (case rc_get c handle of
                       Inl e \<Rightarrow> (Inl (Group_Provider e), db)
                     | Inr None \<Rightarrow>
                         (Inl (Group_Provider (Provider_Malformed ''requirement group vanished at the provider'')), db)
                     | Inr (Some grp) \<Rightarrow> (Inr \<lparr>eg_row = gr_id g, eg_group = grp, eg_reused = True\<rparr>, db)))))"

section \<open>The handlers\<close>

fun reg_provider_err :: "ProviderError \<Rightarrow> nat \<times> string" where
  "reg_provider_err (Provider_Unsupported _) = (501, ''requirements_unsupported'')"
| "reg_provider_err Unauthorized = misconfigured"
| "reg_provider_err AccountBlocked = misconfigured"
| "reg_provider_err RateLimited = (429, ''provider_rate_limited'')"
| "reg_provider_err DestinationRefused = (400, ''provider_rejected_value'')"
| "reg_provider_err (Unavailable _) = (502, ''provider_unavailable'')"
| "reg_provider_err (Provider_Malformed _) = (502, ''provider_unavailable'')"

fun group_err :: "GroupError \<Rightarrow> nat \<times> string" where
  "group_err Group_Busy = (409, ''requirements_busy'')"
| "group_err (Group_Provider p) = reg_provider_err p"
| "group_err Group_Storage = db_failed"

definition reg_ask :: "ProviderError + 'a \<Rightarrow> 'a reply" where
  "reg_ask r = (case r of Inl e \<Rightarrow> Inl (reg_provider_err e) | Inr x \<Rightarrow> Inr x)"

definition gate_regulatable :: "VoipNumber \<Rightarrow> unit reply" where
  "gate_regulatable n =
     (if vn_requirement n = None then Inl (409, ''regulatory_not_required'')
      else if vn_sub_order n = None then Inl (409, ''regulatory_unlinked'')
      else Inr ())"

definition editable :: "VoipNumber \<Rightarrow> bool" where
  "editable n \<longleftrightarrow> vn_status n \<in> {PendingRegulatory, RegulatoryRejected}"

definition in_pipeline :: "NumberStatus \<Rightarrow> bool" where
  "in_pipeline s \<longleftrightarrow> s \<in> {PendingRegulatory, RegulatoryReview, RegulatoryRejected}"

definition kind_of :: "VoipNumber \<Rightarrow> NumberKind" where
  "kind_of n = number_kind_parse (ustr (case vn_kind n of None \<Rightarrow> '''' | Some k \<Rightarrow> k))"

text \<open>The column refers to a group: a row that is gone is a foreign-key error.\<close>

definition link_group :: "nat \<Rightarrow> nat \<Rightarrow> RegDb \<Rightarrow> unit reply \<times> RegDb" where
  "link_group i g db =
     (if g \<in> gr_id ` set (rd_groups db)
         \<or> (\<forall>n \<in> set (nb_numbers (rd_numbers db)). vn_id n = i \<longrightarrow> vn_group n \<noteq> None)
      then (Inr (), on_numbers (change_number i (\<lambda>n. if vn_group n = None then n\<lparr>vn_group := Some g\<rparr> else n)) db)
      else (Inl db_failed, db))"

text \<open>What the request brings: who, which number, a fresh id for a claim, the instant.\<close>

record reg_request =
  rr_org :: nat
  rr_user :: nat
  rr_number :: nat
  rr_new_group :: nat
  rr_now :: int

record reg_env =
  re_roles :: "nat \<Rightarrow> nat \<Rightarrow> string option"
  re_carrier :: "regulator option"

definition reg_provider :: "reg_env \<Rightarrow> regulator reply" where
  "reg_provider E = (case re_carrier E of None \<Rightarrow> Inl (404, ''voip is not enabled'') | Some c \<Rightarrow> Inr c)"

definition load_number :: "RegDb \<Rightarrow> reg_request \<Rightarrow> VoipNumber reply" where
  "load_number db q =
     (case number_of (rd_numbers db) (rr_org q) (rr_number q) of
        None \<Rightarrow> Inl (404, ''number not found'') | Some n \<Rightarrow> Inr n)"

text \<open>The steps that every handler of the paperwork shares: the group, and its link to the number.\<close>

definition with_group ::
  "regulator \<Rightarrow> reg_request \<Rightarrow> VoipNumber \<Rightarrow> (RegDb \<Rightarrow> RegDb) \<Rightarrow> RegDb
     \<Rightarrow> (EnsuredGroup \<Rightarrow> RegDb \<Rightarrow> 'a reply \<times> RegDb) \<Rightarrow> 'a reply \<times> RegDb" where
  "with_group c q n during db k =
     (case ensure_group c (rr_new_group q) (rr_org q) (vn_country n) (kind_of n) (rr_now q) during db of
        (Inl e, db1) \<Rightarrow> (Inl (group_err e), db1)
      | (Inr eg, db1) \<Rightarrow>
          (case link_group (rr_number q) (eg_row eg) db1 of
             (Inl e, db2) \<Rightarrow> (Inl e, db2)
           | (Inr _, db2) \<Rightarrow> k eg db2))"

definition get_requirements ::
  "reg_env \<Rightarrow> reg_request \<Rightarrow> (RegDb \<Rightarrow> RegDb) \<Rightarrow> RegDb \<Rightarrow> EnsuredGroup reply \<times> RegDb" where
  "get_requirements E q during db =
     or_refuse (require_role (re_roles E) (rr_org q) (rr_user q) 2) db (\<lambda>_.
     or_refuse (load_number db q) db (\<lambda>n.
     or_refuse (gate_regulatable n) db (\<lambda>_.
     or_refuse (reg_provider E) db (\<lambda>c.
     with_group c q n during db (\<lambda>eg db1. (Inr eg, db1))))))"

definition MAX_VALUE_CHARS :: nat where "MAX_VALUE_CHARS = 500"

definition longest_field_chars :: "AddressValue \<Rightarrow> nat" where
  "longest_field_chars a =
     Max (set (map length
       ([ad_first_name a, ad_last_name a, ad_business_name a, ad_street_address a, ad_locality a,
         ad_postal_code a, ad_country_code a]
        @ (case ad_extended_address a of None \<Rightarrow> [] | Some s \<Rightarrow> [s])
        @ (case ad_administrative_area a of None \<Rightarrow> [] | Some s \<Rightarrow> [s]))))"

text \<open>The two readings of a JSON value: as a string, as an address.\<close>

record 'v json =
  js_text :: "'v \<Rightarrow> ustring option"
  js_address :: "'v \<Rightarrow> AddressValue option"

definition validate_value :: "'v json \<Rightarrow> RequirementSpec \<Rightarrow> 'v \<Rightarrow> FieldValue reply" where
  "validate_value J spec v =
     (case rs_kind spec of
        Textual \<Rightarrow>
          (case js_text J v of
             None \<Rightarrow> Inl (400, ''requirement_kind_mismatch'')
           | Some s \<Rightarrow> if MAX_VALUE_CHARS < length s then Inl (400, ''value_too_long'') else Inr (Text s))
      | AddressKind \<Rightarrow>
          (case js_address J v of
             None \<Rightarrow> Inl (400, ''requirement_kind_mismatch'')
           | Some a \<Rightarrow>
               if MAX_VALUE_CHARS < longest_field_chars a then Inl (400, ''value_too_long'') else Inr (Address a))
      | DocumentKind \<Rightarrow> Inl (400, ''requirement_kind_mismatch''))"

fun validate_all ::
  "'v json \<Rightarrow> (RequirementSpec \<times> FieldValue option) list \<Rightarrow> (ustring \<times> 'v) list
     \<Rightarrow> (ustring \<times> FieldValue) list reply" where
  "validate_all J specs [] = Inr []"
| "validate_all J specs ((i, v) # vs) =
     (case find (\<lambda>(spec, _). rs_id spec = i) specs of
        None \<Rightarrow> Inl (400, ''requirement_unknown'')
      | Some (spec, _) \<Rightarrow>
          (case validate_value J spec v of
             Inl e \<Rightarrow> Inl e
           | Inr field \<Rightarrow> map_sum id (Cons (i, field)) (validate_all J specs vs)))"

definition put_requirements ::
  "'v json \<Rightarrow> reg_env \<Rightarrow> reg_request \<Rightarrow> (ustring \<times> 'v) list \<Rightarrow> (RegDb \<Rightarrow> RegDb) \<Rightarrow> RegDb
     \<Rightarrow> RequirementGroup reply \<times> RegDb" where
  "put_requirements J E q body during db =
     or_refuse (require_role (re_roles E) (rr_org q) (rr_user q) 2) db (\<lambda>_.
     or_refuse (load_number db q) db (\<lambda>n.
     or_refuse (gate_regulatable n) db (\<lambda>_.
     if \<not> editable n then (Inl (409, ''requirements_not_editable''), db) else
     or_refuse (reg_provider E) db (\<lambda>c.
     with_group c q n during db (\<lambda>eg db1.
       or_refuse (validate_all J (rq_requirements (eg_group eg)) body) db1 (\<lambda>values.
         (reg_ask (rc_submit c (rq_id (eg_group eg)) values), tell (Submit_values (rq_id (eg_group eg)) values) db1)))))))"

text \<open>The last statement of a submission; it does not look at the status again.\<close>

definition submitted_row :: "int \<Rightarrow> VoipNumber \<Rightarrow> VoipNumber" where
  "submitted_row now n =
     n\<lparr>vn_status := RegulatoryReview, vn_reason := None, vn_outbound := False,
       vn_next_check := Some (now + 120 * 1000000)\<rparr>"

definition mark_submitted :: "nat \<Rightarrow> nat \<Rightarrow> int \<Rightarrow> RegDb \<Rightarrow> RegDb" where
  "mark_submitted i org now =
     on_numbers (change_number i (\<lambda>n. if vn_org n = org then submitted_row now n else n))"

definition submit_requirements ::
  "reg_env \<Rightarrow> reg_request \<Rightarrow> (RegDb \<Rightarrow> RegDb) \<Rightarrow> (RegDb \<Rightarrow> RegDb) \<Rightarrow> RegDb
     \<Rightarrow> NumberStatus reply \<times> RegDb" where
  "submit_requirements E q during meanwhile db =
     or_refuse (require_role (re_roles E) (rr_org q) (rr_user q) 2) db (\<lambda>_.
     or_refuse (load_number db q) db (\<lambda>n.
     or_refuse (gate_regulatable n) db (\<lambda>_.
     if vn_status n = RegulatoryReview then (Inl (409, ''submission_already_pending''), db)
     else if \<not> editable n then (Inl (409, ''requirements_not_editable''), db) else
     or_refuse (reg_provider E) db (\<lambda>c.
     with_group c q n during db (\<lambda>eg db1.
       if \<exists>(_, v) \<in> set (rq_requirements (eg_group eg)). v = None
       then (Inl (409, ''requirements_incomplete''), db1)
       else let sub = (case vn_sub_order n of None \<Rightarrow> '''' | Some s \<Rightarrow> s);
                db2 = meanwhile (tell (Attach_group sub (rq_id (eg_group eg))) db1)
            in or_refuse (reg_ask (rc_attach c sub (rq_id (eg_group eg)))) db2 (\<lambda>_.
                 (Inr RegulatoryReview, mark_submitted (rr_number q) (rr_org q) (rr_now q) db2)))))))"

section \<open>One number: what the carrier says now\<close>

text \<open>Only a number whose paperwork is open takes a decision.\<close>

definition take_transition :: "Transition \<Rightarrow> VoipNumber \<Rightarrow> VoipNumber" where
  "take_transition t n =
     (if in_pipeline (vn_status n)
      then n\<lparr>vn_status := t_status t, vn_reason := t_reason t, vn_outbound := t_outbound t\<rparr> else n)"

definition reconcile_one ::
  "regulator \<Rightarrow> nat \<Rightarrow> nat \<Rightarrow> NumberStatus \<Rightarrow> string \<Rightarrow> RegDb \<Rightarrow> (ProviderError + Transition option) \<times> RegDb" where
  "reconcile_one c i org current sub db =
     (case rc_sub_order c sub of
        Inl e \<Rightarrow> (Inl e, db)
      | Inr None \<Rightarrow> (Inr None, db)
      | Inr (Some state) \<Rightarrow>
          (case transition current state of
             None \<Rightarrow> (Inr None, db)
           | Some t \<Rightarrow>
               (Inr (Some t),
                on_numbers (change_number i (\<lambda>n. if vn_org n = org then take_transition t n else n)) db)))"

text \<open>\<open>allowed\<close> is the answer of the rate limiter: once in thirty seconds for a number.\<close>

definition refresh_requirements ::
  "reg_env \<Rightarrow> reg_request \<Rightarrow> bool \<Rightarrow> RegDb \<Rightarrow> (NumberStatus \<times> ustring option) reply \<times> RegDb" where
  "refresh_requirements E q allowed db =
     or_refuse (require_role (re_roles E) (rr_org q) (rr_user q) 1) db (\<lambda>_.
     or_refuse (load_number db q) db (\<lambda>n.
     or_refuse (gate_regulatable n) db (\<lambda>_.
     if \<not> in_pipeline (vn_status n) then (Inr (vn_status n, vn_reason n), db)
     else if \<not> allowed then (Inl (429, ''refresh_too_soon''), db)
     else or_refuse (reg_provider E) db (\<lambda>c.
       case reconcile_one c (rr_number q) (rr_org q) (vn_status n)
              (case vn_sub_order n of None \<Rightarrow> '''' | Some s \<Rightarrow> s) db of
         (Inl e, db1) \<Rightarrow> (Inl (reg_provider_err e), db1)
       | (Inr (Some t), db1) \<Rightarrow> (Inr (t_status t, t_reason t), db1)
       | (Inr None, db1) \<Rightarrow> (Inr (vn_status n, vn_reason n), db1)))))"

section \<open>Uploading a document\<close>

definition MAX_DOCUMENT_BYTES :: nat where "MAX_DOCUMENT_BYTES = 10 * 1024 * 1024"

definition normalize_scan_status :: "ustring \<Rightarrow> string" where
  "normalize_scan_status raw =
     (let w = word_of raw
      in if w = ustr ''scanned'' then ''passed'' else if w = ustr ''infected'' then ''failed'' else ''pending'')"

text \<open>The declared type up to a semicolon, and the magic bytes, must name the same format.\<close>

definition sniff_allowed_type :: "ustring \<Rightarrow> nat list \<Rightarrow> string option" where
  "sniff_allowed_type declared first_chunk =
     (let d = word_of (takeWhile (\<lambda>c. c \<noteq> 59) declared);
          sniffed = (if starts_with first_chunk [37, 80, 68, 70, 45] then Some ''application/pdf''
                     else if starts_with first_chunk [137, 80, 78, 71, 13, 10, 26, 10] then Some ''image/png''
                     else if starts_with first_chunk [255, 216, 255] then Some ''image/jpeg''
                     else None)
      in case sniffed of
           None \<Rightarrow> None
         | Some s \<Rightarrow>
             if d = ustr s \<or> (s = ''image/jpeg'' \<and> d = ustr ''image/jpg'') then Some s else None)"

datatype PumpError = TooLarge | Pump_Malformed

text \<open>\<open>room\<close> is the number of items the carrier's side still takes before it stops reading.\<close>

fun pump_chunks :: "nat \<Rightarrow> nat \<Rightarrow> ChunkEvent list \<Rightarrow> (PumpError + nat) \<times> StreamItem list" where
  "pump_chunks room seen [] = (Inr seen, [])"
| "pump_chunks room seen (Broken # es) = (Inl Pump_Malformed, if room = 0 then [] else [Abort])"
| "pump_chunks room seen (Chunk bs # es) =
     (let seen1 = seen + length bs
      in if MAX_DOCUMENT_BYTES < seen1 then (Inl TooLarge, if room = 0 then [] else [Abort])
         else case room of
                0 \<Rightarrow> (Inr seen1, [])
              | Suc k \<Rightarrow> map_prod id (Cons (Bytes bs)) (pump_chunks k seen1 es))"

definition pump_field :: "nat \<Rightarrow> nat list \<Rightarrow> ChunkEvent list \<Rightarrow> (PumpError + nat) \<times> StreamItem list" where
  "pump_field room first_chunk es =
     (case room of
        0 \<Rightarrow> (Inr (length first_chunk), [])
      | Suc k \<Rightarrow> map_prod id (Cons (Bytes first_chunk)) (pump_chunks k (length first_chunk) es))"

text \<open>The multipart body: its fields in order; a field whose text does not decode has none.\<close>

record MultipartField =
  mf_name :: "string option"
  mf_text :: "ustring option"
  mf_type :: "ustring option"
  mf_chunks :: "ChunkEvent list"

definition malformed_upload :: "nat \<times> string" where "malformed_upload = (400, ''malformed_upload'')"

definition read_requirement_id :: "MultipartField list \<Rightarrow> (ustring \<times> MultipartField list) reply" where
  "read_requirement_id fs =
     (case fs of
        [] \<Rightarrow> Inl malformed_upload
      | f # rest \<Rightarrow>
          if mf_name f \<noteq> Some ''requirement_id'' then Inl malformed_upload
          else (case map_option trim (mf_text f) of
                  None \<Rightarrow> Inl malformed_upload
                | Some v \<Rightarrow> if v = [] then Inl malformed_upload else Inr (v, rest)))"

definition read_file_field :: "MultipartField list \<Rightarrow> MultipartField reply" where
  "read_file_field fs =
     (case fs of
        [] \<Rightarrow> Inl malformed_upload
      | f # _ \<Rightarrow> if mf_name f = Some ''file'' then Inr f else Inl malformed_upload)"

text \<open>The first chunk and the rest of the file.\<close>

definition first_chunk_of :: "MultipartField \<Rightarrow> (nat list \<times> ChunkEvent list) reply" where
  "first_chunk_of f =
     (case mf_chunks f of
        Chunk bs # rest \<Rightarrow> Inr (bs, rest)
      | _ \<Rightarrow> Inl malformed_upload)"

text \<open>\<open>ON CONFLICT (group_id, requirement_id) DO UPDATE\<close>.\<close>

definition store_document :: "DocumentRow \<Rightarrow> RegDb \<Rightarrow> RegDb" where
  "store_document row db =
     (if \<exists>d \<in> set (rd_documents db). dc_group d = dc_group row \<and> dc_requirement d = dc_requirement row
      then db\<lparr>rd_documents := map (\<lambda>d. if dc_group d = dc_group row \<and> dc_requirement d = dc_requirement row
                then row else d) (rd_documents db)\<rparr>
      else db\<lparr>rd_documents := rd_documents db @ [row]\<rparr>)"

text \<open>The two transfers run together: what the pump sent is what the carrier received.\<close>

definition transfer ::
  "regulator \<Rightarrow> nat \<Rightarrow> string \<Rightarrow> nat list \<Rightarrow> ChunkEvent list \<Rightarrow> (nat \<times> string \<times> ustring) reply" where
  "transfer c room ctype first_chunk es =
     (let (pumped, items) = pump_field room first_chunk es
      in case pumped of
           Inl TooLarge \<Rightarrow> Inl (413, ''document_too_large'')
         | Inl Pump_Malformed \<Rightarrow> Inl malformed_upload
         | Inr seen \<Rightarrow>
             (case reg_ask (rc_upload c ctype items) of
                Inl e \<Rightarrow> Inl e
              | Inr (doc, scan) \<Rightarrow> Inr (seen, doc, scan)))"

definition upload_requirement_document ::
  "reg_env \<Rightarrow> reg_request \<Rightarrow> bool \<Rightarrow> MultipartField list \<Rightarrow> nat \<Rightarrow> (RegDb \<Rightarrow> RegDb) \<Rightarrow> RegDb
     \<Rightarrow> string reply \<times> RegDb" where
  "upload_requirement_document E q allowed parts room during db =
     or_refuse (require_role (re_roles E) (rr_org q) (rr_user q) 2) db (\<lambda>_.
     if \<not> allowed then (Inl (429, ''too_many_requests''), db) else
     or_refuse (load_number db q) db (\<lambda>n.
     or_refuse (gate_regulatable n) db (\<lambda>_.
     if \<not> editable n then (Inl (409, ''requirements_not_editable''), db) else
     or_refuse (reg_provider E) db (\<lambda>c.
     with_group c q n during db (\<lambda>eg db1.
       or_refuse (read_requirement_id parts) db1 (\<lambda>(i, rest).
       case find (\<lambda>(spec, _). rs_id spec = i) (rq_requirements (eg_group eg)) of
         None \<Rightarrow> (Inl (400, ''requirement_unknown''), db1)
       | Some (spec, _) \<Rightarrow>
           if rs_kind spec \<noteq> DocumentKind then (Inl (400, ''requirement_kind_mismatch''), db1) else
           or_refuse (read_file_field rest) db1 (\<lambda>f.
           or_refuse (first_chunk_of f) db1 (\<lambda>(bs, es).
           case sniff_allowed_type (case mf_type f of None \<Rightarrow> [] | Some d \<Rightarrow> d) bs of
             None \<Rightarrow> (Inl (415, ''document_type_unsupported''), db1)
           | Some ctype \<Rightarrow>
               or_refuse (transfer c room ctype bs es) db1 (\<lambda>(seen, doc, scan).
                 let values = [(i, Document doc)];
                     db2 = tell (Submit_values (rq_id (eg_group eg)) values) db1
                 in case rc_submit c (rq_id (eg_group eg)) values of
                      Inl _ \<Rightarrow> (Inl (502, ''document_link_failed''), db2)
                    | Inr _ \<Rightarrow>
                        (Inr (normalize_scan_status scan),
                         store_document \<lparr>dc_group = eg_row eg, dc_requirement = i, dc_document = doc,
                           dc_scan = normalize_scan_status scan, dc_type = ctype,
                           dc_size = wrap_i32 (int seen)\<rparr> db2))))))))))"

section \<open>The sweep\<close>

definition CLAIM_HOLD_SECS :: int where "CLAIM_HOLD_SECS = 10 * 60"
definition REVIEW_RECHECK_SECS :: int where "REVIEW_RECHECK_SECS = 5 * 60"
definition PENDING_RECHECK_SECS :: int where "PENDING_RECHECK_SECS = 30 * 60"
definition UNSUPPORTED_RECHECK_SECS :: int where "UNSUPPORTED_RECHECK_SECS = 24 * 60 * 60"
definition BACKOFF_BASE_SECS :: int where "BACKOFF_BASE_SECS = 5 * 60"
definition BACKOFF_MAX_SECS :: int where "BACKOFF_MAX_SECS = 6 * 60 * 60"

definition recheck_secs_for :: "NumberStatus \<Rightarrow> int option" where
  "recheck_secs_for s =
     (case s of
        RegulatoryReview \<Rightarrow> Some REVIEW_RECHECK_SECS
      | PendingRegulatory \<Rightarrow> Some PENDING_RECHECK_SECS
      | RegulatoryRejected \<Rightarrow> Some PENDING_RECHECK_SECS
      | _ \<Rightarrow> None)"

definition i64_max :: int where "i64_max = 2 ^ 63 - 1"

text \<open>\<open>saturating_sub\<close> on \<open>i32\<close>, \<open>saturating_mul\<close> on \<open>i64\<close>.\<close>

definition backoff_secs :: "int \<Rightarrow> int" where
  "backoff_secs failures_after =
     (let exponent = clamp (max (failures_after - 1) i32_min) 0 32
      in min (min (BACKOFF_BASE_SECS * 2 ^ exponent) i64_max) BACKOFF_MAX_SECS)"

definition reschedule :: "nat \<Rightarrow> int \<Rightarrow> int \<Rightarrow> int option \<Rightarrow> RegDb \<Rightarrow> RegDb" where
  "reschedule i now secs failures =
     on_numbers (change_number i (\<lambda>n.
       let n1 = n\<lparr>vn_next_check := Some (now + secs * 1000000)\<rparr>
       in case failures of None \<Rightarrow> n1 | Some f \<Rightarrow> n1\<lparr>vn_failures := f\<rparr>))"

definition apply_transition :: "nat \<Rightarrow> int \<Rightarrow> Transition \<Rightarrow> RegDb \<Rightarrow> RegDb" where
  "apply_transition i now t =
     on_numbers (change_number i (\<lambda>n.
       if in_pipeline (vn_status n)
       then (take_transition t n)\<lparr>vn_failures := 0,
              vn_next_check := map_option (\<lambda>s. now + s * 1000000) (recheck_secs_for (t_status t))\<rparr>
       else n))"

definition reusable_group :: "regulator \<Rightarrow> VoipNumber \<Rightarrow> GroupRow \<Rightarrow> bool" where
  "reusable_group c n g \<longleftrightarrow>
     combination g = (vn_org n, rc_id c, vn_country n, case vn_kind n of None \<Rightarrow> '''' | Some k \<Rightarrow> k)
     \<and> gr_status g = ''approved'' \<and> gr_provider_group g \<noteq> None"

definition attach_reusable_group_if_any :: "regulator \<Rightarrow> VoipNumber \<Rightarrow> string \<Rightarrow> RegDb \<Rightarrow> RegDb" where
  "attach_reusable_group_if_any c row sub db =
     (case find (reusable_group c row) (rd_groups db) of
        None \<Rightarrow> db
      | Some g \<Rightarrow>
          (case gr_provider_group g of
             None \<Rightarrow> db
           | Some handle \<Rightarrow>
               tell (Attach_group sub handle)
                 (on_numbers (change_number (vn_id row)
                    (\<lambda>n. if vn_group n = None then n\<lparr>vn_group := Some (gr_id g)\<rparr> else n)) db)))"

datatype RowOutcome = Row_Applied | Row_Unchanged | Row_RateLimited

text \<open>One claimed row, as it was when it was claimed.\<close>

definition reconcile_claimed_row :: "regulator \<Rightarrow> int \<Rightarrow> VoipNumber \<Rightarrow> RegDb \<Rightarrow> RowOutcome \<times> RegDb" where
  "reconcile_claimed_row c now row db =
     (let sub = (case vn_sub_order row of None \<Rightarrow> '''' | Some s \<Rightarrow> s);
          db1 = (if vn_group row = None then attach_reusable_group_if_any c row sub db else db);
          failures = wrap_i32 (vn_failures row + 1);
          back_off = reschedule (vn_id row) now (backoff_secs failures) (Some failures)
      in case rc_sub_order c sub of
           Inr (Some state) \<Rightarrow>
             (case transition (vn_status row) state of
                None \<Rightarrow>
                  (Row_Unchanged,
                   reschedule (vn_id row) now
                     (case recheck_secs_for (vn_status row) of None \<Rightarrow> PENDING_RECHECK_SECS | Some s \<Rightarrow> s)
                     (Some 0) db1)
              | Some t \<Rightarrow> (Row_Applied, apply_transition (vn_id row) now t db1))
         | Inr None \<Rightarrow> (Row_Unchanged, back_off db1)
         | Inl RateLimited \<Rightarrow> (Row_RateLimited, db1)
         | Inl (Provider_Unsupported _) \<Rightarrow>
             (Row_Unchanged, reschedule (vn_id row) now UNSUPPORTED_RECHECK_SECS None db1)
         | Inl _ \<Rightarrow> (Row_Unchanged, back_off db1))"

fun sweep_claimed_rows :: "regulator \<Rightarrow> int \<Rightarrow> VoipNumber list \<Rightarrow> nat \<times> nat \<Rightarrow> RegDb \<Rightarrow> (nat \<times> nat) \<times> RegDb" where
  "sweep_claimed_rows c now [] counts db = (counts, db)"
| "sweep_claimed_rows c now (row # rows) (moved, kept) db =
     (case reconcile_claimed_row c now row db of
        (Row_RateLimited, db1) \<Rightarrow> ((moved, kept), db1)
      | (Row_Applied, db1) \<Rightarrow> sweep_claimed_rows c now rows (Suc moved, kept) db1
      | (Row_Unchanged, db1) \<Rightarrow> sweep_claimed_rows c now rows (moved, Suc kept) db1)"

definition check_due :: "int \<Rightarrow> VoipNumber \<Rightarrow> bool" where
  "check_due now n \<longleftrightarrow>
     in_pipeline (vn_status n) \<and> vn_sub_order n \<noteq> None
     \<and> (case vn_next_check n of None \<Rightarrow> False | Some t \<Rightarrow> t \<le> now)"

definition claimable :: "int \<Rightarrow> int \<Rightarrow> NumbersDb \<Rightarrow> VoipNumber list" where
  "claimable now batch db =
     take (clamp batch 1 200) (sort_key (\<lambda>n. case vn_next_check n of None \<Rightarrow> 0 | Some t \<Rightarrow> t)
       (filter (check_due now) (nb_numbers db)))"

definition reconcile_due :: "regulator \<Rightarrow> int \<Rightarrow> int \<Rightarrow> RegDb \<Rightarrow> (nat \<times> nat) \<times> RegDb" where
  "reconcile_due c now batch db =
     (let rows = claimable now batch (rd_numbers db);
          db1 = on_numbers (\<lambda>ns. ns\<lparr>nb_numbers := map (\<lambda>n. if vn_id n \<in> vn_id ` set rows
                  then n\<lparr>vn_next_check := Some (now + CLAIM_HOLD_SECS * 1000000)\<rparr> else n) (nb_numbers ns)\<rparr>) db
      in sweep_claimed_rows c now rows (0, 0) db1)"

definition stale_claim :: "int \<Rightarrow> GroupRow \<Rightarrow> bool" where
  "stale_claim now g \<longleftrightarrow>
     gr_status g = ''creating'' \<and> gr_provider_group g = None \<and> gr_created g < now - 600 * 1000000"

definition reclaim_stale_groups :: "int \<Rightarrow> RegDb \<Rightarrow> nat \<times> RegDb" where
  "reclaim_stale_groups now db =
     (length (filter (stale_claim now) (rd_groups db)),
      db\<lparr>rd_groups := filter (\<lambda>g. \<not> stale_claim now g) (rd_groups db)\<rparr>)"

definition nudged :: "string \<Rightarrow> string list \<Rightarrow> VoipNumber \<Rightarrow> bool" where
  "nudged provider subs n \<longleftrightarrow>
     vn_provider n = provider \<and> (\<exists>s \<in> set subs. vn_sub_order n = Some s) \<and> in_pipeline (vn_status n)"

definition nudge :: "string \<Rightarrow> string list \<Rightarrow> int \<Rightarrow> RegDb \<Rightarrow> nat \<times> RegDb" where
  "nudge provider subs now db =
     (if subs = [] then (0, db)
      else (length (filter (nudged provider subs) (nb_numbers (rd_numbers db))),
            on_numbers (\<lambda>ns. ns\<lparr>nb_numbers := map (\<lambda>n. if nudged provider subs n
              then n\<lparr>vn_next_check := Some now\<rparr> else n) (nb_numbers ns)\<rparr>) db))"

section \<open>What is decided, and when\<close>

lemma change_number_on [simp]:
  "rd_groups (on_numbers f db) = rd_groups db" "rd_commands (on_numbers f db) = rd_commands db"
  "rd_documents (on_numbers f db) = rd_documents db" "rd_numbers (on_numbers f db) = f (rd_numbers db)"
  by (simp_all add: on_numbers_def)

lemma tell_sel [simp]:
  "rd_groups (tell c db) = rd_groups db" "rd_numbers (tell c db) = rd_numbers db"
  "rd_documents (tell c db) = rd_documents db" "rd_commands (tell c db) = rd_commands db @ [c]"
  by (simp_all add: tell_def)

lemma group_status_roundtrip: "group_status_parse (ustr (group_status_as_str s)) = s"
  by (cases s) (simp_all add: group_status_parse_def ustr_def word_of_plain)

text \<open>
  A number fails exactly when its order was cancelled or deleted, it becomes active only when the order
  or the paperwork succeeded, and only an active number may be presented. A reason comes with a
  rejection and is cut.
\<close>

lemma transition_facts:
  assumes "transition current s = Some t"
  shows "t_outbound t = (t_status t = Active)"
    and "t_status t \<in> {Number_Failed, Active, RegulatoryRejected, RegulatoryReview, PendingRegulatory}"
    and "(t_status t = Number_Failed) = (so_order s \<in> {Cancelled, Deleted})"
    and "(t_status t = Active) = (so_order s \<notin> {Cancelled, Deleted}
           \<and> (so_requirements s = Requirements_Approved \<or> so_order s = Success))"
    and "t_reason t \<noteq> None \<Longrightarrow> t_status t = RegulatoryRejected \<and> length (the (t_reason t)) \<le> MAX_REASON_CHARS"
  using assms
  by (auto simp: transition_def truncate_reason_def split: if_splits RequirementsStatus.splits)

text \<open>
  A number whose state the carrier cannot tell is asked about again after five minutes, and after
  each further failure in a row after twice the time, up to six hours; no count of failures makes
  the time overflow or run backwards.
\<close>

theorem backoff_doubles_to_its_bound:
  "backoff_secs f = (if f \<le> 1 then 300 else if 8 \<le> f then 21600 else 300 * 2 ^ nat (f - 1))
     \<and> 300 \<le> backoff_secs f \<and> backoff_secs f \<le> 21600 \<and> (f \<le> g \<longrightarrow> backoff_secs f \<le> backoff_secs g)"
proof -
  have eq: "backoff_secs h = (if h \<le> 1 then 300 else if 8 \<le> h then 21600 else 300 * 2 ^ nat (h - 1))" for h
  proof (cases "h \<le> 1")
    case True
    then have "clamp (max (h - 1) i32_min) 0 32 = 0" by (simp add: clamp_def i32_min_def)
    then show ?thesis using True by (simp add: backoff_secs_def BACKOFF_BASE_SECS_def BACKOFF_MAX_SECS_def i64_max_def)
  next
    case False
    then have c: "clamp (max (h - 1) i32_min) 0 32 = min (nat (h - 1)) 32"
      by (auto simp: clamp_def i32_min_def min_def max_def nat_le_iff)
    show ?thesis
    proof (cases "8 \<le> h")
      case True
      then have "(2::int) ^ 7 \<le> 2 ^ min (nat (h - 1)) 32" by (intro power_increasing) auto
      then show ?thesis
        using True by (simp add: backoff_secs_def c BACKOFF_BASE_SECS_def BACKOFF_MAX_SECS_def i64_max_def)
    next
      case lt: False
      then have m: "min (nat (h - 1)) 32 = nat (h - 1)" and le: "nat (h - 1) \<le> 6" using False by auto
      have "(2::int) ^ nat (h - 1) \<le> 2 ^ 6" using le by (intro power_increasing) auto
      then show ?thesis
        using lt False by (simp add: backoff_secs_def c m BACKOFF_BASE_SECS_def BACKOFF_MAX_SECS_def i64_max_def)
    qed
  qed
  have small: "(2::int) ^ nat (h - 1) \<le> 2 ^ 6" if "h < 8" for h :: int
    using that by (intro power_increasing) auto
  have pow: "(1::int) \<le> 2 ^ nat (h - 1)" "h < 8 \<Longrightarrow> (2::int) ^ nat (h - 1) \<le> 64" for h :: int
    using small [of h] by simp_all
  have range: "300 \<le> backoff_secs h \<and> backoff_secs h \<le> 21600" for h
    using pow [of h] by (auto simp: eq)
  have mono: "backoff_secs f \<le> backoff_secs g" if "f \<le> g"
  proof (cases "1 < f \<and> g < 8")
    case True
    then have "(2::int) ^ nat (f - 1) \<le> 2 ^ nat (g - 1)" using that by (intro power_increasing) auto
    then show ?thesis using True that by (simp add: eq)
  next
    case False
    then show ?thesis using range [of f] range [of g] that eq [of f] eq [of g] by (auto split: if_splits)
  qed
  show ?thesis using eq range mono by blast
qed

section \<open>The attachment is asked for once\<close>

lemma attach_links:
  assumes "n \<in> set (nb_numbers (rd_numbers (attach_reusable_group_if_any c row sub db)))" "vn_id n = vn_id row"
    and "find (reusable_group c row) (rd_groups db) \<noteq> None"
  shows "vn_group n \<noteq> None"
proof -
  from assms(3) obtain g where g: "find (reusable_group c row) (rd_groups db) = Some g" by auto
  then have "reusable_group c row g" by (auto simp: find_Some_split)
  then obtain handle where "gr_provider_group g = Some handle" by (auto simp: reusable_group_def)
  then show ?thesis using assms(1,2) g by (auto simp: attach_reusable_group_if_any_def split: if_splits)
qed

lemma attach_commands:
  "rd_commands (attach_reusable_group_if_any c row sub db) = rd_commands db
   \<or> (\<exists>h. rd_commands (attach_reusable_group_if_any c row sub db) = rd_commands db @ [Attach_group sub h])"
  by (auto simp: attach_reusable_group_if_any_def split: option.splits)

text \<open>What the row of a sweep keeps after the attachment.\<close>

lemma claimed_row_keeps:
  fixes c :: regulator and row :: VoipNumber
  assumes "reconcile_claimed_row c now row db = (out, db')"
    and db1: "db1 = (if vn_group row = None
      then attach_reusable_group_if_any c row (case vn_sub_order row of None \<Rightarrow> '''' | Some s \<Rightarrow> s) db else db)"
  shows "rd_commands db' = rd_commands db1" and "rd_groups db' = rd_groups db1"
    and "map (\<lambda>n. (vn_id n, vn_group n)) (nb_numbers (rd_numbers db'))
       = map (\<lambda>n. (vn_id n, vn_group n)) (nb_numbers (rd_numbers db1))"
  using assms
  unfolding reconcile_claimed_row_def reschedule_def apply_transition_def take_transition_def Let_def
  by (auto split: sum.splits option.splits ProviderError.splits)

text \<open>
  The sweep asks for the attachment of an approved group once. The link to the group is written
  before the carrier is asked and its answer is not looked at, so on every later visit of the
  number the sweep finds it linked and tells the carrier nothing, whether the first attempt
  reached the carrier or not.
\<close>

theorem attachment_is_asked_once:
  assumes first: "reconcile_claimed_row c now row db = (out, db1)" "vn_group row = None"
    and approved: "find (reusable_group c row) (rd_groups db) \<noteq> None"
    and later: "n \<in> set (nb_numbers (rd_numbers db1))" "vn_id n = vn_id row"
    and visit: "vn_group row2 = vn_group n" "reconcile_claimed_row c2 now2 row2 db2 = (out2, db3)"
  shows "(\<exists>sub h. rd_commands db1 = rd_commands db @ [Attach_group sub h]) \<and> rd_commands db3 = rd_commands db2"
proof -
  let ?sub = "case vn_sub_order row of None \<Rightarrow> '''' | Some s \<Rightarrow> s"
  let ?mid = "attach_reusable_group_if_any c row ?sub db"
  from claimed_row_keeps [OF first(1)] first(2)
  have keeps: "rd_commands db1 = rd_commands ?mid"
    "map (\<lambda>n. (vn_id n, vn_group n)) (nb_numbers (rd_numbers db1))
       = map (\<lambda>n. (vn_id n, vn_group n)) (nb_numbers (rd_numbers ?mid))" by auto
  from approved obtain g where g: "find (reusable_group c row) (rd_groups db) = Some g" by auto
  then have "gr_provider_group g \<noteq> None" by (auto simp: find_Some_split reusable_group_def)
  with g have told: "\<exists>h. rd_commands ?mid = rd_commands db @ [Attach_group ?sub h]"
    by (auto simp: attach_reusable_group_if_any_def)
  have "(vn_id n, vn_group n) \<in> set (map (\<lambda>n. (vn_id n, vn_group n)) (nb_numbers (rd_numbers ?mid)))"
    using later(1) by (simp flip: keeps(2))
  then obtain m where m: "m \<in> set (nb_numbers (rd_numbers ?mid))" "vn_id m = vn_id n" "vn_group m = vn_group n" by auto
  have "vn_group row2 \<noteq> None" using attach_links [OF m(1) _ approved] m later visit(1) by simp
  then have "rd_commands db3 = rd_commands db2" using claimed_row_keeps(1) [OF visit(2) refl] by auto
  with told keeps(1) show ?thesis by auto
qed

section \<open>The upload forwards the file whole or not at all\<close>

definition bytes_of :: "StreamItem list \<Rightarrow> nat list" where
  "bytes_of items = concat (map (\<lambda>i. case i of Bytes b \<Rightarrow> b | Abort \<Rightarrow> []) items)"

definition file_of :: "ChunkEvent list \<Rightarrow> nat list" where
  "file_of es = concat (map (\<lambda>e. case e of Chunk b \<Rightarrow> b | Broken \<Rightarrow> []) es)"

lemma bytes_of_simps [simp]:
  "bytes_of [] = []" "bytes_of (Bytes b # items) = b @ bytes_of items" "bytes_of (Abort # items) = bytes_of items"
  by (simp_all add: bytes_of_def)

lemma file_of_simps [simp]:
  "file_of [] = []" "file_of (Chunk b # es) = b @ file_of es" "file_of (Broken # es) = file_of es"
  by (simp_all add: file_of_def)

lemma pump_chunks_facts:
  assumes "pump_chunks room seen es = (res, items)" and "length es < room"
  shows "seen + length (bytes_of items) \<le> max seen MAX_DOCUMENT_BYTES
    \<and> (case res of
       Inr n \<Rightarrow> n = seen + length (file_of es) \<and> bytes_of items = file_of es \<and> Abort \<notin> set items \<and> Broken \<notin> set es
     | Inl TooLarge \<Rightarrow> Abort \<in> set items \<and> MAX_DOCUMENT_BYTES < seen + length (file_of es)
     | Inl Pump_Malformed \<Rightarrow> Abort \<in> set items \<and> Broken \<in> set es)"
  using assms
proof (induction es arbitrary: room seen res items)
  case Nil
  then show ?case by auto
next
  case (Cons e es)
  then obtain k where room: "room = Suc k" "length es < k" by (cases room) auto
  show ?case
  proof (cases e)
    case Broken
    then show ?thesis using Cons.prems room by auto
  next
    case (Chunk bs)
    obtain res1 items1 where rest: "pump_chunks k (seen + length bs) es = (res1, items1)" by fastforce
    note IH = Cons.IH [OF rest room(2)]
    show ?thesis
    proof (cases "MAX_DOCUMENT_BYTES < seen + length bs")
      case True
      then show ?thesis using Cons.prems room Chunk by auto
    next
      case False
      then have "res = res1" "items = Bytes bs # items1" using Cons.prems(1) room Chunk rest by auto
      then show ?thesis using IH False Chunk by (auto split: sum.splits PumpError.splits)
    qed
  qed
qed

text \<open>
  An upload reaches the carrier whole or is aborted. While the carrier reads, a document that the
  pump accepts was forwarded byte for byte and its size is the count; one that grows past the cap,
  or breaks off, ends the stream with an error, so no truncated document is taken for a whole one;
  and apart from a first chunk that is over the cap by itself, which is not measured, no more than
  the cap is ever forwarded.
\<close>

theorem upload_is_whole_or_aborted:
  assumes "pump_field room first_chunk es = (res, items)" and "Suc (length es) < room"
  shows "length (bytes_of items) \<le> max (length first_chunk) MAX_DOCUMENT_BYTES
    \<and> (case res of
       Inr n \<Rightarrow> bytes_of items = first_chunk @ file_of es \<and> n = length (bytes_of items)
         \<and> Abort \<notin> set items \<and> Broken \<notin> set es
     | Inl TooLarge \<Rightarrow> Abort \<in> set items \<and> MAX_DOCUMENT_BYTES < length first_chunk + length (file_of es)
     | Inl Pump_Malformed \<Rightarrow> Abort \<in> set items \<and> Broken \<in> set es)"
proof -
  obtain k where room: "room = Suc k" "length es < k" using assms(2) by (cases room) auto
  obtain items1 where rest: "pump_chunks k (length first_chunk) es = (res, items1)"
    and items: "items = Bytes first_chunk # items1"
    using assms(1) room by (auto simp: pump_field_def map_prod_def split: prod.splits)
  show ?thesis using pump_chunks_facts [OF rest room(2)] items by (auto split: sum.splits PumpError.splits)
qed

end
