(* ===== verification/Number_Life.thy ===== *)
theory Number_Life
  imports Regulatory
begin

text \<open>
  The numbers and their paperwork together: the transactions of \<^verbatim>\<open>voip/numbers.rs\<close> and
  \<^verbatim>\<open>voip/regulatory.rs\<close> as an atomic step relation. Whatever else runs between two statements of a
  handler, a handler is a run of these steps, so what every step keeps holds at all times. On it
  rest the claims about the caller id a call may present, about a purchase that is retried, about
  the groups of an organisation, and what becomes of a number that was given back.
\<close>

section \<open>The transactions\<close>

text \<open>\<open>S\<close> holds the states in which the carrier creates a requirement group.\<close>

inductive number_tx :: "GroupStatus set \<Rightarrow> RegDb \<Rightarrow> RegDb \<Rightarrow> bool" for S where
  tx_order: "number_tx S db (on_numbers (command k) db)"
| tx_tell: "number_tx S db (tell cmd db)"
| tx_store: "row = purchased_row i org now c dest body off bought monthly fee \<Longrightarrow>
     number_tx S db (on_numbers (\<lambda>x. snd (store_purchase D E c user row dest fee x)) db)"
| tx_verification: "number_tx S db (on_numbers (change_number i (\<lambda>n. if vn_org n = org
     then n\<lparr>vn_verification_id := Some h, vn_verification := Verification_Pending\<rparr> else n)) db)"
| tx_verified: "number_tx S db (on_numbers (change_number i (\<lambda>n. if vn_org n = org
     then n\<lparr>vn_verification := v\<rparr> else n)) db)"
| tx_release: "number_tx S db (on_numbers (change_number i (\<lambda>n. if vn_org n = org then released_row n else n)) db)"
| tx_renew: "renew_row D now row (rd_numbers db) = Inr (b, x) \<Longrightarrow> number_tx S db (db\<lparr>rd_numbers := x\<rparr>)"
| tx_settings: "number_tx S db (on_numbers (\<lambda>x. x\<lparr>nb_routing := r, nb_hours := h\<rparr>) db)"
| tx_credits: "number_tx S db (on_numbers (\<lambda>x. x\<lparr>nb_pool := pool\<rparr>) db)"
| tx_claim: "claim_group (claimed_row i org p country kind now) db = Some db' \<Longrightarrow>
     i \<notin> gr_id ` set (rd_groups db) \<Longrightarrow> number_tx S db db'"
| tx_created: "s \<in> S \<Longrightarrow> \<forall>g \<in> set (rd_groups db). gr_id g = i \<longrightarrow> gr_status g = ''creating'' \<Longrightarrow>
     number_tx S db (change_group i (\<lambda>r. r\<lparr>gr_provider_group := Some h, gr_status := group_status_as_str s\<rparr>) db)"
| tx_abandon: "number_tx S db
     (db\<lparr>rd_groups := filter (\<lambda>r. \<not> (gr_id r = i \<and> gr_provider_group r = None)) (rd_groups db)\<rparr>)"
| tx_link: "link_group i g db = (r, db') \<Longrightarrow> number_tx S db db'"
| tx_submitted: "number_tx S db (mark_submitted i org now db)"
| tx_take: "transition cur s = Some t \<Longrightarrow>
     number_tx S db (on_numbers (change_number i (\<lambda>n. if vn_org n = org then take_transition t n else n)) db)"
| tx_apply: "transition cur s = Some t \<Longrightarrow> number_tx S db (apply_transition i now t db)"
| tx_reschedule: "number_tx S db (reschedule i now secs failures db)"
| tx_hold: "number_tx S db (on_numbers (\<lambda>ns. ns\<lparr>nb_numbers := map (\<lambda>n. if vn_id n \<in> I
     then n\<lparr>vn_next_check := Some u\<rparr> else n) (nb_numbers ns)\<rparr>) db)"
| tx_nudge: "number_tx S db (snd (nudge p subs now db))"
| tx_attach: "number_tx S db (attach_reusable_group_if_any c row sub db)"
| tx_reclaim: "number_tx S db (snd (reclaim_stale_groups now db))"
| tx_document: "number_tx S db (store_document d db)"

abbreviation number_run :: "GroupStatus set \<Rightarrow> RegDb \<Rightarrow> RegDb \<Rightarrow> bool" where
  "number_run S \<equiv> (number_tx S)\<^sup>*\<^sup>*"

section \<open>What every transaction keeps of a row\<close>

definition shown :: "VoipNumber \<Rightarrow> bool \<times> bool \<times> NumberStatus" where
  "shown n = (vn_outbound n, vn_inbound n, vn_status n)"

definition all_rows :: "(VoipNumber \<Rightarrow> bool) \<Rightarrow> RegDb \<Rightarrow> bool" where
  "all_rows P db \<longleftrightarrow> (\<forall>n \<in> set (nb_numbers (rd_numbers db)). P n)"

lemma all_rows_tell [simp]: "all_rows P (tell k db) = all_rows P db"
  by (simp add: all_rows_def)

definition link_row :: "nat \<Rightarrow> VoipNumber \<Rightarrow> VoipNumber" where
  "link_row g n = (if vn_group n = None then n\<lparr>vn_group := Some g\<rparr> else n)"

lemma link_row_shown [simp]: "shown (link_row g n) = shown n"
  by (simp add: link_row_def shown_def)

lemma link_steps:
  "link_group i g db = (r, db') \<Longrightarrow> db' = db \<or> db' = on_numbers (change_number i (link_row g)) db"
  by (auto simp: link_group_def link_row_def [abs_def] split: if_splits)

lemma attach_steps:
  "attach_reusable_group_if_any c row sub db = db
   \<or> (\<exists>k i g. attach_reusable_group_if_any c row sub db = tell k (on_numbers (change_number i (link_row g)) db))"
  by (auto simp: attach_reusable_group_if_any_def link_row_def [abs_def] split: option.splits)

text \<open>A property of rows that depends on what they show of their state, and that every change of it keeps.\<close>

locale number_invariant =
  fixes P :: "VoipNumber \<Rightarrow> bool"
  assumes same: "P n \<Longrightarrow> shown m = shown n \<Longrightarrow> P m"
    and purchased: "P (purchased_row i org now c dest body off bought monthly fee)"
    and released: "P n \<Longrightarrow> P (released_row n)"
    and renewed: "P n \<Longrightarrow> P (renewed_row n)"
    and suspended: "P n \<Longrightarrow> P (suspended_row now n)"
    and submitted: "P n \<Longrightarrow> P (submitted_row now n)"
    and decided: "P n \<Longrightarrow> transition cur s = Some t \<Longrightarrow>
      P (n\<lparr>vn_status := t_status t, vn_reason := t_reason t, vn_outbound := t_outbound t\<rparr>)"
begin

lemma change_rows:
  assumes "all_rows P db" and "\<And>n. P n \<Longrightarrow> P (f n)"
  shows "all_rows P (on_numbers (change_number i f) db)"
  using assms by (auto simp: all_rows_def)

lemma same_rows:
  assumes "all_rows P db" and "\<And>m. m \<in> set (nb_numbers (rd_numbers db')) \<Longrightarrow>
      \<exists>n \<in> set (nb_numbers (rd_numbers db)). shown m = shown n"
  shows "all_rows P db'"
  using assms same unfolding all_rows_def by blast

lemma linked: "P n \<Longrightarrow> P (link_row g n)"
  by (rule same) simp_all

lemma stored_rows:
  assumes "all_rows P db"
    and "row = purchased_row i org now c dest body off bought monthly fee"
  shows "all_rows P (on_numbers (\<lambda>x. snd (store_purchase D E c user row dest fee x)) db)"
proof -
  obtain r x where s: "store_purchase D E c user row dest fee (rd_numbers db) = (r, x)" by fastforce
  from s purchased_row_sel(6) have "nb_numbers x = nb_numbers (rd_numbers db)
      \<or> nb_numbers x = nb_numbers (rd_numbers db) @ [row]"
    unfolding assms(2) by (cases rule: store_purchase_cases) auto
  then show ?thesis using assms purchased s by (auto simp: all_rows_def)
qed

lemma renewed_rows:
  assumes "all_rows P db" and "renew_row D now row (rd_numbers db) = Inr (b, x)"
  shows "all_rows P (db\<lparr>rd_numbers := x\<rparr>)"
  using assms renewed suspended
  by (auto simp: renew_row_def all_rows_def split: sum.splits OrgCharge.splits)

lemma taken: "P n \<Longrightarrow> transition cur s = Some t \<Longrightarrow> P (take_transition t n)"
  using decided [of n cur s t] by (simp add: take_transition_def)

lemma tx_keeps:
  assumes "number_tx S db db'" and "all_rows P db"
  shows "all_rows P db'"
  using assms
proof (cases rule: number_tx.cases)
  case (tx_take cur s t i org)
  then show ?thesis using assms(2) taken by (auto intro!: change_rows)
next
  case (tx_apply cur s t i now)
  then show ?thesis
    using assms(2) unfolding apply_transition_def tx_apply(1)
    by (intro change_rows) (auto intro: same [OF taken] simp: shown_def)
next
  case (tx_store row i org now c dest body off bought monthly fee D E user)
  then show ?thesis using assms(2) by (auto intro: stored_rows)
next
  case (tx_renew D now row b x)
  then show ?thesis using assms(2) by (auto intro: renewed_rows)
next
  case (tx_submitted i org now)
  then show ?thesis using assms(2) submitted by (auto simp: mark_submitted_def intro!: change_rows)
next
  case (tx_release i org)
  then show ?thesis using assms(2) released by (auto intro!: change_rows)
next
  case (tx_reschedule i now secs failures)
  then show ?thesis
    using assms(2) unfolding reschedule_def tx_reschedule
    by (intro change_rows) (auto simp: Let_def shown_def split: option.splits intro: same)
next
  case (tx_verification i org h)
  then show ?thesis using assms(2) by (auto simp: shown_def intro!: change_rows intro: same)
next
  case (tx_verified i org v)
  then show ?thesis using assms(2) by (auto simp: shown_def intro!: change_rows intro: same)
next
  case (tx_hold I u)
  then show ?thesis using assms(2) by (intro same_rows [OF assms(2)]) (auto simp: shown_def)
next
  case (tx_nudge p subs now)
  then show ?thesis using assms(2) by (intro same_rows [OF assms(2)]) (auto simp: shown_def nudge_def split: if_splits)
next
  case (tx_link i g r)
  then show ?thesis
    using assms(2) by (auto dest!: link_steps intro!: change_rows linked)
next
  case (tx_attach c row sub)
  then show ?thesis
    using attach_steps [of c row sub db] assms(2)
    by (auto intro!: change_rows linked)
qed (use assms(2) in \<open>auto simp: all_rows_def claim_group_def change_group_def reclaim_stale_groups_def
    store_document_def split: if_splits\<close>)

lemma run_keeps: "number_run S db db' \<Longrightarrow> all_rows P db \<Longrightarrow> all_rows P db'"
  by (induction rule: rtranclp_induct) (auto intro: tx_keeps)

end

interpretation cleared: number_invariant "\<lambda>n. vn_outbound n \<longrightarrow> vn_status n = Active"
  by unfold_locales
    (auto simp: shown_def released_row_def renewed_row_def suspended_row_def submitted_row_def transition_facts)

interpretation silent: number_invariant "\<lambda>n. \<not> vn_inbound n"
  by unfold_locales
    (auto simp: shown_def released_row_def renewed_row_def suspended_row_def submitted_row_def)

section \<open>Every handler is a run of transactions\<close>

text \<open>What runs while a handler waits is itself a run, and leaves a claim alone.\<close>

definition others_run :: "GroupStatus set \<Rightarrow> (RegDb \<Rightarrow> RegDb) \<Rightarrow> bool" where
  "others_run S during \<longleftrightarrow> (\<forall>db. number_run S db (during db))"

definition claim_kept :: "nat \<Rightarrow> (RegDb \<Rightarrow> RegDb) \<Rightarrow> bool" where
  "claim_kept i during \<longleftrightarrow>
     (\<forall>db. (\<forall>g \<in> set (rd_groups db). gr_id g = i \<longrightarrow> gr_status g = ''creating'') \<longrightarrow>
       (\<forall>g \<in> set (rd_groups (during db)). gr_id g = i \<longrightarrow> gr_status g = ''creating''))"

lemma run_step: "number_run S db db1 \<Longrightarrow> number_tx S db1 db2 \<Longrightarrow> number_run S db db2"
  by (rule rtranclp.rtrancl_into_rtrancl)

lemma on_numbers_same [simp]: "on_numbers (\<lambda>x. x) db = db"
  by (simp add: on_numbers_def)

lemma on_numbers_twice: "on_numbers f (on_numbers g db) = on_numbers (\<lambda>x. f (g x)) db"
  by (simp add: on_numbers_def)

lemma on_numbers_cong: "f (rd_numbers db) = g (rd_numbers db) \<Longrightarrow> on_numbers f db = on_numbers g db"
  by (simp add: on_numbers_def)

lemma run_as:
  "f (rd_numbers db) = g (rd_numbers db) \<Longrightarrow> number_run S db (on_numbers g db) \<Longrightarrow> number_run S db (on_numbers f db)"
  by (simp only: on_numbers_cong [of f db g])

lemma run_idle: "f (rd_numbers db) = rd_numbers db \<Longrightarrow> number_run S db (on_numbers f db)"
  by (rule run_as [where g = "\<lambda>x. x"]) simp_all

lemma run_one: "number_tx S db db' \<Longrightarrow> number_run S db db'"
  by (rule r_into_rtranclp)

lemma order_run: "number_run S db (on_numbers (command k) db)"
  by (rule r_into_rtranclp, rule tx_order)

lemma buy_run:
  assumes "\<forall>db. number_run S db (on_numbers during db)"
  shows "number_run S db (on_numbers (\<lambda>x. snd (buy D E org user body i now during x)) db)"
proof -
  obtain r x where buy: "buy D E org user body i now during (rd_numbers db) = (r, x)" by fastforce
  have eq: "on_numbers (\<lambda>x. snd (buy D E org user body i now during x)) db = on_numbers (\<lambda>_. x) db"
    by (rule on_numbers_cong) (simp add: buy)
  have ordered: "number_run S db (on_numbers (\<lambda>x. during (command k x)) db)" for k
    using rtranclp_trans [OF order_run assms [rule_format, of "on_numbers (command k) db"]]
    by (simp add: on_numbers_twice)
  from buy show ?thesis unfolding eq
  proof (cases rule: buy_steps)
    case idle
    then have "on_numbers (\<lambda>_. x) db = db" by (simp add: on_numbers_def)
    then show "number_run S db (on_numbers (\<lambda>_. x) db)" by simp
  next
    case (refused dest)
    then have "on_numbers (\<lambda>_. x) db = on_numbers (\<lambda>x. during (command (Purchase_number dest (bb_key body)) x)) db"
      by (intro on_numbers_cong) simp
    then show "number_run S db (on_numbers (\<lambda>_. x) db)" using ordered by simp
  next
    case (settled c policy dest off sold monthly fee)
    let ?row = "purchased_row i org now c dest body off sold monthly fee"
    let ?k = "Purchase_number (e164_as_str dest) (bb_key body)"
    have "on_numbers (\<lambda>_. x) db
        = on_numbers (\<lambda>x. snd (store_purchase D E c user ?row dest fee x)) (on_numbers (\<lambda>x. during (command ?k x)) db)"
      unfolding on_numbers_twice using settled(5) by (intro on_numbers_cong) simp
    then show "number_run S db (on_numbers (\<lambda>_. x) db)"
      using run_step [OF ordered tx_store [OF refl]] by simp
  qed
qed

lemma verification_run:
  "number_run S db (on_numbers (\<lambda>x. snd (start_verification E org user i x)) db)"
  "number_run S db (on_numbers (\<lambda>x. snd (check_verification E org user i x)) db)"
proof -
  let ?x = "rd_numbers db"
  have "snd (start_verification E org user i ?x) = ?x \<or> (\<exists>h. snd (start_verification E org user i ?x)
      = change_number i (\<lambda>n. if vn_org n = org
          then n\<lparr>vn_verification_id := Some h, vn_verification := Verification_Pending\<rparr> else n) ?x)"
    by (auto simp: start_verification_def or_refuse_def split: sum.splits option.splits)
  then show "number_run S db (on_numbers (\<lambda>x. snd (start_verification E org user i x)) db)"
    by (elim disjE exE) (auto intro: run_idle run_as [OF _ run_one [OF tx_verification]])
  have "snd (check_verification E org user i ?x) = ?x \<or> (\<exists>v. snd (check_verification E org user i ?x)
      = change_number i (\<lambda>n. if vn_org n = org then n\<lparr>vn_verification := v\<rparr> else n) ?x)"
    by (auto simp: check_verification_def or_refuse_def split: sum.splits option.splits)
  then show "number_run S db (on_numbers (\<lambda>x. snd (check_verification E org user i x)) db)"
    by (elim disjE exE) (auto intro: run_idle run_as [OF _ run_one [OF tx_verified]])
qed

lemma release_steps:
  "snd (release_number E org user i x) = x
   \<or> snd (release_number E org user i x) = change_number i (\<lambda>n. if vn_org n = org then released_row n else n) x
   \<or> (\<exists>h. snd (release_number E org user i x) = command (Release_number h) x)
   \<or> (\<exists>h. snd (release_number E org user i x)
         = change_number i (\<lambda>n. if vn_org n = org then released_row n else n) (command (Release_number h) x))"
  by (auto simp: release_number_def or_refuse_def Let_def split: sum.splits option.splits)

lemma release_run: "number_run S db (on_numbers (\<lambda>x. snd (release_number E org user i x)) db)"
proof -
  let ?rel = "change_number i (\<lambda>n. if vn_org n = org then released_row n else n)"
  have two: "number_run S db (on_numbers (\<lambda>x. ?rel (command k x)) db)" for k
    using run_step [OF order_run [where k = k] tx_release [where i = i and org = org]]
    by (simp add: on_numbers_twice)
  have one: "number_run S db (on_numbers ?rel db)" by (rule run_one) (rule tx_release)
  from release_steps [of E org user i "rd_numbers db"] show ?thesis
    by (elim disjE exE) (auto intro: run_idle run_as [OF _ one] run_as [OF _ two] run_as [OF _ order_run])
qed

lemma renewal_run:
  "number_run S db (on_numbers (\<lambda>x. snd (renew_rows D now rows counts x)) db)"
proof (induction rows arbitrary: counts db)
  case Nil
  then show ?case by simp
next
  case (Cons row rows)
  obtain a b where c: "counts = (a, b)" by fastforce
  show ?case
  proof (cases "renew_row D now row (rd_numbers db)")
    case (Inl e)
    then have "on_numbers (\<lambda>x. snd (renew_rows D now (row # rows) counts x)) db = on_numbers (\<lambda>x. x) db"
      by (intro on_numbers_cong) (simp add: c)
    then show ?thesis by simp
  next
    case (Inr p)
    obtain ok x where p: "p = (ok, x)" by fastforce
    let ?counts = "if ok then (Suc a, b) else (a, Suc b)"
    have "on_numbers (\<lambda>x. snd (renew_rows D now (row # rows) counts x)) db
        = on_numbers (\<lambda>x. snd (renew_rows D now rows ?counts x)) (db\<lparr>rd_numbers := x\<rparr>)"
      using Inr by (simp add: on_numbers_def c p split: bool.splits)
    moreover have "number_tx S db (db\<lparr>rd_numbers := x\<rparr>)" using Inr p by (auto intro: tx_renew)
    ultimately show ?thesis
      using converse_rtranclp_into_rtranclp [OF _ Cons.IH [of "db\<lparr>rd_numbers := x\<rparr>" ?counts]] by simp
  qed
qed

lemma claimed_row_sel [simp]:
  "gr_id (claimed_row i org p country kind now) = i"
  "gr_status (claimed_row i org p country kind now) = ''creating''"
  "combination (claimed_row i org p country kind now) = (org, p, country, number_kind_as_str kind)"
  by (simp_all add: claimed_row_def combination_def)

lemma ensure_group_run:
  assumes during: "others_run S during" "claim_kept i during"
    and fresh: "i \<notin> gr_id ` set (rd_groups db)"
    and created: "\<And>g. rc_create c country kind = Inr g \<Longrightarrow> rq_status g \<in> S"
  shows "number_run S db (snd (ensure_group c i org country kind now during db))"
proof (cases "claim_group (claimed_row i org (rc_id c) country kind now) db")
  case None
  then have "snd (ensure_group c i org country kind now during db) = db"
    by (auto simp: ensure_group_def split: option.splits sum.splits)
  then show ?thesis by simp
next
  case (Some db1)
  let ?told = "tell (Create_group country kind) db1"
  have claim: "number_run S db db1" by (rule run_one) (rule tx_claim [OF Some fresh])
  have "number_run S db (during ?told)"
    using rtranclp_trans [OF run_step [OF claim tx_tell]] during(1) unfolding others_run_def by blast
  note waited = this
  have told: "\<forall>g \<in> set (rd_groups ?told). gr_id g = i \<longrightarrow> gr_status g = ''creating''"
  proof -
    have "rd_groups ?told = rd_groups db @ [claimed_row i org (rc_id c) country kind now]"
      using Some by (auto simp: claim_group_def split: if_splits)
    then show ?thesis using fresh by (simp add: ball_Un) blast
  qed
  have mine: "\<forall>g \<in> set (rd_groups (during ?told)). gr_id g = i \<longrightarrow> gr_status g = ''creating''"
    using during(2) told unfolding claim_kept_def by blast
  show ?thesis
  proof (cases "rc_create c country kind")
    case (Inl e)
    then show ?thesis using run_step [OF waited tx_abandon [where i = i]] Some by (simp add: ensure_group_def Let_def)
  next
    case (Inr g)
    from run_step [OF waited tx_created [OF created [OF Inr] mine, of "rq_id g"]] Inr Some
    show ?thesis by (simp add: ensure_group_def Let_def)
  qed
qed

text \<open>The shared beginning of the handlers of the paperwork, with what follows it as a run.\<close>

definition carrier_creates :: "GroupStatus set \<Rightarrow> reg_env \<Rightarrow> bool" where
  "carrier_creates S E \<longleftrightarrow>
     (\<forall>c country kind g. re_carrier E = Some c \<and> rc_create c country kind = Inr g \<longrightarrow> rq_status g \<in> S)"

lemma reg_provider_Inr [simp]: "reg_provider E = Inr c \<longleftrightarrow> re_carrier E = Some c"
  by (simp add: reg_provider_def split: option.splits)

lemma with_group_run:
  assumes "others_run S during" "claim_kept (rr_new_group q) during" "rr_new_group q \<notin> gr_id ` set (rd_groups db)"
    and "carrier_creates S E" "re_carrier E = Some c"
    and k: "\<And>eg x. number_run S x (snd (k eg x))"
  shows "number_run S db (snd (with_group c q n during db k))"
proof -
  obtain r db1 where e: "ensure_group c (rr_new_group q) (rr_org q) (vn_country n) (kind_of n) (rr_now q) during db
      = (r, db1)" by fastforce
  have ensured: "number_run S db db1"
    using ensure_group_run [OF assms(1-3), of c "vn_country n" "kind_of n" "rr_org q" "rr_now q"] assms(4,5) e
    by (auto simp: carrier_creates_def)
  show ?thesis
  proof (cases r)
    case (Inl err)
    then show ?thesis using e ensured by (simp add: with_group_def)
  next
    case (Inr eg)
    obtain l db2 where l: "link_group (rr_number q) (eg_row eg) db1 = (l, db2)" by fastforce
    have linked: "number_run S db db2" by (rule run_step [OF ensured tx_link [OF l]])
    then show ?thesis using e Inr l rtranclp_trans [OF linked k] by (simp add: with_group_def split: sum.splits)
  qed
qed

lemma tell_run: "number_run S db (tell k db)"
  by (rule run_one) (rule tx_tell)

lemma or_refuse_run: "(\<And>x. r = Inr x \<Longrightarrow> number_run S db (snd (k x))) \<Longrightarrow> number_run S db (snd (or_refuse r db k))"
  by (cases r) simp_all

lemma or_refuse_after: "number_run S db db1 \<Longrightarrow> (\<And>x. r = Inr x \<Longrightarrow> number_run S db (snd (k x)))
    \<Longrightarrow> number_run S db (snd (or_refuse r db1 k))"
  by (cases r) simp_all

lemma get_requirements_run:
  assumes "others_run S during" "claim_kept (rr_new_group q) during" "rr_new_group q \<notin> gr_id ` set (rd_groups db)"
    and "carrier_creates S E"
  shows "number_run S db (snd (get_requirements E q during db))"
  unfolding get_requirements_def by (intro or_refuse_run with_group_run [OF assms]) simp_all

lemma put_requirements_run:
  assumes "others_run S during" "claim_kept (rr_new_group q) during" "rr_new_group q \<notin> gr_id ` set (rd_groups db)"
    and "carrier_creates S E"
  shows "number_run S db (snd (put_requirements J E q body during db))"
  unfolding put_requirements_def
  by (intro or_refuse_run) (auto intro!: with_group_run [OF assms] or_refuse_run tell_run)

lemma submit_requirements_run:
  assumes "others_run S during" "claim_kept (rr_new_group q) during" "rr_new_group q \<notin> gr_id ` set (rd_groups db)"
    and "carrier_creates S E" and "others_run S meanwhile"
  shows "number_run S db (snd (submit_requirements E q during meanwhile db))"
proof -
  have waited: "number_run S x (meanwhile (tell k x))" for k x
    using rtranclp_trans [OF tell_run] assms(5) unfolding others_run_def by blast
  show ?thesis
    unfolding submit_requirements_def
    by (intro or_refuse_run)
      (auto simp: Let_def intro!: with_group_run [OF assms(1-4)] or_refuse_after waited run_step [OF waited tx_submitted])
qed

lemma refresh_requirements_run: "number_run S db (snd (refresh_requirements E q allowed db))"
  unfolding refresh_requirements_def reconcile_one_def
  by (intro or_refuse_run) (auto split: sum.splits option.splits intro!: or_refuse_run run_one [OF tx_take])

lemma upload_run:
  assumes "others_run S during" "claim_kept (rr_new_group q) during" "rr_new_group q \<notin> gr_id ` set (rd_groups db)"
    and "carrier_creates S E"
  shows "number_run S db (snd (upload_requirement_document E q allowed parts room during db))"
  unfolding upload_requirement_document_def
  by (intro or_refuse_run)
    (auto simp: Let_def split: sum.splits option.splits
      intro!: with_group_run [OF assms] or_refuse_run tell_run run_step [OF tell_run tx_document])

lemma settings_run:
  "number_run S db (on_numbers (\<lambda>x. snd (put_routing E org user i body x)) db)"
  "number_run S db (on_numbers (\<lambda>x. snd (put_hours E org user i hours x)) db)"
  "number_run S db (on_numbers (\<lambda>x. snd (clear_hours E org user i x)) db)"
proof -
  let ?x = "rd_numbers db"
  have set: "number_run S db (on_numbers f db)" if "\<exists>r h. f ?x = ?x\<lparr>nb_routing := r, nb_hours := h\<rparr>" for f
    using that by (auto intro: run_as [OF _ run_one [OF tx_settings]])
  have 1: "snd (put_routing E org user i body ?x) = ?x
      \<or> (\<exists>r. snd (put_routing E org user i body ?x) = ?x\<lparr>nb_routing := r\<rparr>)"
    by (auto simp: put_routing_def or_refuse_def split: sum.splits option.splits)
  have 2: "snd (put_hours E org user i hours ?x) = ?x
      \<or> (\<exists>h. snd (put_hours E org user i hours ?x) = ?x\<lparr>nb_hours := h\<rparr>)"
    by (auto simp: put_hours_def or_refuse_def split: sum.splits option.splits)
  have 3: "snd (clear_hours E org user i ?x) = ?x
      \<or> (\<exists>h. snd (clear_hours E org user i ?x) = ?x\<lparr>nb_hours := h\<rparr>)"
    by (auto simp: clear_hours_def or_refuse_def split: sum.splits)
  have id: "?x = ?x\<lparr>nb_routing := nb_routing ?x, nb_hours := nb_hours ?x\<rparr>"
    "?x\<lparr>nb_routing := r\<rparr> = ?x\<lparr>nb_routing := r, nb_hours := nb_hours ?x\<rparr>"
    "?x\<lparr>nb_hours := h\<rparr> = ?x\<lparr>nb_routing := nb_routing ?x, nb_hours := h\<rparr>" for r h by simp_all
  show "number_run S db (on_numbers (\<lambda>x. snd (put_routing E org user i body x)) db)"
    using 1 id by (intro set) metis
  show "number_run S db (on_numbers (\<lambda>x. snd (put_hours E org user i hours x)) db)"
    using 2 id by (intro set) metis
  show "number_run S db (on_numbers (\<lambda>x. snd (clear_hours E org user i x)) db)"
    using 3 id by (intro set) metis
qed

lemma claimed_row_run: "number_run S db (snd (reconcile_claimed_row c now row db))"
  unfolding reconcile_claimed_row_def Let_def
  by (auto split: sum.splits option.splits ProviderError.splits
      intro: run_one [OF tx_attach] run_one [OF tx_reschedule] run_one [OF tx_apply]
        run_step [OF run_one [OF tx_attach] tx_reschedule] run_step [OF run_one [OF tx_attach] tx_apply])

lemma sweep_claimed_rows_run: "number_run S db (snd (sweep_claimed_rows c now rows counts db))"
proof (induction rows arbitrary: counts db)
  case Nil
  then show ?case by simp
next
  case (Cons row rows)
  obtain a b where counts: "counts = (a, b)" by fastforce
  obtain out db1 where row: "reconcile_claimed_row c now row db = (out, db1)" by fastforce
  have "number_run S db db1" using claimed_row_run [of S db c now row] row by simp
  then show ?case
    using rtranclp_trans [OF _ Cons.IH] by (auto simp: counts row split: RowOutcome.splits)
qed

lemma reconcile_due_run: "number_run S db (snd (reconcile_due c now batch db))"
  unfolding reconcile_due_def Let_def
  by (rule rtranclp_trans [OF run_one [OF tx_hold] sweep_claimed_rows_run])

section \<open>The caller id\<close>

text \<open>
  C17: The caller id of a call. Starting from numbers of which only active ones may be presented, and
  whatever purchases, verifications, renewals, releases, submissions, refreshes and sweeps run in
  between and however their transactions interleave, the number that a call presents is one of
  the caller's own organisation that is active and verified, and it is the requested one when one
  was requested; only when none was requested and the organisation has none is it the operator's.
\<close>

theorem presented_number_is_cleared:
  assumes run: "number_run S db0 db" and start: "\<forall>n \<in> set (nb_numbers (rd_numbers db0)). vn_outbound n \<longrightarrow> vn_status n = Active"
    and resolved: "resolve_caller_id (rd_numbers db) org requested provider_default = Inr e"
  shows "(\<exists>n \<in> set (nb_numbers (rd_numbers db)). vn_org n = org \<and> vn_status n = Active \<and> vn_outbound n
       \<and> vn_verification n = Verified \<and> e164_parse (ustr (vn_e164 n)) = Inr e
       \<and> (\<forall>want. requested = Some want \<longrightarrow> vn_e164 n = want))
     \<or> (requested = None \<and> (\<nexists>n. n \<in> set (nb_numbers (rd_numbers db)) \<and> presentable org n)
        \<and> (\<exists>d. provider_default = Some d \<and> e164_parse (trim d) = Inr e))"
proof -
  let ?ns = "nb_numbers (rd_numbers db)"
  have cleared: "vn_status n = Active" if "n \<in> set ?ns" "vn_outbound n" for n
    using cleared.run_keeps [OF run] start that by (auto simp: all_rows_def)
  have own: "n \<in> set ?ns \<and> vn_org n = org \<and> vn_outbound n \<and> vn_verification n = Verified"
    if "n \<in> set (filter (presentable org) ?ns)" for n
    using that by (auto simp: presentable_def)
  show ?thesis
  proof (cases requested)
    case (Some want)
    then obtain n where n: "find (\<lambda>n. vn_e164 n = want) (filter (presentable org) ?ns) = Some n"
      "e164_parse (ustr (vn_e164 n)) = Inr e"
      using resolved by (auto simp: resolve_caller_id_def Let_def split: option.splits sum.splits)
    then have "n \<in> set (filter (presentable org) ?ns)" "vn_e164 n = want" using find_SomeD [OF n(1)] by simp_all
    then show ?thesis using own cleared n(2) Some by blast
  next
    case None
    let ?order = "filter vn_default (filter (presentable org) ?ns) @ filter (\<lambda>n. \<not> vn_default n) (filter (presentable org) ?ns)"
    show ?thesis
    proof (cases "find (\<lambda>_. True) ?order")
      case (Some n)
      then have "n \<in> set (filter (presentable org) ?ns)" using find_SomeD [OF Some] by auto
      moreover have "e164_parse (ustr (vn_e164 n)) = Inr e"
        using Some None resolved by (auto simp: resolve_caller_id_def Let_def split: sum.splits)
      ultimately show ?thesis using own cleared None by blast
    next
      case none: None
      then have "set ?order = {}" by (auto simp: find_None_iff)
      then have "\<nexists>n. n \<in> set ?ns \<and> presentable org n" by auto
      moreover have "\<exists>d. provider_default = Some d \<and> e164_parse (trim d) = Inr e"
        using none None resolved by (auto simp: resolve_caller_id_def Let_def split: option.splits sum.splits if_splits)
      ultimately show ?thesis using None by blast
    qed
  qed
qed

section \<open>A purchase that is retried\<close>

text \<open>Rows are never deleted, and no transaction changes what identifies them.\<close>

definition identity :: "VoipNumber \<Rightarrow> nat \<times> nat \<times> string option \<times> string" where
  "identity n = (vn_id n, vn_org n, vn_key n, vn_e164 n)"

definition identities :: "RegDb \<Rightarrow> (nat \<times> nat \<times> string option \<times> string) set" where
  "identities db = identity ` set (nb_numbers (rd_numbers db))"

lemma identity_map:
  "(\<And>n. identity (f n) = identity n) \<Longrightarrow> identity ` set (map (\<lambda>n. if c n then f n else n) ns) = identity ` set ns"
  unfolding set_map image_image by (intro image_cong) auto

lemma identities_change:
  "(\<And>n. identity (f n) = identity n) \<Longrightarrow> identities (on_numbers (change_number i f) db) = identities db"
  unfolding identities_def by (simp only: change_number_sel change_number_on identity_map)

lemma identity_rows [simp]:
  "identity (renewed_row n) = identity n" "identity (suspended_row now n) = identity n"
  "identity (released_row n) = identity n" "identity (submitted_row now n) = identity n"
  "identity (link_row g n) = identity n" "identity (take_transition t n) = identity n"
  by (simp_all add: identity_def renewed_row_def suspended_row_def released_row_def submitted_row_def
      link_row_def take_transition_def)

lemma identities_tell [simp]: "identities (tell k db) = identities db"
  by (simp add: identities_def)

lemma tx_identities:
  assumes "number_tx S db db'"
  shows "identities db \<subseteq> identities db'"
  using assms
proof (cases rule: number_tx.cases)
  case (tx_store row i org now c dest body off bought monthly fee D E user)
  obtain r x where s: "store_purchase D E c user row dest fee (rd_numbers db) = (r, x)" by fastforce
  from s purchased_row_sel(6) have "set (nb_numbers (rd_numbers db)) \<subseteq> set (nb_numbers x)"
    unfolding tx_store(2) by (cases rule: store_purchase_cases) auto
  then show ?thesis using tx_store s by (auto simp: identities_def)
next
  case (tx_renew D now row b x)
  let ?ns = "nb_numbers (rd_numbers db)"
  have "nb_numbers x = map (\<lambda>n. if vn_id n = vn_id row then renewed_row n else n) ?ns
      \<or> nb_numbers x = map (\<lambda>n. if vn_id n = vn_id row then suspended_row now n else n) ?ns"
    using tx_renew(2) by (auto simp: renew_row_def split: sum.splits OrgCharge.splits)
  then have "identity ` set (nb_numbers x) = identity ` set ?ns"
    by (elim disjE) (simp_all only: identity_map identity_rows)
  then show ?thesis using tx_renew(1) by (simp add: identities_def)
next
  case (tx_attach c row sub)
  then show ?thesis using attach_steps [of c row sub db] by (auto simp: identities_change)
next
  case (tx_link i g r)
  then show ?thesis by (auto dest!: link_steps simp: identities_change)
next
  case (tx_hold I u)
  have "identity (n\<lparr>vn_next_check := Some u\<rparr>) = identity n" for n by (simp add: identity_def)
  moreover have "nb_numbers (rd_numbers db')
      = map (\<lambda>n. if vn_id n \<in> I then n\<lparr>vn_next_check := Some u\<rparr> else n) (nb_numbers (rd_numbers db))"
    using tx_hold by simp
  ultimately show ?thesis by (simp only: identities_def identity_map order_refl)
next
  case (tx_nudge p subs now)
  have "identity (n\<lparr>vn_next_check := Some now\<rparr>) = identity n" for n by (simp add: identity_def)
  moreover have "nb_numbers (rd_numbers db') = nb_numbers (rd_numbers db) \<or> nb_numbers (rd_numbers db')
      = map (\<lambda>n. if nudged p subs n then n\<lparr>vn_next_check := Some now\<rparr> else n) (nb_numbers (rd_numbers db))"
    using tx_nudge by (simp add: nudge_def)
  ultimately show ?thesis by (elim disjE) (simp_all only: identities_def identity_map order_refl)
next
  case (tx_reschedule i now secs failures)
  then show ?thesis
    by (simp add: reschedule_def, subst identities_change) (auto simp: identity_def Let_def split: option.splits)
next
  case (tx_apply cur s t i now)
  then show ?thesis
    by (simp add: apply_transition_def, subst identities_change)
      (auto simp: identity_def take_transition_def)
next
  case (tx_submitted i org now)
  then show ?thesis by (simp add: mark_submitted_def, subst identities_change) auto
next
  case (tx_take cur s t i org)
  then show ?thesis by (simp, subst identities_change) auto
next
  case (tx_release i org)
  then show ?thesis by (simp, subst identities_change) auto
next
  case (tx_verification i org h)
  then show ?thesis by (simp, subst identities_change) (auto simp: identity_def)
next
  case (tx_verified i org v)
  then show ?thesis by (simp, subst identities_change) (auto simp: identity_def)
qed (auto simp: identities_def claim_group_def change_group_def reclaim_stale_groups_def store_document_def
    split: if_splits)

lemma run_identities: "number_run S db db' \<Longrightarrow> identities db \<subseteq> identities db'"
  by (induction rule: rtranclp_induct) (use tx_identities in blast)+

text \<open>
  C18: A number is bought once. A purchase that is accepted charges the organisation the set-up fee at
  the customer's price, rounded up to whole credits, and nothing else; from then on, whatever runs
  in between, another purchase of that organisation under the same key, by whoever and with
  whatever else in the request, changes nothing, orders nothing from the carrier and never
  answers that it bought.
\<close>

theorem number_bought_once:
  assumes bought: "buy D E org user body i now during db = (Inr (Bought j e s), db1)"
    and run: "number_run S g g2" "rd_numbers g = db1" and key: "bb_key body2 = bb_key body"
  shows "(\<exists>c policy off fee text b mid.
       ne_carrier E = Some c \<and> number_markup E = Inr policy \<and> offer_for c body = Inr off
       \<and> price_of D policy (no_setup_cost off) = Inr fee \<and> (\<exists>k. mid = during (command k db))
       \<and> take_fee org (credits_ceil D fee) ''voip_number_purchase'' (Some user) text (nb_pool mid)
           = Inr (Charged b, nb_pool db1))
     \<and> snd (buy D2 E2 org user2 body2 i2 now2 during2 (rd_numbers g2)) = rd_numbers g2
     \<and> fst (buy D2 E2 org user2 body2 i2 now2 during2 (rd_numbers g2)) \<noteq> Inr (Bought j2 e2 s2)"
proof -
  from bought show ?thesis
  proof (cases rule: bought_step)
    case (1 c policy dest off sold monthly fee row mid b pool d)
    have "row \<in> set (nb_numbers (rd_numbers g))" using 1(10) run(2) by simp
    then have "identity row \<in> identities g2" using run_identities [OF run(1)] by (auto simp: identities_def)
    then obtain n where n: "n \<in> set (nb_numbers (rd_numbers g2))" "identity n = identity row"
      by (auto simp: identities_def)
    then have "vn_org n = org" "vn_key n = Some (bb_key body2)" using 1(8) key by (simp_all add: identity_def)
    note again = buy_again [where body = body2, OF n(1) this]
    have "take_fee org (credits_ceil D fee) ''voip_number_purchase'' (Some user) d (nb_pool mid)
        = Inr (Charged b, nb_pool db1)" using 1(10,11) by simp
    then show ?thesis using 1(1-4,9) again by blast
  qed
qed

section \<open>The groups of an organisation\<close>

definition one_group_each :: "RegDb \<Rightarrow> bool" where
  "one_group_each db \<longleftrightarrow> distinct (map combination (filter open_group (rd_groups db)))"

lemma distinct_filter_sub: "distinct (map f (filter P xs)) \<Longrightarrow> distinct (map f (filter P (filter Q xs)))"
proof -
  assume "distinct (map f (filter P xs))"
  then have "distinct (map f (filter Q (filter P xs)))" by (rule distinct_map_filter)
  moreover have "filter Q (filter P xs) = filter P (filter Q xs)" by (simp add: conj_commute)
  ultimately show ?thesis by simp
qed

lemma tx_groups:
  assumes "number_tx S db db'"
  shows "rd_groups db' = rd_groups db
     \<or> (\<exists>row. rd_groups db' = rd_groups db @ [row] \<and> gr_status row = ''creating''
          \<and> (\<forall>g \<in> set (rd_groups db). open_group g \<longrightarrow> combination g \<noteq> combination row))
     \<or> (\<exists>Q. rd_groups db' = filter Q (rd_groups db))
     \<or> (\<exists>i h s. s \<in> S \<and> (\<forall>g \<in> set (rd_groups db). gr_id g = i \<longrightarrow> gr_status g = ''creating'')
          \<and> rd_groups db' = map (\<lambda>g. if gr_id g = i
              then g\<lparr>gr_provider_group := Some h, gr_status := group_status_as_str s\<rparr> else g) (rd_groups db))"
  using assms
proof (cases rule: number_tx.cases)
  case (tx_claim i org p country kind now)
  then show ?thesis by (auto simp: claim_group_def split: if_splits)
next
  case (tx_created s i h)
  then have "rd_groups db' = map (\<lambda>g. if gr_id g = i
      then g\<lparr>gr_provider_group := Some h, gr_status := group_status_as_str s\<rparr> else g) (rd_groups db)"
    by (simp add: change_group_def)
  then show ?thesis using tx_created by blast
next
  case (tx_abandon i)
  then show ?thesis by auto
next
  case (tx_reclaim now)
  then show ?thesis by (auto simp: reclaim_stale_groups_def)
next
  case (tx_attach c row sub)
  then show ?thesis using attach_steps [of c row sub db] by auto
next
  case (tx_link i g r)
  then show ?thesis by (auto dest!: link_steps)
qed (auto simp: mark_submitted_def apply_transition_def reschedule_def nudge_def store_document_def)

lemma one_group_run:
  assumes "number_run S db db'" and "one_group_each db"
  shows "one_group_each db'"
  using assms
proof (induction rule: rtranclp_induct)
  case base
  then show ?case .
next
  case (step y z)
  then have ok: "distinct (map combination (filter open_group (rd_groups y)))" by (simp add: one_group_each_def)
  from tx_groups [OF step.hyps(2)] show ?case
  proof (elim disjE exE conjE)
    assume "rd_groups z = rd_groups y"
    then show ?thesis using ok by (simp add: one_group_each_def)
  next
    fix row
    assume "rd_groups z = rd_groups y @ [row]"
      "\<forall>g \<in> set (rd_groups y). open_group g \<longrightarrow> combination g \<noteq> combination row"
    then show ?thesis using ok by (auto simp: one_group_each_def)
  next
    fix Q
    assume "rd_groups z = filter Q (rd_groups y)"
    then show ?thesis using distinct_filter_sub [OF ok, of Q] by (simp add: one_group_each_def)
  next
    fix i h s
    let ?f = "\<lambda>g. if gr_id g = i then g\<lparr>gr_provider_group := Some h, gr_status := group_status_as_str s\<rparr> else g"
    assume mine: "\<forall>g \<in> set (rd_groups y). gr_id g = i \<longrightarrow> gr_status g = ''creating''"
      and z: "rd_groups z = map ?f (rd_groups y)"
    let ?xs = "rd_groups y"
    have "combination (?f g) = combination g" for g by (simp add: combination_def)
    then have "map combination (filter open_group (map ?f ?xs)) = map combination (filter (\<lambda>g. open_group (?f g)) ?xs)"
      by (simp add: filter_map o_def)
    also have "filter (\<lambda>g. open_group (?f g)) ?xs = filter open_group (filter (\<lambda>g. open_group (?f g)) ?xs)"
      using mine unfolding filter_filter by (intro filter_cong) (auto simp: open_group_def)
    finally show ?thesis using distinct_filter_sub [OF ok, of "\<lambda>g. open_group (?f g)"] z
      by (simp add: one_group_each_def)
  qed
qed

text \<open>The state in which the carrier is asked to create a group.\<close>

definition asked_for_group :: "regulator \<Rightarrow> nat \<Rightarrow> nat \<Rightarrow> string \<Rightarrow> NumberKind \<Rightarrow> int \<Rightarrow> RegDb \<Rightarrow> RegDb" where
  "asked_for_group c i org country kind now db =
     db\<lparr>rd_groups := rd_groups db @ [claimed_row i org (rc_id c) country kind now],
        rd_commands := rd_commands db @ [Create_group country kind]\<rparr>"

text \<open>
  C28: The table holds at most one requirement group in use for an organisation, a carrier, a country and
  a kind of number, however requests, sweeps and the reclaiming of stale claims interleave. A request
  made at any point of such a run asks the carrier to create a group only if none is in use for its
  combination, and only when its own claim is in the table; otherwise it changes nothing, and what it
  leaves after the carrier has answered is what others did meanwhile, but for the groups. The uniqueness
  is the table's: a claim that was left behind is removed after ten minutes, and a later request then
  asks the carrier again, for a combination it may have opened before.
\<close>

theorem one_group_for_a_combination:
  assumes "number_run S db db'" and "one_group_each db"
    and "ensure_group c i org country kind now during db' = (out, db'')"
  shows "one_group_each db'
     \<and> (db'' = db'
        \<or> (\<forall>g \<in> set (rd_groups db'). open_group g \<longrightarrow> combination g \<noteq> (org, rc_id c, country, number_kind_as_str kind))
          \<and> one_group_each (asked_for_group c i org country kind now db')
          \<and> db'' = (during (asked_for_group c i org country kind now db'))\<lparr>rd_groups := rd_groups db''\<rparr>)"
proof (cases "claim_group (claimed_row i org (rc_id c) country kind now) db'")
  case None
  with assms(3) have "db'' = db'" by (auto simp: ensure_group_def split: option.splits sum.splits)
  with one_group_run [OF assms(1,2)] show ?thesis by simp
next
  case (Some db1)
  then have none: "\<forall>g \<in> set (rd_groups db'). open_group g \<longrightarrow> combination g \<noteq> (org, rc_id c, country, number_kind_as_str kind)"
    and asked: "tell (Create_group country kind) db1 = asked_for_group c i org country kind now db'"
    by (auto simp: claim_group_def tell_def asked_for_group_def split: if_splits)
  have "db'' = (during (asked_for_group c i org country kind now db'))\<lparr>rd_groups := rd_groups db''\<rparr>"
    using assms(3) Some asked by (auto simp: ensure_group_def Let_def change_group_def split: sum.splits)
  moreover have "one_group_each (asked_for_group c i org country kind now db')"
    using one_group_run [OF assms(1,2)] none by (auto simp: one_group_each_def asked_for_group_def)
  ultimately show ?thesis using one_group_run [OF assms(1,2)] none by simp
qed

text \<open>
  Approved paperwork is never reused by the sweep. The state of a group is stored once, when it is
  created, and never read back; a carrier that approves a group later than it creates it therefore
  leaves no approved group in the table, and for no number does the sweep find one to attach.
\<close>

theorem approved_paperwork_is_never_found:
  assumes "number_run S db db'" and "Approved \<notin> S"
    and "\<forall>g \<in> set (rd_groups db). gr_status g \<noteq> ''approved''"
  shows "(\<forall>g \<in> set (rd_groups db'). gr_status g \<noteq> ''approved'')
     \<and> attach_reusable_group_if_any c row sub db' = db'"
proof -
  have none: "\<forall>g \<in> set (rd_groups db'). gr_status g \<noteq> ''approved''"
    using assms
  proof (induction rule: rtranclp_induct)
    case base
    then show ?case by simp
  next
    case (step y z)
    have "group_status_as_str s \<noteq> ''approved''" if "s \<in> S" for s
      using that step.prems(1) by (cases s) auto
    then show ?case using tx_groups [OF step.hyps(2)] step by auto
  qed
  then have "find (reusable_group c row) (rd_groups db') = None"
    by (auto simp: find_None_iff reusable_group_def)
  then show ?thesis using none by (simp add: attach_reusable_group_if_any_def)
qed

section \<open>What becomes of a number that was given back, and of one that should ring\<close>

text \<open>
  C40: A renewal revives a number that was given back. When the sweep has read a number as due and
  its organisation gives it back before the sweep comes to it, the sweep, which does not look
  again, charges the month and makes the row active and presentable: the organisation pays for,
  and may show to the people it calls, a number that the carrier may meanwhile have given to
  somebody else.
\<close>

theorem renewal_revives_released_number:
  assumes due: "n \<in> set (due_numbers now batch db)" and org: "vn_org n = org" "vn_provider_number n = Some h"
    and given_back: "release_number E org user (vn_id n) db = (Inr (), db1)"
    and renewed: "renew_row D now n db1 = Inr (True, db2)" and ids: "distinct (map vn_id (nb_numbers db))"
  shows "(\<exists>m \<in> set (nb_numbers db1). vn_id m = vn_id n \<and> vn_status m = Released \<and> \<not> vn_outbound m)
     \<and> Release_number h \<in> set (nb_commands db2)
     \<and> (\<exists>m \<in> set (nb_numbers db2). vn_id m = vn_id n \<and> vn_status m = Active \<and> vn_outbound m
          \<and> (vn_verification n = Verified \<longrightarrow> presentable org m))
     \<and> (\<exists>b. take_fee org (renewal_fee D n) ''voip_number_renewal'' None (vn_e164 n) (nb_pool db1)
          = Inr (Charged b, nb_pool db2))"
proof -
  let ?rel = "change_number (vn_id n) (\<lambda>n. if vn_org n = org then released_row n else n)"
  have n: "n \<in> set (nb_numbers db)" using due by (auto simp: due_numbers_def dest: in_set_takeD)
  then have found: "number_of db org (vn_id n) = Some n"
  proof -
    obtain m where m: "number_of db org (vn_id n) = Some m"
      using n org(1) by (cases "number_of db org (vn_id n)") (auto simp: number_of_def find_None_iff)
    then have "m \<in> set (nb_numbers db)" "vn_id m = vn_id n" using find_SomeD by (fastforce simp: number_of_def)+
    then have "m = n" using n ids by (auto simp: distinct_map inj_on_def)
    then show ?thesis using m by simp
  qed
  then have db1: "db1 = ?rel (command (Release_number h) db)"
    using given_back org(2) by (auto simp: release_number_def or_refuse_def Let_def split: sum.splits)
  let ?m1 = "released_row n" and ?m2 = "renewed_row (released_row n)"
  have m1: "?m1 \<in> set (nb_numbers db1)" using n org(1) by (force simp: db1 image_iff)
  obtain b pool where fee: "take_fee (vn_org n) (renewal_fee D n) ''voip_number_renewal'' None (vn_e164 n) (nb_pool db1)
      = Inr (Charged b, pool)" and db2: "db2 = change_number (vn_id n) renewed_row (db1\<lparr>nb_pool := pool\<rparr>)"
    using renewed by (auto simp: renew_row_def split: sum.splits OrgCharge.splits)
  have m2: "?m2 \<in> set (nb_numbers db2)" using m1 by (force simp: db2 image_iff)
  show ?thesis
  proof (intro conjI)
    show "\<exists>m \<in> set (nb_numbers db1). vn_id m = vn_id n \<and> vn_status m = Released \<and> \<not> vn_outbound m"
      using m1 by (intro bexI [of _ ?m1]) (simp_all add: released_row_def)
    show "Release_number h \<in> set (nb_commands db2)" by (simp add: db2 db1)
    show "\<exists>m \<in> set (nb_numbers db2). vn_id m = vn_id n \<and> vn_status m = Active \<and> vn_outbound m
        \<and> (vn_verification n = Verified \<longrightarrow> presentable org m)"
      using m2 org(1)
      by (intro bexI [of _ ?m2]) (simp_all add: released_row_def renewed_row_def presentable_def)
    show "\<exists>b. take_fee org (renewal_fee D n) ''voip_number_renewal'' None (vn_e164 n) (nb_pool db1)
        = Inr (Charged b, nb_pool db2)"
      using fee org(1) by (simp add: db2)
  qed
qed

text \<open>The table as the admission of an inbound call reads it.\<close>

definition inbound_view :: "NumbersDb \<Rightarrow> NumberRow list" where
  "inbound_view db =
     map (\<lambda>n. \<lparr>nr_id = vn_id n, nr_org_id = vn_org n, nr_e164 = vn_e164 n, nr_inbound_enabled = vn_inbound n,
            nr_status = number_status_as_str (vn_status n)\<rparr>) (nb_numbers db)"

text \<open>
  A number that was bought never rings. No purchase and no later operation turns the reception of
  calls on, whatever routing and opening hours are configured, so however long the product is used
  every call to one of its numbers is refused.
\<close>

theorem bought_number_never_rings:
  assumes "number_run S db0 db" and "nb_numbers (rd_numbers db0) = []"
    and "idb_numbers idb = inbound_view (rd_numbers db)"
  shows "number_for idb dest \<in> {Inl UnknownNumber, Inl InboundOff}"
proof -
  have "\<forall>n \<in> set (nb_numbers (rd_numbers db)). \<not> vn_inbound n"
    using silent.run_keeps [OF assms(1)] assms(2) by (simp add: all_rows_def)
  then have "\<forall>n \<in> set (idb_numbers idb). \<not> nr_inbound_enabled n" by (auto simp: assms(3) inbound_view_def)
  then show ?thesis by (auto simp: number_for_def split: option.splits dest: find_SomeD)
qed

section \<open>Concrete inputs\<close>

definition sample_offer :: NumberOffer where
  "sample_offer =
     \<lparr>no_e164 = ustr ''+390212345678'', no_country = ''IT'', no_kind = LocalNumber, no_monthly_cost = 1 / 5,
      no_setup_cost = 1 / 10, no_currency = ''USD'', no_requirement = None\<rparr>"

definition sold :: PurchasedNumber where
  "sold = \<lparr>pn_id = ''n1'', pn_status = Active, pn_requirement = None, pn_order = None\<rparr>"

definition sample_number_carrier :: number_carrier where
  "sample_number_carrier =
     \<lparr>nc_id = ''telnyx'', nc_search = (\<lambda>_. Inr [sample_offer]),
      nc_purchase = (\<lambda>_ _. Inr sold),
      nc_release = (\<lambda>_. Inr ()), nc_start_verification = (\<lambda>_. Inr ''v''),
      nc_check_verification = (\<lambda>_. Inr Verified)\<rparr>"

definition sample_number_env :: number_env where
  "sample_number_env =
     \<lparr>ne_carrier = Some sample_number_carrier, ne_markup = Some (Some (1 / 5)), ne_roles = (\<lambda>_ _. Some ''owner''),
      ne_utf8 = (\<lambda>_. ''x''), ne_zone_ok = (\<lambda>_. True), ne_ring_seconds = 25\<rparr>"

definition sample_buy :: BuyBody where
  "sample_buy = \<lparr>bb_e164 = ustr ''+390212345678'', bb_country = ''IT'', bb_area_code = None, bb_key = ''k''\<rparr>"

definition no_numbers :: NumbersDb where
  "no_numbers = \<lparr>nb_numbers = [], nb_pool = sample_db, nb_routing = Map.empty, nb_hours = Map.empty, nb_commands = []\<rparr>"

lemma sample_env_sel [simp]:
  "ne_carrier sample_number_env = Some sample_number_carrier" "ne_roles sample_number_env o' u = Some ''owner''"
  "ne_utf8 sample_number_env s = ''x''" "nc_search sample_number_carrier q = Inr [sample_offer]"
  "nc_purchase sample_number_carrier a b = Inr sold" "nc_release sample_number_carrier a = Inr ()"
  "no_e164 sample_offer = ustr ''+390212345678''" "no_monthly_cost sample_offer = 1 / 5" "no_setup_cost sample_offer = 1 / 10"
  "bb_e164 sample_buy = ustr ''+390212345678''" "bb_key sample_buy = ''k''" "pn_id sold = ''n1''" "pn_status sold = Active"
  "pn_requirement sold = None"
  by (simp_all add: sample_number_env_def sample_number_carrier_def sample_offer_def sample_buy_def sold_def)

lemma sample_parse: "e164_parse (ustr ''+390212345678'') = Inr (E164 ''+390212345678'')" by code_simp
lemma sample_masked: "e164_masked (E164 ''+390212345678'') \<noteq> None" by code_simp
lemma sample_region: "e164_region (E164 ''+390212345678'') = Some ''IT''" by code_simp

lemma sample_prices:
  "number_markup sample_number_env = Inr \<lparr>markup = 1 / 5\<rparr>"
  "price_of exact_decimal \<lparr>markup = 1 / 5\<rparr> (1 / 5) = Inr (6 / 25)"
  "price_of exact_decimal \<lparr>markup = 1 / 5\<rparr> (1 / 10) = Inr (3 / 25)"
  "credits_ceil exact_decimal (3 / 25) = 12" "credits_ceil exact_decimal (6 / 25) = 24"
  by code_simp+

lemma sample_org_balance: "org_balance sample_db = [1 \<mapsto> 100]"
  by (auto simp: org_balance_def sample_db_def sample_org_def)

definition bought_row :: VoipNumber where
  "bought_row = purchased_row 7 1 0 sample_number_carrier (E164 ''+390212345678'') sample_buy sample_offer sold (6 / 25) (3 / 25)"

lemmas sample_eval = sample_parse sample_prices number_provider_def ask_def require_role_def role_rank_def offer_for_def

lemma sample_pool:
  obtains pool where "take_fee 1 12 ''voip_number_purchase'' (Some 1) ''x'' sample_db = Inr (Charged 88, pool)"
    "org_balance pool = [1 \<mapsto> 88]"
  using org_pool.deduct_charged [of sample_db 1 100 12 "''voip_number_purchase''" None "Some 1" "''x''"]
  by (auto simp: sample_org_balance take_fee_def i32_max_def)

lemma sample_purchase:
  obtains pool where "org_balance pool = [1 \<mapsto> 88]"
    "buy exact_decimal sample_number_env 1 1 sample_buy 7 0 id no_numbers
       = (Inr (Bought 7 ''+390212345678'' Active),
          \<lparr>nb_numbers = [bought_row], nb_pool = pool, nb_routing = Map.empty, nb_hours = Map.empty,
           nb_commands = [Purchase_number ''+390212345678'' ''k'']\<rparr>)"
proof -
  obtain pool where pool: "take_fee 1 12 ''voip_number_purchase'' (Some 1) ''x'' sample_db = Inr (Charged 88, pool)"
    "org_balance pool = [1 \<mapsto> 88]" by (rule sample_pool)
  have status: "vn_status bought_row = Active" by (simp add: bought_row_def purchased_row_more sold_def)
  obtain m where m: "e164_masked (E164 ''+390212345678'') = Some m" using sample_masked by auto
  have row: "insert_number bought_row (x\<lparr>nb_numbers := []\<rparr>) = Inr (x\<lparr>nb_numbers := [bought_row]\<rparr>)" for x
    by (simp add: insert_number_def bought_row_def purchased_row_more)
  have "store_purchase exact_decimal sample_number_env sample_number_carrier 1 bought_row (E164 ''+390212345678'') (3 / 25)
      (command (Purchase_number ''+390212345678'' ''k'') no_numbers)
    = (Inr (Bought 7 ''+390212345678'' Active),
          \<lparr>nb_numbers = [bought_row], nb_pool = pool, nb_routing = Map.empty, nb_hours = Map.empty,
           nb_commands = [Purchase_number ''+390212345678'' ''k'']\<rparr>)"
    using pool(1) m row [of "no_numbers\<lparr>nb_pool := pool, nb_commands := [Purchase_number ''+390212345678'' ''k'']\<rparr>"] status
    by (simp add: store_purchase_def sample_prices no_numbers_def command_def bought_row_def
        del: purchased_row_sel(7))
  then show thesis
    using that [OF pool(2)] by (simp add: buy_def sample_eval no_numbers_def bought_row_def)
qed

definition bought_once :: NumbersDb where
  "bought_once = snd (buy exact_decimal sample_number_env 1 1 sample_buy 7 0 id no_numbers)"

lemma sample_bought:
  "buy exact_decimal sample_number_env 1 1 sample_buy 7 0 id no_numbers
     = (Inr (Bought 7 ''+390212345678'' Active), bought_once)"
  and bought_once_sel: "nb_numbers bought_once = [bought_row]" "org_balance (nb_pool bought_once) = [1 \<mapsto> 88]"
    "nb_commands bought_once = [Purchase_number ''+390212345678'' ''k'']"
  by (rule sample_purchase, simp add: bought_once_def)+

lemma bought_row_sel:
  "vn_id bought_row = 7" "vn_org bought_row = 1" "vn_key bought_row = Some ''k''" "vn_e164 bought_row = ''+390212345678''"
  "vn_provider_number bought_row = Some ''n1''" "vn_monthly bought_row = Some (6 / 25)" "vn_status bought_row = Active"
  "vn_next_renewal bought_row = Some (days 30)" "vn_outbound bought_row" "vn_verification bought_row = Verified"
  by (simp_all add: bought_row_def purchased_row_more)

definition given_back :: NumbersDb where
  "given_back = snd (release_number sample_number_env 1 1 7 bought_once)"

lemma sample_given_back: "release_number sample_number_env 1 1 7 bought_once = (Inr (), given_back)"
  and given_back_sel: "nb_numbers given_back = [released_row bought_row]" "nb_pool given_back = nb_pool bought_once"
  by (simp_all add: given_back_def release_number_def number_of_def bought_once_sel bought_row_sel require_role_def
      role_rank_def number_provider_def ask_def Let_def)

definition as_reg :: "NumbersDb \<Rightarrow> RegDb" where
  "as_reg x = \<lparr>rd_numbers = x, rd_groups = [], rd_documents = [], rd_commands = []\<rparr>"

lemma as_reg_sel [simp]: "rd_numbers (as_reg x) = x" "rd_groups (as_reg x) = []" "on_numbers f (as_reg x) = as_reg (f x)"
  by (simp_all add: as_reg_def on_numbers_def)

lemma bought_run: "number_run S (as_reg no_numbers) (as_reg bought_once)"
  using buy_run [where S = S and during = id and D = exact_decimal and E = sample_number_env and org = 1 and user = 1
    and body = sample_buy and i = 7 and now = 0 and db = "as_reg no_numbers"] sample_bought
  by (simp add: id_def)

lemma given_back_run: "number_run S (as_reg bought_once) (as_reg given_back)"
  using release_run [where S = S and E = sample_number_env and org = 1 and user = 1 and i = 7
    and db = "as_reg bought_once"] sample_given_back by simp

theorem number_bought_once_witness:
  "snd (buy exact_decimal sample_number_env 1 2 sample_buy 8 99 id given_back) = given_back"
  using number_bought_once [OF sample_bought given_back_run [of "{}"] _ refl, of exact_decimal sample_number_env 2 8 99 id]
  by simp

theorem presented_number_is_cleared_witness:
  "\<exists>n \<in> set (nb_numbers bought_once). vn_status n = Active \<and> vn_verification n = Verified"
proof -
  have "resolve_caller_id bought_once 1 (Some ''+390212345678'') None = Inr (E164 ''+390212345678'')"
    by (simp add: resolve_caller_id_def bought_once_sel presentable_def bought_row_sel sample_parse)
  then show ?thesis
    using presented_number_is_cleared [OF bought_run [of "{}"], of 1 "Some ''+390212345678''" None "E164 ''+390212345678''"]
    by (auto simp: no_numbers_def)
qed

theorem bought_number_never_rings_witness:
  "number_for \<lparr>idb_numbers = inbound_view bought_once, idb_routing = Map.empty, idb_team_members = [],
     idb_org_members = [], idb_contacts = [], idb_hours = Map.empty, idb_recording = Map.empty\<rparr>
     (E164 ''+390212345678'') \<in> {Inl UnknownNumber, Inl InboundOff}"
  by (rule bought_number_never_rings [OF bought_run [of "{}"]]) (simp_all add: no_numbers_def)

theorem renewal_takes_what_is_due_witness:
  "org_balance (nb_pool (snd (renew_due exact_decimal (days 31) 10 bought_once))) 1 = Some 64"
proof -
  obtain res db' where run: "renew_due exact_decimal (days 31) 10 bought_once = (res, db')" by fastforce
  have due: "[bought_row] = due_numbers (days 31) 10 bought_once"
    by (simp add: due_numbers_def bought_once_sel renewal_due_def bought_row_sel days_def)
  have fee: "renewal_fee exact_decimal bought_row = 24" by (simp add: renewal_fee_def bought_row_sel sample_prices)
  then have paid: "[bought_row] = paid_numbers exact_decimal (balances (nb_pool bought_once)) [bought_row]"
    by (simp add: balances_def bought_once_sel bought_row_sel)
  show ?thesis
    using renewal_takes_what_is_due [OF exact_decimal_laws _ due _ _ paid run] fee run
    by (simp add: bought_once_sel bought_row_sel monthly_in_range_def i32_max_def fees_of_def)
qed

theorem renewal_revives_released_number_witness:
  "\<exists>m \<in> set (nb_numbers (snd (case renew_row exact_decimal (days 31) bought_row given_back of Inr p \<Rightarrow> p))).
     vn_status m = Active \<and> presentable 1 m"
proof -
  have due: "bought_row \<in> set (due_numbers (days 31) 10 bought_once)"
    by (simp add: due_numbers_def bought_once_sel renewal_due_def bought_row_sel days_def)
  have fee: "renewal_fee exact_decimal bought_row = 24" by (simp add: renewal_fee_def bought_row_sel sample_prices)
  have range: "monthly_in_range bought_row" and b: "org_balance (nb_pool given_back) (vn_org bought_row) = Some 88"
    by (simp_all add: monthly_in_range_def bought_row_sel given_back_sel bought_once_sel)
  have "\<exists>db2. renew_row exact_decimal (days 31) bought_row given_back = Inr (True, db2)"
    using fee by (cases rule: renew_row_cases [OF exact_decimal_laws range b, where now = "days 31"])
      (simp_all add: i32_max_def)
  then obtain db2 where db2: "renew_row exact_decimal (days 31) bought_row given_back = Inr (True, db2)" ..
  show ?thesis
    using renewal_revives_released_number [OF due _ bought_row_sel(5) _ db2, of 1 sample_number_env 1] sample_given_back db2
    by (auto simp: bought_row_sel bought_once_sel)
qed

theorem rebought_number_is_orphaned_witness:
  "buy exact_decimal sample_number_env 1 1 (sample_buy\<lparr>bb_key := ''k2''\<rparr>) 8 0 id given_back
     = (Inl db_failed, command (Purchase_number ''+390212345678'' ''k2'') given_back)"
proof -
  let ?body = "sample_buy\<lparr>bb_key := ''k2''\<rparr>" and ?e = "''+390212345678''"
  let ?bare = "given_back\<lparr>nb_numbers := filter (\<lambda>n. vn_e164 n \<noteq> ?e) (nb_numbers given_back)\<rparr>"
  have bare: "nb_numbers ?bare = []" by (simp add: given_back_sel bought_row_sel released_row_def)
  obtain pool m where "take_fee 1 12 ''voip_number_purchase'' (Some 1) ''x'' (nb_pool bought_once) = Inr (Charged 76, pool)"
      "e164_masked (E164 ?e) = Some m"
    using org_pool.deduct_charged [of "nb_pool bought_once" 1 88 12 "''voip_number_purchase''" None "Some 1" "''x''"]
      sample_masked by (auto simp: bought_once_sel take_fee_def i32_max_def)
  then have "fst (buy exact_decimal sample_number_env 1 1 ?body 8 0 id ?bare) = Inr (Bought 8 ?e Active)"
    using bare
    by (simp add: buy_def store_purchase_def insert_number_def sample_eval given_back_sel purchased_row_more)
  then have fresh: "buy exact_decimal sample_number_env 1 1 ?body 8 0 id ?bare
      = (Inr (Bought 8 ?e Active), snd (buy exact_decimal sample_number_env 1 1 ?body 8 0 id ?bare))"
    by (simp add: prod_eq_iff)
  show ?thesis
    using rebought_number_is_orphaned [OF fresh, of "released_row bought_row"]
    by (simp add: given_back_sel bought_row_sel released_row_def)
qed

definition sample_regulator :: regulator where
  "sample_regulator =
     \<lparr>rc_id = ''telnyx'', rc_create = (\<lambda>_ _. Inr \<lparr>rq_id = ''g'', rq_status = Unapproved, rq_requirements = []\<rparr>),
      rc_get = (\<lambda>_. Inr (Some \<lparr>rq_id = ''g'', rq_status = Approved, rq_requirements = []\<rparr>)),
      rc_sub_order = (\<lambda>_. Inr None), rc_submit = (\<lambda>_ _. Inl RateLimited), rc_attach = (\<lambda>_ _. Inr ()),
      rc_upload = (\<lambda>_ _. Inl RateLimited)\<rparr>"

definition grouped :: RegDb where
  "grouped = snd (ensure_group sample_regulator 5 1 ''IT'' Mobile 0 id (as_reg bought_once))"

lemma others_id: "others_run S id" "claim_kept i id"
  by (simp_all add: others_run_def claim_kept_def)

lemma grouped_run: "number_run {Unapproved} (as_reg bought_once) grouped"
  unfolding grouped_def by (rule ensure_group_run [OF others_id]) (auto simp: sample_regulator_def)

lemma grouped_groups: "map combination (rd_groups grouped) = [(1, ''telnyx'', ''IT'', ''mobile'')]"
  by (simp add: grouped_def ensure_group_def claim_group_def change_group_def combination_def claimed_row_def
      sample_regulator_def)

theorem one_group_for_a_combination_witness:
  "one_group_each grouped \<and> rd_commands (snd (ensure_group sample_regulator 6 1 ''IT'' Mobile 1 id grouped)) = rd_commands grouped"
proof -
  obtain out db where e: "ensure_group sample_regulator 6 1 ''IT'' Mobile 1 id grouped = (out, db)" by fastforce
  have "\<exists>g \<in> set (rd_groups grouped). open_group g \<and> combination g = (1, rc_id sample_regulator, ''IT'', number_kind_as_str Mobile)"
    by (simp add: grouped_def ensure_group_def claim_group_def change_group_def combination_def claimed_row_def
        sample_regulator_def open_group_def)
  with one_group_for_a_combination [OF grouped_run _ e] e show ?thesis by (auto simp: one_group_each_def)
qed

theorem approved_paperwork_is_never_found_witness:
  "attach_reusable_group_if_any sample_regulator (bought_row\<lparr>vn_country := ''IT'', vn_kind := Some ''mobile''\<rparr>) ''s'' grouped
     = grouped"
  using approved_paperwork_is_never_found [OF grouped_run] by simp

end
