(* ===== verification/Webhook_Handler.thy ===== *)
theory Webhook_Handler
  imports Regulatory Disclosure_Flow
begin

text \<open>
  The endpoint the carrier calls, \<^verbatim>\<open>server/src/voip/routes.rs\<close> (\<open>inbound_webhook\<close>): it ingests the
  delivery and then does what the tables alone cannot: it admits a call from outside, speaks the
  disclosure, opens the audio path, gives a dead call's leg back, nudges the numbers of a finished
  order and resolves the consent gate. The host of the calls and the paperwork are one state; the
  log \<open>dk_commands\<close> keeps the order of speech, capture and media. The carrier's verification, the
  tickets' cryptography and the identifiers are parameters. A disclosure, a digit or a nudge whose
  database fails is a flag and then does nothing.
\<close>

section \<open>The state and what the handler is given\<close>

record VoipSettings =
  vs_inbound :: InboundConfig
  vs_regulatory_reconcile :: bool
  vs_media_ws_base :: string

record ('f, 'j) Desk =
  dk_host :: "('f, 'j) InboundHost"
  dk_reg :: RegDb
  dk_commands :: "CarrierCommand list"

record WebhookHeaders =
  wh_signature :: "string option"
  wh_timestamp :: "string option"

record ('b, 'z, 'k, 't) desk_env =
  we_provider_id :: string
  we_verify :: "WebhookHeaders \<Rightarrow> 'b \<Rightarrow> int \<Rightarrow> string + ProviderEvent"
  we_decimal :: decimal_ops
  we_parse_id :: "string \<Rightarrow> nat option"
  we_now :: int
  we_config :: "VoipSettings option"
  we_lower :: "ustring \<Rightarrow> ustring"
  we_copy :: copy_table
  we_settings :: "nat \<Rightarrow> string option"
  we_carrier :: carrier
  we_stream :: "string \<Rightarrow> string \<Rightarrow> bool"
  we_codec :: "('k, 't) ticket_codec"
  we_key :: 'k
  we_nonce :: string
  we_inbound_db :: InboundDb
  we_zones :: "'z zones"
  we_ids :: AdmitIds
  we_engine_id :: string
  we_faults :: DbFaults
  we_announce_fails :: bool
  we_dtmf_fails :: bool
  we_nudge_fails :: bool

datatype HookReply =
  NotConfigured
| VoipOff
| UnknownProvider
| Accepted
| TryLater string
| Unverified string

fun hook_status :: "HookReply \<Rightarrow> nat" where
  "hook_status NotConfigured = 503"
| "hook_status VoipOff = 404"
| "hook_status UnknownProvider = 404"
| "hook_status Accepted = 200"
| "hook_status (TryLater _) = 503"
| "hook_status (Unverified _) = 401"

text \<open>The carrier's errors are known by their codes, of which \<open>internal_error\<close> alone is retryable.\<close>

fun webhook_error_code :: "WebhookError \<Rightarrow> string" where
  "webhook_error_code (Rejected_delivery code) = code"
| "webhook_error_code (Webhook.Malformed _) = ''malformed''"

definition is_retryable :: "WebhookError \<Rightarrow> bool" where
  "is_retryable e \<longleftrightarrow> webhook_error_code e = ''internal_error''"

definition webhook_headers :: "(string \<Rightarrow> string option) \<Rightarrow> WebhookHeaders" where
  "webhook_headers header =
     \<lparr>wh_signature = coalesce (header ''telnyx-signature-ed25519'') (header ''x-signature''),
      wh_timestamp = coalesce (header ''telnyx-timestamp'') (header ''x-timestamp'')\<rparr>"

definition on_desk_host ::
  "(('f, 'j) CallHost \<Rightarrow> ('f, 'j) CallHost) \<Rightarrow> ('f, 'j) Desk \<Rightarrow> ('f, 'j) Desk" where
  "on_desk_host f d = d\<lparr>dk_host := on_host f (dk_host d)\<rparr>"

definition desk_world :: "('f, 'j) Desk \<Rightarrow> VoipWorld" where
  "desk_world d = h_world (i_host (dk_host d))"

definition set_desk_calls :: "VoipCall list \<Rightarrow> ('f, 'j) Desk \<Rightarrow> ('f, 'j) Desk" where
  "set_desk_calls calls = on_desk_host (on_world (with_calls (\<lambda>_. calls)))"

definition command_all :: "CarrierCommand list \<Rightarrow> ('f, 'j) Desk \<Rightarrow> ('f, 'j) Desk" where
  "command_all cmds d = d\<lparr>dk_commands := dk_commands d @ cmds\<rparr>"

section \<open>What a delivery sets off\<close>

text \<open>Somebody is calling us: admitted, or hung up.\<close>

definition incoming_step ::
  "('b, 'z, 'k, 't) desk_env \<Rightarrow> ProviderEvent \<Rightarrow> ('f, 'j) Desk \<Rightarrow> ('f, 'j) Desk" where
  "incoming_step E ev d =
     (case pe_kind ev of
        KIncoming src dest \<Rightarrow>
          (case admit (we_faults E) (we_inbound_db E) (we_zones E) (map_option vs_inbound (we_config E))
                  (we_now E) (we_ids E) (we_engine_id E) (pe_leg_id ev) (ustr src) (ustr dest) (dk_host d) of
             (Inr _, h) \<Rightarrow> d\<lparr>dk_host := h\<rparr>
           | (Inl _, h) \<Rightarrow> d\<lparr>dk_host := carrier_call (C_hangup (pe_leg_id ev)) h\<rparr>)
      | _ \<Rightarrow> d)"

definition arm_call ::
  "('b, 'z, 'k, 't) desk_env \<Rightarrow> nat \<Rightarrow> string \<Rightarrow> ('f, 'j) Desk \<Rightarrow> ('f, 'j) Desk" where
  "arm_call E call leg d =
     (case we_config E of
        None \<Rightarrow> d
      | Some cfg \<Rightarrow>
          (case arm_media (we_codec E) (we_key E) (vs_media_ws_base cfg) (we_stream E) call leg
                  (we_now E div 1000000) (we_nonce E) (i_host (dk_host d)) of
             (url, h) \<Rightarrow>
               command_all (if url = None then [] else [ArmMedia call leg]) (on_desk_host (\<lambda>_. h) d)))"

text \<open>Disclosure first, media second; an open gate does not arm.\<close>

definition speak_first ::
  "('b, 'z, 'k, 't) desk_env \<Rightarrow> nat \<Rightarrow> string \<Rightarrow> ('f, 'j) Desk \<Rightarrow> Delivery \<times> ('f, 'j) Desk" where
  "speak_first E call leg d =
     (if we_announce_fails E then (NotAnnounced ''disclosure_write_failed'', d)
      else case announce_on_answer (we_lower E) (we_copy E) (we_settings E) (we_carrier E) (we_now E)
                  (w_calls (desk_world d)) call leg of
             (delivery, calls, cmds) \<Rightarrow> (delivery, command_all cmds (set_desk_calls calls d)))"

definition answered_step ::
  "('b, 'z, 'k, 't) desk_env \<Rightarrow> Ingest \<Rightarrow> ProviderEvent \<Rightarrow> ('f, 'j) Desk \<Rightarrow> ('f, 'j) Desk" where
  "answered_step E out ev d =
     (case out of
        Applied call _ Answered \<Rightarrow>
          (case speak_first E call (pe_leg_id ev) d of
             (AwaitingConsent _ _, d1) \<Rightarrow> d1
           | (_, d1) \<Rightarrow> arm_call E call (pe_leg_id ev) d1)
      | _ \<Rightarrow> d)"

definition over_step :: "Ingest \<Rightarrow> ('f, 'j) Desk \<Rightarrow> ('f, 'j) Desk" where
  "over_step out d =
     (case out of
        Applied call _ after' \<Rightarrow> if is_terminal after' then on_desk_host (reclaim call) d else d
      | _ \<Rightarrow> d)"

definition order_step ::
  "('b, 'z, 'k, 't) desk_env \<Rightarrow> ProviderEvent \<Rightarrow> ('f, 'j) Desk \<Rightarrow> ('f, 'j) Desk" where
  "order_step E ev d =
     (case pe_kind ev of
        KNumberOrderCompleted _ subs \<Rightarrow>
          if (case we_config E of None \<Rightarrow> False | Some c \<Rightarrow> vs_regulatory_reconcile c) \<and> \<not> we_nudge_fails E
          then d\<lparr>dk_reg := snd (nudge (we_provider_id E) subs (we_now E) (dk_reg d))\<rparr>
          else d
      | _ \<Rightarrow> d)"

text \<open>A digit is an answer; it arms unless the call is to end.\<close>

definition digit_step ::
  "('b, 'z, 'k, 't) desk_env \<Rightarrow> Ingest \<Rightarrow> ProviderEvent \<Rightarrow> ('f, 'j) Desk \<Rightarrow> ('f, 'j) Desk" where
  "digit_step E out ev d =
     (case (out, pe_kind ev) of
        (Recorded call _, KDtmf digit) \<Rightarrow>
          if we_dtmf_fails E then d
          else (case on_dtmf (we_settings E) (we_carrier E) (we_now E) (w_calls (desk_world d)) call
                       (pe_leg_id ev) digit of
                  (action, calls, cmds) \<Rightarrow>
                    let d1 = command_all cmds (set_desk_calls calls d)
                    in if action = Some StartCapture \<or> action = Some ContinueWithoutCapture
                       then arm_call E call (pe_leg_id ev) d1 else d1)
      | _ \<Rightarrow> d)"

definition set_off ::
  "('b, 'z, 'k, 't) desk_env \<Rightarrow> Ingest \<Rightarrow> ProviderEvent \<Rightarrow> ('f, 'j) Desk \<Rightarrow> ('f, 'j) Desk" where
  "set_off E out ev d =
     digit_step E out ev (order_step E ev (over_step out (answered_step E out ev (incoming_step E ev d))))"

section \<open>The handler\<close>

definition inbound_webhook ::
  "('b, 'z, 'k, 't) desk_env \<Rightarrow> string \<Rightarrow> (string \<Rightarrow> string option) \<Rightarrow> 'b \<Rightarrow> ('f, 'j) Desk
     \<Rightarrow> HookReply \<times> ('f, 'j) Desk" where
  "inbound_webhook E provider_id header body d =
     (if \<not> h_pool (i_host (dk_host d)) then (NotConfigured, d)
      else if \<not> h_carrier (i_host (dk_host d)) then (VoipOff, d)
      else if we_provider_id E \<noteq> provider_id then (UnknownProvider, d)
      else case ingest (we_verify E) (we_decimal E) (we_parse_id E) (we_now E) (webhook_headers header) body
                  (desk_world d) of
             (Inr (out, ev), w) \<Rightarrow> (Accepted, set_off E out ev (on_desk_host (on_world (\<lambda>_. w)) d))
           | (Inl e, w) \<Rightarrow>
               (if is_retryable e then TryLater (webhook_error_code e) else Unverified (webhook_error_code e),
                on_desk_host (on_world (\<lambda>_. w)) d))"

section \<open>What each step touches\<close>

lemma desk_sel [simp]:
  "desk_world (on_desk_host f d) = h_world (f (i_host (dk_host d)))" "dk_reg (on_desk_host f d) = dk_reg d"
  "dk_commands (on_desk_host f d) = dk_commands d" "i_host (dk_host (on_desk_host f d)) = f (i_host (dk_host d))"
  "desk_world (command_all cmds d) = desk_world d" "dk_reg (command_all cmds d) = dk_reg d"
  "dk_commands (command_all cmds d) = dk_commands d @ cmds" "dk_host (command_all cmds d) = dk_host d"
  by (simp_all add: desk_world_def on_desk_host_def on_host_def command_all_def)

lemma set_desk_calls_sel [simp]:
  "desk_world (set_desk_calls calls d) = (desk_world d)\<lparr>w_calls := calls\<rparr>" "dk_reg (set_desk_calls calls d) = dk_reg d"
  "dk_commands (set_desk_calls calls d) = dk_commands d"
  "h_live (i_host (dk_host (set_desk_calls calls d))) = h_live (i_host (dk_host d))"
  by (simp_all add: set_desk_calls_def on_world_def with_calls_def desk_world_def)

lemma desk_world_ident [simp]: "on_desk_host (on_world (\<lambda>_. desk_world d)) d = d"
  by (simp add: on_desk_host_def on_host_def on_world_def desk_world_def)

lemma reclaim_keeps_world: "h_world (reclaim call h) = h_world h" "h_pool (reclaim call h) = h_pool h"
  "h_carrier (reclaim call h) = h_carrier h"
  by (simp_all add: reclaim_def on_rooms_def split: prod.split option.split)

lemma arm_call_sel:
  "desk_world (arm_call E call leg d) = desk_world d" "dk_reg (arm_call E call leg d) = dk_reg d"
  "dk_commands (arm_call E call leg d) \<in> {dk_commands d, dk_commands d @ [ArmMedia call leg]}"
  "h_pool (i_host (dk_host (arm_call E call leg d))) = h_pool (i_host (dk_host d))"
  "h_carrier (i_host (dk_host (arm_call E call leg d))) = h_carrier (i_host (dk_host d))"
  by (auto simp: arm_call_def arm_media_def desk_world_def reclaim_keeps_world Let_def split: option.split prod.split)

text \<open>A change of the consent columns only.\<close>

definition row_kept :: "(VoipCall \<Rightarrow> VoipCall) \<Rightarrow> bool" where
  "row_kept f \<longleftrightarrow> (\<forall>r. v_id (f r) = v_id r \<and> v_legs (f r) = v_legs r \<and> v_status (f r) = v_status r
     \<and> v_credits_consumed (f r) = v_credits_consumed r)"

definition rows_kept :: "VoipCall list \<Rightarrow> VoipCall list \<Rightarrow> bool" where
  "rows_kept calls calls' \<longleftrightarrow> (\<exists>f. row_kept f \<and> calls' = map f calls)"

lemma rows_kept_refl [simp, intro]: "rows_kept calls calls"
  unfolding rows_kept_def row_kept_def by (rule exI [of _ "\<lambda>r. r"]) simp

lemma rows_kept_trans: "rows_kept a b \<Longrightarrow> rows_kept b c \<Longrightarrow> rows_kept a c"
  unfolding rows_kept_def row_kept_def
proof (elim exE conjE)
  fix f g
  assume "\<forall>r. v_id (f r) = v_id r \<and> v_legs (f r) = v_legs r \<and> v_status (f r) = v_status r
      \<and> v_credits_consumed (f r) = v_credits_consumed r" "b = map f a"
    "\<forall>r. v_id (g r) = v_id r \<and> v_legs (g r) = v_legs r \<and> v_status (g r) = v_status r
      \<and> v_credits_consumed (g r) = v_credits_consumed r" "c = map g b"
  then show "\<exists>f. (\<forall>r. v_id (f r) = v_id r \<and> v_legs (f r) = v_legs r \<and> v_status (f r) = v_status r
      \<and> v_credits_consumed (f r) = v_credits_consumed r) \<and> c = map f a"
    by (intro exI [of _ "\<lambda>r. g (f r)"]) simp
qed

lemma rows_kept_update: "row_kept f \<Longrightarrow> rows_kept calls (update_call call f calls)"
  unfolding rows_kept_def row_kept_def update_call_def
  by (rule exI [of _ "\<lambda>r. if v_id r = call then f r else r"]) simp

lemma row_changes_kept [simp]:
  "row_kept (stamp_disclosure now lang)" "row_kept stop_wanting" "row_kept record_failed"
  "row_kept (record_started now)" "row_kept (transcription_started now)" "row_kept settle_unannounced"
  "row_kept (resolve st now)"
  by (simp_all add: row_kept_def row_changes)

lemma start_capture_kept: "rows_kept calls (fst (start_capture p now calls call leg row))"
  by (auto simp: start_capture_def Let_def split: prod.split
      intro: rows_kept_update rows_kept_trans [OF rows_kept_update rows_kept_update])

lemma act_kept: "rows_kept calls (fst (act p now calls call leg action row))"
  by (cases action) (auto simp: act_def start_capture_kept stop_wanting_capture_def intro: rows_kept_update)

lemma announce_kept:
  assumes "announce_on_answer lower copy settings p now calls call leg = (dl, calls', cmds)"
  shows "rows_kept calls calls'"
proof (cases "load settings calls call")
  case None
  with assms show ?thesis by (simp add: announce_on_answer_def)
next
  case (Some row)
  obtain delivery calls1 cmds1 where del: "deliver lower copy p now calls call leg
      (row_plan lower row) (cr_refused row) = (delivery, calls1, cmds1)" by (metis prod_cases3)
  have one: "rows_kept calls calls1"
    using deliver_result [OF del] by (auto intro: rows_kept_update)
  show ?thesis
  proof (cases "\<exists>reason. delivery = NotAnnounced reason")
    case True
    with assms Some del have "calls' = update_call call settle_unannounced (stop_wanting_capture calls1 call)"
      by (auto simp: announce_on_answer_def)
    moreover have "rows_kept calls1 (update_call call settle_unannounced (stop_wanting_capture calls1 call))"
      unfolding stop_wanting_capture_def by (rule rows_kept_trans [OF rows_kept_update rows_kept_update]) simp_all
    ultimately show ?thesis using rows_kept_trans [OF one] by simp
  next
    case False
    with assms Some del have "calls' = calls1 \<or> (\<exists>fresh cs. start_capture p now calls1 call leg fresh = (calls', cs))"
      by (auto simp: announce_on_answer_def split: Delivery.splits option.splits prod.splits)
    with one show ?thesis using start_capture_kept rows_kept_trans by (metis fst_conv)
  qed
qed

lemma on_dtmf_kept:
  assumes "on_dtmf settings p now calls call leg digit = (action, calls', cmds)"
  shows "rows_kept calls calls'"
proof (cases "load settings calls call")
  case None
  with assms show ?thesis by (simp add: on_dtmf_def)
next
  case (Some row)
  show ?thesis
  proof (cases "cr_status row = Pending")
    case True
    with assms Some have "calls' = fst (act p now (update_call call (resolve (on_digit digit accept_digits) now) calls)
        call leg (after (on_digit digit accept_digits) (cr_refused row)) row)"
      by (auto simp: on_dtmf_def Let_def split: prod.splits)
    then show ?thesis using rows_kept_trans [OF rows_kept_update act_kept] by simp
  next
    case False
    with assms Some show ?thesis by (simp add: on_dtmf_def)
  qed
qed

section \<open>What a delivery leaves alone\<close>

definition calls_in :: "ProviderEvent \<Rightarrow> bool" where
  "calls_in ev \<longleftrightarrow> (\<exists>src dest. pe_kind ev = KIncoming src dest)"

definition orders_numbers :: "ProviderEvent \<Rightarrow> bool" where
  "orders_numbers ev \<longleftrightarrow> (\<exists>order subs. pe_kind ev = KNumberOrderCompleted order subs)"

text \<open>The tables apart from the consent columns, and the two services.\<close>

definition desk_kept :: "('f, 'j) Desk \<Rightarrow> ('f, 'j) Desk \<Rightarrow> bool" where
  "desk_kept d d' \<longleftrightarrow> rows_kept (w_calls (desk_world d)) (w_calls (desk_world d'))
     \<and> w_holds (desk_world d') = w_holds (desk_world d) \<and> w_events (desk_world d') = w_events (desk_world d)
     \<and> h_pool (i_host (dk_host d')) = h_pool (i_host (dk_host d))
     \<and> h_carrier (i_host (dk_host d')) = h_carrier (i_host (dk_host d))"

lemma desk_kept_refl [simp, intro]: "desk_kept d d"
  by (simp add: desk_kept_def)

lemma desk_kept_trans [trans]: "desk_kept a b \<Longrightarrow> desk_kept b c \<Longrightarrow> desk_kept a c"
  by (auto simp: desk_kept_def elim: rows_kept_trans)

lemma set_calls_kept:
  "rows_kept (w_calls (desk_world d)) calls \<Longrightarrow> desk_kept d (command_all cmds (set_desk_calls calls d))"
  by (simp add: desk_kept_def set_desk_calls_def on_world_def with_calls_def desk_world_def)

lemma arm_call_kept: "desk_kept d (arm_call E call leg d)"
  by (simp add: desk_kept_def arm_call_sel)

lemma speak_first_kept: "speak_first E call leg d = (dl, d') \<Longrightarrow> desk_kept d d'"
  by (auto simp: speak_first_def set_calls_kept announce_kept split: if_splits prod.splits)

lemma steps_kept:
  "desk_kept d (answered_step E out ev d)" "desk_kept d (over_step out d)" "desk_kept d (order_step E ev d)"
  "desk_kept d (digit_step E out ev d)"
proof -
  show "desk_kept d (answered_step E out ev d)"
    by (auto simp: answered_step_def split: Ingest.split CallState.split prod.split Delivery.split
        intro: speak_first_kept desk_kept_trans [OF speak_first_kept arm_call_kept])
  show "desk_kept d (over_step out d)"
    by (simp add: over_step_def desk_kept_def reclaim_keeps_world desk_world_def [symmetric] split: Ingest.split)
  show "desk_kept d (order_step E ev d)"
    by (simp add: order_step_def desk_kept_def desk_world_def split: ProviderEventKind.split)
  show "desk_kept d (digit_step E out ev d)"
    by (auto simp: digit_step_def Let_def split: Ingest.split ProviderEventKind.split prod.split
        intro: set_calls_kept on_dtmf_kept desk_kept_trans [OF set_calls_kept arm_call_kept])
qed

lemma no_incoming: "\<not> calls_in ev \<Longrightarrow> incoming_step E ev d = d"
  by (auto simp: incoming_step_def calls_in_def split: ProviderEventKind.split)

lemma no_order: "\<not> orders_numbers ev \<Longrightarrow> order_step E ev d = d"
  by (auto simp: order_step_def orders_numbers_def split: ProviderEventKind.split)

lemma set_off_kept:
  assumes "\<not> calls_in ev"
  shows "desk_kept d (set_off E out ev d)"
proof -
  note steps = desk_kept_trans [OF desk_kept_trans [OF desk_kept_trans [OF steps_kept(1) steps_kept(2)] steps_kept(3)]
        steps_kept(4)]
  show ?thesis unfolding set_off_def no_incoming [OF assms] by (rule steps)
qed

lemma set_off_nothing:
  "\<not> calls_in ev \<Longrightarrow> \<not> orders_numbers ev \<Longrightarrow> set_off E Unknown ev d = d"
  "\<not> calls_in ev \<Longrightarrow> \<not> orders_numbers ev \<Longrightarrow> set_off E (Duplicate i) ev d = d"
  by (simp_all add: set_off_def no_incoming no_order answered_step_def over_step_def digit_step_def)

text \<open>A call that resolved keeps resolving, whatever became of its consent.\<close>

lemma resolve_kept:
  assumes r: "resolve_call parse_id cs ev = (Some c, cs)" and k: "rows_kept cs cs'"
  shows "\<exists>c'. resolve_call parse_id cs' ev = (Some c', cs')"
proof -
  from k obtain f where f: "\<And>r. v_id (f r) = v_id r" "\<And>r. v_legs (f r) = v_legs r" and cs': "cs' = map f cs"
    by (auto simp: rows_kept_def row_kept_def)
  have found: "find_call cs' i = map_option f (find_call cs i)" for i
    by (simp add: cs' find_call_def find_map f)
  have leg: "fetch_call_by_leg cs' leg = map_option f (fetch_call_by_leg cs leg)" for leg
    by (simp add: cs' fetch_call_by_leg_def find_map f)
  from r show ?thesis
  proof (cases rule: resolve_call_Some)
    case (by_id i)
    have "\<forall>r \<in> set cs. v_id r = i \<longrightarrow> pe_leg_id ev \<in> set (v_legs r)"
    proof (intro ballI impI)
      fix r assume "r \<in> set cs" "v_id r = i"
      have "map (\<lambda>r. if v_id r = i then add_leg (pe_leg_id ev) r else r) cs = map (\<lambda>r. r) cs"
        using by_id(2) by_id(4) [symmetric] by (simp add: update_call_def)
      then have "add_leg (pe_leg_id ev) r = r"
        using \<open>r \<in> set cs\<close> \<open>v_id r = i\<close> unfolding map_eq_conv by auto
      then show "pe_leg_id ev \<in> set (v_legs r)" using add_leg_legs [of "pe_leg_id ev" r] by auto
    qed
    then have "update_call i (add_leg (pe_leg_id ev)) cs' = cs'"
      by (intro update_call_ident) (auto simp: cs' f add_leg_idem)
    with by_id(1,3) show ?thesis by (simp add: resolve_call_def found)
  next
    case by_leg
    then show ?thesis by (auto simp: resolve_call_def found leg split: option.split)
  qed
qed

section \<open>What the carrier is told\<close>


text \<open>
  A verified delivery that the database could not take is refused as if it were forged: the reply
  is 401, so the carrier does not deliver it again, and no later delivery will record the event.
  The answer that asks for a redelivery needs an error the tables never give.
\<close>

theorem failed_delivery_is_not_retried:
  assumes up: "h_pool (i_host (dk_host d))" "h_carrier (i_host (dk_host d))" "we_provider_id E = provider_id"
    and verified: "we_verify E (webhook_headers header) body (we_now E) = Inr ev"
    and failed: "apply_provider_event (we_decimal E) (we_parse_id E) (we_now E) ev (desk_world d) = Inl e"
  shows "inbound_webhook E provider_id header body d = (Unverified ''malformed'', d)"
    and "hook_status (fst (inbound_webhook E provider_id header body d)) = 401"
  using assms by (simp_all add: inbound_webhook_def ingest_def is_retryable_def)

lemma accepted_delivery:
  assumes "inbound_webhook E provider_id header body d = (Accepted, d')"
    and "we_verify E (webhook_headers header) body (we_now E) = Inr ev"
  obtains out w where "apply_provider_event (we_decimal E) (we_parse_id E) (we_now E) ev (desk_world d) = Inr (out, w)"
    and "d' = set_off E out ev (on_desk_host (on_world (\<lambda>_. w)) d)"
    and "h_pool (i_host (dk_host d))" and "h_carrier (i_host (dk_host d))" and "we_provider_id E = provider_id"
proof -
  from assms have up: "h_pool (i_host (dk_host d))" "h_carrier (i_host (dk_host d))" "we_provider_id E = provider_id"
    by (auto simp: inbound_webhook_def split: if_splits)
  show thesis
  proof (cases "apply_provider_event (we_decimal E) (we_parse_id E) (we_now E) ev (desk_world d)")
    case (Inl e)
    with assms up show thesis by (simp add: inbound_webhook_def ingest_def is_retryable_def)
  next
    case (Inr p)
    obtain out w where p: "p = (out, w)" by fastforce
    have "d' = set_off E out ev (on_desk_host (on_world (\<lambda>_. w)) d)"
      using assms up Inr by (simp add: p inbound_webhook_def ingest_def)
    with that Inr up show thesis by (simp add: p)
  qed
qed

lemma deliver_accepted:
  assumes "h_pool (i_host (dk_host d))" "h_carrier (i_host (dk_host d))" "we_provider_id E = provider_id"
    and "we_verify E (webhook_headers header) body (we_now E) = Inr ev"
    and "apply_provider_event (we_decimal E) (we_parse_id E) (we_now E) ev (desk_world d) = Inr (out, w)"
  shows "inbound_webhook E provider_id header body d
     = (Accepted, set_off E out ev (on_desk_host (on_world (\<lambda>_. w)) d))"
  using assms by (simp add: inbound_webhook_def ingest_def)

lemma on_world_flags [simp]: "h_pool (on_world f h) = h_pool h" "h_carrier (on_world f h) = h_carrier h"
  "h_world (on_world f h) = f (h_world h)" "h_live (on_world f h) = h_live h" "h_rooms (on_world f h) = h_rooms h"
  by (simp_all add: on_world_def)

text \<open>
  C8: The whole handler takes effect once. An event about a call we know, delivered again to the same
  server, at whatever later time and whatever the carrier, the tickets or the engines answer by
  then, is acknowledged and changes nothing: no second announcement, no second recording, no
  second audio path, no row, no money. The arrival of a call and the end of an order are excepted.
\<close>

theorem handler_acts_once:
  assumes first: "inbound_webhook E provider_id header body d = (Accepted, d1)"
    and ev: "we_verify E (webhook_headers header) body (we_now E) = Inr ev"
      "we_verify E2 (webhook_headers header2) body2 (we_now E2) = Inr ev"
    and known: "fst (resolve_call (we_parse_id E) (w_calls (desk_world d)) ev) \<noteq> None"
    and same: "we_parse_id E2 = we_parse_id E" "we_provider_id E2 = we_provider_id E"
    and kind: "\<not> calls_in ev" "\<not> orders_numbers ev"
  shows "inbound_webhook E2 provider_id header2 body2 d1 = (Accepted, d1)"
proof -
  from accepted_delivery [OF first ev(1)] obtain out w where
    app: "apply_provider_event (we_decimal E) (we_parse_id E) (we_now E) ev (desk_world d) = Inr (out, w)"
    and d1: "d1 = set_off E out ev (on_desk_host (on_world (\<lambda>_. w)) d)"
    and up: "h_pool (i_host (dk_host d))" "h_carrier (i_host (dk_host d))" "we_provider_id E = provider_id" .
  have "out \<noteq> Unknown"
    using app known by (auto simp: apply_provider_event_def first_delivery_def split: prod.splits option.splits
        sum.splits if_splits)
  from app this obtain c calls g where res: "resolve_call (we_parse_id E) (w_calls (desk_world d)) ev = (Some c, calls)"
    and w: "w_calls w = update_call (v_id c) g calls"
    and g: "\<And>r. v_id (g r) = v_id r" "\<And>r. v_legs (g r) = v_legs r" and seen: "seen_event ev (w_events w)"
    by (elim apply_event_shape) auto
  have kept: "desk_kept (on_desk_host (on_world (\<lambda>_. w)) d) d1" using d1 set_off_kept [OF kind(1)] by blast
  have rows: "rows_kept (w_calls w) (w_calls (desk_world d1))"
    and events: "w_events (desk_world d1) = w_events w"
    and up1: "h_pool (i_host (dk_host d1))" "h_carrier (i_host (dk_host d1))"
    using kept up by (simp_all add: desk_kept_def)
  from resolve_again [OF res g] obtain c' where "resolve_call (we_parse_id E) (w_calls w) ev = (Some c', w_calls w)"
    unfolding w by blast
  from resolve_kept [OF this rows] obtain c2 where
    r2: "resolve_call (we_parse_id E) (w_calls (desk_world d1)) ev = (Some c2, w_calls (desk_world d1))" by blast
  then have "apply_provider_event (we_decimal E2) (we_parse_id E2) (we_now E2) ev (desk_world d1)
      = Inr (Duplicate (Some (v_id c2)), desk_world d1)"
    using seen events by (simp add: apply_provider_event_def same)
  from deliver_accepted [OF up1 _ ev(2) this] show ?thesis
    using up(3) same(2) set_off_nothing [OF kind] by simp
qed

section \<open>Media waits for the answer\<close>

text \<open>What the consent flow reads of a row; an event about the lifecycle leaves it alone.\<close>

definition consent_part where
  "consent_part c = (v_id c, v_recording_started_at c, v_recording_status c, v_disclosure_played_at c,
     v_consent_status c, v_transcription_started_at c, v_transcription_status c, v_consent_policy c)"


lemma row_steps_consent [simp]:
  "consent_part (add_leg leg c) = consent_part c" "consent_part (advance s ev e d c) = consent_part c"
  "consent_part (charge_call k c) = consent_part c"
  by (simp_all add: consent_part_def add_leg_def advance_def charge_call_def)




















text \<open>Where in the handler the media may be opened.\<close>

lemma other_steps_quiet [simp]:
  "dk_commands (incoming_step E ev d) = dk_commands d" "dk_commands (over_step out d) = dk_commands d"
  "dk_commands (order_step E ev d) = dk_commands d" "desk_world (order_step E ev d) = desk_world d"
  "desk_world (over_step out d) = desk_world d"
  by (simp_all add: incoming_step_def over_step_def order_step_def desk_world_def reclaim_keeps_world
      split: ProviderEventKind.split Ingest.split sum.split prod.split)

lemma order_step_host [simp]: "dk_host (order_step E ev d) = dk_host d"
  by (simp add: order_step_def split: ProviderEventKind.split)












section \<open>An arrival that is delivered twice\<close>

definition fresh_ids :: "AdmitIds \<Rightarrow> ('f, 'j) InboundHost \<Rightarrow> bool" where
  "fresh_ids ids h \<longleftrightarrow> the_call h (ai_call ids) = None
     \<and> map_of (rooms (h_rooms (i_host h))) (''ph-'' @ ai_room ids) = None"

lemma fresh_room_peer:
  "map_of (rooms m) room = None \<Longrightarrow> \<exists>p m1. create_phone_peer m room eng lang uuid conn tx session = (Inr p, m1)"
  unfolding create_phone_peer_def Let_def join_def by (simp add: new_room_def MAX_PEERS_def)

text \<open>When a call is admitted, as one condition.\<close>

definition admissible ::
  "DbFaults \<Rightarrow> InboundDb \<Rightarrow> InboundConfig option \<Rightarrow> ustring \<Rightarrow> ustring \<Rightarrow> InboundConfig \<Rightarrow> E164 \<Rightarrow> InboundNumber \<Rightarrow> bool" where
  "admissible F db config src_raw dest_raw cfg src number \<longleftrightarrow>
     config = Some cfg \<and> ic_inbound_enabled cfg \<and> e164_parse src_raw = Inr src
     \<and> (\<exists>dest. e164_parse dest_raw = Inr dest \<and> number_for db dest = Inr number)
     \<and> \<not> df_number F \<and> \<not> df_subscription F \<and> \<not> df_routing F"

lemma admit_refused_calls:
  "admit F db Z config now ids eng leg src_raw dest_raw h = (Inl r, h') \<Longrightarrow> all_calls h' = all_calls h"
proof -
  assume a: "admit F db Z config now ids eng leg src_raw dest_raw h = (Inl r, h')"
  have "all_calls h' = all_calls h"
    if "admit_call F db Z cfg now ids eng leg src number h = (Inl r, h')" for cfg src number
    using that by (auto simp: admit_call_def Let_def on_host_def on_rooms_def host_sel split: prod.splits sum.splits if_splits)
  with a show ?thesis
    by (auto simp: admit_def split: option.splits if_splits sum.splits)
qed

lemma admit_admissible:
  assumes "admit F db Z config now ids eng leg src_raw dest_raw h = (Inr call, h')"
  obtains cfg src number where "admissible F db config src_raw dest_raw cfg src number"
    and "org_subscription_active (hold_pool (the_holds h)) (in_org_id number) now"
    and "admit_call F db Z cfg now ids eng leg src number h = (Inr call, h')"
  using assms
proof (cases rule: admit_Inr)
  case (1 cfg src dest number)
  have "\<not> df_number F" using assms 1(1-4) by (auto simp: admit_def)
  moreover from this have "\<not> df_subscription F \<and> \<not> df_routing F"
    using assms 1(1-5) by (auto simp: admit_def split: if_splits)
  ultimately have "admissible F db config src_raw dest_raw cfg src number" using 1(1-5) by (auto simp: admissible_def)
  from that [OF this 1(6,7)] show thesis .
qed

lemma admissible_admit:
  "admissible F db config src_raw dest_raw cfg src number \<Longrightarrow>
     org_subscription_active (hold_pool (the_holds h)) (in_org_id number) now \<Longrightarrow>
     admit F db Z config now ids eng leg src_raw dest_raw h = admit_call F db Z cfg now ids eng leg src number h"
  by (auto simp: admissible_def admit_def host_sel)

text \<open>The arrival of a call as the tables see it: nothing but perhaps a line of the ledger.\<close>

lemma arrival_ingested:
  assumes "pe_kind ev = KIncoming src dest" and "pe_client_state ev = None"
  shows "\<exists>out w'. apply_provider_event D parse_id now ev w = Inr (out, w') \<and> w_calls w' = w_calls w
     \<and> w_holds w' = w_holds w \<and> (\<forall>i b a. out \<noteq> Applied i b a)"
proof -
  have r: "resolve_call parse_id (w_calls w) ev = (fetch_call_by_leg (w_calls w) (pe_leg_id ev), w_calls w)"
    using assms(2) by (simp add: resolve_call_def)
  have "side_effects ev = (\<lambda>c. c)" using assms(1) by (simp add: side_effects_def fun_eq_iff)
  then show ?thesis
    using assms(1) r
    by (cases "fetch_call_by_leg (w_calls w) (pe_leg_id ev)")
      (auto simp: apply_provider_event_def first_delivery_def lifecycle_after_def update_call_ident)
qed

lemma arrival_set_off:
  "pe_kind ev = KIncoming src dest \<Longrightarrow> (\<forall>i b a. out \<noteq> Applied i b a) \<Longrightarrow> set_off E out ev d = incoming_step E ev d"
  by (cases out) (auto simp: set_off_def answered_step_def over_step_def order_step_def digit_step_def)

text \<open>A delivery of an arrival is an attempt to admit it, whatever the ledger says.\<close>

lemma arrival_delivered:
  assumes up: "h_pool (i_host (dk_host d))" "h_carrier (i_host (dk_host d))" "we_provider_id E = provider_id"
    and ev: "we_verify E (webhook_headers header) body (we_now E) = Inr ev"
    and kind: "pe_kind ev = KIncoming src dest" "pe_client_state ev = None"
  obtains d0 where "inbound_webhook E provider_id header body d = (Accepted, incoming_step E ev d0)"
    and "all_calls (dk_host d0) = all_calls (dk_host d)" and "the_holds (dk_host d0) = the_holds (dk_host d)"
    and "i_cols (dk_host d0) = i_cols (dk_host d)" and "i_carrier (dk_host d0) = i_carrier (dk_host d)"
    and "h_rooms (i_host (dk_host d0)) = h_rooms (i_host (dk_host d))"
    and "h_pool (i_host (dk_host d0))" and "h_carrier (i_host (dk_host d0))"
proof -
  from arrival_ingested [OF kind] obtain out w where
    app: "apply_provider_event (we_decimal E) (we_parse_id E) (we_now E) ev (desk_world d) = Inr (out, w)"
    and w: "w_calls w = w_calls (desk_world d)" "w_holds w = w_holds (desk_world d)" "\<forall>i b a. out \<noteq> Applied i b a"
    by metis
  let ?d0 = "on_desk_host (on_world (\<lambda>_. w)) d"
  show thesis
    by (rule that [of ?d0])
      (use deliver_accepted [OF up ev app] up w(1,2) in
        \<open>simp_all add: arrival_set_off [OF kind(1) w(3)] on_desk_host_def on_host_def host_sel desk_world_def\<close>)
qed

lemma change_flags [simp]:
  "h_pool (i_host (change_call i f h)) = h_pool (i_host h)" "h_carrier (i_host (change_call i f h)) = h_carrier (i_host h)"
  "i_host (change_cols i g h) = i_host h"
  by (simp_all add: change_call_def on_host_def change_cols_def)

lemma admit_flags:
  assumes "admit_call F db Z cfg now ids eng leg src number h = (out, h')"
  shows "h_pool (i_host h') = h_pool (i_host h)" and "h_carrier (i_host h') = h_carrier (i_host h)"
  using assms
  by (auto simp: admit_call_def Let_def on_host_def on_rooms_def insert_inbound_def carrier_call_def ring_users_def
      outside_hours_def split: prod.splits sum.splits if_splits)

text \<open>What an arrival leaves behind when it is admissible, on any server and whatever is there already.\<close>

lemma arrival_admitted:
  assumes up: "h_pool (i_host (dk_host d))" "h_carrier (i_host (dk_host d))" "we_provider_id E = provider_id"
    and ev: "we_verify E (webhook_headers header) body (we_now E) = Inr ev"
    and kind: "pe_kind ev = KIncoming src_raw dest_raw" "pe_client_state ev = None"
    and ok: "admissible (we_faults E) (we_inbound_db E) (map_option vs_inbound (we_config E)) (ustr src_raw) (ustr dest_raw)
        cfg src number" "\<not> df_insert (we_faults E)"
    and sub: "org_subscription_active (hold_pool (the_holds (dk_host d))) (in_org_id number) (we_now E)"
    and fresh: "fresh_ids (we_ids E) (dk_host d)"
  shows "\<exists>d' c b dl. inbound_webhook E provider_id header body d = (Accepted, d')
     \<and> all_calls (dk_host d') = all_calls (dk_host d) @ [c] \<and> v_id c = ai_call (we_ids E) \<and> v_legs c = [pe_leg_id ev]
     \<and> v_status c = ''ringing'' \<and> i_carrier (dk_host d') = i_carrier (dk_host d) @ [C_answer (pe_leg_id ev)]
     \<and> the_cols (dk_host d') (ai_call (we_ids E)) = Some b \<and> unanswered b \<and> \<not> ib_missed b
     \<and> ib_ring_deadline_at b = Some dl \<and> dl \<le> we_now E + 120 * 1000000
     \<and> the_holds (dk_host d') = the_holds (dk_host d)
     \<and> h_pool (i_host (dk_host d')) \<and> h_carrier (i_host (dk_host d'))"
proof -
  from arrival_delivered [OF up ev kind] obtain d0 where
    hook: "inbound_webhook E provider_id header body d = (Accepted, incoming_step E ev d0)"
    and d0: "all_calls (dk_host d0) = all_calls (dk_host d)" "the_holds (dk_host d0) = the_holds (dk_host d)"
      "i_carrier (dk_host d0) = i_carrier (dk_host d)" "h_rooms (i_host (dk_host d0)) = h_rooms (i_host (dk_host d))"
    and flags: "h_pool (i_host (dk_host d0))" "h_carrier (i_host (dk_host d0))" by metis
  let ?F = "we_faults E" and ?db = "we_inbound_db E" and ?Z = "we_zones E" and ?ids = "we_ids E"
  let ?ac = "admit_call ?F ?db ?Z cfg (we_now E) ?ids (we_engine_id E) (pe_leg_id ev) src number (dk_host d0)"
  have sub0: "org_subscription_active (hold_pool (the_holds (dk_host d0))) (in_org_id number) (we_now E)"
    using sub by (simp add: d0)
  have free: "the_call (dk_host d0) (ai_call ?ids) = None"
    using fresh d0(1) by (simp add: fresh_ids_def host_sel)
  have peer: "\<exists>p m. create_phone_peer (h_rooms (i_host (dk_host d0))) (''ph-'' @ ai_room ?ids) (we_engine_id E) lang
      (ai_peer ?ids) (ai_conn ?ids) (ai_tx ?ids) (ai_session ?ids) = (Inr p, m)" for lang
    unfolding d0 by (rule fresh_room_peer) (use fresh in \<open>simp add: fresh_ids_def\<close>)
  obtain h' where ac: "?ac = (Inr (ai_call ?ids), h')"
    using admit_call_fst [OF peer, of ?F ?db ?Z cfg "we_now E" "pe_leg_id ev" src number] ok(2) by (metis prod.collapse)
  have step: "incoming_step E ev d0 = d0\<lparr>dk_host := h'\<rparr>"
    unfolding incoming_step_def kind admissible_admit [OF ok(1) sub0] by (simp add: kind(1) admissible_admit [OF ok(1) sub0] ac)
  note in_h' = admit_call_Inr [OF ac free refl refl refl]
  obtain b dl where b: "the_cols h' (ai_call ?ids) = Some b" "unanswered b" "\<not> ib_missed b" "ib_ring_deadline_at b = Some dl"
      "dl \<le> we_now E + 120 * 1000000"
    using in_h' by (auto simp: ring_deadline_def clamp_def split: if_splits)
  show ?thesis
    using hook in_h' b d0 admit_flags [OF ac] flags
    by (auto simp: step split: if_splits)
qed

text \<open>The same arrival delivered twice rings twice: the ledger is asked, and its verdict is not used.\<close>

lemma arrival_admitted_again:
  assumes first: "inbound_webhook E provider_id header body d = (Accepted, d1)"
    and ev: "we_verify E (webhook_headers header) body (we_now E) = Inr ev"
      "we_verify E2 (webhook_headers header2) body2 (we_now E2) = Inr ev"
    and kind: "pe_kind ev = KIncoming src_raw dest_raw" "pe_client_state ev = None"
    and admitted: "the_call (dk_host d1) (ai_call (we_ids E)) \<noteq> None"
    and same: "we_provider_id E2 = we_provider_id E" "we_config E2 = we_config E" "we_faults E2 = we_faults E"
      "we_inbound_db E2 = we_inbound_db E"
    and active: "\<And>o'. org_subscription_active (hold_pool (the_holds (dk_host d))) o' (we_now E) \<Longrightarrow>
        org_subscription_active (hold_pool (the_holds (dk_host d))) o' (we_now E2)"
    and fresh: "fresh_ids (we_ids E) (dk_host d)" "fresh_ids (we_ids E2) (dk_host d1)"
  shows "\<exists>d2 c1 c2 b dl. inbound_webhook E2 provider_id header2 body2 d1 = (Accepted, d2)
     \<and> all_calls (dk_host d1) = all_calls (dk_host d) @ [c1] \<and> all_calls (dk_host d2) = all_calls (dk_host d1) @ [c2]
     \<and> v_id c1 = ai_call (we_ids E) \<and> v_id c2 = ai_call (we_ids E2) \<and> v_id c1 \<noteq> v_id c2
     \<and> v_legs c1 = [pe_leg_id ev] \<and> v_legs c2 = [pe_leg_id ev] \<and> v_status c1 = ''ringing'' \<and> v_status c2 = ''ringing''
     \<and> i_carrier (dk_host d2) = i_carrier (dk_host d) @ [C_answer (pe_leg_id ev), C_answer (pe_leg_id ev)]
     \<and> the_cols (dk_host d2) (v_id c2) = Some b \<and> unanswered b \<and> \<not> ib_missed b
     \<and> ib_ring_deadline_at b = Some dl \<and> dl \<le> we_now E2 + 120 * 1000000"
proof -
  from accepted_delivery [OF first ev(1)] have
    up: "h_pool (i_host (dk_host d))" "h_carrier (i_host (dk_host d))" "we_provider_id E = provider_id" by blast+
  from arrival_delivered [OF up ev(1) kind] obtain d0 where
    hook: "inbound_webhook E provider_id header body d = (Accepted, incoming_step E ev d0)"
    and d0: "all_calls (dk_host d0) = all_calls (dk_host d)" "the_holds (dk_host d0) = the_holds (dk_host d)"
      "h_rooms (i_host (dk_host d0)) = h_rooms (i_host (dk_host d))" by metis
  have d1: "d1 = incoming_step E ev d0" using hook first by simp
  have none: "the_call (dk_host d0) (ai_call (we_ids E)) = None"
    using fresh(1) d0(1) by (simp add: fresh_ids_def host_sel)
  obtain r h' where adm: "admit (we_faults E) (we_inbound_db E) (we_zones E) (map_option vs_inbound (we_config E))
      (we_now E) (we_ids E) (we_engine_id E) (pe_leg_id ev) (ustr src_raw) (ustr dest_raw) (dk_host d0) = (r, h')"
    by (rule prod.exhaust)
  have "\<exists>call. r = Inr call"
  proof (cases r)
    case (Inl refusal)
    with adm have "all_calls h' = all_calls (dk_host d0)" using admit_refused_calls by blast
    moreover have "dk_host d1 = carrier_call (C_hangup (pe_leg_id ev)) h'"
      using adm Inl by (simp add: d1 incoming_step_def kind(1))
    ultimately have "the_call (dk_host d1) (ai_call (we_ids E)) = None"
      using none by (simp add: carrier_call_def host_sel)
    with admitted show ?thesis by simp
  qed simp
  then obtain call where "r = Inr call" ..
  from admit_admissible [OF adm [unfolded this]] obtain cfg src number where
    ok: "admissible (we_faults E) (we_inbound_db E) (map_option vs_inbound (we_config E)) (ustr src_raw) (ustr dest_raw)
        cfg src number"
    and sub: "org_subscription_active (hold_pool (the_holds (dk_host d))) (in_org_id number) (we_now E)"
    and ac: "admit_call (we_faults E) (we_inbound_db E) (we_zones E) cfg (we_now E) (we_ids E) (we_engine_id E)
        (pe_leg_id ev) src number (dk_host d0) = (Inr call, h')"
    by (metis d0(2))
  have "\<exists>p m. create_phone_peer (h_rooms (i_host (dk_host d0))) (''ph-'' @ ai_room (we_ids E)) (we_engine_id E) lang
      (ai_peer (we_ids E)) (ai_conn (we_ids E)) (ai_tx (we_ids E)) (ai_session (we_ids E)) = (Inr p, m)" for lang
    unfolding d0 by (rule fresh_room_peer) (use fresh(1) in \<open>simp add: fresh_ids_def\<close>)
  from admit_call_fst [OF this, of "we_faults E" "we_inbound_db E" "we_zones E" cfg "we_now E" "pe_leg_id ev" src number]
  have store: "\<not> df_insert (we_faults E)" using ac by (simp split: if_splits)
  from arrival_admitted [OF up ev(1) kind ok store sub fresh(1)] first obtain c1 where
    one: "all_calls (dk_host d1) = all_calls (dk_host d) @ [c1]" "v_id c1 = ai_call (we_ids E)"
      "v_legs c1 = [pe_leg_id ev]" "v_status c1 = ''ringing''"
      "i_carrier (dk_host d1) = i_carrier (dk_host d) @ [C_answer (pe_leg_id ev)]"
      "the_holds (dk_host d1) = the_holds (dk_host d)" "h_pool (i_host (dk_host d1))" "h_carrier (i_host (dk_host d1))"
    by auto
  have other: "we_provider_id E2 = provider_id" using up(3) same(1) by simp
  have "org_subscription_active (hold_pool (the_holds (dk_host d1))) (in_org_id number) (we_now E2)"
    using active sub one(6) by simp
  from arrival_admitted [OF one(7,8) other ev(2) kind ok [folded same(2,3,4)] store [folded same(3)] this fresh(2)]
  obtain d2 c2 b dl where two: "inbound_webhook E2 provider_id header2 body2 d1 = (Accepted, d2)"
      "all_calls (dk_host d2) = all_calls (dk_host d1) @ [c2]" "v_id c2 = ai_call (we_ids E2)" "v_legs c2 = [pe_leg_id ev]"
      "v_status c2 = ''ringing''" "i_carrier (dk_host d2) = i_carrier (dk_host d1) @ [C_answer (pe_leg_id ev)]"
      "the_cols (dk_host d2) (ai_call (we_ids E2)) = Some b" "unanswered b" "\<not> ib_missed b"
      "ib_ring_deadline_at b = Some dl" "dl \<le> we_now E2 + 120 * 1000000" by blast
  have "v_id c1 \<noteq> v_id c2"
    using fresh(2) one(1) two(3) by (auto simp: fresh_ids_def host_sel find_call_def find_None_iff)
  with one two show ?thesis by (intro exI [of _ d2] exI [of _ c1] exI [of _ c2] exI [of _ b] exI [of _ dl]) simp
qed

lemma answer_others:
  assumes "answer_inbound org i user h = (Inr room, h1)"
  shows "j \<noteq> i \<Longrightarrow> the_call h1 j = the_call h j" and "j \<noteq> i \<Longrightarrow> the_cols h1 j = the_cols h j"
    and "map v_id (all_calls h1) = map v_id (all_calls h)"
  using assms by (auto simp: answer_alt change_call_sel update_call_ids split: option.splits if_splits)

text \<open>What the sweep says for one row that is due.\<close>

lemma due_row_told:
  assumes d: "distinct (map v_id (all_calls h))" "length (all_calls h) \<le> batch"
    and s: "sweep_unanswered lower copy config db t batch (\<lambda>_ h. h) h = (n, h')"
    and c: "the_call h i = Some c" "row_live c" "leg \<in> set (v_legs c)"
    and b: "the_cols h i = Some b" "unanswered b" "\<not> ib_missed b" "ib_ring_deadline_at b = Some dl" "dl \<le> t"
  shows "\<exists>cmds. i_carrier h' = i_carrier h @ cmds \<and> (C_hangup leg \<in> set cmds \<or> C_record leg \<in> set cmds)"
proof -
  let ?r = "unanswered_row db (i_cols h) c" and ?p = "\<lambda>l. fst (voicemail_prompt lower copy l)" and ?R = "records_allowed config"
  have id: "v_id c = i" using c(1) find_call_id [of "all_calls h" i c] by (auto simp: host_sel)
  have "is_due t (i_cols h) c" using c(2) b id by (simp add: is_due_def the_cols_def)
  then have "find (\<lambda>r. ur_id r = i) (due_rows db t batch h) = Some ?r" using due_rows_find [OF d] c(1) by simp
  then have in_due: "?r \<in> set (due_rows db t batch h)" by (auto dest: find_SomeD)
  have "\<not> ur_missed ?r" "ur_legs ?r = v_legs c"
    using b id by (simp_all add: unanswered_row_def the_cols_def Let_def)
  then have "C_hangup leg \<in> set (row_commands ?p ?R ?r) \<or> C_record leg \<in> set (row_commands ?p ?R ?r)"
    using c(3) by (cases "leaves_a_message ?R ?r") (auto simp: row_commands_def)
  with in_due sweep_unanswered_effect(5) [OF d s] show ?thesis by auto
qed

text \<open>
  C37: An arrival that the carrier delivers twice cuts its own caller off. The redelivery admits the
  call a second time on the leg of the first, so the phone rings twice; when somebody takes the
  first of the two calls, nobody takes the second, and the sweep that ends unanswered calls hangs
  up, or records a voicemail on, the leg of two people who are talking, whose own row is answered
  and live. The ledger would know: even an event it has recorded is admitted again.
\<close>

theorem redelivered_arrival_cuts_off_answer:
  assumes "inbound_webhook E provider_id header body d = (Accepted, d1)"
    and "we_verify E (webhook_headers header) body (we_now E) = Inr ev"
      "we_verify E2 (webhook_headers header2) body2 (we_now E2) = Inr ev"
    and "pe_kind ev = KIncoming src_raw dest_raw" "pe_client_state ev = None"
    and "the_call (dk_host d1) (ai_call (we_ids E)) \<noteq> None"
    and "we_provider_id E2 = we_provider_id E" "we_config E2 = we_config E" "we_faults E2 = we_faults E"
      "we_inbound_db E2 = we_inbound_db E"
    and "\<And>o'. org_subscription_active (hold_pool (the_holds (dk_host d))) o' (we_now E) \<Longrightarrow>
        org_subscription_active (hold_pool (the_holds (dk_host d))) o' (we_now E2)"
    and fresh: "fresh_ids (we_ids E) (dk_host d)" "fresh_ids (we_ids E2) (dk_host d1)"
    and ids: "distinct (map v_id (all_calls (dk_host d)))" "length (all_calls (dk_host d)) + 2 \<le> batch"
    and second: "inbound_webhook E2 provider_id header2 body2 d1 = (reply, d2)"
    and taken: "answer_inbound org (ai_call (we_ids E)) user (dk_host d2) = (Inr room, h3)"
    and swept: "sweep_unanswered lower copy config db t batch (\<lambda>_ h. h) h3 = (n, h4)" "we_now E2 + 120 * 1000000 \<le> t"
  shows "reply = Accepted
    \<and> (\<exists>cmds c b. i_carrier h4 = i_carrier h3 @ cmds \<and> (C_hangup (pe_leg_id ev) \<in> set cmds \<or> C_record (pe_leg_id ev) \<in> set cmds)
         \<and> the_call h4 (ai_call (we_ids E)) = Some c \<and> row_live c \<and> v_user_id c = Some user \<and> pe_leg_id ev \<in> set (v_legs c)
         \<and> the_cols h4 (ai_call (we_ids E)) = Some b \<and> ib_answered_by b = Some user)"
proof -
  let ?one = "ai_call (we_ids E)" and ?two = "ai_call (we_ids E2)" and ?leg = "pe_leg_id ev"
  from arrival_admitted_again [OF assms(1-13)] second obtain c1 c2 b dl where reply: "reply = Accepted"
    and calls: "all_calls (dk_host d1) = all_calls (dk_host d) @ [c1]" "all_calls (dk_host d2) = all_calls (dk_host d1) @ [c2]"
      "v_id c1 = ?one" "v_id c2 = ?two" "v_id c1 \<noteq> v_id c2" "v_legs c1 = [?leg]" "v_legs c2 = [?leg]"
      "v_status c1 = ''ringing''" "v_status c2 = ''ringing''"
    and b: "the_cols (dk_host d2) ?two = Some b" "unanswered b" "\<not> ib_missed b" "ib_ring_deadline_at b = Some dl"
      "dl \<le> we_now E2 + 120 * 1000000" by auto
  have "?one \<notin> v_id ` set (all_calls (dk_host d))" "?two \<notin> v_id ` set (all_calls (dk_host d1))"
    using fresh by (auto simp: fresh_ids_def host_sel find_call_def find_None_iff)
  then have d2: "distinct (map v_id (all_calls (dk_host d2)))" using ids(1) calls(1-4) by auto
  then have d3: "distinct (map v_id (all_calls h3))" using answer_others(3) [OF taken] by simp
  have "length (all_calls h3) = length (all_calls (dk_host d2))"
    using answer_others(3) [OF taken] by (metis length_map)
  then have l3: "length (all_calls h3) \<le> batch" using ids(2) calls(1,2) by simp
  have rows: "the_call (dk_host d2) ?one = Some c1" "the_call (dk_host d2) ?two = Some c2"
    using distinct_find_call [OF d2, of c1] distinct_find_call [OF d2, of c2] calls by (simp_all add: host_sel)
  from answer_effect [OF taken] obtain b1 where one: "the_call h3 ?one = Some (c1\<lparr>v_user_id := Some user\<rparr>)"
      "the_cols h3 ?one = Some (b1\<lparr>ib_answered_by := Some user, ib_ring_deadline_at := None\<rparr>)"
    using rows(1) by auto
  have two: "the_call h3 ?two = Some c2" "the_cols h3 ?two = Some b"
    using answer_others(1,2) [OF taken, of ?two] rows(2) b(1) calls(3-5) by simp_all
  have told: "\<exists>cmds. i_carrier h4 = i_carrier h3 @ cmds \<and> (C_hangup ?leg \<in> set cmds \<or> C_record ?leg \<in> set cmds)"
    using due_row_told [OF d3 l3 swept(1) two(1) _ _ two(2) b(2-4)] calls(7,9) b(5) swept(2) by (simp add: row_live_def)
  have "\<not> is_due t (i_cols h3) (c1\<lparr>v_user_id := Some user\<rparr>)"
    using one(2) calls(3) by (simp add: is_due_def the_cols_def unanswered_def)
  then have "the_call h4 ?one = Some (c1\<lparr>v_user_id := Some user\<rparr>)"
    "the_cols h4 ?one = Some (b1\<lparr>ib_answered_by := Some user, ib_ring_deadline_at := None\<rparr>)"
    using sweep_unanswered_effect(1,2) [OF d3 l3 swept(1), of ?one] one by simp_all
  with told reply calls(6,8) show ?thesis by (auto simp: row_live_def)
qed

section \<open>Deliveries\<close>

definition sample_settings :: VoipSettings where
  "sample_settings = \<lparr>vs_inbound = sample_config, vs_regulatory_reconcile = True, vs_media_ws_base = ''wss://h''\<rparr>"

text \<open>A body is the event it verifies to.\<close>

definition sample_desk_env :: "(ProviderEvent, unit, string, string) desk_env" where
  "sample_desk_env =
     \<lparr>we_provider_id = ''p'', we_verify = (\<lambda>_ ev _. Inr ev), we_decimal = exact_decimal, we_parse_id = (\<lambda>_. None),
      we_now = 0, we_config = Some sample_settings, we_lower = sample_lower, we_copy = sample_copy,
      we_settings = (\<lambda>_. None), we_carrier = sample_carrier, we_stream = (\<lambda>_ _. True), we_codec = sample_codec,
      we_key = ''k'', we_nonce = ''n'', we_inbound_db = sample_inbound_db None, we_zones = sample_zones,
      we_ids = sample_ids, we_engine_id = ''e'', we_faults = no_faults, we_announce_fails = False,
      we_dtmf_fails = False, we_nudge_fails = False\<rparr>"

definition waiting_leg :: PendingLeg where
  "waiting_leg = \<lparr>pl_call_id = 7, pl_session_id = 70, pl_org_id = 1, pl_user_id = None, pl_room = ''ph-x'',
     pl_peer_id = ''phone-y'', pl_conn = 0, pl_engine_id = ''e'', pl_phone_language = ''it'', pl_from_room = 0\<rparr>"

definition sample_desk :: "VoipCall list \<Rightarrow> LiveCalls \<Rightarrow> (nat, nat) Desk" where
  "sample_desk calls live =
     \<lparr>dk_host = on_host (\<lambda>h. (on_world (with_calls (\<lambda>_. calls)) h)\<lparr>h_live := live\<rparr>) quiet_host,
      dk_reg = \<lparr>rd_numbers = \<lparr>nb_numbers = [], nb_pool = sample_db, nb_routing = Map.empty, nb_hours = Map.empty,
                             nb_commands = []\<rparr>, rd_groups = [], rd_documents = [], rd_commands = []\<rparr>,
      dk_commands = []\<rparr>"

text \<open>A call that waits for the recipient's key, and the key.\<close>

definition waiting_desk :: "(nat, nat) Desk" where
  "waiting_desk = sample_desk [sample_call (Some 5) ''pending'' ''live''] [(7, waiting_leg)]"

definition key_event :: ProviderEvent where
  "key_event = sample_event ''e1'' 6 (KDtmf 49)"

definition sample_hook :: "ProviderEvent \<Rightarrow> (nat, nat) Desk \<Rightarrow> HookReply \<times> (nat, nat) Desk" where
  "sample_hook = inbound_webhook sample_desk_env ''p'' (\<lambda>_. None)"

lemma key_arms: "fst (sample_hook key_event waiting_desk) = Accepted"
  "dk_commands (snd (sample_hook key_event waiting_desk)) = [StartRecording ''leg'', ArmMedia 7 ''leg'']"
  by code_simp+

definition arrival :: ProviderEvent where
  "arrival = sample_event ''e1'' 6 (KIncoming ''+39 (320) 123-4567'' ''+39 (320) 123-4567'')"

definition second_ids :: AdmitIds where
  "second_ids = \<lparr>ai_room = ''z'', ai_peer = ''w'', ai_conn = 1, ai_tx = 1, ai_session = 71, ai_call = 8\<rparr>"

definition our_number :: InboundNumber where
  "our_number = \<lparr>in_number_id = 5, in_org_id = 1, in_e164 = ''+393201234567''\<rparr>"

definition admitted_host :: "AdmitIds \<Rightarrow> (nat, nat) InboundHost \<Rightarrow> (nat, nat) InboundHost" where
  "admitted_host ids h = snd (admit_call no_faults (sample_inbound_db None) sample_zones sample_config 0 ids ''e'' ''leg''
     (E164 ''+393201234567'') our_number h)"

lemmas arrival_defs = admit_call_def Let_def sample_inbound_db_def office_open_def no_faults_def default_routing_def
  resolve_ring_def identify_caller_def routed_users_def responsible_users_def sample_config_def our_number_def
  create_phone_peer_def join_def new_room_def MAX_PEERS_def insert_inbound_def on_host_def on_world_def on_rooms_def
  park_phone_peer_def park_def carrier_call_def ring_users_def

text \<open>The ledger of a host replaced.\<close>

definition noted :: "EventRow list \<Rightarrow> (nat, nat) InboundHost \<Rightarrow> (nat, nat) InboundHost" where
  "noted es = on_host (on_world (\<lambda>w. w\<lparr>w_events := es\<rparr>))"

lemma arrival_rings:
  "map v_id (all_calls (admitted_host sample_ids (noted es quiet_host))) = [7]"
  "map fst (rooms (h_rooms (i_host (admitted_host sample_ids (noted es quiet_host))))) = [''ph-x'']"
  "the_holds (admitted_host sample_ids (noted es quiet_host)) = sample_voip"
  "h_pool (i_host (admitted_host sample_ids (noted es quiet_host)))"
  "h_carrier (i_host (admitted_host sample_ids (noted es quiet_host)))"
  by (simp_all add: noted_def admitted_host_def arrival_defs quiet_host_def sample_ids_def new_manager_def host_sel
      inbound_row_def)

lemma arrival_taken:
  "fst (answer_inbound 1 7 3 (admitted_host second_ids (noted es2 (admitted_host sample_ids (noted es quiet_host)))))
     = Inr ''ph-x''"
  by (simp add: noted_def admitted_host_def arrival_defs quiet_host_def sample_ids_def second_ids_def new_manager_def
      host_sel inbound_row_def answer_inbound_def find_call_def unanswered_def)

lemma our_number_admissible:
  "admissible no_faults (sample_inbound_db None) (Some sample_config) sample_number sample_number
     sample_config (E164 ''+393201234567'') our_number"
  by (simp add: admissible_def sample_number_parse sample_config_def no_faults_def our_number_def number_for_def
      sample_inbound_db_def)

lemma sample_subscribed: "org_subscription_active (hold_pool sample_voip) (in_org_id our_number) 0"
  by (simp add: sample_voip_def sample_db_def sample_org_def org_subscription_active_def subscription_active_row_def
      our_number_def)

lemma sample_arrival:
  assumes up: "h_pool (i_host (dk_host d))" "h_carrier (i_host (dk_host d))" "the_holds (dk_host d) = sample_voip"
    and room: "map_of (rooms (h_rooms (i_host (dk_host d)))) (''ph-'' @ ai_room ids) = None"
  shows "\<exists>es. inbound_webhook (sample_desk_env\<lparr>we_ids := ids\<rparr>) ''p'' (\<lambda>_. None) arrival d
     = (Accepted, d\<lparr>dk_host := admitted_host ids (noted es (dk_host d))\<rparr>)"
proof -
  let ?E = "sample_desk_env\<lparr>we_ids := ids\<rparr>"
  have kind: "pe_kind arrival = KIncoming ''+39 (320) 123-4567'' ''+39 (320) 123-4567''" "pe_client_state arrival = None"
    "pe_leg_id arrival = ''leg''" by (simp_all add: arrival_def sample_event_def)
  from arrival_ingested [OF kind(1,2)] obtain out w where
    app: "apply_provider_event (we_decimal ?E) (we_parse_id ?E) (we_now ?E) arrival (desk_world d) = Inr (out, w)"
    and w: "w_calls w = w_calls (desk_world d)" "w_holds w = w_holds (desk_world d)" "\<forall>i b a. out \<noteq> Applied i b a"
    by metis
  have same: "w = (desk_world d)\<lparr>w_events := w_events w\<rparr>" using w(1,2) by simp
  let ?d0 = "on_desk_host (on_world (\<lambda>_. w)) d" and ?h = "noted (w_events w) (dk_host d)"
  have d0: "?d0 = d\<lparr>dk_host := ?h\<rparr>"
    by (subst same) (simp add: on_desk_host_def noted_def on_host_def on_world_def desk_world_def)
  have sub: "org_subscription_active (hold_pool (the_holds ?h)) (in_org_id our_number) 0"
    using sample_subscribed up(3) by (simp add: noted_def on_host_def host_sel)
  have peer: "\<exists>p m. create_phone_peer (h_rooms (i_host ?h)) (''ph-'' @ ai_room ids) ''e'' lang (ai_peer ids) (ai_conn ids)
      (ai_tx ids) (ai_session ids) = (Inr p, m)" for lang
    by (rule fresh_room_peer) (use room in \<open>simp add: noted_def on_host_def\<close>)
  have "fst (admit_call no_faults (sample_inbound_db None) sample_zones sample_config 0 ids ''e'' ''leg''
      (E164 ''+393201234567'') our_number ?h) = Inr (ai_call ids)"
    by (subst admit_call_fst [OF peer]) (simp add: no_faults_def)
  then have ac: "admit_call no_faults (sample_inbound_db None) sample_zones sample_config 0 ids ''e'' ''leg''
      (E164 ''+393201234567'') our_number ?h = (Inr (ai_call ids), admitted_host ids ?h)"
    by (simp add: admitted_host_def prod_eq_iff)
  have "incoming_step ?E arrival (d\<lparr>dk_host := ?h\<rparr>) = d\<lparr>dk_host := admitted_host ids ?h\<rparr>"
    unfolding incoming_step_def kind
    using admissible_admit [OF our_number_admissible sub, of sample_zones ids "''e''" "''leg''"] ac
    by (simp add: sample_desk_env_def sample_settings_def sample_number_def)
  moreover have "inbound_webhook ?E ''p'' (\<lambda>_. None) arrival d = (Accepted, incoming_step ?E arrival ?d0)"
    using deliver_accepted [OF up(1,2) _ _ app, of "''p''" "\<lambda>_. None" arrival]
    by (simp add: arrival_set_off [OF kind(1) w(3)] sample_desk_env_def)
  ultimately show ?thesis by (auto simp: d0)
qed

theorem redelivered_arrival_cuts_off_answer_witness:
  "\<exists>d1 d2 h3 n h4 cmds. sample_hook arrival (sample_desk [] []) = (Accepted, d1)
     \<and> inbound_webhook (sample_desk_env\<lparr>we_ids := second_ids\<rparr>) ''p'' (\<lambda>_. None) arrival d1 = (Accepted, d2)
     \<and> answer_inbound 1 7 3 (dk_host d2) = (Inr ''ph-x'', h3)
     \<and> sweep_unanswered sample_lower sample_copy None (sample_inbound_db None) 120000000 2 (\<lambda>_ h. h) h3 = (n, h4)
     \<and> i_carrier h4 = i_carrier h3 @ cmds \<and> (C_hangup ''leg'' \<in> set cmds \<or> C_record ''leg'' \<in> set cmds)"
proof -
  let ?d = "sample_desk [] []" and ?E2 = "sample_desk_env\<lparr>we_ids := second_ids\<rparr>"
  have h: "dk_host ?d = quiet_host" by (simp add: sample_desk_def on_host_def on_world_def with_calls_def quiet_host_def)
  have q: "h_pool (i_host quiet_host)" "h_carrier (i_host quiet_host)" "the_holds quiet_host = sample_voip"
    "rooms (h_rooms (i_host quiet_host)) = []" by (simp_all add: quiet_host_def host_sel new_manager_def)
  have ids: "sample_desk_env\<lparr>we_ids := sample_ids\<rparr> = sample_desk_env" by (simp add: sample_desk_env_def)
  from sample_arrival [of ?d sample_ids] obtain es where
    one: "sample_hook arrival ?d = (Accepted, ?d\<lparr>dk_host := admitted_host sample_ids (noted es quiet_host)\<rparr>)"
    by (auto simp: h q ids sample_hook_def)
  let ?d1 = "?d\<lparr>dk_host := admitted_host sample_ids (noted es quiet_host)\<rparr>"
  have rooms1: "map_of (rooms (h_rooms (i_host (dk_host ?d1)))) r = None" if "r \<noteq> ''ph-x''" for r
    using arrival_rings(2) [of es] that by (auto simp: map_of_eq_None_iff simp flip: set_map)
  from sample_arrival [of ?d1 second_ids] obtain es2 where two: "inbound_webhook ?E2 ''p'' (\<lambda>_. None) arrival ?d1
      = (Accepted, ?d1\<lparr>dk_host := admitted_host second_ids (noted es2 (dk_host ?d1))\<rparr>)"
    using arrival_rings(3-5) rooms1 by (auto simp: second_ids_def)
  let ?d2 = "?d1\<lparr>dk_host := admitted_host second_ids (noted es2 (dk_host ?d1))\<rparr>"
  obtain h3 where taken: "answer_inbound 1 7 3 (dk_host ?d2) = (Inr ''ph-x'', h3)"
    using arrival_taken [of es2 es] by (metis prod.collapse Desk.select_convs(1) Desk.surjective Desk.update_convs(1))
  obtain n h4 where swept: "sweep_unanswered sample_lower sample_copy None (sample_inbound_db None) 120000000 2 (\<lambda>_ h. h) h3
      = (n, h4)" by fastforce
  have calls1: "map v_id (all_calls (dk_host ?d1)) = [7]" using arrival_rings(1) by simp
  have known: "the_call (dk_host ?d1) (ai_call (we_ids sample_desk_env)) \<noteq> None" "the_call (dk_host ?d1) 8 = None"
    using calls1 by (auto simp: host_sel find_call_def find_None_iff sample_desk_env_def sample_ids_def map_eq_Cons_conv)
  have "fresh_ids (we_ids sample_desk_env) (dk_host ?d)" "fresh_ids (we_ids ?E2) (dk_host ?d1)"
    using known(2) rooms1 q(4) quiet_host_facts(1) by (simp_all add: fresh_ids_def h second_ids_def sample_desk_env_def)
  from redelivered_arrival_cuts_off_answer [where src_raw = "''+39 (320) 123-4567''" and dest_raw = "''+39 (320) 123-4567''"
        and org = 1 and user = 3 and room = "''ph-x''", OF one [unfolded sample_hook_def], of arrival ?E2 "\<lambda>_. None" arrival,
      OF _ _ _ _ known(1) _ _ _ _ _ this _ _ two _ swept] taken
  have "\<exists>cmds. i_carrier h4 = i_carrier h3 @ cmds \<and> (C_hangup ''leg'' \<in> set cmds \<or> C_record ''leg'' \<in> set cmds)"
    using calls1 by (auto simp: sample_desk_env_def sample_ids_def arrival_def sample_event_def h quiet_host_facts(4))
  with one two taken swept show ?thesis by blast
qed

text \<open>The key arms, and arms once.\<close>

theorem handler_acts_once_witness:
  "\<exists>d1. sample_hook key_event waiting_desk = (Accepted, d1) \<and> dk_commands d1 = [StartRecording ''leg'', ArmMedia 7 ''leg'']
     \<and> inbound_webhook (sample_desk_env\<lparr>we_now := 9, we_nonce := ''m''\<rparr>) ''p'' (\<lambda>_. None) key_event d1 = (Accepted, d1)"
proof -
  let ?E2 = "sample_desk_env\<lparr>we_now := 9, we_nonce := ''m''\<rparr>"
  obtain d1 where first: "sample_hook key_event waiting_desk = (Accepted, d1)"
    and log: "dk_commands d1 = [StartRecording ''leg'', ArmMedia 7 ''leg'']" using key_arms by (metis prod.collapse snd_conv)
  have known: "fst (resolve_call (we_parse_id sample_desk_env) (w_calls (desk_world waiting_desk)) key_event) \<noteq> None"
    by (simp add: resolve_call_def key_event_def sample_event_def waiting_desk_def sample_desk_def desk_world_def on_host_def
        fetch_call_by_leg_def sample_call_def)
  have "inbound_webhook ?E2 ''p'' (\<lambda>_. None) key_event d1 = (Accepted, d1)"
    by (rule handler_acts_once [OF first [unfolded sample_hook_def] _ _ known])
      (simp_all add: sample_desk_env_def key_event_def calls_in_def orders_numbers_def)
  with first log show ?thesis by blast
qed


end
