(* ===== verification/Spec2Isabelle.thy ===== *)
theory Spec2Isabelle
  imports Vox_Prelude Call_State E164_Number Pricing Credits Reservation Dial_Policy Consent
    Hours Voip_Calls Disclosure_Flow Dial_Service Webhook
    Keyed_Map Media_Ticket Rate_Limit Rooms
    Codec Media_Bridge Talk_Direction Talk_Utterance Talk_Gate
    Engine_Registry Voip_Session Inbound Call_Bill
    User_Billing Usage_Meter Peer_Meter
    Numbers Regulatory Number_Life Webhook_Handler
begin

text \<open>
  VoxTranslate server: verification development of the translated telephone call, from the
  number that is typed to the credits that are settled, of the rooms and the telephone audio
  that it runs on, of the conversation over one microphone, and of the meters that charge for
  talking in a room. The sources are the Rust crate
  under \<^verbatim>\<open>src/server/src\<close>.

  \<^bold>\<open>The program.\<close> An organisation buys numbers, whose monthly fee and paperwork
  sweeps follow. A member dials a telephone number from a browser; the
  server asks a carrier to place the call, joins it to a room, translates both directions and
  bills the organisation by the minute. The number is parsed and resolved to a country; the
  dial policy decides whether the organisation may call it now; the price per minute is
  derived from the itemised cost and the gross-margin floor; a quote sizes a hold on the
  organisation's credits; the dial takes the hold, asks the carrier and stores the call; the
  carrier's events drive the lifecycle of the call and, at the hang-up, settle the hold;
  sweeps repair what events missed. Before anything is recorded or transcribed the other
  party is told, and asked where the policy says so. The audio of the telephone reaches the
  room through a media socket, opened by a single-use ticket: it is decoded, resampled and
  handed to a translation engine, and translated audio goes back the same way. Rooms hold the
  peers of a call and route each speaker to the listeners of other languages. A face-to-face
  conversation has one microphone for two people: what was translated is held until it is
  known which of the two languages was spoken. In a room without a telephone the speaker, every
  listener or the organisation that hosts it pays per second; a meter runs beside each
  connection and draws on a personal balance that payments fill, or on the organisation's
  credits, while a guest has free time.

  \<^bold>\<open>Theories and sources.\<close>
  \<^item> \<open>Vox_Prelude\<close>: 32-bit wrap-around, text as code points, exact decimals with the laws of the
    decimal library, runs of events; the lemmas the components share.
  \<^item> \<open>Call_State\<close> (\<^verbatim>\<open>voip/state.rs\<close>): \<open>CallState\<close>, \<open>FailureReason\<close>, \<open>CallEvent\<close>; \<open>call_next\<close> is
    \<^verbatim>\<open>next\<close>.
  \<^item> \<open>E164_Number\<close> (\<^verbatim>\<open>telephony/e164.rs\<close>): parsing, calling codes, regions, masking.
  \<^item> \<open>Pricing\<close> (\<^verbatim>\<open>voip/pricing.rs\<close>): margin policy, price per minute, quote, settlement, rate deck.
  \<^item> \<open>Credits\<close> (\<^verbatim>\<open>business/credits.rs\<close>): the ledgered pool, the fees, the two meters; the locale
    \<open>credit_pool\<close> states what holds need of a pool and is interpreted on it as \<open>org_pool\<close>.
  \<^item> \<open>Reservation\<close> (\<^verbatim>\<open>voip/reservation.rs\<close>): reserve, settle, release on top of \<open>credit_pool\<close>.
  \<^item> \<open>Dial_Policy\<close> (\<^verbatim>\<open>voip/policy.rs\<close>), \<open>Consent\<close> (\<^verbatim>\<open>voip/consent.rs\<close>), \<open>Hours\<close> (\<^verbatim>\<open>voip/hours.rs\<close>):
    pure decisions.
  \<^item> \<open>Voip_Calls\<close> (\<^verbatim>\<open>migrations/056_voip.sql\<close>): the tables that the call operations share.
  \<^item> \<open>Disclosure_Flow\<close> (\<^verbatim>\<open>voip/disclosure.rs\<close>): the announcement, the key press, the timeout.
  \<^item> \<open>Dial_Service\<close> (\<^verbatim>\<open>voip/service.rs\<close>): settings, quote, dial, reprice.
  \<^item> \<open>Webhook\<close> (\<^verbatim>\<open>voip/webhook.rs\<close>): ingestion of one event, the four sweeps.
  \<^item> \<open>Keyed_Map\<close>: the locale of a map with \<open>get\<close>, \<open>put\<close> and \<open>retain\<close>, interpreted on association lists,
    which stand for \<^verbatim>\<open>HashMap\<close> and \<^verbatim>\<open>DashMap\<close>.
  \<^item> \<open>Media_Ticket\<close> (\<^verbatim>\<open>voip/token.rs\<close>): the single-use tickets of the media socket; the client of
    the map as the locale \<open>spent_store\<close>.
  \<^item> \<open>Rate_Limit\<close> (\<^verbatim>\<open>rate_limit.rs\<close>): the fixed-window limiter against a limiter that forgets nothing.
  \<^item> \<open>Rooms\<close> (\<^verbatim>\<open>rooms.rs\<close>): the registry of live rooms: joining, leaving, the orphaned telephone,
    sending, translation routes, metering, whiteboard and lobby.
  \<^item> \<open>Codec\<close> (\<^verbatim>\<open>voip/codec.rs\<close>): G.711 and linear PCM on 16-bit words, the evidence about the byte order,
    the streaming resampler over abstract \<open>f32\<close> operations, the playback gate.
  \<^item> \<open>Media_Bridge\<close> (\<^verbatim>\<open>voip/media.rs\<close>): the frames of the media socket, speech and byte-order detection, a
    \<open>Leg\<close> and its codec, and \<open>pump\<close> over the sequence of what arrives from the carrier and the
    room. \<open>None\<close> is a step that does not return; \<open>pump_total\<close> excludes it.
  \<^item> \<open>Talk_Direction\<close>, \<open>Talk_Utterance\<close>, \<open>Talk_Gate\<close> (\<^verbatim>\<open>talk/direction.rs\<close>, \<^verbatim>\<open>talk/utterance.rs\<close>, \<^verbatim>\<open>talk/mod.rs\<close>):
    a conversation over one microphone: which language was spoken, what is held until that is
    known, and the loop of a session as a step function over frames, verdicts and messages.
  \<^item> \<open>Engine_Registry\<close> (\<^verbatim>\<open>engine/mod.rs\<close>, \<^verbatim>\<open>engine/metadata.rs\<close>): the registered engines, the fallback, which
    sessions a turn has and which of them writes it; the shared claim as the locale \<open>exclusive_role\<close>.
  \<^item> \<open>Voip_Session\<close> (\<^verbatim>\<open>voip/session.rs\<close>): parked legs, the telephone as a peer, the engine session of
    a leg, how the end of the media or of the room ends the call; a loop that waits is \<open>poll_until\<close>.
  \<^item> \<open>Inbound\<close> (\<^verbatim>\<open>voip/inbound.rs\<close>): admission of a call to one of our numbers, its ring, the sweep over the
    calls nobody came to.
  \<^item> \<open>Call_Bill\<close>: what a call promises about its hold, as an abstract machine, and the simulation.
  \<^item> \<open>User_Billing\<close> (\<^verbatim>\<open>billing.rs\<close>, the payment webhook of \<^verbatim>\<open>api.rs\<close>): a user's balance, its ledger, usage
    sessions and payments.
  \<^item> \<open>Usage_Meter\<close> (\<^verbatim>\<open>usage.rs\<close>): the meters that charge a user or an organisation per second of
    translation, and the free time of guests by address.
  \<^item> \<open>Peer_Meter\<close> (\<^verbatim>\<open>lib.rs\<close>): who may join a room and who pays, and the handlers of a connection that
    start, stop and replace its meter, as a step function.
  \<^item> \<open>Numbers\<close> (\<^verbatim>\<open>voip/numbers.rs\<close>): buying a telephone number, giving it back, the monthly renewal, and the
    caller id that a call may present.
  \<^item> \<open>Regulatory\<close> (\<^verbatim>\<open>voip/regulatory.rs\<close>): the paperwork of a number: the groups of requirements, the upload of
    documents, the sweep that follows the carrier's decision.
  \<^item> \<open>Number_Life\<close>: both as one relation of atomic transactions; a handler, with whatever runs while it
    waits, is a run of them. The locale \<open>number_invariant\<close> states what every transaction keeps.
  \<^item> \<open>Webhook_Handler\<close> (\<^verbatim>\<open>voip/routes.rs\<close>, \<open>inbound_webhook\<close>): the endpoint that composes \<open>Webhook\<close>, \<open>Inbound\<close>,
    \<open>Disclosure_Flow\<close>, \<open>Voip_Session\<close> and \<open>Regulatory\<close>: what one delivery of the carrier sets off, in which
    order, and what a second delivery of the same event does. \<open>desk_kept\<close> says what its steps leave alone.
  This theory composes them: a dial with events and sweeps interleaved, and what follows it;
  the consent flow with the engines of a leg.

  \<^bold>\<open>Conventions.\<close> A table is a list of rows or a map, an SQL statement its effect on them, a
  transaction a function that returns the new tables or an error and leaves the old ones. An
  \<open>i32\<close> is an integer with \<open>wrap_i32\<close> where the code can overflow; \<open>Decimal\<close> is a rational
  with the library's division and rounding as the parameter \<open>decimal_ops\<close>, whose laws
  (\<open>decimal_laws\<close>) are met by \<open>exact_decimal\<close>; \<open>f64\<close>, time zones, HMAC, the carrier and the
  embedded sentences are parameters. Instants are microseconds where the code compares them
  with SQL intervals. Concurrency is the interleaving of whole transactions: \<open>dial\<close> takes what
  happens while the carrier is asked as an argument, and a run is a list of \<open>world_op\<close>.

  \<^bold>\<open>What is shown.\<close> Money: prices keep the margin floor, quotes cover their minutes, meters
  and accumulators lose nothing, the ledger explains each balance, holds are conserved and
  close once, and over any interleaving of dials, events and sweeps balance, open holds and
  paid calls add up. Order: the lifecycle only moves forward and an event takes effect once.
  A simulation shows the hold open until the call is over. Consent: nobody is recorded before
  being told and no word is kept without permission. Inbound: an unanswered call comes to an
  end, a refused one leaves nothing. Admission: the policy is exactly its
  specification and the caps hold. Rooms: a session ends once, a listener is served once.
  Audio: the stream does not depend on how it is cut, the bridge always returns. Conversation:
  only the side that was announced is spoken, and never unpaid. Meters: a personal balance is what
  its ledger says, a payment is credited once, a meter takes exactly the ticks that the balance
  affords, who speaks is metered at the rate of the engine that serves. Numbers: a purchase that is
  retried buys once, a renewal takes exactly what is due and can be paid, and the caller id of a
  call is active and verified under any interleaving. Where the code does not do what it says, a theorem shows
  the run: an answer overwritten by the dial, a bill lost when the media comes first or the
  last human leaves, an inbound call that costs nothing, a
  monthly ceiling that nothing reads, an overnight window read on the wrong day, a
  sponsored guest who rides free after the first stop, a number given back that a renewal revives
  or that cannot be bought again, a repeated
  sentence that turns a conversation around.

  \<^bold>\<open>Bounds.\<close> Every modelled loop is structural (over rows, digits or events), so no fuel is
  needed, except the loop of the resampler, a partial function that is proved to return, and
  the waits of \<open>Voip_Session\<close>, which a measure ends; batch limits of the sweeps are parameters clamped as in the code.

  \<^bold>\<open>Not modelled.\<close> The HTTP and WebSocket layers, the clients of carriers, speech and language
  services, configuration parsing, CRUD handlers of the workspace, mail and files: they are
  I/O and calls of libraries around the logic above. Logging, metrics counters and the
  \<open>updated_at\<close> columns are left out of the modelled functions.
\<close>

section \<open>A call from the dial to its settlement\<close>

text \<open>Provider events and sweeps that run while a dial waits for the carrier.\<close>

definition meanwhile ::
  "decimal_ops \<Rightarrow> (string \<Rightarrow> nat option) \<Rightarrow> (nat \<Rightarrow> int option) \<Rightarrow> world_op list
     \<Rightarrow> DialState \<Rightarrow> DialState" where
  "meanwhile D parse_id mm ops st =
     st\<lparr>ds_world := foldl (world_step D parse_id mm) (ds_world st) ops\<rparr>"

lemma world_ok_parts:
  "world_ok ttl w \<longleftrightarrow> accounts_for org_balance (w_holds w) ttl
     \<and> distinct (map v_id (w_calls w)) \<and> (\<forall>c \<in> set (w_calls w). credits_in_range c)"
  by (simp add: world_ok_def)

lemma credits_in_range_steps [simp]:
  "credits_in_range (created_call lower D i n s now)"
  "credits_in_range (fail_row r now c) = credits_in_range c"
  "credits_in_range (dialing_row leg c) = credits_in_range c"
  by (simp_all add: credits_in_range_def created_call_def fail_row_def dialing_row_def Let_def
      i32_max_def)

lemma on_calls_update_ok:
  assumes "world_ok ttl (ds_world st)"
    and "\<And>c. v_id (f c) = v_id c" and "\<And>c. credits_in_range (f c) = credits_in_range c"
  shows "world_ok ttl (ds_world (on_calls (update_call call f) st))"
  using assms update_call_ids [of f, OF assms(2)]
  by (simp add: world_ok_parts) (auto simp: update_call_def)

lemma set_holds_ok:
  "world_ok ttl (ds_world st) \<Longrightarrow> accounts_for org_balance h ttl
     \<Longrightarrow> world_ok ttl (ds_world (set_holds h st))"
  by (simp add: world_ok_parts)

lemma carrier_answered_ok:
  assumes ok: "world_ok ttl (ds_world st)"
    and res: "carrier_answered i session call now answer st = (r, st')"
  shows "world_ok ttl (ds_world st')"
proof (cases answer)
  case (Inr leg)
  with res have "st' = on_calls (update_call call (dialing_row leg)) st"
    by (simp add: carrier_answered_def)
  with ok show ?thesis by (simp add: on_calls_update_ok del: on_calls_simps)
next
  case (Inl reason)
  have failed: "world_ok ttl (ds_world (fail_call call reason now st))"
    using ok by (simp add: fail_call_def on_calls_update_ok del: on_calls_simps)
  obtain out h where rel: "release (w_holds (ds_world st)) call session now = Inr (out, h)"
    using release_total ok by (metis world_ok_parts)
  then have "accounts_for org_balance h ttl"
    using ok org_pool.release_accounts
    by (auto simp: release_def release_tx_def world_ok_parts split: sum.splits)
  with failed have "world_ok ttl (ds_world (set_holds h (fail_call call reason now st)))"
    by (rule set_holds_ok)
  with res Inl rel show ?thesis by (auto simp: carrier_answered_def)
qed

lemma dial_keeps_world:
  assumes ready: "dial_ready i call hold ttl st" and ok: "world_ok ttl (ds_world st)"
    and res: "dial lower D i new_session call hold now (meanwhile D parse_id mm ops) answer st = (r, st')"
  shows "world_ok ttl (ds_world st')"
proof (cases "\<exists>session. new_session = Some session \<and> \<not> over_caps i (w_calls (ds_world st))
    \<and> \<not> (\<exists>c \<in> set (w_calls (ds_world st)). v_id c = call \<or> v_session_id c = session)")
  case False
  with res ok show ?thesis
    by (cases new_session) (auto simp: dial_def split: if_splits)
next
  case True
  then obtain session where new: "new_session = Some session"
    "\<not> over_caps i (w_calls (ds_world st))"
    "\<not> (\<exists>c \<in> set (w_calls (ds_world st)). v_id c = call \<or> v_session_id c = session)" by blast
  let ?row = "created_call lower D i call session now"
  let ?st = "on_calls (\<lambda>cs. cs @ [?row]) (add_peer session st)"
  have st: "world_ok ttl (ds_world ?st)"
    using ok new(3) by (auto simp: world_ok_parts)
  from res new have run: "hold_and_dial i session call hold now (meanwhile D parse_id mm ops) answer ?st = (r, st')"
    by (simp add: dial_def)
  from ready obtain b where acc: "accounts_for org_balance (w_holds (ds_world st)) ttl"
    and b: "org_balance (hold_pool (w_holds (ds_world st))) (di_org i) = Some b"
    and fresh: "fresh_hold (reservations (w_holds (ds_world st))) hold call"
    by (auto simp: dial_ready_def)
  from acc b fresh show ?thesis
  proof (cases rule: reserve_cases [where credits = "q_reserve_credits (di_quote i)"
        and session = session and actor = "Some (di_user i)"])
    case refused
    then have "st' = drop_peer session (fail_call call InsufficientCredits now
        (set_holds (w_holds (ds_world st)) ?st))"
      using run by (simp add: hold_and_dial_def)
    moreover have "world_ok ttl (ds_world (fail_call call InsufficientCredits now
        (set_holds (w_holds (ds_world st)) ?st)))"
      unfolding fail_call_def using set_holds_ok [OF st acc] by (rule on_calls_update_ok) simp_all
    ultimately show ?thesis by simp
  next
    case (held p')
    let ?h = "\<lparr>hold_pool = p', reservations =
      open_row hold call (di_org i) (max (q_reserve_credits (di_quote i)) 0) # reservations (w_holds (ds_world st))\<rparr>"
    have "world_ok ttl (ds_world (set_holds ?h ?st))" using st held(4) by (rule set_holds_ok)
    then have "world_ok ttl (ds_world (meanwhile D parse_id mm ops (park_peer call (set_holds ?h ?st))))"
      using world_steps_ok by (simp add: meanwhile_def)
    moreover have "carrier_answered i session call now answer
        (meanwhile D parse_id mm ops (park_peer call (set_holds ?h ?st))) = (r, st')"
      using run held(2) by (simp add: hold_and_dial_def)
    ultimately show ?thesis by (rule carrier_answered_ok)
  qed
qed

text \<open>
  C1: From the dial to the settlement no credit is made or lost: whatever events and sweeps
  run while the carrier is being asked, whatever it answers, and whatever events and sweeps
  follow, every organisation's balance is non-negative and, with its open holds and what its
  calls have paid, adds up to what it had before the dial.
\<close>

theorem call_conserves_credits:
  assumes "dial_ready i call hold ttl st" and "world_ok ttl (ds_world st)"
    and "dial lower D i new_session call hold now (meanwhile D parse_id mm ops) answer st = (r, st')"
    and "w = foldl (world_step D parse_id mm) (ds_world st') later"
    and "org_balance (hold_pool (w_holds w)) org = Some b"
  shows "0 \<le> b \<and> b + committed (reservations (w_holds w)) org = ttl org
     \<and> (\<forall>c \<in> set (w_calls (ds_world st')). \<exists>c' \<in> set (w_calls w). v_id c' = v_id c
          \<and> callstate_rank (status_of c) \<le> callstate_rank (status_of c'))"
proof -
  from world_steps_ok [OF dial_keeps_world [OF assms(1-3)], of D parse_id mm later]
  have acc: "accounts_for org_balance (w_holds w) ttl"
    and up: "list_all2 advances (w_calls (ds_world st')) (w_calls w)"
    by (simp_all add: assms(4) world_ok_parts)
  have "\<exists>c' \<in> set (w_calls w). v_id c' = v_id c \<and> callstate_rank (status_of c) \<le> callstate_rank (status_of c')"
    if "c \<in> set (w_calls (ds_world st'))" for c
  proof -
    from that obtain n where "n < length (w_calls (ds_world st'))" "c = w_calls (ds_world st') ! n"
      by (auto simp: in_set_conv_nth)
    with up have "w_calls w ! n \<in> set (w_calls w)" "advances c (w_calls w ! n)"
      by (auto simp: list_all2_conv_all_nth)
    then show ?thesis by (force simp: advances_def status_of_def)
  qed
  with acc assms(5) show ?thesis by (auto simp: accounts_for_def)
qed

text \<open>An answer that the carrier reports while the dial request is still in flight.\<close>

definition early_answer :: "DialState \<Rightarrow> DialState" where
  "early_answer =
     meanwhile exact_decimal (\<lambda>s. if s = ''7'' then Some 7 else None) (\<lambda>_. None)
       [Deliver ((sample_event ''e1'' 10000000 KAnswered)\<lparr>pe_client_state := Some ''7''\<rparr>) 1]"

definition after_hangup :: "DialState \<Rightarrow> VoipWorld" where
  "after_hangup st =
     world_step exact_decimal (\<lambda>s. if s = ''7'' then Some 7 else None) (\<lambda>_. None) (ds_world st)
       (Deliver (sample_event ''e2'' 130000000 (KHangup Busy)) 2)"

definition early_state :: DialState where
  "early_state = snd (sample_dial early_answer (Inr ''leg''))"

lemma early_answer_accepted: "case fst (sample_dial early_answer (Inr ''leg'')) of Inl _ \<Rightarrow> False | Inr _ \<Rightarrow> True"
  by code_simp

lemma early_answer_rows:
  "map (\<lambda>c. (v_id c, ''leg'' \<in> set (v_legs c), v_answered_at c, v_duration_seconds c)) (w_calls (ds_world early_state)) =
     [(7, True, Some 10000000, None)]"
  by code_simp

lemma early_answer_found:
  "\<exists>c. w_calls (ds_world early_state) = [c] \<and> find_call (w_calls (ds_world early_state)) 7 = Some c
     \<and> v_answered_at c = Some 10000000 \<and> v_duration_seconds c = None
     \<and> resolve_call parse_id (w_calls (ds_world early_state)) (sample_event ''e2'' 130000000 (KHangup Busy)) =
         (Some c, w_calls (ds_world early_state))"
  using early_answer_rows
  by (auto simp: map_eq_Cons_conv find_call_def resolve_call_def fetch_call_by_leg_def sample_event_def)

lemma early_answer_holds:
  "map (\<lambda>r. (r_call_id r, r_state r, r_org_id r)) (reservations (w_holds (ds_world early_state))) = [(7, ''held'', 1)]"
  by code_simp

lemma early_answer_pool: "org_balance (hold_pool (w_holds (ds_world early_state))) 1 = Some 40"
  by code_simp

lemma early_answer_held:
  "\<exists>k. open_for_call (w_holds (ds_world early_state)) 7 = Some k
     \<and> org_balance (hold_pool (w_holds (ds_world early_state))) (r_org_id k) = Some 40"
  using early_answer_holds early_answer_pool by (auto simp: map_eq_Cons_conv open_for_call_def)

lemma early_answer_events: "map e_event_id (w_events (ds_world early_state)) = [''e1'']"
  by code_simp

lemma early_answer_balance:
  "org_balance (hold_pool (w_holds (after_hangup (snd (sample_dial early_answer (Inr ''leg'')))))) 1 = Some 100"
  by code_simp

text \<open>
  C38: An answer that overtakes the dial request is undone by it. Take any dial that the carrier accepts,
  with any events and sweeps while it is asked. Whatever status the call's row had by then, it is
  dialling when the carrier's reply is stored, and keeps its answer time. If it has one, and the hold is
  still open, then a new hang-up of that call, at any later moment before another event moves it,
  records the call as failed, with the seconds since the answer as its duration, charges nothing and
  returns the whole hold: the conversation was free. It is about tables that were sound at the dial.
\<close>

theorem dial_overwrites_answer:
  assumes ready: "dial_ready i call hold ttl st" and ok: "world_ok ttl (ds_world st)"
    and run: "dial lower D i new_session call hold now (meanwhile D parse_id mm ops) (Inr leg) st = (Inr cc, st')"
    and c: "find_call (w_calls (ds_world st')) call = Some c" and answered: "v_answered_at c = Some a"
    and hold: "open_for_call (w_holds (ds_world st')) call = Some r"
      "org_balance (hold_pool (w_holds (ds_world st'))) (r_org_id r) = Some b"
    and ev: "pe_kind ev = KHangup cause" "\<not> seen_event ev (w_events (ds_world st'))"
      "resolve_call parse_id (w_calls (ds_world st')) ev = (Some c, calls)"
  shows "(\<exists>session s c0. carrier_asked lower D i session call hold now ttl st s
        \<and> find_call (w_calls (ds_world (meanwhile D parse_id mm ops s))) call = Some c0
        \<and> v_answered_at c0 = Some a \<and> c = dialing_row leg c0)
     \<and> v_status c = ''dialing''
     \<and> (\<exists>w c'. apply_provider_event D parse_id later ev (ds_world st') = Inr (Applied call Dialing Call_State.Failed, w)
          \<and> find_call (w_calls w) call = Some c' \<and> v_status c' = ''failed'' \<and> v_credits_consumed c' = 0
          \<and> v_duration_seconds c' = coalesce (v_duration_seconds c) (call_seconds (Some a) (Some (pe_occurred_at ev)))
          \<and> org_balance (hold_pool (w_holds w)) =
              (org_balance (hold_pool (w_holds (ds_world st'))))(r_org_id r \<mapsto> b + held_credits r)
          \<and> open_for_call (w_holds w) call = None)"
  using ready run
proof (cases rule: dial_cases)
  case (asked session s)
  let ?calls = "w_calls (ds_world (meanwhile D parse_id mm ops s))"
  from asked(3) have "w_calls (ds_world st') = update_call call (dialing_row leg) ?calls"
    by (auto simp: carrier_answered_def)
  with c obtain c0 where c0: "find_call ?calls call = Some c0" "c = dialing_row leg c0"
    by (auto simp: find_update_call)
  then have dialling: "v_status c = ''dialing''" "v_answered_at c0 = Some a" and id: "v_id c = call"
    using answered c find_call_id by (auto simp: dialing_row_def)
  have dial: "status_of c = Dialing" using dialling(1) by (simp add: status_of_def callstate_parse_def)
  have "\<exists>session s c0. carrier_asked lower D i session call hold now ttl st s
      \<and> find_call (w_calls (ds_world (meanwhile D parse_id mm ops s))) call = Some c0
      \<and> v_answered_at c0 = Some a \<and> c = dialing_row leg c0"
    using asked(2) c0 dialling(2) by blast
  moreover from unanswered_hangup_fails [OF dial_keeps_world [OF ready ok run] ev, unfolded dial id answered, OF _ hold]
  have "\<exists>w c'. apply_provider_event D parse_id later ev (ds_world st') = Inr (Applied call Dialing Call_State.Failed, w)
      \<and> find_call (w_calls w) call = Some c' \<and> v_status c' = ''failed'' \<and> v_credits_consumed c' = 0
      \<and> v_duration_seconds c' = coalesce (v_duration_seconds c) (call_seconds (Some a) (Some (pe_occurred_at ev)))
      \<and> org_balance (hold_pool (w_holds w)) =
          (org_balance (hold_pool (w_holds (ds_world st'))))(r_org_id r \<mapsto> b + held_credits r)
      \<and> open_for_call (w_holds w) call = None" by simp
  ultimately show ?thesis using dialling(1) by blast
qed simp

theorem dial_overwrites_answer_witness:
  "\<exists>w c. apply_provider_event exact_decimal (\<lambda>s. if s = ''7'' then Some 7 else None) 2
       (sample_event ''e2'' 130000000 (KHangup Busy)) (ds_world (snd (sample_dial early_answer (Inr ''leg''))))
       = Inr (Applied 7 Dialing Call_State.Failed, w)
     \<and> find_call (w_calls w) 7 = Some c \<and> v_duration_seconds c = Some 120 \<and> v_credits_consumed c = 0"
proof -
  let ?pid = "\<lambda>s. if s = ''7'' then Some 7 else None" and ?ev = "sample_event ''e2'' 130000000 (KHangup Busy)"
  obtain r st' where run: "sample_dial early_answer (Inr ''leg'') = (r, st')" by fastforce
  have ok: "world_ok (\<lambda>o'. if o' = 1 then 100 else 0) (ds_world sample_state)"
    using sample_voip_accounts by (simp add: world_ok_parts sample_state_def)
  obtain cc where cc: "r = Inr cc" using early_answer_accepted run by (cases r) auto
  have st': "early_state = st'" by (simp add: early_state_def run)
  obtain c where c: "find_call (w_calls (ds_world st')) 7 = Some c" "v_answered_at c = Some 10000000"
    "v_duration_seconds c = None" "resolve_call ?pid (w_calls (ds_world st')) ?ev = (Some c, w_calls (ds_world st'))"
    using early_answer_found [of ?pid, unfolded st'] by blast
  obtain k b where hold: "open_for_call (w_holds (ds_world st')) 7 = Some k"
    "org_balance (hold_pool (w_holds (ds_world st'))) (r_org_id k) = Some b"
    using early_answer_held [unfolded st'] by blast
  have new: "\<not> seen_event ?ev (w_events (ds_world st'))"
    using early_answer_events [unfolded st'] by (auto simp: seen_event_def map_eq_Cons_conv sample_event_def)
  from dial_overwrites_answer [OF sample_ready ok run [unfolded sample_dial_def early_answer_def cc] c(1,2) hold _ new c(4),
      of Busy 2] run c(3)
  show ?thesis by (auto simp: call_seconds_def wrap_i32_def)
qed

text \<open>The conservation property at that run: the whole hold is back and nothing is committed.\<close>

theorem call_conserves_credits_witness:
  "committed (reservations (w_holds (after_hangup (snd (sample_dial early_answer (Inr ''leg'')))))) 1 = 0"
proof -
  let ?pid = "\<lambda>s. if s = ''7'' then Some 7 else None"
  obtain r st' where run: "sample_dial early_answer (Inr ''leg'') = (r, st')" by fastforce
  have ok: "world_ok (\<lambda>o'. if o' = 1 then 100 else 0) (ds_world sample_state)"
    using sample_voip_accounts by (simp add: world_ok_parts sample_state_def)
  have w: "after_hangup st' = foldl (world_step exact_decimal ?pid (\<lambda>_. None)) (ds_world st')
      [Deliver (sample_event ''e2'' 130000000 (KHangup Busy)) 2]"
    by (simp add: after_hangup_def)
  have b: "org_balance (hold_pool (w_holds (after_hangup st'))) 1 = Some 100"
    using early_answer_balance run by simp
  have "100 + committed (reservations (w_holds (after_hangup st'))) 1 = (if (1::nat) = 1 then 100 else 0)"
    using call_conserves_credits [OF sample_ready ok run [unfolded sample_dial_def early_answer_def] w b]
    by simp
  with run show ?thesis by simp
qed

text \<open>
  C5: No word of a telephone call is kept without permission: after any sequence of answers,
  key presses and timeouts from rows that have captured nothing, the engines a leg opens, at
  most two, are given the transcript only if the call's row has a consent that permits
  capture at that moment, and none of them bills a listener.
\<close>

theorem no_words_without_permission:
  assumes "rows_fair calls" and "w_calls (h_world h) = foldl (consent_step lower copy settings) calls es"
    and "run_leg R start json now leg bridge sleeps others h = Some (out, h')"
    and "\<And>g. h_sessions (snd (bridge g)) = h_sessions g" "\<And>n g. h_sessions (sleeps n g) = h_sessions g"
      "\<And>g. h_sessions (others g) = h_sessions g"
  shows "\<exists>asked. h_sessions h' = h_sessions h @ asked \<and> length asked \<in> {1, 2}
     \<and> list_all (\<lambda>(_, d). \<not> sd_listener_pays d \<and> (sd_transcripts d \<longrightarrow>
          (\<exists>c. call_row h (pl_call_id leg) = Some c \<and> v_transcription_started_at c \<noteq> None
             \<and> permits_capture (consent_status_parse (v_consent_status c))))) asked"
proof -
  from leg_sessions_ask_permission [OF assms(3-6)] obtain asked where
    asked: "h_sessions h' = h_sessions h @ asked" "length asked \<in> {1, 2}"
      "list_all (\<lambda>(_, d). \<not> sd_listener_pays d
          \<and> (sd_transcripts d \<longleftrightarrow> h_pool h \<and> (\<exists>c. call_row h (pl_call_id leg) = Some c
               \<and> v_transcription_started_at c \<noteq> None))) asked" by blast
  have "permits_capture (consent_status_parse (v_consent_status c))"
    if c: "call_row h (pl_call_id leg) = Some c" "v_transcription_started_at c \<noteq> None" for c
  proof -
    have "captured_fairly c"
      using consent_steps_fair [OF assms(1), of lower copy settings es] find_call_id c(1)
      by (force simp: rows_fair_def call_row_def assms(2))
    with c(2) show ?thesis by (auto simp: captured_fairly_def)
  qed
  with asked show ?thesis by (intro exI [of _ asked]) (auto simp: list_all_iff)
qed

theorem no_words_without_permission_witness:
  "\<exists>out h'. run_leg sample_engines (\<lambda>i _. if i = ''e'' then AtCapacity else Started) (\<lambda>_. ''json'') 5 sample_leg
       (\<lambda>h. (Inr RoomEnded, h)) (\<lambda>_ h. h) (\<lambda>h. h)
       (on_world (with_calls (\<lambda>_. [sample_call (Some 5) ''pending'' ''live''])) sample_host) = Some (out, h')
     \<and> list_all (\<lambda>(_, d). \<not> sd_transcripts d) (h_sessions h')"
proof -
  let ?calls = "[sample_call (Some 5) ''pending'' ''live'']"
  let ?h = "on_world (with_calls (\<lambda>_. ?calls)) sample_host"
  obtain out h' where run: "run_leg sample_engines (\<lambda>i _. if i = ''e'' then AtCapacity else Started) (\<lambda>_. ''json'')
       5 sample_leg (\<lambda>h. (Inr RoomEnded, h)) (\<lambda>_ h. h) (\<lambda>h. h) ?h = Some (out, h')"
    using sample_leg_runs by blast
  have calls: "w_calls (h_world ?h) = foldl (consent_step sample_lower sample_copy (\<lambda>_. None)) ?calls []"
    by (simp add: on_world_def)
  have "call_row ?h (pl_call_id sample_leg) = Some (sample_call (Some 5) ''pending'' ''live'')"
    "v_transcription_started_at (sample_call (Some 5) ''pending'' ''live'') = None" "h_sessions ?h = []"
    by (simp_all add: call_row_def find_call_def sample_leg_def sample_call_def on_world_def sample_host_def)
  with no_words_without_permission [OF sample_fair calls run] run show ?thesis
    by (auto simp: list_all_iff)
qed

end
